(* ===== verification/E9Prelude.thy ===== *)
theory E9Prelude
  imports Main "HOL-Library.Word" "HOL-Library.Monad_Syntax" "HOL-Library.Code_Target_Nat"
begin

text \<open>
  Shared vocabulary of the development: machine words, byte buffers with C's
  access rules, little-endian encoding, and the monadic loop combinator.

  Conventions of the model.
  \<^item> An object of \<open>n\<close> bytes is a list of \<open>n\<close> 8-bit words.  A
    pointer into it is an index.  Reading or writing outside the object is
    undefined behaviour in C; every access below returns an \<open>option\<close> and
    \<open>None\<close> is exactly "the program has left the object".  The type
    abbreviation \<open>'a ub\<close> marks results of this kind.
  \<^item> A pointer that the code compares with \<open>NULL\<close> is an \<open>'a ptr\<close>,
    with \<open>None\<close> for the null pointer.
  \<^item> \<open>uintN_t\<close> is \<open>N word\<close>, \<open>size_t\<close> is \<open>64 word\<close> where
    the code computes with it, \<open>off_t\<close> and \<open>int64_t\<close> are \<open>int\<close>.
\<close>

unbundle bit_operations_syntax

section \<open>Types\<close>

type_synonym u8 = "8 word"
type_synonym u16 = "16 word"
type_synonym u32 = "32 word"
type_synonym u64 = "64 word"
type_synonym bytes = "8 word list"
type_synonym 'a ub = "'a option"
type_synonym 'a ptr = "'a option"

section \<open>Collections of facts\<close>

named_theorems buf_simps \<open>rewrite rules for byte buffer accesses\<close>
named_theorems le_simps \<open>rewrite rules for little-endian encoding\<close>

section \<open>Access to byte buffers\<close>

definition rd8 :: "bytes \<Rightarrow> nat \<Rightarrow> u8 ub" where
  "rd8 d i = (if i < length d then Some (d ! i) else None)"

definition rd_region :: "bytes \<Rightarrow> nat \<Rightarrow> nat \<Rightarrow> bytes ub" where
  "rd_region d off n = (if off + n \<le> length d then Some (take n (drop off d)) else None)"

definition memcpy_to :: "bytes \<Rightarrow> nat \<Rightarrow> bytes \<Rightarrow> bytes ub" where
  "memcpy_to d off p =
     (if off + length p \<le> length d
      then Some (take off d @ p @ drop (off + length p) d) else None)"

text \<open>\<open>memcmp (d + off, pat, length pat) == 0\<close>\<close>

definition memeq :: "bytes \<Rightarrow> nat \<Rightarrow> bytes \<Rightarrow> bool ub" where
  "memeq d off pat = map_option (\<lambda>r. r = pat) (rd_region d off (length pat))"

definition str_bytes :: "string \<Rightarrow> bytes" where
  "str_bytes s = map of_char s"

text \<open>The C string that starts at the head of a buffer.\<close>

definition c_str :: "bytes \<Rightarrow> bytes" where
  "c_str = takeWhile (\<lambda>b. b \<noteq> 0)"

section \<open>Little-endian values\<close>

fun le_nat :: "bytes \<Rightarrow> nat" where
  "le_nat [] = 0"
| "le_nat (b # bs) = unat b + 256 * le_nat bs"

fun le_bytes :: "nat \<Rightarrow> nat \<Rightarrow> bytes" where
  "le_bytes 0 v = []"
| "le_bytes (Suc n) v = word_of_nat v # le_bytes n (v div 256)"

definition rd16 :: "bytes \<Rightarrow> nat \<Rightarrow> u16 ub" where
  "rd16 d off = map_option (\<lambda>r. word_of_nat (le_nat r)) (rd_region d off 2)"

definition rd32 :: "bytes \<Rightarrow> nat \<Rightarrow> u32 ub" where
  "rd32 d off = map_option (\<lambda>r. word_of_nat (le_nat r)) (rd_region d off 4)"

definition rd64 :: "bytes \<Rightarrow> nat \<Rightarrow> u64 ub" where
  "rd64 d off = map_option (\<lambda>r. word_of_nat (le_nat r)) (rd_region d off 8)"

section \<open>Loops whose body may leave the buffer\<close>

primrec mfold :: "('x \<Rightarrow> 's \<Rightarrow> 's option) \<Rightarrow> 'x list \<Rightarrow> 's \<Rightarrow> 's option" where
  "mfold f [] s = Some s"
| "mfold f (x # xs) s = Option.bind (f x s) (mfold f xs)"

section \<open>Lemmas: buffers\<close>

lemma rd8_eq_Some [buf_simps]: "rd8 d i = Some b \<longleftrightarrow> i < length d \<and> b = d ! i"
  by (auto simp: rd8_def)

lemma rd8_eq_None [buf_simps]: "rd8 d i = None \<longleftrightarrow> length d \<le> i"
  by (auto simp: rd8_def)

lemma rd_region_eq_Some [buf_simps]:
  "rd_region d off n = Some r \<longleftrightarrow> off + n \<le> length d \<and> r = take n (drop off d)"
  by (auto simp: rd_region_def)

lemma rd_region_eq_None [buf_simps]: "rd_region d off n = None \<longleftrightarrow> length d < off + n"
  by (auto simp: rd_region_def)

lemma memcpy_to_eq_Some [buf_simps]:
  "memcpy_to d off p = Some d' \<longleftrightarrow>
     off + length p \<le> length d \<and> d' = take off d @ p @ drop (off + length p) d"
  by (auto simp: memcpy_to_def)

lemma memcpy_to_eq_None [buf_simps]: "memcpy_to d off p = None \<longleftrightarrow> length d < off + length p"
  by (auto simp: memcpy_to_def)

lemma memeq_eq_Some [buf_simps]:
  "memeq d off pat = Some b \<longleftrightarrow>
     off + length pat \<le> length d \<and> b = (take (length pat) (drop off d) = pat)"
  by (auto simp: memeq_def rd_region_def)

lemma memeq_eq_None [buf_simps]: "memeq d off pat = None \<longleftrightarrow> length d < off + length pat"
  by (auto simp: memeq_def rd_region_def)

lemma rd16_eq_None [buf_simps]: "rd16 d off = None \<longleftrightarrow> length d < off + 2"
  by (auto simp: rd16_def rd_region_def)

lemma rd32_eq_None [buf_simps]: "rd32 d off = None \<longleftrightarrow> length d < off + 4"
  by (auto simp: rd32_def rd_region_def)

lemma rd64_eq_None [buf_simps]: "rd64 d off = None \<longleftrightarrow> length d < off + 8"
  by (auto simp: rd64_def rd_region_def)

lemma length_memcpy_to: "memcpy_to d off p = Some d' \<Longrightarrow> length d' = length d"
  by (auto simp: buf_simps)

lemma nth_memcpy_to:
  assumes "memcpy_to d off p = Some d'" and "i < length d"
  shows "d' ! i = (if off \<le> i \<and> i < off + length p then p ! (i - off) else d ! i)"
  using assms by (auto simp: buf_simps nth_append)

lemma memcpy_to_defined: "off + length p \<le> length d \<Longrightarrow> \<exists>d'. memcpy_to d off p = Some d'"
  by (simp add: memcpy_to_def)

lemma length_str_bytes [simp]: "length (str_bytes s) = length s"
  by (simp add: str_bytes_def)

section \<open>Lemmas: words\<close>

lemma unat_lt2p: "unat (w :: 'a::len word) < 2 ^ LENGTH('a)"
  by simp

lemma unat_u8_less [simp]: "unat (b :: u8) < 256"
  using unat_lt2p [of b] by simp

lemma unat_u16_less: "unat (b :: u16) < 65536"
  using unat_lt2p [of b] by simp

lemma unat_u32_less: "unat (b :: u32) < 4294967296"
  using unat_lt2p [of b] by simp

lemma uint_u32_less: "uint (b :: u32) < 4294967296"
  using uint_lt2p [of b] by simp

lemma unat_u64_less: "unat (b :: u64) < 18446744073709551616"
  using unat_lt2p [of b] by simp

lemma unat_ucast_u32_u64 [simp]: "unat (ucast (x :: u32) :: u64) = unat x"
  using unat_u32_less [of x] by (simp add: unsigned_ucast_eq take_bit_nat_eq_self)

lemma unat_ucast_u16_u64 [simp]: "unat (ucast (x :: u16) :: u64) = unat x"
  using unat_u16_less [of x] by (simp add: unsigned_ucast_eq take_bit_nat_eq_self)

lemma unat_ucast_u8_u64 [simp]: "unat (ucast (x :: u8) :: u64) = unat x"
  by (simp add: unsigned_ucast_eq take_bit_nat_eq_self order_less_trans [OF unat_u8_less])

lemma uint_ucast_u32_u64 [simp]: "uint (ucast (x :: u32) :: u64) = uint x"
  by (metis of_nat_unat unat_ucast_u32_u64)

lemma sint_u64_small: "uint (w :: u64) < 2 ^ 63 \<Longrightarrow> sint w = uint w"
  using signed_take_bit_int_eq_self [of 63 "uint w"] uint_ge_0 [of w]
  by (simp add: sint_uint order_trans [of _ 0])

lemma uint_diff_le: "uint b \<le> uint a \<Longrightarrow> uint (a - b) = uint a - uint b"
  for a b :: "'a::len word"
  by (simp add: uint_sub_lem)

lemma uint_add_small:
  "uint a + uint b < 2 ^ LENGTH('a) \<Longrightarrow> uint (a + b) = uint a + uint b" for a b :: "'a::len word"
  by (simp add: uint_add_lem)

lemma unat_add_small:
  "unat a + unat b < 2 ^ LENGTH('a) \<Longrightarrow> unat (a + b) = unat a + unat b" for a b :: "'a::len word"
  by (simp add: unat_add_lem)

lemma uint_less_if_unat: "unat w < 2 ^ k \<Longrightarrow> uint w < 2 ^ k" for w :: "'a::len word"
proof -
  assume "unat w < 2 ^ k"
  then have "int (unat w) < int (2 ^ k)" by (simp only: of_nat_less_iff)
  then show "uint w < 2 ^ k" by simp
qed

section \<open>Lemmas: little-endian encoding\<close>

lemma length_le_bytes [simp]: "length (le_bytes n v) = n"
  by (induction n arbitrary: v) auto

lemma le_nat_le_bytes [le_simps]: "le_nat (le_bytes n v) = v mod 256 ^ n"
proof (induction n arbitrary: v)
  case 0
  then show ?case by simp
next
  case (Suc n)
  have "v mod 256 + 256 * (v div 256 mod 256 ^ n) = v mod (256 * 256 ^ n)"
    by (simp add: mod_mult2_eq)
  then show ?case by (simp add: Suc unat_of_nat)
qed

lemma le_nat_bound [le_simps]: "le_nat bs < 256 ^ length bs"
proof (induction bs)
  case Nil
  then show ?case by simp
next
  case (Cons b bs)
  have "unat b < 256" by simp
  then have "unat b + 256 * le_nat bs < 256 * (le_nat bs + 1)" by simp
  also have "\<dots> \<le> 256 * 256 ^ length bs" using Cons by simp
  finally show ?case by simp
qed

lemma le_bytes_le_nat [le_simps]: "le_bytes (length bs) (le_nat bs) = bs"
proof (induction bs)
  case Nil
  then show ?case by simp
next
  case (Cons b bs)
  have b: "unat b < 256" by simp
  then have "(unat b + 256 * le_nat bs) mod 256 = unat b" by simp
  then have "unat (word_of_nat (unat b + 256 * le_nat bs) :: u8) = unat b"
    by (simp only: unat_of_nat) simp
  then have "(word_of_nat (unat b + 256 * le_nat bs) :: u8) = b"
    by (simp only: word_unat_eq_iff)
  moreover have "(unat b + 256 * le_nat bs) div 256 = le_nat bs"
    using b by simp
  ultimately show ?case using Cons by simp
qed

lemma rd32_le_bytes:
  assumes "rd_region d off 4 = Some (le_bytes 4 (unat (v :: u32)))"
  shows "rd32 d off = Some v"
proof -
  have "unat v mod 256 ^ 4 = unat v" using unat_u32_less [of v] by simp
  then have "(word_of_nat (unat v mod 256 ^ 4) :: u32) = v" by (simp del: of_nat_mod)
  with assms show ?thesis by (simp add: rd32_def le_nat_le_bytes del: of_nat_mod)
qed

lemma rd64_le_bytes:
  assumes "rd_region d off 8 = Some (le_bytes 8 (unat (v :: u64)))"
  shows "rd64 d off = Some v"
proof -
  have "unat v mod 256 ^ 8 = unat v" using unat_u64_less [of v] by simp
  then have "(word_of_nat (unat v mod 256 ^ 8) :: u64) = v" by (simp del: of_nat_mod)
  with assms show ?thesis by (simp add: rd64_def le_nat_le_bytes del: of_nat_mod)
qed

section \<open>Lemmas: monadic loops\<close>

lemma mfold_append: "mfold f (xs @ ys) s = Option.bind (mfold f xs s) (mfold f ys)"
  by (induction xs arbitrary: s) (auto simp: Option.bind_assoc split: Option.bind_splits)

lemma mfold_map: "mfold f (map g xs) s = mfold (\<lambda>x. f (g x)) xs s"
  by (induction xs arbitrary: s) (auto split: Option.bind_splits)

lemma mfold_invariant:
  assumes "mfold f xs s = Some s'" and "P s"
    and "\<And>x s s'. x \<in> set xs \<Longrightarrow> P s \<Longrightarrow> f x s = Some s' \<Longrightarrow> P s'"
  shows "P s'"
  using assms
proof (induction xs arbitrary: s)
  case Nil
  then show ?case by simp
next
  case (Cons x xs)
  then obtain s1 where "f x s = Some s1" and "mfold f xs s1 = Some s'"
    by (auto split: Option.bind_splits)
  with Cons show ?case by (metis list.set_intros(1,2))
qed

lemma mfold_defined:
  assumes "P s" and "\<And>x s. x \<in> set xs \<Longrightarrow> P s \<Longrightarrow> \<exists>s'. f x s = Some s' \<and> P s'"
  shows "\<exists>s'. mfold f xs s = Some s' \<and> P s'"
  using assms
proof (induction xs arbitrary: s)
  case Nil
  then show ?case by simp
next
  case (Cons x xs)
  from Cons.prems(1) Cons.prems(2) [of x s] obtain s1 where s1: "f x s = Some s1" "P s1"
    by auto
  have "\<exists>s'. mfold f xs s1 = Some s' \<and> P s'"
    by (rule Cons.IH [OF s1(2)]) (use Cons.prems(2) in auto)
  with s1 show ?case by simp
qed

section \<open>Lemmas: lists\<close>

lemma length_filter_update:
  assumes "i < length xs"
  shows "length (filter P (xs[i := y])) + (if P (xs ! i) then 1 else 0) =
    length (filter P xs) + (if P y then 1 else 0)"
proof -
  have "filter P xs = filter P (take i xs @ xs ! i # drop (Suc i) xs)"
    using id_take_nth_drop [OF assms] by simp
  then show ?thesis by (simp add: upd_conv_take_nth_drop [OF assms])
qed

lemma list_all_update:
  assumes "\<forall>x \<in> set xs. P x" and "P y"
  shows "\<forall>x \<in> set (xs[i := y]). P x"
  using assms set_update_subset_insert [of xs i y] by auto

lemma find_upt_unique:
  assumes "i < n" and "P i" and "\<And>j. j < n \<Longrightarrow> P j \<Longrightarrow> j = i"
  shows "find P [0 ..< n] = Some i"
proof -
  have "\<exists>j. find P [0 ..< n] = Some j"
    using assms(1,2) find_None_iff [of P "[0 ..< n]"] by (cases "find P [0 ..< n]") auto
  then obtain j where j: "find P [0 ..< n] = Some j" by blast
  then have "j < n" "P j" by (auto simp: find_Some_iff)
  with assms(3) j show ?thesis by simp
qed

end
