(* ===== verification/E9Buffer.thy ===== *)
theory E9Buffer
  imports E9Prelude
begin

text \<open>
  The interface through which every patching component writes to a binary image:
  a store of bytes with a size, a byte read and a region write.  The clients
  (\<open>e9ape.c\<close>, \<open>e9livereload.c\<close>, \<open>e9analysis/e9binpatch.c\<close>) rely on
  the laws below only; the plain C buffer provides them.
\<close>

section \<open>Sequences of region writes\<close>

type_synonym patch_region = "nat \<times> bytes"

fun wr_list :: "('s \<Rightarrow> nat \<Rightarrow> bytes \<Rightarrow> 's option) \<Rightarrow> 's \<Rightarrow> patch_region list \<Rightarrow> 's option" where
  "wr_list wr s [] = Some s"
| "wr_list wr s ((off, p) # ps) = Option.bind (wr s off p) (\<lambda>s'. wr_list wr s' ps)"

text \<open>Two half-open regions \<open>[a, a+m)\<close> and \<open>[b, b+n)\<close> do not meet.\<close>

definition regions_apart :: "nat \<Rightarrow> nat \<Rightarrow> nat \<Rightarrow> nat \<Rightarrow> bool" where
  "regions_apart a m b n \<longleftrightarrow> a + m \<le> b \<or> b + n \<le> a"

fun all_apart :: "patch_region list \<Rightarrow> bool" where
  "all_apart [] = True"
| "all_apart ((off, p) # ps) =
     ((\<forall>(off', p') \<in> set ps. regions_apart off (length p) off' (length p')) \<and> all_apart ps)"

lemma regions_apart_sym: "regions_apart a m b n = regions_apart b n a m"
  by (auto simp: regions_apart_def)

section \<open>The interface\<close>

locale byte_store =
  fixes get :: "'s \<Rightarrow> nat \<Rightarrow> u8 option"
    and wr :: "'s \<Rightarrow> nat \<Rightarrow> bytes \<Rightarrow> 's option"
    and sz :: "'s \<Rightarrow> nat"
  assumes get_defined: "(\<exists>b. get s i = Some b) \<longleftrightarrow> i < sz s"
    and wr_defined: "(\<exists>s'. wr s off p = Some s') \<longleftrightarrow> off + length p \<le> sz s"
    and sz_wr: "wr s off p = Some s' \<Longrightarrow> sz s' = sz s"
    and get_wr: "wr s off p = Some s' \<Longrightarrow>
      get s' i = (if off \<le> i \<and> i < off + length p then Some (p ! (i - off)) else get s i)"
begin

lemma wr_list_sz: "wr_list wr s ps = Some s' \<Longrightarrow> sz s' = sz s"
  by (induction ps arbitrary: s) (auto split: Option.bind_splits simp: sz_wr)

lemma wr_list_frame:
  assumes "wr_list wr s ps = Some s'"
    and "\<forall>(off, p) \<in> set ps. i < off \<or> off + length p \<le> i"
  shows "get s' i = get s i"
  using assms
proof (induction ps arbitrary: s)
  case Nil
  then show ?case by simp
next
  case (Cons x ps)
  obtain off p where x: "x = (off, p)" by (cases x)
  with Cons.prems(1) obtain s1 where s1: "wr s off p = Some s1" "wr_list wr s1 ps = Some s'"
    by (auto split: Option.bind_splits)
  have "get s' i = get s1 i" using Cons.IH [OF s1(2)] Cons.prems(2) by auto
  also have "\<dots> = get s i" using get_wr [OF s1(1), of i] Cons.prems(2) x by auto
  finally show ?case .
qed

lemma wr_list_reads:
  assumes "wr_list wr s ps = Some s'" and "all_apart ps"
    and "(off, p) \<in> set ps" and "k < length p"
  shows "get s' (off + k) = Some (p ! k)"
  using assms
proof (induction ps arbitrary: s)
  case Nil
  then show ?case by simp
next
  case (Cons x ps)
  obtain off1 p1 where x: "x = (off1, p1)" by (cases x)
  with Cons.prems(1) obtain s1 where s1: "wr s off1 p1 = Some s1" "wr_list wr s1 ps = Some s'"
    by (auto split: Option.bind_splits)
  show ?case
  proof (cases "(off, p) \<in> set ps")
    case True
    with Cons.IH [OF s1(2)] Cons.prems(2,4) x show ?thesis by auto
  next
    case False
    with Cons.prems(3) x have eq: "off = off1" "p = p1" by auto
    have "\<forall>(off', p') \<in> set ps. off + k < off' \<or> off' + length p' \<le> off + k"
      using Cons.prems(2,4) x eq by (fastforce simp: regions_apart_def)
    then have "get s' (off + k) = get s1 (off + k)"
      by (rule wr_list_frame [OF s1(2)])
    then show ?thesis using get_wr [OF s1(1), of "off + k"] Cons.prems(4) eq by simp
  qed
qed

lemma wr_list_defined:
  "(\<exists>s'. wr_list wr s ps = Some s') \<longleftrightarrow> (\<forall>(off, p) \<in> set ps. off + length p \<le> sz s)"
proof (induction ps arbitrary: s)
  case Nil
  then show ?case by simp
next
  case (Cons x ps)
  obtain off p where x: "x = (off, p)" by (cases x)
  show ?case
  proof (cases "wr s off p")
    case None
    with wr_defined [of s off p] x show ?thesis by auto
  next
    case (Some s1)
    with Cons [of s1] wr_defined [of s off p] sz_wr [OF Some] x show ?thesis by auto
  qed
qed

lemma get_wr_undo:
  assumes w: "wr s off p = Some s'" and u: "wr s' off old = Some s''"
    and old: "length old = length p" "\<And>k. k < length p \<Longrightarrow> get s (off + k) = Some (old ! k)"
  shows "get s'' i = get s i"
proof (cases "off \<le> i \<and> i < off + length p")
  case True
  then have "get s (off + (i - off)) = Some (old ! (i - off))" by (intro old(2)) linarith
  with True show ?thesis using get_wr [OF u, of i] old(1) by simp
next
  case False
  then show ?thesis using get_wr [OF u, of i] get_wr [OF w, of i] old(1) by auto
qed

end

text \<open>A store that is nothing but its bytes: equal reads mean equal stores.\<close>

locale extensional_store = byte_store +
  assumes store_ext: "sz s = sz t \<Longrightarrow> (\<And>i. get s i = get t i) \<Longrightarrow> s = t"
begin

lemma wr_undo:
  assumes w: "wr s off p = Some s'"
    and old: "length old = length p" "\<And>k. k < length p \<Longrightarrow> get s (off + k) = Some (old ! k)"
  shows "wr s' off old = Some s"
proof -
  have "off + length old \<le> sz s'" using wr_defined [of s off p] w sz_wr [OF w] old(1) by auto
  with wr_defined [of s' off old] obtain s'' where u: "wr s' off old = Some s''" by auto
  have "s'' = s"
    by (rule store_ext) (use sz_wr [OF w] sz_wr [OF u] get_wr_undo [OF w u old] in auto)
  with u show ?thesis by simp
qed

lemma wr_commute:
  assumes "regions_apart a (length p) b (length q)"
  shows "Option.bind (wr s a p) (\<lambda>t. wr t b q) = Option.bind (wr s b q) (\<lambda>t. wr t a p)"
proof (cases "a + length p \<le> sz s \<and> b + length q \<le> sz s")
  case True
  then obtain s1 s2 where s1: "wr s a p = Some s1" and s2: "wr s b q = Some s2"
    using wr_defined by meson
  from True sz_wr [OF s1] sz_wr [OF s2] obtain t1 t2
    where t1: "wr s1 b q = Some t1" and t2: "wr s2 a p = Some t2"
    using wr_defined [of s1 b q] wr_defined [of s2 a p] by auto
  have "t1 = t2"
  proof (rule store_ext)
    show "sz t1 = sz t2"
      using sz_wr [OF s1] sz_wr [OF s2] sz_wr [OF t1] sz_wr [OF t2] by simp
    show "get t1 i = get t2 i" for i
      using assms get_wr [OF s1, of i] get_wr [OF s2, of i] get_wr [OF t1, of i] get_wr [OF t2, of i]
      by (auto simp: regions_apart_def)
  qed
  with s1 s2 t1 t2 show ?thesis by simp
next
  case False
  have none: "Option.bind (wr s c x) (\<lambda>t. wr t e y) = None"
    if "\<not> (c + length x \<le> sz s \<and> e + length y \<le> sz s)" for c x e y
  proof (cases "wr s c x")
    case None
    then show ?thesis by simp
  next
    case (Some t)
    then have "\<not> e + length y \<le> sz t"
      using that wr_defined [of s c x] sz_wr [OF Some] by auto
    with wr_defined [of t e y] Some show ?thesis by (cases "wr t e y") auto
  qed
  with False show ?thesis by auto
qed

end

section \<open>C buffers implement the interface\<close>

interpretation cbuf: extensional_store rd8 memcpy_to length
proof
  show "(\<exists>b. rd8 s i = Some b) \<longleftrightarrow> i < length s" for s i
    by (auto simp: rd8_def)
  show "(\<exists>s'. memcpy_to s off p = Some s') \<longleftrightarrow> off + length p \<le> length s" for s off p
    by (auto simp: memcpy_to_def)
  show "memcpy_to s off p = Some s' \<Longrightarrow> length s' = length s" for s off p s'
    by (rule length_memcpy_to)
  show "rd8 s' i = (if off \<le> i \<and> i < off + length p then Some (p ! (i - off)) else rd8 s i)"
    if w: "memcpy_to s off p = Some s'" for s off p s' i
  proof -
    have len: "length s' = length s" by (rule length_memcpy_to [OF w])
    have rng: "off + length p \<le> length s" using w by (simp add: memcpy_to_eq_Some)
    show ?thesis
    proof (cases "i < length s")
      case True
      with nth_memcpy_to [OF w True] len show ?thesis by (simp add: rd8_def)
    next
      case False
      with len rng show ?thesis by (simp add: rd8_def)
    qed
  qed
  show "s = t" if "length s = length t" and eq: "\<And>i. rd8 s i = rd8 t i" for s t
  proof (rule nth_equalityI [OF that(1)])
    show "s ! i = t ! i" if "i < length s" for i
      using eq [of i] that \<open>length s = length t\<close> by (simp add: rd8_def)
  qed
qed

lemma memcpy_to_undo:
  assumes "memcpy_to d off p = Some d'" and "rd_region d off (length p) = Some old"
  shows "memcpy_to d' off old = Some d"
proof (rule cbuf.wr_undo [OF assms(1)])
  from assms(2) have r: "off + length p \<le> length d" "old = take (length p) (drop off d)"
    by (auto simp: buf_simps)
  then show "length old = length p" by simp
  show "rd8 d (off + k) = Some (old ! k)" if "k < length p" for k
    using r that by (simp add: rd8_def)
qed

lemma rd_region_memcpy_to:
  assumes "memcpy_to d off p = Some d'"
  shows "rd_region d' off (length p) = Some p"
  using assms by (auto simp: buf_simps)

end
