(* ===== verification/E9Ape.thy ===== *)
theory E9Ape
  imports E9Buffer
begin

text \<open>
  \<open>src/src/e9patch/e9ape.c\<close>: detection and parsing of APE (Actually Portable
  Executable) images, translation between PE relative virtual addresses and file
  offsets, patching of the image, and the ZipOS directory.

  A result \<open>None\<close> of the outermost \<open>option\<close> is an access outside the image
  (undefined behaviour of the C code); failure returns of the C code are ordinary values.
  Allocation is taken to succeed, the messages printed to \<open>stderr\<close> are left out, and
  unaligned loads read the bytes at the address.
\<close>

section \<open>Constants and structures\<close>

definition APE_MAGIC_COSMO :: bytes where "APE_MAGIC_COSMO = str_bytes ''MZqFpD''"
definition PE_SIGNATURE :: bytes where "PE_SIGNATURE = str_bytes ''PE'' @ [0, 0]"
definition ELF_MAGIC :: bytes where "ELF_MAGIC = 0x7f # str_bytes ''ELF''"
definition ZIP_LOCAL_MAGIC :: bytes where "ZIP_LOCAL_MAGIC = str_bytes ''PK'' @ [3, 4]"
definition ZIP_CENTRAL_MAGIC :: bytes where "ZIP_CENTRAL_MAGIC = str_bytes ''PK'' @ [1, 2]"
definition ZIP_END_MAGIC :: bytes where "ZIP_END_MAGIC = str_bytes ''PK'' @ [5, 6]"

definition PE_MACHINE_AMD64 :: u16 where "PE_MACHINE_AMD64 = 0x8664"
definition PE_MACHINE_ARM64 :: u16 where "PE_MACHINE_ARM64 = 0xAA64"
definition ELF_MACHINE_X86_64 :: u16 where "ELF_MACHINE_X86_64 = 0x3E"
definition ELF_MACHINE_AARCH64 :: u16 where "ELF_MACHINE_AARCH64 = 0xB7"

lemmas ape_magics =
  APE_MAGIC_COSMO_def PE_SIGNATURE_def ELF_MAGIC_def ZIP_LOCAL_MAGIC_def
  ZIP_CENTRAL_MAGIC_def ZIP_END_MAGIC_def str_bytes_def

lemmas ape_machines =
  PE_MACHINE_AMD64_def PE_MACHINE_ARM64_def ELF_MACHINE_X86_64_def ELF_MACHINE_AARCH64_def

text \<open>
  The structures overlaid on the image: byte offset of each member the code reads, and
  \<open>sizeof\<close>.
\<close>

definition sizeof_PE_FILE_HEADER :: nat where "sizeof_PE_FILE_HEADER = 20"
definition sizeof_PE_SECTION_HEADER :: nat where "sizeof_PE_SECTION_HEADER = 40"

definition FILE_HEADER_Machine :: "bytes \<Rightarrow> nat \<Rightarrow> u16 ub" where
  "FILE_HEADER_Machine data p = rd16 data p"
definition FILE_HEADER_NumberOfSections :: "bytes \<Rightarrow> nat \<Rightarrow> u16 ub" where
  "FILE_HEADER_NumberOfSections data p = rd16 data (p + 2)"
definition FILE_HEADER_SizeOfOptionalHeader :: "bytes \<Rightarrow> nat \<Rightarrow> u16 ub" where
  "FILE_HEADER_SizeOfOptionalHeader data p = rd16 data (p + 16)"
definition OPT_HEADER_Magic :: "bytes \<Rightarrow> nat \<Rightarrow> u16 ub" where
  "OPT_HEADER_Magic data p = rd16 data p"
definition OPT_HEADER_SizeOfImage :: "bytes \<Rightarrow> nat \<Rightarrow> u32 ub" where
  "OPT_HEADER_SizeOfImage data p = rd32 data (p + 56)"
definition SECTION_VirtualAddress :: "bytes \<Rightarrow> nat \<Rightarrow> u32 ub" where
  "SECTION_VirtualAddress data p = rd32 data (p + 12)"
definition SECTION_SizeOfRawData :: "bytes \<Rightarrow> nat \<Rightarrow> u32 ub" where
  "SECTION_SizeOfRawData data p = rd32 data (p + 16)"
definition SECTION_PointerToRawData :: "bytes \<Rightarrow> nat \<Rightarrow> u32 ub" where
  "SECTION_PointerToRawData data p = rd32 data (p + 20)"

lemmas pe_fields =
  sizeof_PE_FILE_HEADER_def sizeof_PE_SECTION_HEADER_def FILE_HEADER_Machine_def
  FILE_HEADER_NumberOfSections_def FILE_HEADER_SizeOfOptionalHeader_def OPT_HEADER_Magic_def
  OPT_HEADER_SizeOfImage_def SECTION_VirtualAddress_def SECTION_SizeOfRawData_def
  SECTION_PointerToRawData_def

record E9_APEInfo =
  file_size :: u64
  is_cosmopolitan :: bool
  pe_offset :: int
  pe_size :: u64
  pe_num_sections :: u16
  text_offset :: int
  text_rva :: u32
  text_size :: u64
  rdata_offset :: int
  rdata_rva :: u32
  rdata_size :: u64
  data_offset :: int
  data_rva :: u32
  data_size :: u64
  has_arm64_elf :: bool
  arm64_elf_offset :: int
  is_assimilated :: bool
  x86_elf_offset :: int
  zipos_start :: int
  zipos_central_dir :: int
  zipos_end :: int
  zipos_num_entries :: u32
  preserve_zipos :: bool

definition zero_APEInfo :: E9_APEInfo where
  "zero_APEInfo = \<lparr>file_size = 0, is_cosmopolitan = False, pe_offset = 0, pe_size = 0,
     pe_num_sections = 0, text_offset = 0, text_rva = 0, text_size = 0,
     rdata_offset = 0, rdata_rva = 0, rdata_size = 0, data_offset = 0, data_rva = 0,
     data_size = 0, has_arm64_elf = False, arm64_elf_offset = 0, is_assimilated = False,
     x86_elf_offset = 0, zipos_start = 0, zipos_central_dir = 0, zipos_end = 0,
     zipos_num_entries = 0, preserve_zipos = False\<rparr>"

record E9_ZipOSEntry =
  ze_name :: bytes
  ze_local_header_offset :: int
  ze_compressed_size :: u64
  ze_uncompressed_size :: u64
  ze_compression :: u16
  ze_crc32 :: u32
  ze_is_directory :: bool

text \<open>Why \<open>e9_ape_parse\<close> returns \<open>-1\<close>.\<close>

datatype ape_error =
    APE_NULL_OR_SHORT
  | APE_NOT_DETECTED
  | APE_PE_OUT_OF_BOUNDS
  | APE_BAD_PE_SIGNATURE
  | APE_BAD_MACHINE
  | APE_NOT_PE32PLUS

section \<open>Detection\<close>

text \<open>\<open>for (i = 8; i < 64 && i < size - 2; i++) if (data[i] == '<' && data[i+1] == '<') return true\<close>\<close>

function ape_heredoc_near :: "bytes \<Rightarrow> nat \<Rightarrow> bool ub" where
  "ape_heredoc_near data i =
     (if i < 64 \<and> i < length data - 2 then do {
        a \<leftarrow> rd8 data i;
        b \<leftarrow> (if a = 0x3C then rd8 data (i + 1) else Some 0);
        if a = 0x3C \<and> b = 0x3C then Some True else ape_heredoc_near data (i + 1)
      } else Some False)"
  by pat_completeness auto
termination
  by (relation "measure (\<lambda>(data, i). 64 - i)") auto

definition e9_ape_detect :: "bytes ptr \<Rightarrow> bool ub" where
  "e9_ape_detect p = (case p of
     None \<Rightarrow> Some False
   | Some data \<Rightarrow>
     if length data < 64 then Some False else do {
       cosmo \<leftarrow> memeq data 0 APE_MAGIC_COSMO;
       if cosmo then Some True else do {
         m \<leftarrow> rd8 data 0;
         z \<leftarrow> rd8 data 1;
         if m = 0x4D \<and> z = 0x5A then
           if length data < 0x40 then Some False else do {
             pe_off \<leftarrow> rd32 data 0x3C;
             if length data < unat (pe_off + 4) then Some False else do {
               sig \<leftarrow> memeq data (unat pe_off) PE_SIGNATURE;
               if sig then do {
                 heredoc \<leftarrow> ape_heredoc_near data 8;
                 if heredoc then Some True else Some True
               } else Some False
             }
           }
         else Some False
       }
     })"

section \<open>Parsing\<close>

text \<open>
  The scan for the heredoc marker stores nothing (the assignment is commented out in the
  source), so it is a read-only loop.
\<close>

function ape_marker_end :: "bytes \<Rightarrow> nat \<Rightarrow> unit ub" where
  "ape_marker_end data k =
     (if k < length data then do {
        c \<leftarrow> rd8 data k;
        if c = 0x27 then Some () else ape_marker_end data (k + 1)
      } else Some ())"
  by pat_completeness auto
termination
  by (relation "measure (\<lambda>(data, k). length data - k)") auto

function ape_marker_scan :: "bytes \<Rightarrow> nat \<Rightarrow> unit ub" where
  "ape_marker_scan data i =
     (if i < 128 \<and> i + 16 < length data then do {
        a \<leftarrow> rd8 data i;
        b \<leftarrow> rd8 data (i + 1);
        c \<leftarrow> rd8 data (i + 2);
        if a = 0x3C \<and> b = 0x3C \<and> c = 0x27 then ape_marker_end data (i + 3)
        else ape_marker_scan data (i + 1)
      } else Some ())"
  by pat_completeness auto
termination
  by (relation "measure (\<lambda>(data, i). 128 - i)") auto

text \<open>One iteration of the section loop: the header at \<open>sec\<close> updates the cache.\<close>

definition ape_cache_section :: "bytes \<Rightarrow> nat \<Rightarrow> E9_APEInfo \<Rightarrow> E9_APEInfo ub" where
  "ape_cache_section data sec info = do {
     is_text \<leftarrow> memeq data sec (str_bytes ''.text'');
     if is_text then do {
       off \<leftarrow> SECTION_PointerToRawData data sec;
       rva \<leftarrow> SECTION_VirtualAddress data sec;
       len \<leftarrow> SECTION_SizeOfRawData data sec;
       Some (info\<lparr>text_offset := uint off, text_rva := rva, text_size := ucast len\<rparr>)
     } else do {
       is_rdata \<leftarrow> memeq data sec (str_bytes ''.rdata'');
       if is_rdata then do {
         off \<leftarrow> SECTION_PointerToRawData data sec;
         rva \<leftarrow> SECTION_VirtualAddress data sec;
         len \<leftarrow> SECTION_SizeOfRawData data sec;
         Some (info\<lparr>rdata_offset := uint off, rdata_rva := rva, rdata_size := ucast len\<rparr>)
       } else do {
         is_data \<leftarrow> memeq data sec (str_bytes ''.data'');
         if is_data then do {
           off \<leftarrow> SECTION_PointerToRawData data sec;
           rva \<leftarrow> SECTION_VirtualAddress data sec;
           len \<leftarrow> SECTION_SizeOfRawData data sec;
           Some (info\<lparr>data_offset := uint off, data_rva := rva, data_size := ucast len\<rparr>)
         } else Some info
       }
     }
   }"

definition ape_cache_sections :: "bytes \<Rightarrow> nat \<Rightarrow> E9_APEInfo \<Rightarrow> E9_APEInfo ub" where
  "ape_cache_sections data sec_table info =
     mfold (\<lambda>i. ape_cache_section data (sec_table + i * sizeof_PE_SECTION_HEADER))
       [0 ..< min (unat (pe_num_sections info)) 16] info"

text \<open>\<open>(data_offset + data_size + 0xFFF) & ~0xFFF\<close>; the members are below \<open>2 ^ 32\<close>.\<close>

definition ape_elf_search_start :: "E9_APEInfo \<Rightarrow> nat" where
  "ape_elf_search_start info =
     (nat (data_offset info) + unat (data_size info) + 0xFFF) div 0x1000 * 0x1000"

function ape_find_elf :: "bytes \<Rightarrow> nat \<Rightarrow> E9_APEInfo \<Rightarrow> E9_APEInfo ub" where
  "ape_find_elf data i info =
     (if i + 64 < length data then do {
        elf \<leftarrow> memeq data i ELF_MAGIC;
        if elf then do {
          e_machine \<leftarrow> rd16 data (i + 18);
          if e_machine = ELF_MACHINE_AARCH64
          then Some (info\<lparr>has_arm64_elf := True, arm64_elf_offset := int i\<rparr>)
          else if e_machine = ELF_MACHINE_X86_64
          then ape_find_elf data (i + 0x1000) (info\<lparr>is_assimilated := True, x86_elf_offset := int i\<rparr>)
          else ape_find_elf data (i + 0x1000) info
        } else ape_find_elf data (i + 0x1000) info
      } else Some info)"
  by pat_completeness auto
termination
  by (relation "measure (\<lambda>(data, i, info). length data - i)") auto

text \<open>\<open>for (j = 0; j < zipos_central_dir && j + 4 < size; j++)\<close>: the first local header.\<close>

function ape_find_local :: "bytes \<Rightarrow> nat \<Rightarrow> E9_APEInfo \<Rightarrow> E9_APEInfo ub" where
  "ape_find_local data j info =
     (if int j < zipos_central_dir info \<and> j + 4 < length data then do {
        hit \<leftarrow> memeq data j ZIP_LOCAL_MAGIC;
        if hit then Some (info\<lparr>zipos_start := int j\<rparr>) else ape_find_local data (j + 1) info
      } else Some info)"
  by pat_completeness auto
termination
  by (relation "measure (\<lambda>(data, j, info). length data - j)") auto

text \<open>\<open>for (i = size - 22; i > 0 && i > size - 65536; i--)\<close>: backwards to the EOCD record.\<close>

function ape_find_eocd :: "bytes \<Rightarrow> nat \<Rightarrow> E9_APEInfo \<Rightarrow> E9_APEInfo ub" where
  "ape_find_eocd data i info =
     (if 0 < i \<and> int i > int (length data) - 65536 then do {
        hit \<leftarrow> memeq data i ZIP_END_MAGIC;
        if hit then do {
          n \<leftarrow> rd16 data (i + 10);
          cd \<leftarrow> rd32 data (i + 16);
          ape_find_local data 0
            (info\<lparr>zipos_end := int i + 22, zipos_num_entries := ucast n, zipos_central_dir := uint cd\<rparr>)
        } else ape_find_eocd data (i - 1) info
      } else Some info)"
  by pat_completeness auto
termination
  by (relation "measure (\<lambda>(data, i, info). i)") auto

definition e9_ape_parse :: "bytes ptr \<Rightarrow> (ape_error + E9_APEInfo) ub" where
  "e9_ape_parse p = (case p of
     None \<Rightarrow> Some (Inl APE_NULL_OR_SHORT)
   | Some data \<Rightarrow>
     if length data < 64 then Some (Inl APE_NULL_OR_SHORT) else do {
       det \<leftarrow> e9_ape_detect p;
       if \<not> det then Some (Inl APE_NOT_DETECTED) else do {
         cosmo \<leftarrow> memeq data 0 APE_MAGIC_COSMO;
         lfanew \<leftarrow> rd32 data 0x3C;
         let pe = unat lfanew;
         let info = zero_APEInfo\<lparr>preserve_zipos := True, is_cosmopolitan := cosmo, pe_offset := int pe\<rparr>;
         if length data < pe + 24 then Some (Inl APE_PE_OUT_OF_BOUNDS) else do {
           sig \<leftarrow> memeq data pe PE_SIGNATURE;
           if \<not> sig then Some (Inl APE_BAD_PE_SIGNATURE) else do {
             _ \<leftarrow> ape_marker_scan data 0x20;
             let pe_coff = pe + 4;
             nsec \<leftarrow> FILE_HEADER_NumberOfSections data pe_coff;
             let info = info\<lparr>pe_num_sections := nsec\<rparr>;
             machine \<leftarrow> FILE_HEADER_Machine data pe_coff;
             if machine \<noteq> PE_MACHINE_AMD64 \<and> machine \<noteq> PE_MACHINE_ARM64
             then Some (Inl APE_BAD_MACHINE) else do {
               let pe_opt = pe_coff + sizeof_PE_FILE_HEADER;
               magic \<leftarrow> OPT_HEADER_Magic data pe_opt;
               if magic \<noteq> 0x20B then Some (Inl APE_NOT_PE32PLUS) else do {
                 image \<leftarrow> OPT_HEADER_SizeOfImage data pe_opt;
                 let info = info\<lparr>pe_size := ucast image\<rparr>;
                 opt_len \<leftarrow> FILE_HEADER_SizeOfOptionalHeader data pe_coff;
                 info \<leftarrow> ape_cache_sections data (pe_opt + unat opt_len) info;
                 info \<leftarrow> ape_find_elf data (ape_elf_search_start info) info;
                 info \<leftarrow> ape_find_eocd data (length data - 22) info;
                 Some (Inr info)
               }
             }
           }
         }
       }
     })"

section \<open>Address translation\<close>

definition e9_ape_rva_to_offset :: "E9_APEInfo ptr \<Rightarrow> u32 \<Rightarrow> int" where
  "e9_ape_rva_to_offset p rva = (case p of
     None \<Rightarrow> -1
   | Some info \<Rightarrow>
     if text_rva info \<le> rva \<and> (ucast rva :: u64) < ucast (text_rva info) + text_size info
     then text_offset info + uint (rva - text_rva info)
     else if rdata_rva info \<le> rva \<and> (ucast rva :: u64) < ucast (rdata_rva info) + rdata_size info
     then rdata_offset info + uint (rva - rdata_rva info)
     else if data_rva info \<le> rva \<and> (ucast rva :: u64) < ucast (data_rva info) + data_size info
     then data_offset info + uint (rva - data_rva info)
     else uint rva)"

definition e9_ape_offset_to_rva :: "E9_APEInfo ptr \<Rightarrow> int \<Rightarrow> u32" where
  "e9_ape_offset_to_rva p offset = (case p of
     None \<Rightarrow> 0
   | Some info \<Rightarrow>
     if text_offset info \<le> offset \<and> offset < text_offset info + sint (text_size info)
     then text_rva info + word_of_int (offset - text_offset info)
     else if rdata_offset info \<le> offset \<and> offset < rdata_offset info + sint (rdata_size info)
     then rdata_rva info + word_of_int (offset - rdata_offset info)
     else if data_offset info \<le> offset \<and> offset < data_offset info + sint (data_size info)
     then data_rva info + word_of_int (offset - data_offset info)
     else word_of_int offset)"

section \<open>Patching\<close>

text \<open>
  \<open>(size_t)(offset + patch_size) > size\<close> is computed modulo \<open>2 ^ 64\<close>.  The result is
  the return code and the image after the call.  The overlap test against ZipOS only prints
  a warning.
\<close>

definition e9_ape_patch_offset ::
  "bytes ptr \<Rightarrow> E9_APEInfo ptr \<Rightarrow> int \<Rightarrow> bytes ptr \<Rightarrow> (int \<times> bytes ptr) ub" where
  "e9_ape_patch_offset dp info offset pp = (case (dp, pp) of
     (Some data, Some patch) \<Rightarrow>
       if length patch = 0 then Some (-1, dp)
       else if offset < 0 \<or> (offset + int (length patch)) mod 2 ^ 64 > int (length data)
       then Some (-1, dp)
       else do {
         data' \<leftarrow> memcpy_to data (nat offset) patch;
         Some (0, Some data')
       }
   | _ \<Rightarrow> Some (-1, dp))"

definition e9_ape_patch_rva ::
  "bytes ptr \<Rightarrow> E9_APEInfo ptr \<Rightarrow> u32 \<Rightarrow> bytes ptr \<Rightarrow> (int \<times> bytes ptr) ub" where
  "e9_ape_patch_rva dp info rva pp =
     (if info = None then Some (-1, dp)
      else let offset = e9_ape_rva_to_offset info rva in
        if offset < 0 then Some (-1, dp)
        else e9_ape_patch_offset dp info offset pp)"

definition e9_ape_patch ::
  "bytes ptr \<Rightarrow> E9_APEInfo ptr \<Rightarrow> u64 \<Rightarrow> bytes ptr \<Rightarrow> (int \<times> bytes ptr) ub" where
  "e9_ape_patch dp info vaddr pp =
     (if info = None then Some (-1, dp)
      else let rva = (if 0x400000 \<le> vaddr \<and> vaddr < 0x500000 then ucast (vaddr - 0x400000)
                      else if vaddr < 0x100000 then ucast vaddr
                      else ucast vaddr)
        in e9_ape_patch_rva dp info rva pp)"

section \<open>ZipOS\<close>

text \<open>\<open>name_len + extra_len + comment_len\<close> of the central directory entry at \<open>pos\<close>.\<close>

definition zip_var_len :: "bytes \<Rightarrow> nat \<Rightarrow> nat ub" where
  "zip_var_len data pos = do {
     name_len \<leftarrow> rd16 data (pos + 28);
     extra_len \<leftarrow> rd16 data (pos + 30);
     comment_len \<leftarrow> rd16 data (pos + 32);
     Some (unat name_len + unat extra_len + unat comment_len)
   }"

text \<open>First pass: count the central directory entries.\<close>

function zipos_count :: "bytes \<Rightarrow> nat \<Rightarrow> nat ub" where
  "zipos_count data pos =
     (if pos + 46 < length data then do {
        hit \<leftarrow> memeq data pos ZIP_CENTRAL_MAGIC;
        if \<not> hit then Some 0 else do {
          var \<leftarrow> zip_var_len data pos;
          n \<leftarrow> zipos_count data (pos + 46 + var);
          Some (Suc n)
        }
      } else Some 0)"
  by pat_completeness auto
termination
  by (relation "measure (\<lambda>(data, pos). length data - pos)") auto

definition zipos_entry :: "bytes \<Rightarrow> nat \<Rightarrow> E9_ZipOSEntry ub" where
  "zipos_entry data pos = do {
     comp \<leftarrow> rd16 data (pos + 10);
     crc \<leftarrow> rd32 data (pos + 16);
     csize \<leftarrow> rd32 data (pos + 20);
     usize \<leftarrow> rd32 data (pos + 24);
     lho \<leftarrow> rd32 data (pos + 42);
     name_len \<leftarrow> rd16 data (pos + 28);
     name \<leftarrow> rd_region data (pos + 46) (unat name_len);
     Some \<lparr>ze_name = name, ze_local_header_offset = uint lho, ze_compressed_size = ucast csize,
       ze_uncompressed_size = ucast usize, ze_compression = comp, ze_crc32 = crc,
       ze_is_directory = (0 < name_len \<and> last name = 0x2F)\<rparr>
   }"

text \<open>
  Second pass: fill \<open>count\<close> entries (\<open>for (i = 0; i < count && pos + 46 < size; i++)\<close>).
  The array comes from \<open>calloc\<close>, so an entry the loop does not reach stays zero; the
  model returns the entries the loop writes.
\<close>

fun zipos_fill :: "bytes \<Rightarrow> nat \<Rightarrow> nat \<Rightarrow> E9_ZipOSEntry list ub" where
  "zipos_fill data 0 pos = Some []"
| "zipos_fill data (Suc n) pos =
     (if pos + 46 < length data then do {
        e \<leftarrow> zipos_entry data pos;
        var \<leftarrow> zip_var_len data pos;
        es \<leftarrow> zipos_fill data n (pos + 46 + var);
        Some (e # es)
      } else Some [])"

text \<open>The result pairs the entries with \<open>*out_count\<close>; \<open>None\<close> inside is a null result.\<close>

definition e9_ape_zipos_list ::
  "bytes ptr \<Rightarrow> E9_APEInfo ptr \<Rightarrow> (E9_ZipOSEntry list ptr \<times> nat) ub" where
  "e9_ape_zipos_list dp ip = (case (dp, ip) of
     (Some data, Some info) \<Rightarrow>
       if zipos_central_dir info = 0 then Some (None, 0) else do {
         count \<leftarrow> zipos_count data (nat (zipos_central_dir info));
         if count = 0 then Some (None, 0) else do {
           entries \<leftarrow> zipos_fill data count (nat (zipos_central_dir info));
           Some (Some entries, count)
         }
       }
   | _ \<Rightarrow> Some (None, 0))"

definition e9_ape_zipos_exists :: "bytes ptr \<Rightarrow> E9_APEInfo ptr \<Rightarrow> bytes ptr \<Rightarrow> bool ub" where
  "e9_ape_zipos_exists dp ip path = (case path of
     None \<Rightarrow> Some False
   | Some path \<Rightarrow> do {
       (entries, count) \<leftarrow> e9_ape_zipos_list dp ip;
       case entries of
         None \<Rightarrow> Some False
       | Some es \<Rightarrow> Some (\<exists>e \<in> set es. c_str (ze_name e) = c_str path)
     })"

section \<open>Patching: lemmas\<close>

declare ape_heredoc_near.simps [simp del] ape_marker_end.simps [simp del]
  ape_marker_scan.simps [simp del] ape_find_elf.simps [simp del] ape_find_local.simps [simp del]
  ape_find_eocd.simps [simp del] zipos_count.simps [simp del]

text \<open>The largest object C admits; \<open>off_t\<close> values are below it as well.\<close>

definition OBJ_MAX :: nat where "OBJ_MAX = 2 ^ 63"

lemma off_sum_no_wrap:
  assumes "0 \<le> offset" and "offset < 2 ^ 63" and "n < OBJ_MAX"
  shows "(offset + int n) mod 18446744073709551616 = offset + int n"
  using assms by (simp add: OBJ_MAX_def)

lemma patch_offset_eq:
  assumes "offset < 2 ^ 63" and "length patch < OBJ_MAX"
  shows "e9_ape_patch_offset (Some data) info offset (Some patch) =
    (if patch \<noteq> [] \<and> 0 \<le> offset \<and> offset + int (length patch) \<le> int (length data)
     then Some (0, Some (take (nat offset) data @ patch @ drop (nat offset + length patch) data))
     else Some (-1, Some data))"
proof (cases "0 \<le> offset")
  case True
  note nw = off_sum_no_wrap [OF True assms]
  show ?thesis
    using True by (auto simp: e9_ape_patch_offset_def memcpy_to_def nw nat_add_distrib)
next
  case False
  then show ?thesis by (simp add: e9_ape_patch_offset_def)
qed

section \<open>Address translation: lemmas\<close>

text \<open>
  A cached section as the triple of file offset, RVA and size; the three sections in the
  order in which the code tries them.
\<close>

type_synonym ape_section = "int \<times> u32 \<times> u64"

definition ape_sections :: "E9_APEInfo \<Rightarrow> ape_section list" where
  "ape_sections info =
     [(text_offset info, text_rva info, text_size info),
      (rdata_offset info, rdata_rva info, rdata_size info),
      (data_offset info, data_rva info, data_size info)]"

fun sec_has_rva :: "u32 \<Rightarrow> ape_section \<Rightarrow> bool" where
  "sec_has_rva rva (off, base, len) \<longleftrightarrow>
     uint base \<le> uint rva \<and> uint rva < uint base + uint len"

fun sec_has_offset :: "int \<Rightarrow> ape_section \<Rightarrow> bool" where
  "sec_has_offset o' (off, base, len) \<longleftrightarrow> off \<le> o' \<and> o' < off + uint len"

text \<open>
  What \<open>e9_ape_parse\<close> stores: 32-bit offsets and sizes.  The file ranges of two sections
  are apart in a valid PE image.
\<close>

definition ape_cache_ok :: "E9_APEInfo \<Rightarrow> bool" where
  "ape_cache_ok info \<longleftrightarrow>
     (\<forall>(off, base, len) \<in> set (ape_sections info). 0 \<le> off \<and> off < 2 ^ 32 \<and> uint len < 2 ^ 32)"

definition ape_files_apart :: "E9_APEInfo \<Rightarrow> bool" where
  "ape_files_apart info \<longleftrightarrow>
     (\<forall>o'. length (filter (sec_has_offset o') (ape_sections info)) \<le> 1)"

definition ape_rvas_apart :: "E9_APEInfo \<Rightarrow> bool" where
  "ape_rvas_apart info \<longleftrightarrow>
     (\<forall>rva. length (filter (sec_has_rva rva) (ape_sections info)) \<le> 1)"

lemma sec_rva_test:
  assumes "uint len < 2 ^ 32"
  shows "(base \<le> rva \<and> (ucast (rva :: u32) :: u64) < ucast (base :: u32) + len) \<longleftrightarrow>
    sec_has_rva rva (off, base, len)"
proof -
  have "uint (ucast base + len :: u64) = uint base + uint len"
    using assms uint_u32_less [of base] by (subst uint_add_small) auto
  then show ?thesis
    by (simp add: word_le_def word_less_def)
qed

lemma ape_cache_okD:
  assumes "ape_cache_ok info"
  shows "uint (text_size info) < 2 ^ 32" and "uint (rdata_size info) < 2 ^ 32"
    and "uint (data_size info) < 2 ^ 32" and "0 \<le> text_offset info" and "0 \<le> rdata_offset info"
    and "0 \<le> data_offset info" and "text_offset info < 2 ^ 32" and "rdata_offset info < 2 ^ 32"
    and "data_offset info < 2 ^ 32"
  using assms by (auto simp: ape_cache_ok_def ape_sections_def)

text \<open>Both translations pick the first section that contains the argument.\<close>

fun sec_offset_of :: "u32 \<Rightarrow> ape_section \<Rightarrow> int" where
  "sec_offset_of rva (off, base, len) = off + (uint rva - uint base)"

fun sec_rva_of :: "int \<Rightarrow> ape_section \<Rightarrow> u32" where
  "sec_rva_of o' (off, base, len) = base + word_of_int (o' - off)"

lemma rva_to_offset_find:
  assumes "ape_cache_ok info"
  shows "e9_ape_rva_to_offset (Some info) rva =
    (case find (sec_has_rva rva) (ape_sections info) of
       None \<Rightarrow> uint rva | Some sec \<Rightarrow> sec_offset_of rva sec)"
  unfolding e9_ape_rva_to_offset_def ape_sections_def
  using ape_cache_okD [OF assms]
  by (simp add: sec_rva_test [of "text_size info" _ _ "text_offset info"]
      sec_rva_test [of "rdata_size info" _ _ "rdata_offset info"]
      sec_rva_test [of "data_size info" _ _ "data_offset info"] uint_diff_le)

lemma offset_to_rva_find:
  assumes "ape_cache_ok info"
  shows "e9_ape_offset_to_rva (Some info) o' =
    (case find (sec_has_offset o') (ape_sections info) of
       None \<Rightarrow> word_of_int o' | Some sec \<Rightarrow> sec_rva_of o' sec)"
  unfolding e9_ape_offset_to_rva_def ape_sections_def
  using ape_cache_okD [OF assms] by (simp add: sint_u64_small)

lemma sec_has_offset_of: "sec_has_rva rva sec \<Longrightarrow> sec_has_offset (sec_offset_of rva sec) sec"
  by (cases sec) auto

lemma sec_rva_of_offset_of: "sec_rva_of (sec_offset_of rva sec) sec = rva"
  by (cases sec) simp

lemma find_filter: "find P xs = (case filter P xs of [] \<Rightarrow> None | y # ys \<Rightarrow> Some y)"
  by (induction xs) auto

lemma find_unique:
  assumes "x \<in> set xs" and "P x" and "length (filter P xs) \<le> 1"
  shows "find P xs = Some x"
proof -
  from assms(1,2) have "x \<in> set (filter P xs)" by simp
  with assms(3) have "filter P xs = [x]" by (cases "filter P xs") auto
  then show ?thesis by (simp add: find_filter)
qed

lemma rva_roundtrip:
  assumes ok: "ape_cache_ok info" and apart: "ape_files_apart info"
    and sec: "sec \<in> set (ape_sections info)" and rva: "sec_has_rva rva sec"
  shows "e9_ape_offset_to_rva (Some info) (e9_ape_rva_to_offset (Some info) rva) = rva"
proof -
  from sec rva obtain sec' where f: "find (sec_has_rva rva) (ape_sections info) = Some sec'"
    by (metis find_None_iff option.exhaust)
  then have s': "sec' \<in> set (ape_sections info)" "sec_has_rva rva sec'"
    by (auto simp: find_Some_iff)
  let ?o = "sec_offset_of rva sec'"
  have "find (sec_has_offset ?o) (ape_sections info) = Some sec'"
    using s' apart by (intro find_unique) (auto simp: sec_has_offset_of ape_files_apart_def)
  then show ?thesis
    by (simp add: rva_to_offset_find [OF ok] offset_to_rva_find [OF ok] f sec_rva_of_offset_of)
qed

section \<open>Parsing: the section cache\<close>

text \<open>The section header at \<open>sec\<close> starts with the given name, and what it describes.\<close>

definition sec_named :: "bytes \<Rightarrow> string \<Rightarrow> nat \<Rightarrow> bool" where
  "sec_named data name sec \<longleftrightarrow> take (length name) (drop sec data) = str_bytes name"

definition sec_triple :: "bytes \<Rightarrow> nat \<Rightarrow> ape_section" where
  "sec_triple data sec =
     (uint (the (SECTION_PointerToRawData data sec)), the (SECTION_VirtualAddress data sec),
      ucast (the (SECTION_SizeOfRawData data sec)))"

definition cached_or :: "bytes \<Rightarrow> string \<Rightarrow> nat list \<Rightarrow> ape_section \<Rightarrow> ape_section" where
  "cached_or data name secs old =
     (case find (sec_named data name) (rev secs) of None \<Rightarrow> old | Some sec \<Rightarrow> sec_triple data sec)"

lemma sec_named_take:
  assumes "sec_named data n s" and "k \<le> length n"
  shows "take k (drop s data) = take k (str_bytes n)"
proof -
  have "take k (take (length n) (drop s data)) = take k (str_bytes n)"
    using assms(1) by (simp add: sec_named_def)
  with assms(2) show ?thesis by (simp add: min_absorb1)
qed

lemma sec_named_exclusive:
  "sec_named data ''.text'' s \<Longrightarrow> \<not> sec_named data ''.rdata'' s"
  "sec_named data ''.text'' s \<Longrightarrow> \<not> sec_named data ''.data'' s"
  "sec_named data ''.rdata'' s \<Longrightarrow> \<not> sec_named data ''.data'' s"
  using sec_named_take [of data "''.text''" s 2] sec_named_take [of data "''.rdata''" s 2]
    sec_named_take [of data "''.data''" s 2]
  by (auto simp: str_bytes_def)

lemma memeq_named:
  "memeq data sec (str_bytes n) =
     (if sec + length n \<le> length data then Some (sec_named data n sec) else None)"
  by (auto simp: memeq_def rd_region_def sec_named_def)

text \<open>What one iteration stores for a header that matches a name.\<close>

lemma section_reads:
  "do {
     off \<leftarrow> SECTION_PointerToRawData data sec;
     rva \<leftarrow> SECTION_VirtualAddress data sec;
     len \<leftarrow> SECTION_SizeOfRawData data sec;
     Some (k (uint off) rva (ucast len))
   } = Some r \<Longrightarrow> (case sec_triple data sec of (off, rva, len) \<Rightarrow> r = k off rva len)"
  by (auto simp: sec_triple_def split: Option.bind_splits)

lemma cache_section_step:
  assumes "ape_cache_section data sec info = Some info'"
  shows "ape_sections info' =
    [if sec_named data ''.text'' sec then sec_triple data sec else ape_sections info ! 0,
     if sec_named data ''.rdata'' sec then sec_triple data sec else ape_sections info ! 1,
     if sec_named data ''.data'' sec then sec_triple data sec else ape_sections info ! 2]"
proof -
  consider (t) "sec_named data ''.text'' sec"
    | (r) "\<not> sec_named data ''.text'' sec" "sec_named data ''.rdata'' sec"
    | (d) "\<not> sec_named data ''.text'' sec" "\<not> sec_named data ''.rdata'' sec" "sec_named data ''.data'' sec"
    | (n) "\<not> sec_named data ''.text'' sec" "\<not> sec_named data ''.rdata'' sec" "\<not> sec_named data ''.data'' sec"
    by blast
  then show ?thesis
  proof cases
    case t
    with assms sec_named_exclusive(1,2) [OF t] show ?thesis
      by (auto simp: ape_cache_section_def memeq_named ape_sections_def split: if_splits
          dest!: section_reads)
  next
    case r
    with assms sec_named_exclusive(3) [OF r(2)] show ?thesis
      by (auto simp: ape_cache_section_def memeq_named ape_sections_def split: if_splits
          dest!: section_reads)
  next
    case d
    with assms show ?thesis
      by (auto simp: ape_cache_section_def memeq_named ape_sections_def split: if_splits
          dest!: section_reads)
  next
    case n
    with assms show ?thesis
      by (auto simp: ape_cache_section_def memeq_named ape_sections_def split: if_splits)
  qed
qed

lemma cache_sections_fold:
  assumes "mfold (ape_cache_section data) secs info = Some info'"
  shows "ape_sections info' =
    [cached_or data ''.text'' secs (ape_sections info ! 0),
     cached_or data ''.rdata'' secs (ape_sections info ! 1),
     cached_or data ''.data'' secs (ape_sections info ! 2)]"
  using assms
proof (induction secs arbitrary: info' rule: rev_induct)
  case Nil
  then show ?case by (simp add: cached_or_def ape_sections_def)
next
  case (snoc sec secs)
  then obtain mid where m: "mfold (ape_cache_section data) secs info = Some mid"
    and s: "ape_cache_section data sec mid = Some info'"
    by (auto simp: mfold_append split: Option.bind_splits)
  show ?case unfolding cache_section_step [OF s] snoc.IH [OF m] by (simp add: cached_or_def)
qed

lemma cache_section_defined:
  assumes "sec + 40 \<le> length data"
  shows "\<exists>info'. ape_cache_section data sec info = Some info'"
proof -
  have "\<exists>x. SECTION_PointerToRawData data sec = Some x" "\<exists>x. SECTION_VirtualAddress data sec = Some x"
    "\<exists>x. SECTION_SizeOfRawData data sec = Some x"
    using assms by (auto simp: pe_fields rd32_def rd_region_def)
  with assms show ?thesis by (auto simp: ape_cache_section_def memeq_named)
qed

section \<open>Parsing: the scans are total and exact\<close>

definition magic_at :: "bytes \<Rightarrow> bytes \<Rightarrow> nat \<Rightarrow> bool" where
  "magic_at data pat i \<longleftrightarrow> take (length pat) (drop i data) = pat"

lemma memeq_magic_at:
  "i + length pat \<le> length data \<Longrightarrow> memeq data i pat = Some (magic_at data pat i)"
  by (simp add: memeq_def rd_region_def magic_at_def)

lemma length_magics [simp]:
  "length APE_MAGIC_COSMO = 6" "length PE_SIGNATURE = 4" "length ELF_MAGIC = 4"
  "length ZIP_LOCAL_MAGIC = 4" "length ZIP_CENTRAL_MAGIC = 4" "length ZIP_END_MAGIC = 4"
  by (simp_all add: ape_magics)

lemma marker_end_defined: "ape_marker_end data k = Some ()"
  by (induction data k rule: ape_marker_end.induct)
    (subst ape_marker_end.simps, simp add: rd8_def)

lemma marker_scan_defined: "ape_marker_scan data i = Some ()"
  by (induction data i rule: ape_marker_scan.induct)
    (subst ape_marker_scan.simps, simp add: rd8_def marker_end_defined)

lemma heredoc_near_defined: "64 \<le> length data \<Longrightarrow> ape_heredoc_near data i \<noteq> None"
proof (induction data i rule: ape_heredoc_near.induct)
  case (1 data i)
  show ?case
  proof (cases "i < 64 \<and> i < length data - 2")
    case True
    then have r: "rd8 data i = Some (data ! i)" "rd8 data (i + 1) = Some (data ! (i + 1))"
      by (auto simp: rd8_def)
    from 1 True r have "ape_heredoc_near data (i + 1) \<noteq> None"
      if "data ! i = 0x3C \<longrightarrow> data ! (i + 1) \<noteq> 0x3C"
      using that by (cases "data ! i = 0x3C") auto
    with True r show ?thesis by (subst ape_heredoc_near.simps) auto
  next
    case False
    then show ?thesis by (subst ape_heredoc_near.simps) auto
  qed
qed

lemma find_local_eq:
  "ape_find_local data j info =
     Some (case find (magic_at data ZIP_LOCAL_MAGIC)
                  [j ..< min (nat (zipos_central_dir info)) (length data - 4)] of
             None \<Rightarrow> info | Some k \<Rightarrow> info\<lparr>zipos_start := int k\<rparr>)"
proof (induction data j info rule: ape_find_local.induct)
  case (1 data j info)
  show ?case
  proof (cases "int j < zipos_central_dir info \<and> j + 4 < length data")
    case True
    then have "j < min (nat (zipos_central_dir info)) (length data - 4)" by auto
    then show ?thesis
      using True 1 [OF True] by (subst ape_find_local.simps) (simp add: memeq_magic_at upt_conv_Cons)
  next
    case False
    then have "min (nat (zipos_central_dir info)) (length data - 4) \<le> j" by auto
    with False show ?thesis by (subst ape_find_local.simps) auto
  qed
qed

definition eocd_fields :: "bytes \<Rightarrow> nat \<Rightarrow> E9_APEInfo \<Rightarrow> E9_APEInfo" where
  "eocd_fields data k info =
     info\<lparr>zipos_end := int k + 22, zipos_num_entries := ucast (the (rd16 data (k + 10))),
       zipos_central_dir := uint (the (rd32 data (k + 16)))\<rparr>"

lemma find_eocd_eq:
  "i + 22 \<le> length data \<Longrightarrow> ape_find_eocd data i info =
     (case find (magic_at data ZIP_END_MAGIC) (rev [max 1 (length data - 65535) ..< Suc i]) of
        None \<Rightarrow> Some info
      | Some k \<Rightarrow> ape_find_local data 0 (eocd_fields data k info))"
proof (induction data i info rule: ape_find_eocd.induct)
  case (1 data i info)
  show ?case
  proof (cases "0 < i \<and> int i > int (length data) - 65536")
    case True
    then have up: "rev [max 1 (length data - 65535) ..< Suc i]
        = i # rev [max 1 (length data - 65535) ..< i]" by auto
    from True obtain n where n: "i = Suc n" by (cases i) auto
    obtain r16 r32 where rd: "rd16 data (i + 10) = Some r16" "rd32 data (i + 16) = Some r32"
      using "1.prems" by (auto simp: rd16_def rd32_def rd_region_def)
    show ?thesis
    proof (cases "magic_at data ZIP_END_MAGIC i")
      case hit: True
      with True "1.prems" rd show ?thesis unfolding up
        by (subst ape_find_eocd.simps) (simp add: memeq_magic_at eocd_fields_def)
    next
      case miss: False
      with True "1.prems" "1.IH" [OF True, of False] n show ?thesis unfolding up
        by (subst ape_find_eocd.simps) (simp add: memeq_magic_at)
    qed
  next
    case False
    then have "[max 1 (length data - 65535) ..< Suc i] = []" by (intro upt_conv_Nil) auto
    with False show ?thesis by (subst ape_find_eocd.simps) (auto simp del: upt_Suc)
  qed
qed

text \<open>A page from the search start on that holds an ELF header for machine \<open>m\<close>.\<close>

definition elf_at :: "bytes \<Rightarrow> u16 \<Rightarrow> nat \<Rightarrow> nat \<Rightarrow> bool" where
  "elf_at data m start k \<longleftrightarrow>
     start \<le> k \<and> (k - start) mod 0x1000 = 0 \<and> k + 64 < length data \<and>
     magic_at data ELF_MAGIC k \<and> rd16 data (k + 18) = Some m"

lemma mod_shift: "(i::nat) + n \<le> k \<Longrightarrow> (k - (i + n)) mod n = 0 \<Longrightarrow> (k - i) mod n = 0"
proof -
  assume "i + n \<le> k" and z: "(k - (i + n)) mod n = 0"
  then have "k - i = (k - (i + n)) + n" by simp
  with z show ?thesis by simp
qed

lemma elf_at_next: "elf_at data m (i + 0x1000) k \<Longrightarrow> elf_at data m i k"
  unfolding elf_at_def using mod_shift [of i "0x1000" k] by (elim conjE) (intro conjI; linarith?; assumption?)

lemma find_elf_step:
  "ape_find_elf data i info =
     (if i + 64 < length data then
        if elf_at data ELF_MACHINE_AARCH64 i i
        then Some (info\<lparr>has_arm64_elf := True, arm64_elf_offset := int i\<rparr>)
        else ape_find_elf data (i + 0x1000)
          (if elf_at data ELF_MACHINE_X86_64 i i
           then info\<lparr>is_assimilated := True, x86_elf_offset := int i\<rparr> else info)
      else Some info)"
proof (cases "i + 64 < length data")
  case True
  then obtain m where m: "rd16 data (i + 18) = Some m" by (auto simp: rd16_def rd_region_def)
  from True have e: "memeq data i ELF_MAGIC = Some (magic_at data ELF_MAGIC i)"
    by (simp add: memeq_magic_at)
  from True m e show ?thesis by (subst ape_find_elf.simps) (simp add: elf_at_def)
next
  case False
  then show ?thesis by (subst ape_find_elf.simps) simp
qed

text \<open>The scan ends without leaving the image; a rule for what it leaves in the info.\<close>

lemma find_elf_rule:
  assumes init: "P info"
    and x86: "\<And>k info. P info \<Longrightarrow> P (info\<lparr>is_assimilated := True, x86_elf_offset := int k\<rparr>)"
    and arm: "\<And>k info. P info \<Longrightarrow> elf_at data ELF_MACHINE_AARCH64 i k \<Longrightarrow>
      Q (info\<lparr>has_arm64_elf := True, arm64_elf_offset := int k\<rparr>)"
    and out: "\<And>info. P info \<Longrightarrow> Q info"
  shows "\<exists>info'. ape_find_elf data i info = Some info' \<and> Q info'"
  using init arm
proof (induction "length data - i" arbitrary: i info rule: less_induct)
  case less
  show ?case
  proof (cases "i + 64 < length data \<and> \<not> elf_at data ELF_MACHINE_AARCH64 i i")
    case True
    let ?info = "if elf_at data ELF_MACHINE_X86_64 i i
       then info\<lparr>is_assimilated := True, x86_elf_offset := int i\<rparr> else info"
    have "\<exists>info'. ape_find_elf data (i + 0x1000) ?info = Some info' \<and> Q info'"
    proof (rule less.hyps)
      show "length data - (i + 0x1000) < length data - i"
        by (rule diff_less_mono2) (use True in linarith)+
      show "P ?info" using less.prems(1) x86 by simp
      show "P info0 \<Longrightarrow> elf_at data ELF_MACHINE_AARCH64 (i + 0x1000) k \<Longrightarrow>
        Q (info0\<lparr>has_arm64_elf := True, arm64_elf_offset := int k\<rparr>)" for k info0
        by (rule less.prems(2)) (auto dest: elf_at_next)
    qed
    with True show ?thesis by (subst find_elf_step) simp
  next
    case False
    with less.prems out show ?thesis by (subst find_elf_step) auto
  qed
qed

lemma find_elf_defined: "\<exists>info'. ape_find_elf data i info = Some info'"
  using find_elf_rule [of "\<lambda>_. True" info data i "\<lambda>_. True"] by simp

lemma find_elf_frame:
  assumes "ape_find_elf data i info = Some info'"
  shows "ape_sections info' = ape_sections info \<and> zipos_start info' = zipos_start info \<and>
     zipos_end info' = zipos_end info \<and> zipos_central_dir info' = zipos_central_dir info \<and>
     pe_offset info' = pe_offset info \<and> preserve_zipos info' = preserve_zipos info"
  (is "?P info'")
proof -
  have "\<exists>info'. ape_find_elf data i info = Some info' \<and> ?P info'"
    by (rule find_elf_rule [where P = ?P]) (simp_all add: ape_sections_def)
  with assms show ?thesis by simp
qed

lemma find_elf_hit:
  assumes "ape_find_elf data i info = Some info'" and "\<not> has_arm64_elf info" and "has_arm64_elf info'"
  shows "\<exists>k. arm64_elf_offset info' = int k \<and> elf_at data ELF_MACHINE_AARCH64 i k"
proof -
  have "\<exists>info'. ape_find_elf data i info = Some info' \<and>
    (has_arm64_elf info' \<longrightarrow> (\<exists>k. arm64_elf_offset info' = int k \<and> elf_at data ELF_MACHINE_AARCH64 i k))"
    by (rule find_elf_rule [where P = "\<lambda>x. \<not> has_arm64_elf x"]) (use assms(2) in auto)
  with assms show ?thesis by simp
qed

section \<open>Parsing: the whole of it\<close>

text \<open>The section headers the loop visits: at most 16, after the optional header.\<close>

definition ape_lfanew :: "bytes \<Rightarrow> nat" where
  "ape_lfanew data = unat (the (rd32 data 0x3C))"

definition ape_section_headers :: "bytes \<Rightarrow> nat list" where
  "ape_section_headers data =
     (let coff = ape_lfanew data + 4;
          n = unat (the (FILE_HEADER_NumberOfSections data coff));
          opt = unat (the (FILE_HEADER_SizeOfOptionalHeader data coff))
      in map (\<lambda>i. coff + 20 + opt + i * 40) [0 ..< min n 16])"

text \<open>
  All the memory the parser reads through the headers: the 60 bytes of the optional header
  up to \<open>SizeOfImage\<close>, and the section headers.
\<close>

definition ape_headers_fit :: "bytes \<Rightarrow> bool" where
  "ape_headers_fit data \<longleftrightarrow> 64 \<le> length data \<and> ape_lfanew data + 84 \<le> length data \<and>
     (\<forall>sec \<in> set (ape_section_headers data). sec + 40 \<le> length data)"

definition ape_info0 :: "bytes \<Rightarrow> E9_APEInfo" where
  "ape_info0 data =
     zero_APEInfo\<lparr>preserve_zipos := True, is_cosmopolitan := magic_at data APE_MAGIC_COSMO 0,
       pe_offset := int (ape_lfanew data),
       pe_num_sections := the (FILE_HEADER_NumberOfSections data (ape_lfanew data + 4)),
       pe_size := ucast (the (OPT_HEADER_SizeOfImage data (ape_lfanew data + 24)))\<rparr>"

text \<open>The checks on the headers, in the order of the code.\<close>

definition ape_header_error :: "bytes \<Rightarrow> ape_error option" where
  "ape_header_error data =
     (let pe = ape_lfanew data; machine = FILE_HEADER_Machine data (pe + 4) in
      if length data < pe + 24 then Some APE_PE_OUT_OF_BOUNDS
      else if \<not> magic_at data PE_SIGNATURE pe then Some APE_BAD_PE_SIGNATURE
      else if machine \<noteq> Some PE_MACHINE_AMD64 \<and> machine \<noteq> Some PE_MACHINE_ARM64 then Some APE_BAD_MACHINE
      else if OPT_HEADER_Magic data (pe + 24) \<noteq> Some 0x20B then Some APE_NOT_PE32PLUS
      else None)"

lemma rd_defined:
  "off + 2 \<le> length d \<Longrightarrow> \<exists>x. rd16 d off = Some x"
  "off + 4 \<le> length d \<Longrightarrow> \<exists>x. rd32 d off = Some x"
  by (auto simp: rd16_def rd32_def rd_region_def)

lemma mfold_headers:
  assumes "FILE_HEADER_NumberOfSections data (ape_lfanew data + 4) = Some n"
    and "FILE_HEADER_SizeOfOptionalHeader data (ape_lfanew data + 4) = Some opt"
    and "pe_num_sections info = n"
  shows "ape_cache_sections data (ape_lfanew data + 24 + unat opt) info =
    mfold (ape_cache_section data) (ape_section_headers data) info"
  using assms by (simp add: ape_cache_sections_def ape_section_headers_def Let_def mfold_map
      sizeof_PE_SECTION_HEADER_def ac_simps)

text \<open>
  The parser as its stages: header checks, section cache, ELF scan, ZipOS scan.
\<close>

definition ape_scan :: "bytes \<Rightarrow> E9_APEInfo ub" where
  "ape_scan data = do {
     info \<leftarrow> mfold (ape_cache_section data) (ape_section_headers data) (ape_info0 data);
     info \<leftarrow> ape_find_elf data (ape_elf_search_start info) info;
     ape_find_eocd data (length data - 22) info
   }"

lemma parse_Inr:
  assumes "e9_ape_parse (Some data) = Some (Inr info)"
  shows "ape_header_error data = None" and "ape_scan data = Some info"
    and "64 \<le> length data" and "e9_ape_detect (Some data) = Some True"
proof -
  from assms obtain cosmo lf nsec machine image opt i1 i2 where
    len: "64 \<le> length data" and det: "e9_ape_detect (Some data) = Some True" and
    cosmo: "memeq data 0 APE_MAGIC_COSMO = Some cosmo" and lf: "rd32 data 0x3C = Some lf" and
    bound: "unat lf + 24 \<le> length data" and sig: "memeq data (unat lf) PE_SIGNATURE = Some True" and
    nsec: "FILE_HEADER_NumberOfSections data (unat lf + 4) = Some nsec" and
    machine: "FILE_HEADER_Machine data (unat lf + 4) = Some machine" and
    mach: "machine = PE_MACHINE_AMD64 \<or> machine = PE_MACHINE_ARM64" and
    magic: "OPT_HEADER_Magic data (24 + unat lf) = Some 0x20B" and
    image: "OPT_HEADER_SizeOfImage data (24 + unat lf) = Some image" and
    opt: "FILE_HEADER_SizeOfOptionalHeader data (unat lf + 4) = Some opt" and
    i1: "ape_cache_sections data (24 + unat lf + unat opt)
      (zero_APEInfo\<lparr>preserve_zipos := True, is_cosmopolitan := cosmo, pe_offset := int (unat lf),
        pe_num_sections := nsec, pe_size := ucast image\<rparr>) = Some i1" and
    i2: "ape_find_elf data (ape_elf_search_start i1) i1 = Some i2" and
    i3: "ape_find_eocd data (length data - 22) i2 = Some info"
    by (clarsimp simp: e9_ape_parse_def Let_def Option.bind_eq_Some_conv sizeof_PE_FILE_HEADER_def
        split: if_splits) (elim disjE conjE exE; auto)
  have pe: "unat lf = ape_lfanew data" by (simp add: ape_lfanew_def lf)
  have c: "cosmo = magic_at data APE_MAGIC_COSMO 0"
    using cosmo by (simp add: memeq_eq_Some magic_at_def)
  have "magic_at data PE_SIGNATURE (ape_lfanew data)"
    using sig pe by (simp add: memeq_eq_Some magic_at_def)
  with bound mach machine magic pe show "ape_header_error data = None"
    by (auto simp: ape_header_error_def add.commute)
  have "ape_info0 data = zero_APEInfo\<lparr>preserve_zipos := True, is_cosmopolitan := cosmo,
      pe_offset := int (unat lf), pe_num_sections := nsec, pe_size := ucast image\<rparr>"
    using nsec image pe by (simp add: ape_info0_def c add.commute)
  with i1 have "mfold (ape_cache_section data) (ape_section_headers data) (ape_info0 data) = Some i1"
    using mfold_headers [of data nsec opt "ape_info0 data"] nsec opt
    by (simp add: pe ape_info0_def add.commute [of 24])
  with i2 i3 show "ape_scan data = Some info" by (simp add: ape_scan_def)
  show "64 \<le> length data" "e9_ape_detect (Some data) = Some True" by fact+
qed

lemma detect_defined:
  assumes "64 \<le> length data" and "ape_lfanew data + 4 \<le> length data"
  shows "\<exists>b. e9_ape_detect (Some data) = Some b"
proof -
  obtain lf where lf: "rd32 data 0x3C = Some lf" using assms rd_defined(2) [of "0x3C" data] by auto
  then have pe: "unat lf + 4 \<le> length data" using assms by (simp add: ape_lfanew_def)
  obtain h where "ape_heredoc_near data 8 = Some h"
    using heredoc_near_defined [of data 8] assms by auto
  then show ?thesis
    using assms lf pe by (auto simp: e9_ape_detect_def memeq_magic_at rd8_def)
qed

lemma scan_defined:
  assumes "\<And>sec. sec \<in> set (ape_section_headers data) \<Longrightarrow> sec + 40 \<le> length data"
    and "22 \<le> length data"
  shows "\<exists>info. ape_scan data = Some info"
proof -
  have "\<exists>i1. mfold (ape_cache_section data) (ape_section_headers data) (ape_info0 data) = Some i1"
    using mfold_defined [of "\<lambda>_. True" "ape_info0 data" "ape_section_headers data" "ape_cache_section data"]
      cache_section_defined assms(1) by auto
  then obtain i1 where i1: "mfold (ape_cache_section data) (ape_section_headers data) (ape_info0 data) = Some i1" ..
  obtain i2 where i2: "ape_find_elf data (ape_elf_search_start i1) i1 = Some i2"
    using find_elf_defined by blast
  have "\<exists>i3. ape_find_eocd data (length data - 22) i2 = Some i3"
    using assms(2) by (simp add: find_eocd_eq find_local_eq split: option.split)
  with i1 i2 show ?thesis by (simp add: ape_scan_def)
qed

lemma cache_ok_of_triples:
  assumes "ape_sections info = [cached_or data a secs (0, 0, 0), cached_or data b secs (0, 0, 0),
    cached_or data c secs (0, 0, 0)]"
  shows "ape_cache_ok info"
  using assms uint_u32_less by (auto simp: ape_cache_ok_def cached_or_def sec_triple_def split: option.split)

text \<open>The members the section loop does not touch.\<close>

definition ape_rest :: "E9_APEInfo \<Rightarrow> int \<times> int \<times> int \<times> int \<times> bool \<times> bool" where
  "ape_rest info = (pe_offset info, zipos_start info, zipos_central_dir info, zipos_end info,
     preserve_zipos info, has_arm64_elf info)"

lemma cache_section_rest: "ape_cache_section data sec info = Some info' \<Longrightarrow> ape_rest info' = ape_rest info"
  by (auto simp: ape_cache_section_def ape_rest_def Option.bind_eq_Some_conv split: if_splits)

lemma cache_sections_rest:
  assumes "mfold (ape_cache_section data) secs info = Some info'"
  shows "ape_rest info' = ape_rest info"
  using mfold_invariant [OF assms, of "\<lambda>i. ape_rest i = ape_rest info"] cache_section_rest by auto

lemma find_eocd_cases:
  assumes "22 \<le> length data" and "ape_find_eocd data (length data - 22) info = Some info'"
  shows "ape_sections info' = ape_sections info \<and> pe_offset info' = pe_offset info \<and>
    has_arm64_elf info' = has_arm64_elf info \<and> arm64_elf_offset info' = arm64_elf_offset info"
  using assms
  by (auto simp: find_eocd_eq find_local_eq eocd_fields_def ape_sections_def split: option.splits)

lemma scan_cases:
  assumes "ape_scan data = Some info" and "22 \<le> length data"
  obtains i1 i2 where
    "mfold (ape_cache_section data) (ape_section_headers data) (ape_info0 data) = Some i1"
    "ape_find_elf data (ape_elf_search_start i1) i1 = Some i2"
    "ape_find_eocd data (length data - 22) i2 = Some info"
    "ape_sections i2 = ape_sections i1" "ape_sections info = ape_sections i1"
    "pe_offset info = int (ape_lfanew data)" "\<not> has_arm64_elf i1"
    "zipos_start i2 = 0" "zipos_central_dir i2 = 0" "zipos_end i2 = 0"
proof -
  from assms obtain i1 i2 where
    i1: "mfold (ape_cache_section data) (ape_section_headers data) (ape_info0 data) = Some i1" and
    i2: "ape_find_elf data (ape_elf_search_start i1) i1 = Some i2" and
    i3: "ape_find_eocd data (length data - 22) i2 = Some info"
    by (auto simp: ape_scan_def Option.bind_eq_Some_conv)
  from cache_sections_rest [OF i1]
  have "pe_offset i1 = int (ape_lfanew data)" "zipos_start i1 = 0" "zipos_central_dir i1 = 0"
    "zipos_end i1 = 0" "\<not> has_arm64_elf i1"
    by (simp_all add: ape_rest_def ape_info0_def zero_APEInfo_def)
  with find_elf_frame [OF i2] find_eocd_cases [OF assms(2) i3] show thesis
    by (intro that [OF i1 i2 i3]) auto
qed

lemma scan_sections:
  assumes "ape_scan data = Some info" and "22 \<le> length data"
  shows "ape_sections info =
    [cached_or data ''.text'' (ape_section_headers data) (0, 0, 0),
     cached_or data ''.rdata'' (ape_section_headers data) (0, 0, 0),
     cached_or data ''.data'' (ape_section_headers data) (0, 0, 0)]"
proof -
  from assms obtain i1 where
    i1: "mfold (ape_cache_section data) (ape_section_headers data) (ape_info0 data) = Some i1"
    and eq: "ape_sections info = ape_sections i1"
    by (rule scan_cases)
  show ?thesis unfolding eq cache_sections_fold [OF i1]
    by (simp add: ape_sections_def ape_info0_def zero_APEInfo_def)
qed

lemma parse_cache_ok:
  assumes "e9_ape_parse (Some data) = Some (Inr info)"
  shows "ape_cache_ok info"
proof -
  note P = parse_Inr [OF assms]
  show ?thesis
    by (rule cache_ok_of_triples [OF scan_sections [OF P(2)]]) (use P(3) in simp)
qed

section \<open>ZipOS: lemmas\<close>

lemma zip_var_len_defined: "pos + 34 \<le> length data \<Longrightarrow> \<exists>v. zip_var_len data pos = Some v"
  using rd_defined(1) [of "pos + 28" data] rd_defined(1) [of "pos + 30" data]
    rd_defined(1) [of "pos + 32" data] by (auto simp: zip_var_len_def)

lemma zipos_count_defined: "\<exists>n. zipos_count data pos = Some n"
proof (induction data pos rule: zipos_count.induct)
  case (1 data pos)
  show ?case
  proof (cases "pos + 46 < length data")
    case True
    with zip_var_len_defined [of pos data] obtain v where v: "zip_var_len data pos = Some v" by auto
    have m: "memeq data pos ZIP_CENTRAL_MAGIC = Some (magic_at data ZIP_CENTRAL_MAGIC pos)"
      using True by (simp add: memeq_magic_at)
    have "\<exists>n. zipos_count data (pos + 46 + v) = Some n" if "magic_at data ZIP_CENTRAL_MAGIC pos"
      using that by (intro 1 [OF True, of True]) (simp_all add: m v)
    with True v m show ?thesis
      by (subst zipos_count.simps) (cases "magic_at data ZIP_CENTRAL_MAGIC pos"; auto)
  next
    case False
    then show ?thesis by (subst zipos_count.simps) simp
  qed
qed

text \<open>The names of the first \<open>n\<close> directory entries from \<open>pos\<close> on lie inside the image.\<close>

fun zip_names_fit :: "bytes \<Rightarrow> nat \<Rightarrow> nat \<Rightarrow> bool" where
  "zip_names_fit data 0 pos = True"
| "zip_names_fit data (Suc n) pos =
     (pos + 46 + unat (the (rd16 data (pos + 28))) \<le> length data \<and>
      zip_names_fit data n (pos + 46 + the (zip_var_len data pos)))"

lemma zipos_entry_defined:
  assumes "pos + 46 + unat (the (rd16 data (pos + 28))) \<le> length data"
  shows "\<exists>e. zipos_entry data pos = Some e"
  using assms rd_defined(1) [of "pos + 10" data] rd_defined(2) [of "pos + 16" data]
    rd_defined(2) [of "pos + 20" data] rd_defined(2) [of "pos + 24" data]
    rd_defined(2) [of "pos + 42" data] rd_defined(1) [of "pos + 28" data]
  by (auto simp: zipos_entry_def rd_region_def)

lemma zipos_fill_complete:
  assumes "zipos_count data pos = Some n" and "zip_names_fit data n pos"
  shows "\<exists>es. zipos_fill data n pos = Some es \<and> length es = n"
  using assms
proof (induction n arbitrary: pos)
  case 0
  then show ?case by simp
next
  case (Suc n)
  from Suc.prems(1) obtain v where in_range: "pos + 46 < length data"
    and v: "zip_var_len data pos = Some v" and c: "zipos_count data (pos + 46 + v) = Some n"
    by (subst (asm) zipos_count.simps) (auto simp: Option.bind_eq_Some_conv split: if_splits)
  from Suc.prems(2) zipos_entry_defined [of pos data] obtain e where e: "zipos_entry data pos = Some e"
    by auto
  from Suc.IH [OF c] Suc.prems(2) v obtain es where
    "zipos_fill data n (pos + 46 + v) = Some es" "length es = n" by auto
  with in_range v e show ?case by simp
qed

lemma header_reads:
  assumes "pe + 84 \<le> length data"
  shows "\<exists>nsec machine opt magic image.
    FILE_HEADER_NumberOfSections data (pe + 4) = Some nsec \<and>
    FILE_HEADER_Machine data (pe + 4) = Some machine \<and>
    FILE_HEADER_SizeOfOptionalHeader data (pe + 4) = Some opt \<and>
    OPT_HEADER_Magic data (pe + 24) = Some magic \<and> OPT_HEADER_SizeOfImage data (pe + 24) = Some image"
  using assms rd_defined(1) [of "6 + pe" data] rd_defined(1) [of "pe + 4" data]
    rd_defined(1) [of "20 + pe" data] rd_defined(1) [of "pe + 24" data] rd_defined(2) [of "80 + pe" data]
  by (auto simp: pe_fields)

section \<open>Properties\<close>

lemma rva_offset_bounds:
  assumes ok: "ape_cache_ok info"
  shows "0 \<le> e9_ape_rva_to_offset (Some info) rva" and "e9_ape_rva_to_offset (Some info) rva < 2 ^ 33"
proof -
  have "0 \<le> e9_ape_rva_to_offset (Some info) rva \<and> e9_ape_rva_to_offset (Some info) rva < 2 ^ 33"
  proof (cases "find (sec_has_rva rva) (ape_sections info)")
    case None
    then show ?thesis using uint_u32_less [of rva] by (simp add: rva_to_offset_find [OF ok])
  next
    case (Some sec)
    obtain off base len where sec: "sec = (off, base, len)" by (cases sec)
    from Some have s: "sec \<in> set (ape_sections info)" "sec_has_rva rva sec"
      by (auto simp: find_Some_iff)
    with ok sec have "0 \<le> off" "off < 2 ^ 32" by (auto simp: ape_cache_ok_def)
    moreover have "uint rva - uint base < 2 ^ 32"
      by (rule le_less_trans [of _ "uint rva"]) (use uint_u32_less [of rva] in simp_all)
    ultimately have "off + (uint rva - uint base) < 2 ^ 32 + 2 ^ 32" and "0 \<le> off" by simp_all
    then show ?thesis using s sec Some by (auto simp: rva_to_offset_find [OF ok])
  qed
  then show "0 \<le> e9_ape_rva_to_offset (Some info) rva" "e9_ape_rva_to_offset (Some info) rva < 2 ^ 33"
    by simp_all
qed

text \<open>
  C8.  \<open>e9_ape_patch_offset\<close> is exact and memory-safe: for every offset and patch of
  representable size it writes precisely the patch at the offset when the region lies inside
  the image (return code 0) and otherwise returns \<open>-1\<close> and leaves the image alone.
\<close>

theorem ape_patch_offset_exact:
  assumes "offset < 2 ^ 63" and "length patch < OBJ_MAX"
  shows "e9_ape_patch_offset (Some data) info offset (Some patch) =
    (if patch \<noteq> [] \<and> 0 \<le> offset \<and> offset + int (length patch) \<le> int (length data)
     then Some (0, Some (take (nat offset) data @ patch @ drop (nat offset + length patch) data))
     else Some (-1, Some data))"
  using assms by (rule patch_offset_eq)

theorem ape_patch_offset_exact_witness:
  "e9_ape_patch_offset (Some [1, 2, 3, 4]) None 1 (Some [9, 8]) = Some (0, Some [1, 9, 8, 4]) \<and>
   e9_ape_patch_offset (Some [1, 2, 3, 4]) None 3 (Some [9, 8]) = Some (-1, Some [1, 2, 3, 4])"
proof -
  have h: "length [9 :: u8, 8] < OBJ_MAX" by (simp add: OBJ_MAX_def)
  show ?thesis
    using ape_patch_offset_exact [of 1 "[9, 8]" "[1, 2, 3, 4]" None]
      ape_patch_offset_exact [of 3 "[9, 8]" "[1, 2, 3, 4]" None] h by simp
qed

text \<open>
  C22.  Address translation round-trips: if the cached sections occupy disjoint ranges of
  the file, every RVA inside a cached section is recovered from the file offset that
  \<open>e9_ape_rva_to_offset\<close> computes for it.
\<close>

theorem ape_rva_offset_roundtrip:
  assumes "ape_cache_ok info" and "ape_files_apart info"
    and "sec \<in> set (ape_sections info)" and "sec_has_rva rva sec"
  shows "e9_ape_offset_to_rva (Some info) (e9_ape_rva_to_offset (Some info) rva) = rva"
  using assms by (rule rva_roundtrip)

definition demo_info :: E9_APEInfo where
  "demo_info = zero_APEInfo\<lparr>text_offset := 0x400, text_rva := 0x1000, text_size := 0x200,
     data_offset := 0x600, data_rva := 0x2000, data_size := 0x100\<rparr>"

theorem ape_rva_offset_roundtrip_witness:
  "e9_ape_rva_to_offset (Some demo_info) 0x2010 = 0x610 \<and>
   e9_ape_offset_to_rva (Some demo_info) (e9_ape_rva_to_offset (Some demo_info) 0x2010) = 0x2010"
proof -
  have "ape_cache_ok demo_info" "ape_files_apart demo_info"
    by (auto simp: ape_cache_ok_def ape_files_apart_def ape_sections_def demo_info_def zero_APEInfo_def)
  moreover have "(0x600, 0x2000, 0x100) \<in> set (ape_sections demo_info)"
    "sec_has_rva 0x2010 (0x600, 0x2000, 0x100)"
    by (simp_all add: ape_sections_def demo_info_def zero_APEInfo_def)
  ultimately have "e9_ape_offset_to_rva (Some demo_info) (e9_ape_rva_to_offset (Some demo_info) 0x2010) = 0x2010"
    by (rule ape_rva_offset_roundtrip)
  moreover have "e9_ape_rva_to_offset (Some demo_info) 0x2010 = 0x610"
    by (simp add: e9_ape_rva_to_offset_def demo_info_def zero_APEInfo_def)
  ultimately show ?thesis by simp
qed

text \<open>
  C23.  \<open>e9_ape_parse\<close> never leaves the image, and therefore returns, on every image that
  contains the headers it points to (optional header up to \<open>SizeOfImage\<close>, at most 16
  section headers).
\<close>

theorem ape_parse_total:
  assumes "ape_headers_fit data"
  shows "\<exists>r. e9_ape_parse (Some data) = Some r"
proof -
  from assms have len: "64 \<le> length data" and pe: "ape_lfanew data + 84 \<le> length data"
    and secs: "\<And>sec. sec \<in> set (ape_section_headers data) \<Longrightarrow> sec + 40 \<le> length data"
    by (auto simp: ape_headers_fit_def)
  obtain lf where lf: "rd32 data 0x3C = Some lf" using len rd_defined(2) [of "0x3C" data] by auto
  then have lfa: "unat lf = ape_lfanew data" by (simp add: ape_lfanew_def)
  obtain det where det: "e9_ape_detect (Some data) = Some det"
    using detect_defined [of data] len pe by auto
  obtain nsec machine opt magic image where
    r16: "FILE_HEADER_NumberOfSections data (ape_lfanew data + 4) = Some nsec"
      "FILE_HEADER_Machine data (ape_lfanew data + 4) = Some machine"
      "FILE_HEADER_SizeOfOptionalHeader data (ape_lfanew data + 4) = Some opt"
      "OPT_HEADER_Magic data (ape_lfanew data + 24) = Some magic"
    and image: "OPT_HEADER_SizeOfImage data (ape_lfanew data + 24) = Some image"
    using header_reads [OF pe] by blast
  obtain info where scan: "ape_scan data = Some info"
    using scan_defined [of data] secs len by auto
  have info0: "zero_APEInfo\<lparr>preserve_zipos := True, is_cosmopolitan := magic_at data APE_MAGIC_COSMO 0,
      pe_offset := int (ape_lfanew data), pe_num_sections := nsec, pe_size := ucast image\<rparr> = ape_info0 data"
    by (simp add: ape_info0_def r16 image)
  from scan obtain i1 i2 where
    i1: "ape_cache_sections data (ape_lfanew data + 24 + unat opt) (ape_info0 data) = Some i1" and
    i2: "ape_find_elf data (ape_elf_search_start i1) i1 = Some i2"
    "ape_find_eocd data (length data - 22) i2 = Some info"
    using mfold_headers [OF r16(1,3), of "ape_info0 data"] r16(1)
    by (auto simp: ape_scan_def Option.bind_eq_Some_conv ape_info0_def)
  show ?thesis
    using len pe lf det r16 image i1 i2
    by (simp add: e9_ape_parse_def Let_def lfa memeq_magic_at marker_scan_defined
        sizeof_PE_FILE_HEADER_def info0 add.assoc)
qed

text \<open>A complete image of 210 bytes: MZ stub, PE headers, one section, an empty ZipOS.\<close>

definition demo_ape :: bytes where
  "demo_ape =
     str_bytes ''MZqFpD'' @ replicate 26 0 @ [0x3C, 0x3C, 0x27, 0x78, 0x27] @ replicate 23 0 @ [64, 0, 0, 0] @
     str_bytes ''PE'' @ [0, 0, 0x64, 0x86, 1, 0] @ replicate 12 0 @ [60, 0, 0, 0] @
     [0x0B, 0x02] @ replicate 54 0 @ [0x00, 0x30, 0, 0] @
     str_bytes ''.text'' @ [0, 0, 0, 0x20, 0, 0, 0, 0x00, 0x10, 0, 0, 0x20, 0, 0, 0, 0x90, 0, 0, 0] @
     replicate 16 0 @
     str_bytes ''PK'' @ [5, 6] @ replicate 18 0"

definition demo_ape_info :: E9_APEInfo where
  "demo_ape_info = zero_APEInfo\<lparr>is_cosmopolitan := True, pe_offset := 64, pe_size := 0x3000,
     pe_num_sections := 1, text_offset := 0x90, text_rva := 0x1000, text_size := 0x20,
     zipos_end := 210, preserve_zipos := True\<rparr>"

lemma demo_ape_parse: "e9_ape_parse (Some demo_ape) = Some (Inr demo_ape_info)"
  by code_simp

theorem ape_parse_total_witness:
  "ape_headers_fit demo_ape \<and> (\<exists>r. e9_ape_parse (Some demo_ape) = Some r)"
proof -
  have "ape_headers_fit demo_ape" by code_simp
  with ape_parse_total [of demo_ape] show ?thesis by blast
qed

text \<open>
  What a successful parse means: the image passed every header check in the order of
  the code, and the cached \<open>.text\<close>, \<open>.rdata\<close> and \<open>.data\<close> ranges are
  exactly those of the last header among the first 16 whose name starts with that string
  (zero if there is none); all cached offsets and sizes are 32-bit values.
\<close>

theorem ape_parse_sections:
  assumes "e9_ape_parse (Some data) = Some (Inr info)"
  shows "ape_header_error data = None \<and> pe_offset info = int (ape_lfanew data) \<and>
    ape_sections info =
      [cached_or data ''.text'' (ape_section_headers data) (0, 0, 0),
       cached_or data ''.rdata'' (ape_section_headers data) (0, 0, 0),
       cached_or data ''.data'' (ape_section_headers data) (0, 0, 0)] \<and>
    ape_cache_ok info"
proof -
  note P = parse_Inr [OF assms]
  from P(3) have len: "22 \<le> length data" by simp
  have "pe_offset info = int (ape_lfanew data)" by (rule scan_cases [OF P(2) len])
  with P(1) scan_sections [OF P(2) len] parse_cache_ok [OF assms] show ?thesis by simp
qed

theorem ape_parse_sections_witness:
  "ape_header_error demo_ape = None \<and> ape_sections demo_ape_info =
     [(0x90, 0x1000, 0x20), (0, 0, 0), (0, 0, 0)]"
  using ape_parse_sections [OF demo_ape_parse]
  by (simp add: ape_sections_def demo_ape_info_def zero_APEInfo_def)

text \<open>
  The ZipOS members after a successful parse: the end-of-central-directory record is
  the last one in the final 64 KiB, its entry count, directory offset and end are taken
  over, and \<open>zipos_start\<close> is the first local header before the directory; without a
  record all of them are zero.
\<close>

theorem ape_parse_zipos:
  assumes "e9_ape_parse (Some data) = Some (Inr info)"
  shows "case find (magic_at data ZIP_END_MAGIC)
             (rev [max 1 (length data - 65535) ..< Suc (length data - 22)]) of
      None \<Rightarrow> zipos_end info = 0 \<and> zipos_central_dir info = 0 \<and> zipos_start info = 0
    | Some k \<Rightarrow> zipos_end info = int k + 22 \<and>
        zipos_num_entries info = ucast (the (rd16 data (k + 10))) \<and>
        zipos_central_dir info = uint (the (rd32 data (k + 16))) \<and>
        zipos_start info =
          (case find (magic_at data ZIP_LOCAL_MAGIC)
                  [0 ..< min (nat (zipos_central_dir info)) (length data - 4)] of
             None \<Rightarrow> 0 | Some j \<Rightarrow> int j)"
proof -
  note P = parse_Inr [OF assms]
  from P(3) have len: "22 \<le> length data" by simp
  show ?thesis
  proof (rule scan_cases [OF P(2) len])
    fix i1 i2
    assume e: "ape_find_eocd data (length data - 22) i2 = Some info"
      and z: "zipos_start i2 = 0" "zipos_central_dir i2 = 0" "zipos_end i2 = 0"
    have "length data - 22 + 22 \<le> length data" using len by simp
    from e [unfolded find_eocd_eq [OF this]] z show ?thesis
      by (auto simp: find_local_eq eocd_fields_def simp del: upt_Suc split: option.splits)
  qed
qed

theorem ape_parse_zipos_witness:
  "zipos_end demo_ape_info = 188 + 22 \<and> zipos_start demo_ape_info = 0"
proof -
  have "find (magic_at demo_ape ZIP_END_MAGIC)
      (rev [max 1 (length demo_ape - 65535) ..< Suc (length demo_ape - 22)]) = Some 188"
    by code_simp
  with ape_parse_zipos [OF demo_ape_parse] show ?thesis
    by (simp add: demo_ape_info_def zero_APEInfo_def del: upt_Suc)
qed

text \<open>
  After a successful parse every RVA translates to a non-negative file offset below
  \<open>2 ^ 33\<close>: the documented result \<open>-1\<close> for an RVA outside all sections does not occur,
  and such an RVA is returned unchanged.
\<close>

theorem ape_rva_offset_range:
  assumes "e9_ape_parse (Some data) = Some (Inr info)"
  shows "0 \<le> e9_ape_rva_to_offset (Some info) rva \<and> e9_ape_rva_to_offset (Some info) rva < 2 ^ 33 \<and>
    ((\<forall>sec \<in> set (ape_sections info). \<not> sec_has_rva rva sec) \<longrightarrow>
       e9_ape_rva_to_offset (Some info) rva = uint rva)"
proof -
  from assms have ok: "ape_cache_ok info" by (rule parse_cache_ok)
  moreover have "e9_ape_rva_to_offset (Some info) rva = uint rva"
    if "\<forall>sec \<in> set (ape_sections info). \<not> sec_has_rva rva sec"
    using that by (auto simp: rva_to_offset_find [OF ok] find_Some_iff split: option.splits)
  ultimately show ?thesis using rva_offset_bounds [OF ok] by blast
qed

theorem ape_rva_offset_range_witness:
  "0 \<le> e9_ape_rva_to_offset (Some demo_ape_info) 0x1010 \<and>
   e9_ape_rva_to_offset (Some demo_ape_info) 0x1010 = 0xA0"
  using ape_rva_offset_range [OF demo_ape_parse, of "0x1010"]
  by (simp add: e9_ape_rva_to_offset_def demo_ape_info_def zero_APEInfo_def)

text \<open>
  Listing ZipOS ends and is complete: if the names of the directory entries lie inside
  the image, \<open>e9_ape_zipos_list\<close> stays inside the image and returns as many entries as
  the count it reports.
\<close>

theorem ape_zipos_list_complete:
  assumes "zipos_central_dir info \<noteq> 0"
    and "\<And>n. zipos_count data (nat (zipos_central_dir info)) = Some n \<Longrightarrow>
      zip_names_fit data n (nat (zipos_central_dir info))"
  shows "\<exists>es n. zipos_count data (nat (zipos_central_dir info)) = Some n \<and> length es = n \<and>
    e9_ape_zipos_list (Some data) (Some info) = Some (if n = 0 then (None, 0) else (Some es, n))"
proof -
  obtain n where n: "zipos_count data (nat (zipos_central_dir info)) = Some n"
    using zipos_count_defined by blast
  from zipos_fill_complete [OF n assms(2) [OF n]] obtain es where
    "zipos_fill data n (nat (zipos_central_dir info)) = Some es" "length es = n" by blast
  with assms(1) n show ?thesis by (auto simp: e9_ape_zipos_list_def)
qed

text \<open>One entry named \<open>a/\<close> at offset 1.\<close>

definition demo_zip :: bytes where
  "demo_zip = [0] @ str_bytes ''PK'' @ [1, 2] @ replicate 24 0 @ [2, 0] @ replicate 16 0 @ str_bytes ''a/''"

definition demo_zip_info :: E9_APEInfo where
  "demo_zip_info = zero_APEInfo\<lparr>zipos_central_dir := 1\<rparr>"

theorem ape_zipos_list_complete_witness:
  "\<exists>es n. zipos_count demo_zip 1 = Some n \<and> n = 1 \<and> length es = n \<and>
     e9_ape_zipos_list (Some demo_zip) (Some demo_zip_info) = Some (Some es, n)"
proof -
  have c: "zipos_count demo_zip 1 = Some 1" by code_simp
  have f: "zip_names_fit demo_zip 1 1" by code_simp
  have d: "zipos_central_dir demo_zip_info = 1" by (simp add: demo_zip_info_def)
  show ?thesis using ape_zipos_list_complete [of demo_zip_info demo_zip] c f d by auto
qed

text \<open>Three malformed images.\<close>

definition wrap_image :: bytes where
  "wrap_image = str_bytes ''MZ'' @ replicate 58 0 @ [0xFC, 0xFF, 0xFF, 0xFF]"

definition short_image :: bytes where
  "short_image = str_bytes ''MZqFpD'' @ replicate 26 0 @ [0x3C, 0x3C, 0x27, 0x78, 0x27] @ replicate 23 0 @ [64, 0, 0, 0] @
     str_bytes ''PE'' @ [0, 0, 0x64, 0x86, 1, 0] @ replicate 12 0 @ [60, 0, 0, 0]"

definition short_zip :: bytes where
  "short_zip = [0] @ str_bytes ''PK'' @ [1, 2] @ replicate 24 0 @ [200, 0] @ replicate 16 0 @ str_bytes ''a/''"

text \<open>
  The bounds checks of \<open>e9_ape_detect\<close> and \<open>e9_ape_parse\<close> are not enough.
  \<open>pe_offset + 4\<close> wraps in 32 bits, so a 64-byte file with \<open>e_lfanew = 0xFFFFFFFC\<close>
  makes detection compare bytes 4 GiB past its end; a file that ends after the PE file header
  passes the \<open>+ 24\<close> check of the parser, which then reads the optional header past the end;
  and a directory entry whose name runs past the end makes the ZipOS listing read past it.
\<close>

theorem ape_out_of_bounds_reads:
  "e9_ape_detect (Some wrap_image) = None \<and> e9_ape_parse (Some short_image) = None \<and>
   e9_ape_zipos_list (Some short_zip) (Some demo_zip_info) = None"
proof (intro conjI)
  have "length wrap_image = 64" by (simp add: wrap_image_def)
  moreover have "memeq wrap_image 0 APE_MAGIC_COSMO = Some False" "rd8 wrap_image 0 = Some 0x4D"
    "rd8 wrap_image 1 = Some 0x5A" "rd32 wrap_image 0x3C = Some 0xFFFFFFFC"
    by code_simp+
  ultimately show "e9_ape_detect (Some wrap_image) = None"
    by (simp add: e9_ape_detect_def memeq_def [of _ "4294967292"] rd_region_def)
  show "e9_ape_parse (Some short_image) = None" by code_simp
  show "e9_ape_zipos_list (Some short_zip) (Some demo_zip_info) = None" by code_simp
qed

end
