(* ===== verification/E9Machine.thy ===== *)
theory E9Machine
  imports E9Prelude
begin

text \<open>
  Components with a state that lives across calls are machines: initial states and a step
  relation, one step per call of an operation.  The locale is the interface between a
  component's one-step lemmas and the properties of all its reachable states; the number of
  steps is kept because some invariants depend on it (identifiers drawn from a counter of
  fixed width).
\<close>

inductive reach :: "('s \<Rightarrow> bool) \<Rightarrow> ('s \<Rightarrow> 's \<Rightarrow> bool) \<Rightarrow> nat \<Rightarrow> 's \<Rightarrow> bool"
  for start :: "'s \<Rightarrow> bool" and step :: "'s \<Rightarrow> 's \<Rightarrow> bool" where
  reach_start: "start s \<Longrightarrow> reach start step 0 s"
| reach_step: "reach start step n s \<Longrightarrow> step s s' \<Longrightarrow> reach start step (Suc n) s'"

locale counted_machine =
  fixes start :: "'s \<Rightarrow> bool"
    and step :: "'s \<Rightarrow> 's \<Rightarrow> bool"
    and inv :: "nat \<Rightarrow> 's \<Rightarrow> bool"
  assumes inv_start: "start s \<Longrightarrow> inv 0 s"
    and inv_step: "inv n s \<Longrightarrow> step s s' \<Longrightarrow> inv (Suc n) s'"
begin

lemma reach_inv: "reach start step n s \<Longrightarrow> inv n s"
  by (induction rule: reach.induct) (auto intro: inv_start inv_step)

end

end
