(* ===== verification/E9LiveReload.thy ===== *)
theory E9LiveReload
  imports E9Ape E9Machine
begin

text \<open>
  \<open>src/src/e9patch/e9livereload.c\<close>: the live reload engine.  A changed source file is
  recompiled, the object files are compared, the differences become patches, and the patches
  are written to the mapped APE image, from which they can be reverted.

  \<open>g_state\<close> is the record \<open>LiveReloadState\<close>; its extension \<open>machine\<close> adds what the
  code reaches outside of it: the files of the object cache, the directories, the clock read by
  \<open>time(NULL)\<close>, and two traces, the events given to the callback and the instruction cache
  ranges flushed.  The array \<open>patches\<close> with \<open>num_patches\<close> is a list of that length.
  The mapping is the list of its bytes.  System calls, the compiler and the object differ are
  the functions of \<open>lr_env\<close>.  Messages are values of a datatype in place of formatted
  text; log output is left out; allocation succeeds; the callback does not call back into
  the engine.
\<close>

section \<open>Data\<close>

definition MAX_PATCHES :: nat where "MAX_PATCHES = 256"
definition MAX_PATH_LEN :: nat where "MAX_PATH_LEN = 256"

datatype E9PatchTargetType =
    E9_PATCH_TARGET_FILE_OFFSET
  | E9_PATCH_TARGET_PE_RVA
  | E9_PATCH_TARGET_VA

datatype E9PatchStatus =
    E9_PATCH_STATUS_PENDING
  | E9_PATCH_STATUS_APPLIED
  | E9_PATCH_STATUS_FAILED
  | E9_PATCH_STATUS_REVERTED

datatype E9LiveReloadEventType =
    E9_LR_EVENT_FILE_CHANGE
  | E9_LR_EVENT_COMPILE_START
  | E9_LR_EVENT_COMPILE_DONE
  | E9_LR_EVENT_COMPILE_ERROR
  | E9_LR_EVENT_PATCH_GENERATED
  | E9_LR_EVENT_PATCH_APPLIED
  | E9_LR_EVENT_PATCH_FAILED
  | E9_LR_EVENT_PATCH_REVERTED

text \<open>The texts passed to \<open>set_error\<close>, and those stored in a patch or sent with an event.\<close>

datatype lr_error =
    LR_ALREADY_INITIALIZED
  | LR_NO_SELF_PATH
  | LR_CANNOT_OPEN string
  | LR_CANNOT_STAT
  | LR_CANNOT_MMAP
  | LR_NOT_APE
  | LR_COMPILE_FAILED int
  | LR_READ_OBJECTS
  | LR_DIFF_FAILED
  | LR_MAX_PATCHES
  | LR_INOTIFY_INIT
  | LR_INOTIFY_WATCH
  | LR_NOT_INITIALIZED
  | LR_NOT_READY
  | LR_CANNOT_RESOLVE u64
  | LR_PATCH_NOT_FOUND u32

datatype patch_msg =
    PM_NOT_MAPPED
  | PM_OUT_OF_BOUNDS int
  | PM_APE_PATCH_FAILED
  | PM_COMPILATION_FAILED

record E9LiveReloadConfig =
  cfg_source_dir :: "string ptr"
  cfg_compiler :: "string ptr"
  cfg_compiler_flags :: "string ptr"
  cfg_cache_dir :: "string ptr"
  cfg_watch_interval_ms :: u32
  cfg_enable_hot_patch :: bool
  cfg_enable_file_patch :: bool
  cfg_max_patch_size :: u64
  cfg_max_pending_patches :: u64
  cfg_verbose :: bool

definition E9_LIVERELOAD_CONFIG_DEFAULT :: E9LiveReloadConfig where
  "E9_LIVERELOAD_CONFIG_DEFAULT = \<lparr>cfg_source_dir = Some ''.'', cfg_compiler = None,
     cfg_compiler_flags = Some ''-O2 -g'', cfg_cache_dir = None, cfg_watch_interval_ms = 100,
     cfg_enable_hot_patch = True, cfg_enable_file_patch = False, cfg_max_patch_size = 65536,
     cfg_max_pending_patches = 256, cfg_verbose = False\<rparr>"

definition zero_config :: E9LiveReloadConfig where
  "zero_config = \<lparr>cfg_source_dir = None, cfg_compiler = None, cfg_compiler_flags = None,
     cfg_cache_dir = None, cfg_watch_interval_ms = 0, cfg_enable_hot_patch = False,
     cfg_enable_file_patch = False, cfg_max_patch_size = 0, cfg_max_pending_patches = 0,
     cfg_verbose = False\<rparr>"

record E9LiveReloadEvent =
  ev_type :: E9LiveReloadEventType
  ev_timestamp :: u64
  ev_file_path :: string
  ev_patch_id :: u32
  ev_function_name :: "string ptr"
  ev_patch_address :: u64
  ev_patch_size :: u64
  ev_error_code :: int
  ev_error_msg :: "patch_msg ptr"

record E9LiveReloadStats =
  changes_detected :: u64
  patches_generated :: u64
  patches_applied :: u64
  patches_failed :: u64
  patches_reverted :: u64
  total_bytes_patched :: u64
  last_change_time :: u64
  last_patch_time :: u64

definition zero_stats :: E9LiveReloadStats where
  "zero_stats = \<lparr>changes_detected = 0, patches_generated = 0, patches_applied = 0,
     patches_failed = 0, patches_reverted = 0, total_bytes_patched = 0, last_change_time = 0,
     last_patch_time = 0\<rparr>"

record InternalPatch =
  ip_id :: u32
  ip_source_file :: string
  ip_function_name :: string
  ip_target_type :: E9PatchTargetType
  ip_target_address :: u64
  ip_file_offset :: int
  ip_old_bytes :: "bytes ptr"
  ip_old_size :: u64
  ip_new_bytes :: "bytes ptr"
  ip_new_size :: u64
  ip_status :: E9PatchStatus
  ip_error_msg :: "patch_msg option"
  ip_timestamp :: u64

text \<open>\<open>E9PatchInfo\<close> has the members of \<open>InternalPatch\<close> except the file offset.\<close>

record E9PatchInfo =
  pi_id :: u32
  pi_source_file :: string
  pi_function_name :: string
  pi_target_type :: E9PatchTargetType
  pi_target_address :: u64
  pi_old_bytes :: "bytes ptr"
  pi_old_size :: u64
  pi_new_bytes :: "bytes ptr"
  pi_new_size :: u64
  pi_status :: E9PatchStatus
  pi_error_msg :: "patch_msg option"
  pi_timestamp :: u64

record E9BinaryenPatch =
  bp_address :: u64
  bp_old_bytes :: bytes
  bp_new_bytes :: bytes
  bp_size :: u64
  bp_function :: "string ptr"

record LiveReloadState =
  initialized :: bool
  watching :: bool
  config :: E9LiveReloadConfig
  source_dir :: string
  compiler :: string
  cache_dir :: string
  target_path :: string
  is_self_patch :: bool
  target_fd :: int
  target_mapped :: "bytes ptr"
  target_size :: u64
  ape_info :: E9_APEInfo
  inotify_fd :: int
  watch_fd :: int
  patches :: "InternalPatch list"
  next_patch_id :: u32
  callback :: "nat ptr"
  callback_userdata :: nat
  stats :: E9LiveReloadStats
  error_msg :: "lr_error option"

type_synonym filesys = "string \<Rightarrow> bytes option"

record machine = LiveReloadState +
  files :: filesys
  dirs :: "string set"
  clock :: "nat \<Rightarrow> u64"
  ticks :: nat
  events :: "E9LiveReloadEvent list"
  flushed :: "(int \<times> u64) list"

record lr_env =
  sys_system :: "string \<Rightarrow> filesys \<Rightarrow> int \<times> filesys"
  sys_open :: "string \<Rightarrow> int"
  sys_fstat :: "int \<Rightarrow> u64 option"
  sys_mmap :: "int \<Rightarrow> u64 \<Rightarrow> bytes ptr"
  sys_self_path :: "string ptr"
  sys_inotify_init1 :: int
  sys_inotify_add_watch :: "int \<Rightarrow> string \<Rightarrow> int"
  sys_diff_objects :: "bytes \<Rightarrow> bytes \<Rightarrow> E9BinaryenPatch list option"

text \<open>
  The object differ of the repository, \<open>src/src/e9patch/wasm/e9binaryen.c\<close>: not yet
  implemented, it always fails.
\<close>

definition e9_binaryen_diff_objects :: "bytes \<Rightarrow> bytes \<Rightarrow> E9BinaryenPatch list option" where
  "e9_binaryen_diff_objects old_obj new_obj = None"

text \<open>\<open>memset(&g_state, 0, sizeof(g_state))\<close>\<close>

definition memset_g_state :: "machine \<Rightarrow> machine" where
  "memset_g_state s = s\<lparr>initialized := False, watching := False, config := zero_config,
     source_dir := [], compiler := [], cache_dir := [], target_path := [],
     is_self_patch := False, target_fd := 0, target_mapped := None, target_size := 0,
     ape_info := zero_APEInfo, inotify_fd := 0, watch_fd := 0, patches := [],
     next_patch_id := 0, callback := None, callback_userdata := 0, stats := zero_stats,
     error_msg := None\<rparr>"

section \<open>Strings, errors, time and events\<close>

text \<open>\<open>strncpy(dst, src, MAX_PATH_LEN - 1)\<close> into a zeroed array; \<open>snprintf\<close> into \<open>n\<close> bytes.\<close>

definition strncpy_to :: "nat \<Rightarrow> string \<Rightarrow> string" where
  "strncpy_to n src = take n src"

definition snprintf_to :: "nat \<Rightarrow> string \<Rightarrow> string" where
  "snprintf_to n text = take (n - 1) text"

definition set_error :: "lr_error \<Rightarrow> machine \<Rightarrow> machine" where
  "set_error e s = s\<lparr>error_msg := Some e\<rparr>"

definition e9_livereload_get_error :: "machine \<Rightarrow> lr_error option" where
  "e9_livereload_get_error s = error_msg s"

definition e9_livereload_clear_error :: "machine \<Rightarrow> machine" where
  "e9_livereload_clear_error s = s\<lparr>error_msg := None\<rparr>"

definition time_null :: "machine \<Rightarrow> u64 \<times> machine" where
  "time_null s = (clock s (ticks s), s\<lparr>ticks := Suc (ticks s)\<rparr>)"

definition dispatch_event ::
  "E9LiveReloadEventType \<Rightarrow> string \<Rightarrow> u32 \<Rightarrow> string ptr \<Rightarrow> u64 \<Rightarrow> u64 \<Rightarrow> int \<Rightarrow> patch_msg ptr \<Rightarrow>
   machine \<Rightarrow> machine" where
  "dispatch_event ty file pid func addr sz err_code err_msg s =
     (if callback s = None then s
      else let (t, s) = time_null s in
        s\<lparr>events := events s @ [\<lparr>ev_type = ty, ev_timestamp = t, ev_file_path = file,
           ev_patch_id = pid, ev_function_name = func, ev_patch_address = addr,
           ev_patch_size = sz, ev_error_code = err_code, ev_error_msg = err_msg\<rparr>]\<rparr>)"

definition upd_stats :: "(E9LiveReloadStats \<Rightarrow> E9LiveReloadStats) \<Rightarrow> machine \<Rightarrow> machine" where
  "upd_stats f s = s\<lparr>stats := f (stats s)\<rparr>"

definition upd_patch :: "nat \<Rightarrow> (InternalPatch \<Rightarrow> InternalPatch) \<Rightarrow> machine \<Rightarrow> machine" where
  "upd_patch i f s = s\<lparr>patches := (patches s)[i := f (patches s ! i)]\<rparr>"

definition e9wasm_flush_icache :: "int \<Rightarrow> u64 \<Rightarrow> machine \<Rightarrow> machine" where
  "e9wasm_flush_icache addr sz s = s\<lparr>flushed := flushed s @ [(addr, sz)]\<rparr>"

section \<open>Object cache and compilation\<close>

definition ensure_cache_dir :: "machine \<Rightarrow> machine" where
  "ensure_cache_dir s =
     (if cache_dir s \<in> dirs s then s else s\<lparr>dirs := insert (cache_dir s) (dirs s)\<rparr>)"

text \<open>The part after the last slash (\<open>strrchr\<close>).\<close>

definition path_basename :: "string \<Rightarrow> string" where
  "path_basename source = rev (takeWhile (\<lambda>c. c \<noteq> CHR ''/'') (rev source))"

definition get_cached_object_path :: "string \<Rightarrow> machine \<Rightarrow> string" where
  "get_cached_object_path source s =
     snprintf_to MAX_PATH_LEN (cache_dir s @ ''/'' @ path_basename source @ ''.o'')"

definition get_new_object_path :: "string \<Rightarrow> machine \<Rightarrow> string" where
  "get_new_object_path source s =
     snprintf_to MAX_PATH_LEN (cache_dir s @ ''/'' @ path_basename source @ ''.new.o'')"

definition compile_source :: "lr_env \<Rightarrow> string \<Rightarrow> string \<Rightarrow> machine \<Rightarrow> int \<times> machine" where
  "compile_source E source_path output_path s =
     (let cmd = snprintf_to 2048 (compiler s @ '' '' @
            (case cfg_compiler_flags (config s) of None \<Rightarrow> [] | Some fl \<Rightarrow> fl) @
            '' -c '' @ source_path @ '' -o '' @ output_path @ '' 2>&1'');
          s = dispatch_event E9_LR_EVENT_COMPILE_START source_path 0 None 0 0 0 None s;
          (ret, fs) = sys_system E cmd (files s);
          s = s\<lparr>files := fs\<rparr>
      in if ret \<noteq> 0 then
           (-1, dispatch_event E9_LR_EVENT_COMPILE_ERROR source_path 0 None 0 0 ret
                  (Some PM_COMPILATION_FAILED) (set_error (LR_COMPILE_FAILED ret) s))
         else (0, dispatch_event E9_LR_EVENT_COMPILE_DONE source_path 0 None 0 0 0 None s))"

definition read_file :: "string \<Rightarrow> machine \<Rightarrow> bytes ptr" where
  "read_file path s = files s path"

definition rename_file :: "string \<Rightarrow> string \<Rightarrow> machine \<Rightarrow> machine" where
  "rename_file old_path new_path s = (case files s old_path of
     None \<Rightarrow> s
   | Some d \<Rightarrow> s\<lparr>files := (files s)(old_path := None, new_path := Some d)\<rparr>)"

section \<open>Patch generation\<close>

text \<open>The loop over the differences found, one patch slot per difference.\<close>

fun generate_patches_loop ::
  "string \<Rightarrow> E9BinaryenPatch list \<Rightarrow> int \<Rightarrow> machine \<Rightarrow> (int \<times> machine) ub" where
  "generate_patches_loop source_path [] created s = Some (created, s)"
| "generate_patches_loop source_path (bp # bps) created s =
     (if MAX_PATCHES \<le> length (patches s) then Some (created, set_error LR_MAX_PATCHES s)
      else let
          s = s\<lparr>next_patch_id := next_patch_id s + 1\<rparr>;
          file_offset = e9_ape_rva_to_offset (Some (ape_info s)) (ucast (bp_address bp))
        in if file_offset < 0 then generate_patches_loop source_path bps created s
        else do {
          old \<leftarrow> rd_region (bp_old_bytes bp) 0 (unat (bp_size bp));
          new \<leftarrow> rd_region (bp_new_bytes bp) 0 (unat (bp_size bp));
          let (t, s) = time_null s;
          let fname = strncpy_to 127 (case bp_function bp of None \<Rightarrow> [] | Some f \<Rightarrow> f);
          let p = \<lparr>ip_id = next_patch_id s, ip_source_file = strncpy_to (MAX_PATH_LEN - 1) source_path,
             ip_function_name = fname, ip_target_type = E9_PATCH_TARGET_PE_RVA,
             ip_target_address = bp_address bp, ip_file_offset = file_offset,
             ip_old_bytes = Some old, ip_old_size = bp_size bp,
             ip_new_bytes = Some new, ip_new_size = bp_size bp,
             ip_status = E9_PATCH_STATUS_PENDING, ip_error_msg = None, ip_timestamp = t\<rparr>;
          let s = s\<lparr>patches := patches s @ [p]\<rparr>;
          let s = upd_stats (\<lambda>st. st\<lparr>patches_generated := patches_generated st + 1\<rparr>) s;
          let s = dispatch_event E9_LR_EVENT_PATCH_GENERATED source_path (ip_id p) (Some fname)
             (bp_address bp) (bp_size bp) 0 None s;
          generate_patches_loop source_path bps (created + 1) s
        })"

definition generate_patches ::
  "lr_env \<Rightarrow> string \<Rightarrow> string \<Rightarrow> string \<Rightarrow> machine \<Rightarrow> (int \<times> machine) ub" where
  "generate_patches E source_path old_object new_object s =
     (case (read_file old_object s, read_file new_object s) of
        (Some old_data, Some new_data) \<Rightarrow>
          (case sys_diff_objects E old_data new_data of
             None \<Rightarrow> Some (-1, set_error LR_DIFF_FAILED s)
           | Some bps \<Rightarrow>
               if bps = [] then Some (0, s) else generate_patches_loop source_path bps 0 s)
      | _ \<Rightarrow> Some (-1, set_error LR_READ_OBJECTS s))"

section \<open>Patch application\<close>

definition fail_patch :: "nat \<Rightarrow> patch_msg \<Rightarrow> machine \<Rightarrow> machine" where
  "fail_patch i msg s =
     (let s = upd_patch i (\<lambda>p. p\<lparr>ip_error_msg := Some msg, ip_status := E9_PATCH_STATUS_FAILED\<rparr>) s;
          s = upd_stats (\<lambda>st. st\<lparr>patches_failed := patches_failed st + 1\<rparr>) s;
          p = patches s ! i
      in dispatch_event E9_LR_EVENT_PATCH_FAILED (ip_source_file p) (ip_id p)
           (Some (ip_function_name p)) (ip_target_address p) (ip_new_size p) (-1) (Some msg) s)"

definition apply_patch_internal :: "nat \<Rightarrow> machine \<Rightarrow> (int \<times> machine) ub" where
  "apply_patch_internal i s =
     (let p = patches s ! i in
      if target_mapped s = None then
        Some (-1, upd_patch i (\<lambda>p. p\<lparr>ip_error_msg := Some PM_NOT_MAPPED,
                                      ip_status := E9_PATCH_STATUS_FAILED\<rparr>) s)
      else if ip_file_offset p < 0 \<or> target_size s < word_of_int (ip_file_offset p) + ip_new_size p then
        Some (-1, fail_patch i (PM_OUT_OF_BOUNDS (ip_file_offset p)) s)
      else do {
        (ret, mapped) \<leftarrow> e9_ape_patch_offset (target_mapped s) (Some (ape_info s))
            (ip_file_offset p) (ip_new_bytes p);
        let s = s\<lparr>target_mapped := mapped\<rparr>;
        if ret \<noteq> 0 then Some (-1, fail_patch i PM_APE_PATCH_FAILED s)
        else
          let s = e9wasm_flush_icache (ip_file_offset p) (ip_new_size p) s;
              s = upd_patch i (\<lambda>p. p\<lparr>ip_status := E9_PATCH_STATUS_APPLIED\<rparr>) s;
              s = upd_stats (\<lambda>st. st\<lparr>patches_applied := patches_applied st + 1,
                    total_bytes_patched := total_bytes_patched st + ip_new_size p\<rparr>) s;
              (t, s) = time_null s;
              s = upd_stats (\<lambda>st. st\<lparr>last_patch_time := t\<rparr>) s
          in Some (0, dispatch_event E9_LR_EVENT_PATCH_APPLIED (ip_source_file p) (ip_id p)
                 (Some (ip_function_name p)) (ip_target_address p) (ip_new_size p) 0 None s)
      })"

section \<open>File changes\<close>

definition apply_pending_one :: "nat \<Rightarrow> int \<times> machine \<Rightarrow> (int \<times> machine) ub" where
  "apply_pending_one i r = (case r of (applied, s) \<Rightarrow>
     if ip_status (patches s ! i) = E9_PATCH_STATUS_PENDING then do {
       (ret, s) \<leftarrow> apply_patch_internal i s;
       Some (if ret = 0 then applied + 1 else applied, s)
     } else Some (applied, s))"

definition apply_pending :: "machine \<Rightarrow> (int \<times> machine) ub" where
  "apply_pending s = mfold apply_pending_one [0 ..< length (patches s)] (0, s)"

definition handle_file_change :: "lr_env \<Rightarrow> string \<Rightarrow> machine \<Rightarrow> (int \<times> machine) ub" where
  "handle_file_change E source_path s =
     (let s = upd_stats (\<lambda>st. st\<lparr>changes_detected := changes_detected st + 1\<rparr>) s;
          (t, s) = time_null s;
          s = upd_stats (\<lambda>st. st\<lparr>last_change_time := t\<rparr>) s;
          s = dispatch_event E9_LR_EVENT_FILE_CHANGE source_path 0 None 0 0 0 None s;
          s = ensure_cache_dir s;
          old_obj = get_cached_object_path source_path s;
          new_obj = get_new_object_path source_path s;
          (ret, s) = compile_source E source_path new_obj s
      in if ret \<noteq> 0 then Some (-1, s)
         else if files s old_obj = None then Some (0, rename_file new_obj old_obj s)
         else do {
           (num_patches, s) \<leftarrow> generate_patches E source_path old_obj new_obj s;
           let s = rename_file new_obj old_obj s;
           if num_patches \<le> 0 then Some (num_patches, s)
           else if cfg_enable_hot_patch (config s) then apply_pending s
           else Some (num_patches, s)
         })"

section \<open>File watcher\<close>

definition init_inotify :: "lr_env \<Rightarrow> machine \<Rightarrow> int \<times> machine" where
  "init_inotify E s =
     (let s = s\<lparr>inotify_fd := sys_inotify_init1 E\<rparr> in
      if inotify_fd s < 0 then (-1, set_error LR_INOTIFY_INIT s)
      else let s = s\<lparr>watch_fd := sys_inotify_add_watch E (inotify_fd s) (source_dir s)\<rparr> in
        if watch_fd s < 0 then (-1, (set_error LR_INOTIFY_WATCH s)\<lparr>inotify_fd := -1\<rparr>)
        else (0, s))"

definition cleanup_inotify :: "machine \<Rightarrow> machine" where
  "cleanup_inotify s =
     (let s = (if 0 \<le> watch_fd s then s\<lparr>watch_fd := -1\<rparr> else s)
      in if 0 \<le> inotify_fd s then s\<lparr>inotify_fd := -1\<rparr> else s)"

text \<open>\<open>struct inotify_event\<close>: 16 bytes (\<open>wd\<close>, \<open>mask\<close>, \<open>cookie\<close>, \<open>len\<close>), then the name.\<close>

definition sizeof_inotify_event :: nat where "sizeof_inotify_event = 16"

text \<open>\<open>strlen\<close> of the string at \<open>off\<close>; it must end inside the bytes read.\<close>

definition c_string_at :: "bytes \<Rightarrow> nat \<Rightarrow> string ub" where
  "c_string_at buf off =
     (if 0 \<in> set (drop off buf) then Some (map (\<lambda>b. char_of (unat b)) (c_str (drop off buf))) else None)"

definition is_source_name :: "string \<Rightarrow> bool" where
  "is_source_name name \<longleftrightarrow>
     (2 < length name \<and> drop (length name - 2) name = ''.c'') \<or>
     (2 < length name \<and> drop (length name - 2) name = ''.h'')"

definition poll_one :: "lr_env \<Rightarrow> bytes \<Rightarrow> nat \<Rightarrow> u32 \<Rightarrow> machine \<Rightarrow> (int \<times> machine) ub" where
  "poll_one E buf off len s =
     (if 0 < len then do {
        name \<leftarrow> c_string_at buf (off + sizeof_inotify_event);
        if is_source_name name then do {
          (_, s) \<leftarrow> handle_file_change E (snprintf_to MAX_PATH_LEN (source_dir s @ ''/'' @ name)) s;
          Some (1, s)
        } else Some (0, s)
      } else Some (0, s))"

function poll_loop :: "lr_env \<Rightarrow> bytes \<Rightarrow> nat \<Rightarrow> int \<Rightarrow> machine \<Rightarrow> (int \<times> machine) ub" where
  "poll_loop E buf off processed s =
     (if off < length buf then do {
        len \<leftarrow> rd32 buf (off + 12);
        (k, s) \<leftarrow> poll_one E buf off len s;
        poll_loop E buf (off + sizeof_inotify_event + unat len) (processed + k) s
      } else Some (processed, s))"
  by pat_completeness auto
termination
  by (relation "measure (\<lambda>(E, buf, off, k, s). length buf - off)") (auto simp: sizeof_inotify_event_def)

declare poll_loop.simps [simp del]

text \<open>\<open>input\<close> is what \<open>read\<close> put into the buffer, empty when it returned 0 or less.\<close>

definition poll_inotify :: "lr_env \<Rightarrow> bytes \<Rightarrow> machine \<Rightarrow> (int \<times> machine) ub" where
  "poll_inotify E input s = (if length input = 0 then Some (0, s) else poll_loop E input 0 0 s)"

section \<open>Lifecycle\<close>

definition lr_configure :: "E9LiveReloadConfig ptr \<Rightarrow> machine \<Rightarrow> machine" where
  "lr_configure cfg s =
     (let c = (case cfg of Some c \<Rightarrow> c | None \<Rightarrow> E9_LIVERELOAD_CONFIG_DEFAULT);
          str = (\<lambda>opt dflt. strncpy_to (MAX_PATH_LEN - 1) (case opt of Some x \<Rightarrow> x | None \<Rightarrow> dflt))
      in s\<lparr>config := c,
           source_dir := str (cfg_source_dir c) ''.'',
           compiler := str (cfg_compiler c) ''cosmocc'',
           cache_dir := str (cfg_cache_dir c) ''.e9cache''\<rparr>)"

text \<open>
  From \<open>open\<close> to the end of \<open>e9_livereload_init\<close>.  What a failed parse leaves in
  \<open>ape_info\<close> is not recorded: the member is read only after a successful one.
\<close>

definition lr_map_target :: "lr_env \<Rightarrow> machine \<Rightarrow> (int \<times> machine) ub" where
  "lr_map_target E s =
     (let s = s\<lparr>target_fd := sys_open E (target_path s)\<rparr> in
      if target_fd s < 0 then Some (-1, set_error (LR_CANNOT_OPEN (target_path s)) s)
      else case sys_fstat E (target_fd s) of
        None \<Rightarrow> Some (-1, set_error LR_CANNOT_STAT s)
      | Some st_size \<Rightarrow>
        let s = s\<lparr>target_size := st_size, target_mapped := sys_mmap E (target_fd s) st_size\<rparr> in
        if target_mapped s = None then Some (-1, set_error LR_CANNOT_MMAP s)
        else do {
          r \<leftarrow> e9_ape_parse (target_mapped s);
          case r of
            Inl _ \<Rightarrow> Some (-1, (set_error LR_NOT_APE s)\<lparr>target_mapped := None\<rparr>)
          | Inr info \<Rightarrow> Some (0, s\<lparr>ape_info := info, inotify_fd := -1, watch_fd := -1,
                                  next_patch_id := 0, initialized := True\<rparr>)
        })"

definition e9_livereload_init ::
  "lr_env \<Rightarrow> string ptr \<Rightarrow> E9LiveReloadConfig ptr \<Rightarrow> machine \<Rightarrow> (int \<times> machine) ub" where
  "e9_livereload_init E path cfg s =
     (if initialized s then Some (-1, set_error LR_ALREADY_INITIALIZED s)
      else let s = lr_configure cfg (memset_g_state s) in
        case path of
          Some p \<Rightarrow> lr_map_target E (s\<lparr>target_path := strncpy_to (MAX_PATH_LEN - 1) p, is_self_patch := False\<rparr>)
        | None \<Rightarrow> (case sys_self_path E of
            None \<Rightarrow> Some (-1, set_error LR_NO_SELF_PATH s)
          | Some self \<Rightarrow>
              lr_map_target E (s\<lparr>target_path := strncpy_to (MAX_PATH_LEN - 1) self, is_self_patch := True\<rparr>)))"

definition e9_livereload_unwatch :: "machine \<Rightarrow> machine" where
  "e9_livereload_unwatch s = (if watching s then (cleanup_inotify s)\<lparr>watching := False\<rparr> else s)"

text \<open>The frees, \<open>munmap\<close> and \<open>close\<close> leave no trace once \<open>g_state\<close> is cleared.\<close>

definition e9_livereload_shutdown :: "machine \<Rightarrow> machine" where
  "e9_livereload_shutdown s =
     (if \<not> initialized s then s
      else let s = e9_livereload_unwatch s;
               s = (if target_mapped s \<noteq> None then s\<lparr>target_mapped := None\<rparr> else s);
               s = (if 0 \<le> target_fd s then s\<lparr>target_fd := -1\<rparr> else s)
        in memset_g_state s)"

definition e9_livereload_is_ready :: "machine \<Rightarrow> bool" where
  "e9_livereload_is_ready s \<longleftrightarrow> initialized s \<and> target_mapped s \<noteq> None"

definition e9_livereload_watch :: "lr_env \<Rightarrow> machine \<Rightarrow> int \<times> machine" where
  "e9_livereload_watch E s =
     (if \<not> initialized s then (-1, set_error LR_NOT_INITIALIZED s)
      else if watching s then (0, s)
      else case init_inotify E s of (ret, s) \<Rightarrow>
        if ret \<noteq> 0 then (-1, s) else (0, s\<lparr>watching := True\<rparr>))"

definition e9_livereload_poll :: "lr_env \<Rightarrow> bytes \<Rightarrow> machine \<Rightarrow> (int \<times> machine) ub" where
  "e9_livereload_poll E input s =
     (if \<not> initialized s then Some (-1, s)
      else if \<not> watching s then Some (0, s)
      else poll_inotify E input s)"

definition e9_livereload_set_callback :: "nat ptr \<Rightarrow> nat \<Rightarrow> machine \<Rightarrow> machine" where
  "e9_livereload_set_callback cb userdata s = s\<lparr>callback := cb, callback_userdata := userdata\<rparr>"

section \<open>Manual operations\<close>

definition e9_livereload_reload_file :: "lr_env \<Rightarrow> string \<Rightarrow> machine \<Rightarrow> (int \<times> machine) ub" where
  "e9_livereload_reload_file E source_path s =
     (if \<not> initialized s then Some (-1, set_error LR_NOT_INITIALIZED s)
      else handle_file_change E source_path s)"

definition lr_resolve :: "E9_APEInfo \<Rightarrow> E9PatchTargetType \<Rightarrow> u64 \<Rightarrow> int" where
  "lr_resolve info ty address = (case ty of
     E9_PATCH_TARGET_FILE_OFFSET \<Rightarrow> sint address
   | E9_PATCH_TARGET_PE_RVA \<Rightarrow> e9_ape_rva_to_offset (Some info) (ucast address)
   | E9_PATCH_TARGET_VA \<Rightarrow>
       if 0x400000 \<le> address then e9_ape_rva_to_offset (Some info) (ucast (address - 0x400000))
       else sint address)"

definition e9_livereload_apply_patch ::
  "E9PatchTargetType \<Rightarrow> u64 \<Rightarrow> bytes \<Rightarrow> machine \<Rightarrow> (u32 \<times> machine) ub" where
  "e9_livereload_apply_patch ty address patch s =
     (case target_mapped s of
        None \<Rightarrow> Some (0, set_error LR_NOT_READY s)
      | Some mapped \<Rightarrow>
        if \<not> initialized s then Some (0, set_error LR_NOT_READY s)
        else if MAX_PATCHES \<le> length (patches s) then Some (0, set_error LR_MAX_PATCHES s)
        else let s = s\<lparr>next_patch_id := next_patch_id s + 1\<rparr>;
                 file_offset = lr_resolve (ape_info s) ty address
          in if file_offset < 0 then Some (0, set_error (LR_CANNOT_RESOLVE address) s)
          else do {
            old \<leftarrow> rd_region mapped (nat file_offset) (length patch);
            let (t, s) = time_null s;
            let p = \<lparr>ip_id = next_patch_id s, ip_source_file = [], ip_function_name = [],
               ip_target_type = ty, ip_target_address = address, ip_file_offset = file_offset,
               ip_old_bytes = Some old, ip_old_size = word_of_nat (length patch),
               ip_new_bytes = Some patch, ip_new_size = word_of_nat (length patch),
               ip_status = E9_PATCH_STATUS_PENDING, ip_error_msg = None, ip_timestamp = t\<rparr>;
            (ret, s) \<leftarrow> apply_patch_internal (length (patches s)) (s\<lparr>patches := patches s @ [p]\<rparr>);
            if ret \<noteq> 0 then Some (0, s) else Some (ip_id p, s)
          })"

definition revert_one :: "nat \<Rightarrow> machine \<Rightarrow> bytes \<Rightarrow> machine ub" where
  "revert_one i s old =
     (let p = patches s ! i in
      case target_mapped s of
        None \<Rightarrow> None
      | Some mapped \<Rightarrow> do {
          r \<leftarrow> rd_region old 0 (unat (ip_old_size p));
          mapped' \<leftarrow> memcpy_to mapped (nat (ip_file_offset p)) r;
          let s = e9wasm_flush_icache (ip_file_offset p) (ip_old_size p) (s\<lparr>target_mapped := Some mapped'\<rparr>);
          let s = upd_patch i (\<lambda>p. p\<lparr>ip_status := E9_PATCH_STATUS_REVERTED\<rparr>) s;
          let s = upd_stats (\<lambda>st. st\<lparr>patches_reverted := patches_reverted st + 1\<rparr>) s;
          Some (dispatch_event E9_LR_EVENT_PATCH_REVERTED (ip_source_file p) (ip_id p)
                 (Some (ip_function_name p)) (ip_target_address p) (ip_old_size p) 0 None s)
        })"

fun revert_loop :: "u32 \<Rightarrow> nat list \<Rightarrow> machine \<Rightarrow> (int \<times> machine) ub" where
  "revert_loop patch_id [] s = Some (-1, set_error (LR_PATCH_NOT_FOUND patch_id) s)"
| "revert_loop patch_id (i # is) s =
     (let p = patches s ! i in
      if ip_id p = patch_id \<and> ip_status p = E9_PATCH_STATUS_APPLIED then
        (case ip_old_bytes p of
           Some old \<Rightarrow> do { s \<leftarrow> revert_one i s old; Some (0, s) }
         | None \<Rightarrow> revert_loop patch_id is s)
      else revert_loop patch_id is s)"

definition e9_livereload_revert_patch :: "u32 \<Rightarrow> machine \<Rightarrow> (int \<times> machine) ub" where
  "e9_livereload_revert_patch patch_id s =
     (if \<not> initialized s \<or> target_mapped s = None then Some (-1, s)
      else revert_loop patch_id [0 ..< length (patches s)] s)"

definition e9_livereload_flush_icache :: "int \<Rightarrow> u64 \<Rightarrow> machine \<Rightarrow> machine" where
  "e9_livereload_flush_icache addr sz s = e9wasm_flush_icache addr sz s"

section \<open>Queries\<close>

definition e9_livereload_pending_count :: "machine \<Rightarrow> nat" where
  "e9_livereload_pending_count s =
     fold (\<lambda>p n. if ip_status p = E9_PATCH_STATUS_PENDING then n + 1 else n) (patches s) 0"

definition patch_info :: "InternalPatch \<Rightarrow> E9PatchInfo" where
  "patch_info p = \<lparr>pi_id = ip_id p, pi_source_file = ip_source_file p,
     pi_function_name = ip_function_name p, pi_target_type = ip_target_type p,
     pi_target_address = ip_target_address p, pi_old_bytes = ip_old_bytes p,
     pi_old_size = ip_old_size p, pi_new_bytes = ip_new_bytes p, pi_new_size = ip_new_size p,
     pi_status = ip_status p, pi_error_msg = ip_error_msg p, pi_timestamp = ip_timestamp p\<rparr>"

fun get_pending_loop :: "InternalPatch list \<Rightarrow> nat \<Rightarrow> nat \<Rightarrow> E9PatchInfo list" where
  "get_pending_loop [] count max_patches = []"
| "get_pending_loop (p # ps) count max_patches =
     (if count < max_patches then
        if ip_status p = E9_PATCH_STATUS_PENDING
        then patch_info p # get_pending_loop ps (count + 1) max_patches
        else get_pending_loop ps count max_patches
      else [])"

definition e9_livereload_get_pending :: "nat \<Rightarrow> machine \<Rightarrow> E9PatchInfo list" where
  "e9_livereload_get_pending max_patches s = get_pending_loop (patches s) 0 max_patches"

definition e9_livereload_applied_count :: "machine \<Rightarrow> nat" where
  "e9_livereload_applied_count s =
     fold (\<lambda>p n. if ip_status p = E9_PATCH_STATUS_APPLIED then n + 1 else n) (patches s) 0"

definition e9_livereload_get_stats :: "machine \<Rightarrow> E9LiveReloadStats" where
  "e9_livereload_get_stats s = stats s"

section \<open>Frame lemmas\<close>

text \<open>What the operations leave alone once the engine is set up.\<close>

definition same_setup :: "machine \<Rightarrow> machine \<Rightarrow> bool" where
  "same_setup s s' \<longleftrightarrow>
     initialized s' = initialized s \<and> watching s' = watching s \<and> config s' = config s \<and>
     source_dir s' = source_dir s \<and> compiler s' = compiler s \<and> cache_dir s' = cache_dir s \<and>
     target_path s' = target_path s \<and> target_fd s' = target_fd s \<and>
     target_size s' = target_size s \<and> ape_info s' = ape_info s \<and>
     inotify_fd s' = inotify_fd s \<and> watch_fd s' = watch_fd s \<and> callback s' = callback s"

text \<open>The rest of the state that the patch invariants read.\<close>

definition same_patching :: "machine \<Rightarrow> machine \<Rightarrow> bool" where
  "same_patching s s' \<longleftrightarrow>
     target_mapped s' = target_mapped s \<and> patches s' = patches s \<and>
     next_patch_id s' = next_patch_id s \<and>
     patches_applied (stats s') = patches_applied (stats s) \<and>
     patches_failed (stats s') = patches_failed (stats s) \<and>
     patches_reverted (stats s') = patches_reverted (stats s)"

named_theorems frame_simps \<open>which parts of the state the auxiliary operations keep\<close>

lemma same_refl [simp]: "same_setup s s" "same_patching s s"
  by (simp_all add: same_setup_def same_patching_def)

lemma same_trans:
  "same_setup s t \<Longrightarrow> same_setup t u \<Longrightarrow> same_setup s u"
  "same_patching s t \<Longrightarrow> same_patching t u \<Longrightarrow> same_patching s u"
  by (simp_all add: same_setup_def same_patching_def)

lemma dispatch_event_frame [frame_simps]:
  "same_setup s (dispatch_event ty f i fn a z ec em s)"
  "same_patching s (dispatch_event ty f i fn a z ec em s)"
  "files (dispatch_event ty f i fn a z ec em s) = files s"
  "flushed (dispatch_event ty f i fn a z ec em s) = flushed s"
  "stats (dispatch_event ty f i fn a z ec em s) = stats s"
  by (simp_all add: dispatch_event_def time_null_def same_setup_def same_patching_def)

lemma set_error_frame [frame_simps]:
  "same_setup s (set_error e s)" "same_patching s (set_error e s)"
  "files (set_error e s) = files s"
  by (simp_all add: set_error_def same_setup_def same_patching_def)

lemma ensure_cache_dir_frame [frame_simps]:
  "same_setup s (ensure_cache_dir s)" "same_patching s (ensure_cache_dir s)"
  by (simp_all add: ensure_cache_dir_def same_setup_def same_patching_def)

lemma rename_file_frame [frame_simps]:
  "same_setup s (rename_file a b s)" "same_patching s (rename_file a b s)"
  by (simp_all add: rename_file_def same_setup_def same_patching_def split: option.splits)

lemma compile_source_frame:
  assumes "compile_source E src out s = (ret, s')"
  shows "same_setup s s'" and "same_patching s s'"
  using assms
  by (auto simp: compile_source_def Let_def same_setup_def same_patching_def dispatch_event_def
      time_null_def set_error_def split: prod.splits if_splits)

text \<open>The prologue of \<open>handle_file_change\<close>: counters, event, cache directory.\<close>

definition change_prologue :: "string \<Rightarrow> machine \<Rightarrow> machine" where
  "change_prologue src s =
     (let s = upd_stats (\<lambda>st. st\<lparr>changes_detected := changes_detected st + 1\<rparr>) s;
          (t, s) = time_null s;
          s = upd_stats (\<lambda>st. st\<lparr>last_change_time := t\<rparr>) s;
          s = dispatch_event E9_LR_EVENT_FILE_CHANGE src 0 None 0 0 0 None s
      in ensure_cache_dir s)"

lemma change_prologue_frame:
  "same_setup s (change_prologue src s)" "same_patching s (change_prologue src s)"
  by (simp_all add: change_prologue_def Let_def upd_stats_def time_null_def dispatch_event_def
      ensure_cache_dir_def same_setup_def same_patching_def)

lemma handle_file_change_eq:
  "handle_file_change E src s =
     (let s = change_prologue src s;
          old_obj = get_cached_object_path src s;
          new_obj = get_new_object_path src s;
          (ret, s) = compile_source E src new_obj s
      in if ret \<noteq> 0 then Some (-1, s)
         else if files s old_obj = None then Some (0, rename_file new_obj old_obj s)
         else do {
           (num_patches, s) \<leftarrow> generate_patches E src old_obj new_obj s;
           let s = rename_file new_obj old_obj s;
           if num_patches \<le> 0 then Some (num_patches, s)
           else if cfg_enable_hot_patch (config s) then apply_pending s
           else Some (num_patches, s)
         })"
  by (simp add: handle_file_change_def change_prologue_def Let_def split: prod.splits)

section \<open>The invariant\<close>

definition patch_ok :: "u64 \<Rightarrow> InternalPatch \<Rightarrow> bool" where
  "patch_ok tsize p \<longleftrightarrow>
     0 \<le> ip_file_offset p \<and> ip_file_offset p < 2 ^ 63 \<and> ip_old_size p = ip_new_size p \<and>
     unat (ip_new_size p) < OBJ_MAX \<and>
     map_option length (ip_old_bytes p) = Some (unat (ip_new_size p)) \<and>
     map_option length (ip_new_bytes p) = Some (unat (ip_new_size p)) \<and>
     (ip_status p = E9_PATCH_STATUS_APPLIED \<or> ip_status p = E9_PATCH_STATUS_REVERTED \<longrightarrow>
        ip_file_offset p + uint (ip_new_size p) \<le> uint tsize)"

definition status_count :: "E9PatchStatus \<Rightarrow> machine \<Rightarrow> nat" where
  "status_count st s = length (filter (\<lambda>p. ip_status p = st) (patches s))"

definition counts_ok :: "machine \<Rightarrow> bool" where
  "counts_ok s \<longleftrightarrow>
     patches_applied (stats s) = word_of_nat (status_count E9_PATCH_STATUS_APPLIED s +
       status_count E9_PATCH_STATUS_REVERTED s) \<and>
     patches_reverted (stats s) = word_of_nat (status_count E9_PATCH_STATUS_REVERTED s) \<and>
     patches_failed (stats s) = word_of_nat (status_count E9_PATCH_STATUS_FAILED s)"

definition lr_ok :: "machine \<Rightarrow> bool" where
  "lr_ok s \<longleftrightarrow>
     (case target_mapped s of
        None \<Rightarrow> \<not> initialized s \<and> patches s = []
      | Some d \<Rightarrow> initialized s \<and> length d = unat (target_size s) \<and> length d < OBJ_MAX \<and>
          ape_cache_ok (ape_info s)) \<and>
     (watching s \<longrightarrow> initialized s \<and> 0 \<le> inotify_fd s \<and> 0 \<le> watch_fd s) \<and>
     (initialized s \<and> \<not> watching s \<longrightarrow> inotify_fd s < 0) \<and>
     length (patches s) \<le> MAX_PATCHES \<and>
     (\<forall>p \<in> set (patches s). patch_ok (target_size s) p) \<and>
     counts_ok s"

text \<open>
  The identifiers in the table are increasing numbers below the counter, and the counter has
  advanced at most once per patch in the table and once per call.
\<close>

definition lr_ids :: "nat \<Rightarrow> machine \<Rightarrow> bool" where
  "lr_ids n s \<longleftrightarrow> (\<exists>ks k. map ip_id (patches s) = map word_of_nat ks \<and> sorted_wrt (<) ks \<and>
     (\<forall>j \<in> set ks. 0 < j \<and> j \<le> k) \<and> next_patch_id s = word_of_nat k \<and>
     k \<le> n + length (patches s))"

definition lr_inv :: "nat \<Rightarrow> machine \<Rightarrow> bool" where
  "lr_inv n s \<longleftrightarrow> lr_ok s \<and> lr_ids n s"

text \<open>What the engine relies on in its environment.\<close>

definition env_ok :: "lr_env \<Rightarrow> bool" where
  "env_ok E \<longleftrightarrow>
     (\<forall>fd n d. sys_mmap E fd n = Some d \<longrightarrow> length d = unat n \<and> length d < OBJ_MAX) \<and>
     (\<forall>a b bps. sys_diff_objects E a b = Some bps \<longrightarrow>
        (\<forall>bp \<in> set bps. length (bp_old_bytes bp) = unat (bp_size bp) \<and>
           length (bp_new_bytes bp) = unat (bp_size bp) \<and> unat (bp_size bp) < OBJ_MAX))"

lemma lr_ok_frame:
  assumes "lr_ok s" and "same_setup s s'" and "same_patching s s'"
  shows "lr_ok s'"
  using assms
  by (cases "target_mapped s")
    (auto simp: lr_ok_def same_setup_def same_patching_def counts_ok_def status_count_def)

lemma lr_inv_frame:
  assumes "lr_inv n s" and "same_setup s s'" and "same_patching s s'"
  shows "lr_inv n s'"
  using lr_ok_frame [of s s'] assms by (simp add: lr_inv_def lr_ids_def same_patching_def)

lemma lr_ids_mono: "lr_ids n s \<Longrightarrow> n \<le> m \<Longrightarrow> lr_ids m s"
  by (fastforce simp: lr_ids_def)

lemma lr_ok_patch: "lr_ok s \<Longrightarrow> i < length (patches s) \<Longrightarrow> patch_ok (target_size s) (patches s ! i)"
  by (simp add: lr_ok_def)

lemma patch_ok_bytes:
  assumes "patch_ok tsize p"
  obtains old new where "ip_old_bytes p = Some old" "ip_new_bytes p = Some new"
    "length old = unat (ip_new_size p)" "length new = unat (ip_new_size p)"
  using assms by (auto simp: patch_ok_def split: option.splits)

lemma status_count_upd:
  assumes "i < length (patches s)"
  shows "status_count st (s\<lparr>patches := (patches s)[i := y]\<rparr>) + (if ip_status (patches s ! i) = st then 1 else 0) =
    status_count st s + (if ip_status y = st then 1 else 0)"
  using length_filter_update [OF assms, of "\<lambda>p. ip_status p = st" y] by (simp add: status_count_def)

section \<open>Applying one patch\<close>

lemma offset_word_sum:
  assumes "0 \<le> off" and "off < 2 ^ 63" and "unat (n :: u64) < OBJ_MAX"
  shows "uint (word_of_int off + n) = off + uint n"
proof -
  have n: "uint n < 2 ^ 63" using assms(3) unfolding OBJ_MAX_def by (rule uint_less_if_unat)
  have "uint (word_of_int off :: u64) = off" using assms(1,2) by (simp add: uint_word_of_int)
  with n assms(2) show ?thesis using uint_add_small [of "word_of_int off" n] by simp
qed

lemma bounds_check:
  assumes "patch_ok (target_size s) p" and "ip_new_bytes p = Some new"
    and "length d = unat (target_size s)"
  shows "(target_size s < word_of_int (ip_file_offset p) + ip_new_size p) =
    (int (length d) < ip_file_offset p + int (length new))"
proof -
  from assms have sz: "length new = unat (ip_new_size p)" by (auto simp: patch_ok_def)
  have "uint (word_of_int (ip_file_offset p) + ip_new_size p) = ip_file_offset p + uint (ip_new_size p)"
    by (rule offset_word_sum) (use assms(1) in \<open>simp_all add: patch_ok_def\<close>)
  then show ?thesis by (simp add: word_less_def assms(3) sz)
qed

lemma mapped_self: "target_mapped s = Some d \<Longrightarrow> s\<lparr>target_mapped := Some d\<rparr> = s" for s :: machine
  by (cases s) simp

lemma apply_internal_applied:
  assumes ok: "lr_ok s" and i: "i < length (patches s)" and d: "target_mapped s = Some d"
    and p: "p = patches s ! i" and new: "ip_new_bytes p = Some new" "new \<noteq> []"
    and fits: "nat (ip_file_offset p) + length new \<le> length d"
  obtains s' where "apply_patch_internal i s = Some (0, s')" "same_setup s s'"
    "target_mapped s' = Some (take (nat (ip_file_offset p)) d @ new @ drop (nat (ip_file_offset p) + length new) d)"
    "patches s' = (patches s)[i := p\<lparr>ip_status := E9_PATCH_STATUS_APPLIED\<rparr>]"
    "next_patch_id s' = next_patch_id s"
    "patches_applied (stats s') = patches_applied (stats s) + 1"
    "patches_failed (stats s') = patches_failed (stats s)"
    "patches_reverted (stats s') = patches_reverted (stats s)"
    "flushed s' = flushed s @ [(ip_file_offset p, ip_new_size p)]"
proof -
  have pok: "patch_ok (target_size s) p" using lr_ok_patch [OF ok i] p by simp
  have len: "length d = unat (target_size s)" using ok d by (simp add: lr_ok_def)
  have off: "0 \<le> ip_file_offset p" "ip_file_offset p < 2 ^ 63" "length new < OBJ_MAX"
    using pok new(1) by (auto simp: patch_ok_def)
  with fits have fits': "ip_file_offset p + int (length new) \<le> int (length d)" by linarith
  then have chk: "\<not> target_size s < word_of_int (ip_file_offset p) + ip_new_size p"
    by (simp add: bounds_check [OF pok new(1) len])
  have call: "e9_ape_patch_offset (Some d) (Some (ape_info s)) (ip_file_offset p) (Some new) =
      Some (0, Some (take (nat (ip_file_offset p)) d @ new @ drop (nat (ip_file_offset p) + length new) d))"
    using patch_offset_eq [OF off(2,3), of d] new(2) off(1) fits' by simp
  define s1 where "s1 = snd (the (apply_patch_internal i s))"
  note unfolds = apply_patch_internal_def Let_def e9wasm_flush_icache_def upd_patch_def
    upd_stats_def time_null_def dispatch_event_def same_setup_def
  have r: "fst (the (apply_patch_internal i s)) = 0" "apply_patch_internal i s \<noteq> None"
    using chk call off(1) d new(1) p by (simp_all add: unfolds)
  show ?thesis
    by (rule that [of s1])
      (use r in \<open>(simp add: s1_def prod_eq_iff)\<close>,
        use chk call off(1) d new(1) p in \<open>simp_all add: s1_def unfolds\<close>)
qed

lemma apply_internal_failed:
  assumes ok: "lr_ok s" and i: "i < length (patches s)" and d: "target_mapped s = Some d"
    and p: "p = patches s ! i" and new: "ip_new_bytes p = Some new"
    and bad: "new = [] \<or> length d < nat (ip_file_offset p) + length new"
  obtains s' msg where "apply_patch_internal i s = Some (-1, s')" "same_setup s s'"
    "target_mapped s' = Some d"
    "patches s' = (patches s)[i := p\<lparr>ip_error_msg := Some msg, ip_status := E9_PATCH_STATUS_FAILED\<rparr>]"
    "next_patch_id s' = next_patch_id s"
    "patches_applied (stats s') = patches_applied (stats s)"
    "patches_failed (stats s') = patches_failed (stats s) + 1"
    "patches_reverted (stats s') = patches_reverted (stats s)"
    "flushed s' = flushed s"
proof -
  have pok: "patch_ok (target_size s) p" using lr_ok_patch [OF ok i] p by simp
  have len: "length d = unat (target_size s)" using ok d by (simp add: lr_ok_def)
  have off: "0 \<le> ip_file_offset p" "ip_file_offset p < 2 ^ 63" "length new < OBJ_MAX"
    using pok new(1) by (auto simp: patch_ok_def)
  define msg where "msg = (if target_size s < word_of_int (ip_file_offset p) + ip_new_size p
    then PM_OUT_OF_BOUNDS (ip_file_offset p) else PM_APE_PATCH_FAILED)"
  have call: "e9_ape_patch_offset (Some d) (Some (ape_info s)) (ip_file_offset p) (Some new) = Some (-1, Some d)"
    using patch_offset_eq [OF off(2,3), of d] off(1) bad by auto
  have "apply_patch_internal i s = Some (-1, fail_patch i msg s)"
  proof (cases "target_size s < word_of_int (ip_file_offset p) + ip_new_size p")
    case True
    then show ?thesis using d p by (simp add: apply_patch_internal_def Let_def msg_def)
  next
    case False
    then show ?thesis using d p call off(1) new(1) 
      by (simp add: apply_patch_internal_def Let_def msg_def mapped_self)
  qed
  then show ?thesis
    by (rule that [of _ msg])
      (use d p in \<open>simp_all add: fail_patch_def Let_def upd_patch_def upd_stats_def dispatch_event_def
         time_null_def same_setup_def\<close>)
qed

lemma lr_inv_update:
  assumes inv: "lr_inv n s" and i: "i < length (patches s)" and su: "same_setup s s'"
    and d: "target_mapped s = Some d" "target_mapped s' = Some d'" "length d' = length d"
    and ps: "patches s' = (patches s)[i := q]" and nid: "next_patch_id s' = next_patch_id s"
    and q: "patch_ok (target_size s) q" "ip_id q = ip_id (patches s ! i)"
    and cnt: "counts_ok s'"
  shows "lr_inv n s'"
proof -
  have ids: "map ip_id (patches s') = map ip_id (patches s)"
    using ps q(2) i by (simp add: map_update list_update_same_conv)
  have "\<forall>p \<in> set (patches s'). patch_ok (target_size s) p"
    unfolding ps using inv q(1) by (intro list_all_update) (simp_all add: lr_inv_def lr_ok_def)
  moreover have len: "length (patches s') = length (patches s)" using ps by simp
  ultimately have "lr_ok s'"
    using inv su d cnt by (simp add: lr_inv_def lr_ok_def same_setup_def)
  moreover have "lr_ids n s'" using inv by (simp add: lr_inv_def lr_ids_def ids nid len)
  ultimately show ?thesis by (simp add: lr_inv_def)
qed

lemma counts_ok_update:
  assumes "counts_ok s" and i: "i < length (patches s)" and "patches s' = (patches s)[i := q]"
    and "ip_status (patches s ! i) = E9_PATCH_STATUS_PENDING"
    and "patches_reverted (stats s') = patches_reverted (stats s)"
    and "(ip_status q = E9_PATCH_STATUS_APPLIED \<and>
           patches_applied (stats s') = patches_applied (stats s) + 1 \<and>
           patches_failed (stats s') = patches_failed (stats s)) \<or>
         (ip_status q = E9_PATCH_STATUS_FAILED \<and>
           patches_applied (stats s') = patches_applied (stats s) \<and>
           patches_failed (stats s') = patches_failed (stats s) + 1)"
  shows "counts_ok s'"
proof -
  have "status_count st s' = status_count st s + (if ip_status q = st then 1 else 0)"
    if "st \<noteq> E9_PATCH_STATUS_PENDING" for st
    using length_filter_update [OF i, of "\<lambda>p. ip_status p = st" q] that assms(3,4)
    by (simp add: status_count_def)
  with assms show ?thesis by (auto simp: counts_ok_def)
qed

lemma apply_internal_inv:
  assumes inv: "lr_inv n s" and i: "i < length (patches s)" and d: "target_mapped s = Some d"
    and st: "ip_status (patches s ! i) = E9_PATCH_STATUS_PENDING"
  shows "\<exists>r s' d'. apply_patch_internal i s = Some (r, s') \<and> lr_inv n s' \<and> same_setup s s' \<and>
    target_mapped s' = Some d' \<and> length (patches s') = length (patches s) \<and> (r = 0 \<or> r = -1)"
proof -
  define p where "p = patches s ! i"
  from inv have ok: "lr_ok s" and cnt: "counts_ok s" by (auto simp: lr_inv_def lr_ok_def)
  have pok: "patch_ok (target_size s) p" using lr_ok_patch [OF ok i] by (simp add: p_def)
  then obtain new where new: "ip_new_bytes p = Some new" "length new = unat (ip_new_size p)"
    by (rule patch_ok_bytes)
  have len: "length d = unat (target_size s)" using ok d by (simp add: lr_ok_def)
  show ?thesis
  proof (cases "new \<noteq> [] \<and> nat (ip_file_offset p) + length new \<le> length d")
    case True
    then obtain s' where s': "apply_patch_internal i s = Some (0, s')" "same_setup s s'"
      "target_mapped s' = Some (take (nat (ip_file_offset p)) d @ new @ drop (nat (ip_file_offset p) + length new) d)"
      "patches s' = (patches s)[i := p\<lparr>ip_status := E9_PATCH_STATUS_APPLIED\<rparr>]"
      "next_patch_id s' = next_patch_id s" "patches_applied (stats s') = patches_applied (stats s) + 1"
      "patches_failed (stats s') = patches_failed (stats s)"
      "patches_reverted (stats s') = patches_reverted (stats s)"
      using apply_internal_applied [OF ok i d p_def new(1)] by metis
    have "ip_file_offset p + int (length new) \<le> int (length d)"
      using True pok by (simp add: patch_ok_def) linarith
    then have "ip_file_offset p + uint (ip_new_size p) \<le> uint (target_size s)"
      by (simp add: new(2) len)
    then have q: "patch_ok (target_size s) (p\<lparr>ip_status := E9_PATCH_STATUS_APPLIED\<rparr>)"
      using pok by (simp add: patch_ok_def)
    have "counts_ok s'" by (rule counts_ok_update [OF cnt i s'(4) st]) (use s' in simp_all)
    with lr_inv_update [OF inv i s'(2) d s'(3) _ s'(4,5) q] True have "lr_inv n s'"
      by (simp add: p_def)
    with s' show ?thesis by auto
  next
    case False
    then have bad: "new = [] \<or> length d < nat (ip_file_offset p) + length new" by auto
    then obtain s' msg where s': "apply_patch_internal i s = Some (-1, s')" "same_setup s s'"
      "target_mapped s' = Some d"
      "patches s' = (patches s)[i := p\<lparr>ip_error_msg := Some msg, ip_status := E9_PATCH_STATUS_FAILED\<rparr>]"
      "next_patch_id s' = next_patch_id s" "patches_applied (stats s') = patches_applied (stats s)"
      "patches_failed (stats s') = patches_failed (stats s) + 1"
      "patches_reverted (stats s') = patches_reverted (stats s)"
      using apply_internal_failed [OF ok i d p_def new(1) bad] by metis
    have q: "patch_ok (target_size s) (p\<lparr>ip_error_msg := Some msg, ip_status := E9_PATCH_STATUS_FAILED\<rparr>)"
      using pok by (simp add: patch_ok_def)
    have "counts_ok s'" by (rule counts_ok_update [OF cnt i s'(4) st]) (use s' in simp_all)
    with lr_inv_update [OF inv i s'(2) d s'(3) _ s'(4,5) q] have "lr_inv n s'"
      by (simp add: p_def)
    with s' show ?thesis by auto
  qed
qed

section \<open>Generating patches\<close>

lemma lr_inv_append:
  assumes inv: "lr_inv n s" and d: "target_mapped s = Some d" and room: "length (patches s) < MAX_PATCHES"
    and su: "same_setup s s'" and d': "target_mapped s' = target_mapped s"
    and ps: "patches s' = patches s @ [q]" and nid: "next_patch_id s' = next_patch_id s + 1"
    and q: "patch_ok (target_size s) q" "ip_id q = next_patch_id s + 1"
      "ip_status q = E9_PATCH_STATUS_PENDING"
    and st: "patches_applied (stats s') = patches_applied (stats s)"
      "patches_failed (stats s') = patches_failed (stats s)"
      "patches_reverted (stats s') = patches_reverted (stats s)"
  shows "lr_inv n s'"
proof -
  have cnt: "counts_ok s'"
    using inv st q(3) ps by (simp add: lr_inv_def lr_ok_def counts_ok_def status_count_def)
  from inv obtain ks k where ks: "map ip_id (patches s) = map word_of_nat ks" "sorted_wrt (<) ks"
    "\<forall>j \<in> set ks. 0 < j \<and> j \<le> k" "next_patch_id s = word_of_nat k" "k \<le> n + length (patches s)"
    by (auto simp: lr_inv_def lr_ids_def)
  have "lr_ids n s'"
    unfolding lr_ids_def
  proof (intro exI conjI)
    show "map ip_id (patches s') = map word_of_nat (ks @ [Suc k])"
      using ks(1,4) ps q(2) by (simp add: add.commute)
    show "sorted_wrt (<) (ks @ [Suc k])" using ks(2,3) by (auto simp: sorted_wrt_append)
    show "\<forall>j \<in> set (ks @ [Suc k]). 0 < j \<and> j \<le> Suc k" using ks(3) by auto
    show "next_patch_id s' = word_of_nat (Suc k)" using ks(4) nid by (simp add: add.commute)
    show "Suc k \<le> n + length (patches s')" using ks(5) ps by simp
  qed
  moreover have "lr_ok s'"
    using inv d room su d' ps q(1) cnt by (simp add: lr_inv_def lr_ok_def same_setup_def)
  ultimately show ?thesis by (simp add: lr_inv_def)
qed

text \<open>The patch made from one difference.\<close>

definition patch_of_diff :: "E9_APEInfo \<Rightarrow> string \<Rightarrow> InternalPatch \<Rightarrow> E9BinaryenPatch \<Rightarrow> bool" where
  "patch_of_diff info src p bp \<longleftrightarrow>
     ip_status p = E9_PATCH_STATUS_PENDING \<and> ip_target_address p = bp_address bp \<and>
     ip_file_offset p = e9_ape_rva_to_offset (Some info) (ucast (bp_address bp)) \<and>
     ip_source_file p = take 255 src \<and>
     ip_old_bytes p = Some (bp_old_bytes bp) \<and> ip_new_bytes p = Some (bp_new_bytes bp)"

definition diff_sized :: "E9BinaryenPatch \<Rightarrow> bool" where
  "diff_sized bp \<longleftrightarrow> length (bp_old_bytes bp) = unat (bp_size bp) \<and>
     length (bp_new_bytes bp) = unat (bp_size bp) \<and> unat (bp_size bp) < OBJ_MAX"

lemma generate_one:
  assumes inv: "lr_inv n s" and d: "target_mapped s = Some d" and room: "length (patches s) < MAX_PATCHES"
    and bp: "diff_sized bp"
  obtains s' q where "generate_patches_loop src (bp # bps) created s = generate_patches_loop src bps (created + 1) s'"
    "lr_inv n s'" "same_setup s s'" "target_mapped s' = target_mapped s" "patches s' = patches s @ [q]"
    "patch_of_diff (ape_info s) src q bp"
proof -
  have cache: "ape_cache_ok (ape_info s)" using inv d by (simp add: lr_inv_def lr_ok_def)
  define off where "off = e9_ape_rva_to_offset (Some (ape_info s)) (ucast (bp_address bp))"
  have off: "0 \<le> off" "off < 2 ^ 63"
    using rva_offset_bounds [OF cache, of "ucast (bp_address bp)"] by (simp_all add: off_def)
  define fname where "fname = strncpy_to 127 (case bp_function bp of None \<Rightarrow> [] | Some f \<Rightarrow> f)"
  define q where "q = \<lparr>ip_id = next_patch_id s + 1, ip_source_file = strncpy_to (MAX_PATH_LEN - 1) src,
     ip_function_name = fname, ip_target_type = E9_PATCH_TARGET_PE_RVA,
     ip_target_address = bp_address bp, ip_file_offset = off,
     ip_old_bytes = Some (bp_old_bytes bp), ip_old_size = bp_size bp,
     ip_new_bytes = Some (bp_new_bytes bp), ip_new_size = bp_size bp,
     ip_status = E9_PATCH_STATUS_PENDING, ip_error_msg = None, ip_timestamp = clock s (ticks s)\<rparr>"
  define s' where "s' = dispatch_event E9_LR_EVENT_PATCH_GENERATED src (ip_id q) (Some fname)
     (bp_address bp) (bp_size bp) 0 None
     (upd_stats (\<lambda>st. st\<lparr>patches_generated := patches_generated st + 1\<rparr>)
       (s\<lparr>next_patch_id := next_patch_id s + 1, ticks := Suc (ticks s), patches := patches s @ [q]\<rparr>))"
  have rd: "rd_region (bp_old_bytes bp) 0 (unat (bp_size bp)) = Some (bp_old_bytes bp)"
    "rd_region (bp_new_bytes bp) 0 (unat (bp_size bp)) = Some (bp_new_bytes bp)"
    using bp by (simp_all add: rd_region_def diff_sized_def)
  have "generate_patches_loop src (bp # bps) created s = generate_patches_loop src bps (created + 1) s'"
    using room off(1) rd
    by (simp add: Let_def off_def [symmetric] time_null_def s'_def q_def fname_def upd_stats_def)
  moreover have su: "same_setup s s'" "target_mapped s' = target_mapped s" "patches s' = patches s @ [q]"
    "next_patch_id s' = next_patch_id s + 1" "patches_applied (stats s') = patches_applied (stats s)"
    "patches_failed (stats s') = patches_failed (stats s)"
    "patches_reverted (stats s') = patches_reverted (stats s)"
    by (simp_all add: s'_def dispatch_event_def time_null_def upd_stats_def same_setup_def)
  moreover have "patch_ok (target_size s) q"
    using bp off by (simp add: patch_ok_def q_def diff_sized_def)
  then have "lr_inv n s'"
    using lr_inv_append [OF inv d room su(1-4)] su(5-7) by (simp add: q_def)
  moreover have "patch_of_diff (ape_info s) src q bp"
    by (simp add: patch_of_diff_def q_def off_def strncpy_to_def MAX_PATH_LEN_def)
  ultimately show ?thesis using that by blast
qed

lemma generate_loop:
  assumes "lr_inv n s" and "target_mapped s = Some d" and "\<forall>bp \<in> set bps. diff_sized bp"
  shows "\<exists>s' qs. generate_patches_loop src bps created s = Some (created + int (length qs), s') \<and>
    lr_inv n s' \<and> same_setup s s' \<and> target_mapped s' = target_mapped s \<and> patches s' = patches s @ qs \<and>
    list_all2 (patch_of_diff (ape_info s) src) qs (take (MAX_PATCHES - length (patches s)) bps)"
  using assms
proof (induction bps arbitrary: s created)
  case Nil
  then show ?case by auto
next
  case (Cons bp bps)
  show ?case
  proof (cases "length (patches s) < MAX_PATCHES")
    case False
    have "lr_inv n (set_error LR_MAX_PATCHES s)"
      by (rule lr_inv_frame [OF Cons.prems(1)]) (simp_all add: frame_simps)
    with False show ?thesis
      by (intro exI [of _ "set_error LR_MAX_PATCHES s"] exI [of _ "[]"])
        (simp add: same_setup_def set_error_def)
  next
    case True
    from Cons.prems have "diff_sized bp" by simp
    then obtain s1 q where s1: "generate_patches_loop src (bp # bps) created s =
        generate_patches_loop src bps (created + 1) s1" "lr_inv n s1" "same_setup s s1"
      "target_mapped s1 = target_mapped s" "patches s1 = patches s @ [q]" "patch_of_diff (ape_info s) src q bp"
      by (rule generate_one [OF Cons.prems(1,2) True])
    have d1: "target_mapped s1 = Some d" and info: "ape_info s1 = ape_info s"
      using s1(3,4) Cons.prems(2) by (simp_all add: same_setup_def)
    from Cons.IH [OF s1(2) d1, of "created + 1"] Cons.prems(3) obtain s' qs where
      s': "generate_patches_loop src bps (created + 1) s1 = Some (created + 1 + int (length qs), s')"
      "lr_inv n s'" "same_setup s1 s'" "target_mapped s' = target_mapped s1" "patches s' = patches s1 @ qs"
      "list_all2 (patch_of_diff (ape_info s1) src) qs (take (MAX_PATCHES - length (patches s1)) bps)"
      by auto
    have "list_all2 (patch_of_diff (ape_info s) src) (q # qs) (take (MAX_PATCHES - length (patches s)) (bp # bps))"
      using s'(6) s1(5,6) info Suc_diff_Suc [OF True, symmetric] by simp
    then show ?thesis
      using s' s1 same_trans(1) [OF s1(3) s'(3)]
      by (intro exI [of _ s'] exI [of _ "q # qs"]) (simp add: ac_simps)
  qed
qed

section \<open>Handling a change\<close>

lemma env_ok_diff: "env_ok E \<Longrightarrow> sys_diff_objects E a b = Some bps \<Longrightarrow> \<forall>bp \<in> set bps. diff_sized bp"
  by (auto simp: env_ok_def diff_sized_def)

lemma generate_inv:
  assumes "env_ok E" and "lr_inv n s" and d: "target_mapped s = Some d"
  shows "\<exists>r s'. generate_patches E src a b s = Some (r, s') \<and> lr_inv n s' \<and> same_setup s s' \<and>
    target_mapped s' = Some d"
proof -
  have frame: "lr_inv n (set_error e s)" "target_mapped (set_error e s) = Some d" for e
    using lr_inv_frame [OF assms(2) set_error_frame(1,2)] d by (simp_all add: set_error_def)
  show ?thesis
    using assms frame set_error_frame(1) generate_loop [OF assms(2) d env_ok_diff [OF assms(1)], of _ _ _ src 0]
    by (auto simp: generate_patches_def split: option.splits) (metis d)+
qed

lemma apply_pending_inv:
  assumes "lr_inv n s" and "target_mapped s = Some d"
  shows "\<exists>r s' d'. apply_pending s = Some (r, s') \<and> lr_inv n s' \<and> same_setup s s' \<and> target_mapped s' = Some d'"
proof -
  define Inv where "Inv = (\<lambda>(k :: int, t). lr_inv n t \<and> same_setup s t \<and> (\<exists>d'. target_mapped t = Some d') \<and>
    length (patches t) = length (patches s))"
  have "\<exists>r'. apply_pending_one i r = Some r' \<and> Inv r'"
    if "i \<in> set [0 ..< length (patches s)]" and "Inv r" for i r
  proof -
    obtain k t where r: "r = (k, t)" by (cases r)
    with that obtain d' where t: "lr_inv n t" "same_setup s t" "target_mapped t = Some d'"
      "length (patches t) = length (patches s)" "i < length (patches t)"
      by (auto simp: Inv_def)
    show ?thesis
      using apply_internal_inv [OF t(1,5,3)] t that(2) same_trans(1) [OF t(2)]
      by (fastforce simp: r apply_pending_one_def Inv_def)
  qed
  moreover have "Inv (0, s)" using assms by (simp add: Inv_def)
  ultimately have "\<exists>r. mfold apply_pending_one [0 ..< length (patches s)] (0, s) = Some r \<and> Inv r"
    by (intro mfold_defined) auto
  then show ?thesis by (auto simp: apply_pending_def Inv_def)
qed

lemma handle_change_inv:
  assumes E: "env_ok E" and inv: "lr_inv n s" and d: "target_mapped s = Some d"
  shows "\<exists>r s' d'. handle_file_change E src s = Some (r, s') \<and> lr_inv n s' \<and> same_setup s s' \<and>
    target_mapped s' = Some d'"
proof -
  define s1 where "s1 = change_prologue src s"
  obtain ret s2 where c: "compile_source E src (get_new_object_path src s1) s1 = (ret, s2)"
    by (cases "compile_source E src (get_new_object_path src s1) s1")
  note s2 = same_trans(1) [OF change_prologue_frame(1) compile_source_frame(1) [OF c [unfolded s1_def]]]
    same_trans(2) [OF change_prologue_frame(2) compile_source_frame(2) [OF c [unfolded s1_def]]]
  have inv2: "lr_inv n s2" "target_mapped s2 = Some d"
    using lr_inv_frame [OF inv s2] s2(2) d by (simp_all add: same_patching_def)
  have ren: "lr_inv n (rename_file a b t) \<and> same_setup t (rename_file a b t) \<and>
      target_mapped (rename_file a b t) = target_mapped t" if "lr_inv n t" for a b t
    using lr_inv_frame [OF that] rename_file_frame [where s = t] by (simp add: same_patching_def)
  from generate_inv [OF E inv2] obtain k s3 where
    g: "generate_patches E src (get_cached_object_path src s1) (get_new_object_path src s1) s2 = Some (k, s3)"
    and s3: "lr_inv n s3" "same_setup s2 s3" "target_mapped s3 = Some d" by blast
  define s4 where "s4 = rename_file (get_new_object_path src s1) (get_cached_object_path src s1) s3"
  have s4: "lr_inv n s4" "target_mapped s4 = Some d" "same_setup s s4"
    using ren [OF s3(1)] s3 same_trans(1) s2(1) by (auto simp: s4_def)
  from apply_pending_inv [OF s4(1,2)] obtain r s5 d5 where
    s5: "apply_pending s4 = Some (r, s5)" "lr_inv n s5" "same_setup s4 s5" "target_mapped s5 = Some d5" by blast
  have "handle_file_change E src s =
      (if ret \<noteq> 0 then Some (-1, s2)
       else if files s2 (get_cached_object_path src s1) = None
       then Some (0, rename_file (get_new_object_path src s1) (get_cached_object_path src s1) s2)
       else if k \<le> 0 then Some (k, s4)
       else if cfg_enable_hot_patch (config s4) then Some (r, s5) else Some (k, s4))"
    by (simp add: handle_file_change_eq Let_def s1_def [symmetric] c g s4_def [symmetric] s5(1))
  then show ?thesis
    using inv2 s2(1) s4 s5 ren [OF inv2(1)] same_trans(1) [OF s4(3) s5(3)] same_trans(1) [OF s2(1)] by simp
qed

section \<open>Polling and lifecycle\<close>

lemma poll_one_inv:
  assumes "env_ok E" and "lr_inv n s" and "target_mapped s = Some d"
    and r: "poll_one E buf off len s = Some (k, s')"
  shows "lr_inv n s' \<and> same_setup s s' \<and> (\<exists>d'. target_mapped s' = Some d')"
proof -
  have h: "lr_inv n t \<and> same_setup s t \<and> (\<exists>d'. target_mapped t = Some d')"
    if "handle_file_change E src s = Some (x, t)" for src x t
    using handle_change_inv [OF assms(1-3), of src] that by auto
  show ?thesis
    using r assms(2,3) by (auto simp: poll_one_def Option.bind_eq_Some_conv split: if_splits dest!: h)
qed

lemma poll_loop_inv:
  "poll_loop E buf off k s = Some (r, s') \<Longrightarrow> lr_inv n s \<Longrightarrow> target_mapped s = Some d \<Longrightarrow> env_ok E \<Longrightarrow>
    lr_inv n s' \<and> same_setup s s' \<and> target_mapped s' \<noteq> None"
proof (induction E buf off k s arbitrary: d rule: poll_loop.induct)
  case (1 E buf off k s)
  show ?case
  proof (cases "off < length buf")
    case False
    with "1.prems" show ?thesis by (subst (asm) poll_loop.simps) simp
  next
    case True
    from "1.prems"(1) True obtain len k1 s1 where
      r: "rd32 buf (off + 12) = Some len" "poll_one E buf off len s = Some (k1, s1)"
      "poll_loop E buf (off + sizeof_inotify_event + unat len) (k + k1) s1 = Some (r, s')"
      by (subst (asm) poll_loop.simps) (auto simp: Option.bind_eq_Some_conv)
    from poll_one_inv [OF "1.prems"(4,2,3) r(2)] obtain d1
      where s1: "lr_inv n s1" "same_setup s s1" "target_mapped s1 = Some d1" by blast
    have "lr_inv n s' \<and> same_setup s1 s' \<and> target_mapped s' \<noteq> None"
      using "1.IH" [OF True r(1,2) refl r(3) s1(1,3) "1.prems"(4)] by simp
    with s1(2) same_trans(1) show ?thesis by blast
  qed
qed

lemma lr_inv_reset:
  assumes "target_mapped s = None" "\<not> initialized s" "\<not> watching s" "patches s = []"
    "next_patch_id s = 0" "stats s = zero_stats"
  shows "lr_inv n s"
proof -
  have "lr_ids n s" unfolding lr_ids_def using assms by (intro exI [of _ "[]"] exI [of _ 0]) simp
  with assms show ?thesis
    by (simp add: lr_inv_def lr_ok_def counts_ok_def status_count_def zero_stats_def)
qed

lemma map_target_cases:
  assumes "lr_map_target E s = Some (r, s')" and "target_mapped s = None"
  obtains
    (fail) "r = -1" "target_mapped s' = None" "initialized s' = initialized s" "watching s' = watching s"
      "patches s' = patches s" "next_patch_id s' = next_patch_id s" "stats s' = stats s"
      "callback s' = callback s"
  | (ok) st d info where "r = 0" "sys_mmap E (sys_open E (target_path s)) st = Some d"
      "e9_ape_parse (Some d) = Some (Inr info)"
      "s' = s\<lparr>target_fd := sys_open E (target_path s), target_size := st, target_mapped := Some d,
        ape_info := info, inotify_fd := -1, watch_fd := -1, next_patch_id := 0, initialized := True\<rparr>"
proof -
  let ?fd = "sys_open E (target_path s)"
  show ?thesis
  proof (cases "?fd < 0 \<or> sys_fstat E ?fd = None")
    case True
    then show ?thesis
      by (intro fail) (use assms in \<open>auto simp: lr_map_target_def Let_def set_error_def split: if_splits\<close>)
  next
    case False
    then obtain st where st: "0 \<le> ?fd" "sys_fstat E ?fd = Some st" by force
    show ?thesis
    proof (cases "sys_mmap E ?fd st")
      case None
      show ?thesis
        by (rule fail) (use None st assms(1) in \<open>auto simp: lr_map_target_def Let_def set_error_def\<close>)
    next
      case (Some d)
      let ?s = "s\<lparr>target_fd := ?fd, target_size := st, target_mapped := Some d\<rparr>"
      from Some st assms(1) obtain y where y: "e9_ape_parse (Some d) = Some y"
        "(case y of Inl _ \<Rightarrow> Some (-1, (set_error LR_NOT_APE ?s)\<lparr>target_mapped := None\<rparr>)
          | Inr info \<Rightarrow> Some (0, ?s\<lparr>ape_info := info, inotify_fd := -1, watch_fd := -1,
                                  next_patch_id := 0, initialized := True\<rparr>)) = Some (r, s')"
        by (auto simp: lr_map_target_def Let_def Option.bind_eq_Some_conv)
      show ?thesis
      proof (cases y)
        case (Inl e)
        show ?thesis
          by (rule fail) (use Inl y(2) in \<open>auto simp: set_error_def\<close>)
      next
        case (Inr info)
        show ?thesis by (rule ok [of st d info]) (use Inr y Some in \<open>auto simp: set_error_def\<close>)
      qed
    qed
  qed
qed

lemma map_target_inv:
  assumes E: "env_ok E" and r: "lr_map_target E s = Some (r, s')"
    and s: "\<not> initialized s" "\<not> watching s" "patches s = []" "next_patch_id s = 0" "stats s = zero_stats"
      "target_mapped s = None"
  shows "lr_inv n s'" and "r = 0 \<longleftrightarrow> initialized s'" and "r = 0 \<or> r = -1"
proof -
  have "lr_inv n s' \<and> (r = 0 \<longleftrightarrow> initialized s') \<and> (r = 0 \<or> r = -1)"
    using r s(6)
  proof (cases rule: map_target_cases)
    case fail
    with s show ?thesis by (simp add: lr_inv_reset)
  next
    case (ok st d info)
    from E ok(2) have "length d = unat st \<and> length d < OBJ_MAX" unfolding env_ok_def by blast
    moreover have "ape_cache_ok info" by (rule parse_cache_ok [OF ok(3)])
    moreover have "lr_ids n s'"
      unfolding lr_ids_def using s ok(4) by (intro exI [of _ "[]"] exI [of _ 0]) simp
    ultimately show ?thesis using s ok
      by (simp add: lr_inv_def lr_ok_def counts_ok_def status_count_def zero_stats_def)
  qed
  then show "lr_inv n s'" "r = 0 \<longleftrightarrow> initialized s'" "r = 0 \<or> r = -1" by blast+
qed

lemma memset_reset:
  "\<not> initialized (memset_g_state s)" "\<not> watching (memset_g_state s)" "patches (memset_g_state s) = []"
  "next_patch_id (memset_g_state s) = 0" "stats (memset_g_state s) = zero_stats"
  "target_mapped (memset_g_state s) = None"
  by (simp_all add: memset_g_state_def)

lemma init_cases:
  assumes "\<not> initialized s" and "e9_livereload_init E path cfg s = Some (r, s')"
  obtains
    (none) "s' = set_error LR_NO_SELF_PATH (lr_configure cfg (memset_g_state s))" "r = -1"
  | (map) p b where "lr_map_target E ((lr_configure cfg (memset_g_state s))\<lparr>target_path := p, is_self_patch := b\<rparr>) =
      Some (r, s')"
proof (cases path)
  case (Some p)
  with assms map show ?thesis by (simp add: e9_livereload_init_def Let_def)
next
  case None
  with assms none map show ?thesis
    by (cases "sys_self_path E") (simp_all add: e9_livereload_init_def Let_def)
qed

lemma init_inv:
  assumes E: "env_ok E" and inv: "lr_inv n s" and r: "e9_livereload_init E path cfg s = Some (r, s')"
  shows "lr_inv n s'"
proof (cases "initialized s")
  case True
  with r have "s' = set_error LR_ALREADY_INITIALIZED s" by (simp add: e9_livereload_init_def)
  with lr_inv_frame [OF inv] show ?thesis by (simp add: frame_simps)
next
  case False
  from this r show ?thesis
  proof (cases rule: init_cases)
    case none
    then show ?thesis
      by (simp add: lr_inv_reset set_error_def lr_configure_def Let_def memset_reset)
  next
    case (map p b)
    show ?thesis
      by (rule map_target_inv(1) [OF E map]) (simp_all add: lr_configure_def Let_def memset_reset)
  qed
qed

lemma lr_ids_cong: "patches s' = patches s \<Longrightarrow> next_patch_id s' = next_patch_id s \<Longrightarrow> lr_ids n s' = lr_ids n s"
  by (simp add: lr_ids_def)

text \<open>A step that changes only the watcher.\<close>

lemma lr_inv_watcher:
  assumes "lr_inv n s" and "same_patching s s'" and "initialized s' = initialized s"
    and "target_size s' = target_size s" and "ape_info s' = ape_info s"
    and "watching s' \<longrightarrow> initialized s' \<and> 0 \<le> inotify_fd s' \<and> 0 \<le> watch_fd s'"
    and "initialized s' \<and> \<not> watching s' \<longrightarrow> inotify_fd s' < 0"
  shows "lr_inv n s'"
  using assms lr_ids_cong [of s' s n]
  by (cases "target_mapped s") (auto simp: lr_inv_def lr_ok_def same_patching_def counts_ok_def status_count_def)

lemma watch_inv:
  assumes "lr_inv n s" and "e9_livereload_watch E s = (r, s')"
  shows "lr_inv n s'"
  using assms(2)
  by (intro lr_inv_watcher [OF assms(1)])
    (use assms(1) in \<open>auto simp: e9_livereload_watch_def init_inotify_def Let_def set_error_def
      same_patching_def lr_inv_def lr_ok_def split: if_splits prod.splits\<close>)

lemma unwatch_inv: "lr_inv n s \<Longrightarrow> lr_inv n (e9_livereload_unwatch s)"
  by (rule lr_inv_watcher [of n s])
    (auto simp: e9_livereload_unwatch_def cleanup_inotify_def Let_def same_patching_def lr_inv_def lr_ok_def)

lemma shutdown_inv: "lr_inv n s \<Longrightarrow> lr_inv n (e9_livereload_shutdown s)"
  by (simp add: e9_livereload_shutdown_def Let_def lr_inv_reset memset_reset)

section \<open>Applying and reverting by hand\<close>

lemma resolve_bound: "ape_cache_ok info \<Longrightarrow> lr_resolve info ty address < 2 ^ 63"
proof -
  assume "ape_cache_ok info"
  then have "e9_ape_rva_to_offset (Some info) rva < 2 ^ 63" for rva
    using rva_offset_bounds(2) [of info rva] by simp
  moreover have "sint address < 2 ^ 63" using sint_lt [of address] by simp
  ultimately show ?thesis by (simp add: lr_resolve_def split: E9PatchTargetType.split)
qed

text \<open>The record that \<open>e9_livereload_apply_patch\<close> enters into the table.\<close>

definition manual_patch :: "machine \<Rightarrow> E9PatchTargetType \<Rightarrow> u64 \<Rightarrow> bytes \<Rightarrow> bytes \<Rightarrow> InternalPatch" where
  "manual_patch s ty address old patch = \<lparr>ip_id = next_patch_id s + 1, ip_source_file = [], ip_function_name = [],
     ip_target_type = ty, ip_target_address = address, ip_file_offset = lr_resolve (ape_info s) ty address,
     ip_old_bytes = Some old, ip_old_size = word_of_nat (length patch),
     ip_new_bytes = Some patch, ip_new_size = word_of_nat (length patch),
     ip_status = E9_PATCH_STATUS_PENDING, ip_error_msg = None, ip_timestamp = clock s (ticks s)\<rparr>"

lemma apply_patch_enter:
  assumes inv: "lr_inv n s" and d: "target_mapped s = Some d" and room: "length (patches s) < MAX_PATCHES"
    and off: "lr_resolve (ape_info s) ty address = off" "0 \<le> off"
    and old: "rd_region d (nat off) (length patch) = Some old"
  obtains s1 where
    "e9_livereload_apply_patch ty address patch s =
      map_option (\<lambda>(ret, s'). (if ret \<noteq> 0 then 0 else next_patch_id s + 1, s'))
        (apply_patch_internal (length (patches s)) s1)"
    "lr_inv n s1" "same_setup s s1" "target_mapped s1 = Some d" "flushed s1 = flushed s"
    "patches s1 = patches s @ [manual_patch s ty address old patch]"
proof -
  define q where "q = manual_patch s ty address old patch"
  define s1 where "s1 = s\<lparr>next_patch_id := next_patch_id s + 1, ticks := Suc (ticks s), patches := patches s @ [q]\<rparr>"
  have ok: "initialized s" "length d < OBJ_MAX" "ape_cache_ok (ape_info s)"
    using inv d by (simp_all add: lr_inv_def lr_ok_def)
  have len: "length old = length patch" "length patch \<le> length d"
    using old by (auto simp: rd_region_def split: if_splits)
  with ok(2) have sz: "length patch < OBJ_MAX" by simp
  then have usz: "unat (word_of_nat (length patch) :: u64) = length patch"
    by (simp add: unat_of_nat OBJ_MAX_def)
  have "patch_ok (target_size s) q"
    using off resolve_bound [OF ok(3), of ty address] len sz usz
    by (simp add: patch_ok_def q_def manual_patch_def)
  then have "lr_inv n s1"
    by (intro lr_inv_append [OF inv d room, of s1 q])
      (simp_all add: s1_def q_def manual_patch_def same_setup_def)
  moreover have "e9_livereload_apply_patch ty address patch s =
      map_option (\<lambda>(ret, s'). (if ret \<noteq> 0 then 0 else next_patch_id s + 1, s'))
        (apply_patch_internal (length (patches s)) s1)"
    using ok(1) d room off old
    by (cases "apply_patch_internal (length (patches s)) s1")
      (auto simp: e9_livereload_apply_patch_def Let_def time_null_def s1_def q_def manual_patch_def split: prod.splits)
  ultimately show ?thesis using that [of s1] d by (simp add: s1_def q_def same_setup_def)
qed

lemma apply_patch_inv:
  assumes inv: "lr_inv n s" and r: "e9_livereload_apply_patch ty address patch s = Some (r, s')"
  shows "lr_inv (Suc n) s'"
proof -
  have keep: "lr_inv (Suc n) (set_error e s)" for e
    using lr_inv_frame [OF inv, of "set_error e s"] by (auto simp: frame_simps lr_inv_def intro: lr_ids_mono)
  show ?thesis
  proof (cases "target_mapped s")
    case None
    with r keep show ?thesis by (auto simp: e9_livereload_apply_patch_def)
  next
    case (Some d)
    then have init: "initialized s" using inv by (simp add: lr_inv_def lr_ok_def)
    show ?thesis
    proof (cases "length (patches s) < MAX_PATCHES \<and> 0 \<le> lr_resolve (ape_info s) ty address")
      case False
      from inv obtain ks k where "map ip_id (patches s) = map word_of_nat ks" "sorted_wrt (<) ks"
        "\<forall>j \<in> set ks. 0 < j \<and> j \<le> k" "next_patch_id s = word_of_nat k" "k \<le> n + length (patches s)"
        by (auto simp: lr_inv_def lr_ids_def)
      then have "lr_ids (Suc n) (set_error e (s\<lparr>next_patch_id := next_patch_id s + 1\<rparr>))" for e
        unfolding lr_ids_def
        by (intro exI [of _ ks] exI [of _ "Suc k"]) (auto simp: set_error_def le_SucI add.commute)
      then have "lr_inv (Suc n) (set_error e (s\<lparr>next_patch_id := next_patch_id s + 1\<rparr>))" for e
        using inv Some by (simp add: lr_inv_def lr_ok_def set_error_def counts_ok_def status_count_def)
      with False r keep Some init show ?thesis
        by (auto simp: e9_livereload_apply_patch_def Let_def split: if_splits)
    next
      case True
      with r Some init obtain old where "rd_region d (nat (lr_resolve (ape_info s) ty address)) (length patch) = Some old"
        by (auto simp: e9_livereload_apply_patch_def Let_def Option.bind_eq_Some_conv)
      then obtain s1 where s1: "e9_livereload_apply_patch ty address patch s =
          map_option (\<lambda>(ret, s'). (if ret \<noteq> 0 then 0 else next_patch_id s + 1, s'))
            (apply_patch_internal (length (patches s)) s1)" "lr_inv n s1" "target_mapped s1 = Some d"
        "patches s1 = patches s @ [manual_patch s ty address old patch]"
        using apply_patch_enter [OF inv Some _ refl] True by metis
      have "\<exists>r s' d'. apply_patch_internal (length (patches s)) s1 = Some (r, s') \<and> lr_inv n s' \<and>
          same_setup s1 s' \<and> target_mapped s' = Some d' \<and>
          length (patches s') = length (patches s1) \<and> (r = 0 \<or> r = -1)"
        by (rule apply_internal_inv [OF s1(2) _ s1(3)]) (simp_all add: s1(4) manual_patch_def)
      with r s1(1) have "lr_inv n s'" by auto
      then show ?thesis by (auto simp: lr_inv_def intro: lr_ids_mono)
    qed
  qed
qed

lemma revert_loop_find:
  assumes "\<forall>i \<in> set is. ip_old_bytes (patches s ! i) \<noteq> None"
  shows "revert_loop pid is s =
    (case find (\<lambda>i. ip_id (patches s ! i) = pid \<and> ip_status (patches s ! i) = E9_PATCH_STATUS_APPLIED) is of
       None \<Rightarrow> Some (-1, set_error (LR_PATCH_NOT_FOUND pid) s)
     | Some i \<Rightarrow> map_option (\<lambda>s'. (0, s')) (revert_one i s (the (ip_old_bytes (patches s ! i)))))"
  using assms
proof (induction "is")
  case Nil
  then show ?case by simp
next
  case (Cons i "is")
  then obtain old where "ip_old_bytes (patches s ! i) = Some old" by auto
  with Cons show ?case
    by (cases "revert_one i s old") (simp_all add: Let_def)
qed

lemma revert_one_effect:
  assumes inv: "lr_inv n s" and i: "i < length (patches s)" and d: "target_mapped s = Some d"
    and p: "p = patches s ! i" "ip_status p = E9_PATCH_STATUS_APPLIED" "ip_old_bytes p = Some old"
  obtains s' where "revert_one i s old = Some s'" "lr_inv n s'" "same_setup s s'"
    "memcpy_to d (nat (ip_file_offset p)) old = target_mapped s'" "target_mapped s' \<noteq> None"
    "patches s' = (patches s)[i := p\<lparr>ip_status := E9_PATCH_STATUS_REVERTED\<rparr>]"
    "flushed s' = flushed s @ [(ip_file_offset p, ip_old_size p)]"
proof -
  from inv have ok: "lr_ok s" and cnt: "counts_ok s" by (auto simp: lr_inv_def lr_ok_def)
  have pok: "patch_ok (target_size s) p" using lr_ok_patch [OF ok i] p(1) by simp
  have len: "length d = unat (target_size s)" using ok d by (simp add: lr_ok_def)
  have old: "length old = unat (ip_new_size p)" "ip_old_size p = ip_new_size p" "0 \<le> ip_file_offset p"
    using pok p(3) by (auto simp: patch_ok_def)
  have "ip_file_offset p + int (length old) \<le> int (length d)"
    using pok p(2) len old(1) by (simp add: patch_ok_def)
  with old(3) have "nat (ip_file_offset p) + length old \<le> length d" by linarith
  then obtain d' where d': "memcpy_to d (nat (ip_file_offset p)) old = Some d'" "length d' = length d"
    using memcpy_to_defined length_memcpy_to by blast
  define s' where "s' = snd (0 :: int, the (revert_one i s old))"
  note unfolds = revert_one_def Let_def e9wasm_flush_icache_def upd_patch_def upd_stats_def
    dispatch_event_def time_null_def same_setup_def rd_region_def
  have def: "revert_one i s old = Some s'"
    using d d' old p by (simp add: s'_def unfolds)
  have eff: "same_setup s s'" "target_mapped s' = Some d'" "next_patch_id s' = next_patch_id s"
    "patches s' = (patches s)[i := p\<lparr>ip_status := E9_PATCH_STATUS_REVERTED\<rparr>]"
    "flushed s' = flushed s @ [(ip_file_offset p, ip_old_size p)]"
    "patches_reverted (stats s') = patches_reverted (stats s) + 1"
    "patches_applied (stats s') = patches_applied (stats s)"
    "patches_failed (stats s') = patches_failed (stats s)"
    using d d' old p by (simp_all add: s'_def unfolds)
  have c: "status_count st s' + (if st = E9_PATCH_STATUS_APPLIED then 1 else 0) =
      status_count st s + (if st = E9_PATCH_STATUS_REVERTED then 1 else 0)" for st
    using length_filter_update [OF i, of "\<lambda>p. ip_status p = st"
        "p\<lparr>ip_status := E9_PATCH_STATUS_REVERTED\<rparr>"] p(1,2) eff(4)
    by (auto simp: status_count_def)
  have counts: "status_count E9_PATCH_STATUS_APPLIED s = status_count E9_PATCH_STATUS_APPLIED s' + 1"
    "status_count E9_PATCH_STATUS_REVERTED s' = status_count E9_PATCH_STATUS_REVERTED s + 1"
    "status_count E9_PATCH_STATUS_FAILED s' = status_count E9_PATCH_STATUS_FAILED s"
    using c [of E9_PATCH_STATUS_APPLIED] c [of E9_PATCH_STATUS_REVERTED] c [of E9_PATCH_STATUS_FAILED] by simp_all
  have "counts_ok s'"
    using cnt eff(6-8) counts by (simp add: counts_ok_def)
  moreover have "patch_ok (target_size s) (p\<lparr>ip_status := E9_PATCH_STATUS_REVERTED\<rparr>)"
    using pok p(2) by (simp add: patch_ok_def)
  ultimately have "lr_inv n s'"
    using lr_inv_update [OF inv i eff(1) d eff(2) d'(2) eff(4,3)] p(1) by simp
  then show ?thesis using that [of s'] def eff d' by simp
qed

lemma revert_patch_eq:
  assumes inv: "lr_inv n s" and d: "target_mapped s = Some d"
  shows "e9_livereload_revert_patch pid s =
    (case find (\<lambda>i. ip_id (patches s ! i) = pid \<and> ip_status (patches s ! i) = E9_PATCH_STATUS_APPLIED)
        [0 ..< length (patches s)] of
       None \<Rightarrow> Some (-1, set_error (LR_PATCH_NOT_FOUND pid) s)
     | Some i \<Rightarrow> map_option (\<lambda>s'. (0, s')) (revert_one i s (the (ip_old_bytes (patches s ! i)))))"
proof -
  have "ip_old_bytes (patches s ! i) \<noteq> None" if "i < length (patches s)" for i
    using inv that lr_ok_patch [of s i] by (auto simp: lr_inv_def patch_ok_def)
  moreover have "initialized s" using inv d by (simp add: lr_inv_def lr_ok_def)
  ultimately show ?thesis
    using d by (simp add: e9_livereload_revert_patch_def revert_loop_find)
qed

lemma revert_patch_inv:
  assumes inv: "lr_inv n s" and r: "e9_livereload_revert_patch pid s = Some (r, s')"
  shows "lr_inv n s'"
proof (cases "target_mapped s")
  case None
  with r inv show ?thesis by (auto simp: e9_livereload_revert_patch_def)
next
  case (Some d)
  show ?thesis
  proof (cases "find (\<lambda>i. ip_id (patches s ! i) = pid \<and> ip_status (patches s ! i) = E9_PATCH_STATUS_APPLIED)
        [0 ..< length (patches s)]")
    case None
    with r revert_patch_eq [OF inv Some] have "s' = set_error (LR_PATCH_NOT_FOUND pid) s" by simp
    with lr_inv_frame [OF inv] show ?thesis by (simp add: frame_simps)
  next
    case i: (Some i)
    then have i': "i < length (patches s)" "ip_status (patches s ! i) = E9_PATCH_STATUS_APPLIED"
      by (auto simp: find_Some_iff)
    obtain old where old: "ip_old_bytes (patches s ! i) = Some old"
      using inv lr_ok_patch [of s i] i'(1) by (auto simp: lr_inv_def patch_ok_def)
    obtain s1 where "revert_one i s old = Some s1" "lr_inv n s1"
      using revert_one_effect [OF inv i'(1) Some refl i'(2) old] by metis
    with r revert_patch_eq [OF inv Some] i old show ?thesis by simp
  qed
qed

section \<open>The machine\<close>

text \<open>
  One step is one call of the interface with any arguments, or a change of the files made by
  somebody else.  Calls that leave the image (\<open>None\<close>) have no step.
\<close>

inductive lr_step :: "lr_env \<Rightarrow> machine \<Rightarrow> machine \<Rightarrow> bool" for E where
  step_init: "e9_livereload_init E path cfg s = Some (r, s') \<Longrightarrow> lr_step E s s'"
| step_shutdown: "lr_step E s (e9_livereload_shutdown s)"
| step_watch: "e9_livereload_watch E s = (r, s') \<Longrightarrow> lr_step E s s'"
| step_unwatch: "lr_step E s (e9_livereload_unwatch s)"
| step_poll: "e9_livereload_poll E input s = Some (r, s') \<Longrightarrow> lr_step E s s'"
| step_set_callback: "lr_step E s (e9_livereload_set_callback cb u s)"
| step_reload: "e9_livereload_reload_file E src s = Some (r, s') \<Longrightarrow> lr_step E s s'"
| step_apply: "e9_livereload_apply_patch ty address patch s = Some (pid, s') \<Longrightarrow> lr_step E s s'"
| step_revert: "e9_livereload_revert_patch pid s = Some (r, s') \<Longrightarrow> lr_step E s s'"
| step_flush: "lr_step E s (e9_livereload_flush_icache addr sz s)"
| step_clear_error: "lr_step E s (e9_livereload_clear_error s)"
| step_files: "lr_step E s (s\<lparr>files := fs, dirs := ds\<rparr>)"

text \<open>\<open>static LiveReloadState g_state = {0};\<close>\<close>

definition lr_start :: "machine \<Rightarrow> bool" where
  "lr_start s \<longleftrightarrow> target_mapped s = None \<and> \<not> initialized s \<and> \<not> watching s \<and> patches s = [] \<and>
     next_patch_id s = 0 \<and> stats s = zero_stats"

lemma handle_change_step:
  assumes "env_ok E" and "lr_inv n s" and "initialized s" and "handle_file_change E src s = Some (r, s')"
  shows "lr_inv n s'"
proof -
  from assms(2,3) obtain d where "target_mapped s = Some d"
    by (auto simp: lr_inv_def lr_ok_def split: option.splits)
  with handle_change_inv [OF assms(1,2), of d src] assms(4) show ?thesis by auto
qed

lemma lr_step_inv:
  assumes E: "env_ok E" and inv: "lr_inv n s" and step: "lr_step E s s'"
  shows "lr_inv (Suc n) s'"
proof -
  have up: "lr_inv (Suc n) t" if "lr_inv n t" for t
    using that by (auto simp: lr_inv_def intro: lr_ids_mono)
  have frame: "lr_inv n t" if "same_patching s t" "initialized t = initialized s" "watching t = watching s"
    "target_size t = target_size s" "ape_info t = ape_info s" "inotify_fd t = inotify_fd s" "watch_fd t = watch_fd s" for t
    by (rule lr_inv_watcher [OF inv]) (use that inv in \<open>auto simp: lr_inv_def lr_ok_def\<close>)
  from step show ?thesis
  proof cases
    case step_init
    then show ?thesis using init_inv [OF E inv] up by blast
  next
    case step_shutdown
    then show ?thesis using shutdown_inv [OF inv] up by blast
  next
    case step_watch
    then show ?thesis using watch_inv [OF inv] up by blast
  next
    case step_unwatch
    then show ?thesis using unwatch_inv [OF inv] up by blast
  next
    case (step_poll input r)
    have "lr_inv n s'"
    proof (cases "target_mapped s")
      case None
      with step_poll inv show ?thesis by (auto simp: e9_livereload_poll_def lr_inv_def lr_ok_def)
    next
      case (Some d)
      with step_poll inv poll_loop_inv [OF _ inv Some E] show ?thesis
        by (auto simp: e9_livereload_poll_def poll_inotify_def split: if_splits)
    qed
    then show ?thesis by (rule up)
  next
    case step_set_callback
    then show ?thesis by (intro up frame) (simp_all add: e9_livereload_set_callback_def same_patching_def)
  next
    case (step_reload src r)
    then show ?thesis
      using handle_change_step [OF E inv] up lr_inv_frame [OF inv, of s'] frame_simps
      by (auto simp: e9_livereload_reload_file_def split: if_splits)
  next
    case step_apply
    then show ?thesis using apply_patch_inv [OF inv] by blast
  next
    case step_revert
    then show ?thesis using revert_patch_inv [OF inv] up by blast
  next
    case step_flush
    then show ?thesis
      by (intro up frame) (simp_all add: e9_livereload_flush_icache_def e9wasm_flush_icache_def same_patching_def)
  next
    case step_clear_error
    then show ?thesis by (intro up frame) (simp_all add: e9_livereload_clear_error_def same_patching_def)
  next
    case step_files
    then show ?thesis by (intro up frame) (simp_all add: same_patching_def)
  qed
qed

text \<open>
  The interface is interpreted with the environment's contract inside the start predicate, so
  that the invariant needs no side condition.
\<close>

interpretation lr: counted_machine
  "\<lambda>(E, s). env_ok E \<and> lr_start s" "\<lambda>(E, s) (E', s'). E' = E \<and> lr_step E s s'"
  "\<lambda>n (E, s). env_ok E \<and> lr_inv n s"
proof
  show "(case x of (E, s) \<Rightarrow> env_ok E \<and> lr_start s) \<Longrightarrow> (case x of (E, s) \<Rightarrow> env_ok E \<and> lr_inv 0 s)" for x
    by (auto simp: lr_start_def lr_inv_reset)
  show "(case y of (E, s) \<Rightarrow> env_ok E \<and> lr_inv (Suc n) s)"
    if "case x of (E, s) \<Rightarrow> env_ok E \<and> lr_inv n s"
      and "(case x of (E, s) \<Rightarrow> \<lambda>(E', s'). E' = E \<and> lr_step E s s') y" for n x y
    using that lr_step_inv by auto
qed

definition lr_reach :: "lr_env \<Rightarrow> nat \<Rightarrow> machine \<Rightarrow> bool" where
  "lr_reach E n s \<longleftrightarrow>
     reach (\<lambda>(E, s). env_ok E \<and> lr_start s) (\<lambda>(E, s) (E', s'). E' = E \<and> lr_step E s s') n (E, s)"

lemma lr_reach_inv: "lr_reach E n s \<Longrightarrow> lr_inv n s"
  unfolding lr_reach_def by (drule lr.reach_inv) simp

lemma lr_reach_start: "env_ok E \<Longrightarrow> lr_start s \<Longrightarrow> lr_reach E 0 s"
  by (simp add: lr_reach_def reach_start)

lemma lr_reach_step: "lr_reach E n s \<Longrightarrow> lr_step E s s' \<Longrightarrow> lr_reach E (Suc n) s'"
  unfolding lr_reach_def by (erule reach_step) simp

lemma lr_ids_distinct:
  assumes "lr_ids n s" and "n + length (patches s) < 2 ^ 32"
  shows "distinct (map ip_id (patches s))" and "0 \<notin> set (map ip_id (patches s))"
proof -
  from assms(1) obtain ks k where ks: "map ip_id (patches s) = map word_of_nat ks" "sorted_wrt (<) ks"
    "\<forall>j \<in> set ks. 0 < j \<and> j \<le> k" "k \<le> n + length (patches s)" by (auto simp: lr_ids_def)
  have small: "j < 2 ^ 32" if "j \<in> set ks" for j using that ks(3,4) assms(2) by fastforce
  then have u: "unat (word_of_nat j :: u32) = j" if "j \<in> set ks" for j
    using that by (simp add: unat_of_nat)
  then have "inj_on (word_of_nat :: nat \<Rightarrow> u32) (set ks)" by (metis inj_onI)
  moreover have "distinct ks" using ks(2) by (simp add: strict_sorted_iff)
  ultimately show "distinct (map ip_id (patches s))" by (simp add: ks(1) distinct_map)
  have "(word_of_nat j :: u32) \<noteq> 0" if "j \<in> set ks" for j
    using u [OF that] ks(3) that by (metis less_irrefl unat_0)
  then show "0 \<notin> set (map ip_id (patches s))" by (auto simp: ks(1))
qed

section \<open>Sequences of manual patches\<close>

type_synonym patch_request = "E9PatchTargetType \<times> u64 \<times> bytes"

fun apply_list :: "patch_request list \<Rightarrow> machine \<Rightarrow> (u32 list \<times> machine) ub" where
  "apply_list [] s = Some ([], s)"
| "apply_list ((ty, address, patch) # rs) s = do {
     (pid, s) \<leftarrow> e9_livereload_apply_patch ty address patch s;
     (pids, s) \<leftarrow> apply_list rs s;
     Some (pid # pids, s)
   }"

fun revert_list :: "u32 list \<Rightarrow> machine \<Rightarrow> (int list \<times> machine) ub" where
  "revert_list [] s = Some ([], s)"
| "revert_list (pid # pids) s = do {
     (r, s) \<leftarrow> e9_livereload_revert_patch pid s;
     (rs, s) \<leftarrow> revert_list pids s;
     Some (r # rs, s)
   }"

lemma apply_list_snoc:
  "apply_list (rs @ [(ty, address, patch)]) s = do {
     (pids, s1) \<leftarrow> apply_list rs s;
     (pid, s2) \<leftarrow> e9_livereload_apply_patch ty address patch s1;
     Some (pids @ [pid], s2)
   }"
  by (induction rs s rule: apply_list.induct)
    (auto simp: Option.bind_assoc case_prod_beta intro!: bind_option_cong split: prod.splits Option.bind_splits)

lemma apply_list_inv:
  "apply_list rs s = Some (pids, s') \<Longrightarrow> lr_inv n s \<Longrightarrow> lr_inv (n + length rs) s'"
proof (induction rs s arbitrary: n pids s' rule: apply_list.induct)
  case (1 s)
  then show ?case by simp
next
  case (2 ty address patch rs s)
  from 2(2) obtain pid s1 ps where
    a: "e9_livereload_apply_patch ty address patch s = Some (pid, s1)" "apply_list rs s1 = Some (ps, s')"
    by (auto simp: Option.bind_eq_Some_conv)
  from 2(1) [OF a(1) refl a(2) apply_patch_inv [OF 2(3) a(1)]] show ?case by simp
qed

text \<open>What a successful call of \<open>e9_livereload_apply_patch\<close> leaves behind.\<close>

lemma apply_patch_success:
  assumes inv: "lr_inv n s" and r: "e9_livereload_apply_patch ty address patch s = Some (pid, s')"
    and "pid \<noteq> 0"
  obtains d old q where "target_mapped s = Some d" "memcpy_to d (nat (lr_resolve (ape_info s) ty address)) patch = target_mapped s'"
    "rd_region d (nat (lr_resolve (ape_info s) ty address)) (length patch) = Some old"
    "q = (manual_patch s ty address old patch)\<lparr>ip_status := E9_PATCH_STATUS_APPLIED\<rparr>"
    "patches s' = patches s @ [q]" "pid = next_patch_id s + 1" "same_setup s s'"
    "flushed s' = flushed s @ [(lr_resolve (ape_info s) ty address, word_of_nat (length patch))]"
proof -
  let ?off = "lr_resolve (ape_info s) ty address"
  from r assms(3) obtain d where d: "target_mapped s = Some d"
    by (auto simp: e9_livereload_apply_patch_def split: option.splits)
  have init: "initialized s" using inv d by (simp add: lr_inv_def lr_ok_def)
  with r assms(3) d have room: "length (patches s) < MAX_PATCHES" and off: "0 \<le> ?off"
    by (auto simp: e9_livereload_apply_patch_def Let_def split: if_splits)
  with r d init obtain old where old: "rd_region d (nat ?off) (length patch) = Some old"
    by (auto simp: e9_livereload_apply_patch_def Let_def Option.bind_eq_Some_conv)
  obtain s1 where s1: "e9_livereload_apply_patch ty address patch s =
      map_option (\<lambda>(ret, s'). (if ret \<noteq> 0 then 0 else next_patch_id s + 1, s'))
        (apply_patch_internal (length (patches s)) s1)"
    "lr_inv n s1" "same_setup s s1" "target_mapped s1 = Some d" "flushed s1 = flushed s"
    "patches s1 = patches s @ [manual_patch s ty address old patch]"
    using apply_patch_enter [OF inv d room refl off old] by metis
  let ?p = "manual_patch s ty address old patch"
  have ok: "lr_ok s1" using s1(2) by (simp add: lr_inv_def)
  have i: "length (patches s) < length (patches s1)" and p: "?p = patches s1 ! length (patches s)"
    using s1(6) by simp_all
  have new: "ip_new_bytes ?p = Some patch" and offp: "ip_file_offset ?p = ?off"
    by (simp_all add: manual_patch_def)
  have "patch \<noteq> [] \<and> nat ?off + length patch \<le> length d"
  proof (rule ccontr)
    assume "\<not> ?thesis"
    then have "patch = [] \<or> length d < nat (ip_file_offset ?p) + length patch" using offp by auto
    from apply_internal_failed [OF ok i s1(4) p new this] obtain x where
      "apply_patch_internal (length (patches s)) s1 = Some (-1, x)" by metis
    with r s1(1) assms(3) show False by simp
  qed
  then have ne: "patch \<noteq> []" and fits: "nat (ip_file_offset ?p) + length patch \<le> length d" using offp by auto
  from apply_internal_applied [OF ok i s1(4) p new ne fits] obtain s2 where
    s2: "apply_patch_internal (length (patches s)) s1 = Some (0, s2)" "same_setup s1 s2"
    "target_mapped s2 = Some (take (nat ?off) d @ patch @ drop (nat ?off + length patch) d)"
    "patches s2 = (patches s1)[length (patches s) := ?p\<lparr>ip_status := E9_PATCH_STATUS_APPLIED\<rparr>]"
    "flushed s2 = flushed s1 @ [(ip_file_offset ?p, ip_new_size ?p)]"
    unfolding offp by metis
  with r s1(1) have "s' = s2" "pid = next_patch_id s + 1" by simp_all
  with that [OF d _ old refl] s2 s1 fits offp same_trans(1) [OF s1(3) s2(2)] show ?thesis
    by (simp add: memcpy_to_def manual_patch_def)
qed

text \<open>Reverting a patch that is in the table, applied, under an identifier of its own.\<close>

lemma revert_known:
  assumes inv: "lr_inv n t" and d: "target_mapped t = Some d" and i: "i < length (patches t)"
    and dist: "n + length (patches t) < 2 ^ 32"
    and p: "p = patches t ! i" "ip_status p = E9_PATCH_STATUS_APPLIED" "ip_old_bytes p = Some old"
  obtains t' where "e9_livereload_revert_patch (ip_id p) t = Some (0, t')" "lr_inv n t'"
    "memcpy_to d (nat (ip_file_offset p)) old = target_mapped t'" "target_mapped t' \<noteq> None"
    "patches t' = (patches t)[i := p\<lparr>ip_status := E9_PATCH_STATUS_REVERTED\<rparr>]"
proof -
  have "distinct (map ip_id (patches t))" using inv dist lr_ids_distinct by (auto simp: lr_inv_def)
  then have u: "j = i" if "j < length (patches t)" "ip_id (patches t ! j) = ip_id p" for j
    using that i p(1) by (metis length_map nth_eq_iff_index_eq nth_map)
  have "find (\<lambda>j. ip_id (patches t ! j) = ip_id p \<and> ip_status (patches t ! j) = E9_PATCH_STATUS_APPLIED)
      [0 ..< length (patches t)] = Some i"
    by (rule find_upt_unique [OF i]) (use p in simp, blast intro: u)
  then have eq: "e9_livereload_revert_patch (ip_id p) t = map_option (\<lambda>s'. (0, s')) (revert_one i t old)"
    using revert_patch_eq [OF inv d, of "ip_id p"] p by simp
  show ?thesis
    by (rule revert_one_effect [OF inv i d p]) (use eq that in simp)
qed

lemma revert_in_reverse:
  assumes "apply_list rs s = Some (pids, s1)" and "0 \<notin> set pids" and "lr_inv n s"
    and "lr_inv m t" and "target_mapped t = target_mapped s1" and "patches t = patches s1 @ qs"
    and "m + length (patches t) < 2 ^ 32" and "target_mapped s \<noteq> None"
  shows "\<exists>t'. revert_list (rev pids) t = Some (replicate (length rs) 0, t') \<and>
    target_mapped t' = target_mapped s"
  using assms
proof (induction rs arbitrary: pids s1 t qs rule: rev_induct)
  case Nil
  then show ?case by simp
next
  case (snoc r rs)
  obtain ty address patch where r: "r = (ty, address, patch)" by (cases r)
  from snoc.prems(1) r obtain ps s0 pid where
    a: "apply_list rs s = Some (ps, s0)" "e9_livereload_apply_patch ty address patch s0 = Some (pid, s1)"
    "pids = ps @ [pid]"
    by (auto simp: apply_list_snoc Option.bind_eq_Some_conv)
  have inv0: "lr_inv (n + length rs) s0" by (rule apply_list_inv [OF a(1) snoc.prems(3)])
  from a(3) snoc.prems(2) have "pid \<noteq> 0" by auto
  let ?off = "nat (lr_resolve (ape_info s0) ty address)"
  obtain d old q where s0: "target_mapped s0 = Some d" "memcpy_to d ?off patch = target_mapped s1"
    "rd_region d ?off (length patch) = Some old"
    "q = (manual_patch s0 ty address old patch)\<lparr>ip_status := E9_PATCH_STATUS_APPLIED\<rparr>"
    "patches s1 = patches s0 @ [q]" "pid = next_patch_id s0 + 1"
    by (rule apply_patch_success [OF inv0 a(2) \<open>pid \<noteq> 0\<close>])
  have "?off + length patch \<le> length d" using s0(3) by (simp add: rd_region_def split: if_splits)
  then obtain d1 where d1: "target_mapped s1 = Some d1" "memcpy_to d ?off patch = Some d1"
    using s0(2) memcpy_to_defined by metis
  have undo: "memcpy_to d1 ?off old = Some d" by (rule memcpy_to_undo [OF d1(2) s0(3)])
  have q: "ip_id q = pid" "ip_status q = E9_PATCH_STATUS_APPLIED" "ip_old_bytes q = Some old"
    "nat (ip_file_offset q) = ?off" using s0(4,6) by (simp_all add: manual_patch_def)
  have slot: "length (patches s0) < length (patches t)" "q = patches t ! length (patches s0)"
    using snoc.prems(6) s0(5) by (simp_all add: nth_append)
  obtain t1 where t1: "e9_livereload_revert_patch pid t = Some (0, t1)" "lr_inv m t1"
    "memcpy_to d1 ?off old = target_mapped t1"
    "patches t1 = (patches t)[length (patches s0) := q\<lparr>ip_status := E9_PATCH_STATUS_REVERTED\<rparr>]"
    using revert_known [OF snoc.prems(4) _ slot(1) snoc.prems(7) slot(2) q(2,3)] d1(1) snoc.prems(5) q(1,4) by metis
  have "patches t1 = patches s0 @ (q\<lparr>ip_status := E9_PATCH_STATUS_REVERTED\<rparr> # qs)"
    using t1(4) snoc.prems(6) s0(5) by (simp add: list_update_append)
  moreover have "target_mapped t1 = target_mapped s0" using t1(3) undo s0(1) by simp
  moreover have "m + length (patches t1) < 2 ^ 32" using t1(4) snoc.prems(7) by simp
  moreover have "0 \<notin> set ps" using a(3) snoc.prems(2) by auto
  ultimately obtain t' where "revert_list (rev ps) t1 = Some (replicate (length rs) 0, t')"
    "target_mapped t' = target_mapped s"
    using snoc.IH [OF a(1) _ snoc.prems(3) t1(2)] snoc.prems(8) by blast
  then show ?case using a(3) t1(1) by (auto simp: replicate_append_same)
qed

section \<open>The watcher's record stream\<close>

text \<open>A record as the kernel delivers it: 12 bytes of header, the length, the padded name.\<close>

record inotify_record =
  ie_head :: bytes
  ie_name :: string
  ie_pad :: nat

definition ie_len :: "inotify_record \<Rightarrow> nat" where
  "ie_len e = (if ie_name e = [] then 0 else length (ie_name e) + 1 + ie_pad e)"

definition ie_encode :: "inotify_record \<Rightarrow> bytes" where
  "ie_encode e = ie_head e @ le_bytes 4 (ie_len e) @
     (if ie_name e = [] then [] else str_bytes (ie_name e) @ replicate (1 + ie_pad e) 0)"

definition ie_ok :: "inotify_record \<Rightarrow> bool" where
  "ie_ok e \<longleftrightarrow> length (ie_head e) = 12 \<and> CHR 0x00 \<notin> set (ie_name e) \<and> ie_len e < 2 ^ 32"

definition ie_source :: "inotify_record \<Rightarrow> bool" where
  "ie_source e \<longleftrightarrow> ie_name e \<noteq> [] \<and> is_source_name (ie_name e)"

definition ie_path :: "machine \<Rightarrow> inotify_record \<Rightarrow> string" where
  "ie_path s e = snprintf_to MAX_PATH_LEN (source_dir s @ ''/'' @ ie_name e)"

text \<open>What polling should do: handle the changes of the source files in order.\<close>

definition change_one :: "lr_env \<Rightarrow> inotify_record \<Rightarrow> machine \<Rightarrow> machine ub" where
  "change_one E e s = map_option snd (handle_file_change E (ie_path s e) s)"

lemma unat_of_nat_u8: "unat (word_of_nat n :: u8) = n mod 256"
  by (simp add: unat_of_nat)

lemma of_char_zero: "of_char (CHR 0x00) = (0 :: u8)"
  by (simp add: of_char_def)

lemma char_of_str_byte [simp]: "char_of (unat (of_char c :: u8)) = c"
proof -
  have "unat (of_char c :: u8) = (of_char c :: nat)"
    using nat_of_char_less_256 [of c] by (metis mod_less of_nat_of_char unat_of_nat_u8)
  then show ?thesis by simp
qed

lemma str_bytes_zero: "0 \<in> set (str_bytes s) \<longleftrightarrow> CHR 0x00 \<in> set s"
proof -
  have "(0 :: u8) = of_char c \<longleftrightarrow> CHR 0x00 = c" for c
    by (metis char_of_str_byte of_char_zero unat_0)
  then show ?thesis by (auto simp: str_bytes_def image_iff)
qed

lemma c_string_at_name:
  assumes "drop off buf = str_bytes name @ 0 # rest" and "CHR 0x00 \<notin> set name"
  shows "c_string_at buf off = Some name"
proof -
  have "\<forall>b \<in> set (str_bytes name). b \<noteq> 0" using str_bytes_zero [of name] assms(2) by auto
  then have "c_str (drop off buf) = str_bytes name"
    by (simp add: assms(1) c_str_def takeWhile_append2)
  then show ?thesis using assms(1) by (simp add: c_string_at_def str_bytes_def o_def)
qed

lemma length_ie_encode: "length (ie_encode e) = length (ie_head e) + 4 + ie_len e"
  by (simp add: ie_encode_def ie_len_def)

lemma poll_loop_records:
  assumes "\<forall>e \<in> set es. ie_ok e" and "env_ok E" and "lr_inv n s" and "target_mapped s = Some d"
    and "buf = pre @ concat (map ie_encode es)" and "off = length pre"
  shows "\<exists>s'. mfold (change_one E) (filter ie_source es) s = Some s' \<and>
    poll_loop E buf off k s = Some (k + int (length (filter ie_source es)), s') \<and>
    lr_inv n s' \<and> same_setup s s'"
  using assms
proof (induction es arbitrary: s d pre off k)
  case Nil
  then show ?case by (simp add: poll_loop.simps)
next
  case (Cons e es)
  from Cons.prems(1) have e: "length (ie_head e) = 12" "CHR 0x00 \<notin> set (ie_name e)" "ie_len e < 2 ^ 32"
    by (simp_all add: ie_ok_def)
  have buf: "buf = pre @ ie_encode e @ concat (map ie_encode es)" using Cons.prems(5) by simp
  have "drop (off + 12) buf = le_bytes 4 (ie_len e) @ drop 16 (ie_encode e) @ concat (map ie_encode es)"
    using e(1) Cons.prems(6) by (simp add: buf ie_encode_def)
  then have "rd_region buf (off + 12) 4 = Some (le_bytes 4 (unat (word_of_nat (ie_len e) :: u32)))"
    using e Cons.prems(6) by (simp add: rd_region_def buf length_ie_encode unat_of_nat)
  then have len: "rd32 buf (off + 12) = Some (word_of_nat (ie_len e))" by (rule rd32_le_bytes)
  have ulen: "unat (word_of_nat (ie_len e) :: u32) = ie_len e" using e(3) by (simp add: unat_of_nat)
  have next_off: "off + sizeof_inotify_event + ie_len e = length (pre @ ie_encode e)"
    using e(1) Cons.prems(6) by (simp add: length_ie_encode sizeof_inotify_event_def)
  have name: "c_string_at buf (off + sizeof_inotify_event) = Some (ie_name e)" if "ie_name e \<noteq> []"
    by (rule c_string_at_name [where rest = "replicate (ie_pad e) 0 @ concat (map ie_encode es)"])
      (use e(1,2) Cons.prems(6) that in \<open>simp_all add: buf ie_encode_def sizeof_inotify_event_def\<close>)
  have pos: "(0 < (word_of_nat (ie_len e) :: u32)) = (ie_name e \<noteq> [])"
    using ulen by (auto simp: word_less_nat_alt ie_len_def)
  obtain s1 d1 where s1: "(if ie_source e then change_one E e s else Some s) = Some s1"
    "poll_one E buf off (word_of_nat (ie_len e)) s = Some (if ie_source e then 1 else 0, s1)"
    "lr_inv n s1" "same_setup s s1" "target_mapped s1 = Some d1"
    using handle_change_inv [OF Cons.prems(2-4), of "ie_path s e"] name Cons.prems(3,4)
    by (cases "ie_source e")
      (auto simp: poll_one_def pos ie_source_def change_one_def ie_path_def)
  have "off < length buf" using e(1) Cons.prems(6) by (simp add: buf length_ie_encode)
  then have step: "poll_loop E buf off k s =
      poll_loop E buf (length (pre @ ie_encode e)) (k + (if ie_source e then 1 else 0)) s1"
    by (subst poll_loop.simps) (simp add: len s1(2) ulen next_off)
  have buf': "buf = (pre @ ie_encode e) @ concat (map ie_encode es)" using buf by simp
  from Cons.prems(1) have "\<forall>e \<in> set es. ie_ok e" by simp
  from Cons.IH [OF this Cons.prems(2) s1(3,5) buf' refl, of "k + (if ie_source e then 1 else 0)"]
  obtain s' where s': "mfold (change_one E) (filter ie_source es) s1 = Some s'"
    "poll_loop E buf (length (pre @ ie_encode e)) (k + (if ie_source e then 1 else 0)) s1 =
       Some (k + (if ie_source e then 1 else 0) + int (length (filter ie_source es)), s')"
    "lr_inv n s'" "same_setup s1 s'" by blast
  show ?case
    using s' s1(1) step same_trans(1) [OF s1(4) s'(4)] by (auto split: if_splits)
qed

section \<open>A running example\<close>

definition demo_machine :: machine where
  "demo_machine = \<lparr>initialized = False, watching = False, config = zero_config, source_dir = [],
     compiler = [], cache_dir = [], target_path = [], is_self_patch = False, target_fd = 0,
     target_mapped = None, target_size = 0, ape_info = zero_APEInfo, inotify_fd = 0, watch_fd = 0,
     patches = [], next_patch_id = 0, callback = None, callback_userdata = 0, stats = zero_stats,
     error_msg = None, files = (\<lambda>p. if p = ''.e9cache/a.c.o'' then Some [1] else None),
     dirs = {}, clock = (\<lambda>n. word_of_nat n), ticks = 0, events = [], flushed = []\<rparr>"

text \<open>A compiler that writes one byte, and a differ that reports two bytes at RVA \<open>0x1004\<close>.\<close>

definition demo_env :: lr_env where
  "demo_env = \<lparr>sys_system = (\<lambda>cmd fs. (0, fs(''.e9cache/a.c.new.o'' := Some [2]))),
     sys_open = (\<lambda>p. 3), sys_fstat = (\<lambda>fd. Some 210),
     sys_mmap = (\<lambda>fd n. if n = 210 then Some demo_ape else None),
     sys_self_path = None, sys_inotify_init1 = 4, sys_inotify_add_watch = (\<lambda>fd p. 5),
     sys_diff_objects = (\<lambda>a b. Some [\<lparr>bp_address = 0x1004, bp_old_bytes = [0, 0],
        bp_new_bytes = [0xEB, 0xFE], bp_size = 2, bp_function = Some ''f''\<rparr>])\<rparr>"

definition demo_ready :: machine where
  "demo_ready = snd (the (e9_livereload_init demo_env (Some ''a.com'') None demo_machine))"

lemma length_demo_ape: "length demo_ape = 210"
  by code_simp

lemma demo_env_ok: "env_ok demo_env"
  by (auto simp: env_ok_def demo_env_def length_demo_ape OBJ_MAX_def)

lemma demo_init: "e9_livereload_init demo_env (Some ''a.com'') None demo_machine = Some (0, demo_ready)"
proof -
  have e: "sys_mmap demo_env 3 210 = Some demo_ape" "sys_open demo_env p = 3" "sys_fstat demo_env 3 = Some 210" for p
    by (simp_all add: demo_env_def)
  have "initialized demo_machine = False" by (simp add: demo_machine_def)
  then show ?thesis
    by (simp add: demo_ready_def e9_livereload_init_def Let_def lr_map_target_def e demo_ape_parse)
qed

lemma demo_ready_state:
  "initialized demo_ready" "target_mapped demo_ready = Some demo_ape" "patches demo_ready = []"
  "ape_info demo_ready = demo_ape_info" "watching demo_ready = False" "target_size demo_ready = 210"
  "source_dir demo_ready = ''.''"
  by (simp_all add: demo_ready_def e9_livereload_init_def Let_def lr_map_target_def demo_env_def
      demo_machine_def demo_ape_parse memset_g_state_def lr_configure_def strncpy_to_def
      E9_LIVERELOAD_CONFIG_DEFAULT_def MAX_PATH_LEN_def)

lemma demo_reach: "lr_reach demo_env 1 demo_ready"
proof -
  have "lr_start demo_machine" by (simp add: lr_start_def demo_machine_def)
  then have "lr_reach demo_env 0 demo_machine" by (rule lr_reach_start [OF demo_env_ok])
  then show ?thesis using lr_reach_step [OF _ step_init [OF demo_init]] by simp
qed

section \<open>Properties\<close>

text \<open>
  C9.  In every state reachable by calls of the interface: a mapped image exists exactly when
  the engine is initialised and has the recorded size; the table holds at most 256 patches; the
  bytes of each patch have its size, and an applied or reverted patch lies inside the image; the
  counters of the statistics are the numbers of applied, failed and reverted patches; the watch
  descriptors are open exactly while watching.  As long as fewer than \<open>2 ^ 32 - 256\<close> calls
  were made, the identifiers in the table are distinct and none is 0, the failure value.
\<close>

theorem lr_reachable_invariant:
  assumes "lr_reach E n s"
  shows "lr_ok s \<and> (n + 256 < 2 ^ 32 \<longrightarrow>
    distinct (map ip_id (patches s)) \<and> 0 \<notin> set (map ip_id (patches s)))"
proof -
  have inv: "lr_ok s" "lr_ids n s" using lr_reach_inv [OF assms] by (simp_all add: lr_inv_def)
  then have "length (patches s) \<le> 256" by (simp add: lr_ok_def MAX_PATCHES_def)
  with inv lr_ids_distinct [OF inv(2)] show ?thesis by auto
qed

theorem lr_reachable_invariant_witness:
  "lr_ok demo_ready \<and> distinct (map ip_id (patches demo_ready))"
  using lr_reachable_invariant [OF demo_reach] by simp

text \<open>
  C20.  \<open>e9_livereload_apply_patch\<close> on a ready engine with a free slot and an address that
  resolves: if the patch is not empty and lies inside the image, it returns a new identifier,
  the image has the patch bytes at the resolved offset and is otherwise unchanged, the range is
  flushed, and the table gains one applied entry with the previous bytes.  If it does not lie
  inside the image, the code reads outside the mapping: the previous bytes are saved before the
  bounds check.
\<close>

theorem lr_apply_patch_exact:
  assumes "lr_reach E n s" and "target_mapped s = Some d" and "length (patches s) < MAX_PATCHES"
    and "off = lr_resolve (ape_info s) ty address" and "0 \<le> off" and "patch \<noteq> []"
  shows "if nat off + length patch \<le> length d
    then \<exists>s'. e9_livereload_apply_patch ty address patch s = Some (next_patch_id s + 1, s') \<and>
      target_mapped s' = Some (take (nat off) d @ patch @ drop (nat off + length patch) d) \<and>
      flushed s' = flushed s @ [(off, word_of_nat (length patch))] \<and>
      patches s' = patches s @ [(manual_patch s ty address (take (length patch) (drop (nat off) d)) patch)
        \<lparr>ip_status := E9_PATCH_STATUS_APPLIED\<rparr>]
    else e9_livereload_apply_patch ty address patch s = None"
proof (cases "nat off + length patch \<le> length d")
  case False
  have "initialized s" using lr_reach_inv [OF assms(1)] assms(2) by (simp add: lr_inv_def lr_ok_def)
  with False assms show ?thesis by (simp add: e9_livereload_apply_patch_def Let_def rd_region_def)
next
  case True
  have inv: "lr_inv n s" by (rule lr_reach_inv [OF assms(1)])
  let ?old = "take (length patch) (drop (nat off) d)"
  let ?p = "manual_patch s ty address ?old patch"
  have old: "rd_region d (nat off) (length patch) = Some ?old" using True by (simp add: rd_region_def)
  obtain s1 where s1: "e9_livereload_apply_patch ty address patch s =
      map_option (\<lambda>(ret, s'). (if ret \<noteq> 0 then 0 else next_patch_id s + 1, s'))
        (apply_patch_internal (length (patches s)) s1)"
    "lr_inv n s1" "target_mapped s1 = Some d" "flushed s1 = flushed s" "patches s1 = patches s @ [?p]"
    using apply_patch_enter [OF inv assms(2,3) assms(4) [symmetric] assms(5) old] by metis
  have i: "length (patches s) < length (patches s1)" and p: "?p = patches s1 ! length (patches s)"
    using s1(5) by simp_all
  have offp: "ip_file_offset ?p = off" "ip_new_bytes ?p = Some patch" "ip_new_size ?p = word_of_nat (length patch)"
    by (simp_all add: manual_patch_def assms(4))
  have ok1: "lr_ok s1" using s1(2) by (simp add: lr_inv_def)
  have "nat (ip_file_offset ?p) + length patch \<le> length d" using True offp(1) by simp
  from apply_internal_applied [OF ok1 i s1(3) p offp(2) assms(6) this] obtain s2 where
    "apply_patch_internal (length (patches s)) s1 = Some (0, s2)"
    "target_mapped s2 = Some (take (nat off) d @ patch @ drop (nat off + length patch) d)"
    "patches s2 = (patches s1)[length (patches s) := ?p\<lparr>ip_status := E9_PATCH_STATUS_APPLIED\<rparr>]"
    "flushed s2 = flushed s1 @ [(off, word_of_nat (length patch))]"
    unfolding offp by metis
  with True s1 show ?thesis by simp
qed

theorem lr_apply_patch_exact_witness:
  "(\<exists>s'. e9_livereload_apply_patch E9_PATCH_TARGET_FILE_OFFSET 2 [7, 8] demo_ready =
      Some (next_patch_id demo_ready + 1, s') \<and>
      target_mapped s' = Some (take 2 demo_ape @ [7, 8] @ drop 4 demo_ape)) \<and>
   e9_livereload_apply_patch E9_PATCH_TARGET_FILE_OFFSET 209 [7, 8] demo_ready = None"
proof -
  have r: "lr_resolve i E9_PATCH_TARGET_FILE_OFFSET 2 = 2" "lr_resolve i E9_PATCH_TARGET_FILE_OFFSET 209 = 209" for i
    by (simp_all add: lr_resolve_def)
  have m: "length (patches demo_ready) < MAX_PATCHES" by (simp add: demo_ready_state MAX_PATCHES_def)
  note P = lr_apply_patch_exact [OF demo_reach demo_ready_state(2) m]
  show ?thesis
    using P [OF r(1) [symmetric], of "[7, 8]"] P [OF r(2) [symmetric], of "[7, 8]"]
    by (simp add: length_demo_ape numeral_2_eq_2 [symmetric]) blast
qed

text \<open>
  C21.  Reverting in the reverse order of application undoes any sequence of manual patches:
  if every call of \<open>e9_livereload_apply_patch\<close> in a sequence succeeded, then reverting the
  returned identifiers in reverse order succeeds and restores the image byte for byte, also
  when the patches overlap.
\<close>

theorem lr_revert_restores:
  assumes "lr_reach E n s" and "e9_livereload_is_ready s"
    and "apply_list rs s = Some (pids, s1)" and "0 \<notin> set pids" and "n + length rs + 256 < 2 ^ 32"
  shows "\<exists>s2. revert_list (rev pids) s1 = Some (replicate (length rs) 0, s2) \<and>
    target_mapped s2 = target_mapped s"
proof -
  have inv: "lr_inv n s" by (rule lr_reach_inv [OF assms(1)])
  have inv1: "lr_inv (n + length rs) s1" by (rule apply_list_inv [OF assms(3) inv])
  then have "length (patches s1) \<le> 256" by (simp add: lr_inv_def lr_ok_def MAX_PATCHES_def)
  with assms(5) have "n + length rs + length (patches s1) < 2 ^ 32" by simp
  moreover have "target_mapped s \<noteq> None" using assms(2) by (simp add: e9_livereload_is_ready_def)
  ultimately show ?thesis
    using revert_in_reverse [OF assms(3,4) inv inv1 refl, of "[]"] by simp
qed

definition demo_requests :: "patch_request list" where
  "demo_requests = [(E9_PATCH_TARGET_FILE_OFFSET, 2, [7, 8]), (E9_PATCH_TARGET_FILE_OFFSET, 3, [9])]"

definition demo_patched :: machine where
  "demo_patched = snd (the (apply_list demo_requests demo_ready))"

lemma demo_apply_list: "apply_list demo_requests demo_ready = Some ([1, 2], demo_patched)"
proof -
  have "map_option fst (apply_list demo_requests demo_ready) = Some [1, 2]" by code_simp
  then show ?thesis by (auto simp: demo_patched_def)
qed

theorem lr_revert_restores_witness:
  "\<exists>s2. revert_list [2, 1] demo_patched = Some ([0, 0], s2) \<and> target_mapped s2 = Some demo_ape"
proof -
  have "e9_livereload_is_ready demo_ready" by (simp add: e9_livereload_is_ready_def demo_ready_state)
  with lr_revert_restores [OF demo_reach _ demo_apply_list] show ?thesis
    by (simp add: demo_requests_def demo_ready_state del: revert_list.simps)
qed

text \<open>
  The order matters: two overlapping patches reverted in the order of application leave
  bytes of the first patch in the image, although both calls report success.
\<close>

theorem lr_revert_order:
  "map_option (\<lambda>(rs, s). (rs, map_option (take 6) (target_mapped s))) (revert_list [1, 2] demo_patched) =
     Some ([0, 0], Some [0x4D, 0x5A, 0x71, 8, 0x70, 0x44]) \<and>
   take 6 demo_ape = [0x4D, 0x5A, 0x71, 0x46, 0x70, 0x44]"
  by code_simp

text \<open>
  Patch generation: for a list of differences with the sizes they declare, each difference
  becomes one pending patch, in order, until the table is full; the offset is the translation of
  its address, the image is not touched, and the result is the number of patches created.
\<close>

theorem lr_generate_patches_exact:
  assumes "lr_reach E n s" and "target_mapped s = Some d"
    and "read_file old_object s = Some a" and "read_file new_object s = Some b"
    and "sys_diff_objects E a b = Some bps" and "\<forall>bp \<in> set bps. diff_sized bp"
  shows "\<exists>s' qs. generate_patches E src old_object new_object s = Some (int (length qs), s') \<and>
    patches s' = patches s @ qs \<and> target_mapped s' = target_mapped s \<and>
    length qs = min (length bps) (256 - length (patches s)) \<and>
    list_all2 (patch_of_diff (ape_info s) src) qs (take (256 - length (patches s)) bps)"
proof -
  have inv: "lr_inv n s" by (rule lr_reach_inv [OF assms(1)])
  from generate_loop [OF inv assms(2,6), of src 0] obtain s' qs where
    g: "generate_patches_loop src bps 0 s = Some (int (length qs), s')"
      "target_mapped s' = target_mapped s" "patches s' = patches s @ qs"
      "list_all2 (patch_of_diff (ape_info s) src) qs (take (256 - length (patches s)) bps)"
    by (auto simp: MAX_PATCHES_def)
  have "generate_patches E src old_object new_object s = Some (int (length qs), s')"
    using assms(3-5) g(1) by (auto simp: generate_patches_def)
  with g list_all2_lengthD [OF g(4)] show ?thesis by (auto simp: min.commute)
qed

theorem lr_generate_patches_exact_witness:
  "\<exists>s' qs. generate_patches demo_env ''a.c'' ''.e9cache/a.c.o'' ''.e9cache/a.c.o'' demo_ready = Some (1, s') \<and>
     patches s' = qs \<and> length qs = 1"
proof -
  have r: "read_file ''.e9cache/a.c.o'' demo_ready = Some [1]"
    by (simp add: read_file_def demo_ready_def e9_livereload_init_def Let_def lr_map_target_def demo_env_def
      demo_machine_def demo_ape_parse memset_g_state_def lr_configure_def)
  have "sys_diff_objects demo_env [1] [1] = Some [\<lparr>bp_address = 0x1004, bp_old_bytes = [0, 0],
        bp_new_bytes = [0xEB, 0xFE], bp_size = 2, bp_function = Some ''f''\<rparr>]"
    by (simp add: demo_env_def)
  from lr_generate_patches_exact [OF demo_reach demo_ready_state(2) r r this, of "''a.c''"]
  show ?thesis by (auto simp: demo_ready_state diff_sized_def OBJ_MAX_def)
qed

text \<open>
  With the object differ that the repository has, which always fails, live reload never
  produces a patch: whatever the compiler does, handling a change returns 0 or -1 and leaves the
  patch table and the image as they were.
\<close>

theorem lr_reload_inert:
  assumes "sys_diff_objects E = e9_binaryen_diff_objects"
  shows "\<exists>r s'. handle_file_change E src s = Some (r, s') \<and> (r = 0 \<or> r = -1) \<and>
    patches s' = patches s \<and> target_mapped s' = target_mapped s"
proof -
  define s1 where "s1 = change_prologue src s"
  obtain ret s2 where c: "compile_source E src (get_new_object_path src s1) s1 = (ret, s2)"
    by (cases "compile_source E src (get_new_object_path src s1) s1")
  have s2: "same_patching s s2"
    using same_trans(2) [OF change_prologue_frame(2) compile_source_frame(2) [OF c [unfolded s1_def]]] .
  have gen: "generate_patches E src a b s2 = Some (-1, set_error (if files s2 a = None \<or> files s2 b = None
      then LR_READ_OBJECTS else LR_DIFF_FAILED) s2)" for a b
    using assms by (auto simp: generate_patches_def read_file_def e9_binaryen_diff_objects_def split: option.splits)
  have keep: "patches (rename_file a b t) = patches t \<and> target_mapped (rename_file a b t) = target_mapped t" for a b t
    using rename_file_frame(2) [of t a b] by (simp add: same_patching_def)
  show ?thesis
    using s2 by (auto simp: handle_file_change_eq Let_def s1_def [symmetric] c gen keep same_patching_def set_error_def)
qed

theorem lr_reload_inert_witness:
  "\<exists>r s'. handle_file_change (demo_env\<lparr>sys_diff_objects := e9_binaryen_diff_objects\<rparr>) ''a.c'' demo_ready = Some (r, s') \<and>
     (r = 0 \<or> r = -1) \<and> patches s' = [] \<and> target_mapped s' = Some demo_ape"
  using lr_reload_inert [of "demo_env\<lparr>sys_diff_objects := e9_binaryen_diff_objects\<rparr>" "''a.c''" demo_ready]
  by (simp add: demo_ready_state)

text \<open>
  Polling decodes the kernel's record stream: for any sequence of well-formed records it
  ends, handles exactly the records whose name ends in \<open>.c\<close> or \<open>.h\<close>, in order, and
  returns their number.
\<close>

theorem lr_poll_records:
  assumes "lr_reach E n s" and "env_ok E" and "watching s" and "\<forall>e \<in> set es. ie_ok e"
  shows "\<exists>s'. mfold (change_one E) (filter ie_source es) s = Some s' \<and>
    e9_livereload_poll E (concat (map ie_encode es)) s = Some (int (length (filter ie_source es)), s')"
proof -
  have inv: "lr_inv n s" by (rule lr_reach_inv [OF assms(1)])
  with assms(3) obtain d where d: "target_mapped s = Some d" "initialized s"
    by (auto simp: lr_inv_def lr_ok_def split: option.splits)
  from poll_loop_records [OF assms(4,2) inv d(1), of "concat (map ie_encode es)" "[]" 0 0]
  obtain s' where s': "mfold (change_one E) (filter ie_source es) s = Some s'"
    "poll_loop E (concat (map ie_encode es)) 0 0 s = Some (int (length (filter ie_source es)), s')" by auto
  show ?thesis
  proof (cases "concat (map ie_encode es) = []")
    case True
    with assms(3) d s' show ?thesis
      by (auto simp: e9_livereload_poll_def poll_inotify_def poll_loop.simps)
  next
    case False
    with assms(3) d s' show ?thesis
      by (auto simp: e9_livereload_poll_def poll_inotify_def)
  qed
qed

definition demo_record :: inotify_record where
  "demo_record = \<lparr>ie_head = replicate 12 0, ie_name = ''a.c'', ie_pad = 12\<rparr>"

definition demo_watching :: machine where
  "demo_watching = snd (e9_livereload_watch demo_env demo_ready)"

theorem lr_poll_records_witness:
  "\<exists>s'. e9_livereload_poll demo_env (ie_encode demo_record) demo_watching = Some (1, s')"
proof -
  have "lr_step demo_env demo_ready demo_watching"
    by (rule step_watch [of _ _ "fst (e9_livereload_watch demo_env demo_ready)"]) (simp add: demo_watching_def)
  then have r: "lr_reach demo_env 2 demo_watching" using lr_reach_step [OF demo_reach] by (simp add: numeral_2_eq_2)
  have w: "watching demo_watching"
    by (simp add: demo_watching_def e9_livereload_watch_def demo_ready_state init_inotify_def demo_env_def Let_def)
  have "ie_ok demo_record" "ie_source demo_record" by (code_simp, code_simp)
  with lr_poll_records [OF r demo_env_ok w, of "[demo_record]"] show ?thesis by auto
qed

lemma fold_count: "fold (\<lambda>p n. if P p then n + 1 else n) ps k = k + length (filter P ps)"
  by (induction ps arbitrary: k) auto

lemma get_pending_loop_eq:
  "get_pending_loop ps c m =
     take (m - c) (map patch_info (filter (\<lambda>p. ip_status p = E9_PATCH_STATUS_PENDING) ps))"
  by (induction ps c m rule: get_pending_loop.induct) (auto simp: Suc_diff_Suc [symmetric])

text \<open>
  The queries agree with the table and with the statistics in every reachable state:
  \<open>get_pending\<close> returns the first pending patches in table order, \<open>pending_count\<close> their
  number, and \<open>applied_count\<close> is \<open>patches_applied - patches_reverted\<close> of the statistics.
\<close>

theorem lr_queries_agree:
  assumes "lr_reach E n s"
  shows "e9_livereload_get_pending m s =
      take m (map patch_info (filter (\<lambda>p. ip_status p = E9_PATCH_STATUS_PENDING) (patches s))) \<and>
    e9_livereload_pending_count s = length (e9_livereload_get_pending 256 s) \<and>
    e9_livereload_applied_count s =
      unat (patches_applied (e9_livereload_get_stats s) - patches_reverted (e9_livereload_get_stats s))"
proof -
  have ok: "lr_ok s" using lr_reach_inv [OF assms] by (simp add: lr_inv_def)
  then have len: "length (patches s) \<le> 256" by (simp add: lr_ok_def MAX_PATCHES_def)
  have small: "length (filter P (patches s)) \<le> 256" for P
    using length_filter_le [of P "patches s"] len by linarith
  have "patches_applied (stats s) - patches_reverted (stats s) =
      word_of_nat (status_count E9_PATCH_STATUS_APPLIED s)"
    using ok by (simp add: lr_ok_def counts_ok_def)
  then have "unat (patches_applied (stats s) - patches_reverted (stats s)) =
      status_count E9_PATCH_STATUS_APPLIED s"
    using small [of "\<lambda>p. ip_status p = E9_PATCH_STATUS_APPLIED"] by (simp add: status_count_def unat_of_nat)
  moreover have "e9_livereload_applied_count s = status_count E9_PATCH_STATUS_APPLIED s"
    by (simp only: e9_livereload_applied_count_def fold_count status_count_def add_0)
  moreover have "e9_livereload_pending_count s = length (e9_livereload_get_pending 256 s)"
    using small [of "\<lambda>p. ip_status p = E9_PATCH_STATUS_PENDING"]
    by (simp only: e9_livereload_pending_count_def fold_count e9_livereload_get_pending_def
        get_pending_loop_eq) simp
  ultimately show ?thesis
    by (simp add: e9_livereload_get_stats_def e9_livereload_get_pending_def get_pending_loop_eq)
qed

theorem lr_queries_agree_witness:
  "e9_livereload_pending_count demo_ready = length (e9_livereload_get_pending 256 demo_ready)"
  using lr_queries_agree [OF demo_reach, of 256] by blast

text \<open>
  Lifecycle: a call of \<open>e9_livereload_init\<close> on an engine that is not initialised returns
  0 or -1, and 0 exactly when the engine is ready afterwards, with an empty table and without a
  callback (one set before is lost); a second call fails and changes only the error text; after
  \<open>e9_livereload_shutdown\<close> the engine is not ready and can be initialised again.
\<close>

theorem lr_lifecycle:
  assumes "env_ok E" and "\<not> initialized s" and "e9_livereload_init E path cfg s = Some (r, s')"
  shows "(r = 0 \<or> r = -1) \<and> (r = 0 \<longleftrightarrow> e9_livereload_is_ready s') \<and> patches s' = [] \<and> callback s' = None \<and>
    (r = 0 \<longrightarrow> e9_livereload_init E path' cfg' s' = Some (-1, s'\<lparr>error_msg := Some LR_ALREADY_INITIALIZED\<rparr>)) \<and>
    \<not> e9_livereload_is_ready (e9_livereload_shutdown s') \<and> \<not> initialized (e9_livereload_shutdown s')"
proof -
  let ?s0 = "lr_configure cfg (memset_g_state s)"
  have main: "(r = 0 \<or> r = -1) \<and> (r = 0 \<longleftrightarrow> e9_livereload_is_ready s') \<and> (r = 0 \<longleftrightarrow> initialized s') \<and>
      patches s' = [] \<and> callback s' = None"
    using assms(2,3)
  proof (cases rule: init_cases)
    case none
    then show ?thesis
      by (simp add: e9_livereload_is_ready_def set_error_def lr_configure_def Let_def memset_g_state_def)
  next
    case (map p b)
    let ?s1 = "?s0\<lparr>target_path := p, is_self_patch := b\<rparr>"
    have s1: "\<not> initialized ?s1" "\<not> watching ?s1" "patches ?s1 = []" "next_patch_id ?s1 = 0"
      "stats ?s1 = zero_stats" "target_mapped ?s1 = None" "callback ?s1 = None"
      by (simp_all add: lr_configure_def Let_def memset_g_state_def)
    have "callback s' = None \<and> patches s' = [] \<and> (r = 0 \<longleftrightarrow> target_mapped s' \<noteq> None)"
      using map s1(6)
    proof (cases rule: map_target_cases)
      case fail
      then show ?thesis by (simp only: s1 simp_thms)
    next
      case (ok st d info)
      then show ?thesis by (simp add: lr_configure_def Let_def memset_g_state_def)
    qed
    with map_target_inv(2,3) [OF assms(1) map s1(1-6)] show ?thesis
      by (auto simp: e9_livereload_is_ready_def)
  qed
  moreover have "\<not> initialized (e9_livereload_shutdown s')"
    by (auto simp: e9_livereload_shutdown_def Let_def memset_g_state_def)
  ultimately show ?thesis
    by (auto simp: e9_livereload_init_def set_error_def e9_livereload_is_ready_def)
qed

theorem lr_lifecycle_witness:
  "e9_livereload_is_ready demo_ready \<and> \<not> initialized (e9_livereload_shutdown demo_ready)"
proof -
  have "\<not> initialized demo_machine" by (simp add: demo_machine_def)
  from lr_lifecycle [OF demo_env_ok this demo_init] show ?thesis by simp
qed
end
