(* ===== verification/E9BinaryCtx.thy ===== *)
theory E9BinaryCtx
  imports E9Prelude
begin

text \<open>
  The binary under analysis, \<open>struct E9Binary\<close> of \<open>src/src/e9patch/analysis/e9analysis.h\<close>.

  \<open>data\<close> with \<open>size\<close> is the list of the file's bytes and \<open>sections\<close> the list of the
  \<open>num_sections\<close> entries.  The record \<open>E9Binary\<close> holds the members that every client reads: the
  patch sessions of \<open>e9binpatch.c\<close> work on it alone, the analysis engine extends it with the
  results it computes.
\<close>

datatype E9Arch = E9_ARCH_UNKNOWN | E9_ARCH_X86_64 | E9_ARCH_AARCH64 | E9_ARCH_RISCV64

text \<open>\<open>name\<close> is the C string in \<open>char name[32]\<close>, without its terminating zero.\<close>

record E9Section =
  sec_addr :: u64
  sec_size :: u64
  sec_flags :: u32
  sec_name :: bytes

record E9Binary =
  bin_data :: bytes
  bin_base_address :: u64
  bin_arch :: E9Arch
  bin_sections :: "E9Section list"

definition bin_size :: "'a E9Binary_scheme \<Rightarrow> u64" where
  "bin_size bin = word_of_nat (length (bin_data bin))"

end
