(* ===== verification/E9BinPatch.thy ===== *)
theory E9BinPatch
  imports E9Buffer E9Machine E9BinaryCtx
begin

text \<open>
  \<open>src/src/e9patch/analysis/e9binpatch.c\<close>: the in-place binary editing pipeline.  A session
  collects patches for a binary, finds code caves, and applies the patches to a copy of the
  binary with 4096 bytes of slack.

  \<open>bin->data\<close> with \<open>bin->size\<close> is the list of its bytes, the arrays of sections, patches and
  caves are lists of their used entries (the capacities are kept, because one loop consults
  them), the output buffer is a list of \<open>output_capacity\<close> bytes.  Pointer arguments that the
  code tests are \<open>ptr\<close> values; the session and its binary are present.  Allocation succeeds.
  A result \<open>None\<close> of the outermost \<open>option\<close> is an access outside a buffer.
\<close>

section \<open>Data\<close>

definition E9_SECFLAG_WRITE :: u32 where "E9_SECFLAG_WRITE = 1"
definition E9_SECFLAG_EXEC :: u32 where "E9_SECFLAG_EXEC = 4"
definition E9_BINPATCH_FLAG_BACKUP :: u32 where "E9_BINPATCH_FLAG_BACKUP = 1"
definition E9_BINPATCH_FLAG_VERIFY :: u32 where "E9_BINPATCH_FLAG_VERIFY = 2"

datatype E9BinPatchType =
    E9_BINPATCH_BYTES
  | E9_BINPATCH_INSN
  | E9_BINPATCH_NOP
  | E9_BINPATCH_CALL
  | E9_BINPATCH_JMP
  | E9_BINPATCH_TRAMPOLINE
  | E9_BINPATCH_HOOK
  | E9_BINPATCH_DETOUR

record E9BinPatch =
  p_type :: E9BinPatchType
  p_flags :: u32
  p_address :: u64
  p_offset :: u64
  p_orig_size :: u64
  p_new_bytes :: "bytes ptr"
  p_new_size :: u64
  p_target_addr :: u64
  p_hook_code :: "bytes ptr"
  p_hook_code_size :: u64
  p_backup_bytes :: "bytes ptr"
  p_backup_size :: u64
  p_id :: int

definition zero_patch :: E9BinPatch where
  "zero_patch = \<lparr>p_type = E9_BINPATCH_BYTES, p_flags = 0, p_address = 0, p_offset = 0,
     p_orig_size = 0, p_new_bytes = None, p_new_size = 0, p_target_addr = 0, p_hook_code = None,
     p_hook_code_size = 0, p_backup_bytes = None, p_backup_size = 0, p_id = 0\<rparr>"

record E9CodeCave =
  cave_address :: u64
  cave_offset :: u64
  cave_size :: u64
  cave_writable :: bool
  cave_executable :: bool
  cave_section_idx :: nat

record E9CaveFinder =
  caves :: "E9CodeCave list"
  caves_capacity :: nat
  min_cave_size :: u64

datatype bp_error =
    BP_NO_OFFSET u64
  | BP_FINALIZED
  | BP_NO_INSN_SIZE u64
  | BP_OVERLAP u64 u64
  | BP_EXCEEDS u64
  | BP_CALL_TOO_LARGE u64
  | BP_JUMP_TOO_LARGE u64
  | BP_NO_CAVE u64
  | BP_CANNOT_OPEN string
  | BP_WRITE_ERROR nat u64
  | BP_VERIFY_FAILED u64
  | BP_NO_BACKUP int

record E9BinPatchSession =
  s_bin :: E9Binary
  s_patches :: "E9BinPatch list"
  s_patches_capacity :: nat
  s_cave_finder :: "E9CaveFinder ptr"
  s_output :: bytes
  s_output_size :: u64
  s_output_capacity :: u64
  s_finalized :: bool
  s_error_code :: int
  s_error_msg :: "bp_error option"

definition bp_set_error :: "int \<Rightarrow> bp_error \<Rightarrow> E9BinPatchSession \<Rightarrow> E9BinPatchSession" where
  "bp_set_error code e s = s\<lparr>s_error_code := code, s_error_msg := Some e\<rparr>"

section \<open>Sessions\<close>

definition e9_binpatch_session_create :: "E9Binary ptr \<Rightarrow> E9BinPatchSession ptr" where
  "e9_binpatch_session_create b = (case b of
     None \<Rightarrow> None
   | Some bin \<Rightarrow> Some \<lparr>s_bin = bin, s_patches = [], s_patches_capacity = 64, s_cave_finder = None,
       s_output = bin_data bin @ replicate 4096 0, s_output_size = bin_size bin,
       s_output_capacity = bin_size bin + 4096, s_finalized = False, s_error_code = 0,
       s_error_msg = None\<rparr>)"

definition ensure_patch_capacity :: "E9BinPatchSession \<Rightarrow> E9BinPatchSession" where
  "ensure_patch_capacity s =
     (if s_patches_capacity s \<le> length (s_patches s)
      then s\<lparr>s_patches_capacity := s_patches_capacity s * 2\<rparr> else s)"

section \<open>Addresses\<close>

fun sections_contain :: "E9Section list \<Rightarrow> u64 \<Rightarrow> E9Section option" where
  "sections_contain [] vaddr = None"
| "sections_contain (sec # secs) vaddr =
     (if sec_addr sec \<le> vaddr \<and> vaddr < sec_addr sec + sec_size sec then Some sec
      else sections_contain secs vaddr)"

definition e9_binpatch_vaddr_to_offset :: "E9Binary ptr \<Rightarrow> u64 \<Rightarrow> u64" where
  "e9_binpatch_vaddr_to_offset b vaddr = (case b of
     None \<Rightarrow> 0
   | Some bin \<Rightarrow>
       if sections_contain (bin_sections bin) vaddr \<noteq> None then vaddr - bin_base_address bin
       else if bin_base_address bin \<le> vaddr \<and> vaddr < bin_base_address bin + bin_size bin
       then vaddr - bin_base_address bin
       else 0)"

definition e9_binpatch_offset_to_vaddr :: "E9Binary ptr \<Rightarrow> u64 \<Rightarrow> u64" where
  "e9_binpatch_offset_to_vaddr b offset = (case b of
     None \<Rightarrow> 0
   | Some bin \<Rightarrow> if bin_size bin \<le> offset then 0 else bin_base_address bin + offset)"

definition e9_binpatch_addr_executable :: "E9Binary ptr \<Rightarrow> u64 \<Rightarrow> bool" where
  "e9_binpatch_addr_executable b addr = (case b of
     None \<Rightarrow> False
   | Some bin \<Rightarrow> (case sections_contain (bin_sections bin) addr of
       None \<Rightarrow> False
     | Some sec \<Rightarrow> sec_flags sec AND E9_SECFLAG_EXEC \<noteq> 0))"

section \<open>Generated code\<close>

definition nop_seqs :: "bytes list" where
  "nop_seqs = [
     [0x90],
     [0x66, 0x90],
     [0x0F, 0x1F, 0x00],
     [0x0F, 0x1F, 0x40, 0x00],
     [0x0F, 0x1F, 0x44, 0x00, 0x00],
     [0x66, 0x0F, 0x1F, 0x44, 0x00, 0x00],
     [0x0F, 0x1F, 0x80, 0x00, 0x00, 0x00, 0x00],
     [0x0F, 0x1F, 0x84, 0x00, 0x00, 0x00, 0x00, 0x00],
     [0x66, 0x0F, 0x1F, 0x84, 0x00, 0x00, 0x00, 0x00, 0x00]]"

text \<open>The bytes that the x86-64 loop writes while \<open>remain\<close> bytes are left.\<close>

function x86_nops :: "nat \<Rightarrow> bytes" where
  "x86_nops remain =
     (if 0 < remain then
        let nop_size = (if 9 < remain then 9 else remain)
        in nop_seqs ! (nop_size - 1) @ x86_nops (remain - nop_size)
      else [])"
  by pat_completeness auto
termination
  by (relation "measure id") auto

declare x86_nops.simps [simp del]

definition a64_nops :: "nat \<Rightarrow> bytes" where
  "a64_nops n = concat (replicate (n div 4) [0x1F, 0x20, 0x03, 0xD5])"

definition nop_bytes :: "E9Arch \<Rightarrow> nat \<Rightarrow> bytes" where
  "nop_bytes arch n = (if arch = E9_ARCH_AARCH64 then a64_nops n else x86_nops n)"

text \<open>\<open>e9_binpatch_gen_nops(arch, buf + off, size)\<close>\<close>

definition e9_binpatch_gen_nops :: "E9Arch \<Rightarrow> bytes \<Rightarrow> nat \<Rightarrow> nat \<Rightarrow> bytes ub" where
  "e9_binpatch_gen_nops arch buf off n = (if n = 0 then Some buf else memcpy_to buf off (nop_bytes arch n))"

definition le32 :: "u32 \<Rightarrow> bytes" where "le32 w = le_bytes 4 (unat w)"
definition le64 :: "u64 \<Rightarrow> bytes" where "le64 w = le_bytes 8 (unat w)"

text \<open>C division truncates towards zero.\<close>

definition c_div :: "int \<Rightarrow> int \<Rightarrow> int" where
  "c_div a b = (if 0 \<le> a then a div b else - ((- a) div b))"

definition a64_branch :: "u32 \<Rightarrow> int \<Rightarrow> bytes" where
  "a64_branch opcode offset = le32 (opcode OR (word_of_int (c_div offset 4) AND 0x03FFFFFF))"

text \<open>The generators return what they put into the buffer; its length is their result.\<close>

definition e9_binpatch_gen_jmp :: "E9Arch \<Rightarrow> u64 \<Rightarrow> u64 \<Rightarrow> bytes" where
  "e9_binpatch_gen_jmp arch from to =
     (if arch = E9_ARCH_AARCH64 then
        let offset = sint (to - from) in
        if - (128 * 1024 * 1024) \<le> offset \<and> offset < 128 * 1024 * 1024
        then a64_branch 0x14000000 offset
        else [0x50, 0x00, 0x00, 0x58] @ [0x00, 0x02, 0x1F, 0xD6] @ le64 to
      else
        let offset = sint (to - (from + 5)) in
        if - (2 ^ 31) \<le> offset \<and> offset \<le> 2 ^ 31 - 1
        then 0xE9 # le32 (word_of_int offset)
        else [0xFF, 0x25, 0x00, 0x00, 0x00, 0x00] @ le64 to)"

definition e9_binpatch_gen_call :: "E9Arch \<Rightarrow> u64 \<Rightarrow> u64 \<Rightarrow> bytes" where
  "e9_binpatch_gen_call arch from to =
     (if arch = E9_ARCH_AARCH64 then
        let offset = sint (to - from) in
        if - (128 * 1024 * 1024) \<le> offset \<and> offset < 128 * 1024 * 1024
        then a64_branch 0x94000000 offset
        else [0x50, 0x00, 0x00, 0x58] @ [0x00, 0x02, 0x3F, 0xD6] @ [0x03, 0x00, 0x00, 0x14] @ le64 to
      else
        let offset = sint (to - (from + 5)) in
        if - (2 ^ 31) \<le> offset \<and> offset \<le> 2 ^ 31 - 1
        then 0xE8 # le32 (word_of_int offset)
        else [0x48, 0xB8] @ le64 to @ [0xFF, 0xD0])"

section \<open>Code caves\<close>

definition push_cave :: "E9CodeCave \<Rightarrow> E9CaveFinder \<Rightarrow> E9CaveFinder" where
  "push_cave c f =
     (let f = (if caves_capacity f \<le> length (caves f) then f\<lparr>caves_capacity := caves_capacity f * 2\<rparr> else f)
      in f\<lparr>caves := caves f @ [c]\<rparr>)"

definition mk_cave :: "nat \<Rightarrow> E9Section \<Rightarrow> u64 \<Rightarrow> nat \<Rightarrow> nat \<Rightarrow> E9CodeCave" where
  "mk_cave idx sec off run_start run_len =
     \<lparr>cave_address = sec_addr sec + word_of_nat run_start, cave_offset = off + word_of_nat run_start,
      cave_size = word_of_nat run_len, cave_writable = (sec_flags sec AND E9_SECFLAG_WRITE \<noteq> 0),
      cave_executable = True, cave_section_idx = idx\<rparr>"

text \<open>The end of a run inside a section; \<open>run\<close> is \<open>(run_start, run_len)\<close> while \<open>in_run\<close>.\<close>

definition end_run :: "nat \<Rightarrow> E9Section \<Rightarrow> u64 \<Rightarrow> (nat \<times> nat) option \<Rightarrow> E9CaveFinder \<Rightarrow> E9CaveFinder" where
  "end_run idx sec off run f = (case run of
     None \<Rightarrow> f
   | Some (run_start, run_len) \<Rightarrow>
       if min_cave_size f \<le> word_of_nat run_len then push_cave (mk_cave idx sec off run_start run_len) f else f)"

definition extend_run :: "(nat \<times> nat) option \<Rightarrow> nat \<Rightarrow> nat \<Rightarrow> (nat \<times> nat) option" where
  "extend_run run i k = (case run of None \<Rightarrow> Some (i, k) | Some (st, len) \<Rightarrow> Some (st, len + k))"

definition x86_cave_byte :: "u8 \<Rightarrow> bool" where
  "x86_cave_byte b \<longleftrightarrow> b = 0x00 \<or> b = 0x90 \<or> b = 0xCC"

text \<open>
  The scan of one section from position \<open>i\<close>.  \<open>data\<close> is the whole binary and \<open>off\<close> the file
  offset of the section.  On AArch64 four bytes are consumed when they are a NOP.
\<close>

function scan_section ::
  "E9Arch \<Rightarrow> bytes \<Rightarrow> nat \<Rightarrow> E9Section \<Rightarrow> u64 \<Rightarrow> nat \<Rightarrow> (nat \<times> nat) option \<Rightarrow> E9CaveFinder \<Rightarrow>
   ((nat \<times> nat) option \<times> E9CaveFinder) ub" where
  "scan_section arch data idx sec off i run f =
     (if i < unat (sec_size sec) then
        if arch = E9_ARCH_AARCH64 then
          if i mod 4 = 0 \<and> i + 4 \<le> unat (sec_size sec) then do {
            insn \<leftarrow> rd32 data (unat off + i);
            if insn = 0xD503201F then scan_section arch data idx sec off (i + 4) (extend_run run i 4) f
            else scan_section arch data idx sec off (i + 1) None (end_run idx sec off run f)
          } else scan_section arch data idx sec off (i + 1) None (end_run idx sec off run f)
        else do {
          b \<leftarrow> rd8 data (unat off + i);
          if x86_cave_byte b then scan_section arch data idx sec off (i + 1) (extend_run run i 1) f
          else scan_section arch data idx sec off (i + 1) None (end_run idx sec off run f)
        }
      else Some (run, f))"
  by pat_completeness auto
termination
  by (relation "measure (\<lambda>(arch, data, idx, sec, off, i, run, f). unat (sec_size sec) - i)") auto

declare scan_section.simps [simp del]

text \<open>The run at the end of a section is dropped when the array is full.\<close>

definition last_run :: "nat \<Rightarrow> E9Section \<Rightarrow> u64 \<Rightarrow> (nat \<times> nat) option \<Rightarrow> E9CaveFinder \<Rightarrow> E9CaveFinder" where
  "last_run idx sec off run f = (case run of
     None \<Rightarrow> f
   | Some (run_start, run_len) \<Rightarrow>
       if min_cave_size f \<le> word_of_nat run_len \<and> length (caves f) < caves_capacity f
       then f\<lparr>caves := caves f @ [mk_cave idx sec off run_start run_len]\<rparr> else f)"

definition find_in_section :: "E9Binary \<Rightarrow> nat \<Rightarrow> E9CaveFinder \<Rightarrow> E9CaveFinder ub" where
  "find_in_section bin idx f =
     (let sec = bin_sections bin ! idx;
          off = e9_binpatch_vaddr_to_offset (Some bin) (sec_addr sec)
      in if sec_flags sec AND E9_SECFLAG_EXEC = 0 then Some f
         else if bin_size bin < off + sec_size sec then Some f
         else do {
           (run, f) \<leftarrow> scan_section (bin_arch bin) (bin_data bin) idx sec off 0 None f;
           Some (last_run idx sec off run f)
         })"

definition e9_caves_find :: "u64 \<Rightarrow> E9BinPatchSession \<Rightarrow> (int \<times> E9BinPatchSession) ub" where
  "e9_caves_find min_size s =
     (let f = (case s_cave_finder s of
            Some f \<Rightarrow> f
          | None \<Rightarrow> \<lparr>caves = [], caves_capacity = 64, min_cave_size = (if 0 < min_size then min_size else 8)\<rparr>)
      in do {
        f \<leftarrow> mfold (find_in_section (s_bin s)) [0 ..< length (bin_sections (s_bin s))] (f\<lparr>caves := []\<rparr>);
        Some (int (length (caves f)), s\<lparr>s_cave_finder := Some f\<rparr>)
      })"

text \<open>The index of the smallest cave of at least \<open>sz\<close> bytes, the first one among equals.\<close>

fun best_cave :: "E9CodeCave list \<Rightarrow> u64 \<Rightarrow> nat \<Rightarrow> (nat \<times> u64) option \<Rightarrow> (nat \<times> u64) option" where
  "best_cave [] sz i best = best"
| "best_cave (c # cs) sz i best =
     best_cave cs sz (i + 1)
       (if sz \<le> cave_size c \<and> (case best of None \<Rightarrow> True | Some (j, m) \<Rightarrow> cave_size c < m)
        then Some (i, cave_size c) else best)"

definition e9_caves_alloc :: "u64 \<Rightarrow> E9BinPatchSession \<Rightarrow> u64 \<times> E9BinPatchSession" where
  "e9_caves_alloc sz s = (case s_cave_finder s of
     None \<Rightarrow> (0, s)
   | Some f \<Rightarrow> (case best_cave (caves f) sz 0 None of
       None \<Rightarrow> (0, s)
     | Some (i, m) \<Rightarrow>
         let c = caves f ! i;
             c' = c\<lparr>cave_address := cave_address c + sz, cave_offset := cave_offset c + sz,
                    cave_size := cave_size c - sz\<rparr>
         in (cave_address c, s\<lparr>s_cave_finder := Some (f\<lparr>caves := (caves f)[i := c']\<rparr>)\<rparr>)))"

definition e9_caves_list :: "E9BinPatchSession ptr \<Rightarrow> E9CodeCave list ptr" where
  "e9_caves_list sp = (case sp of
     None \<Rightarrow> None
   | Some s \<Rightarrow> map_option caves (s_cave_finder s))"

section \<open>Instruction sizes\<close>

definition x86_legacy_prefix :: "u8 \<Rightarrow> bool" where
  "x86_legacy_prefix b \<longleftrightarrow>
     b \<in> {0xF0, 0xF2, 0xF3, 0x2E, 0x36, 0x3E, 0x26, 0x64, 0x65, 0x66, 0x67}"

text \<open>\<open>code\<close> is the at most 15 bytes that may be read; the result is the position after the prefixes.\<close>

function skip_prefixes :: "bytes \<Rightarrow> nat \<Rightarrow> nat ub" where
  "skip_prefixes code pos =
     (if pos < length code then do {
        b \<leftarrow> rd8 code pos;
        if x86_legacy_prefix b then skip_prefixes code (pos + 1) else Some pos
      } else Some pos)"
  by pat_completeness auto
termination
  by (relation "measure (\<lambda>(code, pos). length code - pos)") auto

declare skip_prefixes.simps [simp del]

text \<open>ModRM, SIB and displacement, then the immediate.\<close>

definition size_tail :: "bytes \<Rightarrow> nat \<Rightarrow> bool \<Rightarrow> nat \<Rightarrow> nat ub" where
  "size_tail code pos has_modrm imm_size =
     (if has_modrm \<and> pos < length code then do {
        modrm \<leftarrow> rd8 code pos;
        let pos = pos + 1;
        let md = drop_bit 6 modrm AND 3;
        let rm = modrm AND 7;
        let pos = (if md \<noteq> 3 \<and> rm = 4 \<and> pos < length code then pos + 1 else pos);
        let pos = (if md = 0 \<and> rm = 5 then pos + 4 else if md = 1 then pos + 1
                   else if md = 2 then pos + 4 else pos);
        Some (pos + imm_size)
      } else Some (pos + imm_size))"

definition size_two_byte :: "bytes \<Rightarrow> nat \<Rightarrow> nat ub" where
  "size_two_byte code pos =
     (if length code \<le> pos then Some 0 else do {
        opcode \<leftarrow> rd8 code pos;
        let pos = pos + 1;
        if opcode = 0x38 \<or> opcode = 0x3A then
          if length code \<le> pos then Some 0
          else size_tail code (pos + 1) True (if opcode = 0x3A then 1 else 0)
        else if 0x80 \<le> opcode \<and> opcode \<le> 0x8F then size_tail code pos False 4
        else size_tail code pos True 0
      })"

definition x86_has_modrm :: "u8 \<Rightarrow> bool" where
  "x86_has_modrm opcode \<longleftrightarrow>
     opcode AND 0xC0 = 0x00 \<or> opcode AND 0xF8 = 0x80 \<or> opcode AND 0xF8 = 0x88 \<or> opcode AND 0xF8 = 0xF8 \<or>
     opcode = 0x63 \<or> opcode = 0x69 \<or> opcode = 0x6B \<or> opcode = 0x8D \<or> opcode = 0xC6 \<or> opcode = 0xC7"

definition x86_imm_size :: "u8 \<Rightarrow> nat" where
  "x86_imm_size opcode =
     (if opcode = 0x6A then 1
      else if opcode = 0x68 then 4
      else if opcode AND 0xF8 = 0xB0 then 1
      else if opcode AND 0xFE = 0x04 then 1 else 0)"

definition size_one_byte :: "bytes \<Rightarrow> nat \<Rightarrow> u8 \<Rightarrow> nat ub" where
  "size_one_byte code pos opcode =
     (if opcode AND 0xF8 = 0x50 then Some pos
      else if opcode AND 0xF8 = 0x58 then Some pos
      else if opcode AND 0xF8 = 0xB8 then Some (pos + 4)
      else if opcode AND 0xF0 = 0x70 then Some (pos + 1)
      else if opcode = 0xEB then Some (pos + 1)
      else if opcode = 0xE9 then Some (pos + 4)
      else if opcode = 0xE8 then Some (pos + 4)
      else if opcode = 0xC3 \<or> opcode = 0xCB then Some pos
      else if opcode = 0xC2 \<or> opcode = 0xCA then Some (pos + 2)
      else if opcode = 0x90 then Some pos
      else if opcode = 0xCC then Some pos
      else size_tail code pos (x86_has_modrm opcode) (x86_imm_size opcode))"

definition x86_insn_size :: "bytes \<Rightarrow> nat ub" where
  "x86_insn_size code = do {
     pos \<leftarrow> skip_prefixes code 0;
     rex \<leftarrow> (if pos < length code then map_option (\<lambda>b. b AND 0xF0 = 0x40) (rd8 code pos) else Some False);
     let pos = (if rex then pos + 1 else pos);
     if length code \<le> pos then Some 0 else do {
       opcode \<leftarrow> rd8 code pos;
       if opcode = 0x0F then size_two_byte code (pos + 1) else size_one_byte code (pos + 1) opcode
     }
   }"

definition e9_binpatch_insn_size_at :: "E9Binary ptr \<Rightarrow> u64 \<Rightarrow> nat ub" where
  "e9_binpatch_insn_size_at b addr = (case b of
     None \<Rightarrow> Some 0
   | Some bin \<Rightarrow>
       let offset = e9_binpatch_vaddr_to_offset b addr in
       if offset = 0 \<or> bin_size bin \<le> offset then Some 0
       else if bin_arch bin = E9_ARCH_AARCH64 then Some 4
       else x86_insn_size (take 15 (drop (unat offset) (bin_data bin))))"

section \<open>Recording patches\<close>

definition make_backup :: "E9Binary \<Rightarrow> E9BinPatch \<Rightarrow> E9BinPatch ub" where
  "make_backup bin p =
     (if p_flags p AND E9_BINPATCH_FLAG_BACKUP \<noteq> 0 then
        let backup_size = (if 0 < p_orig_size p then p_orig_size p else p_new_size p) in
        if 0 < backup_size \<and> p_offset p + backup_size \<le> bin_size bin then do {
          old \<leftarrow> rd_region (bin_data bin) (unat (p_offset p)) (unat backup_size);
          Some (p\<lparr>p_backup_bytes := Some old, p_backup_size := backup_size\<rparr>)
        } else Some p
      else Some p)"

definition add_patch :: "E9BinPatch \<Rightarrow> E9BinPatchSession \<Rightarrow> (int \<times> E9BinPatchSession) ub" where
  "add_patch p s =
     (let s = ensure_patch_capacity s;
          p = p\<lparr>p_id := int (length (s_patches s))\<rparr>;
          p = (if p_offset p = 0 \<and> p_address p \<noteq> 0
               then p\<lparr>p_offset := e9_binpatch_vaddr_to_offset (Some (s_bin s)) (p_address p)\<rparr> else p)
      in if p_offset p = 0 \<and> p_address p \<noteq> 0
         then Some (-1, bp_set_error (-1) (BP_NO_OFFSET (p_address p)) s)
         else do {
           p \<leftarrow> make_backup (s_bin s) p;
           Some (p_id p, s\<lparr>s_patches := s_patches s @ [p]\<rparr>)
         })"

text \<open>The test common to all operations that record a patch.\<close>

definition if_open :: "E9BinPatchSession \<Rightarrow> (int \<times> E9BinPatchSession) ub \<Rightarrow> (int \<times> E9BinPatchSession) ub" where
  "if_open s k = (if s_finalized s then Some (-1, bp_set_error (-1) BP_FINALIZED s) else k)"

definition e9_binpatch_bytes :: "u64 \<Rightarrow> bytes ptr \<Rightarrow> u32 \<Rightarrow> E9BinPatchSession \<Rightarrow> (int \<times> E9BinPatchSession) ub" where
  "e9_binpatch_bytes addr bp flags s = (case bp of
     None \<Rightarrow> Some (-1, s)
   | Some b \<Rightarrow> if length b = 0 then Some (-1, s)
       else if_open s (add_patch (zero_patch\<lparr>p_type := E9_BINPATCH_BYTES, p_flags := flags,
          p_address := addr, p_new_bytes := Some b, p_new_size := word_of_nat (length b),
          p_orig_size := word_of_nat (length b)\<rparr>) s))"

definition e9_binpatch_nop :: "u64 \<Rightarrow> u64 \<Rightarrow> u32 \<Rightarrow> E9BinPatchSession \<Rightarrow> (int \<times> E9BinPatchSession) ub" where
  "e9_binpatch_nop addr sz flags s =
     (if sz = 0 then Some (-1, s)
      else if_open s (add_patch (zero_patch\<lparr>p_type := E9_BINPATCH_NOP, p_flags := flags,
         p_address := addr, p_new_size := sz, p_orig_size := sz\<rparr>) s))"

definition e9_binpatch_insn :: "u64 \<Rightarrow> bytes ptr \<Rightarrow> u32 \<Rightarrow> E9BinPatchSession \<Rightarrow> (int \<times> E9BinPatchSession) ub" where
  "e9_binpatch_insn addr np flags s = (case np of
     None \<Rightarrow> Some (-1, s)
   | Some new \<Rightarrow> if length new = 0 then Some (-1, s)
       else if_open s (do {
         orig \<leftarrow> e9_binpatch_insn_size_at (Some (s_bin s)) addr;
         if orig = 0 then Some (-1, bp_set_error (-1) (BP_NO_INSN_SIZE addr) s)
         else add_patch (zero_patch\<lparr>p_type := (if orig < length new then E9_BINPATCH_TRAMPOLINE else E9_BINPATCH_INSN),
            p_flags := flags, p_address := addr, p_new_bytes := Some new,
            p_new_size := word_of_nat (length new), p_orig_size := word_of_nat orig\<rparr>) s
       }))"

definition branch_size :: "E9Arch \<Rightarrow> u64" where
  "branch_size arch = (if arch = E9_ARCH_AARCH64 then 4 else 5)"

definition e9_binpatch_call :: "u64 \<Rightarrow> u64 \<Rightarrow> u32 \<Rightarrow> E9BinPatchSession \<Rightarrow> (int \<times> E9BinPatchSession) ub" where
  "e9_binpatch_call addr target flags s =
     if_open s (add_patch (zero_patch\<lparr>p_type := E9_BINPATCH_CALL, p_flags := flags, p_address := addr,
        p_target_addr := target, p_orig_size := branch_size (bin_arch (s_bin s)),
        p_new_size := branch_size (bin_arch (s_bin s))\<rparr>) s)"

definition e9_binpatch_jmp :: "u64 \<Rightarrow> u64 \<Rightarrow> u32 \<Rightarrow> E9BinPatchSession \<Rightarrow> (int \<times> E9BinPatchSession) ub" where
  "e9_binpatch_jmp addr target flags s =
     if_open s (add_patch (zero_patch\<lparr>p_type := E9_BINPATCH_JMP, p_flags := flags, p_address := addr,
        p_target_addr := target, p_orig_size := branch_size (bin_arch (s_bin s)),
        p_new_size := branch_size (bin_arch (s_bin s))\<rparr>) s)"

definition e9_binpatch_hook :: "u64 \<Rightarrow> bytes ptr \<Rightarrow> u32 \<Rightarrow> E9BinPatchSession \<Rightarrow> (int \<times> E9BinPatchSession) ub" where
  "e9_binpatch_hook addr hp flags s = (case hp of
     None \<Rightarrow> Some (-1, s)
   | Some hook \<Rightarrow> if length hook = 0 then Some (-1, s)
       else if_open s (do {
         orig \<leftarrow> e9_binpatch_insn_size_at (Some (s_bin s)) addr;
         add_patch (zero_patch\<lparr>p_type := E9_BINPATCH_HOOK, p_flags := flags, p_address := addr,
            p_hook_code := Some hook, p_hook_code_size := word_of_nat (length hook),
            p_orig_size := word_of_nat orig\<rparr>) s
       }))"

text \<open>The third component is the value stored through \<open>orig_func_ptr\<close>, if one is stored.\<close>

definition e9_binpatch_detour ::
  "u64 \<Rightarrow> bytes ptr \<Rightarrow> bool \<Rightarrow> u32 \<Rightarrow> E9BinPatchSession \<Rightarrow> (int \<times> E9BinPatchSession \<times> u64 option) ub" where
  "e9_binpatch_detour addr fp has_orig flags s = (case fp of
     None \<Rightarrow> Some (-1, s, None)
   | Some func \<Rightarrow> if length func = 0 then Some (-1, s, None)
       else do {
         (i, s') \<leftarrow> if_open s (add_patch (zero_patch\<lparr>p_type := E9_BINPATCH_DETOUR, p_flags := flags,
            p_address := addr, p_hook_code := Some func,
            p_hook_code_size := word_of_nat (length func)\<rparr>) s);
         Some (i, s', if 0 \<le> i \<and> has_orig then Some 0 else None)
       })"

section \<open>Applying\<close>

definition patches_overlap :: "E9BinPatch \<Rightarrow> E9BinPatch \<Rightarrow> bool" where
  "patches_overlap p1 p2 \<longleftrightarrow>
     p_offset p1 < p_offset p2 + p_orig_size p2 \<and> p_offset p2 < p_offset p1 + p_orig_size p1"

fun first_overlap :: "E9BinPatch list \<Rightarrow> (E9BinPatch \<times> E9BinPatch) option" where
  "first_overlap [] = None"
| "first_overlap (p # ps) = (case find (patches_overlap p) ps of
     Some q \<Rightarrow> Some (p, q)
   | None \<Rightarrow> first_overlap ps)"

definition e9_binpatch_validate :: "E9BinPatchSession \<Rightarrow> int \<times> E9BinPatchSession" where
  "e9_binpatch_validate s = (case first_overlap (s_patches s) of
     None \<Rightarrow> (0, s)
   | Some (p, q) \<Rightarrow> (-1, bp_set_error (-1) (BP_OVERLAP (p_address p) (p_address q)) s))"

definition out_write :: "nat \<Rightarrow> bytes \<Rightarrow> E9BinPatchSession \<Rightarrow> E9BinPatchSession ub" where
  "out_write off b s = map_option (\<lambda>out. s\<lparr>s_output := out\<rparr>) (memcpy_to (s_output s) off b)"

definition out_nops :: "nat \<Rightarrow> nat \<Rightarrow> E9BinPatchSession \<Rightarrow> E9BinPatchSession ub" where
  "out_nops off n s =
     map_option (\<lambda>out. s\<lparr>s_output := out\<rparr>) (e9_binpatch_gen_nops (bin_arch (s_bin s)) (s_output s) off n)"

text \<open>\<open>memcpy(dest, src, n)\<close> from a pointer; nothing is read when \<open>n\<close> is 0.\<close>

definition src_bytes :: "bytes ptr \<Rightarrow> nat \<Rightarrow> bytes ub" where
  "src_bytes sp n = (if n = 0 then Some [] else case sp of None \<Rightarrow> None | Some b \<Rightarrow> rd_region b 0 n)"

text \<open>Write \<open>code\<close> at \<open>off\<close> and fill up to \<open>orig\<close> bytes with NOPs.\<close>

definition write_filled :: "nat \<Rightarrow> bytes \<Rightarrow> nat \<Rightarrow> E9BinPatchSession \<Rightarrow> E9BinPatchSession ub" where
  "write_filled off code orig s = do {
     s \<leftarrow> out_write off code s;
     if length code < orig then out_nops (off + length code) (orig - length code) s else Some s
   }"

definition apply_branch ::
  "bytes \<Rightarrow> bp_error \<Rightarrow> E9BinPatch \<Rightarrow> E9BinPatchSession \<Rightarrow> (int \<times> E9BinPatchSession) ub" where
  "apply_branch code err p s =
     (if unat (p_orig_size p) < length code then Some (-1, bp_set_error (-1) err s)
      else map_option (\<lambda>s. (0, s)) (write_filled (unat (p_offset p)) code (unat (p_orig_size p)) s))"

text \<open>
  The cases \<open>TRAMPOLINE\<close>, \<open>HOOK\<close> and \<open>DETOUR\<close>: first what is written once a cave has been
  allocated, then the whole case.
\<close>

definition cave_install :: "E9BinPatch \<Rightarrow> u64 \<Rightarrow> E9BinPatchSession \<Rightarrow> (int \<times> E9BinPatchSession) ub" where
  "cave_install p cave_addr s =
     (let arch = bin_arch (s_bin s);
          cave_off = e9_binpatch_vaddr_to_offset (Some (s_bin s)) cave_addr in
       if 0 < cave_off \<and> cave_off + p_hook_code_size p \<le> s_output_size s then do {
         hook \<leftarrow> src_bytes (p_hook_code p) (unat (p_hook_code_size p));
         s \<leftarrow> out_write (unat cave_off) hook s;
         s \<leftarrow> (if p_type p = E9_BINPATCH_HOOK
               then out_write (unat cave_off + unat (p_hook_code_size p))
                      (e9_binpatch_gen_jmp arch (cave_addr + p_hook_code_size p) (p_address p + p_orig_size p)) s
               else Some s);
         let jmp = e9_binpatch_gen_jmp arch (p_address p) cave_addr;
         if length jmp \<le> unat (p_orig_size p) \<or> p_orig_size p = 0 then do {
           s \<leftarrow> write_filled (unat (p_offset p)) jmp
                 (if 0 < p_orig_size p then unat (p_orig_size p) else length jmp) s;
           Some (0, s)
         } else Some (0, s)
       } else Some (0, s))"

definition apply_cave :: "E9BinPatch \<Rightarrow> E9BinPatchSession \<Rightarrow> (int \<times> E9BinPatchSession) ub" where
  "apply_cave p s = do {
     (_, s) \<leftarrow> (if s_cave_finder s = None then e9_caves_find 16 s else Some (0, s));
     let (cave_addr, s) = e9_caves_alloc (p_hook_code_size p + 32) s;
     if cave_addr = 0 then Some (-1, bp_set_error (-1) (BP_NO_CAVE (p_address p)) s)
     else cave_install p cave_addr s
   }"

definition apply_one :: "E9BinPatch \<Rightarrow> E9BinPatchSession \<Rightarrow> (int \<times> E9BinPatchSession) ub" where
  "apply_one p s =
     (if s_output_capacity s < p_offset p + p_new_size p
      then Some (-1, bp_set_error (-1) (BP_EXCEEDS (p_address p)) s)
      else let arch = bin_arch (s_bin s) in (case p_type p of
        E9_BINPATCH_BYTES \<Rightarrow> do {
          b \<leftarrow> src_bytes (p_new_bytes p) (unat (p_new_size p));
          map_option (\<lambda>s. (0, s)) (out_write (unat (p_offset p)) b s)
        }
      | E9_BINPATCH_NOP \<Rightarrow> map_option (\<lambda>s. (0, s)) (out_nops (unat (p_offset p)) (unat (p_new_size p)) s)
      | E9_BINPATCH_INSN \<Rightarrow> do {
          b \<leftarrow> src_bytes (p_new_bytes p) (unat (p_new_size p));
          map_option (\<lambda>s. (0, s)) (write_filled (unat (p_offset p)) b (unat (p_orig_size p)) s)
        }
      | E9_BINPATCH_CALL \<Rightarrow>
          apply_branch (e9_binpatch_gen_call arch (p_address p) (p_target_addr p)) (BP_CALL_TOO_LARGE (p_address p)) p s
      | E9_BINPATCH_JMP \<Rightarrow>
          apply_branch (e9_binpatch_gen_jmp arch (p_address p) (p_target_addr p)) (BP_JUMP_TOO_LARGE (p_address p)) p s
      | _ \<Rightarrow> apply_cave p s))"

fun apply_loop :: "E9BinPatch list \<Rightarrow> E9BinPatchSession \<Rightarrow> (int \<times> E9BinPatchSession) ub" where
  "apply_loop [] s = Some (0, s)"
| "apply_loop (p # ps) s = do {
     (r, s) \<leftarrow> apply_one p s;
     if r < 0 then Some (-1, s) else apply_loop ps s
   }"

definition e9_binpatch_apply :: "E9BinPatchSession \<Rightarrow> (int \<times> E9BinPatchSession) ub" where
  "e9_binpatch_apply s =
     (if s_finalized s then Some (0, s)
      else case e9_binpatch_validate s of (v, s) \<Rightarrow>
        if v < 0 then Some (-1, s)
        else do {
          (r, s) \<leftarrow> apply_loop (s_patches s) s;
          if r < 0 then Some (-1, s) else Some (0, s\<lparr>s_finalized := True\<rparr>)
        })"

text \<open>
  \<open>io\<close> stands for the file: \<open>None\<close> when \<open>fopen\<close> fails, otherwise the number of bytes that
  \<open>fwrite\<close> accepts.  The third component is what was written.
\<close>

definition e9_binpatch_write ::
  "string ptr \<Rightarrow> (bytes \<Rightarrow> nat) option \<Rightarrow> E9BinPatchSession \<Rightarrow> (int \<times> E9BinPatchSession \<times> bytes) ub" where
  "e9_binpatch_write path io s = (case path of
     None \<Rightarrow> Some (-1, s, [])
   | Some file \<Rightarrow> do {
       (r, s) \<leftarrow> (if s_finalized s then Some (0, s) else e9_binpatch_apply s);
       if r < 0 then Some (-1, s, [])
       else case io of
         None \<Rightarrow> Some (-1, bp_set_error (-1) (BP_CANNOT_OPEN file) s, [])
       | Some fwrite \<Rightarrow> do {
           image \<leftarrow> rd_region (s_output s) 0 (unat (s_output_size s));
           let written = fwrite image;
           if written \<noteq> unat (s_output_size s)
           then Some (-1, bp_set_error (-1) (BP_WRITE_ERROR written (s_output_size s)) s, take written image)
           else Some (0, s, image)
         }
     })"

definition e9_binpatch_get_output :: "E9BinPatchSession \<Rightarrow> ((bytes ptr \<times> u64) \<times> E9BinPatchSession) ub" where
  "e9_binpatch_get_output s = do {
     (r, s) \<leftarrow> (if s_finalized s then Some (0, s) else e9_binpatch_apply s);
     if r < 0 then Some ((None, 0), s) else Some ((Some (s_output s), s_output_size s), s)
   }"

fun verify_loop :: "E9BinPatch list \<Rightarrow> E9BinPatchSession \<Rightarrow> (int \<times> E9BinPatchSession) ub" where
  "verify_loop [] s = Some (0, s)"
| "verify_loop (p # ps) s =
     (if p_flags p AND E9_BINPATCH_FLAG_VERIFY = 0 then verify_loop ps s
      else case p_new_bytes p of
        Some b \<Rightarrow>
          if p_type p = E9_BINPATCH_BYTES then do {
            x \<leftarrow> rd_region (s_output s) (unat (p_offset p)) (unat (p_new_size p));
            y \<leftarrow> rd_region b 0 (unat (p_new_size p));
            if x \<noteq> y then Some (-1, bp_set_error (-1) (BP_VERIFY_FAILED (p_address p)) s)
            else verify_loop ps s
          } else verify_loop ps s
      | None \<Rightarrow> verify_loop ps s)"

definition e9_binpatch_verify :: "E9BinPatchSession \<Rightarrow> (int \<times> E9BinPatchSession) ub" where
  "e9_binpatch_verify s =
     (if \<not> s_finalized s then Some (-1, s) else verify_loop (s_patches s) s)"

section \<open>Undoing\<close>

definition e9_binpatch_revert :: "int \<Rightarrow> E9BinPatchSession \<Rightarrow> (int \<times> E9BinPatchSession) ub" where
  "e9_binpatch_revert patch_id s =
     (if patch_id < 0 \<or> int (length (s_patches s)) \<le> patch_id then Some (-1, s)
      else let p = s_patches s ! nat patch_id in
        case p_backup_bytes p of
          None \<Rightarrow> Some (-1, bp_set_error (-1) (BP_NO_BACKUP patch_id) s)
        | Some old \<Rightarrow>
            if p_backup_size p = 0 then Some (-1, bp_set_error (-1) (BP_NO_BACKUP patch_id) s)
            else do {
              b \<leftarrow> rd_region old 0 (unat (p_backup_size p));
              s \<leftarrow> out_write (unat (p_offset p)) b s;
              Some (0, s)
            })"

definition e9_binpatch_revert_all :: "E9BinPatchSession \<Rightarrow> (int \<times> E9BinPatchSession) ub" where
  "e9_binpatch_revert_all s = do {
     s' \<leftarrow> out_write 0 (bin_data (s_bin s)) s;
     Some (0, s'\<lparr>s_output_size := bin_size (s_bin s), s_finalized := False\<rparr>)
   }"

section \<open>What the generated branches do\<close>

text \<open>
  The destination of a branch sequence placed at \<open>from\<close>, as the processor computes it, for the
  encodings that the generators may use.  On x86-64: \<open>E8\<close>/\<open>E9 rel32\<close>, \<open>FF 25\<close> with the literal
  behind the instruction, and \<open>mov rax, imm64; call rax\<close>.
\<close>

definition x86_dest :: "u64 \<Rightarrow> bytes \<Rightarrow> u64 option" where
  "x86_dest from code =
     (if code \<noteq> [] \<and> (hd code = 0xE9 \<or> hd code = 0xE8)
      then map_option (\<lambda>rel. from + 5 + scast rel) (rd32 code 1)
      else if take 6 code = [0xFF, 0x25, 0, 0, 0, 0] then rd64 code 6
      else if take 2 code = [0x48, 0xB8] \<and> drop 10 code = [0xFF, 0xD0] then rd64 code 2
      else None)"

text \<open>
  On AArch64: \<open>B\<close>/\<open>BL\<close> with a signed 26-bit word offset, and \<open>LDR X16, literal\<close> followed by
  \<open>BR X16\<close> or \<open>BLR X16\<close>, where the literal lies \<open>4 * imm19\<close> bytes from the load.
\<close>

definition a64_dest :: "u64 \<Rightarrow> bytes \<Rightarrow> u64 option" where
  "a64_dest from code = do {
     insn \<leftarrow> rd32 code 0;
     if insn AND 0x7C000000 = 0x14000000
     then Some (from + word_of_int (4 * signed_take_bit 25 (uint (insn AND 0x03FFFFFF))))
     else if insn AND 0xFF80001F = 0x58000010 then do {
       br \<leftarrow> rd32 code 4;
       if br = 0xD61F0200 \<or> br = 0xD63F0200
       then rd64 code (4 * unat (drop_bit 5 insn AND 0x3FFFF)) else None
     } else None
   }"

lemma length_le32 [simp]: "length (le32 w) = 4" and length_le64 [simp]: "length (le64 v) = 8"
  by (simp_all add: le32_def le64_def)

lemma rd32_le32: "rd32 (pre @ le32 w @ post) (length pre) = Some w"
  by (rule rd32_le_bytes) (simp add: rd_region_def le32_def)

lemma rd64_le64: "n = length pre \<Longrightarrow> rd64 (pre @ le64 w @ post) n = Some w"
  by (rule rd64_le_bytes) (simp add: rd_region_def le64_def)

lemma scast_word_of_int:
  assumes "- (2 ^ 31) \<le> x" and "x \<le> 2 ^ 31 - 1"
  shows "(scast (word_of_int x :: u32) :: u64) = word_of_int x"
proof -
  have "sint (word_of_int x :: u32) = x"
    using assms by (simp add: signed_of_int signed_take_bit_int_eq_self)
  then show ?thesis by (simp add: scast_eq)
qed

lemma x86_near_target:
  fixes src dst :: u64
  assumes "- (2 ^ 31) \<le> sint (dst - (src + 5))" and "sint (dst - (src + 5)) \<le> 2 ^ 31 - 1"
  shows "src + 5 + scast (word_of_int (sint (dst - (src + 5))) :: u32) = dst"
proof -
  have "(scast (word_of_int (sint (dst - (src + 5))) :: u32) :: u64) = word_of_int (sint (dst - (src + 5)))"
    by (rule scast_word_of_int [OF assms])
  also have "\<dots> = dst - (src + 5)" by simp
  finally show ?thesis by (simp only: diff_add_cancel add.commute [of "src + 5"])
qed

lemma a64_branch_dest:
  assumes opc: "opcode = 0x14000000 \<or> opcode = 0x94000000"
    and rng: "- (128 * 1024 * 1024) \<le> offset" "offset < 128 * 1024 * 1024" and al: "offset mod 4 = 0"
  shows "a64_dest src (a64_branch opcode offset) = Some (src + word_of_int offset)"
proof -
  define q where "q = offset div 4"
  have off: "offset = 4 * q" using al by (metis add.right_neutral mult_div_mod_eq q_def)
  have "- (4 * q) div 4 = - q" by (metis mult_minus_right nonzero_mult_div_cancel_left zero_neq_numeral)
  then have cd: "c_div offset 4 = q" by (simp add: c_div_def off)
  have q: "- (2 ^ 25) \<le> q" "q < 2 ^ 25" using rng off by simp_all
  define insn :: u32 where "insn = opcode OR (word_of_int q AND 0x03FFFFFF)"
  have m: "insn AND 0x7C000000 = 0x14000000"
    using opc by (auto simp: insn_def bit.conj_disj_distrib2 and.assoc)
  have low: "insn AND 0x03FFFFFF = word_of_int q AND mask 26"
    using opc by (auto simp: insn_def bit.conj_disj_distrib2 and.assoc mask_eq_exp_minus_1)
  have "uint (insn AND 0x03FFFFFF) = take_bit 26 q"
    unfolding low by (simp add: take_bit_eq_mask [symmetric] unsigned_take_bit_eq uint_word_of_int_eq take_bit_take_bit)
  then have s: "signed_take_bit 25 (uint (insn AND 0x03FFFFFF)) = q"
    using q by (simp add: signed_take_bit_take_bit signed_take_bit_int_eq_self)
  have "rd32 (a64_branch opcode offset) 0 = Some insn"
    using rd32_le32 [of "[]" insn "[]"] by (simp add: a64_branch_def cd insn_def)
  then show ?thesis by (simp add: a64_dest_def m s off)
qed

section \<open>NOP filling\<close>

lemma nop_seq_length: "1 \<le> k \<Longrightarrow> k \<le> 9 \<Longrightarrow> length (nop_seqs ! (k - 1)) = k"
proof -
  assume "1 \<le> k" "k \<le> 9"
  then have "k \<in> {1, 2, 3, 4, 5, 6, 7, 8, 9}" by auto
  then show ?thesis by (auto simp: nop_seqs_def)
qed

lemma x86_nops_split:
  "\<exists>ks. sum_list ks = n \<and> (\<forall>k \<in> set ks. 1 \<le> k \<and> k \<le> 9) \<and>
     x86_nops n = concat (map (\<lambda>k. nop_seqs ! (k - 1)) ks)"
proof (induction n rule: x86_nops.induct)
  case (1 n)
  show ?case
  proof (cases "0 < n")
    case False
    then show ?thesis by (intro exI [of _ "[]"]) (simp add: x86_nops.simps)
  next
    case True
    define k where "k = (if 9 < n then 9 else n)"
    with 1 [OF True k_def] obtain ks where ks: "sum_list ks = n - k" "\<forall>k \<in> set ks. 1 \<le> k \<and> k \<le> 9"
      "x86_nops (n - k) = concat (map (\<lambda>k. nop_seqs ! (k - 1)) ks)" by blast
    have "x86_nops n = nop_seqs ! (k - 1) @ x86_nops (n - k)"
      using True by (subst x86_nops.simps) (simp add: k_def Let_def)
    with ks True show ?thesis by (intro exI [of _ "k # ks"]) (auto simp: k_def)
  qed
qed

lemma length_x86_nops [simp]: "length (x86_nops n) = n"
proof -
  from x86_nops_split obtain ks where ks: "sum_list ks = n" "\<forall>k \<in> set ks. 1 \<le> k \<and> k \<le> 9"
    "x86_nops n = concat (map (\<lambda>k. nop_seqs ! (k - 1)) ks)" by blast
  have "map (length \<circ> (\<lambda>k. nop_seqs ! (k - 1))) ks = map id ks"
    using ks(2) nop_seq_length by (intro map_cong refl) simp
  then show ?thesis using ks by (simp add: length_concat)
qed

lemma length_a64_nops [simp]: "length (a64_nops n) = 4 * (n div 4)"
  by (simp add: a64_nops_def length_concat sum_list_replicate)

lemma length_nop_bytes: "length (nop_bytes arch n) \<le> n"
  by (simp add: nop_bytes_def)

lemma length_nop_bytes_x86: "arch \<noteq> E9_ARCH_AARCH64 \<Longrightarrow> length (nop_bytes arch n) = n"
  by (simp add: nop_bytes_def)

section \<open>Patches applied in place\<close>

definition inplace :: "E9BinPatch \<Rightarrow> bool" where
  "inplace p \<longleftrightarrow> p_type p \<in> {E9_BINPATCH_BYTES, E9_BINPATCH_NOP, E9_BINPATCH_INSN, E9_BINPATCH_CALL, E9_BINPATCH_JMP}"

definition fill :: "E9Arch \<Rightarrow> bytes \<Rightarrow> nat \<Rightarrow> bytes" where
  "fill arch code orig = code @ nop_bytes arch (orig - length code)"

text \<open>The bytes that the patch is meant to put at its offset; \<open>None\<close> when a branch does not fit.\<close>

definition patch_image :: "E9Arch \<Rightarrow> E9BinPatch \<Rightarrow> bytes option" where
  "patch_image arch p =
     (let orig = unat (p_orig_size p);
          fit = (\<lambda>code. if length code \<le> orig then Some (fill arch code orig) else None)
      in case p_type p of
           E9_BINPATCH_BYTES \<Rightarrow> p_new_bytes p
         | E9_BINPATCH_NOP \<Rightarrow> Some (nop_bytes arch orig)
         | E9_BINPATCH_INSN \<Rightarrow> Option.bind (p_new_bytes p) fit
         | E9_BINPATCH_CALL \<Rightarrow> fit (e9_binpatch_gen_call arch (p_address p) (p_target_addr p))
         | E9_BINPATCH_JMP \<Rightarrow> fit (e9_binpatch_gen_jmp arch (p_address p) (p_target_addr p))
         | _ \<Rightarrow> None)"

text \<open>How the recording operations fill in the sizes.\<close>

definition sized :: "E9BinPatch \<Rightarrow> bool" where
  "sized p \<longleftrightarrow> (case p_type p of
       E9_BINPATCH_BYTES \<Rightarrow> map_option length (p_new_bytes p) = Some (unat (p_new_size p)) \<and>
         p_orig_size p = p_new_size p \<and> 0 < p_new_size p
     | E9_BINPATCH_NOP \<Rightarrow> p_orig_size p = p_new_size p \<and> 0 < p_new_size p
     | E9_BINPATCH_INSN \<Rightarrow> map_option length (p_new_bytes p) = Some (unat (p_new_size p)) \<and>
         p_new_size p \<le> p_orig_size p \<and> 0 < p_new_size p
     | E9_BINPATCH_CALL \<Rightarrow> p_orig_size p = p_new_size p \<and> 0 < p_new_size p
     | E9_BINPATCH_JMP \<Rightarrow> p_orig_size p = p_new_size p \<and> 0 < p_new_size p
     | _ \<Rightarrow> True)"

lemma memcpy_to_append:
  "memcpy_to d off (a @ b) = Option.bind (memcpy_to d off a) (\<lambda>d. memcpy_to d (off + length a) b)"
  by (auto simp: memcpy_to_def ac_simps)

lemma memcpy_to_Nil: "off \<le> length d \<Longrightarrow> memcpy_to d off [] = Some d"
  by (simp add: memcpy_to_def)

lemma length_fill: "length code \<le> orig \<Longrightarrow> length (fill arch code orig) \<le> orig"
  using length_nop_bytes [of arch "orig - length code"] by (simp add: fill_def)

lemma length_patch_image:
  assumes "sized p" and "patch_image arch p = Some img"
  shows "length img \<le> unat (p_orig_size p)"
proof (cases "p_type p")
  case E9_BINPATCH_BYTES
  with assms show ?thesis by (auto simp: patch_image_def sized_def)
next
  case E9_BINPATCH_NOP
  with assms length_nop_bytes show ?thesis by (auto simp: patch_image_def sized_def)
qed (use assms length_fill in \<open>auto simp: patch_image_def Let_def Option.bind_eq_Some_conv split: if_splits\<close>)

lemma write_filled_eq:
  assumes "length code \<le> orig" and "off + orig \<le> length (s_output s)"
  shows "write_filled off code orig s =
    map_option (\<lambda>out. s\<lparr>s_output := out\<rparr>) (memcpy_to (s_output s) off (fill (bin_arch (s_bin s)) code orig))"
proof -
  have "off + length code \<le> length (s_output s)" using assms by simp
  then obtain d1 where d1: "memcpy_to (s_output s) off code = Some d1"
    using memcpy_to_defined by blast
  show ?thesis
  proof (cases "length code < orig")
    case True
    with d1 show ?thesis
      by (simp add: write_filled_def out_write_def out_nops_def e9_binpatch_gen_nops_def fill_def
          memcpy_to_append option.map_comp o_def)
  next
    case False
    with assms(1) have "nop_bytes (bin_arch (s_bin s)) (orig - length code) = []"
      using length_nop_bytes [of "bin_arch (s_bin s)" 0] by simp
    with False d1 show ?thesis by (simp add: write_filled_def out_write_def fill_def)
  qed
qed

text \<open>A patch fits into the output without wrap-around.\<close>

definition in_output :: "E9BinPatchSession \<Rightarrow> E9BinPatch \<Rightarrow> bool" where
  "in_output s p \<longleftrightarrow> unat (p_offset p) + unat (p_orig_size p) \<le> length (s_output s)"

definition out_ok :: "E9BinPatchSession \<Rightarrow> bool" where
  "out_ok s \<longleftrightarrow> length (s_output s) = unat (s_output_capacity s)"

lemma capacity_check:
  assumes "out_ok s" and "in_output s p" and "p_new_size p \<le> p_orig_size p"
  shows "\<not> s_output_capacity s < p_offset p + p_new_size p"
proof -
  have n: "unat (p_new_size p) \<le> unat (p_orig_size p)" using assms(3) by (simp add: word_le_nat_alt)
  then have le: "unat (p_offset p) + unat (p_new_size p) \<le> unat (s_output_capacity s)"
    using assms(1,2) by (simp add: out_ok_def in_output_def)
  then have "unat (p_offset p) + unat (p_new_size p) < 2 ^ LENGTH(64)"
    using unat_u64_less [of "s_output_capacity s"] by simp
  from unat_add_small [OF this] le show ?thesis by (simp add: word_less_nat_alt)
qed

lemma apply_one_inplace:
  assumes out: "out_ok s" and p: "inplace p" "sized p" "in_output s p"
    and img: "patch_image (bin_arch (s_bin s)) p = Some img"
  shows "apply_one p s =
    map_option (\<lambda>out. (0, s\<lparr>s_output := out\<rparr>)) (memcpy_to (s_output s) (unat (p_offset p)) img)"
proof -
  have le: "p_new_size p \<le> p_orig_size p"
    using p(1,2) by (auto simp: inplace_def sized_def)
  have chk: "\<not> s_output_capacity s < p_offset p + p_new_size p" by (rule capacity_check [OF out p(3) le])
  have room: "unat (p_offset p) + unat (p_orig_size p) \<le> length (s_output s)" using p(3) by (simp add: in_output_def)
  have w: "write_filled (unat (p_offset p)) code (unat (p_orig_size p)) s =
      map_option (\<lambda>out. s\<lparr>s_output := out\<rparr>)
        (memcpy_to (s_output s) (unat (p_offset p)) (fill (bin_arch (s_bin s)) code (unat (p_orig_size p))))"
    if "length code \<le> unat (p_orig_size p)" for code
    by (rule write_filled_eq [OF that room])
  have pos: "unat (p_new_size p) \<noteq> 0" if "0 < p_new_size p" using that by (simp add: word_less_nat_alt)
  have src: "src_bytes (Some b) (unat (p_new_size p)) = Some b" if "length b = unat (p_new_size p)" for b
    using that by (auto simp: src_bytes_def rd_region_def)
  note def = apply_one_def Let_def chk patch_image_def sized_def option.map_comp o_def
  consider "p_type p = E9_BINPATCH_BYTES" | "p_type p = E9_BINPATCH_NOP" | "p_type p = E9_BINPATCH_INSN"
    | "p_type p = E9_BINPATCH_CALL" | "p_type p = E9_BINPATCH_JMP" using p(1) by (auto simp: inplace_def)
  then show ?thesis
  proof cases
    case 1
    then show ?thesis using img p(2) src by (auto simp: def out_write_def)
  next
    case 2
    then show ?thesis using img p(2) pos by (auto simp: def out_nops_def e9_binpatch_gen_nops_def)
  next
    case 3
    then show ?thesis using img p(2) src w by (auto simp: def word_le_nat_alt split: if_splits)
  next
    case 4
    then show ?thesis using img w by (auto simp: def apply_branch_def split: if_splits)
  next
    case 5
    then show ?thesis using img w by (auto simp: def apply_branch_def split: if_splits)
  qed
qed

section \<open>Validation\<close>

definition no_wrap :: "E9BinPatch \<Rightarrow> bool" where
  "no_wrap p \<longleftrightarrow> unat (p_offset p) + unat (p_orig_size p) < 2 ^ 64"

lemma patches_overlap_iff:
  assumes "no_wrap p" and "no_wrap q"
  shows "patches_overlap p q \<longleftrightarrow>
    unat (p_offset p) < unat (p_offset q) + unat (p_orig_size q) \<and>
    unat (p_offset q) < unat (p_offset p) + unat (p_orig_size p)"
proof -
  have "unat (p_offset x + p_orig_size x) = unat (p_offset x) + unat (p_orig_size x)" if "no_wrap x" for x
    using that by (intro unat_add_small) (simp add: no_wrap_def)
  with assms show ?thesis by (simp add: patches_overlap_def word_less_nat_alt)
qed

lemma first_overlap_None:
  "first_overlap ps = None \<longleftrightarrow> (\<forall>i j. i < j \<longrightarrow> j < length ps \<longrightarrow> \<not> patches_overlap (ps ! i) (ps ! j))"
proof (induction ps)
  case Nil
  then show ?case by simp
next
  case (Cons p ps)
  have head: "find (patches_overlap p) ps = None \<longleftrightarrow> (\<forall>j < length ps. \<not> patches_overlap p (ps ! j))"
    by (auto simp: find_None_iff in_set_conv_nth)
  have "(\<forall>i j. i < j \<longrightarrow> j < length (p # ps) \<longrightarrow> \<not> patches_overlap ((p # ps) ! i) ((p # ps) ! j)) \<longleftrightarrow>
      (\<forall>j < length ps. \<not> patches_overlap p (ps ! j)) \<and>
      (\<forall>i j. i < j \<longrightarrow> j < length ps \<longrightarrow> \<not> patches_overlap (ps ! i) (ps ! j))"
    (is "?L \<longleftrightarrow> ?R")
  proof
    assume L: ?L
    have "\<not> patches_overlap p (ps ! j)" if "j < length ps" for j
      using L [rule_format, of 0 "Suc j"] that by simp
    moreover have "\<not> patches_overlap (ps ! i) (ps ! j)" if "i < j" "j < length ps" for i j
      using L [rule_format, of "Suc i" "Suc j"] that by simp
    ultimately show ?R by blast
  next
    assume R: ?R
    show ?L
    proof (intro allI impI)
      fix i j assume "i < j" "j < length (p # ps)"
      then show "\<not> patches_overlap ((p # ps) ! i) ((p # ps) ! j)"
        using R by (cases i; cases j) auto
    qed
  qed
  with Cons head show ?case by (auto split: option.splits)
qed

definition regions :: "E9Arch \<Rightarrow> E9BinPatch list \<Rightarrow> patch_region list" where
  "regions arch ps = map (\<lambda>p. (unat (p_offset p), the (patch_image arch p))) ps"

definition ready :: "E9BinPatchSession \<Rightarrow> E9BinPatch \<Rightarrow> bool" where
  "ready s p \<longleftrightarrow> inplace p \<and> sized p \<and> in_output s p \<and> patch_image (bin_arch (s_bin s)) p \<noteq> None"

lemma ready_no_wrap: "out_ok s \<Longrightarrow> ready s p \<Longrightarrow> no_wrap p"
  using unat_u64_less [of "s_output_capacity s"] by (simp add: ready_def in_output_def out_ok_def no_wrap_def)

lemma regions_all_apart:
  assumes "out_ok s" and "\<forall>p \<in> set ps. ready s p" and "first_overlap ps = None"
  shows "all_apart (regions (bin_arch (s_bin s)) ps)"
  using assms(2,3)
proof (induction ps)
  case Nil
  then show ?case by (simp add: regions_def)
next
  case (Cons p ps)
  have ov: "\<not> patches_overlap p q" if "q \<in> set ps" for q
    using Cons.prems(2) that by (auto simp: find_None_iff split: option.splits)
  have "regions_apart (unat (p_offset p)) (length (the (patch_image (bin_arch (s_bin s)) p)))
      (unat (p_offset q)) (length (the (patch_image (bin_arch (s_bin s)) q)))" if q: "q \<in> set ps" for q
  proof -
    from Cons.prems(1) q have r: "ready s p" "ready s q" by auto
    have len: "length (the (patch_image (bin_arch (s_bin s)) x)) \<le> unat (p_orig_size x)" if "ready s x" for x
      using that length_patch_image by (auto simp: ready_def)
    show ?thesis
      using ov [OF q] patches_overlap_iff [OF ready_no_wrap ready_no_wrap, OF assms(1) r(1) assms(1) r(2)]
        len [OF r(1)] len [OF r(2)] by (auto simp: regions_apart_def)
  qed
  moreover have "all_apart (regions (bin_arch (s_bin s)) ps)"
    using Cons by (auto split: option.splits)
  ultimately show ?case by (auto simp: regions_def)
qed

section \<open>Applying a session of in-place patches\<close>

lemma apply_loop_inplace:
  assumes "out_ok s" and "\<forall>p \<in> set ps. ready s p"
  shows "\<exists>out. wr_list memcpy_to (s_output s) (regions (bin_arch (s_bin s)) ps) = Some out \<and>
    apply_loop ps s = Some (0, s\<lparr>s_output := out\<rparr>)"
  using assms
proof (induction ps arbitrary: s)
  case Nil
  then show ?case by (simp add: regions_def)
next
  case (Cons p ps)
  then have p: "inplace p" "sized p" "in_output s p" and "\<exists>img. patch_image (bin_arch (s_bin s)) p = Some img"
    by (auto simp: ready_def)
  then obtain img where img: "patch_image (bin_arch (s_bin s)) p = Some img" by blast
  have "unat (p_offset p) + length img \<le> length (s_output s)"
    using length_patch_image [OF p(2) img] p(3) by (simp add: in_output_def)
  then obtain d1 where d1: "memcpy_to (s_output s) (unat (p_offset p)) img = Some d1" "length d1 = length (s_output s)"
    using memcpy_to_defined length_memcpy_to by blast
  have one: "apply_one p s = Some (0, s\<lparr>s_output := d1\<rparr>)"
    using apply_one_inplace [OF Cons.prems(1) p img] d1(1) by simp
  have "out_ok (s\<lparr>s_output := d1\<rparr>)" "\<forall>q \<in> set ps. ready (s\<lparr>s_output := d1\<rparr>) q"
    using Cons.prems d1(2) by (auto simp: out_ok_def ready_def in_output_def)
  from Cons.IH [OF this] one d1(1) img show ?case by (auto simp: regions_def)
qed

lemma apply_inplace:
  assumes "out_ok s" and "\<not> s_finalized s" and "\<forall>p \<in> set (s_patches s). ready s p"
    and "first_overlap (s_patches s) = None"
  shows "\<exists>out. wr_list memcpy_to (s_output s) (regions (bin_arch (s_bin s)) (s_patches s)) = Some out \<and>
    e9_binpatch_apply s = Some (0, s\<lparr>s_output := out, s_finalized := True\<rparr>)"
  using apply_loop_inplace [OF assms(1,3)] assms(2,4)
  by (auto simp: e9_binpatch_apply_def e9_binpatch_validate_def)

section \<open>The session invariant\<close>

definition backup_ok :: "E9Binary \<Rightarrow> E9BinPatch \<Rightarrow> bool" where
  "backup_ok bin p \<longleftrightarrow> (case p_backup_bytes p of
       None \<Rightarrow> p_backup_size p = 0
     | Some b \<Rightarrow> rd_region (bin_data bin) (unat (p_offset p)) (unat (p_backup_size p)) = Some b \<and>
         0 < p_backup_size p \<and> (0 < p_orig_size p \<longrightarrow> p_backup_size p = p_orig_size p))"

definition located :: "E9Binary \<Rightarrow> E9BinPatch \<Rightarrow> bool" where
  "located bin p \<longleftrightarrow> (if p_address p = 0 then p_offset p = 0
     else p_offset p = e9_binpatch_vaddr_to_offset (Some bin) (p_address p) \<and> p_offset p \<noteq> 0)"

definition BIN_MAX :: nat where "BIN_MAX = 2 ^ 62"

definition bp_ok :: "E9BinPatchSession \<Rightarrow> bool" where
  "bp_ok s \<longleftrightarrow>
     length (bin_data (s_bin s)) < BIN_MAX \<and>
     length (s_output s) = length (bin_data (s_bin s)) + 4096 \<and>
     s_output_capacity s = bin_size (s_bin s) + 4096 \<and> s_output_size s = bin_size (s_bin s) \<and>
     length (s_patches s) \<le> s_patches_capacity s \<and> 64 \<le> s_patches_capacity s \<and>
     map p_id (s_patches s) = map int [0 ..< length (s_patches s)] \<and>
     (\<forall>p \<in> set (s_patches s). sized p \<and> backup_ok (s_bin s) p \<and> located (s_bin s) p)"

lemma unat_bin_size: "length (bin_data bin) < BIN_MAX \<Longrightarrow> unat (bin_size bin) = length (bin_data bin)"
  by (simp add: bin_size_def BIN_MAX_def unat_of_nat)

lemma bp_ok_out: "bp_ok s \<Longrightarrow> out_ok s"
proof -
  assume ok: "bp_ok s"
  then have n: "unat (bin_size (s_bin s)) = length (bin_data (s_bin s))"
    by (simp add: bp_ok_def unat_bin_size)
  have "unat (bin_size (s_bin s) + 4096) = unat (bin_size (s_bin s)) + unat (4096 :: u64)"
    by (rule unat_add_small) (use ok n in \<open>simp add: bp_ok_def BIN_MAX_def\<close>)
  with ok n show ?thesis by (simp add: out_ok_def bp_ok_def)
qed

lemma sized_update [simp]:
  "sized (p\<lparr>p_id := i\<rparr>) = sized p" "sized (p\<lparr>p_offset := off\<rparr>) = sized p"
  "sized (p\<lparr>p_backup_bytes := b\<rparr>) = sized p" "sized (p\<lparr>p_backup_size := n\<rparr>) = sized p"
  by (cases "p_type p"; simp add: sized_def)+

lemma make_backup_ok:
  assumes "make_backup bin p = Some q" and "p_backup_bytes p = None" and "p_backup_size p = 0"
  shows "backup_ok bin q" and "sized q = sized p" and "located bin q = located bin p" and "p_id q = p_id p"
    and "p_type q = p_type p"
  using assms
  by (auto simp: make_backup_def backup_ok_def located_def Let_def Option.bind_eq_Some_conv split: if_splits)

lemma add_patch_ok:
  assumes ok: "bp_ok s" and r: "add_patch p s = Some (r, s')" and p: "sized p" "p_offset p = 0"
    "p_backup_bytes p = None" "p_backup_size p = 0"
  shows "bp_ok s'"
proof -
  let ?s = "ensure_patch_capacity s"
  have cap: "bp_ok ?s" "length (s_patches ?s) < s_patches_capacity ?s" "s_patches ?s = s_patches s" "s_bin ?s = s_bin s"
    using ok by (auto simp: ensure_patch_capacity_def bp_ok_def)
  define p1 where "p1 = (if p_address p \<noteq> 0
    then p\<lparr>p_id := int (length (s_patches s)), p_offset := e9_binpatch_vaddr_to_offset (Some (s_bin s)) (p_address p)\<rparr>
    else p\<lparr>p_id := int (length (s_patches s))\<rparr>)"
  show ?thesis
  proof (cases "p_offset p1 = 0 \<and> p_address p1 \<noteq> 0")
    case True
    with r p(2) cap have "s' = bp_set_error (-1) (BP_NO_OFFSET (p_address p)) ?s"
      by (auto simp: add_patch_def Let_def p1_def split: if_splits)
    with cap(1) show ?thesis by (simp add: bp_ok_def bp_set_error_def)
  next
    case False
    with r p(2) cap obtain q where q: "make_backup (s_bin s) p1 = Some q"
      "s' = ?s\<lparr>s_patches := s_patches s @ [q]\<rparr>"
      by (auto simp: add_patch_def Let_def p1_def Option.bind_eq_Some_conv split: if_splits)
    have p1: "p_backup_bytes p1 = None" "p_backup_size p1 = 0" "sized p1" "p_id p1 = int (length (s_patches s))"
      using p by (auto simp: p1_def)
    have "located (s_bin s) p1" using False p(2) by (auto simp: located_def p1_def split: if_splits)
    with make_backup_ok [OF q(1) p1(1,2)] p1 have "sized q" "backup_ok (s_bin s) q" "located (s_bin s) q"
      "p_id q = int (length (s_patches s))" by simp_all
    with cap q(2) show ?thesis by (auto simp: bp_ok_def)
  qed
qed

text \<open>What applying and reverting keep.\<close>

definition bp_frame :: "E9BinPatchSession \<Rightarrow> E9BinPatchSession \<Rightarrow> bool" where
  "bp_frame s s' \<longleftrightarrow>
     s_bin s' = s_bin s \<and> s_patches s' = s_patches s \<and> s_patches_capacity s' = s_patches_capacity s \<and>
     s_output_size s' = s_output_size s \<and> s_output_capacity s' = s_output_capacity s \<and>
     length (s_output s') = length (s_output s)"

lemma bp_frame_refl [simp]: "bp_frame s s"
  by (simp add: bp_frame_def)

lemma bp_frame_trans: "bp_frame s t \<Longrightarrow> bp_frame t u \<Longrightarrow> bp_frame s u"
  by (simp add: bp_frame_def)

lemma bp_ok_frame: "bp_ok s \<Longrightarrow> bp_frame s s' \<Longrightarrow> bp_ok s'"
  by (simp add: bp_ok_def bp_frame_def)

lemma set_error_bp_frame [simp]: "bp_frame s (bp_set_error c e s)"
  by (simp add: bp_frame_def bp_set_error_def)

lemma out_write_frame: "out_write off b s = Some s' \<Longrightarrow> bp_frame s s'"
  by (auto simp: out_write_def bp_frame_def dest: length_memcpy_to)

lemma out_nops_frame: "out_nops off n s = Some s' \<Longrightarrow> bp_frame s s'"
  by (auto simp: out_nops_def e9_binpatch_gen_nops_def bp_frame_def dest: length_memcpy_to split: if_splits)

lemma write_filled_frame: "write_filled off code n s = Some s' \<Longrightarrow> bp_frame s s'"
  by (auto simp: write_filled_def Option.bind_eq_Some_conv split: if_splits
      intro: bp_frame_trans dest!: out_write_frame out_nops_frame)

lemma caves_find_frame: "e9_caves_find m s = Some (r, s') \<Longrightarrow> bp_frame s s'"
  by (auto simp: e9_caves_find_def Let_def bp_frame_def Option.bind_eq_Some_conv split: option.splits)

lemma caves_alloc_frame: "e9_caves_alloc n s = (a, s') \<Longrightarrow> bp_frame s s'"
  by (auto simp: e9_caves_alloc_def Let_def bp_frame_def split: option.splits prod.splits)

lemma apply_branch_frame: "apply_branch code e p s = Some (r, s') \<Longrightarrow> bp_frame s s'"
  by (auto simp: apply_branch_def split: if_splits dest: write_filled_frame)

lemma cave_install_frame: "cave_install p a s = Some (r, s') \<Longrightarrow> bp_frame s s'"
  by (auto simp: cave_install_def Let_def Option.bind_eq_Some_conv split: if_splits
      dest!: out_write_frame write_filled_frame intro: bp_frame_trans)

lemma apply_cave_frame:
  assumes "apply_cave p s = Some (r, s')"
  shows "bp_frame s s'"
proof -
  from assms obtain x s1 where s1: "(if s_cave_finder s = None then e9_caves_find 16 s else Some (0, s)) = Some (x, s1)"
    by (auto simp: apply_cave_def Option.bind_eq_Some_conv)
  obtain a s2 where a: "e9_caves_alloc (p_hook_code_size p + 32) s1 = (a, s2)" by force
  from assms s1 a have rest: "(if a = 0 then Some (-1, bp_set_error (-1) (BP_NO_CAVE (p_address p)) s2)
     else cave_install p a s2) = Some (r, s')" by (simp add: apply_cave_def)
  have "bp_frame s s1" using s1 caves_find_frame by (auto split: if_splits)
  then have "bp_frame s s2" using caves_alloc_frame [OF a] by (rule bp_frame_trans)
  with rest show ?thesis using bp_frame_trans cave_install_frame by (fastforce split: if_splits)
qed

lemma apply_one_frame: "apply_one p s = Some (r, s') \<Longrightarrow> bp_frame s s'"
  by (cases "p_type p")
    (auto simp: apply_one_def Let_def Option.bind_eq_Some_conv split: if_splits
      dest: out_write_frame out_nops_frame write_filled_frame apply_branch_frame apply_cave_frame)

lemma apply_loop_frame: "apply_loop ps s = Some (r, s') \<Longrightarrow> bp_frame s s'"
proof (induction ps arbitrary: s)
  case Nil
  then show ?case by simp
next
  case (Cons p ps)
  then obtain r1 s1 where "apply_one p s = Some (r1, s1)"
    "(if r1 < 0 then Some (-1, s1) else apply_loop ps s1) = Some (r, s')"
    by (auto simp: Option.bind_eq_Some_conv)
  with Cons.IH [of s1] bp_frame_trans apply_one_frame show ?case by (fastforce split: if_splits)
qed

lemma validate_frame: "e9_binpatch_validate s = (r, s') \<Longrightarrow> bp_frame s s'"
  by (auto simp: e9_binpatch_validate_def split: option.splits prod.splits)

lemma apply_frame: "e9_binpatch_apply s = Some (r, s') \<Longrightarrow> bp_frame s s'"
proof -
  assume r: "e9_binpatch_apply s = Some (r, s')"
  obtain v s1 where v: "e9_binpatch_validate s = (v, s1)" by force
  have fv: "bp_frame s s1" by (rule validate_frame [OF v])
  show "bp_frame s s'"
  proof (cases "s_finalized s \<or> v < 0")
    case True
    with r fv show ?thesis by (auto simp: e9_binpatch_apply_def v split: if_splits)
  next
    case False
    with r obtain x s2 where s2: "apply_loop (s_patches s1) s1 = Some (x, s2)"
      "s' = s2 \<or> s' = s2\<lparr>s_finalized := True\<rparr>"
      by (auto simp: e9_binpatch_apply_def v Option.bind_eq_Some_conv split: if_splits)
    have "bp_frame s s2" by (rule bp_frame_trans [OF fv apply_loop_frame [OF s2(1)]])
    with s2(2) show ?thesis by (auto simp: bp_frame_def)
  qed
qed

lemma verify_frame: "e9_binpatch_verify s = Some (r, s') \<Longrightarrow> bp_frame s s'"
proof -
  have "verify_loop ps s = Some (r, s') \<Longrightarrow> bp_frame s s'" for ps
    by (induction ps s rule: verify_loop.induct)
      (auto simp: Option.bind_eq_Some_conv split: if_splits option.splits)
  then show "e9_binpatch_verify s = Some (r, s') \<Longrightarrow> bp_frame s s'"
    by (auto simp: e9_binpatch_verify_def split: if_splits)
qed

lemma revert_frame: "e9_binpatch_revert i s = Some (r, s') \<Longrightarrow> bp_frame s s'"
  by (auto simp: e9_binpatch_revert_def Let_def Option.bind_eq_Some_conv split: if_splits option.splits
      dest: out_write_frame)

lemma revert_all_ok:
  assumes "bp_ok s"
  shows "\<exists>s'. e9_binpatch_revert_all s = Some (0, s') \<and> bp_ok s' \<and>
    s_output s' = bin_data (s_bin s) @ drop (length (bin_data (s_bin s))) (s_output s) \<and>
    s_patches s' = s_patches s \<and> \<not> s_finalized s'"
  using assms
  by (auto simp: e9_binpatch_revert_all_def out_write_def memcpy_to_def bp_ok_def)

section \<open>The session machine\<close>

lemma size_tail_le: "size_tail code pos m imm = Some n \<Longrightarrow> n \<le> pos + 6 + imm"
  by (auto simp: size_tail_def Let_def Option.bind_eq_Some_conv split: if_splits)

lemma skip_prefixes_le: "skip_prefixes code pos = Some n \<Longrightarrow> pos \<le> length code \<Longrightarrow> n \<le> length code"
proof (induction code pos rule: skip_prefixes.induct)
  case (1 code pos)
  then show ?case
    by (subst (asm) (2) skip_prefixes.simps) (auto simp: Option.bind_eq_Some_conv split: if_splits)
qed

lemma insn_size_le:
  assumes "x86_insn_size code = Some n"
  shows "n \<le> length code + 20"
proof -
  from assms obtain pos rex where pos: "skip_prefixes code 0 = Some pos"
    "(let pos = (if rex then pos + 1 else pos) in
     if length code \<le> pos then Some 0 else do {
       opcode \<leftarrow> rd8 code pos;
       if opcode = 0x0F then size_two_byte code (pos + 1) else size_one_byte code (pos + 1) opcode
     }) = Some n"
    by (auto simp: x86_insn_size_def Option.bind_eq_Some_conv)
  have two: "n \<le> k + 13" if "size_two_byte code k = Some n" for k
    using that by (auto simp: size_two_byte_def Let_def Option.bind_eq_Some_conv dest: size_tail_le split: if_splits)
  have one: "n \<le> k + 10" if "size_one_byte code k opc = Some n" for k opc
    using that by (auto simp: size_one_byte_def x86_imm_size_def dest: size_tail_le split: if_splits)
  show ?thesis
    using pos(2) by (auto simp: Let_def Option.bind_eq_Some_conv split: if_splits dest!: two one)
qed

lemma insn_size_at_le:
  assumes "e9_binpatch_insn_size_at b addr = Some n"
  shows "n \<le> 35"
proof -
  have "length (take 15 xs) \<le> 15" for xs :: bytes by simp
  then show ?thesis
    using assms insn_size_le
    by (fastforce simp: e9_binpatch_insn_size_at_def Let_def split: option.splits if_splits)
qed

inductive bp_step :: "E9BinPatchSession \<Rightarrow> E9BinPatchSession \<Rightarrow> bool" where
  bp_bytes: "e9_binpatch_bytes addr (Some b) flags s = Some (r, s') \<Longrightarrow> length b < BIN_MAX \<Longrightarrow> bp_step s s'"
| bp_nop: "e9_binpatch_nop addr n flags s = Some (r, s') \<Longrightarrow> bp_step s s'"
| bp_insn: "e9_binpatch_insn addr (Some b) flags s = Some (r, s') \<Longrightarrow> length b < BIN_MAX \<Longrightarrow> bp_step s s'"
| bp_call: "e9_binpatch_call addr target flags s = Some (r, s') \<Longrightarrow> bp_step s s'"
| bp_jmp: "e9_binpatch_jmp addr target flags s = Some (r, s') \<Longrightarrow> bp_step s s'"
| bp_hook: "e9_binpatch_hook addr (Some b) flags s = Some (r, s') \<Longrightarrow> length b < BIN_MAX \<Longrightarrow> bp_step s s'"
| bp_detour: "e9_binpatch_detour addr (Some b) has_orig flags s = Some (r, s', x) \<Longrightarrow> length b < BIN_MAX \<Longrightarrow> bp_step s s'"
| bp_caves: "e9_caves_find m s = Some (r, s') \<Longrightarrow> bp_step s s'"
| bp_alloc: "e9_caves_alloc n s = (a, s') \<Longrightarrow> bp_step s s'"
| bp_validate: "e9_binpatch_validate s = (r, s') \<Longrightarrow> bp_step s s'"
| bp_apply: "e9_binpatch_apply s = Some (r, s') \<Longrightarrow> bp_step s s'"
| bp_verify: "e9_binpatch_verify s = Some (r, s') \<Longrightarrow> bp_step s s'"
| bp_revert: "e9_binpatch_revert i s = Some (r, s') \<Longrightarrow> bp_step s s'"
| bp_revert_all: "e9_binpatch_revert_all s = Some (r, s') \<Longrightarrow> bp_step s s'"

lemma if_open_ok:
  assumes "bp_ok s" and "if_open s k = Some (r, s')" and "k = Some (r, s') \<Longrightarrow> bp_ok s'"
  shows "bp_ok s'"
  using assms bp_ok_frame [OF assms(1) set_error_bp_frame] by (auto simp: if_open_def split: if_splits)

lemma unat_length: "length b < BIN_MAX \<Longrightarrow> unat (word_of_nat (length b) :: u64) = length b"
  by (simp add: unat_of_nat BIN_MAX_def)

lemma pos_length: "length b < BIN_MAX \<Longrightarrow> b \<noteq> [] \<Longrightarrow> 0 < (word_of_nat (length b) :: u64)"
  by (simp add: word_less_nat_alt unat_length)

lemma bp_step_ok:
  assumes ok: "bp_ok s" and step: "bp_step s s'"
  shows "bp_ok s'"
  using step
proof cases
  case (bp_bytes addr b flags r)
  then show ?thesis
    using ok by (auto simp: e9_binpatch_bytes_def sized_def zero_patch_def unat_length pos_length
        split: if_splits elim!: if_open_ok [OF ok] add_patch_ok [OF ok])
next
  case (bp_nop addr n flags r)
  then show ?thesis
    using ok by (auto simp: e9_binpatch_nop_def sized_def zero_patch_def word_neq_0_conv
        split: if_splits elim!: if_open_ok [OF ok] add_patch_ok [OF ok])
next
  case (bp_insn addr b flags r)
  have "sized (zero_patch\<lparr>p_type := (if orig < length b then E9_BINPATCH_TRAMPOLINE else E9_BINPATCH_INSN),
      p_flags := flags, p_address := addr, p_new_bytes := Some b,
      p_new_size := word_of_nat (length b), p_orig_size := word_of_nat orig\<rparr>)"
    if "orig \<le> 35" "b \<noteq> []" for orig
    using that bp_insn(2)
    by (auto simp: sized_def zero_patch_def unat_length pos_length word_le_nat_alt unat_of_nat)
  then have add: "bp_ok s'" if "add_patch (zero_patch\<lparr>p_type := (if orig < length b then E9_BINPATCH_TRAMPOLINE else E9_BINPATCH_INSN),
      p_flags := flags, p_address := addr, p_new_bytes := Some b,
      p_new_size := word_of_nat (length b), p_orig_size := word_of_nat orig\<rparr>) s = Some (r, s')"
      "e9_binpatch_insn_size_at (Some (s_bin s)) addr = Some orig" "b \<noteq> []" for orig
    by (intro add_patch_ok [OF ok that(1)]) (use that(2,3) insn_size_at_le in \<open>auto simp: zero_patch_def\<close>)
  have err: "bp_ok (bp_set_error c e s)" for c e using bp_ok_frame [OF ok set_error_bp_frame] .
  show ?thesis
  proof (cases "b = []")
    case True
    with bp_insn ok show ?thesis by (simp add: e9_binpatch_insn_def)
  next
    case False
    with bp_insn(1) have "if_open s (do {
         orig \<leftarrow> e9_binpatch_insn_size_at (Some (s_bin s)) addr;
         if orig = 0 then Some (-1, bp_set_error (-1) (BP_NO_INSN_SIZE addr) s)
         else add_patch (zero_patch\<lparr>p_type := (if orig < length b then E9_BINPATCH_TRAMPOLINE else E9_BINPATCH_INSN),
            p_flags := flags, p_address := addr, p_new_bytes := Some b,
            p_new_size := word_of_nat (length b), p_orig_size := word_of_nat orig\<rparr>) s
       }) = Some (r, s')" by (simp add: e9_binpatch_insn_def)
    then show ?thesis
      by (rule if_open_ok [OF ok]) (use False add err in \<open>auto simp: Option.bind_eq_Some_conv split: if_splits\<close>)
  qed
next
  case (bp_call addr target flags r)
  then show ?thesis
    using ok by (auto simp: e9_binpatch_call_def sized_def zero_patch_def branch_size_def
        split: if_splits elim!: if_open_ok [OF ok] add_patch_ok [OF ok])
next
  case (bp_jmp addr target flags r)
  then show ?thesis
    using ok by (auto simp: e9_binpatch_jmp_def sized_def zero_patch_def branch_size_def
        split: if_splits elim!: if_open_ok [OF ok] add_patch_ok [OF ok])
next
  case (bp_hook addr b flags r)
  then show ?thesis
    using ok by (auto simp: e9_binpatch_hook_def sized_def zero_patch_def Option.bind_eq_Some_conv
        split: if_splits elim!: if_open_ok [OF ok] add_patch_ok [OF ok])
next
  case (bp_detour addr b has_orig flags r x)
  then show ?thesis
    using ok by (auto simp: e9_binpatch_detour_def sized_def zero_patch_def Option.bind_eq_Some_conv
        split: if_splits elim!: if_open_ok [OF ok] add_patch_ok [OF ok])
next
  case bp_revert_all
  with revert_all_ok [OF ok] show ?thesis by auto
next
  case bp_caves
  then show ?thesis by (intro bp_ok_frame [OF ok] caves_find_frame)
next
  case bp_alloc
  then show ?thesis by (intro bp_ok_frame [OF ok] caves_alloc_frame)
next
  case bp_validate
  then show ?thesis by (intro bp_ok_frame [OF ok] validate_frame)
next
  case bp_apply
  then show ?thesis by (intro bp_ok_frame [OF ok] apply_frame)
next
  case bp_verify
  then show ?thesis by (intro bp_ok_frame [OF ok] verify_frame)
next
  case bp_revert
  then show ?thesis by (intro bp_ok_frame [OF ok] revert_frame)
qed

definition bp_start :: "E9BinPatchSession \<Rightarrow> bool" where
  "bp_start s \<longleftrightarrow> (\<exists>bin. length (bin_data bin) < BIN_MAX \<and> e9_binpatch_session_create (Some bin) = Some s)"

interpretation bp: counted_machine bp_start bp_step "\<lambda>n. bp_ok"
proof
  show "bp_start s \<Longrightarrow> bp_ok s" for s
    by (auto simp: bp_start_def e9_binpatch_session_create_def bp_ok_def)
  show "bp_ok s \<Longrightarrow> bp_step s s' \<Longrightarrow> bp_ok s'" for s s'
    by (rule bp_step_ok)
qed

section \<open>Code caves: what is found\<close>

definition cave_run :: "E9Arch \<Rightarrow> bytes \<Rightarrow> nat \<Rightarrow> nat \<Rightarrow> bool" where
  "cave_run arch data a n \<longleftrightarrow>
     (if arch = E9_ARCH_AARCH64
      then n mod 4 = 0 \<and> (\<forall>k < n div 4. rd32 data (a + 4 * k) = Some 0xD503201F)
      else (\<forall>k < n. \<exists>b. rd8 data (a + k) = Some b \<and> x86_cave_byte b))"

text \<open>The cave is a run of filler of the given section.\<close>

definition cave_of :: "E9Binary \<Rightarrow> u64 \<Rightarrow> nat \<Rightarrow> nat \<Rightarrow> E9CodeCave \<Rightarrow> bool" where
  "cave_of bin m idx lim c \<longleftrightarrow>
     (\<exists>st len. c = mk_cave idx (bin_sections bin ! idx)
          (e9_binpatch_vaddr_to_offset (Some bin) (sec_addr (bin_sections bin ! idx))) st len \<and>
        0 < len \<and> st + len \<le> lim \<and> m \<le> word_of_nat len \<and>
        cave_run (bin_arch bin) (bin_data bin)
          (unat (e9_binpatch_vaddr_to_offset (Some bin) (sec_addr (bin_sections bin ! idx))) + st) len)"

text \<open>The range of virtual addresses of a cave, and caves that do not meet.\<close>

definition cave_range :: "E9CodeCave \<Rightarrow> nat set" where
  "cave_range c = {unat (cave_address c) ..< unat (cave_address c) + unat (cave_size c)}"

definition caves_apart :: "E9CodeCave list \<Rightarrow> bool" where
  "caves_apart cs \<longleftrightarrow> sorted_wrt (\<lambda>c d. cave_range c \<inter> cave_range d = {}) cs"

definition sec_range :: "E9Section \<Rightarrow> nat set" where
  "sec_range sec = {unat (sec_addr sec) ..< unat (sec_addr sec) + unat (sec_size sec)}"

definition sections_ok :: "E9Binary \<Rightarrow> bool" where
  "sections_ok bin \<longleftrightarrow>
     (\<forall>sec \<in> set (bin_sections bin). unat (sec_addr sec) + unat (sec_size sec) < 2 ^ 64) \<and>
     sorted_wrt (\<lambda>x y. sec_range x \<inter> sec_range y = {}) (bin_sections bin)"

lemma cave_run_extend:
  assumes "cave_run arch data a n" and "cave_run arch data (a + n) k"
  shows "cave_run arch data a (n + k)"
proof (cases "arch = E9_ARCH_AARCH64")
  case True
  with assms have n: "n mod 4 = 0" "k mod 4 = 0" "\<forall>j < n div 4. rd32 data (a + 4 * j) = Some 0xD503201F"
    "\<forall>j < k div 4. rd32 data (a + n + 4 * j) = Some 0xD503201F" by (simp_all add: cave_run_def)
  from n(1,2) obtain p q where pq: "n = 4 * p" "k = 4 * q" by (auto simp: mod_eq_0_iff_dvd dvd_def)
  have "rd32 data (a + 4 * j) = Some 0xD503201F" if "j < p + q" for j
  proof (cases "j < p")
    case True
    with n(3) pq show ?thesis by simp
  next
    case False
    with that n(4) pq have "rd32 data (a + n + 4 * (j - p)) = Some 0xD503201F" by simp
    moreover have "a + n + 4 * (j - p) = a + 4 * j" using False pq(1) by simp
    ultimately show ?thesis by simp
  qed
  with True pq show ?thesis by (simp add: cave_run_def)
next
  case False
  with assms have n: "\<forall>j < n. \<exists>b. rd8 data (a + j) = Some b \<and> x86_cave_byte b"
    "\<forall>j < k. \<exists>b. rd8 data (a + n + j) = Some b \<and> x86_cave_byte b" by (simp_all add: cave_run_def)
  have "\<exists>b. rd8 data (a + j) = Some b \<and> x86_cave_byte b" if "j < n + k" for j
  proof (cases "j < n")
    case False
    with n(2) [rule_format, of "j - n"] that show ?thesis by simp
  qed (use n(1) in simp)
  with False show ?thesis by (simp add: cave_run_def)
qed

lemma unat_word_of_nat: "n < 2 ^ 64 \<Longrightarrow> unat (word_of_nat n :: u64) = n"
  by (simp add: unat_of_nat)

lemma mk_cave_range:
  assumes "unat (sec_addr sec) + st + len < 2 ^ 64"
  shows "cave_range (mk_cave idx sec off st len) =
    {unat (sec_addr sec) + st ..< unat (sec_addr sec) + st + len}"
proof -
  have u: "unat (word_of_nat st :: u64) = st" "unat (word_of_nat len :: u64) = len"
    using assms by (simp_all add: unat_word_of_nat)
  have "unat (sec_addr sec + word_of_nat st) = unat (sec_addr sec) + st"
    using unat_add_small [of "sec_addr sec" "word_of_nat st"] assms u by simp
  with u show ?thesis by (simp add: cave_range_def mk_cave_def)
qed

lemma caves_apart_snoc:
  "caves_apart (cs @ [c]) \<longleftrightarrow> caves_apart cs \<and> (\<forall>d \<in> set cs. cave_range d \<inter> cave_range c = {})"
  by (simp add: caves_apart_def sorted_wrt_append)

lemma cave_of_mono:
  assumes "cave_of bin m idx i c" and "i \<le> j"
  shows "cave_of bin m idx j c"
proof -
  let ?sec = "bin_sections bin ! idx"
  let ?off = "e9_binpatch_vaddr_to_offset (Some bin) (sec_addr ?sec)"
  from assms(1) obtain st len where "c = mk_cave idx ?sec ?off st len" "0 < len" "st + len \<le> i" "m \<le> word_of_nat len"
    "cave_run (bin_arch bin) (bin_data bin) (unat ?off + st) len" by (auto simp: cave_of_def)
  with assms(2) show ?thesis unfolding cave_of_def by (intro exI [of _ st] exI [of _ len]) simp
qed

text \<open>
  The invariant of the scan: \<open>old\<close> are the caves of earlier sections, \<open>run\<close> the current run,
  \<open>i\<close> the position.  New caves end before the current run.
\<close>

definition scan_inv ::
  "E9Binary \<Rightarrow> u64 \<Rightarrow> nat \<Rightarrow> E9CodeCave list \<Rightarrow> nat \<Rightarrow> (nat \<times> nat) option \<Rightarrow> E9CaveFinder \<Rightarrow> bool" where
  "scan_inv bin m idx old i run f \<longleftrightarrow>
     (let start = (case run of None \<Rightarrow> i | Some (st, len) \<Rightarrow> st) in
      (\<exists>new. caves f = old @ new \<and> (\<forall>c \<in> set new. cave_of bin m idx start c)) \<and>
      caves_apart (caves f) \<and> min_cave_size f = m \<and>
      (case run of None \<Rightarrow> True
       | Some (st, len) \<Rightarrow> st + len = i \<and> 0 < len \<and> i \<le> unat (sec_size (bin_sections bin ! idx)) \<and>
           cave_run (bin_arch bin) (bin_data bin)
             (unat (e9_binpatch_vaddr_to_offset (Some bin) (sec_addr (bin_sections bin ! idx))) + st) len))"

lemma scan_inv_extend:
  assumes inv: "scan_inv bin m idx old i run f" and k: "0 < k" "i + k \<le> unat (sec_size (bin_sections bin ! idx))"
    and run: "cave_run (bin_arch bin) (bin_data bin)
      (unat (e9_binpatch_vaddr_to_offset (Some bin) (sec_addr (bin_sections bin ! idx))) + i) k"
  shows "scan_inv bin m idx old (i + k) (extend_run run i k) f"
proof (cases run)
  case None
  with inv k run show ?thesis by (auto simp: scan_inv_def extend_run_def)
next
  case (Some sl)
  obtain st len where sl: "sl = (st, len)" by (cases sl)
  let ?off = "unat (e9_binpatch_vaddr_to_offset (Some bin) (sec_addr (bin_sections bin ! idx)))"
  from inv Some sl have r: "st + len = i" "0 < len" "cave_run (bin_arch bin) (bin_data bin) (?off + st) len"
    by (auto simp: scan_inv_def)
  have "cave_run (bin_arch bin) (bin_data bin) (?off + st) (len + k)"
    by (rule cave_run_extend [OF r(3)]) (use run r(1) in \<open>simp add: add.assoc\<close>)
  with inv Some sl r k show ?thesis by (auto simp: scan_inv_def extend_run_def Let_def)
qed

text \<open>Ending a run, with or without a new cave.\<close>

lemma scan_inv_end:
  assumes inv: "scan_inv bin m idx old i run f" and i: "i \<le> j"
    and sec: "unat (sec_addr (bin_sections bin ! idx)) + unat (sec_size (bin_sections bin ! idx)) < 2 ^ 64"
    and old: "\<forall>c \<in> set old. cave_range c \<inter> sec_range (bin_sections bin ! idx) = {}"
    and f': "caves f' = caves f \<or> (\<exists>st len. run = Some (st, len) \<and> m \<le> word_of_nat len \<and>
      caves f' = caves f @ [mk_cave idx (bin_sections bin ! idx)
        (e9_binpatch_vaddr_to_offset (Some bin) (sec_addr (bin_sections bin ! idx))) st len])"
    and m: "min_cave_size f' = min_cave_size f"
  shows "scan_inv bin m idx old j None f'"
proof -
  define start where "start = (case run of None \<Rightarrow> i | Some (st, len) \<Rightarrow> st)"
  from inv obtain new where new: "caves f = old @ new" "\<forall>c \<in> set new. cave_of bin m idx start c"
    "caves_apart (caves f)" "min_cave_size f = m" by (auto simp: scan_inv_def start_def Let_def)
  have sj: "start \<le> j" using inv i by (auto simp: scan_inv_def start_def Let_def split: option.splits)
  have up: "cave_of bin m idx j c" if "cave_of bin m idx start c" for c
    by (rule cave_of_mono [OF that sj])
  from f' show ?thesis
  proof
    assume "caves f' = caves f"
    with new up m show ?thesis by (auto simp: scan_inv_def)
  next
    let ?sec = "bin_sections bin ! idx"
    let ?off = "e9_binpatch_vaddr_to_offset (Some bin) (sec_addr ?sec)"
    assume "\<exists>st len. run = Some (st, len) \<and> m \<le> word_of_nat len \<and> caves f' = caves f @ [mk_cave idx ?sec ?off st len]"
    then obtain st len where r: "run = Some (st, len)" "m \<le> word_of_nat len"
      and cs: "caves f' = caves f @ [mk_cave idx ?sec ?off st len]" by blast
    from inv r(1) have run: "st + len = i" "0 < len" "i \<le> unat (sec_size ?sec)" "start = st"
      "cave_run (bin_arch bin) (bin_data bin) (unat ?off + st) len"
      by (auto simp: scan_inv_def start_def)
    have rng: "cave_range (mk_cave idx ?sec ?off st len) =
        {unat (sec_addr ?sec) + st ..< unat (sec_addr ?sec) + st + len}"
      by (rule mk_cave_range) (use sec run in simp)
    have apart: "cave_range d \<inter> cave_range (mk_cave idx ?sec ?off st len) = {}" if "d \<in> set (caves f)" for d
    proof (cases "d \<in> set old")
      case True
      have "cave_range (mk_cave idx ?sec ?off st len) \<subseteq> sec_range ?sec"
        using run by (auto simp: rng sec_range_def)
      with old True show ?thesis by blast
    next
      case False
      with that new(1,2) run(4) have "cave_of bin m idx st d" by auto
      then obtain st' len' where d: "d = mk_cave idx ?sec ?off st' len'" "st' + len' \<le> st"
        by (auto simp: cave_of_def)
      have "cave_range d = {unat (sec_addr ?sec) + st' ..< unat (sec_addr ?sec) + st' + len'}"
        unfolding d(1) by (rule mk_cave_range) (use sec run d(2) in simp)
      with d(2) show ?thesis by (auto simp: rng)
    qed
    have "cave_of bin m idx j (mk_cave idx ?sec ?off st len)"
      using r(2) run i unfolding cave_of_def by (intro exI [of _ st] exI [of _ len]) simp
    then have c: "\<forall>c \<in> set (new @ [mk_cave idx ?sec ?off st len]). cave_of bin m idx j c"
      using new(2) up by simp
    have "caves_apart (caves f')" unfolding cs caves_apart_snoc using new(3) apart by blast
    moreover have "caves f' = old @ (new @ [mk_cave idx ?sec ?off st len])" using cs new(1) by simp
    ultimately show ?thesis using c new(4) m unfolding scan_inv_def Let_def option.case by (metis (no_types))
  qed
qed

lemma end_run_caves:
  "min_cave_size (end_run idx sec off run f) = min_cave_size f"
  "caves (end_run idx sec off run f) = caves f \<or> (\<exists>st len. run = Some (st, len) \<and>
     min_cave_size f \<le> word_of_nat len \<and> caves (end_run idx sec off run f) = caves f @ [mk_cave idx sec off st len])"
  by (auto simp: end_run_def push_cave_def Let_def split: option.splits)

lemma last_run_caves:
  "min_cave_size (last_run idx sec off run f) = min_cave_size f"
  "caves (last_run idx sec off run f) = caves f \<or> (\<exists>st len. run = Some (st, len) \<and>
     min_cave_size f \<le> word_of_nat len \<and> caves (last_run idx sec off run f) = caves f @ [mk_cave idx sec off st len])"
  by (auto simp: last_run_def split: option.splits)

lemma scan_section_inv:
  assumes sec: "sec = bin_sections bin ! idx" "off = e9_binpatch_vaddr_to_offset (Some bin) (sec_addr sec)"
    and rng: "unat (sec_addr sec) + unat (sec_size sec) < 2 ^ 64"
    and fit: "unat off + unat (sec_size sec) \<le> length (bin_data bin)"
    and old: "\<forall>c \<in> set old. cave_range c \<inter> sec_range sec = {}"
  shows "scan_inv bin m idx old i run f \<Longrightarrow> i \<le> unat (sec_size sec) \<Longrightarrow>
    \<exists>run' f'. scan_section (bin_arch bin) (bin_data bin) idx sec off i run f = Some (run', f') \<and>
      scan_inv bin m idx old (unat (sec_size sec)) run' f'"
proof (induction "unat (sec_size sec) - i" arbitrary: i run f rule: less_induct)
  case less
  have step: ?case if c: "scan_section (bin_arch bin) (bin_data bin) idx sec off i run f =
      scan_section (bin_arch bin) (bin_data bin) idx sec off j run1 f1"
    and j: "i < j" "j \<le> unat (sec_size sec)" "scan_inv bin m idx old j run1 f1" for j run1 f1
    unfolding c by (rule less.hyps [OF _ j(3,2)]) (use j in simp)
  have stop: "scan_inv bin m idx old (i + 1) None (end_run idx sec off run f)"
  proof -
    have "scan_inv bin m idx old i run f" by fact
    moreover have "min_cave_size f = m" using less.prems(1) by (simp add: scan_inv_def Let_def)
    ultimately show ?thesis
      using scan_inv_end [of bin m idx old i run f "i + 1" "end_run idx sec off run f"]
        end_run_caves [of idx sec off run f] rng old sec by auto
  qed
  show ?case
  proof (cases "i < unat (sec_size sec)")
    case False
    with less.prems show ?thesis by (subst scan_section.simps) auto
  next
    case True
    show ?thesis
    proof (cases "bin_arch bin = E9_ARCH_AARCH64")
      case arch: True
      show ?thesis
      proof (cases "i mod 4 = 0 \<and> i + 4 \<le> unat (sec_size sec)")
        case False
        show ?thesis
          by (rule step [of "i + 1" None "end_run idx sec off run f"])
            (use True arch False stop in \<open>auto simp: scan_section.simps [of _ _ _ _ _ i]\<close>)
      next
        case al: True
        then obtain insn where insn: "rd32 (bin_data bin) (unat off + i) = Some insn"
          using fit rd32_eq_None [of "bin_data bin" "unat off + i"] by (cases "rd32 (bin_data bin) (unat off + i)") auto
        show ?thesis
        proof (cases "insn = 0xD503201F")
          case nop: True
          have "cave_run (bin_arch bin) (bin_data bin) (unat off + i) 4"
            using arch insn nop by (simp add: cave_run_def)
          then have "scan_inv bin m idx old (i + 4) (extend_run run i 4) f"
            by (intro scan_inv_extend [OF less.prems(1)]) (use al sec in simp_all)
          then show ?thesis
            by (intro step [of "i + 4" "extend_run run i 4" f])
              (use True arch al insn nop in \<open>auto simp: scan_section.simps [of _ _ _ _ _ i]\<close>)
        next
          case nop: False
          show ?thesis
            by (rule step [of "i + 1" None "end_run idx sec off run f"])
              (use True arch al insn nop stop in \<open>auto simp: scan_section.simps [of _ _ _ _ _ i]\<close>)
        qed
      qed
    next
      case arch: False
      obtain b where b: "rd8 (bin_data bin) (unat off + i) = Some b"
        using fit True rd8_eq_None [of "bin_data bin" "unat off + i"] by (cases "rd8 (bin_data bin) (unat off + i)") auto
      show ?thesis
      proof (cases "x86_cave_byte b")
        case cb: True
        have "cave_run (bin_arch bin) (bin_data bin) (unat off + i) 1"
          using arch b cb by (simp add: cave_run_def)
        then have "scan_inv bin m idx old (i + 1) (extend_run run i 1) f"
          by (intro scan_inv_extend [OF less.prems(1)]) (use True sec in simp_all)
        then show ?thesis
          by (intro step [of "i + 1" "extend_run run i 1" f])
            (use True arch b cb in \<open>auto simp: scan_section.simps [of _ _ _ _ _ i]\<close>)
      next
        case cb: False
        show ?thesis
          by (rule step [of "i + 1" None "end_run idx sec off run f"])
            (use True arch b cb stop in \<open>auto simp: scan_section.simps [of _ _ _ _ _ i]\<close>)
      qed
    qed
  qed
qed

text \<open>The caves found so far, after the sections below \<open>idx\<close>.\<close>

definition found_ok :: "E9Binary \<Rightarrow> u64 \<Rightarrow> nat \<Rightarrow> E9CaveFinder \<Rightarrow> bool" where
  "found_ok bin m idx f \<longleftrightarrow> caves_apart (caves f) \<and> min_cave_size f = m \<and>
     (\<forall>c \<in> set (caves f). \<exists>i < idx. sec_flags (bin_sections bin ! i) AND E9_SECFLAG_EXEC \<noteq> 0 \<and>
        cave_of bin m i (unat (sec_size (bin_sections bin ! i))) c)"

text \<open>No section size wraps around the size test of \<open>e9_caves_find\<close>.\<close>

definition offsets_ok :: "E9Binary \<Rightarrow> bool" where
  "offsets_ok bin \<longleftrightarrow> length (bin_data bin) < BIN_MAX \<and> (\<forall>sec \<in> set (bin_sections bin).
     unat (e9_binpatch_vaddr_to_offset (Some bin) (sec_addr sec)) + unat (sec_size sec) < 2 ^ 64)"

lemma cave_of_range:
  assumes "cave_of bin m i (unat (sec_size (bin_sections bin ! i))) c"
    and "unat (sec_addr (bin_sections bin ! i)) + unat (sec_size (bin_sections bin ! i)) < 2 ^ 64"
  shows "cave_range c \<subseteq> sec_range (bin_sections bin ! i)"
proof -
  let ?sec = "bin_sections bin ! i"
  let ?off = "e9_binpatch_vaddr_to_offset (Some bin) (sec_addr ?sec)"
  from assms(1) obtain st len where c: "c = mk_cave i ?sec ?off st len" "st + len \<le> unat (sec_size ?sec)"
    by (auto simp: cave_of_def)
  have "cave_range c = {unat (sec_addr ?sec) + st ..< unat (sec_addr ?sec) + st + len}"
    unfolding c(1) by (rule mk_cave_range) (use assms(2) c(2) in simp)
  with c(2) show ?thesis by (auto simp: sec_range_def)
qed

lemma find_in_section_ok:
  assumes bin: "sections_ok bin" "offsets_ok bin" and idx: "idx < length (bin_sections bin)"
    and f: "found_ok bin m idx f"
  shows "\<exists>f'. find_in_section bin idx f = Some f' \<and> found_ok bin m (Suc idx) f'"
proof -
  define sec where "sec = bin_sections bin ! idx"
  define off where "off = e9_binpatch_vaddr_to_offset (Some bin) (sec_addr sec)"
  from idx have mem: "sec \<in> set (bin_sections bin)" by (simp add: sec_def)
  have rng: "unat (sec_addr sec) + unat (sec_size sec) < 2 ^ 64" using bin(1) mem by (simp add: sections_ok_def)
  have keep: "found_ok bin m (Suc idx) f" using f unfolding found_ok_def by (meson less_SucI)
  show ?thesis
  proof (cases "sec_flags sec AND E9_SECFLAG_EXEC = 0 \<or> bin_size bin < off + sec_size sec")
    case True
    with keep show ?thesis by (auto simp: find_in_section_def Let_def sec_def off_def)
  next
    case False
    have sum: "unat (off + sec_size sec) = unat off + unat (sec_size sec)"
      using bin(2) mem by (intro unat_add_small) (simp add: offsets_ok_def off_def)
    have fit: "unat off + unat (sec_size sec) \<le> length (bin_data bin)"
      using False bin(2) sum unat_bin_size [of bin] by (simp add: offsets_ok_def word_less_nat_alt)
    have old: "cave_range c \<inter> sec_range sec = {}" if "c \<in> set (caves f)" for c
    proof -
      from f that obtain i where i: "i < idx" "cave_of bin m i (unat (sec_size (bin_sections bin ! i))) c"
        by (auto simp: found_ok_def)
      have "cave_range c \<subseteq> sec_range (bin_sections bin ! i)"
        by (rule cave_of_range [OF i(2)]) (use bin(1) i(1) idx in \<open>simp add: sections_ok_def\<close>)
      moreover have "sec_range (bin_sections bin ! i) \<inter> sec_range sec = {}"
        using bin(1) i(1) idx by (auto simp: sections_ok_def sorted_wrt_iff_nth_less sec_def)
      ultimately show ?thesis by blast
    qed
    have "scan_inv bin m idx (caves f) 0 None f" using f by (simp add: scan_inv_def found_ok_def)
    from scan_section_inv [OF sec_def off_def rng fit _ this] old obtain run' f1 where
      s: "scan_section (bin_arch bin) (bin_data bin) idx sec off 0 None f = Some (run', f1)"
      "scan_inv bin m idx (caves f) (unat (sec_size sec)) run' f1" by auto
    have m1: "min_cave_size f1 = m" using s(2) by (simp add: scan_inv_def Let_def)
    have "scan_inv bin m idx (caves f) (unat (sec_size sec)) None (last_run idx sec off run' f1)"
      using scan_inv_end [OF s(2) order_refl _ _ _ last_run_caves(1), of idx sec off run']
        last_run_caves(2) [of idx sec off run' f1] rng old m1 by (auto simp: sec_def off_def)
    then have "found_ok bin m (Suc idx) (last_run idx sec off run' f1)"
      using f False by (fastforce simp: scan_inv_def found_ok_def sec_def less_Suc_eq)
    with False s show ?thesis by (simp add: find_in_section_def Let_def sec_def off_def)
  qed
qed

lemma found_ok_loop:
  assumes "sections_ok bin" and "offsets_ok bin" and "found_ok bin m 0 f" and "n \<le> length (bin_sections bin)"
  shows "\<exists>f'. mfold (find_in_section bin) [0 ..< n] f = Some f' \<and> found_ok bin m n f'"
  using assms(4)
proof (induction n)
  case 0
  with assms(3) show ?case by simp
next
  case (Suc n)
  then obtain f1 where "mfold (find_in_section bin) [0 ..< n] f = Some f1" "found_ok bin m n f1" by auto
  with find_in_section_ok [OF assms(1,2) _ this(2)] Suc.prems show ?case
    by (auto simp: mfold_append)
qed

section \<open>Code caves: allocation\<close>

text \<open>
  The interface of an allocator of address ranges: \<open>avail\<close> is the set of addresses it may still
  hand out, address 0 means failure.
\<close>

fun alloc_seq :: "(u64 \<Rightarrow> 's \<Rightarrow> u64 \<times> 's) \<Rightarrow> u64 list \<Rightarrow> 's \<Rightarrow> (u64 \<times> u64) list \<times> 's" where
  "alloc_seq alloc [] s = ([], s)"
| "alloc_seq alloc (n # ns) s =
     (let (a, s1) = alloc n s; (rs, s2) = alloc_seq alloc ns s1 in ((a, n) # rs, s2))"

definition block :: "u64 \<times> u64 \<Rightarrow> nat set" where
  "block r = (if fst r = 0 then {} else {unat (fst r) ..< unat (fst r) + unat (snd r)})"

locale region_allocator =
  fixes alloc :: "u64 \<Rightarrow> 's \<Rightarrow> u64 \<times> 's"
    and avail :: "'s \<Rightarrow> nat set"
    and ok :: "'s \<Rightarrow> bool"
  assumes alloc_ok: "ok s \<Longrightarrow> alloc n s = (a, s') \<Longrightarrow> ok s'"
    and alloc_block: "ok s \<Longrightarrow> alloc n s = (a, s') \<Longrightarrow> block (a, n) \<subseteq> avail s"
    and alloc_avail: "ok s \<Longrightarrow> alloc n s = (a, s') \<Longrightarrow> avail s' = avail s - block (a, n)"
begin

lemma alloc_seq_blocks:
  assumes "ok s" and "alloc_seq alloc ns s = (rs, s')"
  shows "sorted_wrt (\<lambda>x y. block x \<inter> block y = {}) rs \<and> (\<forall>r \<in> set rs. block r \<subseteq> avail s) \<and>
    avail s' = avail s - (\<Union>r \<in> set rs. block r) \<and> ok s'"
  using assms
proof (induction ns arbitrary: s rs)
  case Nil
  then show ?case by simp
next
  case (Cons n ns)
  obtain a s1 where a: "alloc n s = (a, s1)" by force
  obtain rs' s2 where r: "alloc_seq alloc ns s1 = (rs', s2)" by force
  from Cons.prems(2) a r have rs: "rs = (a, n) # rs'" "s' = s2" by simp_all
  note head = alloc_ok [OF Cons.prems(1) a] alloc_block [OF Cons.prems(1) a] alloc_avail [OF Cons.prems(1) a]
  from Cons.IH [OF head(1)] r rs head(2,3) show ?case by auto
qed

end

definition best_inv :: "E9CodeCave list \<Rightarrow> u64 \<Rightarrow> (nat \<times> u64) option \<Rightarrow> bool" where
  "best_inv cs sz best \<longleftrightarrow> (case best of
       None \<Rightarrow> (\<forall>c \<in> set cs. cave_size c < sz)
     | Some (j, m) \<Rightarrow> j < length cs \<and> m = cave_size (cs ! j) \<and> sz \<le> m \<and>
         (\<forall>c \<in> set cs. sz \<le> cave_size c \<longrightarrow> m \<le> cave_size c))"

lemma best_inv_snoc:
  assumes "best_inv cs sz best"
  shows "best_inv (cs @ [c]) sz
    (if sz \<le> cave_size c \<and> (case best of None \<Rightarrow> True | Some (j, m) \<Rightarrow> cave_size c < m)
     then Some (length cs, cave_size c) else best)"
proof (cases best)
  case None
  with assms show ?thesis by (auto simp: best_inv_def not_le)
next
  case (Some jm)
  obtain j m where "jm = (j, m)" by (cases jm)
  with assms Some show ?thesis by (auto simp: best_inv_def nth_append)
qed

lemma best_cave_inv:
  "best_inv pre sz best \<Longrightarrow> best_inv (pre @ cs) sz (best_cave cs sz (length pre) best)"
proof (induction cs arbitrary: pre best)
  case Nil
  then show ?case by simp
next
  case (Cons c cs)
  from Cons.IH [OF best_inv_snoc [OF Cons.prems, of c]] show ?case by simp
qed

lemma best_cave_correct: "best_inv cs sz (best_cave cs sz 0 None)"
  using best_cave_inv [of "[]" sz None cs] by (simp add: best_inv_def)

definition alloc_state_ok :: "E9BinPatchSession \<Rightarrow> bool" where
  "alloc_state_ok s \<longleftrightarrow> (case s_cave_finder s of
       None \<Rightarrow> True
     | Some f \<Rightarrow> caves_apart (caves f) \<and>
         (\<forall>c \<in> set (caves f). 0 < cave_address c \<and> unat (cave_address c) + unat (cave_size c) < 2 ^ 64))"

definition cave_space :: "E9BinPatchSession \<Rightarrow> nat set" where
  "cave_space s = (case s_cave_finder s of None \<Rightarrow> {} | Some f \<Rightarrow> \<Union> (cave_range ` set (caves f)))"

lemma caves_apart_update:
  assumes ap: "caves_apart cs" and i: "i < length cs" and sub: "cave_range c' \<subseteq> cave_range (cs ! i)"
  shows "caves_apart (cs[i := c'])"
  unfolding caves_apart_def sorted_wrt_iff_nth_less
proof (intro allI impI)
  fix j k assume jk: "j < k" "k < length (cs[i := c'])"
  then have dis: "cave_range (cs ! j) \<inter> cave_range (cs ! k) = {}"
    using ap by (auto simp: caves_apart_def sorted_wrt_iff_nth_less)
  have "cave_range (cs[i := c'] ! l) \<subseteq> cave_range (cs ! l)" if "l < length cs" for l
    using sub that by (cases "l = i") simp_all
  from this [of j] this [of k] jk have "cave_range (cs[i := c'] ! j) \<subseteq> cave_range (cs ! j)"
    "cave_range (cs[i := c'] ! k) \<subseteq> cave_range (cs ! k)" by simp_all
  with dis show "cave_range (cs[i := c'] ! j) \<inter> cave_range (cs[i := c'] ! k) = {}" by blast
qed

lemma cave_space_update:
  assumes ap: "caves_apart cs" and i: "i < length cs"
    and c': "cave_range c' = cave_range (cs ! i) - B" "B \<subseteq> cave_range (cs ! i)"
  shows "\<Union> (cave_range ` set (cs[i := c'])) = \<Union> (cave_range ` set cs) - B"
proof -
  have dis: "cave_range (cs ! j) \<inter> B = {}" if "j < length cs" "j \<noteq> i" for j
  proof -
    have less: "cave_range (cs ! k) \<inter> cave_range (cs ! l) = {}" if "k < l" "l < length cs" for k l
      using ap that by (auto simp: caves_apart_def sorted_wrt_iff_nth_less)
    have "cave_range (cs ! j) \<inter> cave_range (cs ! i) = {}"
      using less [of j i] less [of i j] that i by (cases "j < i") (simp_all add: Int_commute)
    with c'(2) show ?thesis by blast
  qed
  have U: "\<Union> (cave_range ` set xs) = (\<Union>j \<in> {..<length xs}. cave_range (xs ! j))" for xs
    by (auto simp: in_set_conv_nth Bex_def) blast+
  have "(\<Union>j \<in> {..<length cs}. cave_range (cs[i := c'] ! j)) = (\<Union>j \<in> {..<length cs}. cave_range (cs ! j) - B)"
  proof (rule SUP_cong)
    fix j assume "j \<in> {..<length cs}"
    then show "cave_range (cs[i := c'] ! j) = cave_range (cs ! j) - B"
      using c'(1) dis [of j] by (cases "j = i") auto
  qed simp
  then show ?thesis by (simp add: U)
qed

lemma caves_alloc_cases:
  assumes ok: "alloc_state_ok s" and a: "e9_caves_alloc n s = (a, s')"
  shows "alloc_state_ok s' \<and> block (a, n) \<subseteq> cave_space s \<and> cave_space s' = cave_space s - block (a, n)"
proof (cases "\<exists>f i m. s_cave_finder s = Some f \<and> best_cave (caves f) n 0 None = Some (i, m)")
  case False
  then have "a = 0" "s' = s"
    using a by (auto simp: e9_caves_alloc_def split: option.splits)
  with ok show ?thesis by (simp add: block_def)
next
  case True
  then obtain f i m where f: "s_cave_finder s = Some f" "best_cave (caves f) n 0 None = Some (i, m)" by blast
  define c where "c = caves f ! i"
  define c' where "c' = c\<lparr>cave_address := cave_address c + n, cave_offset := cave_offset c + n, cave_size := cave_size c - n\<rparr>"
  have b: "i < length (caves f)" "n \<le> cave_size c"
    using best_cave_correct [of "caves f" n] f(2) by (auto simp: best_inv_def c_def)
  have as: "a = cave_address c" "s' = s\<lparr>s_cave_finder := Some (f\<lparr>caves := (caves f)[i := c']\<rparr>)\<rparr>"
    using a f by (auto simp: e9_caves_alloc_def Let_def c_def c'_def)
  from ok f b(1) have ap: "caves_apart (caves f)"
    and all: "\<forall>c \<in> set (caves f). 0 < cave_address c \<and> unat (cave_address c) + unat (cave_size c) < 2 ^ 64"
    by (simp_all add: alloc_state_ok_def)
  with b(1) have cc: "0 < cave_address c" "unat (cave_address c) + unat (cave_size c) < 2 ^ 64"
    by (simp_all add: c_def)
  have le: "unat n \<le> unat (cave_size c)" using b(2) by (simp add: word_le_nat_alt)
  have u: "unat (cave_address c + n) = unat (cave_address c) + unat n" "unat (cave_size c - n) = unat (cave_size c) - unat n"
    using le cc(2) unat_add_small [of "cave_address c" n] unat_sub [OF b(2)] by simp_all
  have blk: "block (a, n) = {unat (cave_address c) ..< unat (cave_address c) + unat n}"
    using cc(1) as(1) by (simp add: block_def)
  have rng: "cave_range c' = cave_range c - block (a, n)" "block (a, n) \<subseteq> cave_range c"
    using u le by (auto simp: c'_def cave_range_def blk)
  have "alloc_state_ok s'"
  proof -
    have "\<forall>x \<in> set ((caves f)[i := c']). 0 < cave_address x \<and> unat (cave_address x) + unat (cave_size x) < 2 ^ 64"
      by (rule list_all_update [OF all]) (use u le cc in \<open>simp add: c'_def word_less_nat_alt\<close>)
    moreover have "caves_apart ((caves f)[i := c'])"
      by (rule caves_apart_update [OF ap b(1)]) (use rng in \<open>auto simp: c_def\<close>)
    ultimately show ?thesis by (simp add: alloc_state_ok_def as(2))
  qed
  moreover have "cave_space s' = cave_space s - block (a, n)"
    using cave_space_update [OF ap b(1), of c' "block (a, n)"] rng by (simp add: cave_space_def as(2) f(1) c_def)
  moreover have "block (a, n) \<subseteq> cave_space s"
    using rng(2) nth_mem [OF b(1)] by (auto simp: cave_space_def f(1) c_def)
  ultimately show ?thesis by blast
qed

interpretation cave: region_allocator e9_caves_alloc cave_space alloc_state_ok
  by unfold_locales (use caves_alloc_cases in blast)+

section \<open>A running example\<close>

text \<open>64 bytes at \<open>0x1000\<close>: a function of six bytes, a cave of 50, eight bytes of code.\<close>

definition demo_bin :: E9Binary where
  "demo_bin = \<lparr>bin_data = replicate 16 1 @ [0x55, 0x48, 0x89, 0xE5, 0x5D, 0xC3] @ replicate 50 0x90 @ replicate 8 2,
     bin_base_address = 0x1000, bin_arch = E9_ARCH_X86_64,
     bin_sections = [\<lparr>sec_addr = 0x1010, sec_size = 64, sec_flags = 6, sec_name = []\<rparr>]\<rparr>"

definition demo_session :: E9BinPatchSession where
  "demo_session = the (e9_binpatch_session_create (Some demo_bin))"

lemma demo_session_state:
  "s_bin demo_session = demo_bin" "s_patches demo_session = []" "s_finalized demo_session = False"
  "s_patches_capacity demo_session = 64" "s_output demo_session = bin_data demo_bin @ replicate 4096 0"
  by (simp_all add: demo_session_def e9_binpatch_session_create_def)

lemma demo_bin_facts:
  "bin_size demo_bin = 80" "bin_arch demo_bin = E9_ARCH_X86_64" "bin_base_address demo_bin = 0x1000"
  "length (bin_data demo_bin) = 80"
  by (simp_all add: bin_size_def demo_bin_def)

lemma demo_offset: "e9_binpatch_vaddr_to_offset (Some demo_bin) 0x1010 = 0x10"
  "e9_binpatch_vaddr_to_offset (Some demo_bin) 0x1040 = 0x40"
  by (simp_all add: e9_binpatch_vaddr_to_offset_def demo_bin_def)

text \<open>One byte replaced at the function's start, with backup and verification.\<close>

definition demo_patch :: E9BinPatch where
  "demo_patch = zero_patch\<lparr>p_type := E9_BINPATCH_BYTES, p_flags := 3, p_address := 0x1010, p_offset := 0x10,
     p_new_bytes := Some [0x53], p_new_size := 1, p_orig_size := 1, p_backup_bytes := Some [0x55],
     p_backup_size := 1\<rparr>"

text \<open>A jump back to it, in the cave.\<close>

definition demo_jump :: E9BinPatch where
  "demo_jump = zero_patch\<lparr>p_type := E9_BINPATCH_JMP, p_flags := 0, p_address := 0x1040, p_offset := 0x40,
     p_target_addr := 0x1010, p_new_size := 5, p_orig_size := 5, p_id := 1\<rparr>"

definition demo_one :: E9BinPatchSession where
  "demo_one = demo_session\<lparr>s_patches := [demo_patch]\<rparr>"

definition demo_two :: E9BinPatchSession where
  "demo_two = demo_session\<lparr>s_patches := [demo_patch, demo_jump]\<rparr>"

lemma demo_add_bytes: "e9_binpatch_bytes 0x1010 (Some [0x53]) 3 demo_session = Some (0, demo_one)"
proof -
  have "rd_region (bin_data demo_bin) 16 1 = Some [0x55]" by (simp add: rd_region_def demo_bin_def)
  then show ?thesis
    by (simp add: e9_binpatch_bytes_def if_open_def add_patch_def ensure_patch_capacity_def demo_session_state
        demo_offset make_backup_def E9_BINPATCH_FLAG_BACKUP_def demo_bin_facts zero_patch_def demo_one_def demo_patch_def)
qed

lemma demo_add_jmp: "e9_binpatch_jmp 0x1040 0x1010 0 demo_one = Some (1, demo_two)"
  by (simp add: e9_binpatch_jmp_def if_open_def add_patch_def ensure_patch_capacity_def demo_session_state
      demo_offset make_backup_def E9_BINPATCH_FLAG_BACKUP_def demo_bin_facts zero_patch_def demo_one_def demo_two_def
      demo_jump_def branch_size_def)

lemma demo_bp_start: "bp_start demo_session"
proof -
  have "length (bin_data demo_bin) < BIN_MAX" by (simp add: demo_bin_def BIN_MAX_def)
  then show ?thesis
    unfolding bp_start_def
    by (intro exI [of _ demo_bin]) (simp add: demo_session_def e9_binpatch_session_create_def)
qed

lemma demo_two_reach: "reach bp_start bp_step 2 demo_two"
proof -
  have "reach bp_start bp_step 0 demo_session" using demo_bp_start by (rule reach_start)
  moreover have "bp_step demo_session demo_one" by (rule bp_bytes [OF demo_add_bytes]) (simp add: BIN_MAX_def)
  ultimately have "reach bp_start bp_step (Suc 0) demo_one" by (rule reach_step)
  moreover have "bp_step demo_one demo_two" by (rule bp_jmp [OF demo_add_jmp])
  ultimately have "reach bp_start bp_step (Suc (Suc 0)) demo_two" by (rule reach_step)
  then show ?thesis by (simp add: numeral_2_eq_2)
qed

section \<open>Properties\<close>



text \<open>
  The far call of AArch64 does not reach its target: the load takes its literal eight
  bytes on, where the branch over the literal is encoded, and not the target stored behind it.
\<close>

theorem bp_a64_far_call_wrong:
  "a64_dest 0 (e9_binpatch_gen_call E9_ARCH_AARCH64 0 0x10000000) = Some 0x1000000014000003"
  by code_simp

text \<open>
  NOP filling: \<open>e9_binpatch_gen_nops\<close> overwrites a range inside the buffer and nothing
  else.  On x86-64 the whole range becomes a sequence of the recommended NOP encodings of one
  to nine bytes; on AArch64 it becomes NOP instructions up to the last multiple of four bytes.
\<close>

theorem bp_nops_fill:
  assumes "off + n \<le> length buf"
  shows "\<exists>fl. e9_binpatch_gen_nops arch buf off n = Some (take off buf @ fl @ drop (off + length fl) buf) \<and>
    (if arch = E9_ARCH_AARCH64 then length fl = 4 * (n div 4) \<and> fl = concat (replicate (n div 4) (le32 0xD503201F))
     else length fl = n \<and> (\<exists>ks. sum_list ks = n \<and> (\<forall>k \<in> set ks. 1 \<le> k \<and> k \<le> 9) \<and>
       fl = concat (map (\<lambda>k. nop_seqs ! (k - 1)) ks)))"
proof (intro exI conjI)
  have "length (nop_bytes arch n) \<le> n" by (rule length_nop_bytes)
  moreover have "nop_bytes arch 0 = []" using length_nop_bytes [of arch 0] by simp
  ultimately show "e9_binpatch_gen_nops arch buf off n =
      Some (take off buf @ nop_bytes arch n @ drop (off + length (nop_bytes arch n)) buf)"
    using assms by (auto simp: e9_binpatch_gen_nops_def memcpy_to_def)
  have "le32 0xD503201F = [0x1F, 0x20, 0x03, 0xD5]" by code_simp
  then show "if arch = E9_ARCH_AARCH64
    then length (nop_bytes arch n) = 4 * (n div 4) \<and> nop_bytes arch n = concat (replicate (n div 4) (le32 0xD503201F))
    else length (nop_bytes arch n) = n \<and> (\<exists>ks. sum_list ks = n \<and> (\<forall>k \<in> set ks. 1 \<le> k \<and> k \<le> 9) \<and>
       nop_bytes arch n = concat (map (\<lambda>k. nop_seqs ! (k - 1)) ks))"
    using x86_nops_split [of n] by (simp add: nop_bytes_def a64_nops_def length_concat sum_list_replicate)
qed

theorem bp_nops_fill_witness:
  "\<exists>fl. e9_binpatch_gen_nops E9_ARCH_X86_64 [1, 2, 3, 4] 1 2 = Some ([1] @ fl @ drop (1 + length fl) [1, 2, 3, 4]) \<and>
     length fl = 2"
  using bp_nops_fill [of 1 2 "[1, 2, 3, 4]" E9_ARCH_X86_64] by auto

text \<open>
  C10.  The invariant of patch sessions: in every state reached from a new session by the
  operations of the interface, identifiers are the positions in the table, every patch has the
  sizes of its kind and the file offset of its address, every backup is a copy of the original
  bytes, and the output buffer has the size of the binary plus 4096.
\<close>

theorem bp_reachable_invariant:
  assumes "reach bp_start bp_step n s"
  shows "bp_ok s"
  using assms by (rule bp.reach_inv)

theorem bp_reachable_invariant_witness: "bp_ok demo_two"
  by (rule bp_reachable_invariant [OF demo_two_reach])

text \<open>
  C12.  Validation: for patches whose ranges do not wrap around the address space,
  \<open>e9_binpatch_validate\<close> returns 0 exactly when the ranges of all pairs of patches are disjoint.
\<close>

theorem bp_validate_iff:
  assumes "\<forall>p \<in> set (s_patches s). no_wrap p"
  shows "fst (e9_binpatch_validate s) = 0 \<longleftrightarrow>
    (\<forall>i j. i < j \<longrightarrow> j < length (s_patches s) \<longrightarrow>
       regions_apart (unat (p_offset (s_patches s ! i))) (unat (p_orig_size (s_patches s ! i)))
         (unat (p_offset (s_patches s ! j))) (unat (p_orig_size (s_patches s ! j))))"
proof -
  have ov: "patches_overlap (s_patches s ! i) (s_patches s ! j) \<longleftrightarrow>
      \<not> regions_apart (unat (p_offset (s_patches s ! i))) (unat (p_orig_size (s_patches s ! i)))
         (unat (p_offset (s_patches s ! j))) (unat (p_orig_size (s_patches s ! j)))"
    if "i < j" "j < length (s_patches s)" for i j
    using patches_overlap_iff [of "s_patches s ! i" "s_patches s ! j"] assms that
    by (auto simp: regions_apart_def)
  have "fst (e9_binpatch_validate s) = 0 \<longleftrightarrow> first_overlap (s_patches s) = None"
    by (auto simp: e9_binpatch_validate_def split: option.splits)
  then show ?thesis using ov by (auto simp: first_overlap_None)
qed

theorem bp_validate_iff_witness: "fst (e9_binpatch_validate demo_two) = 0"
proof -
  have "\<forall>p \<in> set (s_patches demo_two). no_wrap p"
    by (simp add: demo_two_def demo_patch_def demo_jump_def no_wrap_def)
  from bp_validate_iff [OF this] show ?thesis
    by (auto simp: demo_two_def demo_patch_def demo_jump_def regions_apart_def less_Suc_eq)
qed

lemma rd_region_bytes:
  assumes "\<And>k. k < length b \<Longrightarrow> rd8 d (off + k) = Some (b ! k)" and "b \<noteq> []"
  shows "rd_region d off (length b) = Some b"
proof -
  have "rd8 d (off + (length b - 1)) = Some (b ! (length b - 1))" using assms by simp
  then have len: "off + length b \<le> length d" using assms(2) by (cases b) (auto simp: buf_simps)
  then have "take (length b) (drop off d) = b"
    using assms(1) by (intro nth_equalityI) (auto simp: rd8_def split: if_splits)
  with len show ?thesis by (simp add: rd_region_def)
qed

lemma verify_loop_ok:
  assumes "\<forall>p \<in> set ps. p_type p = E9_BINPATCH_BYTES \<longrightarrow> sized p \<and>
    rd_region (s_output s) (unat (p_offset p)) (unat (p_new_size p)) = p_new_bytes p"
  shows "verify_loop ps s = Some (0, s)"
  using assms
proof (induction ps)
  case Nil
  then show ?case by simp
next
  case (Cons p ps)
  then have IH: "verify_loop ps s = Some (0, s)" by simp
  show ?case
  proof (cases "p_type p = E9_BINPATCH_BYTES")
    case True
    with Cons.prems obtain b where b: "p_new_bytes p = Some b" "length b = unat (p_new_size p)"
      "rd_region (s_output s) (unat (p_offset p)) (unat (p_new_size p)) = Some b"
      by (auto simp: sized_def)
    then have "rd_region b 0 (unat (p_new_size p)) = Some b" by (simp add: rd_region_def)
    with True b IH show ?thesis by simp
  qed (simp add: IH split: option.split)
qed

text \<open>
  C11.  Applying a session: if all recorded patches are in-place patches that fit into the output
  and the session validates, \<open>e9_binpatch_apply\<close> returns 0 and finalises the session; the bytes of
  each patch stand at its offset; every byte outside all patched ranges is unchanged; and
  \<open>e9_binpatch_verify\<close> confirms the result.
\<close>

theorem bp_apply_inplace:
  assumes "reach bp_start bp_step n s" and "\<not> s_finalized s"
    and "\<forall>p \<in> set (s_patches s). ready s p" and "fst (e9_binpatch_validate s) = 0"
  shows "\<exists>s'. e9_binpatch_apply s = Some (0, s') \<and> s_finalized s' \<and> s_patches s' = s_patches s \<and>
    (\<forall>p \<in> set (s_patches s). \<forall>img. patch_image (bin_arch (s_bin s)) p = Some img \<longrightarrow>
       (\<forall>k < length img. rd8 (s_output s') (unat (p_offset p) + k) = Some (img ! k))) \<and>
    (\<forall>i. (\<forall>p \<in> set (s_patches s). i < unat (p_offset p) \<or> unat (p_offset p) + unat (p_orig_size p) \<le> i) \<longrightarrow>
       rd8 (s_output s') i = rd8 (s_output s) i) \<and>
    e9_binpatch_verify s' = Some (0, s')"
proof -
  let ?arch = "bin_arch (s_bin s)"
  have out: "out_ok s" by (rule bp_ok_out [OF bp.reach_inv [OF assms(1)]])
  have fo: "first_overlap (s_patches s) = None"
    using assms(4) by (auto simp: e9_binpatch_validate_def split: option.splits)
  from apply_inplace [OF out assms(2,3) fo] obtain d where
    w: "wr_list memcpy_to (s_output s) (regions ?arch (s_patches s)) = Some d" and
    ap: "e9_binpatch_apply s = Some (0, s\<lparr>s_output := d, s_finalized := True\<rparr>)" by blast
  have apart: "all_apart (regions ?arch (s_patches s))" by (rule regions_all_apart [OF out assms(3) fo])
  have rd: "rd8 d (unat (p_offset p) + k) = Some (img ! k)"
    if "p \<in> set (s_patches s)" "patch_image ?arch p = Some img" "k < length img" for p img k
  proof (rule cbuf.wr_list_reads [OF w apart _ that(3)])
    show "(unat (p_offset p), img) \<in> set (regions ?arch (s_patches s))"
      using that(1,2) by (force simp: regions_def)
  qed
  have frame: "rd8 d i = rd8 (s_output s) i"
    if away: "\<forall>p \<in> set (s_patches s). i < unat (p_offset p) \<or> unat (p_offset p) + unat (p_orig_size p) \<le> i" for i
  proof (rule cbuf.wr_list_frame [OF w])
    have "i < unat (p_offset p) \<or> unat (p_offset p) + length (the (patch_image ?arch p)) \<le> i"
      if "p \<in> set (s_patches s)" for p
      using that away assms(3) length_patch_image [of p ?arch] by (fastforce simp: ready_def)
    then show "\<forall>(off, b) \<in> set (regions ?arch (s_patches s)). i < off \<or> off + length b \<le> i"
      by (auto simp: regions_def)
  qed
  have "rd_region d (unat (p_offset p)) (unat (p_new_size p)) = p_new_bytes p \<and> sized p"
    if p: "p \<in> set (s_patches s)" "p_type p = E9_BINPATCH_BYTES" for p
  proof -
    from assms(3) p have sz: "sized p" by (auto simp: ready_def)
    with p(2) obtain b where b: "p_new_bytes p = Some b" "length b = unat (p_new_size p)" "0 < length b"
      by (auto simp: sized_def word_less_nat_alt)
    then have img: "patch_image ?arch p = Some b" using p(2) by (simp add: patch_image_def)
    have "rd_region d (unat (p_offset p)) (length b) = Some b"
      by (rule rd_region_bytes) (use rd [OF p(1) img] b(3) in auto)
    with b sz show ?thesis by simp
  qed
  then have "e9_binpatch_verify (s\<lparr>s_output := d, s_finalized := True\<rparr>) = Some (0, s\<lparr>s_output := d, s_finalized := True\<rparr>)"
    using verify_loop_ok [of "s_patches s" "s\<lparr>s_output := d, s_finalized := True\<rparr>"] by (simp add: e9_binpatch_verify_def)
  with ap rd frame show ?thesis by auto
qed

lemma demo_jump_code: "e9_binpatch_gen_jmp E9_ARCH_X86_64 0x1040 0x1010 = [0xE9, 0xCB, 0xFF, 0xFF, 0xFF]"
  by code_simp

lemma demo_two_ready: "\<forall>p \<in> set (s_patches demo_two). ready demo_two p"
  by (auto simp: demo_two_def demo_patch_def demo_jump_def ready_def inplace_def sized_def zero_patch_def
      in_output_def demo_session_state demo_bin_facts patch_image_def demo_jump_code Let_def)

theorem bp_apply_inplace_witness:
  "\<exists>s'. e9_binpatch_apply demo_two = Some (0, s') \<and> rd8 (s_output s') 0x10 = Some 0x53 \<and>
     rd8 (s_output s') 0 = Some 1"
proof -
  have "e9_binpatch_validate demo_two = (0, demo_two)"
    by (simp add: e9_binpatch_validate_def demo_two_def demo_patch_def demo_jump_def patches_overlap_def)
  moreover have "\<not> s_finalized demo_two" by (simp add: demo_two_def demo_session_state)
  moreover have "patch_image E9_ARCH_X86_64 demo_patch = Some [0x53]"
    by (simp add: patch_image_def demo_patch_def)
  moreover have "s_patches demo_two = [demo_patch, demo_jump]" "bin_arch (s_bin demo_two) = E9_ARCH_X86_64"
    by (simp_all add: demo_two_def demo_session_state demo_bin_facts)
  moreover have "rd8 (s_output demo_two) 0 = Some 1"
    by (simp add: demo_two_def demo_session_state rd8_def demo_bin_def nth_append)
  moreover have "unat (p_offset demo_patch) = 16" "unat (p_offset demo_jump) = 64"
    by (simp_all add: demo_patch_def demo_jump_def)
  ultimately show ?thesis using bp_apply_inplace [OF demo_two_reach _ demo_two_ready] by fastforce
qed

text \<open>
  Undo: in every reachable state, reverting a patch that has a backup succeeds, puts the
  original bytes of the binary back into the range of the patch, and changes nothing else;
  \<open>e9_binpatch_revert_all\<close> restores the whole binary and reopens the session.
\<close>

theorem bp_revert_restores:
  assumes "reach bp_start bp_step n s"
  shows "(\<forall>i < length (s_patches s). p_backup_bytes (s_patches s ! i) \<noteq> None \<longrightarrow>
      (let p = s_patches s ! i; len = unat (p_backup_size p) in
       \<exists>s'. e9_binpatch_revert (int i) s = Some (0, s') \<and>
         rd_region (s_output s') (unat (p_offset p)) len = rd_region (bin_data (s_bin s)) (unat (p_offset p)) len \<and>
         (\<forall>k. k < unat (p_offset p) \<or> unat (p_offset p) + len \<le> k \<longrightarrow> rd8 (s_output s') k = rd8 (s_output s) k))) \<and>
    (\<exists>s'. e9_binpatch_revert_all s = Some (0, s') \<and> \<not> s_finalized s' \<and> s_patches s' = s_patches s \<and>
       take (length (bin_data (s_bin s))) (s_output s') = bin_data (s_bin s))"
proof (intro conjI allI impI)
  have ok: "bp_ok s" by (rule bp.reach_inv [OF assms])
  show "\<exists>s'. e9_binpatch_revert_all s = Some (0, s') \<and> \<not> s_finalized s' \<and> s_patches s' = s_patches s \<and>
       take (length (bin_data (s_bin s))) (s_output s') = bin_data (s_bin s)"
    using revert_all_ok [OF ok] by auto
  fix i assume i: "i < length (s_patches s)" "p_backup_bytes (s_patches s ! i) \<noteq> None"
  define p where "p = s_patches s ! i"
  from i obtain b where b: "p_backup_bytes p = Some b" by (auto simp: p_def)
  have "p \<in> set (s_patches s)" using i(1) by (simp add: p_def)
  with ok b have bk: "rd_region (bin_data (s_bin s)) (unat (p_offset p)) (unat (p_backup_size p)) = Some b"
    "0 < p_backup_size p" by (auto simp: bp_ok_def backup_ok_def)
  then have len: "length b = unat (p_backup_size p)" "unat (p_offset p) + length b \<le> length (bin_data (s_bin s))"
    by (auto simp: rd_region_def split: if_splits)
  have "unat (p_offset p) + length b \<le> length (s_output s)" using len(2) ok by (simp add: bp_ok_def)
  then obtain d where d: "memcpy_to (s_output s) (unat (p_offset p)) b = Some d" using memcpy_to_defined by blast
  have rev: "e9_binpatch_revert (int i) s = Some (0, s\<lparr>s_output := d\<rparr>)"
    using i(1) b bk(2) len(1) d
    by (simp add: e9_binpatch_revert_def Let_def p_def [symmetric] rd_region_def out_write_def)
  have "rd_region d (unat (p_offset p)) (unat (p_backup_size p)) = Some b"
    using rd_region_memcpy_to [OF d] len(1) by simp
  moreover have "rd8 d k = rd8 (s_output s) k"
    if "k < unat (p_offset p) \<or> unat (p_offset p) + unat (p_backup_size p) \<le> k" for k
    using cbuf.get_wr [OF d, of k] that len(1) by auto
  ultimately show "let p = s_patches s ! i; len = unat (p_backup_size p) in
       \<exists>s'. e9_binpatch_revert (int i) s = Some (0, s') \<and>
         rd_region (s_output s') (unat (p_offset p)) len = rd_region (bin_data (s_bin s)) (unat (p_offset p)) len \<and>
         (\<forall>k. k < unat (p_offset p) \<or> unat (p_offset p) + len \<le> k \<longrightarrow> rd8 (s_output s') k = rd8 (s_output s) k)"
    using rev bk(1) by (simp add: Let_def p_def [symmetric])
qed

theorem bp_revert_restores_witness:
  "(\<exists>s'. e9_binpatch_revert 0 demo_two = Some (0, s') \<and> rd_region (s_output s') 16 1 = Some [0x55]) \<and>
   (\<exists>s'. e9_binpatch_revert_all demo_two = Some (0, s') \<and> take 80 (s_output s') = bin_data demo_bin)"
proof -
  have st: "s_patches demo_two = [demo_patch, demo_jump]" "s_bin demo_two = demo_bin"
    by (simp_all add: demo_two_def demo_session_state)
  have p: "p_backup_bytes demo_patch = Some [0x55]" "unat (p_backup_size demo_patch) = 1" "unat (p_offset demo_patch) = 16"
    by (simp_all add: demo_patch_def)
  have "rd_region (bin_data demo_bin) 16 1 = Some [0x55]" by (simp add: rd_region_def demo_bin_def)
  with bp_revert_restores [OF demo_two_reach] show ?thesis
    by (auto simp: st p Let_def demo_bin_facts)
qed


lemma demo_bin_ok: "sections_ok demo_bin" "offsets_ok demo_bin"
  by (simp_all add: sections_ok_def offsets_ok_def demo_bin_def e9_binpatch_vaddr_to_offset_def BIN_MAX_def)


text \<open>
  Allocation from caves: a successful \<open>e9_caves_alloc\<close> takes the block from the start of a
  smallest cave that is large enough, fails only when no cave is, and for any sequence of requests
  the blocks handed out are pairwise disjoint and lie inside the caves.
\<close>

theorem bp_caves_alloc:
  assumes "alloc_state_ok s" and "s_cave_finder s = Some f"
  shows "(case e9_caves_alloc n s of (a, s') \<Rightarrow>
      if \<exists>c \<in> set (caves f). n \<le> cave_size c
      then \<exists>c \<in> set (caves f). a = cave_address c \<and> n \<le> cave_size c \<and>
        (\<forall>d \<in> set (caves f). n \<le> cave_size d \<longrightarrow> cave_size c \<le> cave_size d)
      else a = 0 \<and> s' = s) \<and>
    (case alloc_seq e9_caves_alloc ns s of (rs, s') \<Rightarrow>
      sorted_wrt (\<lambda>x y. block x \<inter> block y = {}) rs \<and> (\<forall>r \<in> set rs. block r \<subseteq> cave_space s))"
proof (rule conjI)
  show "case alloc_seq e9_caves_alloc ns s of (rs, s') \<Rightarrow>
      sorted_wrt (\<lambda>x y. block x \<inter> block y = {}) rs \<and> (\<forall>r \<in> set rs. block r \<subseteq> cave_space s)"
    using cave.alloc_seq_blocks [OF assms(1)] by (auto split: prod.split)
  show "case e9_caves_alloc n s of (a, s') \<Rightarrow>
      if \<exists>c \<in> set (caves f). n \<le> cave_size c
      then \<exists>c \<in> set (caves f). a = cave_address c \<and> n \<le> cave_size c \<and>
        (\<forall>d \<in> set (caves f). n \<le> cave_size d \<longrightarrow> cave_size c \<le> cave_size d)
      else a = 0 \<and> s' = s"
  proof (cases "best_cave (caves f) n 0 None")
    case None
    then have "\<forall>c \<in> set (caves f). cave_size c < n"
      using best_cave_correct [of "caves f" n] by (simp add: best_inv_def)
    then have "\<not> (\<exists>c \<in> set (caves f). n \<le> cave_size c)" by (auto simp: not_le [symmetric])
    with None assms(2) show ?thesis by (simp add: e9_caves_alloc_def)
  next
    case (Some jm)
    obtain j k where jm: "jm = (j, k)" by (cases jm)
    with Some best_cave_correct [of "caves f" n] have
      j: "j < length (caves f)" "n \<le> cave_size (caves f ! j)"
      "\<forall>d \<in> set (caves f). n \<le> cave_size d \<longrightarrow> cave_size (caves f ! j) \<le> cave_size d"
      by (auto simp: best_inv_def)
    have mem: "caves f ! j \<in> set (caves f)" using j(1) by simp
    have "fst (e9_caves_alloc n s) = cave_address (caves f ! j)"
      using Some jm assms(2) by (simp add: e9_caves_alloc_def Let_def)
    with mem j show ?thesis by (auto split: prod.split)
  qed
qed

definition demo_caves :: "E9CodeCave list" where
  "demo_caves = [\<lparr>cave_address = 0x1016, cave_offset = 0x16, cave_size = 50, cave_writable = True,
     cave_executable = True, cave_section_idx = 0\<rparr>]"

theorem bp_caves_alloc_witness:
  "fst (e9_caves_alloc 40 (demo_session\<lparr>s_cave_finder := Some \<lparr>caves = demo_caves, caves_capacity = 64, min_cave_size = 16\<rparr>\<rparr>)) = 0x1016"
proof -
  let ?s = "demo_session\<lparr>s_cave_finder := Some \<lparr>caves = demo_caves, caves_capacity = 64, min_cave_size = 16\<rparr>\<rparr>"
  have "alloc_state_ok ?s" by (simp add: alloc_state_ok_def caves_apart_def demo_caves_def)
  from bp_caves_alloc [OF this, of "\<lparr>caves = demo_caves, caves_capacity = 64, min_cave_size = 16\<rparr>" 40 "[]"]
  show ?thesis by (auto simp: demo_caves_def split: prod.splits)
qed

lemma cave_install_new_bytes: "cave_install (p\<lparr>p_new_bytes := b\<rparr>) a s = cave_install p a s"
  by (simp add: cave_install_def Let_def cong: if_cong)

lemma cave_install_offset:
  assumes "bin_arch (s_bin s) \<noteq> E9_ARCH_AARCH64" and "0 < p_orig_size p" and "p_orig_size p < 5"
  shows "cave_install (p\<lparr>p_offset := off\<rparr>) a s = cave_install p a s"
proof -
  have "unat (p_orig_size p) < 5" using assms(3) by (simp add: word_less_nat_alt)
  moreover have "5 \<le> length (e9_binpatch_gen_jmp (bin_arch (s_bin s)) x y)" for x y
    using assms(1) by (simp add: e9_binpatch_gen_jmp_def Let_def)
  ultimately have "\<not> length (e9_binpatch_gen_jmp (bin_arch (s_bin s)) x y) \<le> unat (p_orig_size p)" for x y
    by (meson le_trans not_le)
  moreover have "p_orig_size p \<noteq> 0" using assms(2) by auto
  ultimately show ?thesis by (simp add: cave_install_def Let_def cong: if_cong)
qed

lemma size_tail_defined: "\<exists>n. size_tail code pos m imm = Some n"
  by (auto simp: size_tail_def rd8_def Let_def)

lemma skip_prefixes_defined: "\<exists>n. skip_prefixes code pos = Some n"
proof (induction code pos rule: skip_prefixes.induct)
  case (1 code pos)
  then show ?case by (subst skip_prefixes.simps) (auto simp: rd8_def)
qed

lemma insn_size_defined: "\<exists>n. x86_insn_size code = Some n"
proof -
  have two: "\<exists>n. size_two_byte code k = Some n" for k
    using size_tail_defined by (auto simp: size_two_byte_def rd8_def Let_def)
  have one: "\<exists>n. size_one_byte code k opc = Some n" for k opc
    using size_tail_defined by (simp add: size_one_byte_def)
  obtain pos where "skip_prefixes code 0 = Some pos" using skip_prefixes_defined by blast
  with two one show ?thesis by (auto simp: x86_insn_size_def rd8_def Let_def)
qed

lemma insn_size_at_defined: "\<exists>n. e9_binpatch_insn_size_at b addr = Some n"
  using insn_size_defined by (auto simp: e9_binpatch_insn_size_at_def Let_def split: option.split)



text \<open>
  The instruction length decoder of the pipeline never reads outside the 15 bytes it is
  given and never returns more than 35, but it is wrong on common instructions: it omits half
  of the immediate of \<open>mov rax, imm64\<close> (48 B8, ten bytes long) and the immediates of
  \<open>add eax, imm32\<close> (81 C0, six bytes), \<open>add eax, imm8\<close> (83 C0, three bytes) and
  \<open>mov dword [rax], imm32\<close> (C7 00, six bytes).
\<close>

theorem bp_insn_size:
  "(\<exists>n. e9_binpatch_insn_size_at b addr = Some n \<and> n \<le> 35) \<and>
   x86_insn_size [0x48, 0xB8, 1, 2, 3, 4, 5, 6, 7, 8] = Some 6 \<and>
   x86_insn_size [0x81, 0xC0, 1, 2, 3, 4] = Some 2 \<and> x86_insn_size [0x83, 0xC0, 1] = Some 2 \<and>
   x86_insn_size [0xC7, 0x00, 1, 2, 3, 4] = Some 2"
proof (intro conjI)
  obtain n where "e9_binpatch_insn_size_at b addr = Some n"
    using insn_size_at_defined by blast
  with insn_size_at_le show "\<exists>n. e9_binpatch_insn_size_at b addr = Some n \<and> n \<le> 35" by blast
qed (code_simp, code_simp, code_simp, code_simp)
end
