(* ===== verification/E9Text.thy ===== *)
theory E9Text
  imports E9Prelude
begin

text \<open>
  Formatted output shared by the two disassemblers (\<open>vendor/e9disasm_x86.c\<close> and
  \<open>vendor/e9disasm_arm64.c\<close>): the conversions of \<open>snprintf\<close> they use and the idiom
  \<open>p += snprintf(p, end - p, ...)\<close> that appends pieces of text to a buffer.

  \<open>p\<close> and \<open>end\<close> are indices into the buffer.  \<open>snprintf\<close> returns the length the text
  would have had, so \<open>p\<close> may move past \<open>end\<close>; the next \<open>end - p\<close> is then negative, becomes a
  huge \<open>size_t\<close>, and the call writes without a bound: an access outside the buffer, \<open>None\<close>.
\<close>

section \<open>Conversions\<close>

definition hex_digit :: "nat \<Rightarrow> char" where
  "hex_digit n = ''0123456789abcdef'' ! (n mod 16)"

text \<open>\<open>%llx\<close>\<close>

function hex :: "nat \<Rightarrow> string" where
  "hex n = (if n < 16 then [hex_digit n] else hex (n div 16) @ [hex_digit (n mod 16)])"
  by pat_completeness auto
termination by (relation "measure id") auto

declare hex.simps [simp del]

text \<open>\<open>%0kx\<close>\<close>

definition hex_pad :: "nat \<Rightarrow> nat \<Rightarrow> string" where
  "hex_pad k n = replicate (k - length (hex n)) (CHR ''0'') @ hex n"

text \<open>\<open>%d\<close> for a value that is not negative\<close>

function dec :: "nat \<Rightarrow> string" where
  "dec n = (if n < 10 then [hex_digit n] else dec (n div 10) @ [hex_digit (n mod 10)])"
  by pat_completeness auto
termination by (relation "measure id") auto

declare dec.simps [simp del]

text \<open>\<open>(unsigned long long)v\<close> of an \<open>int64_t\<close>; negation wraps.\<close>

definition ull :: "int \<Rightarrow> nat" where
  "ull v = unat (word_of_int v :: u64)"

section \<open>Appending to a buffer\<close>

text \<open>\<open>p += snprintf(p, end - p, "%s", s)\<close>\<close>

definition put :: "nat \<Rightarrow> string \<Rightarrow> nat \<times> bytes \<Rightarrow> (nat \<times> bytes) ub" where
  "put endp s pb =
     (let (p, buf) = pb in
      if p = endp then Some (p + length s, buf)
      else do {
        buf \<leftarrow> memcpy_to buf p (str_bytes (if p < endp then take (endp - p - 1) s else s) @ [0]);
        Some (p + length s, buf)
      })"

text \<open>The loop over the operands: it stops as soon as \<open>p\<close> has reached \<open>end\<close>.\<close>

fun put_operands :: "nat \<Rightarrow> string list list \<Rightarrow> bool \<Rightarrow> nat \<times> bytes \<Rightarrow> (nat \<times> bytes) ub" where
  "put_operands endp [] first pb = Some pb"
| "put_operands endp (pieces # rest) first pb =
     (if fst pb < endp then do {
        pb \<leftarrow> put endp (if first then '' '' else '', '') pb;
        pb \<leftarrow> mfold (put endp) pieces pb;
        put_operands endp rest False pb
      } else Some pb)"

text \<open>
  The body shared by \<open>e9_x86_insn_format\<close> and \<open>e9_a64_insn_format\<close>: leading pieces (prefixes
  and mnemonic), then the operands, then the terminating zero at \<open>p\<close>.
\<close>

definition format_insn :: "string list \<Rightarrow> string list list \<Rightarrow> bytes \<Rightarrow> bytes ub" where
  "format_insn lead ops buf =
     (if buf = [] then Some buf
      else do {
        pb \<leftarrow> mfold (put (length buf - 1)) lead (0, buf);
        (p, buf) \<leftarrow> put_operands (length buf - 1) ops True pb;
        memcpy_to buf p [0]
      })"

text \<open>The text that all these pieces spell.\<close>

definition operands_text :: "string list list \<Rightarrow> bool \<Rightarrow> string" where
  "operands_text ops first =
     (case ops of [] \<Rightarrow> '''' | x # xs \<Rightarrow>
        (if first then '' '' else '', '') @ concat x @ concat (map (\<lambda>y. '', '' @ concat y) xs))"

definition insn_text :: "string list \<Rightarrow> string list list \<Rightarrow> string" where
  "insn_text lead ops = concat lead @ operands_text ops True"

section \<open>Lengths\<close>

lemma length_hex_ge: "1 \<le> length (hex n)"
  by (subst hex.simps) simp

lemma length_hex_le: "n < 16 ^ k \<Longrightarrow> 0 < k \<Longrightarrow> length (hex n) \<le> k"
proof (induction n arbitrary: k rule: hex.induct)
  case (1 n)
  show ?case
  proof (cases "n < 16")
    case True
    with 1(3) show ?thesis by (subst hex.simps) simp
  next
    case False
    from 1(3) obtain j where k: "k = Suc j" by (cases k) auto
    with 1(2) False have "n div 16 < 16 ^ j" "0 < j"
      by (auto simp: less_mult_imp_div_less mult.commute intro: Nat.gr0I)
    with 1(1) [OF False] k False show ?thesis by (subst hex.simps) simp
  qed
qed

lemma length_dec_le: "n < 10 ^ k \<Longrightarrow> 0 < k \<Longrightarrow> length (dec n) \<le> k"
proof (induction n arbitrary: k rule: dec.induct)
  case (1 n)
  show ?case
  proof (cases "n < 10")
    case True
    with 1(3) show ?thesis by (subst dec.simps) simp
  next
    case False
    from 1(3) obtain j where k: "k = Suc j" by (cases k) auto
    with 1(2) False have "n div 10 < 10 ^ j" "0 < j"
      by (auto simp: less_mult_imp_div_less mult.commute intro: Nat.gr0I)
    with 1(1) [OF False] k False show ?thesis by (subst dec.simps) simp
  qed
qed

lemma length_hex_ull: "length (hex (ull v)) \<le> 16"
  using length_hex_le [of "ull v" 16] unat_u64_less [of "word_of_int v"] by (simp add: ull_def)

lemma length_hex_u8: "length (hex (unat (b :: u8))) \<le> 2"
  using length_hex_le [of "unat b" 2] unat_u8_less [of b] by simp

lemma length_hex_u32: "length (hex (unat (b :: u32))) \<le> 8"
  using length_hex_le [of "unat b" 8] unat_u32_less [of b] by simp

lemma length_hex_pad: "length (hex_pad k n) = max k (length (hex n))"
  by (simp add: hex_pad_def)

lemma length_dec_u8: "length (dec (unat (b :: u8))) \<le> 3"
  using length_dec_le [of "unat b" 3] unat_u8_less [of b] by simp

section \<open>What ends up in the buffer\<close>

text \<open>The buffer starts with a text of length \<open>p\<close> and has not changed its size.\<close>

definition holds :: "nat \<Rightarrow> string \<Rightarrow> nat \<times> bytes \<Rightarrow> bool" where
  "holds n s pb \<longleftrightarrow> fst pb = length s \<and> length (snd pb) = n \<and> take (length s) (snd pb) = str_bytes s"

lemma str_bytes_append [simp]: "str_bytes (s @ t) = str_bytes s @ str_bytes t"
  by (simp add: str_bytes_def)

lemma put_holds:
  assumes "holds n t pb" and "length t + length s < n - 1"
  shows "\<exists>pb'. put (n - 1) s pb = Some pb' \<and> holds n (t @ s) pb'"
proof -
  obtain p buf where pb: "pb = (p, buf)" by (cases pb)
  with assms(1) have h: "p = length t" "length buf = n" "take p buf = str_bytes t"
    by (auto simp: holds_def)
  have s: "take (n - 1 - p - 1) s = s" using assms(2) h(1) by simp
  have lt: "p < n - 1" using assms(2) h(1) by simp
  have "memcpy_to buf p (str_bytes s @ [0]) =
      Some (take p buf @ (str_bytes s @ [0]) @ drop (p + Suc (length s)) buf)"
    using assms(2) h by (simp add: memcpy_to_def)
  with lt s pb h show ?thesis by (simp add: put_def holds_def)
qed

lemma puts_holds:
  assumes "holds n t pb" and "length t + length (concat ss) < n - 1"
  shows "\<exists>pb'. mfold (put (n - 1)) ss pb = Some pb' \<and> holds n (t @ concat ss) pb'"
  using assms
proof (induction ss arbitrary: t pb)
  case Nil
  then show ?case by simp
next
  case (Cons s ss)
  from put_holds [OF Cons.prems(1), of s] Cons.prems(2) obtain pb1
    where pb1: "put (n - 1) s pb = Some pb1" "holds n (t @ s) pb1" by auto
  from Cons.IH [OF pb1(2)] Cons.prems(2) obtain pb2
    where "mfold (put (n - 1)) ss pb1 = Some pb2" "holds n ((t @ s) @ concat ss) pb2" by auto
  with pb1(1) show ?case by simp
qed

text \<open>Whatever is cut off, \<open>p\<close> moves by the full length of the texts.\<close>

lemma put_move: "put endp s pb = Some pb' \<Longrightarrow> fst pb' = fst pb + length s \<and> length (snd pb') = length (snd pb)"
  by (auto simp: put_def Let_def case_prod_beta Option.bind_eq_Some_conv length_memcpy_to split: if_splits)

lemma puts_move:
  "mfold (put endp) ss pb = Some pb' \<Longrightarrow> fst pb' = fst pb + length (concat ss) \<and> length (snd pb') = length (snd pb)"
proof (induction ss arbitrary: pb)
  case Nil
  then show ?case by simp
next
  case (Cons s ss)
  then obtain pb1 where "put endp s pb = Some pb1" "mfold (put endp) ss pb1 = Some pb'"
    by (auto simp: Option.bind_eq_Some_conv)
  with Cons.IH put_move show ?case by fastforce
qed

lemma operands_text_Cons:
  "operands_text (x # xs) first = (if first then '' '' else '', '') @ concat x @ operands_text xs False"
  by (cases xs) (simp_all add: operands_text_def)

lemma operands_text_width: "length (operands_text ops first) \<le> 2 * length ops + (\<Sum>x\<leftarrow>ops. length (concat x))"
proof (induction ops arbitrary: first)
  case Nil
  then show ?case by (simp add: operands_text_def)
next
  case (Cons x ops)
  from Cons [of False] show ?case by (simp add: operands_text_Cons)
qed

lemma put_operands_holds:
  assumes "holds n t pb" and "length t + length (operands_text ops first) < n - 1"
  shows "\<exists>pb'. put_operands (n - 1) ops first pb = Some pb' \<and> holds n (t @ operands_text ops first) pb'"
  using assms
proof (induction ops arbitrary: t pb first)
  case Nil
  then show ?case by (simp add: operands_text_def)
next
  case (Cons x xs)
  let ?sep = "if first then '' '' else '', ''"
  have len: "length t + length ?sep + length (concat x) + length (operands_text xs False) < n - 1"
    using Cons.prems(2) by (simp add: operands_text_Cons)
  from put_holds [OF Cons.prems(1), of ?sep] len obtain pb1
    where pb1: "put (n - 1) ?sep pb = Some pb1" "holds n (t @ ?sep) pb1" by auto
  from puts_holds [OF pb1(2), of x] len obtain pb2
    where pb2: "mfold (put (n - 1)) x pb1 = Some pb2" "holds n ((t @ ?sep) @ concat x) pb2" by auto
  from Cons.IH [OF pb2(2), of False] len obtain pb3
    where pb3: "put_operands (n - 1) xs False pb2 = Some pb3"
      "holds n (((t @ ?sep) @ concat x) @ operands_text xs False) pb3" by auto
  have "fst pb < n - 1" using Cons.prems(1) len by (simp add: holds_def)
  with pb1 pb2 pb3 show ?case by (simp add: operands_text_Cons)
qed

text \<open>A text that leaves one byte to spare is stored with its terminating zero.\<close>

lemma format_insn_fits:
  assumes "length (insn_text lead ops) < length buf - 1"
  shows "\<exists>rest. format_insn lead ops buf = Some (str_bytes (insn_text lead ops) @ 0 # rest) \<and>
    length rest = length buf - Suc (length (insn_text lead ops))"
proof -
  let ?n = "length buf"
  have len: "length (concat lead) + length (operands_text ops True) < ?n - 1"
    using assms by (simp add: insn_text_def)
  have "holds ?n [] (0, buf)" by (simp add: holds_def str_bytes_def)
  from puts_holds [OF this, of lead] len obtain pb1
    where pb1: "mfold (put (?n - 1)) lead (0, buf) = Some pb1" "holds ?n (concat lead) pb1" by auto
  from put_operands_holds [OF pb1(2), of ops True] len obtain pb2
    where pb2: "put_operands (?n - 1) ops True pb1 = Some pb2" "holds ?n (insn_text lead ops) pb2"
    by (auto simp: insn_text_def)
  obtain p b where pb: "pb2 = (p, b)" by (cases pb2)
  with pb2(2) have h: "p = length (insn_text lead ops)" "length b = ?n"
    "take p b = str_bytes (insn_text lead ops)" by (auto simp: holds_def)
  have "memcpy_to b p [0] = Some (take p b @ 0 # drop (Suc p) b)"
    using assms h by (simp add: memcpy_to_def)
  with pb1 pb2 pb h assms show ?thesis by (auto simp: format_insn_def)
qed

text \<open>If already the leading text is longer than the buffer, the final zero lies outside.\<close>

lemma format_insn_too_small:
  assumes "length s \<ge> length buf" and "buf \<noteq> []"
  shows "format_insn [s] [] buf = None"
  using assms by (auto simp: format_insn_def put_def memcpy_to_def)

end
