(* ===== verification/E9Disasm.thy ===== *)
theory E9Disasm
  imports E9Prelude
begin

text \<open>
  The interface between a decoder of single instructions and the loop that disassembles a
  buffer with it (\<open>e9_x86_disasm\<close>, \<open>e9_a64_disasm\<close>).

  A decoder takes the rest of the buffer and the address of its first byte and returns the
  number of bytes it has consumed, 0 for none, with the decoded instruction.  It promises that
  on a buffer it can decode at all it stays inside the buffer and consumes at least one byte.
  The loop decodes at increasing offsets until it has \<open>count\<close> instructions or too few bytes.
\<close>

text \<open>Consecutive instructions from an offset on: each starts where its predecessor ends.\<close>

fun contiguous :: "('i \<Rightarrow> u64) \<Rightarrow> (nat \<Rightarrow> nat) \<Rightarrow> u64 \<Rightarrow> nat \<Rightarrow> 'i list \<Rightarrow> bool" where
  "contiguous addr len base off [] = True"
| "contiguous addr len base off (i # is) =
     (addr i = base + word_of_nat off \<and> contiguous addr len base (off + len off) is)"

fun covered :: "(nat \<Rightarrow> nat) \<Rightarrow> nat \<Rightarrow> 'i list \<Rightarrow> nat" where
  "covered len off [] = off"
| "covered len off (i # is) = covered len (off + len off) is"

text \<open>The length of the instruction at an offset, from the length of the first instruction.\<close>

definition len_at :: "(bytes \<Rightarrow> u64 \<Rightarrow> nat) \<Rightarrow> bytes \<Rightarrow> u64 \<Rightarrow> nat \<Rightarrow> nat" where
  "len_at len code a off = len (drop off code) (a + word_of_nat off)"

locale decoder =
  fixes dec :: "bytes \<Rightarrow> u64 \<Rightarrow> (int \<times> 'i) ub"
    and loop :: "nat \<Rightarrow> bytes \<Rightarrow> nat \<Rightarrow> u64 \<Rightarrow> 'i list ub"
    and need :: nat
    and dom :: "bytes \<Rightarrow> bool"
    and addr :: "'i \<Rightarrow> u64"
    and len :: "bytes \<Rightarrow> u64 \<Rightarrow> nat"
  assumes need_pos: "0 < need"
    and dom_drop: "dom code \<Longrightarrow> dom (drop n code)"
    and dec_progress: "dom code \<Longrightarrow> need \<le> length code \<Longrightarrow>
      \<exists>i. dec code a = Some (int (len code a), i) \<and> addr i = a \<and> 0 < len code a \<and> len code a \<le> length code"
    and loop_stop: "k = 0 \<or> length code < off + need \<Longrightarrow> loop k code off a = Some []"
    and loop_next: "off + need \<le> length code \<Longrightarrow>
      dec (drop off code) (a + word_of_nat off) = Some (int n, i) \<Longrightarrow> 0 < n \<Longrightarrow> n \<le> length code - off \<Longrightarrow>
      loop (Suc k) code off a = map_option (\<lambda>is. i # is) (loop k code (off + n) a)"
begin

lemma loop_total:
  assumes "dom code" and "off \<le> length code"
  shows "\<exists>is. loop k code off a = Some is \<and> length is \<le> k \<and>
    contiguous addr (len_at len code a) a off is \<and> covered (len_at len code a) off is \<le> length code \<and>
    (length is = k \<or> length code < covered (len_at len code a) off is + need)"
  using assms(2)
proof (induction k arbitrary: off)
  case 0
  then show ?case using loop_stop [of 0] by simp
next
  case (Suc k)
  show ?case
  proof (cases "length code < off + need")
    case True
    then show ?thesis using loop_stop [of "Suc k" code off a] Suc.prems by simp
  next
    case False
    let ?n = "len_at len code a off"
    have "need \<le> length (drop off code)" using False by simp
    from dec_progress [OF dom_drop [OF assms(1)] this, of "a + word_of_nat off"] obtain i where
      i: "dec (drop off code) (a + word_of_nat off) = Some (int ?n, i)" "addr i = a + word_of_nat off"
        "0 < ?n" "?n \<le> length code - off" by (auto simp: len_at_def)
    have le: "off + ?n \<le> length code" using i(4) Suc.prems by linarith
    from Suc.IH [OF le] obtain "is" where
      "is": "loop k code (off + ?n) a = Some is" "length is \<le> k"
        "contiguous addr (len_at len code a) a (off + ?n) is" "covered (len_at len code a) (off + ?n) is \<le> length code"
        "length is = k \<or> length code < covered (len_at len code a) (off + ?n) is + need" by auto
    from loop_next [OF _ i(1,3,4)] False "is"(1) have "loop (Suc k) code off a = Some (i # is)" by simp
    with "is" i(2) show ?thesis by auto
  qed
qed

lemma covered_ge:
  assumes "dom code" and "loop k code off a = Some is" and "off \<le> length code"
  shows "off + length is \<le> covered (len_at len code a) off is"
  using assms(2,3)
proof (induction k arbitrary: off "is")
  case 0
  then show ?case using loop_stop [of 0] by simp
next
  case (Suc k)
  show ?case
  proof (cases "length code < off + need")
    case True
    then show ?thesis using loop_stop [of "Suc k" code off a] Suc.prems by simp
  next
    case False
    let ?n = "len_at len code a off"
    have "need \<le> length (drop off code)" using False by simp
    from dec_progress [OF dom_drop [OF assms(1)] this, of "a + word_of_nat off"] obtain i where
      i: "dec (drop off code) (a + word_of_nat off) = Some (int ?n, i)" "0 < ?n" "?n \<le> length code - off" by (auto simp: len_at_def)
    from loop_next [OF _ i] False Suc.prems(1) obtain js where
      js: "loop k code (off + ?n) a = Some js" "is = i # js" by auto
    have le: "off + ?n \<le> length code" using i(3) Suc.prems(2) by linarith
    from Suc.IH [OF js(1) le] js(2) i(2) show ?thesis by simp
  qed
qed

text \<open>With room for one instruction per byte the loop reaches the end of the buffer.\<close>

lemma loop_complete:
  assumes "dom code" and "length code \<le> k"
  shows "\<exists>is. loop k code 0 a = Some is \<and> contiguous addr (len_at len code a) a 0 is \<and>
    length code < covered (len_at len code a) 0 is + need \<and> covered (len_at len code a) 0 is \<le> length code"
proof -
  from loop_total [OF assms(1), of 0 k a] obtain "is" where
    "is": "loop k code 0 a = Some is" "length is \<le> k" "contiguous addr (len_at len code a) a 0 is"
      "covered (len_at len code a) 0 is \<le> length code"
      "length is = k \<or> length code < covered (len_at len code a) 0 is + need" by auto
  have "length is \<le> covered (len_at len code a) 0 is" using covered_ge [OF assms(1) "is"(1)] by simp
  with "is" assms(2) need_pos show ?thesis by (auto intro!: exI [of _ "is"])
qed

end

end
