(* ===== verification/E9DisasmX86.thy ===== *)
theory E9DisasmX86
  imports E9Text E9Disasm
begin

text \<open>
  The x86-64 disassembler \<open>vendor/e9disasm_x86.c\<close> with the types of \<open>vendor/e9disasm_x86.h\<close>.

  \<^item> A register is its enumeration value, because the code compares and indexes with it.
  \<^item> An operand is a record with one field per member of the union; the code writes one member
    per operand and reads it under the operand's type.
  \<^item> \<open>int pos\<close> is a \<open>nat\<close> that is compared through \<open>c_int\<close>, the conversion to \<open>int\<close>, as in
    \<open>pos + 4 > (int)size\<close>; the size of the buffer is the length of the list.
  \<^item> \<open>goto invalid\<close> is \<open>Inl\<close> with the instruction as it is at that point, falling out of the
    \<open>switch\<close> is \<open>Inr\<close> with the position reached.
  \<^item> The locals \<open>has_67\<close> and \<open>seg_override\<close> are never used by the code and are left out; the
    local \<open>rex\<close> is always equal to \<open>insn->rex\<close>.
\<close>

section \<open>Types\<close>

datatype E9X86Category =
    E9_X86_CAT_INVALID | E9_X86_CAT_DATA_XFER | E9_X86_CAT_ARITHMETIC | E9_X86_CAT_LOGICAL
  | E9_X86_CAT_SHIFT | E9_X86_CAT_CONTROL | E9_X86_CAT_STRING | E9_X86_CAT_FLAG | E9_X86_CAT_STACK
  | E9_X86_CAT_COMPARE | E9_X86_CAT_SIMD | E9_X86_CAT_SYSTEM | E9_X86_CAT_NOP | E9_X86_CAT_OTHER

datatype E9X86OpType = E9_X86_OP_NONE | E9_X86_OP_REG | E9_X86_OP_MEM | E9_X86_OP_IMM | E9_X86_OP_REL

type_synonym E9X86Reg = nat

definition E9_X86_REG_NONE :: E9X86Reg where [simp]: "E9_X86_REG_NONE = 0"
definition E9_X86_REG_RAX :: E9X86Reg where [simp]: "E9_X86_REG_RAX = 1"
definition E9_X86_REG_RSP :: E9X86Reg where [simp]: "E9_X86_REG_RSP = 5"
definition E9_X86_REG_RIP :: E9X86Reg where [simp]: "E9_X86_REG_RIP = 17"
definition E9_X86_REG_EAX :: E9X86Reg where [simp]: "E9_X86_REG_EAX = 18"
definition E9_X86_REG_EIP :: E9X86Reg where [simp]: "E9_X86_REG_EIP = 34"
definition E9_X86_REG_AX :: E9X86Reg where [simp]: "E9_X86_REG_AX = 35"
definition E9_X86_REG_DI :: E9X86Reg where [simp]: "E9_X86_REG_DI = 42"
definition E9_X86_REG_AL :: E9X86Reg where [simp]: "E9_X86_REG_AL = 43"
definition E9_X86_REG_SPL :: E9X86Reg where [simp]: "E9_X86_REG_SPL = 51"
definition E9_X86_REG_DIL :: E9X86Reg where [simp]: "E9_X86_REG_DIL = 54"
definition E9_X86_REG_XMM0 :: E9X86Reg where [simp]: "E9_X86_REG_XMM0 = 61"
definition E9_X86_REG_XMM15 :: E9X86Reg where [simp]: "E9_X86_REG_XMM15 = 76"

text \<open>The names in the order of the enumeration.\<close>

definition REG_NAMES :: "string list" where
  "REG_NAMES = [
     '''', ''rax'', ''rcx'', ''rdx'', ''rbx'', ''rsp'', ''rbp'', ''rsi'', ''rdi'', ''r8'', ''r9'',
     ''r10'', ''r11'', ''r12'', ''r13'', ''r14'', ''r15'', ''rip'', ''eax'', ''ecx'', ''edx'', ''ebx'',
     ''esp'', ''ebp'', ''esi'', ''edi'', ''r8d'', ''r9d'', ''r10d'', ''r11d'', ''r12d'', ''r13d'', ''r14d'',
     ''r15d'', ''eip'', ''ax'', ''cx'', ''dx'', ''bx'', ''sp'', ''bp'', ''si'', ''di'', ''al'',
     ''cl'', ''dl'', ''bl'', ''ah'', ''ch'', ''dh'', ''bh'', ''spl'', ''bpl'', ''sil'', ''dil'',
     ''cs'', ''ds'', ''es'', ''fs'', ''gs'', ''ss'', ''xmm0'', ''xmm1'', ''xmm2'', ''xmm3'', ''xmm4'',
     ''xmm5'', ''xmm6'', ''xmm7'', ''xmm8'', ''xmm9'', ''xmm10'', ''xmm11'', ''xmm12'', ''xmm13'', ''xmm14'', ''xmm15'']"

text \<open>
  The tables for ModR/M decoding: sixteen 64-bit registers from \<open>RAX\<close>, sixteen 32-bit registers
  from \<open>EAX\<close>, the eight byte registers without and with a REX prefix.
\<close>

definition REG64 :: "E9X86Reg list" where "REG64 = [1, 2, 3, 4, 5, 6, 7, 8, 9, 10, 11, 12, 13, 14, 15, 16]"
definition REG32 :: "E9X86Reg list" where "REG32 = [18, 19, 20, 21, 22, 23, 24, 25, 26, 27, 28, 29, 30, 31, 32, 33]"
definition REG8 :: "E9X86Reg list" where "REG8 = [43, 44, 45, 46, 47, 48, 49, 50]"
definition REG8_REX :: "E9X86Reg list" where "REG8_REX = [43, 44, 45, 46, 51, 52, 53, 54]"

record E9X86Mem =
  m_base :: E9X86Reg
  m_index :: E9X86Reg
  m_scale :: u8
  m_disp :: int
  m_segment :: E9X86Reg

record E9X86Operand =
  o_type :: E9X86OpType
  o_size :: u8
  o_reg :: E9X86Reg
  o_imm :: int
  o_rel :: int
  o_mem :: E9X86Mem

record E9X86Insn =
  i_address :: u64
  i_length :: u8
  i_bytes :: bytes
  i_mnemonic :: string
  i_category :: E9X86Category
  i_operands :: "E9X86Operand list"
  i_num_operands :: nat
  i_has_lock :: bool
  i_has_rep :: bool
  i_has_repne :: bool
  i_has_rex :: bool
  i_rex :: u8
  i_is_branch :: bool
  i_is_call :: bool
  i_is_ret :: bool
  i_is_conditional :: bool
  i_branch_target :: u64
  i_reads_memory :: bool
  i_writes_memory :: bool
  i_text :: bytes

text \<open>\<open>memset(insn, 0, sizeof(*insn))\<close>\<close>

definition zero_mem :: E9X86Mem where
  "zero_mem = \<lparr>m_base = 0, m_index = 0, m_scale = 0, m_disp = 0, m_segment = 0\<rparr>"

definition zero_operand :: E9X86Operand where
  "zero_operand = \<lparr>o_type = E9_X86_OP_NONE, o_size = 0, o_reg = 0, o_imm = 0, o_rel = 0, o_mem = zero_mem\<rparr>"

definition zero_insn :: E9X86Insn where
  "zero_insn = \<lparr>i_address = 0, i_length = 0, i_bytes = replicate 15 0, i_mnemonic = '''',
     i_category = E9_X86_CAT_INVALID, i_operands = replicate 4 zero_operand, i_num_operands = 0,
     i_has_lock = False, i_has_rep = False, i_has_repne = False, i_has_rex = False, i_rex = 0,
     i_is_branch = False, i_is_call = False, i_is_ret = False, i_is_conditional = False,
     i_branch_target = 0, i_reads_memory = False, i_writes_memory = False, i_text = replicate 64 0\<rparr>"

record E9X86Disasm = d_mode :: int

definition e9_x86_disasm_create :: "int \<Rightarrow> E9X86Disasm ptr" where
  "e9_x86_disasm_create mode =
     (if mode \<noteq> 16 \<and> mode \<noteq> 32 \<and> mode \<noteq> 64 then None else Some \<lparr>d_mode = mode\<rparr>)"

definition e9_x86_reg_name :: "E9X86Reg \<Rightarrow> string" where
  "e9_x86_reg_name r = (if length REG_NAMES \<le> r then ''???'' else REG_NAMES ! r)"

definition e9_x86_reg_size :: "E9X86Reg \<Rightarrow> int" where
  "e9_x86_reg_size r =
     (if E9_X86_REG_RAX \<le> r \<and> r \<le> E9_X86_REG_RIP then 8
      else if E9_X86_REG_EAX \<le> r \<and> r \<le> E9_X86_REG_EIP then 4
      else if E9_X86_REG_AX \<le> r \<and> r \<le> E9_X86_REG_DI then 2
      else if E9_X86_REG_AL \<le> r \<and> r \<le> E9_X86_REG_DIL then 1
      else if E9_X86_REG_XMM0 \<le> r \<and> r \<le> E9_X86_REG_XMM15 then 16
      else 0)"

section \<open>Reading the code\<close>

definition read_i8 :: "bytes \<Rightarrow> nat \<Rightarrow> int ub" where
  "read_i8 code pos = map_option sint (rd8 code pos)"

definition read_i32 :: "bytes \<Rightarrow> nat \<Rightarrow> int ub" where
  "read_i32 code pos = map_option sint (rd32 code pos)"

definition read_i64 :: "bytes \<Rightarrow> nat \<Rightarrow> int ub" where
  "read_i64 code pos = do {
     lo \<leftarrow> read_i32 code pos;
     hi \<leftarrow> read_i32 code (pos + 4);
     Some (sint ((word_of_int lo :: u64) OR push_bit 32 (word_of_int hi)))
   }"

text \<open>Conversion to a 32-bit \<open>int\<close>, and the test \<open>!(pos + k > (int)size)\<close>.\<close>

definition c_int :: "nat \<Rightarrow> int" where
  "c_int n = signed_take_bit 31 (int n)"

definition fits :: "bytes \<Rightarrow> nat \<Rightarrow> nat \<Rightarrow> bool" where
  "fits code pos k \<longleftrightarrow> c_int (pos + k) \<le> c_int (length code)"

definition in_code :: "bytes \<Rightarrow> nat \<Rightarrow> bool" where
  "in_code code pos \<longleftrightarrow> c_int pos < c_int (length code)"

section \<open>ModR/M\<close>

text \<open>The fields of a ModR/M or SIB byte, extended by a bit of the REX prefix.\<close>

definition field :: "u8 \<Rightarrow> nat \<Rightarrow> nat" where
  "field b k = unat (drop_bit k b AND 7)"

definition mod_field :: "u8 \<Rightarrow> nat" where
  "mod_field b = unat (drop_bit 6 b AND 3)"

definition rex_ext :: "u8 \<Rightarrow> u8 \<Rightarrow> nat \<Rightarrow> nat" where
  "rex_ext rex bit_mask n = (if rex AND bit_mask \<noteq> 0 then n + 8 else n)"

definition reg_operand :: "u8 \<Rightarrow> int \<Rightarrow> nat \<Rightarrow> E9X86Operand \<Rightarrow> E9X86Operand" where
  "reg_operand rex op_size reg op =
     (let op = op\<lparr>o_type := E9_X86_OP_REG, o_size := word_of_int op_size\<rparr> in
      if op_size = 8 then op\<lparr>o_reg := REG64 ! reg\<rparr>
      else if op_size = 4 then op\<lparr>o_reg := REG32 ! reg\<rparr>
      else if op_size = 1 then op\<lparr>o_reg := (if rex \<noteq> 0 then REG8_REX else REG8) ! (reg mod 8)\<rparr>
      else op)"

text \<open>
  The memory operand: an optional SIB byte, the base register, and the displacement.  The
  result is the return value of \<open>decode_modrm\<close> (-1 or the new position) and the operand.
\<close>

definition mem_sib ::
  "bytes \<Rightarrow> nat \<Rightarrow> u8 \<Rightarrow> nat \<Rightarrow> E9X86Operand \<Rightarrow> (nat option \<times> E9X86Operand) ub" where
  "mem_sib code pos rex md op =
     (if \<not> in_code code pos then Some (None, op)
      else do {
        sib \<leftarrow> rd8 code pos;
        let index = rex_ext rex 2 (field sib 3);
            base = rex_ext rex 1 (field sib 0);
            disp_only = (md = 0 \<and> base mod 8 = 5);
            op = op\<lparr>o_mem := (o_mem op)\<lparr>m_scale := push_bit (mod_field sib) 1,
              m_index := (if index \<noteq> 4 then REG64 ! index else m_index (o_mem op)),
              m_base := (if disp_only then E9_X86_REG_NONE else REG64 ! base)\<rparr>\<rparr>;
            pos = pos + 1
        in if disp_only
           then if \<not> fits code pos 4 then Some (None, op)
                else do {
                  d \<leftarrow> read_i32 code pos;
                  Some (Some (pos + 4), op\<lparr>o_mem := (o_mem op)\<lparr>m_disp := d\<rparr>\<rparr>)
                }
           else Some (Some pos, op)
      })"

definition mem_disp ::
  "bytes \<Rightarrow> nat \<Rightarrow> nat \<Rightarrow> nat \<Rightarrow> E9X86Operand \<Rightarrow> (int \<times> E9X86Operand) ub" where
  "mem_disp code pos md rm op =
     (if md = 1 then
        if \<not> in_code code pos then Some (-1, op)
        else do {
          d \<leftarrow> read_i8 code pos;
          Some (int (pos + 1), op\<lparr>o_mem := (o_mem op)\<lparr>m_disp := d\<rparr>\<rparr>)
        }
      else if md = 2 \<or> md = 0 \<and> rm mod 8 = 5 then
        if \<not> fits code pos 4 then Some (-1, op)
        else do {
          d \<leftarrow> read_i32 code pos;
          Some (int (pos + 4), op\<lparr>o_mem := (o_mem op)\<lparr>m_disp := d\<rparr>\<rparr>)
        }
      else Some (int pos, op))"

definition mem_operand ::
  "int \<Rightarrow> bytes \<Rightarrow> nat \<Rightarrow> u8 \<Rightarrow> int \<Rightarrow> nat \<Rightarrow> nat \<Rightarrow> E9X86Operand \<Rightarrow> (int \<times> E9X86Operand) ub" where
  "mem_operand mode code pos rex op_size md rm op =
     (let op = op\<lparr>o_type := E9_X86_OP_MEM, o_size := word_of_int op_size,
            o_mem := \<lparr>m_base = 0, m_index = 0, m_scale = 1, m_disp = 0, m_segment = 0\<rparr>\<rparr>;
          has_sib = (32 \<le> mode \<and> rm mod 8 = 4);
          rip_rel = (mode = 64 \<and> md = 0 \<and> rm mod 8 = 5)
      in if has_sib then do {
           (next_pos, op) \<leftarrow> mem_sib code pos rex md op;
           (case next_pos of None \<Rightarrow> Some (-1, op) | Some pos \<Rightarrow> mem_disp code pos md rm op)
         }
         else mem_disp code pos md rm
           (op\<lparr>o_mem := (o_mem op)\<lparr>m_base :=
              (if rip_rel then E9_X86_REG_RIP
               else if md = 0 \<and> rm mod 8 = 5 then E9_X86_REG_NONE else REG64 ! rm)\<rparr>\<rparr>))"

definition decode_modrm ::
  "int \<Rightarrow> bytes \<Rightarrow> nat \<Rightarrow> u8 \<Rightarrow> int \<Rightarrow> E9X86Operand ptr \<Rightarrow> E9X86Operand ptr \<Rightarrow>
     (int \<times> E9X86Operand ptr \<times> E9X86Operand ptr) ub" where
  "decode_modrm mode code pos rex op_size reg_op rm_op =
     (if \<not> in_code code pos then Some (-1, reg_op, rm_op)
      else do {
        modrm \<leftarrow> rd8 code pos;
        let md = mod_field modrm;
            reg = rex_ext rex 4 (field modrm 3);
            rm = rex_ext rex 1 (field modrm 0);
            pos = pos + 1;
            reg_op = map_option (reg_operand rex op_size reg) reg_op
        in case rm_op of
             None \<Rightarrow> Some (int pos, reg_op, None)
           | Some op \<Rightarrow>
               if md = 3 then Some (int pos, reg_op, Some (reg_operand rex op_size rm op))
               else do {
                 (r, op) \<leftarrow> mem_operand mode code pos rex op_size md rm op;
                 Some (r, reg_op, Some op)
               }
      })"

section \<open>Decoding one instruction\<close>

text \<open>Prefixes.  The state is the flag \<open>has_66\<close> and the instruction.\<close>

definition x86_prefix :: "int \<Rightarrow> u8 \<Rightarrow> bool \<times> E9X86Insn \<Rightarrow> (bool \<times> E9X86Insn) option" where
  "x86_prefix mode b st =
     (let (has_66, insn) = st in
      if b = 0xF0 then Some (has_66, insn\<lparr>i_has_lock := True\<rparr>)
      else if b = 0xF2 then Some (has_66, insn\<lparr>i_has_repne := True\<rparr>)
      else if b = 0xF3 then Some (has_66, insn\<lparr>i_has_rep := True\<rparr>)
      else if b \<in> {0x2E, 0x36, 0x3E, 0x26, 0x64, 0x65} then Some (has_66, insn)
      else if b = 0x66 then Some (True, insn)
      else if b = 0x67 then Some (has_66, insn)
      else if mode = 64 \<and> 0x40 \<le> b \<and> b \<le> 0x4F
        then Some (has_66, insn\<lparr>i_has_rex := True, i_rex := b\<rparr>)
      else None)"

function x86_prefixes ::
  "int \<Rightarrow> bytes \<Rightarrow> nat \<Rightarrow> bool \<times> E9X86Insn \<Rightarrow> (nat \<times> bool \<times> E9X86Insn) ub" where
  "x86_prefixes mode code pos st =
     (if in_code code pos \<and> pos < length code then
        case x86_prefix mode (code ! pos) st of
          None \<Rightarrow> Some (pos, st)
        | Some st' \<Rightarrow> x86_prefixes mode code (pos + 1) st'
      else if in_code code pos then None
      else Some (pos, st))"
  by pat_completeness auto
termination by (relation "measure (\<lambda>(mode, code, pos, st). length code - pos)") auto

declare x86_prefixes.simps [simp del]

definition x86_op_size :: "int \<Rightarrow> u8 \<Rightarrow> bool \<Rightarrow> int" where
  "x86_op_size mode rex has_66 =
     (let n = (if mode = 64 then 4 else mode div 8);
          n = (if rex AND 8 \<noteq> 0 then 8 else n)
      in if has_66 then (if n = 4 then 2 else 4) else n)"

text \<open>Writing an operand of the instruction; mnemonic and category together.\<close>

definition set_op :: "nat \<Rightarrow> (E9X86Operand \<Rightarrow> E9X86Operand) \<Rightarrow> E9X86Insn \<Rightarrow> E9X86Insn" where
  "set_op k f insn = insn\<lparr>i_operands := (i_operands insn)[k := f (i_operands insn ! k)]\<rparr>"

definition named :: "string \<Rightarrow> E9X86Category \<Rightarrow> E9X86Insn \<Rightarrow> E9X86Insn" where
  "named m c insn = insn\<lparr>i_mnemonic := m, i_category := c\<rparr>"

type_synonym x86_out = "(E9X86Insn + nat \<times> E9X86Insn) ub"

definition done_at :: "nat \<Rightarrow> E9X86Insn \<Rightarrow> x86_out" where
  "done_at pos insn = Some (Inr (pos, insn))"

definition bad :: "E9X86Insn \<Rightarrow> x86_out" where
  "bad insn = Some (Inl insn)"

text \<open>The register number in the opcode, extended by \<open>REX.B\<close>.\<close>

definition opcode_reg :: "u8 \<Rightarrow> u8 \<Rightarrow> nat" where
  "opcode_reg rex n = unat (n OR push_bit 3 (rex AND 1))"

text \<open>\<open>push\<close> and \<open>pop\<close>: the register is in the opcode and \<open>REX.B\<close>.\<close>

definition x86_push_pop :: "int \<Rightarrow> u8 \<Rightarrow> u8 \<Rightarrow> string \<Rightarrow> nat \<Rightarrow> E9X86Insn \<Rightarrow> x86_out" where
  "x86_push_pop mode op base m pos insn =
     done_at pos (set_op 0 (\<lambda>o1. o1\<lparr>o_type := E9_X86_OP_REG, o_size := (if mode = 64 then 8 else 4),
         o_reg := (if mode = 64 then REG64 ! opcode_reg (i_rex insn) (op - base)
                   else REG32 ! unat (op - base))\<rparr>)
       ((named m E9_X86_CAT_STACK insn)\<lparr>i_num_operands := 1\<rparr>))"

text \<open>\<open>mov reg, imm\<close> with the immediate of four or eight bytes.\<close>

definition x86_mov_imm :: "bytes \<Rightarrow> u8 \<Rightarrow> int \<Rightarrow> nat \<Rightarrow> E9X86Insn \<Rightarrow> x86_out" where
  "x86_mov_imm code op op_size pos insn =
     (let insn = set_op 0 (\<lambda>o1. o1\<lparr>o_type := E9_X86_OP_REG, o_size := word_of_int op_size\<rparr>)
            ((named ''mov'' E9_X86_CAT_DATA_XFER insn)\<lparr>i_num_operands := 2\<rparr>);
          n = opcode_reg (i_rex insn) (op - 0xB8)
      in if op_size = 8 then
           let insn = set_op 0 (\<lambda>o1. o1\<lparr>o_reg := REG64 ! n\<rparr>) insn in
           if \<not> fits code pos 8 then bad insn
           else do {
             v \<leftarrow> read_i64 code pos;
             done_at (pos + 8) (set_op 1 (\<lambda>o1. o1\<lparr>o_type := E9_X86_OP_IMM, o_size := 8, o_imm := v\<rparr>) insn)
           }
         else
           let insn = set_op 0 (\<lambda>o1. o1\<lparr>o_reg := REG32 ! n\<rparr>) insn in
           if \<not> fits code pos 4 then bad insn
           else do {
             v \<leftarrow> read_i32 code pos;
             done_at (pos + 4) (set_op 1 (\<lambda>o1. o1\<lparr>o_type := E9_X86_OP_IMM, o_size := 4, o_imm := v\<rparr>) insn)
           })"

text \<open>A relative branch with a displacement of one or four bytes.\<close>

definition rel_done :: "u64 \<Rightarrow> nat \<Rightarrow> int \<Rightarrow> E9X86Insn \<Rightarrow> x86_out" where
  "rel_done address pos rel insn =
     done_at pos (set_op 0 (\<lambda>o1. o1\<lparr>o_type := E9_X86_OP_REL, o_rel := rel\<rparr>) (insn\<lparr>i_num_operands := 1,
       i_branch_target := address + word_of_nat pos + word_of_int rel\<rparr>))"

definition x86_rel32 :: "bytes \<Rightarrow> u64 \<Rightarrow> nat \<Rightarrow> E9X86Insn \<Rightarrow> x86_out" where
  "x86_rel32 code address pos insn =
     (if \<not> fits code pos 4 then bad insn
      else do { rel \<leftarrow> read_i32 code pos; rel_done address (pos + 4) rel insn })"

definition x86_rel8 :: "bytes \<Rightarrow> u64 \<Rightarrow> nat \<Rightarrow> E9X86Insn \<Rightarrow> x86_out" where
  "x86_rel8 code address pos insn =
     (if \<not> in_code code pos then bad insn
      else do { rel \<leftarrow> read_i8 code pos; rel_done address (pos + 1) rel insn })"

definition jcc_names :: "string list" where
  "jcc_names = [''jo'', ''jno'', ''jb'', ''jnb'', ''jz'', ''jnz'', ''jbe'', ''ja'',
     ''js'', ''jns'', ''jp'', ''jnp'', ''jl'', ''jge'', ''jle'', ''jg'']"

definition jcc :: "u8 \<Rightarrow> E9X86Insn \<Rightarrow> E9X86Insn" where
  "jcc cc insn = (named (jcc_names ! unat cc) E9_X86_CAT_CONTROL insn)
     \<lparr>i_is_branch := True, i_is_conditional := True\<rparr>"

text \<open>
  Calls of \<open>decode_modrm\<close> on operands of the instruction: \<open>ri\<close> and \<open>mi\<close> are the operands that
  receive the register and the r/m field, \<open>None\<close> for a null pointer.
\<close>

definition store_op :: "nat option \<Rightarrow> E9X86Operand ptr \<Rightarrow> E9X86Insn \<Rightarrow> E9X86Insn" where
  "store_op k p insn = (case (k, p) of (Some k, Some v) \<Rightarrow> set_op k (\<lambda>_. v) insn | _ \<Rightarrow> insn)"

definition x86_modrm ::
  "int \<Rightarrow> bytes \<Rightarrow> nat \<Rightarrow> int \<Rightarrow> nat option \<Rightarrow> nat option \<Rightarrow> E9X86Insn \<Rightarrow> x86_out" where
  "x86_modrm mode code pos op_size ri mi insn = do {
     (r, reg_op, rm_op) \<leftarrow> decode_modrm mode code pos (i_rex insn) op_size
       (map_option (\<lambda>k. i_operands insn ! k) ri) (map_option (\<lambda>k. i_operands insn ! k) mi);
     let insn = store_op mi rm_op (store_op ri reg_op insn)
     in if r < 0 then bad insn else done_at (nat r) insn
   }"

definition map_out :: "(E9X86Insn \<Rightarrow> E9X86Insn) \<Rightarrow> x86_out \<Rightarrow> x86_out" where
  "map_out f r = map_option (map_sum id (apsnd f)) r"

definition two_op :: "string \<Rightarrow> E9X86Category \<Rightarrow> E9X86Insn \<Rightarrow> E9X86Insn" where
  "two_op m c insn = (named m c insn)\<lparr>i_num_operands := 2\<rparr>"

definition x86_mov_store :: "int \<Rightarrow> bytes \<Rightarrow> nat \<Rightarrow> int \<Rightarrow> E9X86Insn \<Rightarrow> x86_out" where
  "x86_mov_store mode code pos op_size insn =
     map_out (\<lambda>i. if o_type (i_operands i ! 0) = E9_X86_OP_MEM then i\<lparr>i_writes_memory := True\<rparr> else i)
       (x86_modrm mode code pos op_size (Some 1) (Some 0) (two_op ''mov'' E9_X86_CAT_DATA_XFER insn))"

definition x86_mov_load :: "int \<Rightarrow> bytes \<Rightarrow> nat \<Rightarrow> int \<Rightarrow> E9X86Insn \<Rightarrow> x86_out" where
  "x86_mov_load mode code pos op_size insn =
     map_out (\<lambda>i. if o_type (i_operands i ! 1) = E9_X86_OP_MEM then i\<lparr>i_reads_memory := True\<rparr> else i)
       (x86_modrm mode code pos op_size (Some 0) (Some 1) (two_op ''mov'' E9_X86_CAT_DATA_XFER insn))"

definition grp1 :: "string list" where
  "grp1 = [''add'', ''or'', ''adc'', ''sbb'', ''and'', ''sub'', ''xor'', ''cmp'']"

definition x86_group1 :: "int \<Rightarrow> bytes \<Rightarrow> nat \<Rightarrow> int \<Rightarrow> E9X86Insn \<Rightarrow> x86_out" where
  "x86_group1 mode code pos op_size insn =
     (if \<not> in_code code pos then bad insn
      else do {
        modrm \<leftarrow> rd8 code pos;
        let op_ext = field modrm 3;
            cat = (if op_ext = 7 then E9_X86_CAT_COMPARE
                   else if op_ext < 2 \<or> op_ext = 4 \<or> op_ext = 6 then E9_X86_CAT_LOGICAL
                   else E9_X86_CAT_ARITHMETIC)
        in do {
          r \<leftarrow> x86_modrm mode code pos op_size None (Some 0) (two_op (grp1 ! op_ext) cat insn);
          (case r of
             Inl insn \<Rightarrow> bad insn
           | Inr (pos, insn) \<Rightarrow>
               if \<not> in_code code pos then bad insn
               else do {
                 v \<leftarrow> read_i8 code pos;
                 done_at (pos + 1) (set_op 1 (\<lambda>o1. o1\<lparr>o_type := E9_X86_OP_IMM, o_size := 1, o_imm := v\<rparr>) insn)
               })
        }
      })"

definition x86_two_byte :: "int \<Rightarrow> bytes \<Rightarrow> u64 \<Rightarrow> nat \<Rightarrow> int \<Rightarrow> E9X86Insn \<Rightarrow> x86_out" where
  "x86_two_byte mode code address pos op_size insn =
     (if \<not> in_code code pos then bad insn
      else do {
        op2 \<leftarrow> rd8 code pos;
        let pos = pos + 1 in
        if 0x80 \<le> op2 \<and> op2 \<le> 0x8F then x86_rel32 code address pos (jcc (op2 - 0x80) insn)
        else if op2 = 0x05 then done_at pos (named ''syscall'' E9_X86_CAT_SYSTEM insn)
        else if op2 = 0x07 then done_at pos (named ''sysret'' E9_X86_CAT_SYSTEM insn)
        else if op2 = 0xA2 then done_at pos (named ''cpuid'' E9_X86_CAT_SYSTEM insn)
        else if op2 = 0x1F then x86_modrm mode code pos op_size None None (named ''nop'' E9_X86_CAT_NOP insn)
        else done_at pos (named (''0f '' @ hex_pad 2 (unat op2)) E9_X86_CAT_OTHER insn)
      })"

text \<open>The \<open>switch\<close> over the first opcode byte; \<open>pos\<close> is the position after it.\<close>

definition x86_opcode :: "int \<Rightarrow> bytes \<Rightarrow> u64 \<Rightarrow> u8 \<Rightarrow> nat \<Rightarrow> int \<Rightarrow> E9X86Insn \<Rightarrow> x86_out" where
  "x86_opcode mode code address op pos op_size insn =
     (if op = 0x90 then done_at pos (named ''nop'' E9_X86_CAT_NOP insn)
      else if 0x50 \<le> op \<and> op \<le> 0x57 then x86_push_pop mode op 0x50 ''push'' pos insn
      else if 0x58 \<le> op \<and> op \<le> 0x5F then x86_push_pop mode op 0x58 ''pop'' pos insn
      else if 0xB8 \<le> op \<and> op \<le> 0xBF then x86_mov_imm code op op_size pos insn
      else if op = 0xC3 then
        done_at pos ((named ''ret'' E9_X86_CAT_CONTROL insn)\<lparr>i_is_ret := True, i_is_branch := True\<rparr>)
      else if op = 0xC9 then done_at pos (named ''leave'' E9_X86_CAT_STACK insn)
      else if op = 0xE8 then
        x86_rel32 code address pos ((named ''call'' E9_X86_CAT_CONTROL insn)\<lparr>i_is_call := True, i_is_branch := True\<rparr>)
      else if op = 0xE9 then
        x86_rel32 code address pos ((named ''jmp'' E9_X86_CAT_CONTROL insn)\<lparr>i_is_branch := True\<rparr>)
      else if op = 0xEB then
        x86_rel8 code address pos ((named ''jmp'' E9_X86_CAT_CONTROL insn)\<lparr>i_is_branch := True\<rparr>)
      else if 0x70 \<le> op \<and> op \<le> 0x7F then x86_rel8 code address pos (jcc (op - 0x70) insn)
      else if op = 0x0F then x86_two_byte mode code address pos op_size insn
      else if op = 0x89 then x86_mov_store mode code pos op_size insn
      else if op = 0x8B then x86_mov_load mode code pos op_size insn
      else if op = 0x8D then
        x86_modrm mode code pos op_size (Some 0) (Some 1) (two_op ''lea'' E9_X86_CAT_DATA_XFER insn)
      else if op = 0x31 then
        x86_modrm mode code pos op_size (Some 1) (Some 0) (two_op ''xor'' E9_X86_CAT_LOGICAL insn)
      else if op = 0x83 then x86_group1 mode code pos op_size insn
      else if op = 0x85 then
        x86_modrm mode code pos op_size (Some 1) (Some 0) (two_op ''test'' E9_X86_CAT_COMPARE insn)
      else if op = 0x39 then
        x86_modrm mode code pos op_size (Some 1) (Some 0) (two_op ''cmp'' E9_X86_CAT_COMPARE insn)
      else if op = 0xCC then done_at pos (named ''int3'' E9_X86_CAT_CONTROL insn)
      else if op = 0xF4 then done_at pos (named ''hlt'' E9_X86_CAT_SYSTEM insn)
      else done_at pos (named (''db 0x'' @ hex_pad 2 (unat op)) E9_X86_CAT_INVALID insn))"

section \<open>Formatting\<close>

definition signed_hex :: "int \<Rightarrow> string" where
  "signed_hex v = (if v < 0 then ''-0x'' @ hex (ull (- v)) else ''0x'' @ hex (ull v))"

text \<open>The calls of \<open>snprintf\<close> for one operand, in order.\<close>

definition mem_pieces :: "E9X86Mem \<Rightarrow> string list" where
  "mem_pieces m =
     (let base = m_base m \<noteq> E9_X86_REG_NONE;
          index = m_index m \<noteq> E9_X86_REG_NONE;
          plus = base \<or> index
      in [''[''] @
         (if base then [e9_x86_reg_name (m_base m)] else []) @
         (if index then
            (if base then [''+''] else []) @ [e9_x86_reg_name (m_index m)] @
            (if 1 < m_scale m then [''*'' @ dec (unat (m_scale m))] else [])
          else []) @
         (if m_disp m \<noteq> 0 \<or> \<not> plus then
            (if 0 \<le> m_disp m then (if plus then [''+''] else []) @ [''0x'' @ hex (ull (m_disp m))]
             else [''-0x'' @ hex (ull (- m_disp m))])
          else []) @
         ['']''])"

definition operand_pieces :: "E9X86Insn \<Rightarrow> E9X86Operand \<Rightarrow> string list" where
  "operand_pieces insn op =
     (case o_type op of
        E9_X86_OP_REG \<Rightarrow> [e9_x86_reg_name (o_reg op)]
      | E9_X86_OP_IMM \<Rightarrow> [signed_hex (o_imm op)]
      | E9_X86_OP_REL \<Rightarrow> [''0x'' @ hex (unat (i_branch_target insn))]
      | E9_X86_OP_MEM \<Rightarrow> mem_pieces (o_mem op)
      | E9_X86_OP_NONE \<Rightarrow> [])"

definition x86_lead :: "E9X86Insn \<Rightarrow> string list" where
  "x86_lead insn =
     (if i_has_lock insn then [''lock ''] else []) @ (if i_has_rep insn then [''rep ''] else []) @
     (if i_has_repne insn then [''repne ''] else []) @ [i_mnemonic insn]"

definition x86_pieces :: "E9X86Insn \<Rightarrow> string list list" where
  "x86_pieces insn = map (operand_pieces insn) (take (i_num_operands insn) (i_operands insn))"

definition e9_x86_insn_format :: "E9X86Insn \<Rightarrow> bytes \<Rightarrow> bytes ub" where
  "e9_x86_insn_format insn buf = format_insn (x86_lead insn) (x86_pieces insn) buf"

section \<open>The interface functions\<close>

definition x86_finish :: "bytes \<Rightarrow> nat \<Rightarrow> E9X86Insn \<Rightarrow> (int \<times> E9X86Insn) ub" where
  "x86_finish code pos insn = do {
     b \<leftarrow> rd_region code 0 (if 15 < pos then 15 else pos);
     bs \<leftarrow> memcpy_to (i_bytes insn) 0 b;
     let insn = insn\<lparr>i_length := word_of_nat pos, i_bytes := bs\<rparr>
     in do {
       t \<leftarrow> e9_x86_insn_format insn (i_text insn);
       Some (int pos, insn\<lparr>i_text := t\<rparr>)
     }
   }"

definition x86_invalid :: "bytes \<Rightarrow> E9X86Insn \<Rightarrow> (int \<times> E9X86Insn) ub" where
  "x86_invalid code insn = do {
     b \<leftarrow> rd8 code 0;
     t \<leftarrow> memcpy_to (i_text insn) 0 (str_bytes ''(bad)'' @ [0]);
     Some (1, (named ''(bad)'' E9_X86_CAT_INVALID insn)
       \<lparr>i_length := 1, i_bytes := (i_bytes insn)[0 := b], i_text := t\<rparr>)
   }"

definition e9_x86_disasm_one ::
  "E9X86Disasm ptr \<Rightarrow> bytes ptr \<Rightarrow> u64 \<Rightarrow> E9X86Insn \<Rightarrow> (int \<times> E9X86Insn) ub" where
  "e9_x86_disasm_one ctx code address insn =
     (case (ctx, code) of
        (Some ctx, Some code) \<Rightarrow>
          if code = [] then Some (0, insn)
          else do {
            (pos, has_66, insn) \<leftarrow> x86_prefixes (d_mode ctx) code 0 (False, zero_insn\<lparr>i_address := address\<rparr>);
            if \<not> in_code code pos then x86_invalid code insn
            else do {
              op \<leftarrow> rd8 code pos;
              r \<leftarrow> x86_opcode (d_mode ctx) code address op (pos + 1)
                (x86_op_size (d_mode ctx) (i_rex insn) has_66) insn;
              (case r of
                 Inl insn \<Rightarrow> x86_invalid code insn
               | Inr (pos, insn) \<Rightarrow> x86_finish code pos insn)
            }
          }
      | _ \<Rightarrow> Some (0, insn))"

text \<open>
  The loop of \<open>e9_x86_disasm\<close> from an offset on, with \<open>count - decoded\<close> as its counter.  The
  result is the list of the instructions written to the array.
\<close>

fun x86_disasm_loop :: "E9X86Disasm \<Rightarrow> nat \<Rightarrow> bytes \<Rightarrow> nat \<Rightarrow> u64 \<Rightarrow> E9X86Insn list ub" where
  "x86_disasm_loop ctx 0 code offset address = Some []"
| "x86_disasm_loop ctx (Suc k) code offset address =
     (if offset < length code then do {
        (len, insn) \<leftarrow> e9_x86_disasm_one (Some ctx) (Some (drop offset code))
          (address + word_of_nat offset) zero_insn;
        if len \<le> 0 then Some []
        else do {
          rest \<leftarrow> x86_disasm_loop ctx k code (offset + nat len) address;
          Some (insn # rest)
        }
      } else Some [])"

definition e9_x86_disasm ::
  "E9X86Disasm ptr \<Rightarrow> bytes ptr \<Rightarrow> u64 \<Rightarrow> nat \<Rightarrow> (nat \<times> E9X86Insn list) ub" where
  "e9_x86_disasm ctx code address count =
     (case (ctx, code) of
        (Some ctx, Some code) \<Rightarrow>
          if code = [] then Some (0, [])
          else do {
            insns \<leftarrow> x86_disasm_loop ctx count code 0 address;
            Some (length insns, insns)
          }
      | _ \<Rightarrow> Some (0, []))"

definition e9_x86_is_prologue :: "bytes \<Rightarrow> bool" where
  "e9_x86_is_prologue code \<longleftrightarrow>
     (1 \<le> length code \<and>
      (4 \<le> length code \<and> code ! 0 = 0x55 \<and> code ! 1 = 0x48 \<and> code ! 2 = 0x89 \<and> code ! 3 = 0xE5 \<or>
       code ! 0 = 0x55 \<or>
       5 \<le> length code \<and> code ! 0 = 0xF3 \<and> code ! 1 = 0x0F \<and> code ! 2 = 0x1E \<and> code ! 3 = 0xFA \<and> code ! 4 = 0x55))"

definition e9_x86_is_epilogue :: "bytes \<Rightarrow> bool" where
  "e9_x86_is_epilogue code \<longleftrightarrow>
     (1 \<le> length code \<and>
      (code ! 0 = 0xC3 \<or> 2 \<le> length code \<and> code ! 0 = 0xC9 \<and> code ! 1 = 0xC3 \<or>
       2 \<le> length code \<and> code ! 0 = 0x5D \<and> code ! 1 = 0xC3))"

definition e9_x86_insn_length :: "bytes ptr \<Rightarrow> int \<Rightarrow> int ub" where
  "e9_x86_insn_length code mode =
     (case e9_x86_disasm_create mode of
        None \<Rightarrow> Some 0
      | Some ctx \<Rightarrow> map_option fst (e9_x86_disasm_one (Some ctx) code 0 zero_insn))"

definition e9_x86_is_valid_opcode :: "bytes \<Rightarrow> int \<Rightarrow> bool ub" where
  "e9_x86_is_valid_opcode code mode =
     (if code = [] then Some False
      else case e9_x86_disasm_create mode of
        None \<Rightarrow> Some False
      | Some ctx \<Rightarrow> map_option (\<lambda>(len, insn). 0 < len \<and> i_category insn \<noteq> E9_X86_CAT_INVALID)
          (e9_x86_disasm_one (Some ctx) (Some code) 0 zero_insn))"

definition e9_x86_insn_writes_reg :: "E9X86Insn ptr \<Rightarrow> E9X86Reg \<Rightarrow> bool" where
  "e9_x86_insn_writes_reg insn reg =
     (case insn of
        None \<Rightarrow> False
      | Some insn \<Rightarrow>
          i_num_operands insn \<noteq> 0 \<and>
          (o_type (i_operands insn ! 0) = E9_X86_OP_REG \<and> o_reg (i_operands insn ! 0) = reg \<or>
           i_mnemonic insn \<in> {''push'', ''pop'', ''call''} \<and> reg = E9_X86_REG_RSP))"

definition op_reads :: "string \<Rightarrow> E9X86Reg \<Rightarrow> nat \<Rightarrow> E9X86Operand \<Rightarrow> bool" where
  "op_reads m reg k op \<longleftrightarrow>
     (if o_type op = E9_X86_OP_REG \<and> o_reg op = reg
      then \<not> (k = 0 \<and> m \<noteq> ''cmp'' \<and> m \<noteq> ''test'')
      else o_type op = E9_X86_OP_MEM \<and> (m_base (o_mem op) = reg \<or> m_index (o_mem op) = reg))"

definition e9_x86_insn_reads_reg :: "E9X86Insn ptr \<Rightarrow> E9X86Reg \<Rightarrow> bool" where
  "e9_x86_insn_reads_reg insn reg =
     (case insn of
        None \<Rightarrow> False
      | Some insn \<Rightarrow>
          list_ex (\<lambda>k. op_reads (i_mnemonic insn) reg k (i_operands insn ! k)) [0 ..< i_num_operands insn])"

section \<open>Positions stay inside the code\<close>

text \<open>
  Sizes for which the conversions to \<open>int\<close> are exact, with room for the longest tail (eight
  bytes) the decoder adds to a position.
\<close>

definition X86_MAX :: nat where "X86_MAX = 2 ^ 31 - 16"

lemma c_int_exact: "n < 2 ^ 31 \<Longrightarrow> c_int n = int n"
proof -
  assume "n < 2 ^ 31"
  then have "int n < int (2 ^ 31)" by (simp only: of_nat_less_iff)
  then show "c_int n = int n" by (simp add: c_int_def signed_take_bit_int_eq_self)
qed

lemma in_code_iff: "length code \<le> X86_MAX \<Longrightarrow> pos \<le> length code \<Longrightarrow> in_code code pos \<longleftrightarrow> pos < length code"
  by (simp add: in_code_def c_int_exact X86_MAX_def)

lemma fits_iff:
  "length code \<le> X86_MAX \<Longrightarrow> pos \<le> length code \<Longrightarrow> k \<le> 8 \<Longrightarrow> fits code pos k \<longleftrightarrow> pos + k \<le> length code"
  by (simp add: fits_def c_int_exact X86_MAX_def flip: of_nat_add)

lemmas code_bounds = in_code_iff fits_iff

lemma read_i8_defined: "pos < length code \<Longrightarrow> \<exists>v. read_i8 code pos = Some v \<and> -128 \<le> v \<and> v < 128"
  using sint_greater_eq [of "code ! pos"] sint_less [of "code ! pos"] by (auto simp: read_i8_def rd8_def)

lemma read_i32_defined:
  "pos + 4 \<le> length code \<Longrightarrow> \<exists>v. read_i32 code pos = Some v \<and> -(2 ^ 31) \<le> v \<and> v < 2 ^ 31"
proof -
  assume "pos + 4 \<le> length code"
  then obtain w where "rd32 code pos = Some w" by (cases "rd32 code pos") (auto simp: buf_simps)
  then show ?thesis using sint_greater_eq [of w] sint_less [of w] by (auto simp: read_i32_def)
qed

lemma read_i64_defined: "pos + 8 \<le> length code \<Longrightarrow> \<exists>v. read_i64 code pos = Some v"
  using read_i32_defined [of pos code] read_i32_defined [of "pos + 4" code] by (auto simp: read_i64_def)

section \<open>Widths of the printed operands\<close>

lemma reg_name_short: "r < 55 \<Longrightarrow> length (e9_x86_reg_name r) \<le> 4"
proof -
  have "list_all (\<lambda>r. length (e9_x86_reg_name r) \<le> 4) [0 ..< 55]" by code_simp
  then show "r < 55 \<Longrightarrow> length (e9_x86_reg_name r) \<le> 4" by (simp add: list_all_iff)
qed

lemma hex_ull_bound: "0 \<le> v \<Longrightarrow> v < 16 ^ k \<Longrightarrow> 0 < k \<Longrightarrow> k \<le> 16 \<Longrightarrow> length (hex (ull v)) \<le> k"
proof -
  assume v: "0 \<le> v" "v < 16 ^ k" and k: "0 < k" "k \<le> 16"
  have "(16 :: int) ^ k \<le> 16 ^ 16" by (rule power_increasing) (use k in auto)
  with v have "v < 2 ^ 64" by simp
  with v(1) have "uint (word_of_int v :: u64) = v" by (simp add: uint_word_of_int)
  then have "ull v = nat v" by (simp add: ull_def unat_eq_nat_uint del: uint_word_of_int_eq)
  moreover have "nat v < 16 ^ k" using v by (simp add: nat_less_iff)
  ultimately show ?thesis using length_hex_le [of "nat v" k] k(1) by simp
qed

lemma signed_hex_width:
  assumes "\<bar>v\<bar> < 16 ^ k" and "0 < k" and "k \<le> 16"
  shows "length (signed_hex v) \<le> k + 3"
  using hex_ull_bound [of v k] hex_ull_bound [of "- v" k] assms by (auto simp: signed_hex_def)

lemma signed_hex_any: "length (signed_hex v) \<le> 19"
  using length_hex_ull [of v] length_hex_ull [of "- v"] by (auto simp: signed_hex_def)

definition mem_fine :: "E9X86Mem \<Rightarrow> bool" where
  "mem_fine m \<longleftrightarrow> m_base m < 55 \<and> m_index m < 55 \<and> -(2 ^ 31) \<le> m_disp m \<and> m_disp m < 2 ^ 31"

lemma mem_width:
  assumes "mem_fine m"
  shows "length (concat (mem_pieces m)) \<le> 26"
proof -
  have b: "length (e9_x86_reg_name (m_base m)) \<le> 4" "length (e9_x86_reg_name (m_index m)) \<le> 4"
    using assms reg_name_short by (auto simp: mem_fine_def)
  have s: "length (dec (unat (m_scale m))) \<le> 3" by (rule length_dec_u8)
  have d: "0 \<le> m_disp m \<Longrightarrow> length (hex (ull (m_disp m))) \<le> 8"
    "\<not> 0 \<le> m_disp m \<Longrightarrow> length (hex (ull (- m_disp m))) \<le> 8"
    using assms by (auto intro!: hex_ull_bound simp: mem_fine_def)
  show ?thesis
    using b s d by (cases "0 \<le> m_disp m") (auto simp: mem_pieces_def Let_def)
qed

abbreviation op_width :: "E9X86Insn \<Rightarrow> E9X86Operand \<Rightarrow> nat" where
  "op_width insn op \<equiv> length (concat (operand_pieces insn op))"

text \<open>Registers and memory references as the decoder produces them.\<close>

definition op_fine :: "E9X86Operand \<Rightarrow> bool" where
  "op_fine op \<longleftrightarrow> o_reg op < 55 \<and> (o_type op = E9_X86_OP_REG \<or> o_type op = E9_X86_OP_MEM \<and> mem_fine (o_mem op))"

lemma op_fine_width: "op_fine op \<Longrightarrow> op_width insn op \<le> (if o_type op = E9_X86_OP_REG then 4 else 26)"
  using reg_name_short [of "o_reg op"] mem_width [of "o_mem op"]
  by (auto simp: op_fine_def operand_pieces_def)

section \<open>ModR/M\<close>

lemma field_less: "field b k < 8"
proof -
  have "drop_bit k b AND 7 \<le> (7 :: u8)" by (rule word_and_le1)
  then show ?thesis by (simp add: field_def word_le_nat_alt)
qed

lemma rex_ext_less: "n < 8 \<Longrightarrow> rex_ext rex m n < 16"
  by (simp add: rex_ext_def)

lemma REG64_bound: "n < 16 \<Longrightarrow> REG64 ! n < 55"
proof -
  have "list_all (\<lambda>n. REG64 ! n < 55) [0 ..< 16]" by code_simp
  then show "n < 16 \<Longrightarrow> REG64 ! n < 55" by (simp add: list_all_iff)
qed

lemma REG32_bound: "n < 16 \<Longrightarrow> REG32 ! n < 55"
proof -
  have "list_all (\<lambda>n. REG32 ! n < 55) [0 ..< 16]" by code_simp
  then show "n < 16 \<Longrightarrow> REG32 ! n < 55" by (simp add: list_all_iff)
qed

lemma REG8_bound: "n < 8 \<Longrightarrow> REG8 ! n < 55 \<and> REG8_REX ! n < 55"
proof -
  have "list_all (\<lambda>n. REG8 ! n < 55 \<and> REG8_REX ! n < 55) [0 ..< 8]" by code_simp
  then show "n < 8 \<Longrightarrow> REG8 ! n < 55 \<and> REG8_REX ! n < 55" by (simp add: list_all_iff)
qed

lemma reg_operand_fine:
  assumes "n < 16" and "o_reg op < 55"
  shows "op_fine (reg_operand rex op_size n op)" "o_type (reg_operand rex op_size n op) = E9_X86_OP_REG"
  using assms REG64_bound [of n] REG32_bound [of n] REG8_bound [of "n mod 8"]
  by (auto simp: reg_operand_def op_fine_def Let_def)

lemma mem_disp_ok:
  assumes "length code \<le> X86_MAX" and "pos \<le> length code" and "op_fine op" and "o_type op = E9_X86_OP_MEM"
  shows "\<exists>r op'. mem_disp code pos md rm op = Some (r, op') \<and>
    (r = -1 \<or> (int pos \<le> r \<and> r \<le> int (length code) \<and> op_fine op' \<and> o_type op' = E9_X86_OP_MEM))"
proof -
  have "\<exists>v. read_i8 code pos = Some v \<and> -(2 ^ 31) \<le> v \<and> v < 2 ^ 31" if "pos < length code"
    using read_i8_defined [OF that] by force
  moreover have "\<exists>v. read_i32 code pos = Some v \<and> -(2 ^ 31) \<le> v \<and> v < 2 ^ 31" if "pos + 4 \<le> length code"
    using read_i32_defined [OF that] by blast
  ultimately show ?thesis
    using assms by (auto simp: mem_disp_def code_bounds op_fine_def mem_fine_def)
qed

lemma mem_sib_ok:
  assumes "length code \<le> X86_MAX" and "pos \<le> length code" and "op_fine op" and "o_type op = E9_X86_OP_MEM"
  shows "\<exists>r op'. mem_sib code pos rex md op = Some (r, op') \<and>
    (\<forall>q. r = Some q \<longrightarrow> pos \<le> q \<and> q \<le> length code \<and> op_fine op' \<and> o_type op' = E9_X86_OP_MEM)"
proof (cases "pos < length code")
  case False
  with assms show ?thesis by (simp add: mem_sib_def code_bounds)
next
  case True
  have reg: "REG64 ! rex_ext rex m (field b k) < 55" for m b k
    by (intro REG64_bound rex_ext_less field_less)
  have "\<exists>v. read_i32 code (Suc pos) = Some v \<and> -(2 ^ 31) \<le> v \<and> v < 2 ^ 31" if "pos + 5 \<le> length code"
    using read_i32_defined [of "Suc pos" code] that by simp
  with True assms reg show ?thesis
    by (auto simp: mem_sib_def code_bounds rd8_def Let_def op_fine_def mem_fine_def)
qed

lemma mem_operand_ok:
  assumes "length code \<le> X86_MAX" and "pos \<le> length code" and "o_reg op < 55" and "rm < 16"
  shows "\<exists>r op'. mem_operand mode code pos rex op_size md rm op = Some (r, op') \<and>
    (r = -1 \<or> (int pos \<le> r \<and> r \<le> int (length code) \<and> op_fine op' \<and> o_type op' = E9_X86_OP_MEM))"
proof (cases "32 \<le> mode \<and> rm mod 8 = 4")
  case True
  let ?op = "op\<lparr>o_type := E9_X86_OP_MEM, o_size := word_of_int op_size,
    o_mem := \<lparr>m_base = 0, m_index = 0, m_scale = 1, m_disp = 0, m_segment = 0\<rparr>\<rparr>"
  have "op_fine ?op" using assms(3) by (simp add: op_fine_def mem_fine_def)
  from mem_sib_ok [OF assms(1,2) this, of rex md] obtain q op' where
    q: "mem_sib code pos rex md ?op = Some (q, op')"
      "\<And>p. q = Some p \<Longrightarrow> pos \<le> p \<and> p \<le> length code \<and> op_fine op' \<and> o_type op' = E9_X86_OP_MEM"
    by auto
  show ?thesis
  proof (cases q)
    case None
    with True q(1) show ?thesis by (simp add: mem_operand_def Let_def)
  next
    case (Some p)
    with q(2) have p: "pos \<le> p" "p \<le> length code" "op_fine op'" "o_type op' = E9_X86_OP_MEM" by auto
    from mem_disp_ok [OF assms(1) p(2-4), of md rm] p(1) True q(1) Some show ?thesis
      by (auto simp: mem_operand_def Let_def)
  qed
next
  case False
  have "op_fine (op\<lparr>o_type := E9_X86_OP_MEM, o_size := word_of_int op_size,
      o_mem := \<lparr>m_base = b, m_index = 0, m_scale = 1, m_disp = 0, m_segment = 0\<rparr>\<rparr>)" if "b < 55" for b
    using assms(3) that by (simp add: op_fine_def mem_fine_def)
  from mem_disp_ok [OF assms(1,2) this, of _ md rm] REG64_bound [OF assms(4)] show ?thesis
    by (simp only: mem_operand_def Let_def False if_False) simp
qed

text \<open>\<open>decode_modrm\<close> is defined, consumes at least one byte and fills the operands it is given.\<close>

lemma decode_modrm_ok:
  assumes "length code \<le> X86_MAX" and "pos \<le> length code"
    and "\<And>op. reg_op = Some op \<Longrightarrow> o_reg op < 55" and "\<And>op. rm_op = Some op \<Longrightarrow> o_reg op < 55"
  shows "\<exists>r ro mo. decode_modrm mode code pos rex op_size reg_op rm_op = Some (r, ro, mo) \<and>
    (r = -1 \<or> (int pos < r \<and> r \<le> int (length code) \<and>
       (ro = None \<longleftrightarrow> reg_op = None) \<and> (mo = None \<longleftrightarrow> rm_op = None) \<and>
       (\<forall>op. ro = Some op \<longrightarrow> op_fine op \<and> o_type op = E9_X86_OP_REG) \<and> (\<forall>op. mo = Some op \<longrightarrow> op_fine op)))"
proof (cases "pos < length code")
  case False
  with assms(1,2) show ?thesis by (simp add: decode_modrm_def code_bounds)
next
  case True
  let ?b = "code ! pos"
  let ?reg = "rex_ext rex 4 (field ?b 3)" and ?rm = "rex_ext rex 1 (field ?b 0)"
  have n: "?reg < 16" "?rm < 16" by (intro rex_ext_less field_less)+
  show ?thesis
  proof (cases rm_op)
    case None
    with True assms(1,2) reg_operand_fine [OF n(1)] assms(3) show ?thesis
      by (auto simp: decode_modrm_def code_bounds rd8_def Let_def)
  next
    case (Some op)
    from mem_operand_ok [OF assms(1) _ assms(4) [OF Some] n(2), of "Suc pos" mode rex op_size "mod_field ?b"] True
    obtain r op' where "mem_operand mode code (Suc pos) rex op_size (mod_field ?b) ?rm op = Some (r, op')"
      "r = -1 \<or> (int (Suc pos) \<le> r \<and> r \<le> int (length code) \<and> op_fine op' \<and> o_type op' = E9_X86_OP_MEM)"
      by auto
    with Some True assms(1,2) reg_operand_fine [OF n(1)] assms(3) reg_operand_fine [OF n(2) assms(4) [OF Some]]
    show ?thesis by (auto simp: decode_modrm_def code_bounds rd8_def Let_def)
  qed
qed

section \<open>One instruction\<close>

text \<open>The state after \<open>memset\<close> and the prefixes, and what holds at the exits of the \<open>switch\<close>.\<close>

definition fresh :: "u64 \<Rightarrow> E9X86Insn \<Rightarrow> bool" where
  "fresh a i \<longleftrightarrow> i_address i = a \<and> i_operands i = [zero_operand, zero_operand, zero_operand, zero_operand] \<and> i_num_operands i \<le> 2 \<and>
     length (i_bytes i) = 15 \<and> length (i_text i) = 64"

definition shape :: "u64 \<Rightarrow> E9X86Insn \<Rightarrow> bool" where
  "shape a i \<longleftrightarrow> i_address i = a \<and> length (i_operands i) = 4 \<and> i_num_operands i \<le> 2 \<and>
     length (i_bytes i) = 15 \<and> length (i_text i) = 64"

definition text_ok :: "E9X86Insn \<Rightarrow> bool" where
  "text_ok i \<longleftrightarrow> length (i_mnemonic i) \<le> 7 \<and>
     (\<Sum>op\<leftarrow>take (i_num_operands i) (i_operands i). op_width i op) \<le> 31"

definition x86_out_ok :: "bytes \<Rightarrow> u64 \<Rightarrow> nat \<Rightarrow> x86_out \<Rightarrow> bool" where
  "x86_out_ok code a pos r \<longleftrightarrow>
     (\<exists>i. r = Some (Inl i) \<and> shape a i) \<or>
     (\<exists>q i. r = Some (Inr (q, i)) \<and> pos \<le> q \<and> q \<le> length code \<and> shape a i \<and> text_ok i)"

lemma x86_out_ok_bad [intro]: "shape a i \<Longrightarrow> x86_out_ok code a pos (bad i)"
  by (simp add: x86_out_ok_def bad_def)

lemma x86_out_ok_done [intro]:
  "pos \<le> q \<Longrightarrow> q \<le> length code \<Longrightarrow> shape a i \<Longrightarrow> text_ok i \<Longrightarrow> x86_out_ok code a pos (done_at q i)"
  by (simp add: x86_out_ok_def done_at_def)

lemma x86_out_ok_mono: "x86_out_ok code a q r \<Longrightarrow> p \<le> q \<Longrightarrow> x86_out_ok code a p r"
  by (auto simp: x86_out_ok_def)

lemma fresh_shape: "fresh a i \<Longrightarrow> shape a i"
  by (simp add: fresh_def shape_def)

text \<open>Updates that keep a state fresh.\<close>

lemma fresh_named [simp]: "fresh a (named m c i) \<longleftrightarrow> fresh a i"
  by (simp add: fresh_def named_def)

lemma fresh_updates [simp]:
  "fresh a (i\<lparr>i_is_branch := b\<rparr>) \<longleftrightarrow> fresh a i" "fresh a (i\<lparr>i_is_call := b\<rparr>) \<longleftrightarrow> fresh a i"
  "fresh a (i\<lparr>i_is_ret := b\<rparr>) \<longleftrightarrow> fresh a i" "fresh a (i\<lparr>i_is_conditional := b\<rparr>) \<longleftrightarrow> fresh a i"
  by (simp_all add: fresh_def)

lemma named_simps [simp]:
  "i_mnemonic (named m c i) = m" "i_operands (named m c i) = i_operands i" "i_rex (named m c i) = i_rex i"
  "i_num_operands (named m c i) = i_num_operands i" "i_bytes (named m c i) = i_bytes i"
  "i_text (named m c i) = i_text i" "i_address (named m c i) = i_address i"
  by (simp_all add: named_def)

text \<open>An instruction without operands needs only a short mnemonic.\<close>

lemma done_plain:
  assumes "fresh a i" and "i_num_operands i = 0" and "length (i_mnemonic i) \<le> 7" and "pos \<le> length code"
  shows "x86_out_ok code a pos (done_at pos i)"
  by (rule x86_out_ok_done) (use assms in \<open>auto simp: fresh_shape text_ok_def fresh_def\<close>)

lemma rel_done_ok:
  assumes "fresh a i" and "length (i_mnemonic i) \<le> 7" and "pos \<le> q" and "q \<le> length code"
  shows "x86_out_ok code a pos (rel_done address q rel i)"
proof -
  have "length (hex (unat (address + word_of_nat q + word_of_int rel))) \<le> 16"
    by (rule length_hex_le) (use unat_u64_less in auto)
  then show ?thesis
    using assms unfolding rel_done_def
    by (intro x86_out_ok_done) (auto simp: fresh_def shape_def text_ok_def set_op_def operand_pieces_def)
qed

lemma rel32_ok:
  assumes "length code \<le> X86_MAX" and "pos \<le> length code" and "fresh a i" and "length (i_mnemonic i) \<le> 7"
  shows "x86_out_ok code a pos (x86_rel32 code address pos i)"
proof (cases "pos + 4 \<le> length code")
  case True
  from read_i32_defined [OF True] rel_done_ok [OF assms(3,4), of pos "pos + 4" code address] assms(1,2) True
  show ?thesis by (auto simp: x86_rel32_def code_bounds)
next
  case False
  with assms show ?thesis by (auto simp: x86_rel32_def code_bounds fresh_shape)
qed

lemma rel8_ok:
  assumes "length code \<le> X86_MAX" and "pos \<le> length code" and "fresh a i" and "length (i_mnemonic i) \<le> 7"
  shows "x86_out_ok code a pos (x86_rel8 code address pos i)"
proof (cases "pos < length code")
  case True
  from read_i8_defined [OF True] rel_done_ok [OF assms(3,4), of pos "pos + 1" code address] assms(1,2) True
  show ?thesis by (auto simp: x86_rel8_def code_bounds)
next
  case False
  with assms show ?thesis by (auto simp: x86_rel8_def code_bounds fresh_shape)
qed

lemma unat_less_if_uint: "uint w < 2 ^ k \<Longrightarrow> unat w < 2 ^ k" for w :: "'a::len word"
proof -
  assume "uint w < 2 ^ k"
  then have "int (unat w) < int (2 ^ k)" by simp
  then show "unat w < 2 ^ k" by (simp only: of_nat_less_iff)
qed

lemma opcode_reg_less:
  assumes "n \<le> 7"
  shows "opcode_reg rex n < 16"
proof -
  have "uint (push_bit 3 (rex AND 1) :: u8) < 2 ^ 4"
  proof (cases "bit rex 0")
    case True
    then have "rex AND 1 = 1" by (simp add: and_one_eq mod2_eq_if bit_0)
    then show ?thesis by simp
  next
    case False
    then have "rex AND 1 = 0" by (simp add: and_one_eq mod2_eq_if bit_0)
    then show ?thesis by simp
  qed
  moreover have "uint n < 2 ^ 4" using assms by (simp add: word_le_def)
  ultimately have "uint n OR uint (push_bit 3 (rex AND 1) :: u8) < 2 ^ 4" by (intro OR_upper) simp_all
  then have "uint (n OR push_bit 3 (rex AND 1)) < 2 ^ 4" by (simp only: uint_or)
  from unat_less_if_uint [OF this] show ?thesis unfolding opcode_reg_def by simp
qed

lemma push_pop_ok:
  assumes "fresh a i" and "length m \<le> 7" and "pos \<le> length code" and "op - base \<le> 7"
  shows "x86_out_ok code a pos (x86_push_pop mode op base m pos i)"
proof -
  have "unat (op - base) < 16" using assms(4) by (simp add: word_le_nat_alt)
  then have "length (e9_x86_reg_name (REG64 ! opcode_reg (i_rex i) (op - base))) \<le> 4"
    and "length (e9_x86_reg_name (REG32 ! unat (op - base))) \<le> 4"
    using opcode_reg_less [OF assms(4), of "i_rex i"] by (auto intro!: reg_name_short REG64_bound REG32_bound)
  then show ?thesis
    using assms unfolding x86_push_pop_def
    by (intro x86_out_ok_done) (auto simp: fresh_def shape_def text_ok_def set_op_def operand_pieces_def)
qed

lemma mov_imm_ok:
  assumes "length code \<le> X86_MAX" and "pos \<le> length code" and "fresh a i" and "op - 0xB8 \<le> 7"
  shows "x86_out_ok code a pos (x86_mov_imm code op op_size pos i)"
proof -
  have r: "length (e9_x86_reg_name (REG64 ! opcode_reg (i_rex i) (op - 0xB8))) \<le> 4"
    "length (e9_x86_reg_name (REG32 ! opcode_reg (i_rex i) (op - 0xB8))) \<le> 4"
    by (intro reg_name_short REG64_bound REG32_bound opcode_reg_less assms(4))+
  have v: "length (signed_hex v) \<le> 19" for v by (rule signed_hex_any)
  have w: "4 + length (signed_hex v) \<le> 31" for v using v [of v] by simp
  note d = read_i64_defined [of pos code] read_i32_defined [of pos code]
  show ?thesis
  proof (cases "op_size = 8")
    case True
    show ?thesis
    proof (cases "pos + 8 \<le> length code")
      case True
      with d obtain v where v: "read_i64 code pos = Some v" by auto
      show ?thesis
        using \<open>op_size = 8\<close> True v r w [of v] assms
        by (auto simp: x86_mov_imm_def Let_def code_bounds fresh_def shape_def text_ok_def set_op_def
            operand_pieces_def intro!: x86_out_ok_done)
    next
      case False
      with \<open>op_size = 8\<close> assms show ?thesis
        by (auto simp: x86_mov_imm_def Let_def code_bounds fresh_def shape_def set_op_def intro!: x86_out_ok_bad)
    qed
  next
    case False
    show ?thesis
    proof (cases "pos + 4 \<le> length code")
      case True
      with d obtain v where v: "read_i32 code pos = Some v" by auto
      show ?thesis
        using \<open>op_size \<noteq> 8\<close> True v r w [of v] assms
        by (auto simp: x86_mov_imm_def Let_def code_bounds fresh_def shape_def text_ok_def set_op_def
            operand_pieces_def intro!: x86_out_ok_done)
    next
      case False
      with \<open>op_size \<noteq> 8\<close> assms show ?thesis
        by (auto simp: x86_mov_imm_def Let_def code_bounds fresh_def shape_def set_op_def intro!: x86_out_ok_bad)
    qed
  qed
qed

lemma store_op_simps [simp]:
  "length (i_operands (store_op k p i)) = length (i_operands i)"
  "i_address (store_op k p i) = i_address i" "i_num_operands (store_op k p i) = i_num_operands i"
  "i_mnemonic (store_op k p i) = i_mnemonic i" "i_bytes (store_op k p i) = i_bytes i"
  "i_text (store_op k p i) = i_text i" "store_op None p i = i" "store_op k None i = i"
  by (auto simp: store_op_def set_op_def split: option.split)

lemma store_op_nth:
  "k < length (i_operands i) \<Longrightarrow>
    i_operands (store_op (Some k) (Some v) i) ! j = (if j = k then v else i_operands i ! j)"
  by (simp add: store_op_def set_op_def nth_list_update)

lemma fresh_length: "fresh a i \<Longrightarrow> length (i_operands i) = 4"
  by (simp add: fresh_def)

text \<open>Instructions with a ModR/M byte: two operands of which at most one is in memory.\<close>

lemma modrm_ok:
  assumes "length code \<le> X86_MAX" and "pos \<le> length code" and "fresh a i"
    and "\<And>k. ri = Some k \<Longrightarrow> k < 2" and "\<And>k. mi = Some k \<Longrightarrow> k < 2" and "ri \<noteq> mi \<or> ri = None"
  shows "\<exists>q i'. x86_modrm mode code pos op_size ri mi i = Some (if q = 0 then Inl i' else Inr (q, i')) \<and>
    (q = 0 \<or> pos < q \<and> q \<le> length code) \<and>
    i_address i' = a \<and> length (i_operands i') = 4 \<and> i_num_operands i' = i_num_operands i \<and>
    i_mnemonic i' = i_mnemonic i \<and> length (i_bytes i') = 15 \<and> length (i_text i') = 64 \<and>
    (q \<noteq> 0 \<longrightarrow> (\<forall>k. ri = Some k \<longrightarrow> op_width i' (i_operands i' ! k) \<le> 4) \<and>
       (\<forall>k. mi = Some k \<longrightarrow> op_width i' (i_operands i' ! k) \<le> 26))"
proof -
  have z: "i_operands i ! k = zero_operand" if "k < 2" for k
    using assms(3) that by (auto simp: fresh_def less_Suc_eq numeral_eq_Suc)
  let ?ro = "map_option (\<lambda>k. i_operands i ! k) ri" and ?mo = "map_option (\<lambda>k. i_operands i ! k) mi"
  have "o_reg op < 55" if "?ro = Some op \<or> ?mo = Some op" for op
    using that assms(4,5) z by (auto simp: zero_operand_def)
  from decode_modrm_ok [OF assms(1,2), of ?ro ?mo mode "i_rex i" op_size] this obtain r ro mo where
    d: "decode_modrm mode code pos (i_rex i) op_size ?ro ?mo = Some (r, ro, mo)" and
    ok: "r = -1 \<or> (int pos < r \<and> r \<le> int (length code) \<and> (ro = None \<longleftrightarrow> ri = None) \<and> (mo = None \<longleftrightarrow> mi = None) \<and>
       (\<forall>op. ro = Some op \<longrightarrow> op_fine op \<and> o_type op = E9_X86_OP_REG) \<and> (\<forall>op. mo = Some op \<longrightarrow> op_fine op))"
    by auto
  let ?i = "store_op mi mo (store_op ri ro i)"
  have st: "i_address ?i = a" "length (i_operands ?i) = 4" "i_num_operands ?i = i_num_operands i"
    "i_mnemonic ?i = i_mnemonic i" "length (i_bytes ?i) = 15" "length (i_text ?i) = 64"
    using assms(3) by (simp_all add: fresh_length) (simp_all add: fresh_def)
  show ?thesis
  proof (cases "r = -1")
    case True
    with d st show ?thesis by (intro exI [of _ 0] exI [of _ ?i]) (simp add: x86_modrm_def bad_def)
  next
    case False
    with ok have o: "int pos < r" "r \<le> int (length code)" "ro = None \<longleftrightarrow> ri = None" "mo = None \<longleftrightarrow> mi = None"
      "\<And>op. ro = Some op \<Longrightarrow> op_fine op \<and> o_type op = E9_X86_OP_REG" "\<And>op. mo = Some op \<Longrightarrow> op_fine op" by auto
    have "op_width ?i (i_operands ?i ! k) \<le> 4" if "ri = Some k" for k
    proof -
      from that o(3) obtain op where op: "ro = Some op" by auto
      have "i_operands ?i ! k = op"
        using that op assms(4) [OF that] assms(6) fresh_length [OF assms(3)]
        by (cases mi; cases mo) (auto simp: store_op_nth store_op_def set_op_def nth_list_update)
      with op_fine_width [of op ?i] o(5) [OF op] show ?thesis by simp
    qed
    moreover have "op_width ?i (i_operands ?i ! k) \<le> 26" if "mi = Some k" for k
    proof -
      from that o(4) obtain op where op: "mo = Some op" by auto
      have "i_operands ?i ! k = op"
        using that op assms(5) [OF that] fresh_length [OF assms(3)] by (simp add: store_op_nth)
      with op_fine_width [of op ?i] o(6) [OF op] show ?thesis by (auto split: if_splits)
    qed
    ultimately show ?thesis
      using d st o(1,2) by (intro exI [of _ "nat r"] exI [of _ ?i]) (auto simp: x86_modrm_def done_at_def)
  qed
qed

lemma op_width_cong: "i_branch_target i = i_branch_target j \<Longrightarrow> op_width i op = op_width j op"
  by (cases "o_type op") (simp_all add: operand_pieces_def)

lemma pieces_cong: "i_branch_target i = i_branch_target j \<Longrightarrow> operand_pieces i = operand_pieces j"
  by (rule ext) (simp add: operand_pieces_def split: E9X86OpType.split)

lemma op_width_updates [simp]:
  "op_width (i\<lparr>i_reads_memory := b\<rparr>) op = op_width i op" "op_width (i\<lparr>i_writes_memory := b\<rparr>) op = op_width i op"
  "op_width (set_op k f i) op = op_width i op"
  by (rule op_width_cong, simp add: set_op_def)+

lemma take_two: "length xs = 4 \<Longrightarrow> take 2 xs = [xs ! 0, xs ! 1]"
  by (auto simp: length_Suc_conv numeral_eq_Suc)

lemma two_op_simps [simp]:
  "fresh a i \<Longrightarrow> fresh a (two_op m c i)" "i_mnemonic (two_op m c i) = m" "i_num_operands (two_op m c i) = 2"
  by (simp_all add: two_op_def fresh_def)

lemma two_op_ok:
  assumes "length code \<le> X86_MAX" and "pos \<le> length code" and "fresh a i" and "length m \<le> 7"
    and "(ri, mi) \<in> {(1, 0), (0, 1)}"
  shows "x86_out_ok code a pos (x86_modrm mode code pos op_size (Some ri) (Some mi) (two_op m c i))"
proof -
  have lt: "ri < 2" "mi < 2" "ri \<noteq> mi" using assms(5) by auto
  from modrm_ok [OF assms(1,2), of a "two_op m c i" "Some ri" "Some mi" mode op_size] assms(3) lt
  obtain q i' where
    e: "x86_modrm mode code pos op_size (Some ri) (Some mi) (two_op m c i) = Some (if q = 0 then Inl i' else Inr (q, i'))" and
    q: "q = 0 \<or> pos < q \<and> q \<le> length code" and
    s: "i_address i' = a" "length (i_operands i') = 4" "i_num_operands i' = 2" "i_mnemonic i' = m"
      "length (i_bytes i') = 15" "length (i_text i') = 64" and
    w: "q \<noteq> 0 \<Longrightarrow> op_width i' (i_operands i' ! ri) \<le> 4 \<and> op_width i' (i_operands i' ! mi) \<le> 26" by auto
  have "shape a i'" using s by (simp add: shape_def)
  moreover have "text_ok i'" if "q \<noteq> 0"
    using w [OF that] s assms(4,5) by (auto simp: text_ok_def take_two)
  ultimately show ?thesis using e q by (auto simp: x86_out_ok_def)
qed

lemma map_out_ok:
  assumes "x86_out_ok code a pos r" and "\<And>i. shape a i \<Longrightarrow> shape a (f i)" and "\<And>i. text_ok i \<Longrightarrow> text_ok (f i)"
  shows "x86_out_ok code a pos (map_out f r)"
  using assms by (auto simp: x86_out_ok_def map_out_def)

lemma mov_store_ok:
  assumes "length code \<le> X86_MAX" and "pos \<le> length code" and "fresh a i"
  shows "x86_out_ok code a pos (x86_mov_store mode code pos op_size i)"
  unfolding x86_mov_store_def
  by (rule map_out_ok [OF two_op_ok [OF assms]]) (auto simp: shape_def text_ok_def)

lemma mov_load_ok:
  assumes "length code \<le> X86_MAX" and "pos \<le> length code" and "fresh a i"
  shows "x86_out_ok code a pos (x86_mov_load mode code pos op_size i)"
  unfolding x86_mov_load_def
  by (rule map_out_ok [OF two_op_ok [OF assms]]) (auto simp: shape_def text_ok_def)

lemma grp1_short: "n < 8 \<Longrightarrow> length (grp1 ! n) \<le> 7"
proof -
  have "list_all (\<lambda>n. length (grp1 ! n) \<le> 7) [0 ..< 8]" by code_simp
  then show "n < 8 \<Longrightarrow> length (grp1 ! n) \<le> 7" by (simp add: list_all_iff)
qed

lemma group1_ok:
  assumes "length code \<le> X86_MAX" and "pos \<le> length code" and "fresh a i"
  shows "x86_out_ok code a pos (x86_group1 mode code pos op_size i)"
proof (cases "pos < length code")
  case False
  with assms show ?thesis by (auto simp: x86_group1_def code_bounds fresh_shape)
next
  case True
  let ?e = "field (code ! pos) 3"
  let ?c = "if ?e = 7 then E9_X86_CAT_COMPARE else if ?e < 2 \<or> ?e = 4 \<or> ?e = 6 then E9_X86_CAT_LOGICAL
    else E9_X86_CAT_ARITHMETIC"
  have m: "length (grp1 ! ?e) \<le> 7" by (intro grp1_short field_less)
  from modrm_ok [OF assms(1,2), of a "two_op (grp1 ! ?e) ?c i" None "Some 0" mode op_size] assms(3)
  obtain q i' where
    e: "x86_modrm mode code pos op_size None (Some 0) (two_op (grp1 ! ?e) ?c i) = Some (if q = 0 then Inl i' else Inr (q, i'))" and
    q: "q = 0 \<or> pos < q \<and> q \<le> length code" and
    s: "i_address i' = a" "length (i_operands i') = 4" "i_num_operands i' = 2" "i_mnemonic i' = grp1 ! ?e"
      "length (i_bytes i') = 15" "length (i_text i') = 64" and
    w: "q \<noteq> 0 \<Longrightarrow> op_width i' (i_operands i' ! 0) \<le> 26" by auto
  have sh: "shape a i'" using s by (simp add: shape_def)
  show ?thesis
  proof (cases "q \<noteq> 0 \<and> q < length code")
    case False
    with e q sh True assms(1,2) show ?thesis
      by (auto simp: x86_group1_def code_bounds rd8_def Let_def bad_def x86_out_ok_def)
  next
    case True
    from read_i8_defined [of q code] True obtain v where v: "read_i8 code q = Some v" "-128 \<le> v" "v < 128" by auto
    let ?i = "set_op 1 (\<lambda>o1. o1\<lparr>o_type := E9_X86_OP_IMM, o_size := 1, o_imm := v\<rparr>) i'"
    have "shape a ?i" using sh by (simp add: shape_def set_op_def)
    moreover have "text_ok ?i"
    proof -
      have "length (signed_hex v) \<le> 5" using signed_hex_width [of v 2] v(2,3) by auto
      moreover have "i_operands ?i ! 0 = i_operands i' ! 0"
        "op_width i' (i_operands ?i ! 1) = length (signed_hex v)"
        using s(2) by (simp_all add: set_op_def operand_pieces_def)
      ultimately show ?thesis
        using w True s m by (simp add: text_ok_def take_two) (simp add: set_op_def take_two)
    qed
    ultimately show ?thesis
      using e q True v(1) \<open>pos < length code\<close> assms(1,2)
      by (auto simp: x86_group1_def code_bounds rd8_def Let_def done_at_def x86_out_ok_def)
  qed
qed

lemma jcc_short: "n < 16 \<Longrightarrow> length (jcc_names ! n) \<le> 7"
proof -
  have "list_all (\<lambda>n. length (jcc_names ! n) \<le> 7) [0 ..< 16]" by code_simp
  then show "n < 16 \<Longrightarrow> length (jcc_names ! n) \<le> 7" by (simp add: list_all_iff)
qed

lemma jcc_simps [simp]: "fresh a (jcc cc i) \<longleftrightarrow> fresh a i" "i_mnemonic (jcc cc i) = jcc_names ! unat cc"
  by (simp_all add: jcc_def)

lemma range_diff:
  assumes "lo \<le> b" and "b \<le> lo + n" and "unat lo + unat n < 256"
  shows "b - lo \<le> (n :: u8)"
  using assms by (simp add: word_le_nat_alt unat_sub unat_add_small)

lemma mnemonic_hex: "length (hex_pad 2 (unat (b :: u8))) \<le> 2"
  using length_hex_u8 [of b] by (simp add: length_hex_pad)

lemma two_byte_ok:
  assumes "length code \<le> X86_MAX" and "pos \<le> length code" and "fresh a i" and "i_num_operands i = 0"
  shows "x86_out_ok code a pos (x86_two_byte mode code address pos op_size i)"
proof (cases "pos < length code")
  case False
  with assms show ?thesis by (auto simp: x86_two_byte_def code_bounds fresh_shape)
next
  case True
  let ?op = "code ! pos"
  have p: "pos + 1 \<le> length code" using True by simp
  have j: "x86_out_ok code a (pos + 1) (x86_rel32 code address (pos + 1) (jcc (?op - 0x80) i))"
    if "0x80 \<le> ?op" "?op \<le> 0x8F"
  proof (rule rel32_ok [OF assms(1) p])
    have "?op - 0x80 \<le> 0xF" by (rule range_diff) (use that in simp_all)
    then show "length (i_mnemonic (jcc (?op - 0x80) i)) \<le> 7" by (simp add: jcc_short word_le_nat_alt)
  qed (simp add: assms(3))
  have n: "x86_out_ok code a (pos + 1) (done_at (pos + 1) (named m c i))" if "length m \<le> 7" for m c
    by (rule done_plain) (use assms(3,4) p that in simp_all)
  have x: "x86_out_ok code a (pos + 1) (x86_modrm mode code (pos + 1) op_size None None (named ''nop'' E9_X86_CAT_NOP i))"
  proof -
    from modrm_ok [OF assms(1) p, of a "named ''nop'' E9_X86_CAT_NOP i" None None mode op_size] assms(3,4)
    show ?thesis by (force simp: x86_out_ok_def shape_def text_ok_def)
  qed
  from j n x mnemonic_hex [of ?op] have
    "x86_out_ok code a (pos + 1) (x86_two_byte mode code address pos op_size i)"
    using True assms(1,2) by (simp add: x86_two_byte_def code_bounds rd8_def Let_def)
  then show ?thesis by (rule x86_out_ok_mono) simp
qed

lemma opcode_ok:
  assumes "length code \<le> X86_MAX" and "pos \<le> length code" and "fresh a i" and "i_num_operands i = 0"
  shows "x86_out_ok code a pos (x86_opcode mode code address op pos op_size i)"
proof -
  have n: "x86_out_ok code a pos (done_at pos (named m c i))" if "length m \<le> 7" for m c
    by (rule done_plain) (use assms that in simp_all)
  have r: "x86_out_ok code a pos (done_at pos ((named ''ret'' E9_X86_CAT_CONTROL i)\<lparr>i_is_ret := True, i_is_branch := True\<rparr>))"
    by (rule done_plain) (use assms in simp_all)
  have pp: "x86_out_ok code a pos (x86_push_pop mode op b m pos i)"
    if "length m \<le> 7" "b \<le> op" "op \<le> b + 7" "unat b \<le> 0x60" for b m
    by (rule push_pop_ok [OF assms(3) that(1) assms(2) range_diff]) (use that in simp_all)
  have mi: "x86_out_ok code a pos (x86_mov_imm code op op_size pos i)" if "0xB8 \<le> op" "op \<le> 0xBF"
    by (rule mov_imm_ok [OF assms(1-3) range_diff]) (use that in simp_all)
  have j: "x86_out_ok code a pos (x86_rel8 code address pos (jcc (op - 0x70) i))" if "0x70 \<le> op" "op \<le> 0x7F"
  proof (rule rel8_ok [OF assms(1,2)])
    have "op - 0x70 \<le> 0xF" by (rule range_diff) (use that in simp_all)
    then show "length (i_mnemonic (jcc (op - 0x70) i)) \<le> 7" by (simp add: jcc_short word_le_nat_alt)
  qed (simp add: assms(3))
  note rel = rel32_ok [OF assms(1,2)] rel8_ok [OF assms(1,2)]
  note two = two_op_ok [OF assms(1-3)]
  show ?thesis
    using n r pp j mi rel two mnemonic_hex [of op] two_byte_ok [OF assms] mov_store_ok [OF assms(1-3)]
      mov_load_ok [OF assms(1-3)] group1_ok [OF assms(1-3)] assms(3)
    by (simp add: x86_opcode_def)
qed

lemma prefixes_ok:
  assumes "length code \<le> X86_MAX" and "pos \<le> length code" and "fresh a (snd st)" and "i_num_operands (snd st) = 0"
  shows "\<exists>q h i. x86_prefixes mode code pos st = Some (q, h, i) \<and> pos \<le> q \<and> q \<le> length code \<and>
    fresh a i \<and> i_num_operands i = 0"
  using assms(2-4)
proof (induction "length code - pos" arbitrary: pos st)
  case 0
  then show ?case using assms(1) by (subst x86_prefixes.simps) (cases st, auto simp: code_bounds)
next
  case (Suc n)
  then have lt: "pos < length code" by simp
  show ?case
  proof (cases "x86_prefix mode (code ! pos) st")
    case None
    with lt Suc.prems assms(1) show ?thesis by (subst x86_prefixes.simps) (cases st, auto simp: code_bounds)
  next
    case (Some st')
    have "fresh a (snd st') \<and> i_num_operands (snd st') = 0"
      using Some Suc.prems by (auto simp: x86_prefix_def Let_def fresh_def case_prod_beta split: if_splits)
    moreover have "n = length code - Suc pos" using Suc.hyps(2) lt by simp
    ultimately obtain q h i where
      "x86_prefixes mode code (Suc pos) st' = Some (q, h, i)" "Suc pos \<le> q" "q \<le> length code" "fresh a i"
      "i_num_operands i = 0" using Suc.hyps(1) [of "Suc pos" st'] lt by auto
    with Some lt assms(1) show ?thesis by (subst x86_prefixes.simps) (auto simp: code_bounds)
  qed
qed

lemma text_ok_width:
  assumes "text_ok i" and "i_num_operands i \<le> 2"
  shows "length (insn_text (x86_lead i) (x86_pieces i)) < 63"
proof -
  have "length (concat (x86_lead i)) \<le> 22" using assms(1) by (simp add: x86_lead_def text_ok_def)
  moreover have "length (operands_text (x86_pieces i) True) \<le> 4 + 31"
    using operands_text_width [of "x86_pieces i" True] assms
    by (auto simp: x86_pieces_def text_ok_def o_def min_def split: if_splits)
  ultimately show ?thesis by (simp add: insn_text_def)
qed

text \<open>
  What the caller finds in the instruction: its address and length, the first bytes of the
  code, at most two operands, and a text that is terminated within its buffer.
\<close>

definition described :: "bytes \<Rightarrow> u64 \<Rightarrow> nat \<Rightarrow> E9X86Insn \<Rightarrow> bool" where
  "described code a n i \<longleftrightarrow> i_address i = a \<and> i_length i = word_of_nat n \<and> i_num_operands i \<le> 2 \<and>
     length (i_bytes i) = 15 \<and> take (min n 15) (i_bytes i) = take (min n 15) code \<and>
     (\<exists>s rest. i_text i = str_bytes s @ 0 # rest \<and> length (i_text i) = 64 \<and>
       (i_mnemonic i \<noteq> ''(bad)'' \<longrightarrow> s = insn_text (x86_lead i) (x86_pieces i)))"

lemma finish_ok:
  assumes "pos \<le> length code" and "shape a i" and "text_ok i"
  shows "\<exists>i'. x86_finish code pos i = Some (int pos, i') \<and> described code a pos i'"
proof -
  let ?k = "min pos 15"
  let ?i = "i\<lparr>i_length := word_of_nat pos, i_bytes := take ?k code @ drop ?k (i_bytes i)\<rparr>"
  have b: "rd_region code 0 (if 15 < pos then 15 else pos) = Some (take ?k code)"
    using assms(1) by (auto simp: rd_region_def min_def)
  have m: "memcpy_to (i_bytes i) 0 (take ?k code) = Some (take ?k code @ drop ?k (i_bytes i))"
    using assms(1,2) by (auto simp: memcpy_to_def shape_def min_def)
  have p: "x86_lead (i\<lparr>i_length := l, i_bytes := bs, i_text := t\<rparr>) = x86_lead i"
    "x86_pieces (i\<lparr>i_length := l, i_bytes := bs, i_text := t\<rparr>) = x86_pieces i"
    "x86_lead (i\<lparr>i_length := l, i_bytes := bs\<rparr>) = x86_lead i"
    "x86_pieces (i\<lparr>i_length := l, i_bytes := bs\<rparr>) = x86_pieces i" for l bs t
    using pieces_cong [of "i\<lparr>i_length := l, i_bytes := bs, i_text := t\<rparr>" i for l bs t]
      pieces_cong [of "i\<lparr>i_length := l, i_bytes := bs\<rparr>" i for l bs]
    by (simp_all add: x86_lead_def x86_pieces_def)
  have "length (insn_text (x86_lead i) (x86_pieces i)) < length (i_text i) - 1"
    using text_ok_width [OF assms(3)] assms(2) by (simp add: shape_def)
  from format_insn_fits [OF this] obtain rest where
    f: "format_insn (x86_lead i) (x86_pieces i) (i_text i) = Some (str_bytes (insn_text (x86_lead i) (x86_pieces i)) @ 0 # rest)"
      "length rest = length (i_text i) - Suc (length (insn_text (x86_lead i) (x86_pieces i)))" by auto
  have "Suc (length (insn_text (x86_lead i) (x86_pieces i)) + length rest) = 64"
    using f(2) text_ok_width [OF assms(3)] assms(2) by (simp add: shape_def)
  then show ?thesis
    using b m f(1) p assms(1,2)
    by (auto simp: x86_finish_def e9_x86_insn_format_def described_def shape_def Let_def)
qed

lemma invalid_ok:
  assumes "code \<noteq> []" and "shape a i"
  shows "\<exists>i'. x86_invalid code i = Some (1, i') \<and> described code a 1 i'"
proof -
  have "rd8 code 0 = Some (code ! 0)" using assms(1) by (simp add: rd8_def)
  moreover have "memcpy_to (i_text i) 0 (str_bytes ''(bad)'' @ [0]) =
      Some (str_bytes ''(bad)'' @ 0 # drop (Suc 5) (i_text i))"
    using assms(2) by (simp add: memcpy_to_def shape_def numeral_eq_Suc)
  moreover have "take 1 ((i_bytes i)[0 := code ! 0]) = take 1 code"
    using assms by (cases code; cases "i_bytes i") (auto simp: shape_def)
  ultimately show ?thesis
    using assms(2) by (auto simp: x86_invalid_def described_def shape_def named_def)
qed

lemma disasm_one_ok:
  assumes "length code \<le> X86_MAX" and "code \<noteq> []"
  shows "\<exists>n i. e9_x86_disasm_one (Some ctx) (Some code) a out = Some (int n, i) \<and> 0 < n \<and> n \<le> length code \<and>
    described code a n i"
proof -
  let ?i0 = "zero_insn\<lparr>i_address := a\<rparr>"
  have "fresh a ?i0" "i_num_operands ?i0 = 0" by (simp_all add: fresh_def zero_insn_def numeral_eq_Suc)
  with prefixes_ok [OF assms(1), of 0 a "(False, ?i0)" "d_mode ctx"] obtain q h i where
    p: "x86_prefixes (d_mode ctx) code 0 (False, ?i0) = Some (q, h, i)" "q \<le> length code" "fresh a i" "i_num_operands i = 0"
    by auto
  note inv = invalid_ok [OF assms(2)]
  have one: "0 < (1 :: nat)" "1 \<le> length code" using assms(2) by (auto simp: Suc_le_eq)
  show ?thesis
  proof (cases "q < length code")
    case False
    from inv [OF fresh_shape [OF p(3)]] p False assms one show ?thesis
      by (intro exI [of _ 1]) (auto simp: e9_x86_disasm_one_def code_bounds)
  next
    case True
    let ?r = "x86_opcode (d_mode ctx) code a (code ! q) (q + 1) (x86_op_size (d_mode ctx) (i_rex i) h) i"
    have "x86_out_ok code a (q + 1) ?r" by (rule opcode_ok) (use assms(1) True p in auto)
    then consider (bad) j where "?r = Some (Inl j)" "shape a j"
      | (good) n j where "?r = Some (Inr (n, j))" "q + 1 \<le> n" "n \<le> length code" "shape a j" "text_ok j"
      by (auto simp: x86_out_ok_def)
    then show ?thesis
    proof cases
      case bad
      from inv [OF bad(2)] bad(1) p True assms one show ?thesis
        by (intro exI [of _ 1]) (auto simp: e9_x86_disasm_one_def code_bounds rd8_def)
    next
      case good
      from finish_ok [OF good(3-5)] good p True assms show ?thesis
        by (intro exI [of _ n]) (auto simp: e9_x86_disasm_one_def code_bounds rd8_def)
    qed
  qed
qed

section \<open>The loop\<close>

definition x86_len :: "E9X86Disasm \<Rightarrow> bytes \<Rightarrow> u64 \<Rightarrow> nat" where
  "x86_len ctx code a =
     (case e9_x86_disasm_one (Some ctx) (Some code) a zero_insn of None \<Rightarrow> 0 | Some (n, i) \<Rightarrow> nat n)"

interpretation x86: decoder "\<lambda>code a. e9_x86_disasm_one (Some ctx) (Some code) a zero_insn" "x86_disasm_loop ctx" 1
    "\<lambda>code. length code \<le> X86_MAX" i_address "x86_len ctx" for ctx
proof
  show "\<exists>i. e9_x86_disasm_one (Some ctx) (Some code) a zero_insn = Some (int (x86_len ctx code a), i) \<and> i_address i = a \<and>
      0 < x86_len ctx code a \<and> x86_len ctx code a \<le> length code"
    if "length code \<le> X86_MAX" "1 \<le> length code" for code a
  proof -
    from that have "code \<noteq> []" by auto
    from disasm_one_ok [OF that(1) this, of ctx a zero_insn] show ?thesis by (auto simp: x86_len_def described_def)
  qed
  show "x86_disasm_loop ctx k code off a = Some []" if "k = 0 \<or> length code < off + 1" for k code off a
    using that by (cases k) auto
  show "x86_disasm_loop ctx (Suc k) code off a = map_option (\<lambda>is. i # is) (x86_disasm_loop ctx k code (off + n) a)"
    if "off + 1 \<le> length code" "0 < n"
      "e9_x86_disasm_one (Some ctx) (Some (drop off code)) (a + word_of_nat off) zero_insn = Some (int n, i)"
    for k code off a n i
    using that by (cases "x86_disasm_loop ctx k code (off + n) a") auto
qed auto

section \<open>Properties\<close>

text \<open>
  C19.  Decoding one instruction: on every non-empty buffer the decoder stays inside the
  buffer, consumes between one byte and the whole buffer, and fills in the address, the length
  (modulo 256), the first bytes and at most two operands; the text of the instruction is
  written completely and terminated inside its 64 bytes, whatever the input.
\<close>

theorem x86_disasm_one_safe:
  assumes "length code \<le> X86_MAX" and "code \<noteq> []"
  shows "\<exists>n i. e9_x86_disasm_one (Some ctx) (Some code) a out = Some (int n, i) \<and> 1 \<le> n \<and> n \<le> length code \<and>
    described code a n i"
  using disasm_one_ok [OF assms, of ctx a out] by (auto simp: Suc_le_eq)

theorem x86_disasm_one_safe_witness:
  "\<exists>n i. e9_x86_disasm_one (Some \<lparr>d_mode = 64\<rparr>) (Some [0x48, 0x89, 0xE5]) 0x1000 zero_insn = Some (int n, i) \<and>
    1 \<le> n \<and> n \<le> length [0x48, 0x89, 0xE5 :: u8] \<and> described [0x48, 0x89, 0xE5] 0x1000 n i"
  using x86_disasm_one_safe [of "[0x48, 0x89, 0xE5]" "\<lparr>d_mode = 64\<rparr>" "0x1000" zero_insn]
  by (simp add: X86_MAX_def)

text \<open>
  Disassembling a buffer: with room for one instruction per byte the loop of
  \<open>e9_x86_disasm\<close> terminates after decoding the whole buffer, and the instructions follow each
  other without gaps: each address is the end of the preceding instruction.
\<close>

theorem x86_disasm_covers:
  assumes "length code \<le> X86_MAX" and "code \<noteq> []" and "length code \<le> count"
  shows "\<exists>is. e9_x86_disasm (Some ctx) (Some code) a count = Some (length is, is) \<and>
    contiguous i_address (len_at (x86_len ctx) code a) a 0 is \<and>
    covered (len_at (x86_len ctx) code a) 0 is = length code"
proof -
  from x86.loop_complete [OF assms(1,3), of ctx a] obtain "is" where
    "x86_disasm_loop ctx count code 0 a = Some is" "contiguous i_address (len_at (x86_len ctx) code a) a 0 is"
    "covered (len_at (x86_len ctx) code a) 0 is = length code" by auto
  with assms(2) show ?thesis by (auto simp: e9_x86_disasm_def)
qed

theorem x86_disasm_covers_witness:
  "\<exists>is. e9_x86_disasm (Some \<lparr>d_mode = 64\<rparr>) (Some [0x55, 0x48, 0x89, 0xE5, 0xC3]) 0x1000 8 = Some (length is, is) \<and>
    covered (len_at (x86_len \<lparr>d_mode = 64\<rparr>) [0x55, 0x48, 0x89, 0xE5, 0xC3] 0x1000) 0 is = 5"
  using x86_disasm_covers [of "[0x55, 0x48, 0x89, 0xE5, 0xC3]" 8 "\<lparr>d_mode = 64\<rparr>" "0x1000"] by (auto simp: X86_MAX_def)

text \<open>
  Formatting: \<open>e9_x86_insn_format\<close> stores the complete text with its terminating zero
  whenever the text leaves at least one byte of the buffer unused besides the zero, and it
  leaves the buffer in place of truncating when the mnemonic alone fills the buffer.
\<close>

theorem x86_format_exact:
  assumes "length (insn_text (x86_lead i) (x86_pieces i)) + 2 \<le> length buf"
  shows "(\<exists>rest. e9_x86_insn_format i buf = Some (str_bytes (insn_text (x86_lead i) (x86_pieces i)) @ 0 # rest)) \<and>
    (small \<noteq> [] \<and> length small \<le> length m \<longrightarrow> e9_x86_insn_format (zero_insn\<lparr>i_mnemonic := m\<rparr>) small = None)"
proof
  show "\<exists>rest. e9_x86_insn_format i buf = Some (str_bytes (insn_text (x86_lead i) (x86_pieces i)) @ 0 # rest)"
  proof -
    have "length (insn_text (x86_lead i) (x86_pieces i)) < length buf - 1" using assms by linarith
    from format_insn_fits [OF this] show ?thesis by (auto simp: e9_x86_insn_format_def)
  qed
  show "small \<noteq> [] \<and> length small \<le> length m \<longrightarrow> e9_x86_insn_format (zero_insn\<lparr>i_mnemonic := m\<rparr>) small = None"
    using format_insn_too_small [of small m]
    by (simp add: e9_x86_insn_format_def x86_lead_def x86_pieces_def zero_insn_def)
qed

theorem x86_format_exact_witness:
  "(\<exists>rest. e9_x86_insn_format (zero_insn\<lparr>i_mnemonic := ''ret''\<rparr>) [9, 9, 9, 9, 9] = Some (str_bytes ''ret'' @ 0 # rest)) \<and>
   e9_x86_insn_format (zero_insn\<lparr>i_mnemonic := ''push''\<rparr>) [9, 9, 9, 9] = None"
  using x86_format_exact [of "zero_insn\<lparr>i_mnemonic := ''ret''\<rparr>" "[9, 9, 9, 9, 9]" "[9, 9, 9, 9]" "''push''"]
  by (simp add: x86_lead_def x86_pieces_def zero_insn_def insn_text_def operands_text_def)
end
