(* ===== verification/E9DisasmA64.thy ===== *)
theory E9DisasmA64
  imports E9Text E9Disasm
begin

text \<open>
  The AArch64 disassembler \<open>vendor/e9disasm_arm64.c\<close> with the types of
  \<open>vendor/e9disasm_arm64.h\<close>.

  Registers, shifts and conditions are their enumeration values, because the code computes with
  them and indexes tables by them.  An operand has one field per member of the union that the
  code reads or writes; \<open>int64_t\<close> values are integers, computed as 64-bit words where the code
  mixes them with addresses.  The code has one branch per instruction class; each is a
  definition from the cleared instruction to the filled-in one.
\<close>

section \<open>Types and names\<close>

datatype E9A64Category =
    E9_A64_CAT_INVALID | E9_A64_CAT_DATA_PROC | E9_A64_CAT_LOAD_STORE | E9_A64_CAT_BRANCH
  | E9_A64_CAT_SIMD_FP | E9_A64_CAT_SYSTEM | E9_A64_CAT_EXCEPTION | E9_A64_CAT_BITFIELD
  | E9_A64_CAT_MOVE | E9_A64_CAT_COMPARE | E9_A64_CAT_OTHER

datatype E9A64OpType =
    E9_A64_OP_NONE | E9_A64_OP_REG | E9_A64_OP_VREG | E9_A64_OP_IMM | E9_A64_OP_MEM
  | E9_A64_OP_LABEL | E9_A64_OP_SHIFT | E9_A64_OP_EXTEND | E9_A64_OP_COND | E9_A64_OP_SYSREG

type_synonym E9A64Reg = nat

definition E9_A64_REG_X0 :: E9A64Reg where [simp]: "E9_A64_REG_X0 = 0"
definition E9_A64_REG_XZR :: E9A64Reg where [simp]: "E9_A64_REG_XZR = 31"
definition E9_A64_REG_SP :: E9A64Reg where [simp]: "E9_A64_REG_SP = 32"
definition E9_A64_REG_W0 :: E9A64Reg where [simp]: "E9_A64_REG_W0 = 64"
definition E9_A64_REG_WZR :: E9A64Reg where [simp]: "E9_A64_REG_WZR = 95"
definition E9_A64_REG_WSP :: E9A64Reg where [simp]: "E9_A64_REG_WSP = 96"
definition E9_A64_COND_NV :: nat where [simp]: "E9_A64_COND_NV = 15"

definition REG_NAMES_X :: "string list" where
  "REG_NAMES_X = [
    ''x0'', ''x1'', ''x2'', ''x3'', ''x4'', ''x5'', ''x6'', ''x7'',
    ''x8'', ''x9'', ''x10'', ''x11'', ''x12'', ''x13'', ''x14'', ''x15'',
    ''x16'', ''x17'', ''x18'', ''x19'', ''x20'', ''x21'', ''x22'', ''x23'',
    ''x24'', ''x25'', ''x26'', ''x27'', ''x28'', ''x29'', ''x30'', ''xzr'', ''sp'']"

definition REG_NAMES_W :: "string list" where
  "REG_NAMES_W = [
    ''w0'', ''w1'', ''w2'', ''w3'', ''w4'', ''w5'', ''w6'', ''w7'',
    ''w8'', ''w9'', ''w10'', ''w11'', ''w12'', ''w13'', ''w14'', ''w15'',
    ''w16'', ''w17'', ''w18'', ''w19'', ''w20'', ''w21'', ''w22'', ''w23'',
    ''w24'', ''w25'', ''w26'', ''w27'', ''w28'', ''w29'', ''w30'', ''wzr'', ''wsp'']"

definition COND_NAMES :: "string list" where
  "COND_NAMES = [''eq'', ''ne'', ''cs'', ''cc'', ''mi'', ''pl'', ''vs'', ''vc'',
    ''hi'', ''ls'', ''ge'', ''lt'', ''gt'', ''le'', ''al'', ''nv'']"

definition SHIFT_NAMES :: "string list" where
  "SHIFT_NAMES = [''lsl'', ''lsr'', ''asr'', ''ror'']"

definition e9_a64_reg_name :: "E9A64Reg \<Rightarrow> string" where
  "e9_a64_reg_name reg =
     (if E9_A64_REG_X0 \<le> reg \<and> reg \<le> E9_A64_REG_SP then REG_NAMES_X ! (reg - E9_A64_REG_X0)
      else if E9_A64_REG_W0 \<le> reg \<and> reg \<le> E9_A64_REG_WSP then REG_NAMES_W ! (reg - E9_A64_REG_W0)
      else ''???'')"

definition e9_a64_cond_name :: "nat \<Rightarrow> string" where
  "e9_a64_cond_name c = (if c \<le> E9_A64_COND_NV then COND_NAMES ! c else ''??'')"

record A64Mem =
  am_base :: E9A64Reg
  am_offset :: int
  am_post_index :: bool

record A64Shifted =
  sh_reg :: E9A64Reg
  sh_shift :: nat
  sh_amount :: u8

record E9A64Operand =
  ao_type :: E9A64OpType
  ao_size :: u8
  ao_reg :: E9A64Reg
  ao_imm :: int
  ao_mem :: A64Mem
  ao_label :: int
  ao_shifted :: A64Shifted
  ao_cond :: nat

record E9A64Insn =
  a_address :: u64
  a_encoding :: u32
  a_mnemonic :: string
  a_category :: E9A64Category
  a_operands :: "E9A64Operand list"
  a_num_operands :: nat
  a_is_branch :: bool
  a_is_call :: bool
  a_is_ret :: bool
  a_is_conditional :: bool
  a_branch_target :: u64
  a_reads_memory :: bool
  a_writes_memory :: bool
  a_text :: bytes

definition zero_a64_operand :: E9A64Operand where
  "zero_a64_operand = \<lparr>ao_type = E9_A64_OP_NONE, ao_size = 0, ao_reg = 0, ao_imm = 0,
     ao_mem = \<lparr>am_base = 0, am_offset = 0, am_post_index = False\<rparr>, ao_label = 0,
     ao_shifted = \<lparr>sh_reg = 0, sh_shift = 0, sh_amount = 0\<rparr>, ao_cond = 0\<rparr>"

definition zero_a64_insn :: E9A64Insn where
  "zero_a64_insn = \<lparr>a_address = 0, a_encoding = 0, a_mnemonic = '''', a_category = E9_A64_CAT_INVALID,
     a_operands = replicate 5 zero_a64_operand, a_num_operands = 0, a_is_branch = False, a_is_call = False,
     a_is_ret = False, a_is_conditional = False, a_branch_target = 0, a_reads_memory = False,
     a_writes_memory = False, a_text = replicate 80 0\<rparr>"

section \<open>Bit fields\<close>

definition BITS :: "u32 \<Rightarrow> nat \<Rightarrow> nat \<Rightarrow> u32" where
  "BITS insn hi lo = drop_bit lo insn AND (push_bit (hi - lo + 1) 1 - 1)"

definition BIT :: "u32 \<Rightarrow> nat \<Rightarrow> bool" where
  "BIT insn n = (drop_bit n insn AND 1 \<noteq> 0)"

definition sign_extend :: "u64 \<Rightarrow> nat \<Rightarrow> u64" where
  "sign_extend val n = (let sign_bit = push_bit (n - 1) 1 in (val XOR sign_bit) - sign_bit)"

text \<open>A field as an \<open>int64_t\<close> immediate: sign-extended from its width and scaled.\<close>

definition simm :: "u32 \<Rightarrow> nat \<Rightarrow> nat \<Rightarrow> nat \<Rightarrow> u64" where
  "simm enc hi lo scale = push_bit scale (sign_extend (ucast (BITS enc hi lo)) (hi - lo + 1))"

definition decode_reg :: "u32 \<Rightarrow> bool \<Rightarrow> bool \<Rightarrow> E9A64Reg" where
  "decode_reg num is_64bit is_sp =
     (if num = 31 then
        if is_sp then (if is_64bit then E9_A64_REG_SP else E9_A64_REG_WSP)
        else if is_64bit then E9_A64_REG_XZR else E9_A64_REG_WZR
      else if is_64bit then E9_A64_REG_X0 + unat num else E9_A64_REG_W0 + unat num)"

section \<open>Filling in an instruction\<close>

definition aset :: "nat \<Rightarrow> (E9A64Operand \<Rightarrow> E9A64Operand) \<Rightarrow> E9A64Insn \<Rightarrow> E9A64Insn" where
  "aset k f i = i\<lparr>a_operands := (a_operands i)[k := f (a_operands i ! k)]\<rparr>"

definition a64_named :: "string \<Rightarrow> E9A64Category \<Rightarrow> nat \<Rightarrow> E9A64Insn \<Rightarrow> E9A64Insn" where
  "a64_named m c n i = i\<lparr>a_mnemonic := m, a_category := c, a_num_operands := n\<rparr>"

definition reg_op :: "E9A64Reg \<Rightarrow> E9A64Operand \<Rightarrow> E9A64Operand" where
  "reg_op r op = op\<lparr>ao_type := E9_A64_OP_REG, ao_reg := r\<rparr>"

definition sized_reg_op :: "E9A64Reg \<Rightarrow> bool \<Rightarrow> E9A64Operand \<Rightarrow> E9A64Operand" where
  "sized_reg_op r is_64bit op = (reg_op r op)\<lparr>ao_size := (if is_64bit then 8 else 4)\<rparr>"

definition imm_op :: "int \<Rightarrow> E9A64Operand \<Rightarrow> E9A64Operand" where
  "imm_op v op = op\<lparr>ao_type := E9_A64_OP_IMM, ao_imm := v\<rparr>"

definition label_op :: "u64 \<Rightarrow> E9A64Operand \<Rightarrow> E9A64Operand" where
  "label_op v op = op\<lparr>ao_type := E9_A64_OP_LABEL, ao_label := sint v\<rparr>"

definition mem_op :: "E9A64Reg \<Rightarrow> int \<Rightarrow> E9A64Operand \<Rightarrow> E9A64Operand" where
  "mem_op b off op = op\<lparr>ao_type := E9_A64_OP_MEM, ao_mem := (ao_mem op)\<lparr>am_base := b, am_offset := off\<rparr>\<rparr>"

definition shift_op :: "E9A64Reg \<Rightarrow> u32 \<Rightarrow> u32 \<Rightarrow> E9A64Operand \<Rightarrow> E9A64Operand" where
  "shift_op r sh amount op = op\<lparr>ao_type := E9_A64_OP_SHIFT,
     ao_shifted := \<lparr>sh_reg = r, sh_shift = unat sh, sh_amount = ucast amount\<rparr>\<rparr>"

section \<open>The instruction classes\<close>

definition a64_pcrel :: "u32 \<Rightarrow> u64 \<Rightarrow> E9A64Insn \<Rightarrow> E9A64Insn" where
  "a64_pcrel enc address i =
     (let is_adrp = BIT enc 31;
          imm = simm enc 23 5 2 OR ucast (BITS enc 30 29);
          rd = BITS enc 4 0;
          label = (if is_adrp then (address AND NOT 0xFFF) + push_bit 12 imm else address + imm)
      in aset 1 (label_op label)
           (aset 0 (sized_reg_op (decode_reg rd True False) True)
             (a64_named (if is_adrp then ''adrp'' else ''adr'') E9_A64_CAT_DATA_PROC 2 i)))"

definition a64_addsub_imm :: "u32 \<Rightarrow> E9A64Insn \<Rightarrow> E9A64Insn" where
  "a64_addsub_imm enc i =
     (let is_64bit = BIT enc 31; is_sub = BIT enc 30; set_flags = BIT enc 29;
          sh = BITS enc 23 22; imm12 = BITS enc 21 10; rn = BITS enc 9 5; rd = BITS enc 4 0;
          imm = uint (if sh \<noteq> 0 then push_bit 12 imm12 else imm12)
      in if is_sub \<and> rd = 31 \<and> set_flags then
           aset 1 (imm_op imm)
             (aset 0 (sized_reg_op (decode_reg rn is_64bit True) is_64bit)
               (a64_named ''cmp'' E9_A64_CAT_COMPARE 2 i))
         else
           aset 2 (imm_op imm)
             (aset 1 (sized_reg_op (decode_reg rn is_64bit True) is_64bit)
               (aset 0 (sized_reg_op (decode_reg rd is_64bit (\<not> set_flags)) is_64bit)
                 (a64_named ((if is_sub then ''sub'' else ''add'') @ (if set_flags then ''s'' else ''''))
                   E9_A64_CAT_DATA_PROC 3 i))))"

definition mov_ops :: "string list" where "mov_ops = [''movn'', ''???'', ''movz'', ''movk'']"

definition a64_movewide :: "u32 \<Rightarrow> E9A64Insn \<Rightarrow> E9A64Insn" where
  "a64_movewide enc i =
     (let is_64bit = BIT enc 31; opc = BITS enc 30 29; hw = BITS enc 22 21;
          imm16 = BITS enc 20 5; rd = BITS enc 4 0
      in aset 1 (imm_op (sint (push_bit (unat hw * 16) (ucast imm16 :: u64))))
           (aset 0 (sized_reg_op (decode_reg rd is_64bit False) is_64bit)
             (a64_named (mov_ops ! unat opc) E9_A64_CAT_MOVE 2 i)))"

definition a64_branch_to :: "u64 \<Rightarrow> nat \<Rightarrow> E9A64Insn \<Rightarrow> E9A64Insn" where
  "a64_branch_to target k i = aset k (label_op target) (i\<lparr>a_is_branch := True, a_branch_target := target\<rparr>)"

definition a64_branch_imm :: "u32 \<Rightarrow> u64 \<Rightarrow> E9A64Insn \<Rightarrow> E9A64Insn" where
  "a64_branch_imm enc address i =
     (let is_bl = BIT enc 31 in
      a64_branch_to (address + simm enc 25 0 2) 0
        ((a64_named (if is_bl then ''bl'' else ''b'') E9_A64_CAT_BRANCH 1 i)\<lparr>a_is_call := is_bl\<rparr>))"

definition a64_cbz :: "u32 \<Rightarrow> u64 \<Rightarrow> E9A64Insn \<Rightarrow> E9A64Insn" where
  "a64_cbz enc address i =
     (let is_64bit = BIT enc 31; is_nz = BIT enc 24; rt = BITS enc 4 0 in
      a64_branch_to (address + simm enc 23 5 2) 1
        (aset 0 (sized_reg_op (decode_reg rt is_64bit False) is_64bit)
          ((a64_named (if is_nz then ''cbnz'' else ''cbz'') E9_A64_CAT_BRANCH 2 i)\<lparr>a_is_conditional := True\<rparr>)))"

definition a64_bcond :: "u32 \<Rightarrow> u64 \<Rightarrow> E9A64Insn \<Rightarrow> E9A64Insn" where
  "a64_bcond enc address i =
     a64_branch_to (address + simm enc 23 5 2) 0
       ((a64_named (''b.'' @ COND_NAMES ! unat (BITS enc 3 0)) E9_A64_CAT_BRANCH 1 i)\<lparr>a_is_conditional := True\<rparr>)"

definition a64_tbz :: "u32 \<Rightarrow> u64 \<Rightarrow> E9A64Insn \<Rightarrow> E9A64Insn" where
  "a64_tbz enc address i =
     (let is_64bit = BIT enc 31; is_nz = BIT enc 24; b5 = BITS enc 31 31; b40 = BITS enc 23 19; rt = BITS enc 4 0 in
      a64_branch_to (address + simm enc 18 5 2) 2
        (aset 1 (imm_op (uint (push_bit 5 b5 OR b40)))
          (aset 0 (reg_op (decode_reg rt is_64bit False))
            ((a64_named (if is_nz then ''tbnz'' else ''tbz'') E9_A64_CAT_BRANCH 3 i)\<lparr>a_is_conditional := True\<rparr>))))"

definition a64_branch_reg :: "u32 \<Rightarrow> E9A64Insn \<Rightarrow> E9A64Insn" where
  "a64_branch_reg enc i =
     (let opc = BITS enc 24 21; rn = BITS enc 9 5;
          n = (if opc = 2 \<and> rn = 30 then 0 else 1);
          i = (if opc = 0 then (a64_named ''br'' E9_A64_CAT_BRANCH n i)\<lparr>a_is_branch := True\<rparr>
               else if opc = 1 then
                 (a64_named ''blr'' E9_A64_CAT_BRANCH n i)\<lparr>a_is_branch := True, a_is_call := True\<rparr>
               else if opc = 2 then
                 (a64_named ''ret'' E9_A64_CAT_BRANCH n i)\<lparr>a_is_branch := True, a_is_ret := True\<rparr>
               else a64_named ''br_reg'' E9_A64_CAT_BRANCH n i)
      in if 0 < n then aset 0 (sized_reg_op (decode_reg rn True False) True) i else i)"

definition a64_load_store :: "u32 \<Rightarrow> E9A64Insn \<Rightarrow> E9A64Insn" where
  "a64_load_store enc i =
     (let sz = BITS enc 31 30 in
      if BITS enc 29 28 = 3 \<and> BITS enc 25 24 = 1 then
        let imm12 = BITS enc 21 10; rn = BITS enc 9 5; rt = BITS enc 4 0; is_load = BIT enc 22;
            offset = uint (push_bit (unat sz) imm12);
            op_bytes = push_bit (unat sz) 1
        in aset 1 (\<lambda>op. (mem_op (decode_reg rn True True) offset op)\<lparr>ao_size := op_bytes\<rparr>)
             (aset 0 (\<lambda>op. (reg_op (decode_reg rt (sz = 3) False) op)\<lparr>ao_size := op_bytes\<rparr>)
               ((a64_named (if is_load then ''ldr'' else ''str'') E9_A64_CAT_LOAD_STORE 2 i)
                  \<lparr>a_reads_memory := is_load, a_writes_memory := \<not> is_load\<rparr>))
      else if BITS enc 29 27 = 5 then
        let is_load = BIT enc 22; rt2 = BITS enc 14 10; rn = BITS enc 9 5; rt = BITS enc 4 0; is_64bit = BIT enc 31;
            offset = sint (simm enc 21 15 (2 + (if is_64bit then 1 else 0)))
        in aset 2 (mem_op (decode_reg rn True True) offset)
             (aset 1 (sized_reg_op (decode_reg rt2 is_64bit False) is_64bit)
               (aset 0 (sized_reg_op (decode_reg rt is_64bit False) is_64bit)
                 ((a64_named (if is_load then ''ldp'' else ''stp'') E9_A64_CAT_LOAD_STORE 3 i)
                    \<lparr>a_reads_memory := is_load, a_writes_memory := \<not> is_load\<rparr>)))
      else i\<lparr>a_mnemonic := ''ldst'', a_category := E9_A64_CAT_LOAD_STORE\<rparr>)"

definition log_ops :: "string list" where "log_ops = [''and'', ''orr'', ''eor'', ''ands'']"
definition log_neg :: "string list" where "log_neg = [''bic'', ''orn'', ''eon'', ''bics'']"

definition a64_data_reg :: "u32 \<Rightarrow> E9A64Insn \<Rightarrow> E9A64Insn" where
  "a64_data_reg enc i =
     (let is_64bit = BIT enc 31; opc = BITS enc 30 29; set_flags = BIT enc 29; sh = BITS enc 23 22;
          is_neg = BIT enc 21; rm = BITS enc 20 16; imm6 = BITS enc 15 10; rn = BITS enc 9 5; rd = BITS enc 4 0;
          op5 = BITS enc 28 24
      in if op5 AND 0x1E = 0x0A then
           if opc = 1 \<and> \<not> is_neg \<and> rn = 31 \<and> imm6 = 0 \<and> sh = 0 then
             aset 1 (sized_reg_op (decode_reg rm is_64bit False) is_64bit)
               (aset 0 (sized_reg_op (decode_reg rd is_64bit False) is_64bit)
                 (a64_named ''mov'' E9_A64_CAT_MOVE 2 i))
           else
             aset 2 (shift_op (decode_reg rm is_64bit False) sh imm6)
               (aset 1 (reg_op (decode_reg rn is_64bit False))
                 (aset 0 (reg_op (decode_reg rd is_64bit False))
                   (a64_named ((if is_neg then log_neg else log_ops) ! unat opc) E9_A64_CAT_DATA_PROC 3 i)))
         else if op5 AND 0x1F = 0x0B then
           let is_sub = BIT enc 30 in
           if is_sub \<and> rd = 31 \<and> set_flags then
             aset 1 (reg_op (decode_reg rm is_64bit False))
               (aset 0 (reg_op (decode_reg rn is_64bit True))
                 (a64_named ''cmp'' E9_A64_CAT_COMPARE 2 i))
           else
             aset 2 (if imm6 \<noteq> 0 then shift_op (decode_reg rm is_64bit False) sh imm6
                     else reg_op (decode_reg rm is_64bit False))
               (aset 1 (reg_op (decode_reg rn is_64bit True))
                 (aset 0 (reg_op (decode_reg rd is_64bit (\<not> set_flags)))
                   (a64_named ((if is_sub then ''sub'' else ''add'') @ (if set_flags then ''s'' else ''''))
                     E9_A64_CAT_DATA_PROC 3 i)))
         else i\<lparr>a_mnemonic := ''data_reg'', a_category := E9_A64_CAT_DATA_PROC\<rparr>)"

definition hint_name :: "u32 \<Rightarrow> string" where
  "hint_name n =
     (if n = 0 then ''nop'' else if n = 1 then ''yield'' else if n = 2 then ''wfe'' else if n = 3 then ''wfi''
      else if n = 4 then ''sev'' else if n = 5 then ''sevl'' else ''hint'')"

definition barrier_name :: "u32 \<Rightarrow> string" where
  "barrier_name n =
     (if n = 2 then ''clrex'' else if n = 4 then ''dsb'' else if n = 5 then ''dmb'' else if n = 6 then ''isb''
      else ''barrier'')"

definition a64_system :: "u32 \<Rightarrow> E9A64Insn \<Rightarrow> E9A64Insn" where
  "a64_system enc i =
     (let l = BIT enc 21; op0_sys = BITS enc 20 19; op1 = BITS enc 18 16; crn = BITS enc 15 12;
          crm = BITS enc 11 8; op2 = BITS enc 7 5; rt = BITS enc 4 0
      in if op0_sys = 1 \<and> \<not> l \<and> rt = 31 then
           if crn = 2 \<and> op1 = 3 then a64_named (hint_name (push_bit 3 crm OR op2)) E9_A64_CAT_SYSTEM 0 i
           else if crn = 3 then a64_named (barrier_name op2) E9_A64_CAT_SYSTEM 0 i
           else a64_named ''sys'' E9_A64_CAT_SYSTEM 0 i
         else if 2 \<le> op0_sys then
           aset (if l then 1 else 0) (\<lambda>op. op\<lparr>ao_type := E9_A64_OP_SYSREG\<rparr>)
             (aset (if l then 0 else 1) (reg_op (decode_reg rt True False))
               (a64_named (if l then ''mrs'' else ''msr'') E9_A64_CAT_SYSTEM 2 i))
         else a64_named ''sys'' E9_A64_CAT_SYSTEM 0 i)"

definition exception_name :: "u32 \<Rightarrow> string" where
  "exception_name n =
     (if n = 1 then ''svc'' else if n = 2 then ''hvc'' else if n = 3 then ''smc'' else if n = 4 then ''brk''
      else if n = 8 then ''hlt'' else ''exc'')"

definition a64_exception :: "u32 \<Rightarrow> E9A64Insn \<Rightarrow> E9A64Insn" where
  "a64_exception enc i =
     (let opc = BITS enc 23 21; imm16 = BITS enc 20 5; ll = BITS enc 1 0 in
      aset 0 (imm_op (uint imm16))
        (a64_named (exception_name (push_bit 2 opc OR ll)) E9_A64_CAT_EXCEPTION 1 i))"

text \<open>The chain of tests on \<open>op0\<close>, bits 31 to 25 of the encoding.\<close>

definition a64_decode :: "u32 \<Rightarrow> u64 \<Rightarrow> E9A64Insn \<Rightarrow> E9A64Insn" where
  "a64_decode enc address i =
     (let op0 = BITS enc 31 25 in
      if op0 AND 0x71 = 0x10 then a64_pcrel enc address i
      else if op0 AND 0x71 = 0x11 then a64_addsub_imm enc i
      else if op0 AND 0x3F = 0x25 then a64_movewide enc i
      else if op0 AND 0x3F = 0x24 then a64_named ''logic_imm'' E9_A64_CAT_DATA_PROC 0 i
      else if op0 AND 0x7C = 0x14 then a64_branch_imm enc address i
      else if op0 AND 0x7E = 0x34 then a64_cbz enc address i
      else if op0 AND 0x7E = 0x54 then a64_bcond enc address i
      else if op0 AND 0x7E = 0x36 then a64_tbz enc address i
      else if op0 AND 0x7E = 0x6A then a64_branch_reg enc i
      else if op0 AND 0x0A = 0x08 then a64_load_store enc i
      else if op0 AND 0x0F = 0x0A \<or> op0 AND 0x0F = 0x0B then a64_data_reg enc i
      else if enc AND 0xFFC00000 = 0xD5000000 then a64_system enc i
      else if enc AND 0xFF000000 = 0xD4000000 then a64_exception enc i
      else a64_named (''.inst 0x'' @ hex_pad 8 (unat enc)) E9_A64_CAT_INVALID 0 i)"

section \<open>Formatting\<close>

definition a64_imm_text :: "int \<Rightarrow> string" where
  "a64_imm_text v = (if v < 0 then ''#-0x'' @ hex (ull (- v)) else ''#0x'' @ hex (ull v))"

definition a64_operand_pieces :: "E9A64Operand \<Rightarrow> string list" where
  "a64_operand_pieces op =
     (case ao_type op of
        E9_A64_OP_REG \<Rightarrow> [e9_a64_reg_name (ao_reg op)]
      | E9_A64_OP_IMM \<Rightarrow> [a64_imm_text (ao_imm op)]
      | E9_A64_OP_LABEL \<Rightarrow> [''0x'' @ hex (ull (ao_label op))]
      | E9_A64_OP_MEM \<Rightarrow>
          [''['' @ e9_a64_reg_name (am_base (ao_mem op))] @
          (if am_offset (ao_mem op) \<noteq> 0 then ['', '' @ a64_imm_text (am_offset (ao_mem op))] else []) @
          ['']''] @ (if am_post_index (ao_mem op) then [''!''] else [])
      | E9_A64_OP_SHIFT \<Rightarrow>
          [e9_a64_reg_name (sh_reg (ao_shifted op))] @
          (if 0 < sh_amount (ao_shifted op)
           then ['', '' @ SHIFT_NAMES ! sh_shift (ao_shifted op) @ '' #'' @ dec (unat (sh_amount (ao_shifted op)))]
           else [])
      | E9_A64_OP_COND \<Rightarrow> [COND_NAMES ! ao_cond op]
      | E9_A64_OP_SYSREG \<Rightarrow> [''<sysreg>'']
      | _ \<Rightarrow> [])"

definition a64_pieces :: "E9A64Insn \<Rightarrow> string list list" where
  "a64_pieces i = map a64_operand_pieces (take (a_num_operands i) (a_operands i))"

definition e9_a64_insn_format :: "E9A64Insn \<Rightarrow> bytes \<Rightarrow> bytes ub" where
  "e9_a64_insn_format i buf = format_insn [a_mnemonic i] (a64_pieces i) buf"

section \<open>The interface functions\<close>

text \<open>The context has no content; \<open>e9_a64_disasm_create\<close> always returns one.\<close>

datatype E9A64Disasm = A64_ctx

definition e9_a64_disasm_create :: "E9A64Disasm ptr" where
  "e9_a64_disasm_create = Some A64_ctx"

definition read_insn :: "bytes \<Rightarrow> u32 ub" where
  "read_insn code = rd32 code 0"

definition e9_a64_disasm_one :: "bytes ptr \<Rightarrow> u64 \<Rightarrow> E9A64Insn \<Rightarrow> (int \<times> E9A64Insn) ub" where
  "e9_a64_disasm_one code address out =
     (case code of
        None \<Rightarrow> Some (0, out)
      | Some code \<Rightarrow>
          if length code < 4 then Some (0, out)
          else do {
            enc \<leftarrow> read_insn code;
            let i = a64_decode enc address (zero_a64_insn\<lparr>a_address := address, a_encoding := enc\<rparr>)
            in do {
              t \<leftarrow> e9_a64_insn_format i (a_text i);
              Some (4, i\<lparr>a_text := t\<rparr>)
            }
          })"

fun a64_disasm_loop :: "nat \<Rightarrow> bytes \<Rightarrow> nat \<Rightarrow> u64 \<Rightarrow> E9A64Insn list ub" where
  "a64_disasm_loop 0 code offset address = Some []"
| "a64_disasm_loop (Suc k) code offset address =
     (if offset + 4 \<le> length code then do {
        (len, insn) \<leftarrow> e9_a64_disasm_one (Some (drop offset code)) (address + word_of_nat offset) zero_a64_insn;
        if len \<noteq> 4 then Some []
        else do {
          rest \<leftarrow> a64_disasm_loop k code (offset + 4) address;
          Some (insn # rest)
        }
      } else Some [])"

definition e9_a64_disasm ::
  "E9A64Disasm ptr \<Rightarrow> bytes ptr \<Rightarrow> u64 \<Rightarrow> nat \<Rightarrow> (nat \<times> E9A64Insn list) ub" where
  "e9_a64_disasm ctx code address count =
     (case (ctx, code) of
        (Some ctx, Some code) \<Rightarrow>
          if length code < 4 then Some (0, [])
          else do {
            insns \<leftarrow> a64_disasm_loop count code 0 address;
            Some (length insns, insns)
          }
      | _ \<Rightarrow> Some (0, []))"

definition e9_a64_is_prologue :: "bytes \<Rightarrow> bool ub" where
  "e9_a64_is_prologue code =
     (if length code < 4 then Some False
      else do {
        insn \<leftarrow> read_insn code;
        Some (insn AND 0xFFC07FFF = 0xA9007BFD \<or> insn AND 0xFF0003FF = 0xD10003FF \<or>
          insn = 0xD503233F \<or> insn = 0xD503237F)
      })"

definition e9_a64_is_epilogue :: "bytes \<Rightarrow> bool ub" where
  "e9_a64_is_epilogue code =
     (if length code < 4 then Some False
      else do {
        insn \<leftarrow> read_insn code;
        Some (insn AND 0xFFFFFC1F = 0xD65F0000 \<or> insn = 0xD65F0BFF \<or> insn = 0xD65F0FFF)
      })"

section \<open>The text fits\<close>

abbreviation aop_width :: "E9A64Operand \<Rightarrow> nat" where
  "aop_width op \<equiv> length (concat (a64_operand_pieces op))"

lemma a64_reg_name_short: "length (e9_a64_reg_name r) \<le> 3"
proof -
  have x: "list_all (\<lambda>n. length (REG_NAMES_X ! n) \<le> 3) [0 ..< 33]" by code_simp
  have w: "list_all (\<lambda>n. length (REG_NAMES_W ! n) \<le> 3) [0 ..< 33]" by code_simp
  from x have "r \<le> 32 \<Longrightarrow> length (REG_NAMES_X ! r) \<le> 3" by (auto simp: list_all_iff)
  moreover from w have "64 \<le> r \<Longrightarrow> r \<le> 96 \<Longrightarrow> length (REG_NAMES_W ! (r - 64)) \<le> 3" by (auto simp: list_all_iff)
  ultimately show ?thesis by (simp add: e9_a64_reg_name_def)
qed

lemma a64_imm_width: "length (a64_imm_text v) \<le> 20"
  using length_hex_ull [of v] length_hex_ull [of "- v"] by (auto simp: a64_imm_text_def)

lemma reg_op_width: "aop_width (reg_op r op) \<le> 3" "aop_width (sized_reg_op r b op) \<le> 3"
  using a64_reg_name_short [of r] by (simp_all add: a64_operand_pieces_def reg_op_def sized_reg_op_def)

lemma imm_op_width: "aop_width (imm_op v op) \<le> 20"
  using a64_imm_width [of v] by (simp add: a64_operand_pieces_def imm_op_def)

lemma label_op_width: "aop_width (label_op v op) \<le> 18"
  using length_hex_ull [of "sint v"] by (simp add: a64_operand_pieces_def label_op_def)

lemma mem_op_width: "aop_width (mem_op b off zero_a64_operand) \<le> 27"
  using a64_reg_name_short [of b] a64_imm_width [of off]
  by (simp add: a64_operand_pieces_def mem_op_def zero_a64_operand_def)

lemma BITS_less:
  "unat (BITS enc 23 22) < 4" "unat (BITS enc 30 29) < 4" "unat (BITS enc 3 0) < 16"
proof -
  have m: "unat (w AND 3) < 4" "unat (w AND 15) < 16" for w :: u32
    using word_and_le1 [of w 3] word_and_le1 [of w 15] by (simp_all add: word_le_nat_alt)
  show "unat (BITS enc 23 22) < 4" "unat (BITS enc 30 29) < 4" "unat (BITS enc 3 0) < 16"
    using m by (simp_all add: BITS_def)
qed

lemma shift_op_width: "aop_width (shift_op r (BITS enc 23 22) amount op) \<le> 13"
proof -
  note BITS_less(1) [of enc]
  moreover have "list_all (\<lambda>n. length (SHIFT_NAMES ! n) \<le> 3) [0 ..< 4]" by code_simp
  ultimately have "length (SHIFT_NAMES ! unat (BITS enc 23 22)) \<le> 3" by (auto simp: list_all_iff)
  with a64_reg_name_short [of r] length_dec_u8 [of "ucast amount"] show ?thesis
    by (simp add: a64_operand_pieces_def shift_op_def)
qed

lemma size_width: "aop_width (op\<lparr>ao_size := s\<rparr>) = aop_width op"
  by (cases "ao_type op") (simp_all add: a64_operand_pieces_def)

text \<open>
  An instruction whose operands are still cleared, with its mnemonic and number of operands
  set, and an instruction whose text fits into its buffer.
\<close>

definition a64_ready :: "nat \<Rightarrow> E9A64Insn \<Rightarrow> bool" where
  "a64_ready n i \<longleftrightarrow> a_operands i = [zero_a64_operand, zero_a64_operand, zero_a64_operand, zero_a64_operand,
     zero_a64_operand] \<and> a_num_operands i = n \<and> length (a_text i) = 80 \<and> length (a_mnemonic i) \<le> 16"

definition a64_text_ok :: "E9A64Insn \<Rightarrow> bool" where
  "a64_text_ok i \<longleftrightarrow> length (a_text i) = 80 \<and> a_num_operands i \<le> 3 \<and> length (a_mnemonic i) \<le> 16 \<and>
     (\<Sum>op\<leftarrow>take (a_num_operands i) (a_operands i). aop_width op) \<le> 56"

lemma ready_named [simp]: "a64_ready k i \<Longrightarrow> length m \<le> 16 \<Longrightarrow> a64_ready n (a64_named m c n i)"
  by (simp add: a64_ready_def a64_named_def)

lemma ready_flags [simp]:
  "a64_ready n (i\<lparr>a_is_branch := b\<rparr>) \<longleftrightarrow> a64_ready n i" "a64_ready n (i\<lparr>a_is_call := b\<rparr>) \<longleftrightarrow> a64_ready n i"
  "a64_ready n (i\<lparr>a_is_ret := b\<rparr>) \<longleftrightarrow> a64_ready n i" "a64_ready n (i\<lparr>a_is_conditional := b\<rparr>) \<longleftrightarrow> a64_ready n i"
  "a64_ready n (i\<lparr>a_branch_target := t\<rparr>) \<longleftrightarrow> a64_ready n i"
  "a64_ready n (i\<lparr>a_reads_memory := b\<rparr>) \<longleftrightarrow> a64_ready n i" "a64_ready n (i\<lparr>a_writes_memory := b\<rparr>) \<longleftrightarrow> a64_ready n i"
  by (simp_all add: a64_ready_def)

lemma text_branch_to: "a64_text_ok (a64_branch_to t k i) \<longleftrightarrow> a64_text_ok (aset k (label_op t) i)"
  by (simp add: a64_text_ok_def a64_branch_to_def aset_def)

lemma ready_text:
  "a64_ready 0 i \<Longrightarrow> a64_text_ok i"
  "a64_ready 1 i \<Longrightarrow> aop_width (f zero_a64_operand) \<le> 56 \<Longrightarrow> a64_text_ok (aset 0 f i)"
  "a64_ready 2 i \<Longrightarrow> aop_width (f zero_a64_operand) + aop_width (g zero_a64_operand) \<le> 56 \<Longrightarrow>
    a64_text_ok (aset 1 g (aset 0 f i)) \<and> a64_text_ok (aset 0 f (aset 1 g i))"
  "a64_ready 3 i \<Longrightarrow>
    aop_width (f zero_a64_operand) + aop_width (g zero_a64_operand) + aop_width (h zero_a64_operand) \<le> 56 \<Longrightarrow>
    a64_text_ok (aset 2 h (aset 1 g (aset 0 f i)))"
  by (simp_all add: a64_ready_def a64_text_ok_def aset_def take_Cons_numeral take_Cons')

text \<open>Every class leaves a text that fits.\<close>

lemma a64_pcrel_ok: "a64_ready 0 i \<Longrightarrow> a64_text_ok (a64_pcrel enc address i)"
  unfolding a64_pcrel_def Let_def
  by (intro ready_text(3) [THEN conjunct1]) (auto intro: order_trans [OF add_mono [OF reg_op_width(2) label_op_width]])

lemma a64_addsub_imm_ok: "a64_ready 0 i \<Longrightarrow> a64_text_ok (a64_addsub_imm enc i)"
proof -
  assume r: "a64_ready 0 i"
  have w: "aop_width (sized_reg_op r b op) + aop_width (imm_op v op') \<le> 56"
    "aop_width (sized_reg_op r b op) + aop_width (sized_reg_op r' b' op'') + aop_width (imm_op v op') \<le> 56"
    for r b op v op' r' b' op''
    using reg_op_width(2) [of r b op] reg_op_width(2) [of r' b' op''] imm_op_width [of v op'] by simp_all
  show ?thesis
    unfolding a64_addsub_imm_def Let_def
    using r w ready_text(3) [THEN conjunct1] ready_text(4) by auto
qed

lemma a64_movewide_ok: "a64_ready 0 i \<Longrightarrow> a64_text_ok (a64_movewide enc i)"
proof -
  assume r: "a64_ready 0 i"
  have "list_all (\<lambda>n. length (mov_ops ! n) \<le> 16) [0 ..< 4]" by code_simp
  with BITS_less(2) [of enc] have "length (mov_ops ! unat (BITS enc 30 29)) \<le> 16" by (auto simp: list_all_iff)
  moreover have "aop_width (sized_reg_op r b op) + aop_width (imm_op v op') \<le> 56" for r b op v op'
    using reg_op_width(2) [of r b op] imm_op_width [of v op'] by simp
  ultimately show ?thesis
    unfolding a64_movewide_def Let_def using r ready_text(3) [THEN conjunct1] by auto
qed

lemma a64_branch_imm_ok: "a64_ready 0 i \<Longrightarrow> a64_text_ok (a64_branch_imm enc address i)"
  unfolding a64_branch_imm_def Let_def text_branch_to
  using label_op_width by (intro ready_text(2)) (auto intro: order_trans [OF label_op_width])

lemma a64_cbz_ok: "a64_ready 0 i \<Longrightarrow> a64_text_ok (a64_cbz enc address i)"
proof -
  assume r: "a64_ready 0 i"
  have "aop_width (sized_reg_op r b op) + aop_width (label_op v op') \<le> 56" for r b op v op'
    using reg_op_width(2) [of r b op] label_op_width [of v op'] by simp
  then show ?thesis
    unfolding a64_cbz_def Let_def using r ready_text(3) [THEN conjunct1] by (auto simp: text_branch_to)
qed

lemma a64_bcond_ok: "a64_ready 0 i \<Longrightarrow> a64_text_ok (a64_bcond enc address i)"
proof -
  assume r: "a64_ready 0 i"
  have "list_all (\<lambda>n. length (COND_NAMES ! n) \<le> 2) [0 ..< 16]" by code_simp
  with BITS_less(3) [of enc] have c: "length (COND_NAMES ! unat (BITS enc 3 0)) \<le> 2" by (auto simp: list_all_iff)
  show ?thesis
    unfolding a64_bcond_def Let_def text_branch_to
    by (intro ready_text(2)) (use r c in \<open>auto intro: order_trans [OF label_op_width]\<close>)
qed

lemma a64_tbz_ok: "a64_ready 0 i \<Longrightarrow> a64_text_ok (a64_tbz enc address i)"
proof -
  assume r: "a64_ready 0 i"
  have "aop_width (reg_op r op) + aop_width (imm_op v op') + aop_width (label_op v' op'') \<le> 56"
    for r op v op' v' op''
    using reg_op_width(1) [of r op] imm_op_width [of v op'] label_op_width [of v' op''] by simp
  then have "a64_text_ok (aset 2 (label_op v') (aset 1 (imm_op v) (aset 0 (reg_op r') j)))" if "a64_ready 3 j" for v' v r' j
    using ready_text(4) [OF that] by blast
  then show ?thesis
    unfolding a64_tbz_def Let_def text_branch_to using r by auto
qed

lemma a64_branch_reg_ok: "a64_ready 0 i \<Longrightarrow> a64_text_ok (a64_branch_reg enc i)"
proof -
  assume r: "a64_ready 0 i"
  have "aop_width (sized_reg_op r b op) \<le> 56" for r b op using reg_op_width(2) [of r b op] by simp
  then show ?thesis
    unfolding a64_branch_reg_def Let_def using r ready_text(1,2) by auto
qed

lemma a64_load_store_ok: "a64_ready 0 i \<Longrightarrow> a64_text_ok (a64_load_store enc i)"
proof -
  assume r: "a64_ready 0 i"
  have l: "a64_text_ok (i\<lparr>a_mnemonic := ''ldst'', a_category := c\<rparr>)" for c
    using r by (simp add: a64_ready_def a64_text_ok_def)
  have "aop_width ((reg_op r op)\<lparr>ao_size := s\<rparr>) + aop_width ((mem_op b off zero_a64_operand)\<lparr>ao_size := s\<rparr>) \<le> 56"
    "aop_width (sized_reg_op r c op) + aop_width (sized_reg_op r' c op') + aop_width (mem_op b off zero_a64_operand) \<le> 56"
    for r op s b off c r' op'
    using reg_op_width(1) [of r op] reg_op_width(2) [of r c op] reg_op_width(2) [of r' c op'] mem_op_width [of b off]
    by (simp_all add: size_width)
  then show ?thesis
    unfolding a64_load_store_def Let_def using r l ready_text(3) [THEN conjunct1] ready_text(4) by auto
qed

lemma a64_data_reg_ok: "a64_ready 0 i \<Longrightarrow> a64_text_ok (a64_data_reg enc i)"
proof -
  assume r: "a64_ready 0 i"
  have l: "a64_text_ok (i\<lparr>a_mnemonic := ''data_reg'', a_category := c\<rparr>)" for c
    using r by (simp add: a64_ready_def a64_text_ok_def)
  have "list_all (\<lambda>n. length (log_ops ! n) \<le> 16 \<and> length (log_neg ! n) \<le> 16) [0 ..< 4]" by code_simp
  with BITS_less(2) [of enc] have m: "length (log_ops ! unat (BITS enc 30 29)) \<le> 16"
    "length (log_neg ! unat (BITS enc 30 29)) \<le> 16" by (auto simp: list_all_iff)
  have "aop_width (sized_reg_op r b op) + aop_width (sized_reg_op r' b op') \<le> 56"
    "aop_width (reg_op r op) + aop_width (reg_op r' op') \<le> 56"
    "aop_width (reg_op r op) + aop_width (reg_op r' op') + aop_width (shift_op r'' (BITS enc 23 22) n op'') \<le> 56"
    "aop_width (reg_op r op) + aop_width (reg_op r' op') + aop_width (reg_op r'' op'') \<le> 56"
    for r op r' op' b r'' n op''
    using reg_op_width(2) [of r b op] reg_op_width(2) [of r' b op'] reg_op_width(1) [of r op]
      reg_op_width(1) [of r' op'] reg_op_width(1) [of r'' op'']
      shift_op_width [of r'' enc n op''] by simp_all
  then show ?thesis
    unfolding a64_data_reg_def Let_def using r l m ready_text(3) [THEN conjunct1] ready_text(4) by auto
qed

lemma a64_system_ok: "a64_ready 0 i \<Longrightarrow> a64_text_ok (a64_system enc i)"
proof -
  assume r: "a64_ready 0 i"
  have m: "length (hint_name n) \<le> 16" "length (barrier_name n) \<le> 16" for n
    by (simp_all add: hint_name_def barrier_name_def)
  have "aop_width (reg_op r op) + aop_width (op'\<lparr>ao_type := E9_A64_OP_SYSREG\<rparr>) \<le> 56"
    "aop_width (op'\<lparr>ao_type := E9_A64_OP_SYSREG\<rparr>) + aop_width (reg_op r op) \<le> 56" for r op op'
    using reg_op_width(1) [of r op] by (simp_all add: a64_operand_pieces_def)
  then show ?thesis
    unfolding a64_system_def Let_def using r m ready_text(1) ready_text(3) by auto
qed

lemma a64_exception_ok: "a64_ready 0 i \<Longrightarrow> a64_text_ok (a64_exception enc i)"
proof -
  assume r: "a64_ready 0 i"
  have "length (exception_name n) \<le> 16" for n by (simp add: exception_name_def)
  moreover have "aop_width (imm_op v op) \<le> 56" for v op using imm_op_width [of v op] by simp
  ultimately show ?thesis
    unfolding a64_exception_def Let_def using r ready_text(2) by auto
qed

lemma a64_decode_ok: "a64_ready 0 i \<Longrightarrow> a64_text_ok (a64_decode enc address i)"
proof -
  assume r: "a64_ready 0 i"
  have "a64_text_ok (a64_named ''logic_imm'' c 0 i)" for c by (rule ready_text(1)) (use r in simp)
  moreover have "a64_text_ok (a64_named (''.inst 0x'' @ hex_pad 8 (unat enc)) c 0 i)" for c
    by (rule ready_text(1)) (use r length_hex_u32 [of enc] in \<open>simp add: length_hex_pad\<close>)
  ultimately show ?thesis
    using a64_pcrel_ok [OF r] a64_addsub_imm_ok [OF r] a64_movewide_ok [OF r] a64_branch_imm_ok [OF r]
      a64_cbz_ok [OF r] a64_bcond_ok [OF r] a64_tbz_ok [OF r] a64_branch_reg_ok [OF r] a64_load_store_ok [OF r]
      a64_data_reg_ok [OF r] a64_system_ok [OF r] a64_exception_ok [OF r]
    by (simp add: a64_decode_def Let_def)
qed

section \<open>One instruction and the loop\<close>

definition same_place :: "E9A64Insn \<Rightarrow> E9A64Insn \<Rightarrow> bool" where
  "same_place i j \<longleftrightarrow> a_address i = a_address j \<and> a_encoding i = a_encoding j"

lemma same_place_build [simp]:
  "same_place i i" "same_place (aset k f i) j \<longleftrightarrow> same_place i j" "same_place (a64_named m c n i) j \<longleftrightarrow> same_place i j"
  "same_place (a64_branch_to t k i) j \<longleftrightarrow> same_place i j"
  "same_place (i\<lparr>a_is_branch := b\<rparr>) j \<longleftrightarrow> same_place i j" "same_place (i\<lparr>a_is_call := b\<rparr>) j \<longleftrightarrow> same_place i j"
  "same_place (i\<lparr>a_is_ret := b\<rparr>) j \<longleftrightarrow> same_place i j" "same_place (i\<lparr>a_is_conditional := b\<rparr>) j \<longleftrightarrow> same_place i j"
  "same_place (i\<lparr>a_reads_memory := b\<rparr>) j \<longleftrightarrow> same_place i j" "same_place (i\<lparr>a_writes_memory := b\<rparr>) j \<longleftrightarrow> same_place i j"
  "same_place (i\<lparr>a_mnemonic := m\<rparr>) j \<longleftrightarrow> same_place i j" "same_place (i\<lparr>a_category := c\<rparr>) j \<longleftrightarrow> same_place i j"
  by (simp_all add: same_place_def aset_def a64_named_def a64_branch_to_def)

lemma same_place_classes:
  "same_place (a64_pcrel enc address i) i"
  "same_place (a64_addsub_imm enc i) i"
  "same_place (a64_movewide enc i) i"
  "same_place (a64_branch_imm enc address i) i"
  "same_place (a64_cbz enc address i) i"
  "same_place (a64_bcond enc address i) i"
  "same_place (a64_tbz enc address i) i"
  "same_place (a64_branch_reg enc i) i"
  "same_place (a64_load_store enc i) i"
  "same_place (a64_data_reg enc i) i"
  "same_place (a64_system enc i) i"
  "same_place (a64_exception enc i) i"
  by (simp_all add: Let_def a64_pcrel_def a64_addsub_imm_def a64_movewide_def a64_branch_imm_def a64_cbz_def a64_bcond_def a64_tbz_def a64_branch_reg_def a64_load_store_def a64_data_reg_def a64_system_def a64_exception_def)

lemma a64_decode_place [simp]:
  "a_address (a64_decode enc address i) = a_address i" "a_encoding (a64_decode enc address i) = a_encoding i"
proof -
  have "same_place (a64_decode enc address i) i" by (simp add: a64_decode_def Let_def same_place_classes)
  then show "a_address (a64_decode enc address i) = a_address i" "a_encoding (a64_decode enc address i) = a_encoding i"
    by (simp_all add: same_place_def)
qed

text \<open>What a caller finds in a decoded instruction.\<close>

definition a64_described :: "bytes \<Rightarrow> u64 \<Rightarrow> E9A64Insn \<Rightarrow> bool" where
  "a64_described code a i \<longleftrightarrow> a_address i = a \<and> rd32 code 0 = Some (a_encoding i) \<and> a_num_operands i \<le> 3 \<and>
     (\<exists>rest. a_text i = str_bytes (insn_text [a_mnemonic i] (a64_pieces i)) @ 0 # rest \<and> length (a_text i) = 80)"

lemma a64_disasm_one_ok:
  assumes "4 \<le> length code"
  shows "\<exists>i. e9_a64_disasm_one (Some code) a out = Some (4, i) \<and> a64_described code a i"
proof -
  from assms obtain enc where enc: "rd32 code 0 = Some enc" by (cases "rd32 code 0") (auto simp: buf_simps)
  let ?z = "zero_a64_insn\<lparr>a_address := a, a_encoding := enc\<rparr>"
  let ?i = "a64_decode enc a ?z"
  have "a64_ready 0 ?z" by (simp add: a64_ready_def zero_a64_insn_def eval_nat_numeral)
  from a64_decode_ok [OF this] have t: "a64_text_ok ?i" .
  have "length (operands_text (a64_pieces ?i) True) \<le> 2 * 3 + 56"
  proof -
    have "length (a64_pieces ?i) \<le> 3" "(\<Sum>x\<leftarrow>a64_pieces ?i. length (concat x)) \<le> 56"
      using t by (auto simp: a64_text_ok_def a64_pieces_def o_def)
    with operands_text_width [of "a64_pieces ?i" True] show ?thesis by linarith
  qed
  then have "length (insn_text [a_mnemonic ?i] (a64_pieces ?i)) < length (a_text ?i) - 1"
    using t by (simp add: insn_text_def a64_text_ok_def)
  from format_insn_fits [OF this] obtain rest where
    f: "format_insn [a_mnemonic ?i] (a64_pieces ?i) (a_text ?i) =
          Some (str_bytes (insn_text [a_mnemonic ?i] (a64_pieces ?i)) @ 0 # rest)"
       "length rest = length (a_text ?i) - Suc (length (insn_text [a_mnemonic ?i] (a64_pieces ?i)))" by auto
  let ?j = "?i\<lparr>a_text := str_bytes (insn_text [a_mnemonic ?i] (a64_pieces ?i)) @ 0 # rest\<rparr>"
  have "e9_a64_disasm_one (Some code) a out = Some (4, ?j)"
    using assms enc f(1) by (simp add: e9_a64_disasm_one_def read_insn_def e9_a64_insn_format_def Let_def)
  moreover have "a64_pieces ?j = a64_pieces ?i" by (simp add: a64_pieces_def)
  moreover have "length (a_text ?j) = 80"
    using f(2) t \<open>_ < length (a_text ?i) - 1\<close> by (simp add: a64_text_ok_def)
  moreover have "a_num_operands ?i \<le> 3" using t by (simp add: a64_text_ok_def)
  ultimately show ?thesis using enc by (auto simp: a64_described_def)
qed

interpretation a64: decoder "\<lambda>code a. e9_a64_disasm_one (Some code) a zero_a64_insn" a64_disasm_loop 4
    "\<lambda>_. True" a_address "\<lambda>_ _. 4"
proof
  show "\<exists>i. e9_a64_disasm_one (Some code) a zero_a64_insn = Some (int 4, i) \<and> a_address i = a \<and>
      0 < (4 :: nat) \<and> 4 \<le> length code" if "4 \<le> length code" for code a
    using a64_disasm_one_ok [OF that, of a zero_a64_insn] that by (auto simp: a64_described_def)
  show "a64_disasm_loop k code off a = Some []" if "k = 0 \<or> length code < off + 4" for k code off a
    using that by (cases k) auto
  show "a64_disasm_loop (Suc k) code off a = map_option (\<lambda>is. i # is) (a64_disasm_loop k code (off + n) a)"
    if "off + 4 \<le> length code"
      "e9_a64_disasm_one (Some (drop off code)) (a + word_of_nat off) zero_a64_insn = Some (int n, i)" for k code off a n i
  proof -
    have "4 \<le> length (drop off code)" using that(1) by simp
    from a64_disasm_one_ok [OF this, of "a + word_of_nat off" zero_a64_insn] that(2) have "n = 4" by auto
    with that show ?thesis by (cases "a64_disasm_loop k code (off + 4) a") auto
  qed
qed auto

lemma covered_fixed: "covered (len_at (\<lambda>_ _. n) code a) off is = off + n * length is"
  by (induction "is" arbitrary: off) (simp_all add: len_at_def)

lemma contiguous_fixed:
  "contiguous addr (len_at (\<lambda>_ _. n) code a) a off is \<Longrightarrow> k < length is \<Longrightarrow>
    addr (is ! k) = a + word_of_nat (off + n * k)"
proof (induction "is" arbitrary: off k)
  case Nil
  then show ?case by simp
next
  case (Cons i "is")
  then show ?case using Cons.IH [of "off + n" "k - 1"] by (cases k) (simp_all add: len_at_def algebra_simps)
qed

section \<open>Properties\<close>

text \<open>
  Decoding one instruction: on every buffer of at least four bytes the decoder reads
  exactly four bytes and returns 4; the encoding is the little-endian word, there are at most
  three operands and the text is complete and terminated inside its 80 bytes.  On a shorter
  buffer it returns 0 and leaves the instruction alone.
\<close>

theorem a64_disasm_one_safe:
  "(4 \<le> length code \<longrightarrow> (\<exists>i. e9_a64_disasm_one (Some code) a out = Some (4, i) \<and> a64_described code a i)) \<and>
   (length code < 4 \<longrightarrow> e9_a64_disasm_one (Some code) a out = Some (0, out))"
  using a64_disasm_one_ok by (simp add: e9_a64_disasm_one_def)

theorem a64_disasm_one_safe_witness:
  "(\<exists>i. e9_a64_disasm_one (Some [0xC0, 0x03, 0x5F, 0xD6]) 0x1000 zero_a64_insn = Some (4, i) \<and>
      a64_described [0xC0, 0x03, 0x5F, 0xD6] 0x1000 i) \<and>
   e9_a64_disasm_one (Some [1, 2]) 0 zero_a64_insn = Some (0, zero_a64_insn)"
  using a64_disasm_one_safe [of "[0xC0, 0x03, 0x5F, 0xD6]" "0x1000" zero_a64_insn]
    a64_disasm_one_safe [of "[1, 2]" 0 zero_a64_insn] by simp

text \<open>
  Disassembling a buffer: \<open>e9_a64_disasm\<close> terminates and returns one instruction per
  complete word of the buffer, up to the requested count, at consecutive addresses.
\<close>

theorem a64_disasm_words:
  assumes "4 \<le> length code"
  shows "\<exists>is. e9_a64_disasm (Some A64_ctx) (Some code) a count = Some (length is, is) \<and>
    length is = min count (length code div 4) \<and>
    (\<forall>k < length is. a_address (is ! k) = a + word_of_nat (4 * k))"
proof -
  from a64.loop_total [where code = code and off = 0 and k = count and a = a] obtain "is" where
    "is": "a64_disasm_loop count code 0 a = Some is" "length is \<le> count"
      "contiguous a_address (len_at (\<lambda>_ _. 4) code a) a 0 is"
      "covered (len_at (\<lambda>_ _. 4) code a) 0 is \<le> length code"
      "length is = count \<or> length code < covered (len_at (\<lambda>_ _. 4) code a) 0 is + 4" by auto
  then have "length is = min count (length code div 4)" by (auto simp: covered_fixed min_def)
  with "is" contiguous_fixed [OF "is"(3)] assms show ?thesis by (auto simp: e9_a64_disasm_def)
qed

theorem a64_disasm_words_witness:
  "\<exists>is. e9_a64_disasm (Some A64_ctx) (Some [0xC0, 0x03, 0x5F, 0xD6, 0, 0, 0, 0, 1]) 0x1000 8 = Some (length is, is) \<and>
    length is = 2"
  using a64_disasm_words [of "[0xC0, 0x03, 0x5F, 0xD6, 0, 0, 0, 0, 1]" "0x1000" 8] by auto

lemma and_sub: "w AND m = c \<Longrightarrow> m AND k = k \<Longrightarrow> w AND k = c AND k" for w m c k :: u32
  by (metis and.assoc)

lemma BITS_top:
  assumes "enc AND push_bit 25 m = push_bit 25 c" and "0x7F AND m = m"
    and "drop_bit 25 (push_bit 25 m) = m" and "drop_bit 25 (push_bit 25 c) = c"
  shows "BITS enc 31 25 AND m = c"
proof -
  have "drop_bit 25 (enc AND push_bit 25 m) = c" using assms(1,4) by simp
  then have "drop_bit 25 enc AND m = c" by (simp only: drop_bit_and assms(3))
  moreover have "BITS enc 31 25 = drop_bit 25 enc AND 0x7F" by (simp add: BITS_def)
  ultimately show ?thesis using assms(2) by (simp add: and.assoc)
qed

text \<open>The value of \<open>op0\<close> for \<open>B\<close> and \<open>BL\<close> fails every test before the one for register data processing.\<close>

lemma op0_branch_imm:
  assumes "op0 AND 0x3E = (0x0A :: u32)"
  shows "op0 AND 0x71 \<noteq> 0x10" "op0 AND 0x71 \<noteq> 0x11" "op0 AND 0x3F \<noteq> 0x25" "op0 AND 0x3F \<noteq> 0x24"
    "op0 AND 0x7C \<noteq> 0x14" "op0 AND 0x7E \<noteq> 0x34" "op0 AND 0x7E \<noteq> 0x54" "op0 AND 0x7E \<noteq> 0x36"
    "op0 AND 0x7E \<noteq> 0x6A" "op0 AND 0x0A \<noteq> 0x08" "op0 AND 0x0F = 0x0A \<or> op0 AND 0x0F = 0x0B"
proof -
  have bits: "op0 AND 0x10 = 0" "op0 AND 0x04 = 0" "op0 AND 0x20 = 0" "op0 AND 0x0A = 0x0A" "op0 AND 0x0E = 0x0A"
    using and_sub [OF assms, of "0x10"] and_sub [OF assms, of "0x04"] and_sub [OF assms, of "0x20"]
      and_sub [OF assms, of "0x0A"] and_sub [OF assms, of "0x0E"] by simp_all
  have no: False if "op0 AND m = c" "m AND k = k" "op0 AND k = 0" "c AND k \<noteq> 0" for m c k
    using and_sub [OF that(1,2)] that(3,4) by simp
  show "op0 AND 0x71 \<noteq> 0x10" "op0 AND 0x71 \<noteq> 0x11" "op0 AND 0x7C \<noteq> 0x14" "op0 AND 0x7E \<noteq> 0x34" "op0 AND 0x7E \<noteq> 0x54"
    "op0 AND 0x7E \<noteq> 0x36"
    using no [of "0x71" "0x10" "0x10"] no [of "0x71" "0x11" "0x10"] no [of "0x7C" "0x14" "0x10"]
      no [of "0x7E" "0x34" "0x10"] no [of "0x7E" "0x54" "0x10"] no [of "0x7E" "0x36" "0x10"] bits(1) by auto
  show "op0 AND 0x3F \<noteq> 0x25" "op0 AND 0x3F \<noteq> 0x24" using no [of "0x3F" "0x25" "0x04"] no [of "0x3F" "0x24" "0x04"] bits(2) by auto
  show "op0 AND 0x7E \<noteq> 0x6A" using no [of "0x7E" "0x6A" "0x20"] bits(3) by auto
  show "op0 AND 0x0A \<noteq> 0x08" using bits(4) by simp
  have "op0 AND 0x0F = (op0 AND 0x0E) OR (op0 AND 1)" by (simp flip: bit.conj_disj_distrib)
  moreover have "op0 AND 1 = 0 \<or> op0 AND 1 = 1" by (simp add: and_one_eq mod2_eq_if)
  ultimately show "op0 AND 0x0F = 0x0A \<or> op0 AND 0x0F = 0x0B" using bits(5) by auto
qed

lemma a64_data_reg_no_branch:
  "a_is_branch (a64_data_reg enc i) = a_is_branch i"
  "a_category (a64_data_reg enc i) \<in> {E9_A64_CAT_DATA_PROC, E9_A64_CAT_MOVE, E9_A64_CAT_COMPARE}"
  by (simp_all add: a64_data_reg_def aset_def a64_named_def Let_def)

lemma a64_data_reg_no_call: "a_is_call (a64_data_reg enc i) = a_is_call i"
  by (simp add: a64_data_reg_def aset_def a64_named_def Let_def)

lemma a64_branch_reg_category: "a_category (a64_branch_reg enc i) = E9_A64_CAT_BRANCH"
  by (simp add: a64_branch_reg_def aset_def a64_named_def Let_def)

lemma decode_branch_imm:
  "enc AND 0x7C000000 = 0x14000000 \<Longrightarrow> a64_decode enc a i = a64_data_reg enc i"
proof -
  assume "enc AND 0x7C000000 = 0x14000000"
  then have "BITS enc 31 25 AND 0x3E = 0x0A" by (intro BITS_top) simp_all
  from op0_branch_imm [OF this] show ?thesis by (simp add: a64_decode_def Let_def)
qed

text \<open>Encodings \<open>D4xxxxxx\<close> and \<open>D5xxxxxx\<close> meet the test for branches to a register.\<close>

lemma op0_system:
  assumes "op0 AND 0x7F = 0x6A"
  shows "op0 AND 0x7E = (0x6A :: u32)" "op0 AND 0x71 = 0x60" "op0 AND 0x3F = 0x2A" "op0 AND 0x7C = 0x68"
proof -
  show "op0 AND 0x7E = 0x6A" "op0 AND 0x71 = 0x60" "op0 AND 0x3F = 0x2A" "op0 AND 0x7C = 0x68"
    using and_sub [OF assms, of "0x7E"] and_sub [OF assms, of "0x71"] and_sub [OF assms, of "0x3F"]
      and_sub [OF assms, of "0x7C"] by simp_all
qed

lemma decode_system:
  "enc AND 0xFE000000 = 0xD4000000 \<Longrightarrow> a64_decode enc a i = a64_branch_reg enc i"
proof -
  assume "enc AND 0xFE000000 = 0xD4000000"
  then have "BITS enc 31 25 AND 0x7F = 0x6A" by (intro BITS_top) simp_all
  from op0_system [OF this] show ?thesis by (simp add: a64_decode_def Let_def)
qed

text \<open>
  The classes are told apart by constants that do not belong to the extracted field, so
  whole classes are decoded as something else.  For every encoding: a branch \<open>B\<close> or \<open>BL\<close> is
  decoded as register data processing and not marked as a branch; system instructions and
  exceptions (\<open>D5xxxxxx\<close> and \<open>D4xxxxxx\<close>), whose code is never reached, are decoded as branches
  to a register.  In particular \<open>NOP\<close> becomes \<open>br_reg\<close> and \<open>SVC #0\<close> becomes \<open>br\<close>, a load of an
  immediate \<open>MOVZ x0, #1\<close> and \<open>ADD x0, x1, #1\<close> become \<open>ldst\<close>, and the usual prologue
  \<open>STP x29, x30, [sp, #-16]!\<close> becomes the conditional branch \<open>b.le\<close>.
\<close>

theorem a64_classes_confused:
  "(enc AND 0x7C000000 = 0x14000000 \<longrightarrow> \<not> a_is_branch (a64_decode enc a zero_a64_insn) \<and>
      a_category (a64_decode enc a zero_a64_insn) \<noteq> E9_A64_CAT_BRANCH) \<and>
   (enc AND 0xFE000000 = 0xD4000000 \<longrightarrow> a_category (a64_decode enc a zero_a64_insn) = E9_A64_CAT_BRANCH) \<and>
   map (\<lambda>e. a_mnemonic (a64_decode e 0x1000 zero_a64_insn))
     [0xD503201F, 0xD4000001, 0xD2800020, 0x91000420, 0xA9BF7BFD] =
     [''br_reg'', ''br'', ''ldst'', ''ldst'', ''b.le'']"
proof (intro conjI impI)
  assume "enc AND 0x7C000000 = 0x14000000"
  note d = decode_branch_imm [OF this]
  show "\<not> a_is_branch (a64_decode enc a zero_a64_insn)"
    by (simp add: d a64_data_reg_no_branch zero_a64_insn_def)
  show "a_category (a64_decode enc a zero_a64_insn) \<noteq> E9_A64_CAT_BRANCH"
    using a64_data_reg_no_branch(2) [of enc zero_a64_insn] by (auto simp: d)
next
  assume "enc AND 0xFE000000 = 0xD4000000"
  then show "a_category (a64_decode enc a zero_a64_insn) = E9_A64_CAT_BRANCH"
    by (simp add: decode_system a64_branch_reg_category)
qed code_simp

theorem a64_classes_confused_witness:
  "\<not> a_is_branch (a64_decode 0x94000001 0x1000 zero_a64_insn) \<and>
   a_category (a64_decode 0xD503201F 0x1000 zero_a64_insn) = E9_A64_CAT_BRANCH"
  using a64_classes_confused [of "0x94000001" "0x1000"] a64_classes_confused [of "0xD503201F" "0x1000"] by simp
end
