(* ===== verification/E9Emitted.thy ===== *)
theory E9Emitted
  imports E9BinPatch E9DisasmX86 E9DisasmA64
begin

text \<open>
  What the disassemblers of \<open>vendor/\<close> see in the code that \<open>e9binpatch.c\<close> emits: branches,
  padding and instruction lengths.  The two sides are written independently and have to agree
  for the pipeline to analyse an image it has patched.
\<close>

section \<open>Branches on x86-64\<close>

text \<open>\<open>x86_finish\<close> changes length, bytes and text only.\<close>

lemma finish_frame:
  assumes "x86_finish code pos i = Some (n, j)"
  shows "n = int pos" "i_is_branch j = i_is_branch i" "i_is_call j = i_is_call i"
    "i_is_conditional j = i_is_conditional i" "i_branch_target j = i_branch_target i" "i_category j = i_category i"
  using assms by (auto simp: x86_finish_def Let_def Option.bind_eq_Some_conv)

lemma no_prefix:
  assumes "code \<noteq> []" and "length code \<le> X86_MAX" and "x86_prefix mode (code ! 0) st = None"
  shows "x86_prefixes mode code 0 st = Some (0, st)"
  using assms by (subst x86_prefixes.simps) (simp add: code_bounds)

lemma rel32_branch_decodes:
  assumes op: "op = 0xE8 \<or> op = 0xE9" and len: "length rest \<le> 4096"
    and near: "- (2 ^ 31) \<le> sint (dst - (src + 5))" "sint (dst - (src + 5)) \<le> 2 ^ 31 - 1"
  shows "\<exists>i. e9_x86_disasm_one (Some ctx) (Some (op # le32 (word_of_int (sint (dst - (src + 5)))) @ rest)) src out = Some (5, i) \<and>
    i_is_branch i \<and> i_is_call i = (op = 0xE8) \<and> \<not> i_is_conditional i \<and> i_branch_target i = dst"
proof -
  let ?w = "word_of_int (sint (dst - (src + 5))) :: u32"
  let ?code = "op # le32 ?w @ rest"
  let ?z = "zero_insn\<lparr>i_address := src\<rparr>"
  have size: "5 \<le> length ?code" "length ?code \<le> X86_MAX" using len by (simp_all add: le32_def X86_MAX_def)
  have r: "read_i32 ?code 1 = Some (sint ?w)"
    using rd32_le32 [of "[op]" ?w rest] by (simp add: read_i32_def)
  have t: "src + 5 + word_of_int (sint ?w) = dst"
    using x86_near_target [OF near] by (simp only: scast_eq)
  have p: "x86_prefixes (d_mode ctx) ?code 0 (False, ?z) = Some (0, False, ?z)"
    using op by (intro no_prefix size(2)) (auto simp: x86_prefix_def)
  let ?i = "(named (if op = 0xE8 then ''call'' else ''jmp'') E9_X86_CAT_CONTROL ?z)\<lparr>i_is_call := (op = 0xE8), i_is_branch := True\<rparr>"
  let ?j = "set_op 0 (\<lambda>o1. o1\<lparr>o_type := E9_X86_OP_REL, o_rel := sint ?w\<rparr>) (?i\<lparr>i_num_operands := 1, i_branch_target := dst\<rparr>)"
  have o: "x86_opcode (d_mode ctx) ?code src op 1 n ?z = Some (Inr (5, ?j))" for n
    using op r t size by (auto simp: x86_opcode_def x86_rel32_def rel_done_def done_at_def code_bounds named_def zero_insn_def add.assoc)
  have "e9_x86_disasm_one (Some ctx) (Some ?code) src out = x86_finish ?code 5 ?j"
    using p o size by (simp add: e9_x86_disasm_one_def code_bounds rd8_def)
  moreover obtain n k where "x86_finish ?code 5 ?j = Some (n, k)"
    using disasm_one_ok [of ?code ctx src out] size(2) calculation by auto
  moreover note finish_frame [OF this]
  ultimately show ?thesis by (auto simp: set_op_def named_def zero_insn_def)
qed

text \<open>
  C29.  Generator and decoder agree on near branches: for every source and target within the
  reach of a 32-bit displacement, the jump or call emitted for x86-64 is decoded, whatever code
  follows, as an unconditional branch of five bytes with exactly the requested target, and
  as a call only if it is one.
\<close>

theorem emitted_branch_decodes:
  assumes "arch \<noteq> E9_ARCH_AARCH64" and "length rest \<le> 4096"
    and "- (2 ^ 31) \<le> sint (dst - (src + 5))" and "sint (dst - (src + 5)) \<le> 2 ^ 31 - 1"
  shows "(\<exists>i. e9_x86_disasm_one (Some ctx) (Some (e9_binpatch_gen_jmp arch src dst @ rest)) src out = Some (5, i) \<and>
      i_is_branch i \<and> \<not> i_is_call i \<and> \<not> i_is_conditional i \<and> i_branch_target i = dst) \<and>
    (\<exists>i. e9_x86_disasm_one (Some ctx) (Some (e9_binpatch_gen_call arch src dst @ rest)) src out = Some (5, i) \<and>
      i_is_branch i \<and> i_is_call i \<and> \<not> i_is_conditional i \<and> i_branch_target i = dst)"
  using assms rel32_branch_decodes [OF _ assms(2-4), of "0xE9" ctx out] rel32_branch_decodes [OF _ assms(2-4), of "0xE8" ctx out]
  by (simp add: e9_binpatch_gen_jmp_def e9_binpatch_gen_call_def Let_def)

theorem emitted_branch_decodes_witness:
  "\<exists>i. e9_x86_disasm_one (Some \<lparr>d_mode = 64\<rparr>) (Some (e9_binpatch_gen_call E9_ARCH_X86_64 0x401000 0x400000 @ [0xC3])) 0x401000 zero_insn =
      Some (5, i) \<and> i_is_call i \<and> i_branch_target i = 0x400000"
  using emitted_branch_decodes [of E9_ARCH_X86_64 "[0xC3]" "0x400000" "0x401000" "\<lparr>d_mode = 64\<rparr>" zero_insn] by auto

section \<open>Padding\<close>

text \<open>The length \<open>e9_x86_disasm_one\<close> reports for a piece of code in 64-bit mode.\<close>

definition len64 :: "bytes \<Rightarrow> int ub" where
  "len64 code = e9_x86_insn_length (Some code) 64"

text \<open>
  The two length decoders disagree on the NOPs the pipeline itself emits.
  \<open>e9_binpatch_insn_size_at\<close> finds all nine recommended encodings of one to nine bytes to be one
  instruction; the disassembler stops after the ModR/M byte of \<open>0F 1F\<close>, reports at most four
  bytes, and decodes the rest of the padding as other instructions.
\<close>

theorem nop_lengths_disagree:
  "map x86_insn_size nop_seqs = map Some [1, 2, 3, 4, 5, 6, 7, 8, 9] \<and>
   map len64 nop_seqs = map Some [1, 2, 3, 3, 3, 4, 3, 3, 4]"
proof
  show "map x86_insn_size nop_seqs = map Some [1, 2, 3, 4, 5, 6, 7, 8, 9]" by code_simp
  show "map len64 nop_seqs = map Some [1, 2, 3, 3, 3, 4, 3, 3, 4]" by code_simp
qed

section \<open>Branches on AArch64\<close>

lemma a64_branch_encoding:
  "(opcode OR (x AND 0x03FFFFFF)) AND 0x7C000000 = opcode AND (0x7C000000 :: u32)"
proof -
  have "(x AND 0x03FFFFFF) AND 0x7C000000 = (0 :: u32)" by (simp add: and.assoc)
  then show ?thesis by (simp only: bit.conj_disj_distrib2) simp
qed

text \<open>
  On AArch64 the disassembler does not recognise the branches the pipeline emits: for all
  source and target addresses within reach, the emitted \<open>B\<close> and \<open>BL\<close> are decoded, but neither
  as a branch nor as a call.
\<close>

theorem a64_emitted_branch_missed:
  assumes "- (2 ^ 27) \<le> sint (dst - src)" and "sint (dst - src) < 2 ^ 27"
  shows "\<exists>i j. e9_a64_disasm_one (Some (e9_binpatch_gen_jmp E9_ARCH_AARCH64 src dst)) src out = Some (4, i) \<and>
    \<not> a_is_branch i \<and> a_category i \<noteq> E9_A64_CAT_BRANCH \<and>
    e9_a64_disasm_one (Some (e9_binpatch_gen_call E9_ARCH_AARCH64 src dst)) src out = Some (4, j) \<and>
    \<not> a_is_branch j \<and> \<not> a_is_call j"
proof -
  have one: "\<exists>i. e9_a64_disasm_one (Some (a64_branch opcode (sint (dst - src)))) src out = Some (4, i) \<and>
      \<not> a_is_branch i \<and> \<not> a_is_call i \<and> a_category i \<noteq> E9_A64_CAT_BRANCH"
    if "opcode AND 0x7C000000 = 0x14000000" for opcode
  proof -
    let ?enc = "opcode OR (word_of_int (c_div (sint (dst - src)) 4) AND 0x03FFFFFF)"
    let ?z = "zero_a64_insn\<lparr>a_address := src, a_encoding := ?enc\<rparr>"
    have len: "length (a64_branch opcode (sint (dst - src))) = 4" by (simp add: a64_branch_def le32_def)
    have rd: "rd32 (a64_branch opcode (sint (dst - src))) 0 = Some ?enc"
      using rd32_le32 [of "[]" ?enc "[]"] by (simp add: a64_branch_def)
    have d: "a64_decode ?enc src ?z = a64_data_reg ?enc ?z"
      by (rule decode_branch_imm) (simp only: a64_branch_encoding that)
    from a64_disasm_one_ok [of "a64_branch opcode (sint (dst - src))" src out] len obtain i where
      i: "e9_a64_disasm_one (Some (a64_branch opcode (sint (dst - src)))) src out = Some (4, i)" by auto
    then obtain t where "i = (a64_data_reg ?enc ?z)\<lparr>a_text := t\<rparr>"
      using len rd d by (auto simp: e9_a64_disasm_one_def read_insn_def Let_def Option.bind_eq_Some_conv)
    with i a64_data_reg_no_branch [of ?enc ?z] a64_data_reg_no_call [of ?enc ?z] show ?thesis
      by (auto simp: zero_a64_insn_def)
  qed
  from one [of "0x14000000"] one [of "0x94000000"] assms show ?thesis
    by (auto simp: e9_binpatch_gen_jmp_def e9_binpatch_gen_call_def Let_def)
qed

theorem a64_emitted_branch_missed_witness:
  "\<exists>i. e9_a64_disasm_one (Some (e9_binpatch_gen_jmp E9_ARCH_AARCH64 0x1000 0x2000)) 0x1000 zero_a64_insn = Some (4, i) \<and>
    \<not> a_is_branch i"
  using a64_emitted_branch_missed [of "0x2000" "0x1000" zero_a64_insn] by auto
end
