(* ===== verification/E9Crc32.thy ===== *)
theory E9Crc32
  imports E9Prelude
begin

text \<open>
  Checksums and hashes of \<open>vendor/e9vendor.c\<close>: the table-driven CRC-32 and the conversion of a
  hash to hexadecimal digits.  The reference for the CRC is the bit-serial definition, one
  division step per bit of the data, without a table.

  The static table is filled on first use and never changed afterwards, so it is a constant of
  the model.  The two hash functions are stubs in the code and are modelled as such.
\<close>

section \<open>The code\<close>

text \<open>One iteration of the inner loop of \<open>crc32_init_table\<close>, and the eight of them.\<close>

definition crc_shift :: "u32 \<Rightarrow> u32" where
  "crc_shift crc = (if crc AND 1 \<noteq> 0 then drop_bit 1 crc XOR 0xEDB88320 else drop_bit 1 crc)"

definition crc32_entry :: "nat \<Rightarrow> u32" where
  "crc32_entry i = (crc_shift ^^ 8) (word_of_nat i)"

definition crc32_table :: "u32 list" where
  "crc32_table = map crc32_entry [0 ..< 256]"

definition crc32_byte :: "u8 \<Rightarrow> u32 \<Rightarrow> u32" where
  "crc32_byte b crc = crc32_table ! unat ((crc XOR ucast b) AND 0xFF) XOR drop_bit 8 crc"

definition e9_crc32_update :: "u32 \<Rightarrow> bytes ptr \<Rightarrow> u32" where
  "e9_crc32_update crc data =
     (case data of None \<Rightarrow> crc | Some data \<Rightarrow> NOT (fold crc32_byte data (NOT crc)))"

definition e9_crc32 :: "bytes ptr \<Rightarrow> u32" where
  "e9_crc32 data = e9_crc32_update 0 data"

text \<open>\<open>out\<close> is the buffer of the caller.\<close>

definition hex_byte :: "u8 \<Rightarrow> bytes" where
  "hex_byte b = [str_bytes ''0123456789abcdef'' ! unat (drop_bit 4 b), str_bytes ''0123456789abcdef'' ! unat (b AND 0x0F)]"

definition e9_hash_to_hex :: "bytes \<Rightarrow> bytes \<Rightarrow> bytes ub" where
  "e9_hash_to_hex hash out = memcpy_to out 0 (concat (map hex_byte hash) @ [0])"

definition e9_md5 :: "bytes \<Rightarrow> bytes" where
  "e9_md5 data = replicate 16 0"

definition e9_sha256 :: "bytes \<Rightarrow> bytes" where
  "e9_sha256 data = replicate 32 0"

section \<open>The reference\<close>

text \<open>
  Polynomial division over the bits of the message: the register is shifted by one, and the
  generator is subtracted when the bit that leaves the register differs from the message bit.
\<close>

definition crc_bit :: "bool \<Rightarrow> u32 \<Rightarrow> u32" where
  "crc_bit m c = (if bit c 0 \<noteq> m then drop_bit 1 c XOR 0xEDB88320 else drop_bit 1 c)"

text \<open>The bits of a message, each byte with its least significant bit first.\<close>

definition byte_bits :: "u8 \<Rightarrow> bool list" where
  "byte_bits b = map (bit b) [0, 1, 2, 3, 4, 5, 6, 7]"

definition crc_spec :: "bytes \<Rightarrow> u32" where
  "crc_spec data = NOT (fold crc_bit (concat (map byte_bits data)) (NOT 0))"

section \<open>The table computes the division\<close>

lemma crc_shift_eq: "crc_shift c = crc_bit False c"
  by (simp add: crc_shift_def crc_bit_def and_one_eq mod_2_eq_odd bit_0)

text \<open>The division step is linear.\<close>

lemma crc_shift_xor: "crc_shift (c XOR d) = crc_shift c XOR crc_shift d"
  by (cases "odd c"; cases "odd d")
    (simp_all add: crc_shift_eq crc_bit_def even_xor_iff drop_bit_xor bit_0 ac_simps)

lemma crc_shift_pow_xor: "(crc_shift ^^ n) (c XOR d) = (crc_shift ^^ n) c XOR (crc_shift ^^ n) d"
  by (induction n) (simp_all add: crc_shift_xor)

text \<open>A word whose low bits are zero is only shifted.\<close>

lemma crc_shift_low: "\<not> bit c 0 \<Longrightarrow> crc_shift c = drop_bit 1 c"
  by (simp add: crc_shift_eq crc_bit_def)

lemma crc_shift_pow_low: "(\<And>k. k < n \<Longrightarrow> \<not> bit c k) \<Longrightarrow> (crc_shift ^^ n) c = drop_bit n c"
proof (induction n arbitrary: c)
  case 0
  then show ?case by simp
next
  case (Suc n)
  have "(crc_shift ^^ Suc n) c = crc_shift ((crc_shift ^^ n) c)" by simp
  also have "(crc_shift ^^ n) c = drop_bit n c" using Suc by simp
  also have "crc_shift (drop_bit n c) = drop_bit 1 (drop_bit n c)"
    by (rule crc_shift_low) (use Suc.prems [of n] in \<open>simp add: bit_drop_bit_eq\<close>)
  finally show ?case by simp
qed

text \<open>A message bit may be added to the register before the step.\<close>

lemma crc_bit_eq: "crc_bit m c = crc_shift (c XOR (if m then 1 else 0))"
  by (auto simp: crc_shift_eq crc_bit_def even_xor_iff drop_bit_xor bit_0)

text \<open>A byte of the message may be added before its eight steps.\<close>

lemma fold_crc_bit:
  "fold crc_bit ms c = (crc_shift ^^ length ms) (c XOR horner_sum of_bool 2 ms)" if "length ms \<le> 32"
  using that
proof (induction ms arbitrary: c)
  case Nil
  then show ?case by simp
next
  case (Cons m ms)
  let ?h = "horner_sum of_bool 2 ms :: u32"
  have low: "crc_shift (2 * ?h) = ?h"
  proof -
    have "drop_bit 1 (2 * ?h) = ?h"
      by (rule bit_word_eqI) (use Cons.prems in \<open>auto simp: bit_drop_bit_eq bit_double_iff bit_horner_sum_bit_iff\<close>)
    then show ?thesis using crc_shift_low [of "2 * ?h"] by (simp add: bit_0)
  qed
  let ?m = "if m then 1 else 0 :: u32"
  have "horner_sum of_bool 2 (m # ms) = ?m XOR (2 * ?h)"
    by (cases m) (simp_all add: one_xor_eq)
  then have "(crc_shift ^^ length (m # ms)) (c XOR horner_sum of_bool 2 (m # ms)) =
      (crc_shift ^^ length ms) (crc_shift ((c XOR ?m) XOR (2 * ?h)))"
    by (simp only: length_Cons funpow.simps funpow_swap1 o_apply xor.assoc)
  also have "crc_shift ((c XOR ?m) XOR (2 * ?h)) = crc_bit m c XOR ?h"
    by (simp only: crc_shift_xor [of "c XOR ?m"] low crc_bit_eq)
  finally show ?case using Cons by simp
qed

lemma byte_bits_value: "horner_sum of_bool 2 (byte_bits b) = (ucast b :: u32)"
proof -
  have "byte_bits b = map (bit (ucast b :: u32)) [0 ..< 8]"
    by (simp add: byte_bits_def upt_rec bit_ucast_iff eval_nat_numeral)
  then have "horner_sum of_bool 2 (byte_bits b) = take_bit 8 (ucast b :: u32)"
    by (simp only: horner_sum_bit_eq_take_bit)
  also have "\<dots> = ucast b" by (rule bit_word_eqI) (auto simp: bit_take_bit_iff bit_ucast_iff dest: bit_imp_le_length)
  finally show ?thesis .
qed

lemma length_byte_bits: "length (byte_bits b) = 8"
  by (simp add: byte_bits_def)

lemma mask8: "x AND 0xFF = take_bit 8 x" for x :: u32
  by (simp add: take_bit_eq_mask mask_numeral)

lemma table_entry: "crc32_table ! unat (x AND 0xFF) = (crc_shift ^^ 8) (x AND 0xFF)"
proof -
  have "unat (take_bit 8 x) < 2 ^ 8" by (simp only: unsigned_take_bit_eq take_bit_nat_less_exp)
  then have "unat (x AND 0xFF) < 256" by (simp only: mask8) simp
  then show ?thesis by (simp add: crc32_table_def crc32_entry_def del: upt_rec_numeral)
qed

lemma crc32_byte_bits: "crc32_byte b c = fold crc_bit (byte_bits b) c"
proof -
  let ?x = "c XOR ucast b"
  let ?high = "push_bit 8 (drop_bit 8 ?x)"
  have split: "?x = (?x AND 0xFF) XOR ?high"
  proof (rule bit_word_eqI)
    fix n assume "n < LENGTH(32)"
    then show "bit ?x n = bit ((?x AND 0xFF) XOR ?high) n"
      by (cases "n < 8") (simp_all add: mask8 bit_xor_iff bit_take_bit_iff bit_push_bit_iff bit_drop_bit_eq)
  qed
  have high: "(crc_shift ^^ 8) ?high = drop_bit 8 c"
  proof -
    have "(crc_shift ^^ 8) ?high = drop_bit 8 ?high"
      by (rule crc_shift_pow_low) (simp add: bit_push_bit_iff bit_xor_iff)
    also have "\<dots> = drop_bit 8 c"
      by (rule bit_word_eqI) (auto simp: bit_xor_iff bit_push_bit_iff bit_drop_bit_eq bit_ucast_iff dest: bit_imp_le_length)
    finally show ?thesis .
  qed
  have "fold crc_bit (byte_bits b) c = (crc_shift ^^ 8) ?x"
    using fold_crc_bit [of "byte_bits b" c] by (simp add: byte_bits_value length_byte_bits del: funpow.simps)
  also have "\<dots> = (crc_shift ^^ 8) (?x AND 0xFF) XOR (crc_shift ^^ 8) ?high"
    by (subst split) (rule crc_shift_pow_xor)
  also have "\<dots> = crc32_byte b c" by (simp only: high table_entry crc32_byte_def)
  finally show ?thesis by simp
qed

lemma fold_crc32_byte: "fold crc32_byte data c = fold crc_bit (concat (map byte_bits data)) c"
  by (induction data arbitrary: c) (simp_all add: crc32_byte_bits)

section \<open>Properties\<close>

text \<open>
  C30.  The table-driven CRC-32 equals the bit-serial polynomial division on every message, and
  it may be computed piecewise: updating the checksum of a message with a second one gives the
  checksum of their concatenation.  On the standard check message it has the published value.
\<close>

theorem crc32_is_division:
  "e9_crc32 (Some data) = crc_spec data \<and>
   e9_crc32_update (e9_crc32 (Some data)) (Some more) = crc_spec (data @ more) \<and>
   e9_crc32 (Some (str_bytes ''123456789'')) = 0xCBF43926"
proof (intro conjI)
  show "e9_crc32 (Some data) = crc_spec data"
    by (simp add: e9_crc32_def e9_crc32_update_def crc_spec_def fold_crc32_byte)
  show "e9_crc32_update (e9_crc32 (Some data)) (Some more) = crc_spec (data @ more)"
    by (simp add: e9_crc32_def e9_crc32_update_def crc_spec_def fold_crc32_byte)
  have "e9_crc32 (Some (str_bytes ''123456789'')) = crc_spec (str_bytes ''123456789'')"
    by (simp add: e9_crc32_def e9_crc32_update_def crc_spec_def fold_crc32_byte)
  also have "\<dots> = 0xCBF43926" by code_simp
  finally show "e9_crc32 (Some (str_bytes ''123456789'')) = 0xCBF43926" .
qed

end
