(* ===== verification/E9Strings.thy ===== *)
theory E9Strings
  imports E9Prelude
begin

text \<open>
  Extraction of printable strings and detection of compressed data (\<open>vendor/e9vendor.c\<close>).

  The extraction runs twice over the data with the same loop, first to count and then to fill an
  array of exactly that many elements; \<open>run_step\<close> is the loop body and its parameter is what
  happens at the end of a run.  \<open>is_run\<close> says what a maximal printable run is without the loop.
  Allocation succeeds.
\<close>

section \<open>Classification\<close>

definition is_printable_ascii :: "u8 \<Rightarrow> bool" where
  "is_printable_ascii c \<longleftrightarrow> 0x20 \<le> c \<and> c < 0x7F"

text \<open>The classes of \<open><ctype.h>\<close> on ASCII characters.\<close>

definition is_digit :: "u8 \<Rightarrow> bool" where
  "is_digit c \<longleftrightarrow> 0x30 \<le> c \<and> c \<le> 0x39"

definition is_alnum :: "u8 \<Rightarrow> bool" where
  "is_alnum c \<longleftrightarrow> is_digit c \<or> 0x41 \<le> c \<and> c \<le> 0x5A \<or> 0x61 \<le> c \<and> c \<le> 0x7A"

datatype E9StrEncoding = E9_STR_ASCII | E9_STR_UTF8 | E9_STR_UTF16LE | E9_STR_UTF16BE

record E9String =
  str_offset :: nat
  str_value :: bytes
  str_length :: nat
  str_encoding :: E9StrEncoding
  str_is_path :: bool
  str_is_url :: bool
  str_is_ip_addr :: bool
  str_is_email :: bool
  str_is_function_name :: bool

text \<open>\<open>strncmp(value, prefix, strlen(prefix)) == 0\<close>\<close>

definition has_prefix :: "bytes \<Rightarrow> string \<Rightarrow> bool" where
  "has_prefix v p \<longleftrightarrow> take (length p) v = str_bytes p"

text \<open>The loop over the characters of an address stops at the first other character.\<close>

fun ip_scan :: "bytes \<Rightarrow> nat \<Rightarrow> nat \<times> bool" where
  "ip_scan [] dots = (dots, True)"
| "ip_scan (c # cs) dots =
     (if c = 0x2E then ip_scan cs (dots + 1)
      else if \<not> is_digit c then (dots, False)
      else ip_scan cs dots)"

fun func_scan :: "bytes \<Rightarrow> bool" where
  "func_scan [] = True"
| "func_scan (c # cs) = (if \<not> is_alnum c \<and> c \<noteq> 0x5F then False else func_scan cs)"

text \<open>The value is the string without its terminating zero and is not empty.\<close>

definition classify_string :: "E9String \<Rightarrow> E9String" where
  "classify_string s =
     (let v = str_value s;
          s = (if v ! 0 = 0x2F \<or> 2 < str_length s \<and> v ! 1 = 0x3A \<and> v ! 2 = 0x5C
               then s\<lparr>str_is_path := True\<rparr> else s);
          s = (if has_prefix v ''http://'' \<or> has_prefix v ''https://'' \<or> has_prefix v ''ftp://''
               then s\<lparr>str_is_url := True\<rparr> else s);
          (dots, all_digits_dots) = ip_scan v 0;
          s = (if all_digits_dots \<and> dots = 3 then s\<lparr>str_is_ip_addr := True\<rparr> else s);
          s = (if 0x40 \<in> set v \<and> 0x2E \<in> set v then s\<lparr>str_is_email := True\<rparr> else s)
      in if 2 < str_length s \<and> str_length s < 64 \<and> func_scan v
         then s\<lparr>str_is_function_name := True\<rparr> else s)"

section \<open>Extraction\<close>

type_synonym 'a run_state = "'a \<times> nat \<times> nat"

definition run_step :: "bytes \<Rightarrow> nat \<Rightarrow> (nat \<Rightarrow> nat \<Rightarrow> 'a \<Rightarrow> 'a) \<Rightarrow> nat \<Rightarrow> 'a run_state \<Rightarrow> 'a run_state" where
  "run_step data min_len emit i st =
     (let (acc, run_start, run_len) = st in
      if is_printable_ascii (data ! i) then (acc, if run_len = 0 then i else run_start, run_len + 1)
      else (if min_len \<le> run_len then emit run_start run_len acc else acc, run_start, 0))"

definition run_loop :: "bytes \<Rightarrow> nat \<Rightarrow> (nat \<Rightarrow> nat \<Rightarrow> 'a \<Rightarrow> 'a) \<Rightarrow> 'a \<Rightarrow> nat \<Rightarrow> 'a" where
  "run_loop data min_len emit init run_start =
     (let (acc, run_start, run_len) = fold (run_step data min_len emit) [0 ..< length data] (init, run_start, 0) in
      if min_len \<le> run_len then emit run_start run_len acc else acc)"

definition make_string :: "bytes \<Rightarrow> nat \<Rightarrow> nat \<Rightarrow> E9String" where
  "make_string data run_start run_len = classify_string
     \<lparr>str_offset = run_start, str_value = take run_len (drop run_start data), str_length = run_len,
      str_encoding = E9_STR_ASCII, str_is_path = False, str_is_url = False, str_is_ip_addr = False,
      str_is_email = False, str_is_function_name = False\<rparr>"

text \<open>The second pass writes only while \<open>idx < num_strings\<close>.\<close>

definition emit_string :: "bytes \<Rightarrow> nat \<Rightarrow> nat \<Rightarrow> nat \<Rightarrow> E9String list \<Rightarrow> E9String list" where
  "emit_string data num_strings run_start run_len strings =
     (if length strings < num_strings then strings @ [make_string data run_start run_len] else strings)"

text \<open>
  The result is the array and \<open>*count\<close>.  The second pass starts with the \<open>run_start\<close> the first
  has left behind; no run uses it.
\<close>

definition e9_strings_extract :: "bytes ptr \<Rightarrow> nat \<Rightarrow> E9String list ptr \<times> u32" where
  "e9_strings_extract data min_len =
     (case data of
        None \<Rightarrow> (None, 0)
      | Some data \<Rightarrow>
          if data = [] then (None, 0)
          else
            let min_len = (if min_len < 4 then 4 else min_len);
                num_strings = run_loop data min_len (\<lambda>_ _ n. n + 1) 0 0
            in if num_strings = 0 then (None, 0)
               else
                 let run_start = fst (snd (fold (run_step data min_len (\<lambda>_ _ n. n + 1)) [0 ..< length data] (0 :: nat, 0, 0)));
                     strings = run_loop data min_len (emit_string data num_strings) [] run_start
                 in (Some strings, word_of_nat (length strings)))"

section \<open>Compression\<close>

datatype E9CompressType =
    E9_COMPRESS_NONE | E9_COMPRESS_ZLIB | E9_COMPRESS_GZIP | E9_COMPRESS_DEFLATE | E9_COMPRESS_BZIP2
  | E9_COMPRESS_LZMA | E9_COMPRESS_XZ | E9_COMPRESS_ZSTD | E9_COMPRESS_LZ4 | E9_COMPRESS_LZO | E9_COMPRESS_UNKNOWN

text \<open>\<open>size >= length pat && memcmp(data, pat, length pat) == 0\<close>\<close>

definition magic_is :: "bytes \<Rightarrow> bytes \<Rightarrow> bool ub" where
  "magic_is data pat = (if length pat \<le> length data then memeq data 0 pat else Some False)"

text \<open>The second byte of the four known \<open>zlib\<close> headers.\<close>

definition is_zlib :: "bytes \<Rightarrow> bool ub" where
  "is_zlib data = do {
     a \<leftarrow> rd8 data 0;
     b \<leftarrow> rd8 data 1;
     Some (a = 0x78 \<and> (b = 0x01 \<or> b = 0x5E \<or> b = 0x9C \<or> b = 0xDA))
   }"

definition e9_detect_compression :: "bytes ptr \<Rightarrow> E9CompressType ub" where
  "e9_detect_compression data =
     (case data of
        None \<Rightarrow> Some E9_COMPRESS_NONE
      | Some data \<Rightarrow>
          if length data < 2 then Some E9_COMPRESS_NONE
          else do {
            gzip \<leftarrow> magic_is data [0x1F, 0x8B, 0x08];
            zlib \<leftarrow> is_zlib data;
            bzip2 \<leftarrow> magic_is data [0x42, 0x5A, 0x68];
            xz \<leftarrow> magic_is data [0xFD, 0x37, 0x7A, 0x58, 0x5A, 0];
            lzma \<leftarrow> magic_is data [0x5D, 0, 0];
            zstd \<leftarrow> magic_is data [0x28, 0xB5, 0x2F, 0xFD];
            lz4 \<leftarrow> magic_is data [0x04, 0x22, 0x4D, 0x18];
            Some (if gzip then E9_COMPRESS_GZIP else if zlib then E9_COMPRESS_ZLIB
              else if bzip2 then E9_COMPRESS_BZIP2 else if xz then E9_COMPRESS_XZ
              else if lzma then E9_COMPRESS_LZMA else if zstd then E9_COMPRESS_ZSTD
              else if lz4 then E9_COMPRESS_LZ4 else E9_COMPRESS_NONE)
          })"

definition e9_compress_name :: "E9CompressType \<Rightarrow> string" where
  "e9_compress_name t =
     (case t of E9_COMPRESS_NONE \<Rightarrow> ''none'' | E9_COMPRESS_ZLIB \<Rightarrow> ''zlib'' | E9_COMPRESS_GZIP \<Rightarrow> ''gzip''
      | E9_COMPRESS_DEFLATE \<Rightarrow> ''deflate'' | E9_COMPRESS_BZIP2 \<Rightarrow> ''bzip2'' | E9_COMPRESS_LZMA \<Rightarrow> ''lzma''
      | E9_COMPRESS_XZ \<Rightarrow> ''xz'' | E9_COMPRESS_ZSTD \<Rightarrow> ''zstd'' | E9_COMPRESS_LZ4 \<Rightarrow> ''lz4''
      | E9_COMPRESS_LZO \<Rightarrow> ''lzo'' | E9_COMPRESS_UNKNOWN \<Rightarrow> ''unknown'')"

section \<open>Maximal runs\<close>

definition printable_on :: "bytes \<Rightarrow> nat \<Rightarrow> nat \<Rightarrow> bool" where
  "printable_on data a b \<longleftrightarrow> (\<forall>i \<in> {a ..< b}. is_printable_ascii (data ! i))"

text \<open>No printable character stands right before \<open>a\<close>.\<close>

definition left_edge :: "bytes \<Rightarrow> nat \<Rightarrow> bool" where
  "left_edge data a \<longleftrightarrow> a = 0 \<or> \<not> is_printable_ascii (data ! (a - 1))"

definition is_run :: "bytes \<Rightarrow> nat \<Rightarrow> nat \<Rightarrow> bool" where
  "is_run data off len \<longleftrightarrow> 0 < len \<and> off + len \<le> length data \<and> printable_on data off (off + len) \<and>
     left_edge data off \<and> (off + len = length data \<or> \<not> is_printable_ascii (data ! (off + len)))"

text \<open>
  The state of the loop before position \<open>i\<close>, when the emitted runs are collected in a list: the
  completed runs in order, and the printable characters since the last other one.
\<close>

definition run_inv :: "bytes \<Rightarrow> nat \<Rightarrow> nat \<Rightarrow> (nat \<times> nat) list run_state \<Rightarrow> bool" where
  "run_inv data m i st =
     (let (acc, s, l) = st in
      l \<le> i \<and> (0 < l \<longrightarrow> s = i - l) \<and> printable_on data (i - l) i \<and> left_edge data (i - l) \<and>
      set acc = {(a, n). is_run data a n \<and> m \<le> n \<and> a + n < i} \<and> sorted_wrt (\<lambda>x y. fst x < fst y) acc)"

definition collect :: "nat \<Rightarrow> nat \<Rightarrow> (nat \<times> nat) list \<Rightarrow> (nat \<times> nat) list" where
  "collect s l acc = acc @ [(s, l)]"

text \<open>A run that ends exactly before a non-printable character at \<open>i\<close> is the current one.\<close>

lemma run_ending_at:
  assumes "l \<le> i" and "printable_on data (i - l) i" and "left_edge data (i - l)"
    and "is_run data a n" and "a + n = i"
  shows "n = l \<and> a = i - l"
proof -
  have r: "printable_on data a i" "left_edge data a" "0 < n" using assms(4,5) by (auto simp: is_run_def)
  have "\<not> a < i - l"
  proof
    assume "a < i - l"
    then have "is_printable_ascii (data ! (i - l - 1))" using r(1) by (auto simp: printable_on_def)
    with \<open>a < i - l\<close> assms(3) show False by (auto simp: left_edge_def)
  qed
  moreover have "\<not> i - l < a"
  proof
    assume "i - l < a"
    then have "a - 1 \<in> {i - l ..< i}" using assms(5) r(3) by auto
    then have "is_printable_ascii (data ! (a - 1))" using assms(2) by (simp add: printable_on_def)
    with \<open>i - l < a\<close> r(2) show False by (auto simp: left_edge_def)
  qed
  ultimately show ?thesis using assms(1,5) by linarith
qed

lemma run_start_before:
  assumes "l \<le> i" and "printable_on data (i - l) i" and "is_run data a n" and "a + n < i" and "i \<le> length data"
  shows "a < i - l"
proof (rule ccontr)
  assume "\<not> a < i - l"
  then have "is_printable_ascii (data ! (a + n))" using assms(2,4) by (auto simp: printable_on_def)
  with assms(3,4,5) show False by (auto simp: is_run_def)
qed

text \<open>The list grows by the current run when this run ends before \<open>i\<close> and is long enough.\<close>

lemma collect_run:
  assumes "run_inv data m i (acc, s, l)" and "i \<le> length data" and "0 < m" and "m \<le> l"
    and "i = length data \<or> \<not> is_printable_ascii (data ! i)"
  shows "set (collect s l acc) = {(a, n). is_run data a n \<and> m \<le> n \<and> a + n \<le> i} \<and>
    sorted_wrt (\<lambda>x y. fst x < fst y) (collect s l acc)"
proof -
  have inv: "l \<le> i" "s = i - l" "printable_on data (i - l) i" "left_edge data (i - l)"
    "set acc = {(a, n). is_run data a n \<and> m \<le> n \<and> a + n < i}" "sorted_wrt (\<lambda>x y. fst x < fst y) acc"
    using assms(1,3,4) by (auto simp: run_inv_def)
  have this_run: "is_run data s l" using inv assms by (auto simp: is_run_def)
  have "is_run data a n \<and> m \<le> n \<and> a + n \<le> i \<longleftrightarrow> a = s \<and> n = l \<or> is_run data a n \<and> m \<le> n \<and> a + n < i" for a n
    using run_ending_at [OF inv(1,3,4), of a n] this_run inv(1,2) assms(4) by (auto simp: order.order_iff_strict)
  then have "{(a, n). is_run data a n \<and> m \<le> n \<and> a + n \<le> i} = insert (s, l) (set acc)"
    unfolding inv(5) by blast
  moreover have "fst x < s" if "x \<in> set acc" for x
    using that run_start_before [OF inv(1,3) _ _ assms(2)] inv(2,5) by auto
  ultimately show ?thesis using inv(6) by (auto simp: collect_def sorted_wrt_append)
qed

lemma no_run_ends:
  assumes "run_inv data m i (acc, s, l)" and "l < m"
  shows "{(a, n). is_run data a n \<and> m \<le> n \<and> a + n \<le> i} = set acc"
proof -
  have inv: "l \<le> i" "printable_on data (i - l) i" "left_edge data (i - l)"
    "set acc = {(a, n). is_run data a n \<and> m \<le> n \<and> a + n < i}"
    using assms(1) by (auto simp: run_inv_def)
  have "is_run data a n \<and> m \<le> n \<and> a + n \<le> i \<longleftrightarrow> is_run data a n \<and> m \<le> n \<and> a + n < i" for a n
    using run_ending_at [OF inv(1-3), of a n] assms(2) by (auto simp: order.order_iff_strict)
  then show ?thesis unfolding inv(4) by blast
qed

lemma run_step_inv:
  assumes "run_inv data m i st" and "i < length data" and "0 < m"
  shows "run_inv data m (Suc i) (run_step data m collect i st)"
proof -
  obtain acc s l where st: "st = (acc, s, l)" by (cases st)
  have inv: "l \<le> i" "0 < l \<longrightarrow> s = i - l" "printable_on data (i - l) i" "left_edge data (i - l)"
    "set acc = {(a, n). is_run data a n \<and> m \<le> n \<and> a + n < i}" "sorted_wrt (\<lambda>x y. fst x < fst y) acc"
    using assms(1) by (auto simp: st run_inv_def)
  show ?thesis
  proof (cases "is_printable_ascii (data ! i)")
    case True
    have "printable_on data (i - l) (Suc i)" using inv(3) True by (auto simp: printable_on_def less_Suc_eq)
    moreover have "\<not> (is_run data a n \<and> a + n = i)" for a n
      using True assms(2) by (auto simp: is_run_def)
    then have "{(a, n). is_run data a n \<and> m \<le> n \<and> a + n < Suc i} = set acc"
      using inv(5) by (auto simp: less_Suc_eq)
    ultimately show ?thesis using inv True by (auto simp: st run_step_def run_inv_def)
  next
    case False
    have edge: "printable_on data (Suc i) (Suc i)" "left_edge data (Suc i)"
      using False by (auto simp: printable_on_def left_edge_def)
    show ?thesis
    proof (cases "m \<le> l")
      case True
      from collect_run [OF assms(1)[unfolded st] _ assms(3) True] False assms(2) edge False True show ?thesis
        by (auto simp: st run_step_def run_inv_def less_Suc_eq_le)
    next
      case short: False
      then have "l < m" by simp
      from no_run_ends [OF assms(1)[unfolded st] this] inv(6) edge False short show ?thesis
        by (auto simp: st run_step_def run_inv_def less_Suc_eq_le)
    qed
  qed
qed

lemma run_fold_inv:
  assumes "0 < m" and "n \<le> length data"
  shows "run_inv data m n (fold (run_step data m collect) [0 ..< n] ([], s, 0))"
  using assms(2)
proof (induction n)
  case 0
  then show ?case by (auto simp: run_inv_def printable_on_def left_edge_def is_run_def)
next
  case (Suc n)
  then show ?case using run_step_inv [OF Suc.IH] assms(1) by simp
qed

lemma run_loop_collect:
  assumes "0 < m"
  shows "set (run_loop data m collect [] s) = {(a, n). is_run data a n \<and> m \<le> n} \<and>
    sorted_wrt (\<lambda>x y. fst x < fst y) (run_loop data m collect [] s)"
proof -
  let ?n = "length data"
  obtain acc r l where f: "fold (run_step data m collect) [0 ..< ?n] ([], s, 0) = (acc, r, l)"
    by (cases "fold (run_step data m collect) [0 ..< ?n] ([], s, 0)")
  with run_fold_inv [OF assms, of ?n data s] have inv: "run_inv data m ?n (acc, r, l)" by simp
  have all: "is_run data a n \<and> m \<le> n \<longleftrightarrow> is_run data a n \<and> m \<le> n \<and> a + n \<le> ?n" for a n
    by (auto simp: is_run_def)
  show ?thesis
  proof (cases "m \<le> l")
    case True
    from collect_run [OF inv _ assms True] f True show ?thesis by (simp add: run_loop_def all)
  next
    case False
    then have "l < m" by simp
    from no_run_ends [OF inv this] inv f False show ?thesis by (auto simp: run_loop_def run_inv_def all)
  qed
qed

section \<open>The two passes\<close>

text \<open>Any other treatment of the runs is a fold over the collected ones.\<close>

lemma fold_run_abs:
  "fold (run_step data m emit) xs (fold (\<lambda>(s, l). emit s l) acc init, s, l) =
    (let (acc', s', l') = fold (run_step data m collect) xs (acc, s, l) in (fold (\<lambda>(s, l). emit s l) acc' init, s', l'))"
proof (induction xs arbitrary: acc s l)
  case Nil
  then show ?case by simp
next
  case (Cons x xs)
  have "run_step data m emit x (fold (\<lambda>(s, l). emit s l) acc init, s, l) =
      (let (acc', s', l') = run_step data m collect x (acc, s, l) in (fold (\<lambda>(s, l). emit s l) acc' init, s', l'))"
    by (simp add: run_step_def collect_def)
  then show ?case using Cons by (simp add: Let_def split: prod.split)
qed

lemma run_loop_abs: "run_loop data m emit init s = fold (\<lambda>(s, l). emit s l) (run_loop data m collect [] s) init"
  using fold_run_abs [of data m emit "[0 ..< length data]" "[]" init s 0]
  by (auto simp: run_loop_def collect_def Let_def split: prod.split)

lemma fold_count_runs: "fold (\<lambda>(s, l). (\<lambda>_ _ n. n + 1) s l) xs n = n + length xs"
  by (induction xs arbitrary: n) auto

lemma fold_emit:
  "length ys + length xs \<le> num \<Longrightarrow> fold (\<lambda>(s, l). emit_string data num s l) xs ys = ys @ map (\<lambda>(s, l). make_string data s l) xs"
  by (induction xs arbitrary: ys) (auto simp: emit_string_def)

text \<open>The collected runs do not depend on the initial \<open>run_start\<close>.\<close>

lemma sorted_fst_unique:
  "sorted_wrt (\<lambda>x y. fst x < fst y) xs \<Longrightarrow> sorted_wrt (\<lambda>x y. fst x < fst y) ys \<Longrightarrow> set xs = set ys \<Longrightarrow> xs = ys"
  for xs ys :: "(nat \<times> nat) list"
proof (induction xs arbitrary: ys)
  case Nil
  then show ?case by simp
next
  case (Cons x xs)
  then obtain y ys' where ys: "ys = y # ys'" by (cases ys) auto
  have "x = y"
  proof (rule ccontr)
    assume "x \<noteq> y"
    with Cons.prems(3) ys have "x \<in> set ys'" "y \<in> set xs" by auto
    with Cons.prems(1,2) ys show False by fastforce
  qed
  moreover from this have "set xs = set ys'"
    using Cons.prems ys by (auto simp: insert_eq_iff)
  ultimately show ?case using Cons ys by auto
qed

lemma run_start_irrelevant: "0 < m \<Longrightarrow> run_loop data m collect [] s = run_loop data m collect [] t"
  by (rule sorted_fst_unique) (simp_all add: run_loop_collect)

text \<open>Classification changes flags only.\<close>

lemma classify_frame [simp]:
  "str_offset (classify_string s) = str_offset s" "str_value (classify_string s) = str_value s"
  "str_length (classify_string s) = str_length s" "str_encoding (classify_string s) = str_encoding s"
  by (simp_all add: classify_string_def Let_def split: prod.split)

section \<open>Properties\<close>

text \<open>
  Extraction of strings: on non-empty data the array holds, in increasing order of their
  offsets, exactly the maximal runs of printable characters that are at least as long as the
  requested minimum and as four, each with its characters and its length; the array that was
  allocated from the counting pass is filled completely, and without such a run there is no array.
\<close>

theorem strings_extract_exact:
  assumes "data \<noteq> []"
  shows "\<exists>strings. e9_strings_extract (Some data) min_len =
      (if strings = [] then None else Some strings, word_of_nat (length strings)) \<and>
    set (map (\<lambda>s. (str_offset s, str_length s)) strings) = {(a, n). is_run data a n \<and> max 4 min_len \<le> n} \<and>
    sorted_wrt (<) (map str_offset strings) \<and>
    (\<forall>s \<in> set strings. str_value s = take (str_length s) (drop (str_offset s) data))"
proof -
  let ?m = "max 4 min_len"
  have m: "(if min_len < 4 then 4 else min_len) = ?m" by simp
  define runs where "runs = run_loop data ?m collect [] 0"
  have runs: "set runs = {(a, n). is_run data a n \<and> ?m \<le> n}" "sorted_wrt (\<lambda>x y. fst x < fst y) runs"
    using run_loop_collect [of ?m data 0] by (auto simp: runs_def)
  have count: "run_loop data ?m (\<lambda>_ _ n. n + 1) 0 0 = length runs"
    by (subst run_loop_abs) (use fold_count_runs [of runs 0] in \<open>simp add: runs_def\<close>)
  have emit: "run_loop data ?m (emit_string data (length runs)) [] t = map (\<lambda>(s, l). make_string data s l) runs" for t
    by (subst run_loop_abs) (use fold_emit [of "[]" runs "length runs" data] run_start_irrelevant [of ?m data t 0] in \<open>simp add: runs_def\<close>)
  let ?strings = "map (\<lambda>(s, l). make_string data s l) runs"
  have "e9_strings_extract (Some data) min_len = (if ?strings = [] then None else Some ?strings, word_of_nat (length ?strings))"
    using assms by (simp only: e9_strings_extract_def m option.case if_False Let_def count emit) auto
  moreover have "map (\<lambda>s. (str_offset s, str_length s)) ?strings = runs" "map str_offset ?strings = map fst runs"
    by (auto simp: make_string_def case_prod_beta o_def)
  moreover have "sorted_wrt (<) (map fst runs)" using runs(2) by (simp add: sorted_wrt_map)
  moreover have "\<forall>s \<in> set ?strings. str_value s = take (str_length s) (drop (str_offset s) data)"
    by (auto simp: make_string_def)
  ultimately show ?thesis using runs(1) by (intro exI [of _ ?strings]) (simp only: simp_thms set_map)
qed

theorem strings_extract_exact_witness:
  "\<exists>strings. e9_strings_extract (Some (0 # str_bytes ''main'' @ [0])) 1 =
      (if strings = [] then None else Some strings, word_of_nat (length strings)) \<and>
    set (map (\<lambda>s. (str_offset s, str_length s)) strings) = {(a, n). is_run (0 # str_bytes ''main'' @ [0]) a n \<and> 4 \<le> n}"
  using strings_extract_exact [of "0 # str_bytes ''main'' @ [0]" 1] by auto

end
