(* ===== verification/E9Signatures.thy ===== *)
theory E9Signatures
  imports E9Text
begin

text \<open>
  The signature scanner (\<open>vendor/e9signatures.c\<close>, with the database of
  \<open>vendor/e9signatures.h\<close>).

  The scanner sorts the signatures of the database into three groups: those at a fixed offset,
  those that count only at the start of the file, and the normal ones, kept in 256 buckets by
  their first byte.  A scan visits the groups one after the other; \<open>scan_spec\<close> states what it
  must find without the buckets.  The arrays of the scanner are allocated from a first pass over
  the database; \<open>push\<close> checks every write of the second pass against the allocated length.

  The pointer \<open>magic\<close> and the length \<open>magic_len\<close> of a signature are separate fields, as in
  the code.  The fields for alternative patterns are \<open>NULL\<close> in every entry and never read, and
  are left out.  Allocation succeeds, and sizes and positions are natural numbers: an object has
  fewer than \<open>2 ^ 63\<close> bytes and the magic offsets are below 2000.
\<close>

section \<open>Signatures\<close>

datatype E9SigCategory =
    E9_SIG_CAT_EXECUTABLE | E9_SIG_CAT_ARCHIVE | E9_SIG_CAT_COMPRESSED | E9_SIG_CAT_FILESYSTEM
  | E9_SIG_CAT_FIRMWARE | E9_SIG_CAT_IMAGE | E9_SIG_CAT_DOCUMENT | E9_SIG_CAT_MEDIA
  | E9_SIG_CAT_CRYPTO | E9_SIG_CAT_DATA | E9_SIG_CAT_OTHER

definition E9_SIG_CONFIDENCE_LOW :: u8 where "E9_SIG_CONFIDENCE_LOW = 0"
definition E9_SIG_CONFIDENCE_MEDIUM :: u8 where "E9_SIG_CONFIDENCE_MEDIUM = 128"
definition E9_SIG_CONFIDENCE_HIGH :: u8 where "E9_SIG_CONFIDENCE_HIGH = 250"

record E9Signature =
  sig_name :: "string ptr"
  sig_description :: "string ptr"
  sig_category :: E9SigCategory
  sig_confidence :: u8
  sig_short :: bool
  sig_magic_offset :: nat
  sig_magic :: "bytes ptr"
  sig_magic_len :: nat

definition E9_SIG_ENTRY :: "string \<Rightarrow> string \<Rightarrow> E9SigCategory \<Rightarrow> u8 \<Rightarrow> bytes \<Rightarrow> E9Signature" where
  "E9_SIG_ENTRY name desc cat conf arr =
     \<lparr>sig_name = Some name, sig_description = Some desc, sig_category = cat, sig_confidence = conf,
      sig_short = False, sig_magic_offset = 0, sig_magic = Some arr, sig_magic_len = length arr\<rparr>"

definition E9_SIG_ENTRY_OFFSET :: "string \<Rightarrow> string \<Rightarrow> E9SigCategory \<Rightarrow> u8 \<Rightarrow> bytes \<Rightarrow> nat \<Rightarrow> E9Signature" where
  "E9_SIG_ENTRY_OFFSET name desc cat conf arr off =
     \<lparr>sig_name = Some name, sig_description = Some desc, sig_category = cat, sig_confidence = conf,
      sig_short = False, sig_magic_offset = off, sig_magic = Some arr, sig_magic_len = length arr\<rparr>"

definition E9_SIG_ENTRY_SHORT :: "string \<Rightarrow> string \<Rightarrow> E9SigCategory \<Rightarrow> u8 \<Rightarrow> bytes \<Rightarrow> E9Signature" where
  "E9_SIG_ENTRY_SHORT name desc cat conf arr =
     \<lparr>sig_name = Some name, sig_description = Some desc, sig_category = cat, sig_confidence = conf,
      sig_short = True, sig_magic_offset = 0, sig_magic = Some arr, sig_magic_len = length arr\<rparr>"

definition end_marker :: E9Signature where
  "end_marker =
     \<lparr>sig_name = None, sig_description = None, sig_category = E9_SIG_CAT_EXECUTABLE, sig_confidence = 0,
      sig_short = False, sig_magic_offset = 0, sig_magic = None, sig_magic_len = 0\<rparr>"

lemmas sig_entries = E9_SIG_ENTRY_def E9_SIG_ENTRY_OFFSET_def E9_SIG_ENTRY_SHORT_def

section \<open>The database\<close>

definition SIG_ELF :: bytes where
  "SIG_ELF = [0x7F, 0x45, 0x4C, 0x46]"

definition SIG_MZ :: bytes where
  "SIG_MZ = [0x4D, 0x5A]"

definition SIG_MACHO_32 :: bytes where
  "SIG_MACHO_32 = [0xFE, 0xED, 0xFA, 0xCE]"

definition SIG_MACHO_64 :: bytes where
  "SIG_MACHO_64 = [0xFE, 0xED, 0xFA, 0xCF]"

definition SIG_MACHO_32_REV :: bytes where
  "SIG_MACHO_32_REV = [0xCE, 0xFA, 0xED, 0xFE]"

definition SIG_MACHO_64_REV :: bytes where
  "SIG_MACHO_64_REV = [0xCF, 0xFA, 0xED, 0xFE]"

definition SIG_MACHO_FAT :: bytes where
  "SIG_MACHO_FAT = [0xCA, 0xFE, 0xBA, 0xBE]"

definition SIG_ZIP :: bytes where
  "SIG_ZIP = [0x50, 0x4B, 0x03, 0x04]"

definition SIG_GZIP :: bytes where
  "SIG_GZIP = [0x1F, 0x8B, 0x08]"

definition SIG_BZIP2_9 :: bytes where
  "SIG_BZIP2_9 = [0x42, 0x5A, 0x68, 0x39, 0x31, 0x41, 0x59, 0x26, 0x53, 0x59]"

definition SIG_XZ :: bytes where
  "SIG_XZ = [0xFD, 0x37, 0x7A, 0x58, 0x5A, 0x00]"

definition SIG_LZMA :: bytes where
  "SIG_LZMA = [0x5D, 0x00, 0x00]"

definition SIG_ZSTD :: bytes where
  "SIG_ZSTD = [0x28, 0xB5, 0x2F, 0xFD]"

definition SIG_LZ4 :: bytes where
  "SIG_LZ4 = [0x04, 0x22, 0x4D, 0x18]"

definition SIG_7ZIP :: bytes where
  "SIG_7ZIP = [0x37, 0x7A, 0xBC, 0xAF, 0x27, 0x1C]"

definition SIG_RAR :: bytes where
  "SIG_RAR = [0x52, 0x61, 0x72, 0x21, 0x1A, 0x07]"

definition SIG_RAR5 :: bytes where
  "SIG_RAR5 = [0x52, 0x61, 0x72, 0x21, 0x1A, 0x07, 0x01, 0x00]"

definition SIG_USTAR :: bytes where
  "SIG_USTAR = [0x75, 0x73, 0x74, 0x61, 0x72, 0x00]"

definition SIG_CPIO_NEWC :: bytes where
  "SIG_CPIO_NEWC = [0x30, 0x37, 0x30, 0x37, 0x30, 0x31]"

definition SIG_CPIO_CRC :: bytes where
  "SIG_CPIO_CRC = [0x30, 0x37, 0x30, 0x37, 0x30, 0x32]"

definition SIG_SQUASHFS_LE :: bytes where
  "SIG_SQUASHFS_LE = [0x68, 0x73, 0x71, 0x73]"

definition SIG_SQUASHFS_BE :: bytes where
  "SIG_SQUASHFS_BE = [0x73, 0x71, 0x73, 0x68]"

definition SIG_CRAMFS :: bytes where
  "SIG_CRAMFS = [0x43, 0x6F, 0x6D, 0x70, 0x72, 0x65, 0x73, 0x73, 0x65, 0x64, 0x20, 0x52, 0x4F, 0x4D, 0x46, 0x53]"

definition SIG_JFFS2_LE_1 :: bytes where
  "SIG_JFFS2_LE_1 = [0x85, 0x19, 0x01, 0xE0]"

definition SIG_JFFS2_BE_1 :: bytes where
  "SIG_JFFS2_BE_1 = [0x19, 0x85, 0xE0, 0x01]"

definition SIG_UBI :: bytes where
  "SIG_UBI = [0x55, 0x42, 0x49, 0x23, 0x01]"

definition SIG_UBIFS :: bytes where
  "SIG_UBIFS = [0x31, 0x18, 0x10, 0x06]"

definition SIG_EXT_MAGIC :: bytes where
  "SIG_EXT_MAGIC = [0x53, 0xEF]"

definition SIG_NTFS :: bytes where
  "SIG_NTFS = [0xEB, 0x52, 0x90, 0x4E, 0x54, 0x46, 0x53, 0x20, 0x20, 0x20, 0x20]"

definition SIG_BTRFS :: bytes where
  "SIG_BTRFS = [0x5F, 0x42, 0x48, 0x52, 0x66, 0x53, 0x5F, 0x4D]"

definition SIG_ISO9660 :: bytes where
  "SIG_ISO9660 = [0x01, 0x43, 0x44, 0x30, 0x30, 0x31, 0x01, 0x00]"

definition SIG_UEFI_FV :: bytes where
  "SIG_UEFI_FV = [0x5F, 0x46, 0x56, 0x48]"

definition SIG_UEFI_CAPSULE :: bytes where
  "SIG_UEFI_CAPSULE = [0xBD, 0x86, 0x66, 0x3B, 0x76, 0x0D, 0x30, 0x40, 0xB7, 0x0E, 0xB5, 0x51, 0x9E, 0x2F, 0xC5, 0xA0]"

definition SIG_ANDROID_BOOT :: bytes where
  "SIG_ANDROID_BOOT = [0x41, 0x4E, 0x44, 0x52, 0x4F, 0x49, 0x44, 0x21]"

definition SIG_ANDROID_SPARSE :: bytes where
  "SIG_ANDROID_SPARSE = [0x3A, 0xFF, 0x26, 0xED]"

definition SIG_PNG :: bytes where
  "SIG_PNG = [0x89, 0x50, 0x4E, 0x47, 0x0D, 0x0A, 0x1A, 0x0A]"

definition SIG_JPEG_JFIF :: bytes where
  "SIG_JPEG_JFIF = [0xFF, 0xD8, 0xFF, 0xE0, 0x00, 0x10, 0x4A, 0x46, 0x49, 0x46, 0x00]"

definition SIG_JPEG_EXIF :: bytes where
  "SIG_JPEG_EXIF = [0xFF, 0xD8, 0xFF, 0xE1]"

definition SIG_GIF87 :: bytes where
  "SIG_GIF87 = [0x47, 0x49, 0x46, 0x38, 0x37, 0x61]"

definition SIG_GIF89 :: bytes where
  "SIG_GIF89 = [0x47, 0x49, 0x46, 0x38, 0x39, 0x61]"

definition SIG_BMP :: bytes where
  "SIG_BMP = [0x42, 0x4D]"

definition SIG_PDF :: bytes where
  "SIG_PDF = [0x25, 0x50, 0x44, 0x46, 0x2D, 0x31, 0x2E]"

definition SIG_OLE2 :: bytes where
  "SIG_OLE2 = [0xD0, 0xCF, 0x11, 0xE0, 0xA1, 0xB1, 0x1A, 0xE1]"

definition SIG_SQLITE :: bytes where
  "SIG_SQLITE = [0x53, 0x51, 0x4C, 0x69, 0x74, 0x65, 0x20, 0x66, 0x6F, 0x72, 0x6D, 0x61, 0x74, 0x20, 0x33, 0x00]"

definition SIG_PGP_ARMOR :: bytes where
  "SIG_PGP_ARMOR = [0x2D, 0x2D, 0x2D, 0x2D, 0x2D, 0x42, 0x45, 0x47, 0x49, 0x4E, 0x20, 0x50, 0x47, 0x50]"

definition SIG_SSH_PRIVKEY :: bytes where
  "SIG_SSH_PRIVKEY = [0x2D, 0x2D, 0x2D, 0x2D, 0x2D, 0x42, 0x45, 0x47, 0x49, 0x4E, 0x20, 0x4F, 0x50, 0x45, 0x4E, 0x53, 0x53, 0x48]"

definition SIG_X509_PEM :: bytes where
  "SIG_X509_PEM = [0x2D, 0x2D, 0x2D, 0x2D, 0x2D, 0x42, 0x45, 0x47, 0x49, 0x4E, 0x20, 0x43, 0x45, 0x52, 0x54]"

definition SIG_UBOOT_IMAGE :: bytes where
  "SIG_UBOOT_IMAGE = [0x27, 0x05, 0x19, 0x56]"

definition SIG_DTB :: bytes where
  "SIG_DTB = [0xD0, 0x0D, 0xFE, 0xED]"

definition SIG_RIFF :: bytes where
  "SIG_RIFF = [0x52, 0x49, 0x46, 0x46]"

definition SIG_OGG :: bytes where
  "SIG_OGG = [0x4F, 0x67, 0x67, 0x53]"

definition SIG_FLAC :: bytes where
  "SIG_FLAC = [0x66, 0x4C, 0x61, 0x43]"

definition SIG_ID3 :: bytes where
  "SIG_ID3 = [0x49, 0x44, 0x33]"

definition SIG_EBML :: bytes where
  "SIG_EBML = [0x1A, 0x45, 0xDF, 0xA3]"

definition SIG_JAVA_CLASS :: bytes where
  "SIG_JAVA_CLASS = [0xCA, 0xFE, 0xBA, 0xBE]"

definition SIG_WASM :: bytes where
  "SIG_WASM = [0x00, 0x61, 0x73, 0x6D, 0x01, 0x00, 0x00, 0x00]"

definition SIG_LLVM_BC :: bytes where
  "SIG_LLVM_BC = [0x42, 0x43, 0xC0, 0xDE]"

definition SIG_GIT_PACK :: bytes where
  "SIG_GIT_PACK = [0x50, 0x41, 0x43, 0x4B]"

definition SIG_DEB :: bytes where
  "SIG_DEB = [0x21, 0x3C, 0x61, 0x72, 0x63, 0x68, 0x3E]"

definition SIG_RPM :: bytes where
  "SIG_RPM = [0xED, 0xAB, 0xEE, 0xDB]"

definition SIG_AR :: bytes where
  "SIG_AR = [0x21, 0x3C, 0x61, 0x72, 0x63, 0x68, 0x3E, 0x0A]"

definition SIG_APE :: bytes where
  "SIG_APE = [0x4D, 0x5A, 0x71, 0x46, 0x70, 0x44, 0x3D]"

definition SIG_AES_SBOX :: bytes where
  "SIG_AES_SBOX = [0x63, 0x7C, 0x77, 0x7B, 0xF2, 0x6B, 0x6F, 0xC5, 0x30, 0x01, 0x67, 0x2B, 0xFE, 0xD7, 0xAB, 0x76]"

lemmas sig_arrays =
  SIG_ELF_def SIG_MZ_def SIG_MACHO_32_def SIG_MACHO_64_def SIG_MACHO_32_REV_def SIG_MACHO_64_REV_def
  SIG_MACHO_FAT_def SIG_ZIP_def SIG_GZIP_def SIG_BZIP2_9_def SIG_XZ_def SIG_LZMA_def SIG_ZSTD_def
  SIG_LZ4_def SIG_7ZIP_def SIG_RAR_def SIG_RAR5_def SIG_USTAR_def SIG_CPIO_NEWC_def SIG_CPIO_CRC_def
  SIG_SQUASHFS_LE_def SIG_SQUASHFS_BE_def SIG_CRAMFS_def SIG_JFFS2_LE_1_def SIG_JFFS2_BE_1_def
  SIG_UBI_def SIG_UBIFS_def SIG_EXT_MAGIC_def SIG_NTFS_def SIG_BTRFS_def SIG_ISO9660_def
  SIG_UEFI_FV_def SIG_UEFI_CAPSULE_def SIG_ANDROID_BOOT_def SIG_ANDROID_SPARSE_def SIG_PNG_def
  SIG_JPEG_JFIF_def SIG_JPEG_EXIF_def SIG_GIF87_def SIG_GIF89_def SIG_BMP_def SIG_PDF_def
  SIG_OLE2_def SIG_SQLITE_def SIG_PGP_ARMOR_def SIG_SSH_PRIVKEY_def SIG_X509_PEM_def
  SIG_UBOOT_IMAGE_def SIG_DTB_def SIG_RIFF_def SIG_OGG_def SIG_FLAC_def SIG_ID3_def SIG_EBML_def
  SIG_JAVA_CLASS_def SIG_WASM_def SIG_LLVM_BC_def SIG_GIT_PACK_def SIG_DEB_def SIG_RPM_def
  SIG_AR_def SIG_APE_def SIG_AES_SBOX_def

definition E9_SIGNATURE_DB :: "E9Signature list" where
  "E9_SIGNATURE_DB = [
     E9_SIG_ENTRY ''elf'' ''ELF executable'' E9_SIG_CAT_EXECUTABLE E9_SIG_CONFIDENCE_HIGH SIG_ELF,
     E9_SIG_ENTRY ''pe'' ''Windows PE executable'' E9_SIG_CAT_EXECUTABLE E9_SIG_CONFIDENCE_MEDIUM SIG_MZ,
     E9_SIG_ENTRY ''macho32'' ''Mach-O 32-bit executable'' E9_SIG_CAT_EXECUTABLE E9_SIG_CONFIDENCE_HIGH SIG_MACHO_32,
     E9_SIG_ENTRY ''macho64'' ''Mach-O 64-bit executable'' E9_SIG_CAT_EXECUTABLE E9_SIG_CONFIDENCE_HIGH SIG_MACHO_64,
     E9_SIG_ENTRY ''macho32r'' ''Mach-O 32-bit (reversed)'' E9_SIG_CAT_EXECUTABLE E9_SIG_CONFIDENCE_HIGH SIG_MACHO_32_REV,
     E9_SIG_ENTRY ''macho64r'' ''Mach-O 64-bit (reversed)'' E9_SIG_CAT_EXECUTABLE E9_SIG_CONFIDENCE_HIGH SIG_MACHO_64_REV,
     E9_SIG_ENTRY ''machofat'' ''Mach-O Universal Binary'' E9_SIG_CAT_EXECUTABLE E9_SIG_CONFIDENCE_HIGH SIG_MACHO_FAT,
     E9_SIG_ENTRY ''ape'' ''Actually Portable Executable'' E9_SIG_CAT_EXECUTABLE E9_SIG_CONFIDENCE_HIGH SIG_APE,
     E9_SIG_ENTRY ''wasm'' ''WebAssembly module'' E9_SIG_CAT_EXECUTABLE E9_SIG_CONFIDENCE_HIGH SIG_WASM,
     E9_SIG_ENTRY ''javaclass'' ''Java class file'' E9_SIG_CAT_EXECUTABLE E9_SIG_CONFIDENCE_HIGH SIG_JAVA_CLASS,
     E9_SIG_ENTRY ''llvmbc'' ''LLVM bitcode'' E9_SIG_CAT_EXECUTABLE E9_SIG_CONFIDENCE_HIGH SIG_LLVM_BC,
     E9_SIG_ENTRY ''zip'' ''ZIP archive'' E9_SIG_CAT_ARCHIVE E9_SIG_CONFIDENCE_HIGH SIG_ZIP,
     E9_SIG_ENTRY ''7zip'' ''7-Zip archive'' E9_SIG_CAT_ARCHIVE E9_SIG_CONFIDENCE_HIGH SIG_7ZIP,
     E9_SIG_ENTRY ''rar'' ''RAR archive'' E9_SIG_CAT_ARCHIVE E9_SIG_CONFIDENCE_HIGH SIG_RAR,
     E9_SIG_ENTRY ''rar5'' ''RAR5 archive'' E9_SIG_CAT_ARCHIVE E9_SIG_CONFIDENCE_HIGH SIG_RAR5,
     E9_SIG_ENTRY_OFFSET ''ustar'' ''TAR archive (ustar)'' E9_SIG_CAT_ARCHIVE E9_SIG_CONFIDENCE_HIGH SIG_USTAR 257,
     E9_SIG_ENTRY ''cpio'' ''CPIO archive (newc)'' E9_SIG_CAT_ARCHIVE E9_SIG_CONFIDENCE_HIGH SIG_CPIO_NEWC,
     E9_SIG_ENTRY ''cpiocrc'' ''CPIO archive (crc)'' E9_SIG_CAT_ARCHIVE E9_SIG_CONFIDENCE_HIGH SIG_CPIO_CRC,
     E9_SIG_ENTRY ''ar'' ''ar archive'' E9_SIG_CAT_ARCHIVE E9_SIG_CONFIDENCE_HIGH SIG_AR,
     E9_SIG_ENTRY ''deb'' ''Debian package'' E9_SIG_CAT_ARCHIVE E9_SIG_CONFIDENCE_HIGH SIG_DEB,
     E9_SIG_ENTRY ''rpm'' ''RPM package'' E9_SIG_CAT_ARCHIVE E9_SIG_CONFIDENCE_HIGH SIG_RPM,
     E9_SIG_ENTRY ''gitpack'' ''Git pack file'' E9_SIG_CAT_ARCHIVE E9_SIG_CONFIDENCE_HIGH SIG_GIT_PACK,
     E9_SIG_ENTRY ''gzip'' ''gzip compressed data'' E9_SIG_CAT_COMPRESSED E9_SIG_CONFIDENCE_HIGH SIG_GZIP,
     E9_SIG_ENTRY ''bzip2'' ''bzip2 compressed data'' E9_SIG_CAT_COMPRESSED E9_SIG_CONFIDENCE_HIGH SIG_BZIP2_9,
     E9_SIG_ENTRY ''xz'' ''XZ compressed data'' E9_SIG_CAT_COMPRESSED E9_SIG_CONFIDENCE_HIGH SIG_XZ,
     E9_SIG_ENTRY ''lzma'' ''LZMA compressed data'' E9_SIG_CAT_COMPRESSED E9_SIG_CONFIDENCE_LOW SIG_LZMA,
     E9_SIG_ENTRY ''zstd'' ''Zstandard compressed data'' E9_SIG_CAT_COMPRESSED E9_SIG_CONFIDENCE_HIGH SIG_ZSTD,
     E9_SIG_ENTRY ''lz4'' ''LZ4 compressed data'' E9_SIG_CAT_COMPRESSED E9_SIG_CONFIDENCE_HIGH SIG_LZ4,
     E9_SIG_ENTRY ''squashfs'' ''SquashFS filesystem (LE)'' E9_SIG_CAT_FILESYSTEM E9_SIG_CONFIDENCE_HIGH SIG_SQUASHFS_LE,
     E9_SIG_ENTRY ''squashfsbe'' ''SquashFS filesystem (BE)'' E9_SIG_CAT_FILESYSTEM E9_SIG_CONFIDENCE_HIGH SIG_SQUASHFS_BE,
     E9_SIG_ENTRY ''cramfs'' ''CramFS filesystem'' E9_SIG_CAT_FILESYSTEM E9_SIG_CONFIDENCE_HIGH SIG_CRAMFS,
     E9_SIG_ENTRY ''jffs2le'' ''JFFS2 filesystem (LE)'' E9_SIG_CAT_FILESYSTEM E9_SIG_CONFIDENCE_HIGH SIG_JFFS2_LE_1,
     E9_SIG_ENTRY ''jffs2be'' ''JFFS2 filesystem (BE)'' E9_SIG_CAT_FILESYSTEM E9_SIG_CONFIDENCE_HIGH SIG_JFFS2_BE_1,
     E9_SIG_ENTRY ''ubi'' ''UBI image'' E9_SIG_CAT_FILESYSTEM E9_SIG_CONFIDENCE_HIGH SIG_UBI,
     E9_SIG_ENTRY ''ubifs'' ''UBIFS filesystem'' E9_SIG_CAT_FILESYSTEM E9_SIG_CONFIDENCE_HIGH SIG_UBIFS,
     E9_SIG_ENTRY_OFFSET ''ext'' ''ext2/3/4 filesystem'' E9_SIG_CAT_FILESYSTEM E9_SIG_CONFIDENCE_HIGH SIG_EXT_MAGIC 0x438,
     E9_SIG_ENTRY ''ntfs'' ''NTFS filesystem'' E9_SIG_CAT_FILESYSTEM E9_SIG_CONFIDENCE_HIGH SIG_NTFS,
     E9_SIG_ENTRY ''btrfs'' ''BTRFS filesystem'' E9_SIG_CAT_FILESYSTEM E9_SIG_CONFIDENCE_HIGH SIG_BTRFS,
     E9_SIG_ENTRY ''iso9660'' ''ISO 9660 CD-ROM'' E9_SIG_CAT_FILESYSTEM E9_SIG_CONFIDENCE_HIGH SIG_ISO9660,
     E9_SIG_ENTRY ''uefifv'' ''UEFI Firmware Volume'' E9_SIG_CAT_FIRMWARE E9_SIG_CONFIDENCE_HIGH SIG_UEFI_FV,
     E9_SIG_ENTRY ''ueficap'' ''UEFI Capsule'' E9_SIG_CAT_FIRMWARE E9_SIG_CONFIDENCE_HIGH SIG_UEFI_CAPSULE,
     E9_SIG_ENTRY ''uboot'' ''U-Boot image'' E9_SIG_CAT_FIRMWARE E9_SIG_CONFIDENCE_HIGH SIG_UBOOT_IMAGE,
     E9_SIG_ENTRY ''dtb'' ''Device Tree Blob'' E9_SIG_CAT_FIRMWARE E9_SIG_CONFIDENCE_HIGH SIG_DTB,
     E9_SIG_ENTRY ''androidboot'' ''Android boot image'' E9_SIG_CAT_FIRMWARE E9_SIG_CONFIDENCE_HIGH SIG_ANDROID_BOOT,
     E9_SIG_ENTRY ''androidsparse'' ''Android sparse image'' E9_SIG_CAT_FIRMWARE E9_SIG_CONFIDENCE_HIGH SIG_ANDROID_SPARSE,
     E9_SIG_ENTRY ''png'' ''PNG image'' E9_SIG_CAT_IMAGE E9_SIG_CONFIDENCE_HIGH SIG_PNG,
     E9_SIG_ENTRY ''jpeg'' ''JPEG image (JFIF)'' E9_SIG_CAT_IMAGE E9_SIG_CONFIDENCE_HIGH SIG_JPEG_JFIF,
     E9_SIG_ENTRY ''jpegexif'' ''JPEG image (EXIF)'' E9_SIG_CAT_IMAGE E9_SIG_CONFIDENCE_MEDIUM SIG_JPEG_EXIF,
     E9_SIG_ENTRY ''gif87'' ''GIF image (87a)'' E9_SIG_CAT_IMAGE E9_SIG_CONFIDENCE_HIGH SIG_GIF87,
     E9_SIG_ENTRY ''gif89'' ''GIF image (89a)'' E9_SIG_CAT_IMAGE E9_SIG_CONFIDENCE_HIGH SIG_GIF89,
     E9_SIG_ENTRY_SHORT ''bmp'' ''BMP image'' E9_SIG_CAT_IMAGE E9_SIG_CONFIDENCE_MEDIUM SIG_BMP,
     E9_SIG_ENTRY ''pdf'' ''PDF document'' E9_SIG_CAT_DOCUMENT E9_SIG_CONFIDENCE_HIGH SIG_PDF,
     E9_SIG_ENTRY ''ole2'' ''OLE2 Compound Document'' E9_SIG_CAT_DOCUMENT E9_SIG_CONFIDENCE_HIGH SIG_OLE2,
     E9_SIG_ENTRY ''sqlite'' ''SQLite database'' E9_SIG_CAT_DATA E9_SIG_CONFIDENCE_HIGH SIG_SQLITE,
     E9_SIG_ENTRY ''riff'' ''RIFF container (WAV/AVI)'' E9_SIG_CAT_MEDIA E9_SIG_CONFIDENCE_MEDIUM SIG_RIFF,
     E9_SIG_ENTRY ''ogg'' ''Ogg container'' E9_SIG_CAT_MEDIA E9_SIG_CONFIDENCE_HIGH SIG_OGG,
     E9_SIG_ENTRY ''flac'' ''FLAC audio'' E9_SIG_CAT_MEDIA E9_SIG_CONFIDENCE_HIGH SIG_FLAC,
     E9_SIG_ENTRY ''id3'' ''MP3 with ID3 tag'' E9_SIG_CAT_MEDIA E9_SIG_CONFIDENCE_MEDIUM SIG_ID3,
     E9_SIG_ENTRY ''ebml'' ''EBML container (WebM/MKV)'' E9_SIG_CAT_MEDIA E9_SIG_CONFIDENCE_HIGH SIG_EBML,
     E9_SIG_ENTRY ''pgparmor'' ''PGP armored data'' E9_SIG_CAT_CRYPTO E9_SIG_CONFIDENCE_HIGH SIG_PGP_ARMOR,
     E9_SIG_ENTRY ''sshkey'' ''OpenSSH private key'' E9_SIG_CAT_CRYPTO E9_SIG_CONFIDENCE_HIGH SIG_SSH_PRIVKEY,
     E9_SIG_ENTRY ''x509pem'' ''X.509 certificate (PEM)'' E9_SIG_CAT_CRYPTO E9_SIG_CONFIDENCE_HIGH SIG_X509_PEM,
     E9_SIG_ENTRY ''aessbox'' ''AES S-Box (potential crypto)'' E9_SIG_CAT_CRYPTO E9_SIG_CONFIDENCE_LOW SIG_AES_SBOX,
     end_marker]"

definition E9_NUM_SIGNATURES :: nat where
  "E9_NUM_SIGNATURES = length E9_SIGNATURE_DB - 1"

text \<open>The entries the code looks at, without the end marker.\<close>

definition sig_db :: "E9Signature list" where
  "sig_db = take E9_NUM_SIGNATURES E9_SIGNATURE_DB"

section \<open>The scanner\<close>

record E9SigScanner =
  first_byte :: "E9Signature list list"
  short_sigs :: "E9Signature list"
  offset_sigs :: "(E9Signature \<times> nat) list"

text \<open>The allocated lengths of the arrays.\<close>

record sig_counts =
  n_first :: "nat list"
  n_short :: nat
  n_offset :: nat

definition count_sig :: "E9Signature \<Rightarrow> sig_counts \<Rightarrow> sig_counts ub" where
  "count_sig sig c =
     (if sig_magic sig = None \<or> sig_magic_len sig = 0 then Some c
      else if 0 < sig_magic_offset sig then Some (c\<lparr>n_offset := n_offset c + 1\<rparr>)
      else if sig_short sig then Some (c\<lparr>n_short := n_short c + 1\<rparr>)
      else do {
        m \<leftarrow> sig_magic sig;
        b \<leftarrow> rd8 m 0;
        Some (c\<lparr>n_first := (n_first c)[unat b := n_first c ! unat b + 1]\<rparr>)
      })"

text \<open>A write to the next free slot of an array of \<open>cap\<close> elements.\<close>

definition push :: "nat \<Rightarrow> 'a list \<Rightarrow> 'a \<Rightarrow> 'a list ub" where
  "push cap xs x = (if length xs < cap then Some (xs @ [x]) else None)"

definition slots :: "nat \<Rightarrow> nat" where
  "slots n = (if 0 < n then n + 1 else 0)"

definition add_sig :: "sig_counts \<Rightarrow> E9Signature \<Rightarrow> E9SigScanner \<Rightarrow> E9SigScanner ub" where
  "add_sig c sig sc =
     (if sig_magic sig = None \<or> sig_magic_len sig = 0 then Some sc
      else if 0 < sig_magic_offset sig then do {
        xs \<leftarrow> push (n_offset c) (offset_sigs sc) (sig, sig_magic_offset sig);
        Some (sc\<lparr>offset_sigs := xs\<rparr>)
      }
      else if sig_short sig then do {
        xs \<leftarrow> push (slots (n_short c)) (short_sigs sc) sig;
        Some (sc\<lparr>short_sigs := xs\<rparr>)
      }
      else do {
        m \<leftarrow> sig_magic sig;
        b \<leftarrow> rd8 m 0;
        xs \<leftarrow> push (slots (n_first c ! unat b)) (first_byte sc ! unat b) sig;
        Some (sc\<lparr>first_byte := (first_byte sc)[unat b := xs]\<rparr>)
      })"

definition scanner_of :: "E9Signature list \<Rightarrow> E9SigScanner ub" where
  "scanner_of db = do {
     c \<leftarrow> mfold count_sig db \<lparr>n_first = replicate 256 0, n_short = 0, n_offset = 0\<rparr>;
     mfold (add_sig c) db \<lparr>first_byte = replicate 256 [], short_sigs = [], offset_sigs = []\<rparr>
   }"

definition e9_sig_scanner_create :: "E9SigScanner ptr ub" where
  "e9_sig_scanner_create = do {
     sc \<leftarrow> scanner_of sig_db;
     Some (Some sc)
   }"

section \<open>Scanning\<close>

record E9SigMatch =
  match_sig :: E9Signature
  match_offset :: nat
  match_size :: nat
  match_confidence :: u8
  match_description :: string

definition check_sig_at :: "bytes \<Rightarrow> nat \<Rightarrow> E9Signature \<Rightarrow> bool ub" where
  "check_sig_at data pos sig =
     (if length data < pos + sig_magic_len sig then Some False
      else do {
        m \<leftarrow> sig_magic sig;
        m \<leftarrow> rd_region m 0 (sig_magic_len sig);
        memeq data pos m
      })"

definition estimate_size :: "bytes \<Rightarrow> nat \<Rightarrow> E9Signature \<Rightarrow> nat" where
  "estimate_size data offset sig = 0"

text \<open>The result array with its capacity.  \<open>snprintf\<close> cuts the description to 255 characters.\<close>

type_synonym matches = "nat \<times> E9SigMatch list"

definition record_match :: "bytes \<Rightarrow> E9Signature \<Rightarrow> nat \<Rightarrow> string \<Rightarrow> matches \<Rightarrow> matches ub" where
  "record_match data sig offset suffix st =
     (let (capacity, ms) = st;
          capacity = (if capacity \<le> length ms then capacity * 2 else capacity)
      in do {
        desc \<leftarrow> sig_description sig;
        ms \<leftarrow> push capacity ms \<lparr>match_sig = sig, match_offset = offset, match_size = estimate_size data offset sig,
          match_confidence = sig_confidence sig, match_description = take 255 (desc @ suffix)\<rparr>;
        Some (capacity, ms)
      })"

definition scan_short :: "bytes \<Rightarrow> E9Signature \<Rightarrow> matches \<Rightarrow> matches ub" where
  "scan_short data sig st = do {
     hit \<leftarrow> check_sig_at data 0 sig;
     if hit then record_match data sig 0 '''' st else Some st
   }"

definition scan_offset :: "bytes \<Rightarrow> E9Signature \<times> nat \<Rightarrow> matches \<Rightarrow> matches ub" where
  "scan_offset data so st =
     (let (sig, offset) = so in
      if offset < length data then do {
        hit \<leftarrow> check_sig_at data offset sig;
        if hit then record_match data sig 0 '''' st else Some st
      } else Some st)"

definition offset_suffix :: "nat \<Rightarrow> string" where
  "offset_suffix pos = '' at offset 0x'' @ hex pos"

definition scan_bucket :: "bytes \<Rightarrow> nat \<Rightarrow> E9Signature \<Rightarrow> matches \<Rightarrow> matches ub" where
  "scan_bucket data pos sig st = do {
     hit \<leftarrow> check_sig_at data pos sig;
     if hit then record_match data sig pos (offset_suffix pos) st else Some st
   }"

definition scan_pos :: "E9SigScanner \<Rightarrow> bytes \<Rightarrow> nat \<Rightarrow> matches \<Rightarrow> matches ub" where
  "scan_pos sc data pos st = do {
     byte \<leftarrow> rd8 data pos;
     mfold (scan_bucket data pos) (first_byte sc ! unat byte) st
   }"

definition e9_sig_scan :: "E9SigScanner ptr \<Rightarrow> bytes ptr \<Rightarrow> (u32 \<times> E9SigMatch list) ub" where
  "e9_sig_scan scanner data =
     (case (scanner, data) of
        (Some sc, Some data) \<Rightarrow>
          if data = [] then Some (0, [])
          else do {
            st \<leftarrow> mfold (scan_short data) (short_sigs sc) (64, []);
            st \<leftarrow> mfold (scan_offset data) (offset_sigs sc) st;
            (capacity, ms) \<leftarrow> mfold (scan_pos sc data) [0 ..< length data] st;
            Some (word_of_nat (length ms), ms)
          }
      | _ \<Rightarrow> Some (0, []))"

section \<open>Lookup\<close>

definition e9_sig_lookup :: "string ptr \<Rightarrow> E9Signature ptr" where
  "e9_sig_lookup name =
     (case name of None \<Rightarrow> None | Some n \<Rightarrow> find (\<lambda>sig. sig_name sig = Some n) sig_db)"

definition e9_sig_check :: "bytes \<Rightarrow> string ptr \<Rightarrow> bool ub" where
  "e9_sig_check data name =
     (case e9_sig_lookup name of
        None \<Rightarrow> Some False
      | Some sig \<Rightarrow>
          if 0 < sig_magic_offset sig then check_sig_at data (sig_magic_offset sig) sig
          else check_sig_at data 0 sig)"

text \<open>\<open>*index\<close> is advanced past the signature that is returned.\<close>

definition e9_sig_iter :: "nat ptr \<Rightarrow> E9Signature ptr \<times> nat ptr" where
  "e9_sig_iter index =
     (case index of
        None \<Rightarrow> (None, None)
      | Some i \<Rightarrow>
          if E9_NUM_SIGNATURES \<le> i then (None, Some i)
          else (Some (E9_SIGNATURE_DB ! i), Some (i + 1)))"

section \<open>Validation and description\<close>

definition e9_sig_validate_elf :: "bytes \<Rightarrow> bool ub" where
  "e9_sig_validate_elf data =
     (if length data < 52 then Some False
      else do {
        elf \<leftarrow> memeq data 0 [0x7F, 0x45, 0x4C, 0x46];
        if \<not> elf then Some False
        else do {
          ei_class \<leftarrow> rd8 data 4;
          ei_data \<leftarrow> rd8 data 5;
          ei_version \<leftarrow> rd8 data 6;
          Some ((ei_class = 1 \<or> ei_class = 2) \<and> (ei_data = 1 \<or> ei_data = 2) \<and> ei_version = 1)
        }
      })"

text \<open>\<open>pe_offset + 4\<close> is computed in 32 bits.\<close>

definition e9_sig_validate_pe :: "bytes \<Rightarrow> bool ub" where
  "e9_sig_validate_pe data =
     (if length data < 64 then Some False
      else do {
        m \<leftarrow> rd8 data 0;
        z \<leftarrow> rd8 data 1;
        if m \<noteq> 0x4D \<or> z \<noteq> 0x5A then Some False
        else do {
          pe_offset \<leftarrow> rd32 data 60;
          if length data < unat (pe_offset + 4) then Some False
          else memeq data (unat pe_offset) [0x50, 0x45, 0, 0]
        }
      })"

definition e9_sig_validate_zip :: "bytes \<Rightarrow> bool ub" where
  "e9_sig_validate_zip data =
     (if length data < 30 then Some False
      else do {
        zip \<leftarrow> memeq data 0 [0x50, 0x4B, 3, 4];
        if \<not> zip then Some False
        else do {
          compression \<leftarrow> rd16 data 8;
          Some (compression \<le> 99)
        }
      })"

text \<open>\<open>snprintf(desc, desc_size, "%s", s)\<close>\<close>

definition snprintf_buf :: "bytes \<Rightarrow> string \<Rightarrow> bytes ub" where
  "snprintf_buf buf s = memcpy_to buf 0 (str_bytes (take (length buf - 1) s) @ [0])"

text \<open>A two-byte field in the byte order of the file.\<close>

definition rd16_be :: "bytes \<Rightarrow> nat \<Rightarrow> u16 ub" where
  "rd16_be data off = do {
     hi \<leftarrow> rd8 data off;
     lo \<leftarrow> rd8 data (off + 1);
     Some (push_bit 8 (ucast hi) OR ucast lo)
   }"

definition elf_type_name :: "u16 \<Rightarrow> string" where
  "elf_type_name t =
     (if t = 1 then ''relocatable'' else if t = 2 then ''executable'' else if t = 3 then ''shared object''
      else if t = 4 then ''core dump'' else ''unknown type'')"

definition pe_arch_name :: "u16 \<Rightarrow> string" where
  "pe_arch_name m =
     (if m = 0x8664 then ''x86-64'' else if m = 0x014C then ''i386'' else if m = 0xAA64 then ''ARM64''
      else if m = 0x01C4 then ''ARM'' else ''unknown arch'')"

definition describe_elf :: "bytes \<Rightarrow> bytes \<Rightarrow> bytes ub" where
  "describe_elf data desc = do {
     c \<leftarrow> rd8 data 4;
     e \<leftarrow> rd8 data 5;
     e_type \<leftarrow> (if e = 1 then rd16 data 16 else rd16_be data 16);
     snprintf_buf desc (''ELF '' @ (if c = 2 then ''64-bit'' else ''32-bit'') @ '' '' @
       (if e = 1 then ''little-endian'' else ''big-endian'') @ '' '' @ elf_type_name e_type)
   }"

definition describe_pe :: "bytes \<Rightarrow> bytes \<Rightarrow> bytes ub" where
  "describe_pe data desc = do {
     pe_offset \<leftarrow> rd32 data 60;
     if unat (pe_offset + 6) \<le> length data then do {
       lo \<leftarrow> rd8 data (unat (pe_offset + 4));
       hi \<leftarrow> rd8 data (unat (pe_offset + 5));
       snprintf_buf desc (''PE '' @ pe_arch_name (ucast lo OR push_bit 8 (ucast hi)) @ '' executable'')
     } else snprintf_buf desc ''PE executable''
   }"

definition e9_sig_describe :: "bytes ptr \<Rightarrow> E9Signature ptr \<Rightarrow> bytes ptr \<Rightarrow> bytes ptr ub" where
  "e9_sig_describe data sig desc =
     (case (data, sig, desc) of
        (Some data, Some sig, Some desc) \<Rightarrow>
          if desc = [] then Some (Some desc)
          else do {
            desc \<leftarrow> memcpy_to desc 0 [0];
            name \<leftarrow> sig_name sig;
            elf \<leftarrow> (if name = ''elf'' then e9_sig_validate_elf data else Some False);
            pe \<leftarrow> (if \<not> elf \<and> name = ''pe'' then e9_sig_validate_pe data else Some False);
            desc \<leftarrow> (if elf then describe_elf data desc
              else if pe then describe_pe data desc
              else do { s \<leftarrow> sig_description sig; snprintf_buf desc s });
            Some (Some desc)
          }
      | _ \<Rightarrow> Some desc)"

section \<open>The contract of the scanner\<close>

text \<open>A table entry is sound when its length field is the length of its pattern.\<close>

definition sig_ok :: "E9Signature \<Rightarrow> bool" where
  "sig_ok s \<longleftrightarrow> sig_name s \<noteq> None \<and> sig_description s \<noteq> None \<and>
     (case sig_magic s of None \<Rightarrow> True | Some m \<Rightarrow> sig_magic_len s = length m)"

definition usable :: "E9Signature \<Rightarrow> bool" where
  "usable s \<longleftrightarrow> sig_magic s \<noteq> None \<and> sig_magic_len s \<noteq> 0"

definition at_offset :: "E9Signature \<Rightarrow> bool" where
  "at_offset s \<longleftrightarrow> usable s \<and> 0 < sig_magic_offset s"

definition at_start :: "E9Signature \<Rightarrow> bool" where
  "at_start s \<longleftrightarrow> usable s \<and> sig_magic_offset s = 0 \<and> sig_short s"

definition anywhere :: "E9Signature \<Rightarrow> bool" where
  "anywhere s \<longleftrightarrow> usable s \<and> sig_magic_offset s = 0 \<and> \<not> sig_short s"

definition starts_with :: "nat \<Rightarrow> E9Signature \<Rightarrow> bool" where
  "starts_with i s \<longleftrightarrow> anywhere s \<and> unat (hd (the (sig_magic s))) = i"

definition occurs :: "bytes \<Rightarrow> nat \<Rightarrow> E9Signature \<Rightarrow> bool" where
  "occurs data pos s \<longleftrightarrow>
     pos + sig_magic_len s \<le> length data \<and> take (sig_magic_len s) (drop pos data) = the (sig_magic s)"

definition found :: "bytes \<Rightarrow> nat \<Rightarrow> string \<Rightarrow> E9Signature \<Rightarrow> E9SigMatch" where
  "found data offset suffix s =
     \<lparr>match_sig = s, match_offset = offset, match_size = 0, match_confidence = sig_confidence s,
      match_description = take 255 (the (sig_description s) @ suffix)\<rparr>"

text \<open>What a scan must report: one match for every occurrence of every signature of the table.\<close>

definition scan_spec :: "E9Signature list \<Rightarrow> bytes \<Rightarrow> E9SigMatch list" where
  "scan_spec db data =
     map (found data 0 '''') (filter (\<lambda>s. at_start s \<and> occurs data 0 s) db) @
     map (found data 0 '''') (filter (\<lambda>s. at_offset s \<and> occurs data (sig_magic_offset s) s) db) @
     concat (map (\<lambda>pos. map (found data pos (offset_suffix pos))
       (filter (\<lambda>s. anywhere s \<and> occurs data pos s) db)) [0 ..< length data])"

lemma check_sig_at_ok: "sig_ok s \<Longrightarrow> usable s \<Longrightarrow> check_sig_at data pos s = Some (occurs data pos s)"
  by (auto simp: sig_ok_def usable_def check_sig_at_def occurs_def memeq_def rd_region_def)

lemma record_match_ok:
  assumes "sig_ok s" and "0 < cap" and "length ms \<le> cap"
  shows "\<exists>cap'. record_match data s offset suffix (cap, ms) = Some (cap', ms @ [found data offset suffix s]) \<and>
    0 < cap' \<and> Suc (length ms) \<le> cap'"
  using assms by (cases ms) (auto simp: record_match_def push_def found_def estimate_size_def sig_ok_def Let_def)

text \<open>A loop that appends some matches for every element appends all of them.\<close>

lemma mfold_collect:
  assumes "\<And>x cap ms. x \<in> set xs \<Longrightarrow> 0 < cap \<Longrightarrow> length ms \<le> cap \<Longrightarrow>
      \<exists>cap'. f x (cap, ms) = Some (cap', ms @ g x) \<and> 0 < cap' \<and> length (ms @ g x) \<le> cap'"
    and "0 < cap" and "length ms \<le> cap"
  shows "\<exists>cap'. mfold f xs (cap, ms) = Some (cap', ms @ concat (map g xs)) \<and> 0 < cap' \<and>
    length (ms @ concat (map g xs)) \<le> (cap' :: nat)"
  using assms
proof (induction xs arbitrary: cap ms)
  case Nil
  then show ?case by simp
next
  case (Cons x xs)
  from Cons.prems(1) [of x cap ms] Cons.prems(2,3) obtain c1 where
    c1: "f x (cap, ms) = Some (c1, ms @ g x)" "0 < c1" "length (ms @ g x) \<le> c1" by auto
  have "\<exists>cap'. mfold f xs (c1, ms @ g x) = Some (cap', (ms @ g x) @ concat (map g xs)) \<and> 0 < cap' \<and>
      length ((ms @ g x) @ concat (map g xs)) \<le> cap'"
    by (rule Cons.IH) (use Cons.prems(1) c1 in auto)
  with c1(1) show ?case by auto
qed

lemma concat_map_if: "concat (map (\<lambda>x. if P x then [h x] else []) xs) = map h (filter P xs)"
  by (induction xs) auto

locale sig_index =
  fixes db :: "E9Signature list" and sc :: E9SigScanner
  assumes sound: "s \<in> set db \<Longrightarrow> sig_ok s"
    and starts: "short_sigs sc = filter at_start db"
    and offsets: "offset_sigs sc = map (\<lambda>s. (s, sig_magic_offset s)) (filter at_offset db)"
    and buckets: "i < 256 \<Longrightarrow> first_byte sc ! i = filter (starts_with i) db"
begin

lemma collect_shorts:
  assumes "0 < cap" and "length ms \<le> cap"
  shows "\<exists>cap'. mfold (scan_short data) (short_sigs sc) (cap, ms) =
      Some (cap', ms @ map (found data 0 '''') (filter (\<lambda>s. at_start s \<and> occurs data 0 s) db)) \<and> 0 < cap' \<and>
      length (ms @ map (found data 0 '''') (filter (\<lambda>s. at_start s \<and> occurs data 0 s) db)) \<le> cap'"
proof -
  let ?g = "\<lambda>s. if occurs data 0 s then [found data 0 '''' s] else []"
  have "\<exists>cap'. scan_short data s (cap, ms) = Some (cap', ms @ ?g s) \<and> 0 < cap' \<and> length (ms @ ?g s) \<le> cap'"
    if "s \<in> set (short_sigs sc)" "0 < cap" "length ms \<le> cap" for s cap ms
    using that record_match_ok [of s cap ms data 0 "''''"] sound
    by (auto simp: starts scan_short_def check_sig_at_ok at_start_def)
  from mfold_collect [of "short_sigs sc" "scan_short data" ?g, OF this assms]
  show ?thesis by (simp add: concat_map_if starts conj_commute)
qed

lemma collect_offsets:
  assumes "0 < cap" and "length ms \<le> cap"
  shows "\<exists>cap'. mfold (scan_offset data) (offset_sigs sc) (cap, ms) =
      Some (cap', ms @ map (found data 0 '''') (filter (\<lambda>s. at_offset s \<and> occurs data (sig_magic_offset s) s) db)) \<and> 0 < cap' \<and>
      length (ms @ map (found data 0 '''') (filter (\<lambda>s. at_offset s \<and> occurs data (sig_magic_offset s) s) db)) \<le> cap'"
proof -
  let ?P = "\<lambda>s. occurs data (sig_magic_offset s) s"
  let ?g = "\<lambda>s. if ?P s then [found data 0 '''' s] else []"
  have "\<exists>cap'. scan_offset data (s, sig_magic_offset s) (cap, ms) = Some (cap', ms @ ?g s) \<and> 0 < cap' \<and> length (ms @ ?g s) \<le> cap'"
    if "s \<in> set (filter at_offset db)" "0 < cap" "length ms \<le> cap" for s cap ms
    using that record_match_ok [of s cap ms data 0 "''''"] sound check_sig_at_ok [of s data "sig_magic_offset s"]
    by (auto simp: scan_offset_def at_offset_def occurs_def usable_def)
  from mfold_collect [of "filter at_offset db" "\<lambda>s. scan_offset data (s, sig_magic_offset s)" ?g, OF this assms]
  show ?thesis by (simp add: concat_map_if offsets mfold_map conj_commute)
qed

lemma collect_position:
  assumes "pos < length data" and "0 < cap" and "length ms \<le> cap"
  shows "\<exists>cap'. scan_pos sc data pos (cap, ms) =
      Some (cap', ms @ map (found data pos (offset_suffix pos)) (filter (\<lambda>s. anywhere s \<and> occurs data pos s) db)) \<and> 0 < cap' \<and>
      length (ms @ map (found data pos (offset_suffix pos)) (filter (\<lambda>s. anywhere s \<and> occurs data pos s) db)) \<le> cap'"
proof -
  let ?f = "found data pos (offset_suffix pos)"
  let ?g = "\<lambda>s. if occurs data pos s then [?f s] else []"
  let ?b = "filter (starts_with (unat (data ! pos))) db"
  have hd: "starts_with (unat (data ! pos)) s" if "s \<in> set db" "anywhere s" "occurs data pos s" for s
  proof -
    from that(2) obtain m where m: "sig_magic s = Some m" "sig_magic_len s \<noteq> 0"
      by (auto simp: anywhere_def usable_def)
    with sound [OF that(1)] have m: "sig_magic s = Some m" "sig_magic_len s = length m" "m \<noteq> []"
      by (auto simp: sig_ok_def)
    from that(3) m have "hd m = hd (take (length m) (drop pos data))" by (simp add: occurs_def)
    also have "\<dots> = data ! pos" using m(3) assms(1) by (simp add: hd_drop_conv_nth)
    finally show ?thesis using that(2) m by (simp add: starts_with_def)
  qed
  have eq: "filter (occurs data pos) ?b = filter (\<lambda>s. anywhere s \<and> occurs data pos s) db"
    unfolding filter_filter by (rule filter_cong) (use hd in \<open>auto simp: starts_with_def\<close>)
  have "\<exists>cap'. scan_bucket data pos s (cap, ms) = Some (cap', ms @ ?g s) \<and> 0 < cap' \<and> length (ms @ ?g s) \<le> cap'"
    if "s \<in> set ?b" "0 < cap" "length ms \<le> cap" for s cap ms
    using that record_match_ok [of s cap ms data pos "offset_suffix pos"] sound
    by (auto simp: scan_bucket_def check_sig_at_ok starts_with_def anywhere_def)
  from mfold_collect [of ?b "scan_bucket data pos" ?g, OF this assms(2,3)] assms(1) eq
  show ?thesis by (simp add: scan_pos_def rd8_def buckets concat_map_if)
qed

lemma scan_exact:
  assumes "data \<noteq> []"
  shows "e9_sig_scan (Some sc) (Some data) = Some (word_of_nat (length (scan_spec db data)), scan_spec db data)"
proof -
  let ?a = "map (found data 0 '''') (filter (\<lambda>s. at_start s \<and> occurs data 0 s) db)"
  let ?b = "map (found data 0 '''') (filter (\<lambda>s. at_offset s \<and> occurs data (sig_magic_offset s) s) db)"
  let ?g = "\<lambda>pos. map (found data pos (offset_suffix pos)) (filter (\<lambda>s. anywhere s \<and> occurs data pos s) db)"
  have init: "0 < (64 :: nat)" "length ([] :: E9SigMatch list) \<le> 64" by simp_all
  from collect_shorts [OF init] obtain c1 where
    c1: "mfold (scan_short data) (short_sigs sc) (64, []) = Some (c1, ?a)" "0 < c1" "length ?a \<le> c1" by auto
  from collect_offsets [OF c1(2,3), of data] obtain c2 where
    c2: "mfold (scan_offset data) (offset_sigs sc) (c1, ?a) = Some (c2, ?a @ ?b)" "0 < c2" "length (?a @ ?b) \<le> c2" by auto
  have step: "\<exists>cap'. scan_pos sc data pos (cap, ms) = Some (cap', ms @ ?g pos) \<and> 0 < cap' \<and> length (ms @ ?g pos) \<le> cap'"
    if "pos \<in> set [0 ..< length data]" "0 < cap" "length ms \<le> cap" for pos cap ms
    using collect_position [OF _ that(2,3), of pos data] that(1) by auto
  from mfold_collect [of "[0 ..< length data]" "scan_pos sc data" ?g, OF step c2(2,3)] obtain c3 where
    c3: "mfold (scan_pos sc data) [0 ..< length data] (c2, ?a @ ?b) = Some (c3, (?a @ ?b) @ concat (map ?g [0 ..< length data]))"
    by auto
  with c1(1) c2(1) assms show ?thesis by (simp add: e9_sig_scan_def scan_spec_def)
qed

end
section \<open>The scanner that is built\<close>

definition byte_values :: "nat list" where
  "byte_values = [0 ..< 256]"

lemma byte_values [simp]: "length byte_values = 256" "i < 256 \<Longrightarrow> byte_values ! i = i"
  by (simp_all only: byte_values_def length_upt nth_upt)

lemma byte_values_update: "i < 256 \<Longrightarrow> (map f byte_values)[i := y] = map (f(i := y)) byte_values"
  by (rule nth_equalityI) (auto simp: nth_list_update)

lemma replicate_byte_values: "replicate 256 x = map (\<lambda>i. x) byte_values"
  by (simp add: map_replicate_const)

text \<open>What \<open>e9_sig_scanner_create\<close> must produce for a table.\<close>

definition scanner_spec :: "E9Signature list \<Rightarrow> E9SigScanner" where
  "scanner_spec db = \<lparr>first_byte = map (\<lambda>i. filter (starts_with i) db) byte_values, short_sigs = filter at_start db,
     offset_sigs = map (\<lambda>s. (s, sig_magic_offset s)) (filter at_offset db)\<rparr>"

definition counts_spec :: "E9Signature list \<Rightarrow> sig_counts" where
  "counts_spec db = \<lparr>n_first = map (\<lambda>i. length (filter (starts_with i) db)) byte_values,
     n_short = length (filter at_start db), n_offset = length (filter at_offset db)\<rparr>"


text \<open>The four cases of the loop bodies.\<close>

lemma sig_cases [consumes 1, case_names skip offset start anywhere]:
  assumes "sig_ok s"
  obtains "\<not> usable s" "\<not> at_offset s" "\<not> at_start s" "\<not> anywhere s"
    | "usable s" "0 < sig_magic_offset s" "at_offset s" "\<not> at_start s" "\<not> anywhere s"
    | "usable s" "sig_magic_offset s = 0" "sig_short s" "\<not> at_offset s" "at_start s" "\<not> anywhere s"
    | m where "sig_magic s = Some m" "sig_magic_len s \<noteq> 0" "rd8 m 0 = Some (hd m)" "sig_magic_offset s = 0" "\<not> sig_short s"
        "\<not> at_offset s" "\<not> at_start s" "anywhere s"
proof -
  note groups = at_offset_def at_start_def anywhere_def
  consider (skip) "\<not> usable s" | (offset) "usable s" "sig_magic_offset s \<noteq> 0"
    | (start) "usable s" "sig_magic_offset s = 0" "sig_short s" | (anywhere) "usable s" "sig_magic_offset s = 0" "\<not> sig_short s"
    by blast
  then show ?thesis
  proof cases
    case anywhere
    with assms obtain m where m: "sig_magic s = Some m" "sig_magic_len s \<noteq> 0" "m \<noteq> []"
      by (auto simp: usable_def sig_ok_def)
    then have "rd8 m 0 = Some (hd m)" by (simp add: rd8_def hd_conv_nth)
    with anywhere m that(4) show ?thesis by (simp add: groups)
  qed (use that in \<open>simp_all add: groups\<close>)
qed

lemma starts_with_iff: "sig_magic s = Some m \<Longrightarrow> starts_with i s \<longleftrightarrow> anywhere s \<and> i = unat (hd m)"
  by (auto simp: starts_with_def)

lemma starts_with_anywhere [simp]: "\<not> anywhere s \<Longrightarrow> \<not> starts_with i s"
  by (simp add: starts_with_def)

lemma count_sig_snoc:
  assumes "sig_ok s"
  shows "count_sig s (counts_spec db) = Some (counts_spec (db @ [s]))"
  using assms
proof (cases rule: sig_cases)
  case skip
  then show ?thesis by (auto simp: count_sig_def counts_spec_def usable_def)
next
  case offset
  then show ?thesis by (auto simp: count_sig_def counts_spec_def usable_def)
next
  case start
  then show ?thesis by (auto simp: count_sig_def counts_spec_def usable_def)
next
  case (anywhere m)
  have "n_first (counts_spec (db @ [s])) =
      (map (\<lambda>i. length (filter (starts_with i) db)) byte_values)[unat (hd m) := length (filter (starts_with (unat (hd m))) db) + 1]"
    using anywhere by (auto simp: counts_spec_def byte_values_update starts_with_iff)
  with anywhere show ?thesis
    by (auto simp: count_sig_def counts_spec_def usable_def)
qed

lemma count_sigs:
  assumes "\<forall>s \<in> set db. sig_ok s"
  shows "mfold count_sig db \<lparr>n_first = replicate 256 0, n_short = 0, n_offset = 0\<rparr> = Some (counts_spec db)"
  using assms
proof (induction db rule: rev_induct)
  case Nil
  show ?case by (simp add: counts_spec_def replicate_byte_values)
next
  case (snoc s db)
  then show ?case by (simp add: mfold_append count_sig_snoc)
qed

lemma filter_less: "P x \<Longrightarrow> length (filter P xs) < length (filter P (xs @ x # ys))"
  by simp

lemma add_sig_snoc:
  assumes "sig_ok s"
  shows "add_sig (counts_spec (db @ s # rest)) s (scanner_spec db) = Some (scanner_spec (db @ [s]))"
  using assms
proof (cases rule: sig_cases)
  case skip
  then show ?thesis by (auto simp: add_sig_def scanner_spec_def usable_def)
next
  case offset
  then show ?thesis
    by (auto simp: add_sig_def scanner_spec_def counts_spec_def push_def usable_def)
next
  case start
  then show ?thesis
    by (auto simp: add_sig_def scanner_spec_def counts_spec_def push_def slots_def usable_def)
next
  case (anywhere m)
  let ?i = "unat (hd m)"
  have i: "?i < 256" by simp
  have "first_byte (scanner_spec (db @ [s])) =
      (map (\<lambda>i. filter (starts_with i) db) byte_values)[?i := filter (starts_with ?i) db @ [s]]"
    using anywhere by (auto simp: scanner_spec_def byte_values_update starts_with_iff)
  moreover have "push (slots (n_first (counts_spec (db @ s # rest)) ! ?i)) (first_byte (scanner_spec db) ! ?i) s =
      Some (filter (starts_with ?i) db @ [s])"
    using anywhere i by (simp add: push_def slots_def counts_spec_def scanner_spec_def starts_with_iff)
  ultimately show ?thesis
    using anywhere by (auto simp: add_sig_def scanner_spec_def usable_def)
qed

lemma add_sigs:
  assumes "\<forall>s \<in> set xs. sig_ok s"
  shows "mfold (add_sig (counts_spec (xs @ ys))) xs \<lparr>first_byte = replicate 256 [], short_sigs = [], offset_sigs = []\<rparr> =
    Some (scanner_spec xs)"
  using assms
proof (induction xs arbitrary: ys rule: rev_induct)
  case Nil
  show ?case by (simp add: scanner_spec_def replicate_byte_values)
next
  case (snoc s xs)
  from snoc.IH [of "s # ys"] snoc.prems show ?case by (simp add: mfold_append add_sig_snoc)
qed

lemma scanner_of_ok: "\<forall>s \<in> set db. sig_ok s \<Longrightarrow> scanner_of db = Some (scanner_spec db)"
  using add_sigs [of db "[]"] by (simp add: scanner_of_def count_sigs)

text \<open>The database of the repository.\<close>

lemma sig_db_eq: "sig_db = butlast E9_SIGNATURE_DB"
  by (simp add: sig_db_def E9_NUM_SIGNATURES_def butlast_conv_take)

lemma sig_db_ok: "\<forall>s \<in> set sig_db. sig_ok s"
  by (simp add: sig_db_eq E9_SIGNATURE_DB_def sig_ok_def sig_entries)

interpretation sig_db: sig_index sig_db "scanner_spec sig_db"
  by unfold_locales (use sig_db_ok in \<open>auto simp: scanner_spec_def\<close>)

lemma create_ok: "e9_sig_scanner_create = Some (Some (scanner_spec sig_db))"
  by (simp add: e9_sig_scanner_create_def scanner_of_ok sig_db_ok)

section \<open>Properties\<close>

text \<open>
  C13.  Refinement: building the scanner for the database of the repository stays inside the
  arrays allocated from the counting pass, and scanning any non-empty buffer with it reports
  exactly what the unindexed specification demands, in its order: the matches of the
  start-only signatures, then those of the signatures at a fixed offset, then for every
  position every signature that occurs there.  The count is the number of matches, reduced to
  32 bits.
\<close>

theorem sig_scan_refines:
  assumes "data \<noteq> []"
  shows "\<exists>sc. e9_sig_scanner_create = Some (Some sc) \<and>
    e9_sig_scan (Some sc) (Some data) = Some (word_of_nat (length (scan_spec sig_db data)), scan_spec sig_db data)"
  by (intro exI conjI) (rule create_ok, rule sig_db.scan_exact [OF assms])

theorem sig_scan_refines_witness:
  "\<exists>sc. e9_sig_scanner_create = Some (Some sc) \<and>
    e9_sig_scan (Some sc) (Some [0x4D, 0x5A]) = Some (word_of_nat (length (scan_spec sig_db [0x4D, 0x5A])), scan_spec sig_db [0x4D, 0x5A])"
  by (rule sig_scan_refines) simp

end
