(* ===== verification/E9MultiArch.thy ===== *)
theory E9MultiArch
  imports E9DisasmX86 E9DisasmA64
begin

text \<open>
  The architecture-independent disassembler of \<open>vendor/e9vendor.c\<close>, which wraps the two
  decoders, and its listings.  A wrapped instruction has its own fixed-size buffers: 16 bytes of
  code, 24 characters of mnemonic and 80 of text; the decoders use 15 bytes of code.

  The enumerations of \<open>vendor/e9vendor.h\<close> have constructors with the prefix \<open>V_\<close>: the header of
  the analysis engine declares another type \<open>E9Arch\<close> with other values.  The union of the two
  contexts is a record of both, of which the code uses the one that belongs to the architecture.
\<close>

section \<open>Contexts\<close>

datatype VArch =
  V_ARCH_UNKNOWN | V_ARCH_X86 | V_ARCH_X86_64 | V_ARCH_ARM | V_ARCH_ARM64 | V_ARCH_MIPS | V_ARCH_RISCV | V_ARCH_WASM

record E9Disasm =
  dis_arch :: VArch
  dis_x86 :: "E9X86Disasm ptr"
  dis_a64 :: "E9A64Disasm ptr"

record E9Instruction =
  v_address :: u64
  v_length :: u8
  v_bytes :: bytes
  v_mnemonic :: string
  v_text :: bytes
  v_is_branch :: bool
  v_is_call :: bool
  v_is_ret :: bool
  v_is_conditional :: bool
  v_branch_target :: u64
  v_reads_memory :: bool
  v_writes_memory :: bool

definition zero_instruction :: E9Instruction where
  "zero_instruction = \<lparr>v_address = 0, v_length = 0, v_bytes = replicate 16 0, v_mnemonic = '''', v_text = replicate 80 0,
     v_is_branch = False, v_is_call = False, v_is_ret = False, v_is_conditional = False, v_branch_target = 0,
     v_reads_memory = False, v_writes_memory = False\<rparr>"

definition e9_disasm_create :: "VArch \<Rightarrow> E9Disasm ptr" where
  "e9_disasm_create arch =
     (case arch of
        V_ARCH_X86 \<Rightarrow> Some \<lparr>dis_arch = arch, dis_x86 = e9_x86_disasm_create 32, dis_a64 = None\<rparr>
      | V_ARCH_X86_64 \<Rightarrow> Some \<lparr>dis_arch = arch, dis_x86 = e9_x86_disasm_create 64, dis_a64 = None\<rparr>
      | V_ARCH_ARM64 \<Rightarrow> Some \<lparr>dis_arch = arch, dis_x86 = None, dis_a64 = e9_a64_disasm_create\<rparr>
      | _ \<Rightarrow> None)"

section \<open>One instruction\<close>

text \<open>\<open>E9_STRCPY_SAFE\<close> on a buffer: the source must be terminated inside its object.\<close>

definition strcpy_safe :: "bytes \<Rightarrow> bytes \<Rightarrow> bytes ub" where
  "strcpy_safe dst src =
     (if 0 \<in> set src then memcpy_to dst 0 (take (length dst - 1) (c_str src) @ [0]) else None)"

definition wrap_x86 :: "E9X86Insn \<Rightarrow> E9Instruction ub" where
  "wrap_x86 i = do {
     src \<leftarrow> rd_region (i_bytes i) 0 (unat (i_length i));
     bs \<leftarrow> memcpy_to (v_bytes zero_instruction) 0 src;
     text \<leftarrow> strcpy_safe (v_text zero_instruction) (i_text i);
     Some \<lparr>v_address = i_address i, v_length = i_length i, v_bytes = bs, v_mnemonic = take 23 (i_mnemonic i), v_text = text,
       v_is_branch = i_is_branch i, v_is_call = i_is_call i, v_is_ret = i_is_ret i, v_is_conditional = i_is_conditional i,
       v_branch_target = i_branch_target i, v_reads_memory = i_reads_memory i, v_writes_memory = i_writes_memory i\<rparr>
   }"

definition wrap_a64 :: "E9A64Insn \<Rightarrow> E9Instruction ub" where
  "wrap_a64 i = do {
     bs \<leftarrow> memcpy_to (v_bytes zero_instruction) 0 (le_bytes 4 (unat (a_encoding i)));
     text \<leftarrow> strcpy_safe (v_text zero_instruction) (a_text i);
     Some \<lparr>v_address = a_address i, v_length = 4, v_bytes = bs, v_mnemonic = take 23 (a_mnemonic i), v_text = text,
       v_is_branch = a_is_branch i, v_is_call = a_is_call i, v_is_ret = a_is_ret i, v_is_conditional = a_is_conditional i,
       v_branch_target = a_branch_target i, v_reads_memory = a_reads_memory i, v_writes_memory = a_writes_memory i\<rparr>
   }"

text \<open>
  The local instruction of the wrapped decoder is not initialised; both decoders clear it before
  they use it.  \<open>insn\<close> is the previous content of the output.
\<close>

definition e9_disasm_one :: "E9Disasm ptr \<Rightarrow> bytes ptr \<Rightarrow> u64 \<Rightarrow> E9Instruction \<Rightarrow> (int \<times> E9Instruction) ub" where
  "e9_disasm_one dis code address insn =
     (case (dis, code) of
        (Some d, Some c) \<Rightarrow>
          if dis_arch d = V_ARCH_X86 \<or> dis_arch d = V_ARCH_X86_64 then do {
            (len, x86_insn) \<leftarrow> e9_x86_disasm_one (dis_x86 d) (Some c) address zero_insn;
            if len \<le> 0 then Some (0, zero_instruction)
            else do { insn \<leftarrow> wrap_x86 x86_insn; Some (len, insn) }
          }
          else if dis_arch d = V_ARCH_ARM64 then do {
            (len, a64_insn) \<leftarrow> e9_a64_disasm_one (Some c) address zero_a64_insn;
            if len \<noteq> 4 then Some (0, zero_instruction)
            else do { insn \<leftarrow> wrap_a64 a64_insn; Some (4, insn) }
          }
          else Some (0, zero_instruction)
      | _ \<Rightarrow> Some (0, insn))"

section \<open>A buffer\<close>

fun disasm_many_loop :: "E9Disasm \<Rightarrow> nat \<Rightarrow> bytes \<Rightarrow> nat \<Rightarrow> u64 \<Rightarrow> E9Instruction list ub" where
  "disasm_many_loop dis 0 code offset address = Some []"
| "disasm_many_loop dis (Suc k) code offset address =
     (if offset < length code then do {
        (len, insn) \<leftarrow> e9_disasm_one (Some dis) (Some (drop offset code)) (address + word_of_nat offset) zero_instruction;
        if len \<le> 0 then Some []
        else do {
          rest \<leftarrow> disasm_many_loop dis k code (offset + nat len) address;
          Some (insn # rest)
        }
      } else Some [])"

text \<open>The array of \<open>count\<close> instructions, of which the first \<open>decoded\<close> are returned here.\<close>

definition e9_disasm_many :: "E9Disasm ptr \<Rightarrow> bytes ptr \<Rightarrow> u64 \<Rightarrow> nat \<Rightarrow> (nat \<times> E9Instruction list) ub" where
  "e9_disasm_many dis code address count =
     (case (dis, code) of
        (Some d, Some c) \<Rightarrow> do {
          insns \<leftarrow> disasm_many_loop d count c 0 address;
          Some (length insns, insns)
        }
      | _ \<Rightarrow> Some (0, []))"

section \<open>Listings\<close>

text \<open>
  \<open>p < end - margin\<close> for pointers into the buffer, as addresses.  Every line is appended by a
  sequence of \<open>p += snprintf(p, end - p, ...)\<close>.
\<close>

definition room :: "nat \<Rightarrow> nat \<Rightarrow> nat \<Rightarrow> bool" where
  "room margin endp p \<longleftrightarrow> int p < int endp - int margin"

definition ascii_char :: "u8 \<Rightarrow> char" where
  "ascii_char c = (if 0x20 \<le> c \<and> c < 0x7F then char_of (unat c) else CHR ''.'')"

definition hexdump_cell :: "bytes \<Rightarrow> nat \<Rightarrow> nat \<Rightarrow> string list" where
  "hexdump_cell data i j =
     (if i + j < length data then [hex_pad 2 (unat (data ! (i + j))) @ '' ''] else [''   '']) @
     (if j = 7 then ['' ''] else [])"

definition hexdump_line :: "bytes \<Rightarrow> u64 \<Rightarrow> nat \<Rightarrow> string list" where
  "hexdump_line data base i =
     [hex_pad 8 (unat (base + word_of_nat i)) @ ''  ''] @
     concat (map (hexdump_cell data i) [0, 1, 2, 3, 4, 5, 6, 7, 8, 9, 10, 11, 12, 13, 14, 15]) @
     ['' |''] @ map (\<lambda>c. [ascii_char c]) (take 16 (drop i data)) @ [''|'' @ [CHR 0x0A]]"

function hexdump_loop :: "bytes \<Rightarrow> u64 \<Rightarrow> nat \<Rightarrow> nat \<Rightarrow> nat \<times> bytes \<Rightarrow> (nat \<times> bytes) ub" where
  "hexdump_loop data base endp i pb =
     (if i < length data \<and> room 80 endp (fst pb) then do {
        pb \<leftarrow> mfold (put endp) (hexdump_line data base i) pb;
        hexdump_loop data base endp (i + 16) pb
      } else Some pb)"
  by pat_completeness auto
termination by (relation "measure (\<lambda>(data, base, endp, i, pb). length data - i)") auto

declare hexdump_loop.simps [simp del]

definition e9_hexdump :: "bytes ptr \<Rightarrow> u64 \<Rightarrow> bytes ptr \<Rightarrow> bytes ptr ub" where
  "e9_hexdump data base out =
     (case (data, out) of
        (Some data, Some buf) \<Rightarrow>
          if buf = [] then Some out
          else do {
            (p, buf) \<leftarrow> hexdump_loop data base (length buf - 1) 0 (0, buf);
            buf \<leftarrow> memcpy_to buf p [0];
            Some (Some buf)
          }
      | _ \<Rightarrow> Some out)"

definition dump_line :: "bytes \<Rightarrow> u64 \<Rightarrow> nat \<Rightarrow> nat \<Rightarrow> E9Instruction \<Rightarrow> string list" where
  "dump_line code address offset len insn =
     [hex_pad 8 (unat (address + word_of_nat offset)) @ '':  ''] @
     map (\<lambda>b. hex_pad 2 (unat b) @ '' '') (take (min len 8) (drop offset code)) @
     replicate (8 - len) ''   '' @
     ['' '' @ map (\<lambda>b. char_of (unat b)) (c_str (v_text insn)) @ [CHR 0x0A]]"

text \<open>The fuel is the number of bytes left: every decoded instruction has at least one.\<close>

fun dump_loop :: "nat \<Rightarrow> E9Disasm \<Rightarrow> bytes \<Rightarrow> u64 \<Rightarrow> nat \<Rightarrow> nat \<Rightarrow> nat \<times> bytes \<Rightarrow> (nat \<times> bytes) ub" where
  "dump_loop 0 dis code address endp offset pb = Some pb"
| "dump_loop (Suc fuel) dis code address endp offset pb =
     (if offset < length code \<and> room 100 endp (fst pb) then do {
        (len, insn) \<leftarrow> e9_disasm_one (Some dis) (Some (drop offset code)) (address + word_of_nat offset) zero_instruction;
        if len \<le> 0 then Some pb
        else do {
          pb \<leftarrow> mfold (put endp) (dump_line code address offset (nat len) insn) pb;
          dump_loop fuel dis code address endp (offset + nat len) pb
        }
      } else Some pb)"

definition e9_disasm_dump :: "E9Disasm ptr \<Rightarrow> bytes ptr \<Rightarrow> u64 \<Rightarrow> bytes ptr \<Rightarrow> bytes ptr ub" where
  "e9_disasm_dump dis code address out =
     (case (dis, code, out) of
        (Some d, Some c, Some buf) \<Rightarrow>
          if buf = [] then Some out
          else do {
            (p, buf) \<leftarrow> dump_loop (length c) d c address (length buf - 1) 0 (0, buf);
            buf \<leftarrow> memcpy_to buf p [0];
            Some (Some buf)
          }
      | _ \<Rightarrow> Some out)"

section \<open>What the wrapper preserves\<close>

text \<open>The wrapped instruction carries the flags, the code and the text of the decoded one.\<close>

definition wraps :: "E9X86Insn \<Rightarrow> bytes \<Rightarrow> nat \<Rightarrow> E9Instruction \<Rightarrow> bool" where
  "wraps i code n w \<longleftrightarrow> v_address w = i_address i \<and> v_length w = word_of_nat n \<and>
     take n (v_bytes w) = take n code \<and> length (v_bytes w) = 16 \<and> c_str (v_text w) = c_str (i_text i) \<and> length (v_text w) = 80 \<and>
     v_mnemonic w = take 23 (i_mnemonic i) \<and> v_is_branch w = i_is_branch i \<and> v_is_call w = i_is_call i \<and>
     v_is_ret w = i_is_ret i \<and> v_is_conditional w = i_is_conditional i \<and> v_branch_target w = i_branch_target i \<and>
     v_reads_memory w = i_reads_memory i \<and> v_writes_memory w = i_writes_memory i"

lemma c_str_terminated: "0 \<notin> set r \<Longrightarrow> c_str (r @ 0 # rest) = r"
  by (induction r) (auto simp: c_str_def)

lemma zero_notin_c_str: "0 \<notin> set (c_str s)"
  using set_takeWhileD [of 0 "\<lambda>b. b \<noteq> 0" s] by (auto simp: c_str_def)

lemma c_str_zero: "c_str (take n (c_str s) @ 0 # rest) = take n (c_str s)"
  by (rule c_str_terminated) (use zero_notin_c_str in \<open>auto dest: in_set_takeD\<close>)

lemma length_c_str: "length (c_str s) \<le> length s"
  by (simp add: c_str_def length_takeWhile_le)

lemma strcpy_safe_ok:
  assumes "0 \<in> set src" and "length src \<le> length dst"
  shows "\<exists>t. strcpy_safe dst src = Some t \<and> c_str t = c_str src \<and> length t = length dst"
proof -
  have "length (c_str src) < length src"
  proof (rule ccontr)
    assume "\<not> ?thesis"
    with length_c_str [of src] have "length (takeWhile (\<lambda>b. b \<noteq> 0) src) = length src" by (simp add: c_str_def)
    then have "takeWhile (\<lambda>b. b \<noteq> 0) src = src" using takeWhile_eq_take [of "\<lambda>b. b \<noteq> 0" src] by simp
    then show False using assms(1) set_takeWhileD by fastforce
  qed
  with assms show ?thesis
    using c_str_zero [of "length dst - 1" src "drop (length (c_str src) + 1) dst"]
    by (auto simp: strcpy_safe_def memcpy_to_def)
qed

lemma described_text: "described code a n i \<Longrightarrow> 0 \<in> set (i_text i) \<and> length (i_text i) = 64"
  by (auto simp: described_def)

lemma wrap_x86_ok:
  assumes "described code a n i" and "n \<le> 15" and "n \<le> length code"
  shows "\<exists>w. wrap_x86 i = Some w \<and> wraps i code n w"
proof -
  have n: "unat (i_length i) = n" "i_length i = word_of_nat n" "take n (i_bytes i) = take n code" "length (i_bytes i) = 15"
    using assms by (auto simp: described_def unat_of_nat)
  from strcpy_safe_ok [of "i_text i" "v_text zero_instruction"] described_text [OF assms(1)] obtain t where
    "strcpy_safe (v_text zero_instruction) (i_text i) = Some t" "c_str t = c_str (i_text i)" "length t = 80"
    by (auto simp: zero_instruction_def)
  with n assms show ?thesis
    by (auto simp: wrap_x86_def wraps_def rd_region_def memcpy_to_def zero_instruction_def)
qed

text \<open>
  With more than 15 bytes the wrapper copies from beyond the 15 bytes the decoder has kept.
\<close>

lemma wrap_x86_long: "described code a n i \<Longrightarrow> 15 < n mod 256 \<Longrightarrow> wrap_x86 i = None"
  by (simp add: wrap_x86_def rd_region_def described_def unat_of_nat)

section \<open>One instruction\<close>

definition x86_dis :: "VArch \<Rightarrow> E9X86Disasm \<Rightarrow> E9Disasm" where
  "x86_dis arch ctx = \<lparr>dis_arch = arch, dis_x86 = Some ctx, dis_a64 = None\<rparr>"

definition x86_family :: "VArch \<Rightarrow> bool" where
  "x86_family arch \<longleftrightarrow> arch = V_ARCH_X86 \<or> arch = V_ARCH_X86_64"

lemma disasm_one_wraps:
  assumes "x86_family arch" and "length code \<le> X86_MAX" and "code \<noteq> []"
  shows "\<exists>n i. e9_x86_disasm_one (Some ctx) (Some code) a zero_insn = Some (int n, i) \<and> 0 < n \<and> n \<le> length code \<and>
    x86_len ctx code a = n \<and> described code a n i \<and>
    e9_disasm_one (Some (x86_dis arch ctx)) (Some code) a out = map_option (\<lambda>w. (int n, w)) (wrap_x86 i)"
proof -
  from disasm_one_ok [OF assms(2,3), of ctx a zero_insn] obtain n i where
    i: "e9_x86_disasm_one (Some ctx) (Some code) a zero_insn = Some (int n, i)" "0 < n" "n \<le> length code" "described code a n i"
    by auto
  then have "e9_disasm_one (Some (x86_dis arch ctx)) (Some code) a out = map_option (\<lambda>w. (int n, w)) (wrap_x86 i)"
    using assms(1) by (cases "wrap_x86 i") (auto simp: e9_disasm_one_def x86_dis_def x86_family_def)
  with i show ?thesis by (intro exI [of _ n] exI [of _ i]) (simp add: x86_len_def)
qed

lemma create_x86: "\<exists>ctx. e9_disasm_create V_ARCH_X86 = Some (x86_dis V_ARCH_X86 ctx) \<and> d_mode ctx = 32"
  "\<exists>ctx. e9_disasm_create V_ARCH_X86_64 = Some (x86_dis V_ARCH_X86_64 ctx) \<and> d_mode ctx = 64"
  by (auto simp: e9_disasm_create_def e9_x86_disasm_create_def x86_dis_def)

section \<open>A buffer\<close>

text \<open>No instruction of the code is longer than the buffer of the decoder.\<close>

definition short_insns :: "E9X86Disasm \<Rightarrow> bytes \<Rightarrow> bool" where
  "short_insns ctx code \<longleftrightarrow> length code \<le> X86_MAX \<and> (\<forall>off a. x86_len ctx (drop off code) a \<le> 15)"

lemma short_insns_drop: "short_insns ctx code \<Longrightarrow> short_insns ctx (drop n code)"
  by (auto simp: short_insns_def)

lemma short_insns_small:
  assumes "length code \<le> 15"
  shows "short_insns ctx code"
proof -
  have "x86_len ctx (drop off code) a \<le> 15" for off a
  proof (cases "drop off code = []")
    case True
    then show ?thesis by (simp add: x86_len_def e9_x86_disasm_one_def)
  next
    case False
    have "length (drop off code) \<le> X86_MAX" using assms by (simp add: X86_MAX_def)
    from disasm_one_ok [OF this False, of ctx a zero_insn] obtain n i where
      "e9_x86_disasm_one (Some ctx) (Some (drop off code)) a zero_insn = Some (int n, i)" "n \<le> length (drop off code)" by auto
    then show ?thesis using assms by (simp add: x86_len_def)
  qed
  moreover have "length code \<le> X86_MAX" using assms by (simp add: X86_MAX_def)
  ultimately show ?thesis by (simp add: short_insns_def)
qed

lemma short_one:
  assumes "x86_family arch" and "short_insns ctx code" and "code \<noteq> []"
  shows "\<exists>i w. e9_x86_disasm_one (Some ctx) (Some code) a zero_insn = Some (int (x86_len ctx code a), i) \<and>
    wrap_x86 i = Some w \<and> wraps i code (x86_len ctx code a) w \<and> i_address i = a \<and>
    e9_disasm_one (Some (x86_dis arch ctx)) (Some code) a out = Some (int (x86_len ctx code a), w) \<and>
    0 < x86_len ctx code a \<and> x86_len ctx code a \<le> length code"
proof -
  have short: "length code \<le> X86_MAX" "\<forall>off a. x86_len ctx (drop off code) a \<le> 15"
    using assms(2) by (simp_all add: short_insns_def)
  then have "x86_len ctx (drop 0 code) a \<le> 15" by blast
  with short(1) disasm_one_wraps [OF assms(1) _ assms(3), of ctx a out] obtain n i where
    i: "e9_x86_disasm_one (Some ctx) (Some code) a zero_insn = Some (int n, i)" "0 < n" "n \<le> length code"
      "x86_len ctx code a = n" "described code a n i" "n \<le> 15"
      "e9_disasm_one (Some (x86_dis arch ctx)) (Some code) a out = map_option (\<lambda>w. (int n, w)) (wrap_x86 i)"
    by auto
  from wrap_x86_ok [OF i(5,6,3)] obtain w where "wrap_x86 i = Some w" "wraps i code n w" by auto
  with i show ?thesis by (auto simp: described_def)
qed

text \<open>The wrapper is a decoder in the sense of the interface, and its loop covers a buffer.\<close>

interpretation many: decoder "\<lambda>code a. e9_disasm_one (Some (x86_dis V_ARCH_X86_64 ctx)) (Some code) a zero_instruction"
    "disasm_many_loop (x86_dis V_ARCH_X86_64 ctx)" 1 "short_insns ctx" v_address "x86_len ctx" for ctx
proof
  show "\<exists>w. e9_disasm_one (Some (x86_dis V_ARCH_X86_64 ctx)) (Some code) a zero_instruction = Some (int (x86_len ctx code a), w) \<and>
      v_address w = a \<and> 0 < x86_len ctx code a \<and> x86_len ctx code a \<le> length code"
    if "short_insns ctx code" "1 \<le> length code" for code a
  proof -
    from that(2) have "code \<noteq> []" by auto
    from short_one [OF _ that(1) this, of V_ARCH_X86_64 a zero_instruction] show ?thesis
      by (auto simp: x86_family_def wraps_def)
  qed
  show "disasm_many_loop (x86_dis V_ARCH_X86_64 ctx) k code off a = Some []" if "k = 0 \<or> length code < off + 1" for k code off a
    using that by (cases k) auto
  show "disasm_many_loop (x86_dis V_ARCH_X86_64 ctx) (Suc k) code off a =
      map_option (\<lambda>is. i # is) (disasm_many_loop (x86_dis V_ARCH_X86_64 ctx) k code (off + n) a)"
    if "off + 1 \<le> length code" "0 < n"
      "e9_disasm_one (Some (x86_dis V_ARCH_X86_64 ctx)) (Some (drop off code)) (a + word_of_nat off) zero_instruction = Some (int n, i)"
    for k code off a n i
    using that by (cases "disasm_many_loop (x86_dis V_ARCH_X86_64 ctx) k code (off + n) a") auto
qed (auto simp: short_insns_drop)

text \<open>Step by step it wraps what the loop of the x86 decoder produces.\<close>

lemma many_simulates:
  assumes "x86_family arch" and "short_insns ctx code" and "x86_disasm_loop ctx k code off a = Some is" and "off \<le> length code"
  shows "\<exists>ws. disasm_many_loop (x86_dis arch ctx) k code off a = Some ws \<and> list_all2 (\<lambda>i w. wrap_x86 i = Some w) is ws"
  using assms(3,4)
proof (induction k arbitrary: off "is")
  case 0
  then show ?case by simp
next
  case (Suc k)
  show ?case
  proof (cases "off < length code")
    case False
    with Suc.prems show ?thesis by simp
  next
    case True
    let ?c = "drop off code"
    from True have "?c \<noteq> []" by simp
    from short_one [OF assms(1) short_insns_drop [OF assms(2)] this, of "a + word_of_nat off" zero_instruction] obtain i w where
      iw: "e9_x86_disasm_one (Some ctx) (Some ?c) (a + word_of_nat off) zero_insn = Some (int (x86_len ctx ?c (a + word_of_nat off)), i)"
        "wrap_x86 i = Some w"
        "e9_disasm_one (Some (x86_dis arch ctx)) (Some ?c) (a + word_of_nat off) zero_instruction =
          Some (int (x86_len ctx ?c (a + word_of_nat off)), w)"
        "0 < x86_len ctx ?c (a + word_of_nat off)" "x86_len ctx ?c (a + word_of_nat off) \<le> length ?c"
      by auto
    let ?n = "x86_len ctx ?c (a + word_of_nat off)"
    from Suc.prems(1) True iw(1,4) obtain js where
      js: "x86_disasm_loop ctx k code (off + ?n) a = Some js" "is = i # js"
      by (auto simp: Option.bind_eq_Some_conv)
    have "off + ?n \<le> length code" using iw(5) True by simp
    from Suc.IH [OF js(1) this] obtain ws where
      "disasm_many_loop (x86_dis arch ctx) k code (off + ?n) a = Some ws" "list_all2 (\<lambda>i w. wrap_x86 i = Some w) js ws" by auto
    with iw True js(2) show ?thesis by auto
  qed
qed

section \<open>Properties\<close>

text \<open>
  Refinement: \<open>e9_disasm_many\<close> on x86 code returns, instruction by instruction, what the
  x86 decoder returns for the same buffer, address and count, copied into its own format, as
  long as no instruction is longer than 15 bytes; with room for one instruction per byte these
  instructions cover the buffer.
\<close>

theorem disasm_many_refines:
  assumes "short_insns ctx code" and "code \<noteq> []"
  shows "\<exists>is ws. e9_x86_disasm (Some ctx) (Some code) a count = Some (length is, is) \<and>
    e9_disasm_many (Some (x86_dis V_ARCH_X86_64 ctx)) (Some code) a count = Some (length is, ws) \<and>
    list_all2 (\<lambda>i w. wrap_x86 i = Some w) is ws \<and>
    (length code \<le> count \<longrightarrow> contiguous v_address (len_at (x86_len ctx) code a) a 0 ws \<and>
      covered (len_at (x86_len ctx) code a) 0 ws = length code)"
proof -
  have "length code \<le> X86_MAX" using assms(1) by (simp add: short_insns_def)
  from x86.loop_total [OF this, of 0 ctx count a] obtain "is" where "is": "x86_disasm_loop ctx count code 0 a = Some is" by auto
  from many_simulates [OF _ assms(1) "is"] obtain ws where
    ws: "disasm_many_loop (x86_dis V_ARCH_X86_64 ctx) count code 0 a = Some ws" "list_all2 (\<lambda>i w. wrap_x86 i = Some w) is ws"
    by (auto simp: x86_family_def)
  have "contiguous v_address (len_at (x86_len ctx) code a) a 0 ws \<and> covered (len_at (x86_len ctx) code a) 0 ws = length code"
    if "length code \<le> count"
    using many.loop_complete [OF assms(1) that, of a] ws(1) by auto
  with "is" ws assms(2) list_all2_lengthD [OF ws(2)] show ?thesis
    by (intro exI [of _ "is"] exI [of _ ws]) (simp add: e9_x86_disasm_def e9_disasm_many_def)
qed

theorem disasm_many_refines_witness:
  "\<exists>is ws. e9_x86_disasm (Some \<lparr>d_mode = 64\<rparr>) (Some [0x55, 0x48, 0x89, 0xE5, 0xC3]) 0x1000 8 = Some (length is, is) \<and>
    e9_disasm_many (Some (x86_dis V_ARCH_X86_64 \<lparr>d_mode = 64\<rparr>)) (Some [0x55, 0x48, 0x89, 0xE5, 0xC3]) 0x1000 8 = Some (length is, ws) \<and>
    list_all2 (\<lambda>i w. wrap_x86 i = Some w) is ws"
  using disasm_many_refines [of "\<lparr>d_mode = 64\<rparr>" "[0x55, 0x48, 0x89, 0xE5, 0xC3]" "0x1000" 8] short_insns_small [of "[0x55, 0x48, 0x89, 0xE5, 0xC3]"]
  by auto

text \<open>
  An instruction of more than 15 bytes is an overflow: the wrapper copies \<open>length\<close> bytes
  although the decoder has stored 15 and its own array holds 16.  Redundant prefixes make such an
  instruction from any input; the decoder itself accepts it.
\<close>

theorem disasm_one_overflow:
  "map_option fst (e9_x86_disasm_one (e9_x86_disasm_create 64) (Some (replicate 15 0x66 @ [0x90])) 0x1000 zero_insn) = Some 16 \<and>
   e9_disasm_one (e9_disasm_create V_ARCH_X86_64) (Some (replicate 15 0x66 @ [0x90])) 0x1000 zero_instruction = None \<and>
   e9_disasm_one (e9_disasm_create V_ARCH_X86_64) (Some (replicate 14 0x66 @ [0x90])) 0x1000 zero_instruction \<noteq> None"
proof (intro conjI)
  show "map_option fst (e9_x86_disasm_one (e9_x86_disasm_create 64) (Some (replicate 15 0x66 @ [0x90])) 0x1000 zero_insn) = Some 16"
    by code_simp
  show "e9_disasm_one (e9_disasm_create V_ARCH_X86_64) (Some (replicate 15 0x66 @ [0x90])) 0x1000 zero_instruction = None"
    by code_simp
  show "e9_disasm_one (e9_disasm_create V_ARCH_X86_64) (Some (replicate 14 0x66 @ [0x90])) 0x1000 zero_instruction \<noteq> None"
    by code_simp
qed

section \<open>Hex dump\<close>

definition hexdump_text :: "bytes \<Rightarrow> u64 \<Rightarrow> nat \<Rightarrow> string" where
  "hexdump_text data base k = concat (map (\<lambda>j. concat (hexdump_line data base (16 * j))) [0 ..< k])"

lemma length_hexdump_cell: "length (concat (hexdump_cell data i j)) = (if j = 7 then 4 else 3)"
proof -
  have "length (hex (unat (data ! (i + j)))) \<le> 2" using length_hex_u8 by simp
  then show ?thesis by (auto simp: hexdump_cell_def length_hex_pad)
qed

lemma length_hexdump_line:
  assumes "unat base + i < 2 ^ 32"
  shows "length (concat (hexdump_line data base i)) \<le> 79"
proof -
  have "unat (word_of_nat i :: u64) = i" using assms by (simp add: unat_of_nat)
  then have "unat (base + word_of_nat i) = unat base + i"
    using assms by (subst unat_add_small) simp_all
  then have "length (hex (unat (base + word_of_nat i))) \<le> 8"
    using length_hex_le [of "unat base + i" 8] assms by simp
  moreover have "length (concat (concat (map (hexdump_cell data i) [0, 1, 2, 3, 4, 5, 6, 7, 8, 9, 10, 11, 12, 13, 14, 15]))) = 49"
    using length_hexdump_cell by simp
  moreover have "length (concat (map (\<lambda>c. [ascii_char c]) (take 16 (drop i data)))) \<le> 16"
    by (simp add: length_concat o_def sum_list_triv)
  ultimately show ?thesis
    unfolding hexdump_line_def concat_append length_append by (simp add: length_hex_pad)
qed

lemma hexdump_text_Suc: "hexdump_text data base (Suc j) = hexdump_text data base j @ concat (hexdump_line data base (16 * j))"
  by (simp add: hexdump_text_def)

lemma hexdump_loop_ok:
  assumes "unat base + length data \<le> 2 ^ 32"
    and "holds n (hexdump_text data base j) pb" and "length (hexdump_text data base j) < n"
  shows "\<exists>k pb'. hexdump_loop data base (n - 1) (16 * j) pb = Some pb' \<and> holds n (hexdump_text data base k) pb' \<and>
    length (hexdump_text data base k) < n \<and> (length data \<le> 16 * k \<or> n \<le> length (hexdump_text data base k) + 81)"
  using assms(2,3)
proof (induction "length data - 16 * j" arbitrary: j pb rule: less_induct)
  case less
  let ?t = "hexdump_text data base j"
  have p: "fst pb = length ?t" using less.prems(1) by (simp add: holds_def)
  show ?case
  proof (cases "16 * j < length data \<and> room 80 (n - 1) (fst pb)")
    case False
    then have "hexdump_loop data base (n - 1) (16 * j) pb = Some pb"
      by (subst hexdump_loop.simps, intro if_not_P)
    moreover have "length data \<le> 16 * j \<or> n \<le> length ?t + 81" using False p by (auto simp: room_def)
    ultimately show ?thesis using less.prems by blast
  next
    case True
    have "length (concat (hexdump_line data base (16 * j))) \<le> 79"
      by (rule length_hexdump_line) (use assms(1) True in simp)
    moreover have "length ?t + 80 < n - 1" using True p by (auto simp: room_def)
    ultimately have fit: "length ?t + length (concat (hexdump_line data base (16 * j))) < n - 1" by linarith
    from puts_holds [OF less.prems(1) fit] obtain pb1 where
      pb1: "mfold (put (n - 1)) (hexdump_line data base (16 * j)) pb = Some pb1"
        "holds n (hexdump_text data base (Suc j)) pb1"
      by (auto simp: hexdump_text_Suc)
    have "length (hexdump_text data base (Suc j)) < n" using fit by (simp add: hexdump_text_Suc)
    moreover have "length data - 16 * Suc j < length data - 16 * j" using True by auto
    ultimately obtain k pb' where
      "hexdump_loop data base (n - 1) (16 * Suc j) pb1 = Some pb'" "holds n (hexdump_text data base k) pb'"
      "length (hexdump_text data base k) < n" "length data \<le> 16 * k \<or> n \<le> length (hexdump_text data base k) + 81"
      using less.hyps [OF _ pb1(2)] by blast
    moreover have "hexdump_loop data base (n - 1) (16 * j) pb = hexdump_loop data base (n - 1) (16 * Suc j) pb1"
      using True pb1(1) by (subst hexdump_loop.simps) (simp add: algebra_simps)
    ultimately show ?thesis by auto
  qed
qed

text \<open>
  Hex dump: as long as all addresses have at most eight digits, the dump stays inside the
  buffer of the caller whatever its size, consists of complete lines for the first 16, 32, ...
  bytes and is terminated; it stops early only when fewer than 82 bytes of the buffer are left.
  With longer addresses a line has more than 80 characters and the dump writes past the end of
  the buffer.
\<close>

theorem hexdump_bounds:
  assumes "unat base + length data \<le> 2 ^ 32" and "buf \<noteq> []"
  shows "(\<exists>k rest. e9_hexdump (Some data) base (Some buf) = Some (Some (str_bytes (hexdump_text data base k) @ 0 # rest)) \<and>
      length (str_bytes (hexdump_text data base k) @ 0 # rest) = length buf \<and>
      (length data \<le> 16 * k \<or> length buf \<le> length (hexdump_text data base k) + 81)) \<and>
    e9_hexdump (Some (replicate 16 0)) 0x1000000000000000 (Some (replicate 82 0)) = None"
proof
  let ?n = "length buf"
  have init: "holds ?n (hexdump_text data base 0) (0, buf)" "length (hexdump_text data base 0) < ?n"
    using assms(2) by (simp_all add: holds_def hexdump_text_def str_bytes_def)
  from hexdump_loop_ok [OF assms(1) init] obtain k p b where
    k: "hexdump_loop data base (?n - 1) 0 (0, buf) = Some (p, b)" "holds ?n (hexdump_text data base k) (p, b)"
      "length (hexdump_text data base k) < ?n" "length data \<le> 16 * k \<or> ?n \<le> length (hexdump_text data base k) + 81" by auto
  from k(2,3) have "memcpy_to b p [0] = Some (str_bytes (hexdump_text data base k) @ 0 # drop (p + 1) b)"
    by (simp add: memcpy_to_def holds_def)
  with k assms(2) show "\<exists>k rest. e9_hexdump (Some data) base (Some buf) = Some (Some (str_bytes (hexdump_text data base k) @ 0 # rest)) \<and>
      length (str_bytes (hexdump_text data base k) @ 0 # rest) = ?n \<and>
      (length data \<le> 16 * k \<or> ?n \<le> length (hexdump_text data base k) + 81)"
    by (intro exI [of _ k] exI [of _ "drop (p + 1) b"]) (auto simp: e9_hexdump_def holds_def)
  show "e9_hexdump (Some (replicate 16 0)) 0x1000000000000000 (Some (replicate 82 0)) = None" by code_simp
qed

theorem hexdump_bounds_witness:
  "\<exists>k rest. e9_hexdump (Some [0x41, 0]) 0x401000 (Some (replicate 100 0)) =
      Some (Some (str_bytes (hexdump_text [0x41, 0] 0x401000 k) @ 0 # rest)) \<and> 2 \<le> 16 * k"
proof -
  have "unat (0x401000 :: u64) + length [0x41 :: u8, 0] \<le> 2 ^ 32" "replicate 100 (0 :: u8) \<noteq> []" by simp_all
  from hexdump_bounds [OF this] obtain k rest where
    k: "e9_hexdump (Some [0x41, 0]) 0x401000 (Some (replicate 100 0)) =
      Some (Some (str_bytes (hexdump_text [0x41, 0] 0x401000 k) @ 0 # rest))"
      "length [0x41 :: u8, 0] \<le> 16 * k \<or> length (replicate 100 (0 :: u8)) \<le> length (hexdump_text [0x41, 0] 0x401000 k) + 81"
    by blast
  then have "2 \<le> 16 * k" by (cases k) (simp_all add: hexdump_text_def)
  with k(1) show ?thesis by blast
qed

end
