(* ===== verification/E9Identify.thy ===== *)
theory E9Identify
  imports E9MultiArch E9Signatures
begin

text \<open>
  Identification of binaries (\<open>e9_identify\<close>, \<open>e9_info_print\<close> of \<open>vendor/e9vendor.c\<close>): the headers
  of the known formats give format, architecture and entry point, and a scan for all known
  signatures decides whether a file is a polyglot.

  Fields that no function of the file sets (the section and segment counts) are left out.
\<close>

section \<open>The result\<close>

datatype VFormat = V_FMT_UNKNOWN | V_FMT_ELF | V_FMT_PE | V_FMT_MACHO | V_FMT_APE | V_FMT_WASM | V_FMT_RAW

record E9BinaryInfo =
  b_format :: VFormat
  b_arch :: VArch
  b_is_64bit :: bool
  b_is_little_endian :: bool
  b_is_executable :: bool
  b_is_shared_lib :: bool
  b_is_relocatable :: bool
  b_is_polyglot :: bool
  b_num_signatures :: u32
  b_signatures :: "E9SigMatch list"
  b_entry_point :: u64
  b_description :: string

definition zero_info :: E9BinaryInfo where
  "zero_info = \<lparr>b_format = V_FMT_UNKNOWN, b_arch = V_ARCH_UNKNOWN, b_is_64bit = False, b_is_little_endian = False,
     b_is_executable = False, b_is_shared_lib = False, b_is_relocatable = False, b_is_polyglot = False,
     b_num_signatures = 0, b_signatures = [], b_entry_point = 0, b_description = ''''\<rparr>"

section \<open>The formats\<close>

definition elf_arch :: "u16 \<Rightarrow> VArch" where
  "elf_arch m =
     (if m = 0x03 then V_ARCH_X86 else if m = 0x3E then V_ARCH_X86_64 else if m = 0x28 then V_ARCH_ARM
      else if m = 0xB7 then V_ARCH_ARM64 else if m = 0x08 then V_ARCH_MIPS else if m = 0xF3 then V_ARCH_RISCV
      else V_ARCH_UNKNOWN)"

definition identify_elf :: "bytes \<Rightarrow> E9BinaryInfo \<Rightarrow> E9BinaryInfo ub" where
  "identify_elf data info = do {
     c \<leftarrow> rd8 data 4;
     e \<leftarrow> rd8 data 5;
     let is64 = (c = 2); le = (e = 1) in do {
       e_type \<leftarrow> (if le then rd16 data 16 else rd16_be data 16);
       e_machine \<leftarrow> (if le then rd16 data 18 else rd16_be data 18);
       entry \<leftarrow> (if \<not> le then Some 0
         else if is64 \<and> 32 \<le> length data then rd64 data 24
         else if 28 \<le> length data then map_option ucast (rd32 data 24)
         else Some 0);
       Some (info\<lparr>b_format := V_FMT_ELF, b_is_64bit := is64, b_is_little_endian := le,
         b_is_executable := (e_type = 2), b_is_shared_lib := (e_type = 3), b_is_relocatable := (e_type = 1),
         b_arch := elf_arch e_machine, b_entry_point := entry,
         b_description := ''ELF '' @ (if is64 then ''64-bit'' else ''32-bit'') @ '' '' @ (if le then ''LSB'' else ''MSB'') @ '' '' @
           (if e_type = 2 then ''executable'' else if e_type = 3 then ''shared object'' else ''relocatable'')\<rparr>)
     }
   }"

definition pe_arch :: "u16 \<Rightarrow> VArch \<times> bool" where
  "pe_arch m =
     (if m = 0x014C then (V_ARCH_X86, False) else if m = 0x8664 then (V_ARCH_X86_64, True)
      else if m = 0x01C4 then (V_ARCH_ARM, False) else if m = 0xAA64 then (V_ARCH_ARM64, True)
      else (V_ARCH_UNKNOWN, False))"

text \<open>\<open>pe_offset + 6\<close> is computed in 32 bits.\<close>

definition identify_mz :: "bytes \<Rightarrow> E9BinaryInfo \<Rightarrow> E9BinaryInfo ub" where
  "identify_mz data info = do {
     ape \<leftarrow> memeq data 0 [0x4D, 0x5A, 0x71, 0x46, 0x70, 0x44, 0x3D];
     if ape then Some (info\<lparr>b_format := V_FMT_APE, b_is_polyglot := True,
       b_description := ''Actually Portable Executable (APE polyglot)''\<rparr>)
     else let info = info\<lparr>b_format := V_FMT_PE\<rparr> in do {
       pe_offset \<leftarrow> rd32 data 60;
       pe \<leftarrow> (if unat (pe_offset + 6) \<le> length data then memeq data (unat pe_offset) [0x50, 0x45, 0, 0] else Some False);
       if \<not> pe then Some info
       else do {
         machine \<leftarrow> rd16 data (unat pe_offset + 4);
         Some (info\<lparr>b_arch := fst (pe_arch machine), b_is_64bit := snd (pe_arch machine),
           b_is_little_endian := True, b_is_executable := True,
           b_description := ''PE '' @ (if snd (pe_arch machine) then ''64-bit'' else ''32-bit'') @ '' executable''\<rparr>)
       }
     }
   }"

definition identify_macho :: "bytes \<Rightarrow> E9BinaryInfo \<Rightarrow> E9BinaryInfo ub" where
  "identify_macho data info = do {
     magic \<leftarrow> rd32 data 0;
     Some (if magic = 0xFEEDFACE \<or> magic = 0xCEFAEDFE then
         info\<lparr>b_format := V_FMT_MACHO, b_is_64bit := False, b_is_little_endian := (magic = 0xFEEDFACE),
           b_description := ''Mach-O 32-bit''\<rparr>
       else if magic = 0xFEEDFACF \<or> magic = 0xCFFAEDFE then
         info\<lparr>b_format := V_FMT_MACHO, b_is_64bit := True, b_is_little_endian := (magic = 0xFEEDFACF),
           b_description := ''Mach-O 64-bit''\<rparr>
       else if magic = 0xCAFEBABE \<or> magic = 0xBEBAFECA then
         info\<lparr>b_format := V_FMT_MACHO, b_description := ''Mach-O Universal Binary''\<rparr>
       else info)
   }"

definition identify_header :: "bytes \<Rightarrow> E9BinaryInfo ub" where
  "identify_header data = do {
     elf \<leftarrow> (if 52 \<le> length data then memeq data 0 [0x7F, 0x45, 0x4C, 0x46] else Some False);
     mz \<leftarrow> (if 64 \<le> length data then memeq data 0 [0x4D, 0x5A] else Some False);
     info \<leftarrow> (if elf then identify_elf data zero_info
       else if mz then identify_mz data zero_info
       else if 4 \<le> length data then identify_macho data zero_info
       else Some zero_info);
     wasm \<leftarrow> (if 8 \<le> length data then memeq data 0 [0, 0x61, 0x73, 0x6D, 1, 0, 0, 0] else Some False);
     Some (if wasm then info\<lparr>b_format := V_FMT_WASM, b_arch := V_ARCH_WASM, b_description := ''WebAssembly module''\<rparr>
       else info)
   }"

section \<open>Identification\<close>

definition executable_at_start :: "E9SigMatch \<Rightarrow> bool" where
  "executable_at_start m \<longleftrightarrow> match_offset m = 0 \<and> sig_category (match_sig m) = E9_SIG_CAT_EXECUTABLE"

definition identify_scan :: "bytes \<Rightarrow> E9BinaryInfo \<Rightarrow> E9BinaryInfo ub" where
  "identify_scan data info = do {
     scanner \<leftarrow> e9_sig_scanner_create;
     if scanner = None then Some info
     else do {
       (num, sigs) \<leftarrow> e9_sig_scan scanner (Some data);
       let info = info\<lparr>b_signatures := sigs, b_num_signatures := num\<rparr> in
       Some (if 1 < num \<and> list_ex executable_at_start (take (unat num) sigs)
         then info\<lparr>b_is_polyglot := True\<rparr> else info)
     }
   }"

definition e9_identify :: "bytes ptr \<Rightarrow> E9BinaryInfo ptr ub" where
  "e9_identify data =
     (case data of
        None \<Rightarrow> Some None
      | Some data \<Rightarrow>
          if length data < 4 then Some None
          else do {
            info \<leftarrow> identify_header data;
            info \<leftarrow> identify_scan data info;
            Some (Some (if b_format info = V_FMT_UNKNOWN then info\<lparr>b_description := ''Unknown binary format''\<rparr> else info))
          })"

section \<open>The report\<close>

definition arch_name :: "VArch \<Rightarrow> string" where
  "arch_name a =
     (case a of V_ARCH_UNKNOWN \<Rightarrow> ''Unknown'' | V_ARCH_X86 \<Rightarrow> ''x86'' | V_ARCH_X86_64 \<Rightarrow> ''x86-64'' | V_ARCH_ARM \<Rightarrow> ''ARM''
      | V_ARCH_ARM64 \<Rightarrow> ''ARM64'' | V_ARCH_MIPS \<Rightarrow> ''MIPS'' | V_ARCH_RISCV \<Rightarrow> ''RISC-V'' | V_ARCH_WASM \<Rightarrow> ''WebAssembly'')"

definition nl :: string where "nl = [CHR 0x0A]"

text \<open>The texts of the successive \<open>snprintf\<close> calls; at most ten signatures are listed.\<close>

definition info_pieces :: "E9BinaryInfo \<Rightarrow> string list" where
  "info_pieces info =
     [''Binary Analysis Report'' @ nl, ''======================'' @ nl @ nl,
      ''Format: '' @ b_description info @ nl, ''Architecture: '' @ arch_name (b_arch info) @ nl,
      ''Bits: '' @ (if b_is_64bit info then ''64'' else ''32'') @ nl,
      ''Endianness: '' @ (if b_is_little_endian info then ''little'' else ''big'') @ nl] @
     (if b_entry_point info \<noteq> 0 then [''Entry point: 0x'' @ hex (unat (b_entry_point info)) @ nl] else []) @
     (if b_is_polyglot info then [nl @ ''*** POLYGLOT FILE DETECTED ***'' @ nl] else []) @
     (if 0 < b_num_signatures info then
        [nl @ ''Embedded signatures found: '' @ dec (unat (b_num_signatures info)) @ nl] @
        map (\<lambda>m. ''  [0x'' @ hex (match_offset m) @ ''] '' @ match_description m @ nl)
          (take (min 10 (unat (b_num_signatures info))) (b_signatures info))
      else [])"

definition e9_info_print :: "E9BinaryInfo ptr \<Rightarrow> bytes ptr \<Rightarrow> bytes ptr ub" where
  "e9_info_print info out =
     (case (info, out) of
        (Some info, Some buf) \<Rightarrow>
          if buf = [] then Some out
          else do {
            (p, buf) \<leftarrow> mfold (put (length buf - 1)) (info_pieces info) (0, buf);
            buf \<leftarrow> memcpy_to buf p [0];
            Some (Some buf)
          }
      | _ \<Rightarrow> Some out)"

section \<open>Facts about the header parsers\<close>

text \<open>The only read that can leave the data: a PE offset whose bounds check wraps.\<close>

definition pe_wraps :: "bytes \<Rightarrow> bool" where
  "pe_wraps data \<longleftrightarrow> 64 \<le> length data \<and> take 2 data = [0x4D, 0x5A] \<and> take 7 data \<noteq> [0x4D, 0x5A, 0x71, 0x46, 0x70, 0x44, 0x3D] \<and>
     (\<exists>w. rd32 data 60 = Some w \<and> 0xFFFFFFFA \<le> unat w)"

text \<open>What a result says about the file.\<close>

definition info_shape :: "E9BinaryInfo \<Rightarrow> bool" where
  "info_shape info \<longleftrightarrow>
     b_format info \<noteq> V_FMT_RAW \<and>
     (b_arch info \<noteq> V_ARCH_UNKNOWN \<longrightarrow> b_format info = V_FMT_ELF \<or> b_format info = V_FMT_PE \<or> b_format info = V_FMT_WASM) \<and>
     (b_format info = V_FMT_WASM \<longleftrightarrow> b_arch info = V_ARCH_WASM) \<and>
     (b_is_shared_lib info \<or> b_is_relocatable info \<or> b_entry_point info \<noteq> 0 \<longrightarrow> b_format info = V_FMT_ELF) \<and>
     \<not> (b_is_executable info \<and> b_is_shared_lib info) \<and>
     (b_format info = V_FMT_PE \<and> b_arch info \<noteq> V_ARCH_UNKNOWN \<longrightarrow>
        b_is_64bit info = (b_arch info = V_ARCH_X86_64 \<or> b_arch info = V_ARCH_ARM64))"

definition info_typed :: "E9BinaryInfo \<Rightarrow> bool" where
  "info_typed info \<longleftrightarrow> info_shape info \<and> length (b_description info) \<le> 43"

lemmas info_defs = info_typed_def info_shape_def

lemma reads_defined:
  "off < length d \<Longrightarrow> \<exists>v. rd8 d off = Some v" "off + 2 \<le> length d \<Longrightarrow> \<exists>v. rd16 d off = Some v"
  "off + 4 \<le> length d \<Longrightarrow> \<exists>v. rd32 d off = Some v" "off + 8 \<le> length d \<Longrightarrow> \<exists>v. rd64 d off = Some v"
  "off + 2 \<le> length d \<Longrightarrow> \<exists>v. rd16_be d off = Some v"
  by (simp_all add: rd8_def rd16_def rd32_def rd64_def rd16_be_def rd_region_def)

lemma identify_elf_ok:
  assumes "52 \<le> length data"
  shows "\<exists>info. identify_elf data zero_info = Some info \<and> info_typed info \<and> \<not> b_is_polyglot info \<and> b_format info = V_FMT_ELF"
proof -
  obtain c e where ce: "rd8 data 4 = Some c" "rd8 data 5 = Some e" using reads_defined(1) assms by fastforce
  let ?rd = "\<lambda>off. if e = 1 then rd16 data off else rd16_be data off"
  obtain t m where tm: "?rd 16 = Some t" "?rd 18 = Some m"
    using reads_defined(2) [of 16 data] reads_defined(2) [of 18 data] reads_defined(5) [of 16 data] reads_defined(5) [of 18 data] assms
    by fastforce
  obtain q d where qd: "rd64 data 24 = Some q" "rd32 data 24 = Some d"
    using reads_defined(4) [of 24 data] reads_defined(3) [of 24 data] assms by fastforce
  have wasm: "elf_arch m \<noteq> V_ARCH_WASM" by (simp add: elf_arch_def)
  from ce tm qd assms wasm show ?thesis
    by (cases "e = 1") (auto simp: identify_elf_def info_defs zero_info_def Let_def)
qed

lemma pe_arch_typed: "fst (pe_arch m) \<noteq> V_ARCH_WASM \<and>
  (fst (pe_arch m) \<noteq> V_ARCH_UNKNOWN \<longrightarrow> snd (pe_arch m) = (fst (pe_arch m) = V_ARCH_X86_64 \<or> fst (pe_arch m) = V_ARCH_ARM64))"
  by (simp add: pe_arch_def)

lemma memeq_prefix: "length p \<le> length data \<Longrightarrow> memeq data 0 p = Some (take (length p) data = p)"
  by (simp add: memeq_def rd_region_def)

lemma wrap6: "unat (w + 6 :: u32) = (if 0xFFFFFFFA \<le> unat w then unat w - 0xFFFFFFFA else unat w + 6)"
proof -
  have "unat (w + 6) = (unat w + 6) mod 2 ^ 32" by (simp add: unat_word_ariths)
  then show ?thesis using unat_u32_less [of w] by (simp add: mod_if)
qed

lemma identify_mz_ok:
  assumes "64 \<le> length data" and "length data < 0xFFFFFFFA" and "take 2 data = [0x4D, 0x5A]"
  shows "(pe_wraps data \<longrightarrow> identify_mz data zero_info = None) \<and>
    (\<not> pe_wraps data \<longrightarrow> (\<exists>info. identify_mz data zero_info = Some info \<and> info_typed info \<and>
      b_is_polyglot info = (take 7 data = [0x4D, 0x5A, 0x71, 0x46, 0x70, 0x44, 0x3D])))"
proof -
  have ape: "memeq data 0 [0x4D, 0x5A, 0x71, 0x46, 0x70, 0x44, 0x3D] = Some (take 7 data = [0x4D, 0x5A, 0x71, 0x46, 0x70, 0x44, 0x3D])"
    using assms(1) memeq_prefix [of "[0x4D, 0x5A, 0x71, 0x46, 0x70, 0x44, 0x3D]" data] by (simp add: eval_nat_numeral)
  show ?thesis
  proof (cases "take 7 data = [0x4D, 0x5A, 0x71, 0x46, 0x70, 0x44, 0x3D]")
    case True
    then show ?thesis using ape by (auto simp: identify_mz_def pe_wraps_def info_defs zero_info_def)
  next
    case False
    obtain w where w: "rd32 data 60 = Some w" using reads_defined(3) [of 60 data] assms(1) by auto
    have wraps: "pe_wraps data \<longleftrightarrow> 0xFFFFFFFA \<le> unat w" using assms False w by (simp add: pe_wraps_def)
    show ?thesis
    proof (cases "0xFFFFFFFA \<le> unat w")
      case True
      have "memeq data (unat w) [0x50, 0x45, 0, 0] = None"
        using True assms(2) by (simp add: memeq_def rd_region_def)
      moreover have "unat (w + 6) \<le> length data"
        using True assms(1) unat_u32_less [of w] by (simp add: wrap6)
      ultimately show ?thesis using ape False w True wraps by (simp add: identify_mz_def)
    next
      case ok: False
      show ?thesis
      proof (cases "unat (w + 6) \<le> length data")
        case True
        then have le: "unat w + 6 \<le> length data" using ok by (simp add: wrap6)
        then obtain m where m: "rd16 data (unat w + 4) = Some m" using reads_defined(2) [of "unat w + 4" data] by auto
        obtain b where b: "memeq data (unat w) [0x50, 0x45, 0, 0] = Some b" using le by (simp add: memeq_def rd_region_def)
        from ape False w m b True wraps ok pe_arch_typed [of m] show ?thesis
          by (cases b) (auto simp: identify_mz_def info_defs zero_info_def)
      next
        case no: False
        from ape False w no wraps ok show ?thesis by (auto simp: identify_mz_def info_defs zero_info_def)
      qed
    qed
  qed
qed

lemma identify_macho_ok:
  assumes "4 \<le> length data"
  shows "\<exists>info. identify_macho data zero_info = Some info \<and> info_typed info \<and> \<not> b_is_polyglot info"
proof -
  obtain w where "rd32 data 0 = Some w" using reads_defined(3) [of 0 data] assms by auto
  then show ?thesis by (auto simp: identify_macho_def info_defs zero_info_def)
qed

definition ape_header :: "bytes \<Rightarrow> bool" where
  "ape_header data \<longleftrightarrow> 64 \<le> length data \<and> take 7 data = [0x4D, 0x5A, 0x71, 0x46, 0x70, 0x44, 0x3D]"

lemma take_prefix: "take n data = p \<Longrightarrow> m \<le> n \<Longrightarrow> take m data = take m p"
  by (metis min.absorb1 take_take)

lemma header_tests:
  "52 \<le> length data \<Longrightarrow> memeq data 0 [0x7F, 0x45, 0x4C, 0x46] = Some (take 4 data = [0x7F, 0x45, 0x4C, 0x46])"
  "64 \<le> length data \<Longrightarrow> memeq data 0 [0x4D, 0x5A] = Some (take 2 data = [0x4D, 0x5A])"
  "8 \<le> length data \<Longrightarrow> memeq data 0 [0, 0x61, 0x73, 0x6D, 1, 0, 0, 0] = Some (take 8 data = [0, 0x61, 0x73, 0x6D, 1, 0, 0, 0])"
  by (simp_all add: memeq_def rd_region_def eval_nat_numeral)

lemma identify_wasm:
  assumes "8 \<le> length data" and "take 8 data = [0, 0x61, 0x73, 0x6D, 1, 0, 0, 0]"
  shows "identify_header data = Some (zero_info\<lparr>b_format := V_FMT_WASM, b_arch := V_ARCH_WASM, b_description := ''WebAssembly module''\<rparr>)"
proof -
  from take_prefix [OF assms(2)] have p: "take 4 data = [0, 0x61, 0x73, 0x6D]" "take 2 data = [0, 0x61]" by simp_all
  then have "rd32 data 0 = Some 0x6D736100"
    using assms(1) by (simp add: rd32_def rd_region_def)
  then have "identify_macho data zero_info = Some zero_info" by (simp add: identify_macho_def)
  with assms p show ?thesis by (simp add: identify_header_def header_tests)
qed

lemma identify_header_ok:
  assumes "4 \<le> length data" and "length data < 0xFFFFFFFA"
  shows "(pe_wraps data \<longrightarrow> identify_header data = None) \<and>
    (\<not> pe_wraps data \<longrightarrow> (\<exists>info. identify_header data = Some info \<and> info_typed info \<and> b_is_polyglot info = ape_header data))"
proof (cases "8 \<le> length data \<and> take 8 data = [0, 0x61, 0x73, 0x6D, 1, 0, 0, 0]")
  case True
  then have eight: "take 8 data = [0, 0x61, 0x73, 0x6D, 1, 0, 0, 0]" by simp
  have p: "take 2 data = [0, 0x61]" "take 7 data = [0, 0x61, 0x73, 0x6D, 1, 0, 0]"
    using take_prefix [OF eight, of 2] take_prefix [OF eight, of 7] by simp_all
  from True identify_wasm [of data] p show ?thesis
    by (auto simp: pe_wraps_def ape_header_def info_defs zero_info_def)
next
  case no_wasm: False
  then have wasm: "(if 8 \<le> length data then memeq data 0 [0, 0x61, 0x73, 0x6D, 1, 0, 0, 0] else Some False) = Some False"
    by (simp add: header_tests)
  show ?thesis
  proof (cases "52 \<le> length data \<and> take 4 data = [0x7F, 0x45, 0x4C, 0x46]")
    case True
    then have p: "take 2 data = [0x7F, 0x45]" using take_prefix [of 4 data _ 2] by simp
    then have not_ape: "take 7 data \<noteq> [0x4D, 0x5A, 0x71, 0x46, 0x70, 0x44, 0x3D]"
      using take_prefix [of 7 data _ 2] by (intro notI) simp
    from True identify_elf_ok [of data] wasm p not_ape show ?thesis
      by (auto simp: identify_header_def header_tests pe_wraps_def ape_header_def)
  next
    case no_elf: False
    show ?thesis
    proof (cases "64 \<le> length data \<and> take 2 data = [0x4D, 0x5A]")
      case True
      from identify_mz_ok [OF _ assms(2), of] True no_elf wasm show ?thesis
        by (auto simp: identify_header_def header_tests ape_header_def)
    next
      case no_mz: False
      then have "\<not> pe_wraps data" by (auto simp: pe_wraps_def)
      moreover have "\<not> ape_header data"
      proof
        assume "ape_header data"
        then have "64 \<le> length data" "take 7 data = [0x4D, 0x5A, 0x71, 0x46, 0x70, 0x44, 0x3D]" by (simp_all add: ape_header_def)
        with take_prefix [of 7 data _ 2] no_mz show False by simp
      qed
      ultimately show ?thesis
        using identify_macho_ok [OF assms(1)] no_elf no_mz wasm assms(1)
        by (auto simp: identify_header_def header_tests)
    qed
  qed
qed

section \<open>Facts about the scan\<close>

definition flagged :: "bytes \<Rightarrow> bool" where
  "flagged data \<longleftrightarrow> 1 < (word_of_nat (length (scan_spec sig_db data)) :: u32) \<and>
     list_ex executable_at_start (take (unat (word_of_nat (length (scan_spec sig_db data)) :: u32)) (scan_spec sig_db data))"

lemma identify_scan_eq:
  assumes "data \<noteq> []"
  shows "identify_scan data info = Some (info\<lparr>b_signatures := scan_spec sig_db data,
    b_num_signatures := word_of_nat (length (scan_spec sig_db data)), b_is_polyglot := b_is_polyglot info \<or> flagged data\<rparr>)"
  using sig_db.scan_exact [OF assms]
  by (auto simp: identify_scan_def create_ok flagged_def Let_def)

lemma info_typed_updates [simp]:
  "info_typed (info\<lparr>b_signatures := a, b_num_signatures := b, b_is_polyglot := c\<rparr>) = info_typed info"
  by (simp add: info_defs)

lemma info_typed_description: "info_typed info \<Longrightarrow> length d \<le> 43 \<Longrightarrow> info_typed (info\<lparr>b_description := d\<rparr>)"
proof -
  have "info_shape (info\<lparr>b_description := d\<rparr>) = info_shape info" by (simp add: info_shape_def)
  then show "info_typed info \<Longrightarrow> length d \<le> 43 \<Longrightarrow> info_typed (info\<lparr>b_description := d\<rparr>)" by (simp add: info_typed_def)
qed

lemma identify_of_header:
  assumes "4 \<le> length data" and "identify_header data = Some info" and "info_typed info"
  shows "\<exists>info'. e9_identify (Some data) = Some (Some info') \<and> info_typed info' \<and> b_format info' = b_format info \<and>
    b_signatures info' = scan_spec sig_db data \<and> b_num_signatures info' = word_of_nat (length (scan_spec sig_db data)) \<and>
    b_is_polyglot info' = (b_is_polyglot info \<or> flagged data)"
proof -
  have "data \<noteq> []" using assms(1) by auto
  from identify_scan_eq [OF this] assms show ?thesis
    by (cases "b_format info = V_FMT_UNKNOWN") (simp_all add: e9_identify_def info_typed_description)
qed

text \<open>Two occurrences, one of them an executable signature at the start, raise the flag.\<close>

lemma length_scan_spec: "length (scan_spec db data) \<le> length db * (length data + 2)"
proof -
  let ?f = "\<lambda>pos. map (found data pos (offset_suffix pos)) (filter (\<lambda>s. anywhere s \<and> occurs data pos s) db)"
  have "length (concat (map ?f ps)) \<le> length db * length ps" for ps
  proof (induction ps)
    case (Cons p ps)
    have "length (?f p) \<le> length db" using length_filter_le [of "\<lambda>s. anywhere s \<and> occurs data p s" db] by simp
    with Cons show ?case by (simp del: length_map)
  qed simp
  from this [of "[0 ..< length data]"]
  have "length (concat (map ?f [0 ..< length data])) \<le> length db * length data" by (simp only: length_upt diff_zero)
  moreover have "length (scan_spec db data) = length (filter (\<lambda>s. at_start s \<and> occurs data 0 s) db) +
      (length (filter (\<lambda>s. at_offset s \<and> occurs data (sig_magic_offset s) s) db) + length (concat (map ?f [0 ..< length data])))"
    by (simp add: scan_spec_def)
  moreover have "length db * (length data + 2) = length db + (length db + length db * length data)" by simp
  ultimately show ?thesis
    using length_filter_le [of "\<lambda>s. at_start s \<and> occurs data 0 s" db]
      length_filter_le [of "\<lambda>s. at_offset s \<and> occurs data (sig_magic_offset s) s" db] by linarith
qed

lemma anywhere_found:
  assumes "s \<in> set db" and "anywhere s" and "occurs data pos s" and "pos < length data"
  shows "found data pos (offset_suffix pos) s \<in> set (scan_spec db data)"
  using assms by (auto simp: scan_spec_def)

lemma flaggedI:
  assumes "s \<in> set sig_db" and "anywhere s" and "sig_category s = E9_SIG_CAT_EXECUTABLE" and "occurs data 0 s"
    and "t \<in> set sig_db" and "anywhere t" and "occurs data pos t" and "pos < length data"
    and "s \<noteq> t \<or> pos \<noteq> 0" and "length data \<le> 2 ^ 24"
  shows "flagged data"
proof -
  let ?l = "scan_spec sig_db data"
  have mem: "found data 0 (offset_suffix 0) s \<in> set ?l" "found data pos (offset_suffix pos) t \<in> set ?l"
    by (rule anywhere_found [OF assms(1,2,4)], use assms(8) in linarith, rule anywhere_found [OF assms(5-8)])
  have "length sig_db \<le> 100" by (simp add: sig_db_eq E9_SIGNATURE_DB_def)
  then have "length sig_db * (length data + 2) \<le> 100 * (2 ^ 24 + 2)" using assms(10) by (intro mult_le_mono) simp_all
  with length_scan_spec [of sig_db data] have small: "length ?l < 2 ^ 32" by simp
  have "found data 0 (offset_suffix 0) s \<noteq> found data pos (offset_suffix pos) t"
    using assms(9) by (auto simp: found_def)
  then have "2 \<le> card {found data 0 (offset_suffix 0) s, found data pos (offset_suffix pos) t}" by simp
  also have "\<dots> \<le> card (set ?l)" using mem by (intro card_mono) auto
  also have "\<dots> \<le> length ?l" by (rule card_length)
  finally have "1 < length ?l" by simp
  moreover have u: "unat (word_of_nat (length ?l) :: u32) = length ?l" using small by (simp add: unat_of_nat)
  ultimately have "1 < (word_of_nat (length ?l) :: u32)" by (simp only: word_less_nat_alt u) simp
  moreover have "executable_at_start (found data 0 (offset_suffix 0) s)"
    using assms(3) by (simp add: executable_at_start_def found_def)
  ultimately show ?thesis using mem(1) u by (auto simp: flagged_def list_ex_iff)
qed

lemma db_members:
  "E9_SIG_ENTRY ''elf'' ''ELF executable'' E9_SIG_CAT_EXECUTABLE E9_SIG_CONFIDENCE_HIGH SIG_ELF \<in> set sig_db"
  "E9_SIG_ENTRY ''pe'' ''Windows PE executable'' E9_SIG_CAT_EXECUTABLE E9_SIG_CONFIDENCE_MEDIUM SIG_MZ \<in> set sig_db"
  by (simp_all add: sig_db_eq E9_SIGNATURE_DB_def)

section \<open>Properties\<close>

text \<open>
  Identification of a file of 4 bytes to 4 GiB: the result is fully determined to be well
  formed -- the architecture, the flags and the entry point are only set for the formats that
  define them and agree with each other, the description fits its buffer, the signatures are
  those of the specification of the scan, and a file is a polyglot exactly when it has an APE
  header or two or more signatures of which one is an executable at its start.  The only inputs
  on which the code leaves the data are MZ files whose PE offset lies in the last six values
  of 32 bits.
\<close>

theorem identify_typed:
  assumes "4 \<le> length data" and "length data < 0xFFFFFFFA"
  shows "(pe_wraps data \<longrightarrow> e9_identify (Some data) = None) \<and>
    (\<not> pe_wraps data \<longrightarrow> (\<exists>info. e9_identify (Some data) = Some (Some info) \<and> info_typed info \<and>
      b_signatures info = scan_spec sig_db data \<and> b_num_signatures info = word_of_nat (length (scan_spec sig_db data)) \<and>
      b_is_polyglot info = (ape_header data \<or> flagged data)))"
proof (cases "pe_wraps data")
  case True
  with identify_header_ok [OF assms] assms(1) show ?thesis by (simp add: e9_identify_def)
next
  case False
  with identify_header_ok [OF assms] obtain info where
    "identify_header data = Some info" "info_typed info" "b_is_polyglot info = ape_header data" by auto
  with identify_of_header [OF assms(1)] False show ?thesis by fastforce
qed

theorem identify_typed_witness:
  "\<exists>info. e9_identify (Some [0xCF, 0xFA, 0xED, 0xFE, 0, 0, 0, 0]) = Some (Some info) \<and> info_typed info"
proof -
  have "\<not> pe_wraps [0xCF, 0xFA, 0xED, 0xFE, 0, 0, 0, 0]" by (simp add: pe_wraps_def)
  with identify_typed [of "[0xCF, 0xFA, 0xED, 0xFE, 0, 0, 0, 0]"] show ?thesis by auto
qed

text \<open>
  The polyglot flag is a false alarm for ordinary files: every ELF file (up to 16 MiB) that
  contains the two bytes \<open>MZ\<close> at any position is reported as a polyglot, because the signature
  \<open>pe\<close> of two bytes is searched at every position.
\<close>

theorem polyglot_false_alarm:
  assumes "52 \<le> length data" and "length data \<le> 2 ^ 24" and "take 4 data = [0x7F, 0x45, 0x4C, 0x46]"
    and "pos + 2 \<le> length data" and "take 2 (drop pos data) = [0x4D, 0x5A]"
  shows "\<exists>info. e9_identify (Some data) = Some (Some info) \<and> b_format info = V_FMT_ELF \<and> b_is_polyglot info"
proof -
  let ?s = "E9_SIG_ENTRY ''elf'' ''ELF executable'' E9_SIG_CAT_EXECUTABLE E9_SIG_CONFIDENCE_HIGH SIG_ELF"
  let ?t = "E9_SIG_ENTRY ''pe'' ''Windows PE executable'' E9_SIG_CAT_EXECUTABLE E9_SIG_CONFIDENCE_MEDIUM SIG_MZ"
  have "flagged data"
  proof (rule flaggedI [of ?s _ ?t pos])
    show "?s \<in> set sig_db" "?t \<in> set sig_db" by (rule db_members)+
    show "anywhere ?s" "anywhere ?t" "sig_category ?s = E9_SIG_CAT_EXECUTABLE" "?s \<noteq> ?t \<or> pos \<noteq> 0"
      by (simp_all add: anywhere_def usable_def sig_entries SIG_ELF_def SIG_MZ_def)
    show "occurs data 0 ?s" "occurs data pos ?t"
      using assms(1,3,4,5) by (simp_all add: occurs_def sig_entries SIG_ELF_def SIG_MZ_def eval_nat_numeral)
  qed (use assms(2,4) in simp_all)
  moreover have "take 8 data \<noteq> [0, 0x61, 0x73, 0x6D, 1, 0, 0, 0]"
    using take_prefix [of 8 data _ 4] assms(3) by (intro notI) simp
  with identify_elf_ok [OF assms(1)] assms(1,3) obtain info where
    "identify_header data = Some info" "info_typed info" "b_format info = V_FMT_ELF"
    by (auto simp: identify_header_def header_tests)
  ultimately show ?thesis using identify_of_header [of data info] assms(1) by auto
qed

theorem polyglot_false_alarm_witness:
  "\<exists>info. e9_identify (Some ([0x7F, 0x45, 0x4C, 0x46] @ replicate 46 0 @ [0x4D, 0x5A])) = Some (Some info) \<and>
    b_format info = V_FMT_ELF \<and> b_is_polyglot info"
  by (rule polyglot_false_alarm [of _ 50]) simp_all

text \<open>
  The report of \<open>e9_info_print\<close>: complete and terminated when the buffer has a byte to spare,
  but written past the end of the buffer whenever the text does not fit.
\<close>

theorem info_print_bounds:
  "(length (concat (info_pieces info)) + 2 \<le> length buf \<longrightarrow>
      (\<exists>rest. e9_info_print (Some info) (Some buf) = Some (Some (str_bytes (concat (info_pieces info)) @ 0 # rest)))) \<and>
   (buf \<noteq> [] \<and> length buf \<le> length (concat (info_pieces info)) \<longrightarrow> e9_info_print (Some info) (Some buf) = None)"
proof (intro conjI impI)
  let ?t = "concat (info_pieces info)"
  assume fits: "length ?t + 2 \<le> length buf"
  then have ne: "buf \<noteq> []" by auto
  have "holds (length buf) [] (0, buf)" by (simp add: holds_def str_bytes_def)
  moreover have "length [] + length ?t < length buf - 1" using fits by simp
  ultimately obtain pb' where "mfold (put (length buf - 1)) (info_pieces info) (0, buf) = Some pb'" "holds (length buf) ([] @ ?t) pb'"
    using puts_holds by blast
  then obtain p b where
    pb: "mfold (put (length buf - 1)) (info_pieces info) (0, buf) = Some (p, b)" "holds (length buf) ?t (p, b)" by (cases pb') auto
  from pb(2) fits have "memcpy_to b p [0] = Some (str_bytes ?t @ 0 # drop (p + 1) b)"
    by (simp add: memcpy_to_def holds_def)
  with pb(1) ne show "\<exists>rest. e9_info_print (Some info) (Some buf) = Some (Some (str_bytes ?t @ 0 # rest))"
    by (simp add: e9_info_print_def)
next
  let ?t = "concat (info_pieces info)"
  assume short: "buf \<noteq> [] \<and> length buf \<le> length ?t"
  show "e9_info_print (Some info) (Some buf) = None"
  proof (cases "mfold (put (length buf - 1)) (info_pieces info) (0, buf)")
    case None
    with short show ?thesis by (simp add: e9_info_print_def)
  next
    case (Some pb)
    with puts_move [OF Some] short show ?thesis
      by (cases pb) (auto simp: e9_info_print_def memcpy_to_def)
  qed
qed

end
