(* ===== verification/E9Insn.thy ===== *)
theory E9Insn
  imports E9BinaryCtx E9Text
begin

text \<open>
  The instruction decoders of \<open>src/src/e9patch/analysis/e9analysis.c\<close> (\<open>x64_insn_length\<close>,
  \<open>disasm_x64\<close>, \<open>disasm_aarch64\<close>) and the disassembly interface over them
  (\<open>e9_disasm_instruction\<close>, \<open>e9_disasm_range\<close>, \<open>e9_disasm\<close>, \<open>e9_disasm_str\<close>).

  An address is turned into an offset of the file; \<open>code\<close> is the rest of the file from there.
  A result \<open>None\<close> is an access outside the file, \<open>Some None\<close> the null pointer.  The text members
  of an instruction are the C strings they hold.
\<close>

section \<open>Instructions\<close>

datatype E9InsnCategory =
    E9_INSN_OTHER
  | E9_INSN_CALL
  | E9_INSN_JUMP
  | E9_INSN_COND_JUMP
  | E9_INSN_RET
  | E9_INSN_SYSCALL
  | E9_INSN_NOP
  | E9_INSN_PUSH
  | E9_INSN_POP
  | E9_INSN_MOV
  | E9_INSN_LEA
  | E9_INSN_ARITHMETIC
  | E9_INSN_COMPARE
  | E9_INSN_SHIFT
  | E9_INSN_LOGICAL
  | E9_INSN_LOAD
  | E9_INSN_STORE
  | E9_INSN_SIMD

text \<open>
  The members of \<open>struct E9Instruction\<close> that the engine writes.  \<open>target_is_indirect\<close>, the
  register bitmaps and \<open>mem_displacement\<close> keep the zeros of the allocation everywhere.
\<close>

record AInsn =
  ai_address :: u64
  ai_size :: nat
  ai_bytes :: bytes
  ai_category :: E9InsnCategory
  ai_mnemonic :: string
  ai_operands :: string
  ai_target :: u64
  ai_is_conditional :: bool
  ai_reads_memory :: bool
  ai_writes_memory :: bool

definition fresh_insn :: "u64 \<Rightarrow> nat \<Rightarrow> bytes \<Rightarrow> AInsn" where
  "fresh_insn addr len bs =
     \<lparr>ai_address = addr, ai_size = len, ai_bytes = bs, ai_category = E9_INSN_OTHER,
      ai_mnemonic = [], ai_operands = [], ai_target = 0, ai_is_conditional = False,
      ai_reads_memory = False, ai_writes_memory = False\<rparr>"

text \<open>\<open>insn->target = t; snprintf(insn->operands, ..., "0x%lx", insn->target);\<close>\<close>

definition set_target :: "u64 \<Rightarrow> AInsn \<Rightarrow> AInsn" where
  "set_target t i = i\<lparr>ai_target := t, ai_operands := ''0x'' @ hex (unat t)\<rparr>"

definition insn_offset :: "'a E9Binary_scheme \<Rightarrow> u64 \<Rightarrow> u64" where
  "insn_offset bin addr =
     (if bin_base_address bin \<noteq> 0 \<and> bin_base_address bin \<le> addr
      then addr - bin_base_address bin else addr)"

section \<open>x86-64\<close>

text \<open>The prefixes that \<open>x64_insn_length\<close> skips.\<close>

definition x64_length_prefixes :: "u8 list" where
  "x64_length_prefixes = [0x66, 0x67, 0xF0, 0xF2, 0xF3, 0x2E, 0x36, 0x3E, 0x26, 0x64, 0x65]"

function x64_skip_prefixes :: "bytes \<Rightarrow> nat \<Rightarrow> nat \<Rightarrow> bool \<Rightarrow> (nat \<times> bool) ub" where
  "x64_skip_prefixes code max_len pos has_rex =
     (if pos < max_len then
        case rd8 code pos of
          None \<Rightarrow> None
        | Some b \<Rightarrow>
            if b \<in> set x64_length_prefixes then x64_skip_prefixes code max_len (pos + 1) has_rex
            else if b AND 0xF0 = 0x40 then x64_skip_prefixes code max_len (pos + 1) True
            else Some (pos, has_rex)
      else Some (pos, has_rex))"
  by pat_completeness auto
termination by (relation "measure (\<lambda>(code, max_len, pos, has_rex). max_len - pos)") auto

text \<open>
  The switch over one-byte opcodes: \<open>Some n\<close> where it returns \<open>n\<close> bytes beyond the opcode,
  \<open>None\<close> where it assumes a ModR/M byte.
\<close>

definition x64_one_byte :: "u8 \<Rightarrow> bool \<Rightarrow> nat option" where
  "x64_one_byte opcode has_rex =
     (if opcode \<in> set [0x90, 0xC3, 0xCB, 0xCC, 0xF4, 0xF5, 0xFC, 0xFD] then Some 0
      else if opcode \<in> set [0x04, 0x0C, 0x14, 0x1C, 0x24, 0x2C, 0x34, 0x3C, 0x6A, 0xA8,
          0xB0, 0xB1, 0xB2, 0xB3, 0xB4, 0xB5, 0xB6, 0xB7, 0xCD, 0xD4, 0xD5, 0xE4, 0xE5, 0xE6,
          0xE7, 0xEB] then Some 1
      else if opcode \<in> set [0x05, 0x0D, 0x15, 0x1D, 0x25, 0x2D, 0x35, 0x3D, 0x68, 0xA9, 0xE8, 0xE9]
      then Some 4
      else if opcode \<in> set [0xB8, 0xB9, 0xBA, 0xBB, 0xBC, 0xBD, 0xBE, 0xBF]
      then Some (if has_rex then 8 else 4)
      else if opcode \<in> set [0xC2, 0xCA] then Some 2
      else if (0x70 \<le> opcode \<and> opcode \<le> 0x7F) \<or> (0xE0 \<le> opcode \<and> opcode \<le> 0xE3) then Some 1
      else None)"

text \<open>ModR/M, SIB, displacement, and the immediate the code guesses for 0x80 to 0x83.\<close>

definition x64_modrm_length :: "bytes \<Rightarrow> nat \<Rightarrow> u8 \<Rightarrow> nat \<Rightarrow> nat ub" where
  "x64_modrm_length code max_len opcode pos =
     (if pos < max_len then do {
        modrm \<leftarrow> rd8 code pos;
        let m = (drop_bit 6 modrm) AND 3;
        let rm = modrm AND 7;
        let pos = pos + 1;
        let pos = (if m \<noteq> 3 \<and> rm = 4 \<and> pos < max_len then pos + 1 else pos);
        let pos = (if m = 1 then pos + 1
                   else if m = 2 \<or> (m = 0 \<and> rm = 5) then pos + 4 else pos);
        Some (if 0x80 \<le> opcode \<and> opcode \<le> 0x83
              then pos + (if opcode = 0x81 then 4 else 1) else pos)
      } else Some pos)"

definition x64_insn_length :: "bytes \<Rightarrow> nat \<Rightarrow> nat ub" where
  "x64_insn_length code max_len =
     (if max_len = 0 then Some 0
      else do {
        (pos, has_rex) \<leftarrow> x64_skip_prefixes code max_len 0 False;
        if max_len \<le> pos then Some pos
        else do {
          opcode \<leftarrow> rd8 code pos;
          let pos = pos + 1;
          if opcode = 0x0F then
            if max_len \<le> pos then Some pos
            else do {
              opcode \<leftarrow> rd8 code pos;
              let pos = pos + 1;
              if opcode = 0x38 \<or> opcode = 0x3A then
                if max_len \<le> pos then Some pos
                else x64_modrm_length code max_len opcode (pos + 1)
              else x64_modrm_length code max_len opcode pos
            }
          else
            case x64_one_byte opcode has_rex of
              Some n \<Rightarrow> Some (pos + n)
            | None \<Rightarrow> x64_modrm_length code max_len opcode pos
        }
      })"

text \<open>The shorter list of prefixes that \<open>disasm_x64\<close> skips.\<close>

definition x64_decode_prefix :: "u8 \<Rightarrow> bool" where
  "x64_decode_prefix b \<longleftrightarrow>
     b AND 0xF0 = 0x40 \<or> b \<in> set [0x66, 0x67, 0xF2, 0xF3, 0x2E, 0x36]"

function x64_decode_skip :: "bytes \<Rightarrow> nat \<Rightarrow> nat \<Rightarrow> nat ub" where
  "x64_decode_skip code len pos =
     (if pos < len then
        case rd8 code pos of
          None \<Rightarrow> None
        | Some b \<Rightarrow> if x64_decode_prefix b then x64_decode_skip code len (pos + 1) else Some pos
      else Some pos)"
  by pat_completeness auto
termination by (relation "measure (\<lambda>(code, len, pos). len - pos)") auto

declare x64_skip_prefixes.simps [simp del]
declare x64_decode_skip.simps [simp del]

definition cond_jump_names :: "string list" where
  "cond_jump_names = [''jo'', ''jno'', ''jb'', ''jnb'', ''jz'', ''jnz'', ''jbe'', ''ja'',
     ''js'', ''jns'', ''jp'', ''jnp'', ''jl'', ''jge'', ''jle'', ''jg'']"

definition push_regs :: "string list" where
  "push_regs = [''rax'', ''rcx'', ''rdx'', ''rbx'', ''rsp'', ''rbp'', ''rsi'', ''rdi'']"

text \<open>A branch target from a displacement at \<open>p\<close>, where the instruction is long enough.\<close>

definition x64_rel32 :: "bytes \<Rightarrow> u64 \<Rightarrow> nat \<Rightarrow> nat \<Rightarrow> AInsn \<Rightarrow> AInsn ub" where
  "x64_rel32 code addr len p i =
     (if p + 4 \<le> len then do {
        rel \<leftarrow> rd32 code p;
        Some (set_target (addr + word_of_nat len + scast rel) i)
      } else Some i)"

definition x64_rel8 :: "bytes \<Rightarrow> u64 \<Rightarrow> nat \<Rightarrow> nat \<Rightarrow> AInsn \<Rightarrow> AInsn ub" where
  "x64_rel8 code addr len p i =
     (if p + 1 \<le> len then do {
        rel \<leftarrow> rd8 code p;
        Some (set_target (addr + word_of_nat len + scast rel) i)
      } else Some i)"

definition x64_two_byte :: "bytes \<Rightarrow> u64 \<Rightarrow> nat \<Rightarrow> nat \<Rightarrow> AInsn \<Rightarrow> AInsn ub" where
  "x64_two_byte code addr len pos i =
     (if pos + 1 < len then do {
        op2 \<leftarrow> rd8 code (pos + 1);
        if 0x80 \<le> op2 \<and> op2 \<le> 0x8F then
          x64_rel32 code addr len (pos + 2)
            (i\<lparr>ai_category := E9_INSN_COND_JUMP, ai_is_conditional := True,
               ai_mnemonic := cond_jump_names ! unat (op2 - 0x80)\<rparr>)
        else if op2 = 0x05 then
          Some (i\<lparr>ai_category := E9_INSN_SYSCALL, ai_mnemonic := ''syscall''\<rparr>)
        else
          Some (i\<lparr>ai_category := E9_INSN_OTHER, ai_mnemonic := ''0f'' @ hex_pad 2 (unat op2)\<rparr>)
      } else Some i)"

text \<open>The switch over the opcode at \<open>pos\<close>.\<close>

definition x64_decode :: "bytes \<Rightarrow> u64 \<Rightarrow> nat \<Rightarrow> nat \<Rightarrow> u8 \<Rightarrow> AInsn \<Rightarrow> AInsn ub" where
  "x64_decode code addr len pos opcode i =
     (if opcode = 0xC3 \<or> opcode = 0xCB then
        Some (i\<lparr>ai_category := E9_INSN_RET, ai_mnemonic := ''ret''\<rparr>)
      else if opcode = 0xC2 \<or> opcode = 0xCA then
        (let i = i\<lparr>ai_category := E9_INSN_RET, ai_mnemonic := ''ret''\<rparr> in
         if pos + 3 \<le> len then do {
           imm \<leftarrow> rd16 code (pos + 1);
           Some (i\<lparr>ai_operands := ''0x'' @ hex (unat imm)\<rparr>)
         } else Some i)
      else if opcode = 0xE8 then
        x64_rel32 code addr len (pos + 1) (i\<lparr>ai_category := E9_INSN_CALL, ai_mnemonic := ''call''\<rparr>)
      else if opcode = 0xE9 then
        x64_rel32 code addr len (pos + 1) (i\<lparr>ai_category := E9_INSN_JUMP, ai_mnemonic := ''jmp''\<rparr>)
      else if opcode = 0xEB then
        x64_rel8 code addr len (pos + 1) (i\<lparr>ai_category := E9_INSN_JUMP, ai_mnemonic := ''jmp''\<rparr>)
      else if 0x70 \<le> opcode \<and> opcode \<le> 0x7F then
        x64_rel8 code addr len (pos + 1)
          (i\<lparr>ai_category := E9_INSN_COND_JUMP, ai_is_conditional := True,
             ai_mnemonic := cond_jump_names ! unat (opcode - 0x70)\<rparr>)
      else if opcode = 0x90 then
        Some (i\<lparr>ai_category := E9_INSN_NOP, ai_mnemonic := ''nop''\<rparr>)
      else if opcode = 0xCC then
        Some (i\<lparr>ai_category := E9_INSN_OTHER, ai_mnemonic := ''int3''\<rparr>)
      else if opcode = 0x0F then x64_two_byte code addr len pos i
      else if 0x50 \<le> opcode \<and> opcode \<le> 0x57 then
        Some (i\<lparr>ai_category := E9_INSN_PUSH, ai_mnemonic := ''push'',
                ai_operands := push_regs ! unat (opcode - 0x50)\<rparr>)
      else if 0x58 \<le> opcode \<and> opcode \<le> 0x5F then
        Some (i\<lparr>ai_category := E9_INSN_POP, ai_mnemonic := ''pop'',
                ai_operands := push_regs ! unat (opcode - 0x58)\<rparr>)
      else
        Some (i\<lparr>ai_category := E9_INSN_OTHER, ai_mnemonic := ''op'' @ hex_pad 2 (unat opcode)\<rparr>))"

definition disasm_x64 :: "'a E9Binary_scheme \<Rightarrow> u64 \<Rightarrow> AInsn ptr ub" where
  "disasm_x64 bin addr =
     (let offset = insn_offset bin addr in
      if length (bin_data bin) \<le> unat offset then Some None
      else
        let code = drop (unat offset) (bin_data bin);
            max_len = min 16 (length (bin_data bin) - unat offset)
        in do {
          len \<leftarrow> x64_insn_length code max_len;
          if len = 0 \<or> max_len < len then Some None
          else do {
            bs \<leftarrow> rd_region code 0 len;
            pos \<leftarrow> x64_decode_skip code len 0;
            if len \<le> pos then Some (Some ((fresh_insn addr len bs)\<lparr>ai_mnemonic := ''???''\<rparr>))
            else do {
              opcode \<leftarrow> rd8 code pos;
              i \<leftarrow> x64_decode code addr len pos opcode (fresh_insn addr len bs);
              Some (Some i)
            }
          }
        })"

section \<open>AArch64\<close>

definition a64_cond_names :: "string list" where
  "a64_cond_names = [''eq'', ''ne'', ''cs'', ''cc'', ''mi'', ''pl'', ''vs'', ''vc'',
     ''hi'', ''ls'', ''ge'', ''lt'', ''gt'', ''le'', ''al'', ''nv'']"

text \<open>An immediate field, sign-extended to \<open>int32_t\<close> by or-ing the high bits in.\<close>

definition a64_imm :: "u32 \<Rightarrow> u32 \<Rightarrow> u32 \<Rightarrow> u32 \<Rightarrow> u32" where
  "a64_imm field msk sbit high =
     (let imm = field AND msk in if imm AND sbit \<noteq> 0 then imm OR high else imm)"

text \<open>\<open>addr + (imm << 2)\<close>\<close>

definition a64_target :: "u64 \<Rightarrow> u32 \<Rightarrow> u64" where
  "a64_target addr imm = addr + scast (push_bit 2 imm)"

definition a64_bit :: "u32 \<Rightarrow> nat \<Rightarrow> bool" where
  "a64_bit w n = (drop_bit n w AND 1 \<noteq> 0)"

definition decode_a64 :: "u64 \<Rightarrow> u32 \<Rightarrow> AInsn \<Rightarrow> AInsn" where
  "decode_a64 addr w i =
     (if w AND 0xFC000000 = 0x94000000 then
        set_target (a64_target addr (a64_imm w 0x03FFFFFF 0x02000000 0xFC000000))
          (i\<lparr>ai_category := E9_INSN_CALL, ai_mnemonic := ''bl''\<rparr>)
      else if w AND 0xFC000000 = 0x14000000 then
        set_target (a64_target addr (a64_imm w 0x03FFFFFF 0x02000000 0xFC000000))
          (i\<lparr>ai_category := E9_INSN_JUMP, ai_mnemonic := ''b''\<rparr>)
      else if w AND 0xFFFFFC1F = 0xD65F0000 then
        i\<lparr>ai_category := E9_INSN_RET, ai_mnemonic := ''ret''\<rparr>
      else if w AND 0xFF000010 = 0x54000000 then
        set_target (a64_target addr (a64_imm (drop_bit 5 w) 0x7FFFF 0x40000 0xFFF80000))
          (i\<lparr>ai_category := E9_INSN_COND_JUMP, ai_is_conditional := True,
             ai_mnemonic := ''b.'' @ a64_cond_names ! unat (w AND 0xF)\<rparr>)
      else if w AND 0x7F000000 = 0x34000000 then
        (let t = a64_target addr (a64_imm (drop_bit 5 w) 0x7FFFF 0x40000 0xFFF80000) in
         i\<lparr>ai_category := E9_INSN_COND_JUMP, ai_is_conditional := True,
           ai_mnemonic := (if a64_bit w 24 then ''cbnz'' else ''cbz''), ai_target := t,
           ai_operands := (if a64_bit w 31 then ''x'' else ''w'') @ dec (unat (w AND 0x1F)) @
             '', 0x'' @ hex (unat t)\<rparr>)
      else if w AND 0x7F000000 = 0x36000000 then
        set_target (a64_target addr (a64_imm (drop_bit 5 w) 0x3FFF 0x2000 0xFFFFC000))
          (i\<lparr>ai_category := E9_INSN_COND_JUMP, ai_is_conditional := True,
             ai_mnemonic := (if a64_bit w 24 then ''tbnz'' else ''tbz'')\<rparr>)
      else if w AND 0xFC000000 = 0xD4000000 then
        i\<lparr>ai_category := E9_INSN_SYSCALL, ai_mnemonic := ''svc'',
          ai_operands := ''#0x'' @ hex (unat (drop_bit 5 w AND 0xFFFF))\<rparr>
      else if w AND 0x1F000000 = 0x10000000 then
        i\<lparr>ai_category := E9_INSN_LEA,
          ai_mnemonic := (if a64_bit w 31 then ''adrp'' else ''adr'')\<rparr>
      else if w AND 0x3B000000 = 0x39000000 then
        (let is_load = a64_bit w 22 in
         i\<lparr>ai_category := (if is_load then E9_INSN_LOAD else E9_INSN_STORE),
           ai_mnemonic := (if is_load then ''ldr'' else ''str''),
           ai_reads_memory := is_load, ai_writes_memory := \<not> is_load\<rparr>)
      else if w AND 0x7F800000 = 0x29000000 \<or> w AND 0x7F800000 = 0x28000000 then
        (let is_load = a64_bit w 22 in
         i\<lparr>ai_category := (if is_load then E9_INSN_LOAD else E9_INSN_STORE),
           ai_mnemonic := (if is_load then ''ldp'' else ''stp'')\<rparr>)
      else if w AND 0xFF000000 = 0xD1000000 \<or> w AND 0xFF000000 = 0x91000000 then
        i\<lparr>ai_category := E9_INSN_ARITHMETIC,
          ai_mnemonic := (if a64_bit w 30 then ''sub'' else ''add'')\<rparr>
      else if w = 0xD503201F then
        i\<lparr>ai_category := E9_INSN_NOP, ai_mnemonic := ''nop''\<rparr>
      else
        i\<lparr>ai_category := E9_INSN_OTHER, ai_mnemonic := ''0x'' @ hex_pad 8 (unat w)\<rparr>)"

text \<open>\<open>offset + 4\<close> is computed in 64 bits and wraps around.\<close>

definition disasm_aarch64 :: "'a E9Binary_scheme \<Rightarrow> u64 \<Rightarrow> AInsn ptr ub" where
  "disasm_aarch64 bin addr =
     (let offset = insn_offset bin addr in
      if length (bin_data bin) < unat (offset + 4) then Some None
      else do {
        w \<leftarrow> rd32 (bin_data bin) (unat offset);
        bs \<leftarrow> rd_region (bin_data bin) (unat offset) 4;
        Some (Some (decode_a64 addr w (fresh_insn addr 4 bs)))
      })"

section \<open>The interface\<close>

definition disasm_at :: "'a E9Binary_scheme \<Rightarrow> u64 \<Rightarrow> AInsn ptr ub" where
  "disasm_at bin addr =
     (case bin_arch bin of
        E9_ARCH_X86_64 \<Rightarrow> disasm_x64 bin addr
      | E9_ARCH_AARCH64 \<Rightarrow> disasm_aarch64 bin addr
      | _ \<Rightarrow> Some None)"

definition e9_disasm_instruction :: "'a E9Binary_scheme ptr \<Rightarrow> u64 \<Rightarrow> AInsn ptr ub" where
  "e9_disasm_instruction b addr = (case b of None \<Rightarrow> Some None | Some bin \<Rightarrow> disasm_at bin addr)"

text \<open>
  The loop of \<open>e9_disasm_range\<close>, for any decoder of single instructions; it returns the linked
  list.  \<open>None\<close> also stands for a loop that does not end.
\<close>

partial_function (option) range_loop ::
  "(u64 \<Rightarrow> AInsn ptr ub) \<Rightarrow> u64 \<Rightarrow> u64 \<Rightarrow> AInsn list option" where
  [code]: "range_loop dis addr endp =
     (if addr < endp then do {
        i \<leftarrow> dis addr;
        case i of
          None \<Rightarrow> Some []
        | Some insn \<Rightarrow> do {
            rest \<leftarrow> range_loop dis (addr + word_of_nat (ai_size insn)) endp;
            Some (insn # rest)
          }
      } else Some [])"

definition e9_disasm_range :: "'a E9Binary_scheme ptr \<Rightarrow> u64 \<Rightarrow> u64 \<Rightarrow> AInsn list option" where
  "e9_disasm_range b start endp =
     (case b of
        None \<Rightarrow> Some []
      | Some bin \<Rightarrow> if endp \<le> start then Some [] else range_loop (disasm_at bin) start endp)"

text \<open>The result and what is stored through the pointer \<open>insn\<close>.\<close>

definition e9_disasm :: "'a E9Binary_scheme ptr \<Rightarrow> u64 \<Rightarrow> AInsn ptr \<Rightarrow> (int \<times> AInsn ptr) ub" where
  "e9_disasm b addr insn =
     (if b = None \<or> insn = None then Some (-1, insn)
      else do {
        tmp \<leftarrow> e9_disasm_instruction b addr;
        case tmp of None \<Rightarrow> Some (-1, insn) | Some t \<Rightarrow> Some (0, Some t)
      })"

text \<open>
  \<open>e9_disasm_str\<close>: the hexadecimal bytes (eight at most) are collected in \<open>bytes_str[48]\<close>, which
  is not initialised when the instruction has no bytes.
\<close>

definition insn_hex_bytes :: "AInsn \<Rightarrow> string" where
  "insn_hex_bytes i = concat (map (\<lambda>b. hex_pad 2 (unat b) @ '' '') (take (min 8 (ai_size i)) (ai_bytes i)))"

definition insn_line :: "AInsn \<Rightarrow> string" where
  "insn_line i =
     (let h = insn_hex_bytes i in
      hex_pad 16 (unat (ai_address i)) @ '': '' @ h @ replicate (24 - length h) (CHR '' '') @ '' '' @
      ai_mnemonic i @ '' '' @ ai_operands i)"

definition e9_disasm_str :: "AInsn ptr \<Rightarrow> nat \<Rightarrow> string ub" where
  "e9_disasm_str insn bufsize =
     (case insn of
        None \<Rightarrow> Some []
      | Some i \<Rightarrow>
          if bufsize = 0 then Some []
          else if ai_size i = 0 then None
          else Some (take (bufsize - 1) (insn_line i)))"

section \<open>Lemmas: lengths\<close>

lemma x64_skip_prefixes_total:
  "max_len \<le> length code \<Longrightarrow> pos \<le> max_len \<Longrightarrow>
   \<exists>p r. x64_skip_prefixes code max_len pos rex = Some (p, r) \<and> pos \<le> p \<and> p \<le> max_len"
proof (induction code max_len pos rex rule: x64_skip_prefixes.induct)
  case (1 code max_len pos rex)
  show ?case
  proof (cases "pos < max_len")
    case True
    then have b: "rd8 code pos = Some (code ! pos)" using "1.prems" by (simp add: rd8_def)
    with 1 True show ?thesis
      by (subst x64_skip_prefixes.simps) (fastforce dest: Suc_leD)
  next
    case False
    then show ?thesis using "1.prems" by (subst x64_skip_prefixes.simps) simp
  qed
qed

lemma x64_decode_skip_total:
  "len \<le> length code \<Longrightarrow> pos \<le> len \<Longrightarrow>
   \<exists>p. x64_decode_skip code len pos = Some p \<and> pos \<le> p \<and> p \<le> len"
proof (induction code len pos rule: x64_decode_skip.induct)
  case (1 code len pos)
  show ?case
  proof (cases "pos < len")
    case True
    then have b: "rd8 code pos = Some (code ! pos)" using "1.prems" by (simp add: rd8_def)
    with 1 True show ?thesis
      by (subst x64_decode_skip.simps) (fastforce dest: Suc_leD)
  next
    case False
    then show ?thesis using "1.prems" by (subst x64_decode_skip.simps) simp
  qed
qed

lemma x64_modrm_length_total:
  assumes "max_len \<le> length code"
  shows "\<exists>n. x64_modrm_length code max_len op pos = Some n \<and> pos \<le> n \<and> (pos < max_len \<longrightarrow> pos < n)"
proof (cases "pos < max_len")
  case True
  then have "rd8 code pos = Some (code ! pos)" using assms by (simp add: rd8_def)
  with True show ?thesis by (simp add: x64_modrm_length_def Let_def)
next
  case False
  then show ?thesis by (simp add: x64_modrm_length_def)
qed

lemma x64_insn_length_total:
  assumes "max_len \<le> length code" and "0 < max_len"
  shows "\<exists>n. x64_insn_length code max_len = Some n \<and> 0 < n"
proof -
  obtain p r where p: "x64_skip_prefixes code max_len 0 False = Some (p, r)" "p \<le> max_len"
    using x64_skip_prefixes_total [of max_len code 0 False] assms by auto
  have rd: "rd8 code q = Some (code ! q)" if "q < max_len" for q
    using that assms(1) by (simp add: rd8_def)
  have modrm: "\<exists>n. x64_modrm_length code max_len op (q + 1) = Some n \<and> 0 < n" for op q
    using x64_modrm_length_total [OF assms(1), of op "q + 1"] by auto
  have "\<not> max_len \<le> p \<or> 0 < p" using assms(2) by linarith
  with p rd modrm assms(2) show ?thesis
    by (auto simp: x64_insn_length_def Let_def simp del: One_nat_def split: option.split)
qed

section \<open>Lemmas: what a decoder writes\<close>

text \<open>The decoders leave the address, the size and the bytes of the instruction alone.\<close>

definition insn_frame :: "AInsn \<Rightarrow> AInsn \<Rightarrow> bool" where
  "insn_frame i j \<longleftrightarrow> ai_address j = ai_address i \<and> ai_size j = ai_size i \<and> ai_bytes j = ai_bytes i"

definition texts_fit :: "AInsn \<Rightarrow> bool" where
  "texts_fit i \<longleftrightarrow> length (ai_mnemonic i) \<le> 15 \<and> length (ai_operands i) \<le> 127"

lemma length_hex_u64: "length (hex (unat (v :: u64))) \<le> 16"
  using length_hex_le [of "unat v" 16] unat_u64_less [of v] by simp

lemma set_target_frame:
  "insn_frame i (set_target t i)" "length (ai_mnemonic i) \<le> 15 \<Longrightarrow> texts_fit (set_target t i)"
  using length_hex_u64 [of t] by (simp_all add: insn_frame_def texts_fit_def set_target_def)

lemma nth_short: "n < length xs \<Longrightarrow> list_all (\<lambda>s. length s \<le> k) xs \<Longrightarrow> length (xs ! n) \<le> k"
  by (simp add: list_all_length)

lemma jcc_names_short: "n < 16 \<Longrightarrow> length (cond_jump_names ! n) \<le> 15"
  by (rule nth_short) (simp_all add: cond_jump_names_def)

lemma push_regs_short: "n < 8 \<Longrightarrow> length (push_regs ! n) \<le> 127"
  by (rule nth_short) (simp_all add: push_regs_def)

lemma u8_index:
  assumes "a \<le> (x :: u8)" and "x \<le> b"
  shows "unat (x - a) \<le> unat b - unat a"
proof -
  have "unat (x - a) = unat x - unat a" using assms(1) by (simp add: unat_sub)
  moreover have "unat x \<le> unat b" using assms(2) by (simp add: word_le_nat_alt)
  ultimately show ?thesis by simp
qed

lemma x64_rel_total:
  assumes "len \<le> length code" and "length (ai_mnemonic i) \<le> 15" and "length (ai_operands i) \<le> 127"
  shows "\<exists>j. x64_rel32 code addr len p i = Some j \<and> insn_frame i j \<and> texts_fit j"
    and "\<exists>j. x64_rel8 code addr len p i = Some j \<and> insn_frame i j \<and> texts_fit j"
proof -
  have "p + 4 \<le> len \<Longrightarrow> \<exists>r. rd32 code p = Some r"
    using assms(1) rd32_eq_None [of code p] by (cases "rd32 code p") auto
  then show "\<exists>j. x64_rel32 code addr len p i = Some j \<and> insn_frame i j \<and> texts_fit j"
    using assms(2,3) set_target_frame by (auto simp: x64_rel32_def insn_frame_def texts_fit_def)
  show "\<exists>j. x64_rel8 code addr len p i = Some j \<and> insn_frame i j \<and> texts_fit j"
    using assms set_target_frame by (auto simp: x64_rel8_def rd8_def insn_frame_def texts_fit_def)
qed

lemma insn_frame_update:
  "insn_frame (i\<lparr>ai_category := c, ai_mnemonic := s\<rparr>) j = insn_frame i j"
  "insn_frame (i\<lparr>ai_category := c, ai_is_conditional := b, ai_mnemonic := s\<rparr>) j = insn_frame i j"
  by (simp_all add: insn_frame_def)

lemma length_hex2: "length (hex_pad 2 (unat (b :: u8))) = 2"
  using length_hex_u8 [of b] by (simp add: length_hex_pad)

lemma x64_two_byte_total:
  assumes "len \<le> length code" and "texts_fit i"
  shows "\<exists>j. x64_two_byte code addr len pos i = Some j \<and> insn_frame i j \<and> texts_fit j"
proof (cases "pos + 1 < len")
  case True
  then have rd: "rd8 code (pos + 1) = Some (code ! (pos + 1))" using assms(1) by (simp add: rd8_def)
  let ?b = "code ! (pos + 1)"
  show ?thesis
  proof (cases "0x80 \<le> ?b \<and> ?b \<le> 0x8F")
    case j: True
    then have "unat (?b - 0x80) < 16" using u8_index [of "0x80" ?b "0x8F"] by simp
    with jcc_names_short j True rd assms show ?thesis
      using x64_rel_total(1) [OF assms(1), of "i\<lparr>ai_category := E9_INSN_COND_JUMP, ai_is_conditional := True,
        ai_mnemonic := cond_jump_names ! unat (?b - 0x80)\<rparr>" addr "pos + 2"]
      by (simp add: x64_two_byte_def texts_fit_def insn_frame_update)
  next
    case j: False
    then show ?thesis using True rd assms(2) length_hex2 [of ?b]
      by (auto simp: x64_two_byte_def texts_fit_def insn_frame_def)
  qed
next
  case False
  with assms(2) show ?thesis by (simp add: x64_two_byte_def insn_frame_def)
qed

lemma x64_decode_total:
  assumes len: "len \<le> length code" and fit: "texts_fit i"
  shows "\<exists>j. x64_decode code addr len pos op i = Some j \<and> insn_frame i j \<and> texts_fit j"
proof -
  have ret: "\<exists>v. rd16 code (Suc pos) = Some v \<and> length (hex (unat v)) \<le> 4" if "pos + 3 \<le> len"
  proof -
    from that len obtain v where v: "rd16 code (Suc pos) = Some v"
      using rd16_eq_None [of code "Suc pos"] by (cases "rd16 code (Suc pos)") auto
    with length_hex_le [of "unat v" 4] unat_u16_less [of v] show ?thesis by simp
  qed
  have jcc: "length (cond_jump_names ! unat (op - 0x70)) \<le> 15" if "0x70 \<le> op" "op \<le> 0x7F"
    using jcc_names_short u8_index [OF that] by simp
  have reg1: "length (push_regs ! unat (op - 0x50)) \<le> 127" if "0x50 \<le> op" "op \<le> 0x57"
    using push_regs_short u8_index [OF that] by simp
  have reg2: "length (push_regs ! unat (op - 0x58)) \<le> 127" if "0x58 \<le> op" "op \<le> 0x5F"
    using push_regs_short u8_index [OF that] by simp
  note rel = x64_rel_total [OF len, of "i\<lparr>ai_category := c, ai_mnemonic := s\<rparr>" for c s]
    x64_rel_total [OF len, of "i\<lparr>ai_category := c, ai_is_conditional := True, ai_mnemonic := s\<rparr>" for c s]
  have fit': "length (ai_operands i) \<le> 127" "length (ai_mnemonic i) \<le> 15" using fit by (simp_all add: texts_fit_def)
  show ?thesis
    unfolding x64_decode_def Let_def
    using x64_two_byte_total [OF len fit, of addr pos] fit' length_hex2 [of op] jcc reg1 reg2 rel ret
    by (auto simp: insn_frame_update insn_frame_def texts_fit_def)
qed

section \<open>Every decoded instruction is well-formed\<close>

text \<open>
  The instruction at an address: it has that address, between 1 and 16 bytes, all of them inside
  the file and copied from there, and its texts fit the arrays they are stored in.
\<close>

definition insn_wf :: "'a E9Binary_scheme \<Rightarrow> u64 \<Rightarrow> AInsn \<Rightarrow> bool" where
  "insn_wf bin addr i \<longleftrightarrow>
     ai_address i = addr \<and> 0 < ai_size i \<and> ai_size i \<le> 16 \<and>
     unat (insn_offset bin addr) + ai_size i \<le> length (bin_data bin) \<and>
     ai_bytes i = take (ai_size i) (drop (unat (insn_offset bin addr)) (bin_data bin)) \<and>
     texts_fit i"

lemma disasm_x64_total:
  "\<exists>r. disasm_x64 bin addr = Some r \<and> (\<forall>i. r = Some i \<longrightarrow> insn_wf bin addr i)"
proof (cases "length (bin_data bin) \<le> unat (insn_offset bin addr)")
  case True
  then show ?thesis by (simp add: disasm_x64_def)
next
  case False
  define code where "code = drop (unat (insn_offset bin addr)) (bin_data bin)"
  define max_len where "max_len = min 16 (length (bin_data bin) - unat (insn_offset bin addr))"
  have m: "max_len \<le> length code" "0 < max_len" "max_len \<le> 16"
    using False by (simp_all add: code_def max_len_def)
  from x64_insn_length_total [OF m(1,2)] obtain len
    where len: "x64_insn_length code max_len = Some len" "0 < len" by auto
  show ?thesis
  proof (cases "max_len < len")
    case True
    with False len show ?thesis by (simp add: disasm_x64_def code_def max_len_def)
  next
    case le: False
    then have lc: "len \<le> length code" using m by simp
    from x64_decode_skip_total [OF lc, of 0] obtain pos
      where pos: "x64_decode_skip code len 0 = Some pos" by auto
    let ?i = "fresh_insn addr len (take len code)"
    have fit: "texts_fit ?i" by (simp add: texts_fit_def fresh_insn_def)
    have wf: "insn_wf bin addr j" if "insn_frame ?i j" "texts_fit j" for j
      using that le m(3) False len(2)
      by (auto simp: insn_wf_def insn_frame_def fresh_insn_def code_def max_len_def)
    have unk: "insn_wf bin addr (?i\<lparr>ai_mnemonic := ''???''\<rparr>)"
      by (rule wf) (simp_all add: insn_frame_def texts_fit_def fresh_insn_def)
    have op: "rd8 code pos = Some (code ! pos)" if "pos < len" using that lc by (simp add: rd8_def)
    have bs: "rd_region code 0 len = Some (take len code)" using lc by (simp add: rd_region_def)
    from x64_decode_total [OF lc fit] wf obtain j
      where "x64_decode code addr len pos (code ! pos) ?i = Some j" "insn_wf bin addr j" by blast
    with False len le pos unk op bs show ?thesis
      by (cases "len \<le> pos") (simp_all add: disasm_x64_def code_def max_len_def Let_def)
  qed
qed

lemma a64_cond_names_short: "n < 16 \<Longrightarrow> length (a64_cond_names ! n) \<le> 2"
  by (rule nth_short) (simp_all add: a64_cond_names_def)

lemma unat_and_le: "unat (w AND m) \<le> unat m" for w m :: "'a::len word"
  by (metis word_and_le1 word_le_nat_alt)

lemma a64_decode_frame:
  assumes "texts_fit i"
  shows "insn_frame i (decode_a64 addr w i) \<and> texts_fit (decode_a64 addr w i)"
proof -
  have c: "length (a64_cond_names ! unat (w AND 0xF)) \<le> 2"
    using a64_cond_names_short unat_and_le [of w "0xF"] by simp
  have d: "length (dec (unat (w AND 0x1F))) \<le> 2"
    using length_dec_le [of "unat (w AND 0x1F)" 2] unat_and_le [of w "0x1F"] by simp
  have h: "length (hex_pad 8 (unat w)) = 8"
    using length_hex_u32 [of w] by (simp add: length_hex_pad)
  have h2: "length (hex (unat (v :: u32))) \<le> 124" for v
    using length_hex_u32 [of v] by simp
  have h3: "length (hex (unat (v :: u64))) \<le> 125" for v
    using length_hex_u64 [of v] by simp
  have h4: "length (dec (unat (w AND 0x1F))) + length (hex (unat (v :: u64))) \<le> 122" for v
    using d length_hex_u64 [of v] by linarith
  have h5: "length (hex 6400) \<le> 124" using length_hex_le [of 6400 4] by simp
  show ?thesis
    using assms c d h h2 h3 h4 h5
    by (simp add: decode_a64_def Let_def insn_frame_def texts_fit_def set_target_def)
qed

lemma disasm_aarch64_wf:
  assumes "disasm_aarch64 bin addr = Some (Some i)"
  shows "insn_wf bin addr i"
proof -
  let ?o = "unat (insn_offset bin addr)"
  from assms obtain w where w: "rd32 (bin_data bin) ?o = Some w" "?o + 4 \<le> length (bin_data bin)"
    "i = decode_a64 addr w (fresh_insn addr 4 (take 4 (drop ?o (bin_data bin))))"
    by (auto simp: disasm_aarch64_def Let_def Option.bind_eq_Some_conv buf_simps split: if_splits)
  with a64_decode_frame [of "fresh_insn addr 4 (take 4 (drop ?o (bin_data bin)))" addr w]
  show ?thesis by (simp add: insn_wf_def insn_frame_def texts_fit_def fresh_insn_def)
qed

lemma disasm_aarch64_total:
  assumes "unat (insn_offset bin addr) + 4 < 2 ^ 64"
  shows "\<exists>r. disasm_aarch64 bin addr = Some r"
proof -
  let ?o = "insn_offset bin addr"
  have "unat (?o + 4) = unat ?o + 4" using assms unat_add_small [of ?o 4] by simp
  moreover have "\<exists>w. rd32 (bin_data bin) (unat ?o) = Some w" if "unat ?o + 4 \<le> length (bin_data bin)"
    using that rd32_eq_None [of "bin_data bin" "unat ?o"] by (cases "rd32 (bin_data bin) (unat ?o)") auto
  ultimately show ?thesis
    by (auto simp: disasm_aarch64_def Let_def rd_region_def)
qed

lemma disasm_at_wf: "disasm_at bin addr = Some (Some i) \<Longrightarrow> insn_wf bin addr i"
  using disasm_x64_total [of bin addr] disasm_aarch64_wf
  by (auto simp: disasm_at_def split: E9Arch.splits)

lemma disasm_at_total:
  assumes "bin_arch bin = E9_ARCH_AARCH64 \<longrightarrow> unat (insn_offset bin addr) + 4 < 2 ^ 64"
  shows "\<exists>r. disasm_at bin addr = Some r"
  using assms disasm_x64_total [of bin addr] disasm_aarch64_total [of bin addr]
  by (auto simp: disasm_at_def split: E9Arch.split)

section \<open>Properties of the decoders\<close>

text \<open>
  C18.  e9_disasm_instruction never leaves the file and only returns well-formed instructions,
  for every x86-64 image and address, and for AArch64 images wherever the offset is not among the
  last four of the address space.
\<close>

theorem disasm_typed:
  assumes "bin_arch bin = E9_ARCH_AARCH64 \<longrightarrow> unat (insn_offset bin addr) + 4 < 2 ^ 64"
  shows "\<exists>r. e9_disasm_instruction (Some bin) addr = Some r \<and> (\<forall>i. r = Some i \<longrightarrow> insn_wf bin addr i)"
  using disasm_at_total [OF assms] disasm_at_wf [of bin addr]
  by (auto simp: e9_disasm_instruction_def)

definition insn_demo :: "E9Arch \<Rightarrow> bytes \<Rightarrow> E9Binary" where
  "insn_demo arch d = \<lparr>bin_data = d, bin_base_address = 0x1000, bin_arch = arch, bin_sections = []\<rparr>"

lemma disasm_typed_witness:
  "\<exists>r. e9_disasm_instruction (Some (insn_demo E9_ARCH_AARCH64 [0xC0, 0x03, 0x5F, 0xD6])) 0x1000 = Some r \<and>
     (\<forall>i. r = Some i \<longrightarrow> insn_wf (insn_demo E9_ARCH_AARCH64 [0xC0, 0x03, 0x5F, 0xD6]) 0x1000 i)"
  by (rule disasm_typed) code_simp

lemma x64_skip_none:
  assumes "0 < max_len" and "rd8 code 0 = Some b"
    and "b \<notin> set x64_length_prefixes" and "b AND 0xF0 \<noteq> 0x40"
  shows "x64_skip_prefixes code max_len 0 rex = Some (0, rex)"
  using assms by (subst x64_skip_prefixes.simps) simp

lemma x64_modrm_length_ge:
  assumes "x64_modrm_length code max_len op pos = Some n" and "pos < max_len"
  shows "pos < n"
  using assms by (auto simp: x64_modrm_length_def Let_def Option.bind_eq_Some_conv split: if_splits)

definition push_pop_ops :: "u8 list" where
  "push_pop_ops = [0x50, 0x51, 0x52, 0x53, 0x54, 0x55, 0x56, 0x57, 0x58, 0x59, 0x5A, 0x5B, 0x5C, 0x5D, 0x5E, 0x5F]"

lemma u8_range_mem:
  assumes "a \<le> (x :: u8)" and "x \<le> b"
  shows "x \<in> set (map word_of_nat [unat a ..< Suc (unat b)])"
proof -
  have "unat x \<in> set [unat a ..< Suc (unat b)]" using assms by (auto simp: word_le_nat_alt)
  then have "word_of_nat (unat x) \<in> set (map (word_of_nat :: nat \<Rightarrow> u8) [unat a ..< Suc (unat b)])"
    by (simp only: set_map imageI)
  then show ?thesis by simp
qed

lemma push_pop_ops_mem: "0x50 \<le> op \<Longrightarrow> op \<le> 0x5F \<Longrightarrow> op \<in> set push_pop_ops"
  using u8_range_mem [of "0x50" op "0x5F"] by (simp add: push_pop_ops_def upt_rec)

lemma push_pop_bytes:
  "list_all (\<lambda>op. op \<notin> set x64_length_prefixes \<and> op AND 0xF0 \<noteq> 0x40 \<and> op \<noteq> 0x0F \<and>
     x64_one_byte op True = None \<and> x64_one_byte op False = None) push_pop_ops"
  by code_simp

lemma x64_push_length:
  assumes "0x50 \<le> code ! 0" and "code ! 0 \<le> 0x5F" and m: "1 < max_len" "max_len \<le> length code"
  shows "\<exists>n. x64_insn_length code max_len = Some n \<and> 1 < n"
proof -
  have op: "rd8 code 0 = Some (code ! 0)" using m by (auto simp: rd8_def)
  from push_pop_ops_mem [OF assms(1,2)] push_pop_bytes
  have f: "code ! 0 \<notin> set x64_length_prefixes" "code ! 0 AND 0xF0 \<noteq> 0x40" "code ! 0 \<noteq> 0x0F"
    "x64_one_byte (code ! 0) False = None"
    by (auto simp: list_all_iff simp del: insert_iff)
  have "x64_skip_prefixes code max_len 0 False = Some (0, False)"
    by (rule x64_skip_none [OF _ op f(1,2)]) (use m in simp)
  with f op m have "x64_insn_length code max_len = x64_modrm_length code max_len (code ! 0) 1"
    by (simp add: x64_insn_length_def)
  then show ?thesis using x64_modrm_length_total [OF m(2), of "code ! 0" 1] m by auto
qed

lemma x64_near_jcc_length:
  assumes "code ! 0 = 0x0F" and op: "0x84 \<le> code ! 1" and m: "2 < max_len" "max_len \<le> length code"
  shows "x64_insn_length code max_len \<noteq> Some 6"
proof -
  have rd: "rd8 code 0 = Some 0x0F" "rd8 code 1 = Some (code ! 1)" "rd8 code 2 = Some (code ! 2)"
    using m assms(1) by (auto simp: rd8_def)
  have "x64_skip_prefixes code max_len 0 False = Some (0, False)"
    by (rule x64_skip_none [OF _ rd(1)]) (use m in \<open>simp_all add: x64_length_prefixes_def\<close>)
  moreover have "code ! 1 \<noteq> 0x38" "code ! 1 \<noteq> 0x3A" using op by (auto simp: word_le_nat_alt)
  ultimately have "x64_insn_length code max_len = x64_modrm_length code max_len (code ! 1) 2"
    using rd m by (simp add: x64_insn_length_def numeral_2_eq_2)
  moreover have "\<not> (0x80 \<le> code ! 1 \<and> code ! 1 \<le> 0x83)" using op by (auto simp: word_le_nat_alt)
  ultimately show ?thesis using rd(3) m by (auto simp: x64_modrm_length_def Let_def)
qed



section \<open>AArch64 branches\<close>

lemma masks_apart: "w AND m1 = v1 \<Longrightarrow> v1 AND m2 \<noteq> v2 AND m1 \<Longrightarrow> w AND m2 \<noteq> v2" for w :: "'a::len word"
  by (metis and.assoc and.commute)

text \<open>The whole system and branch-register space D4 to D7, RET apart, is taken for SVC.\<close>

lemma a64_system_syscall:
  assumes "w AND 0xFC000000 = 0xD4000000" and "w AND 0xFFFFFC1F \<noteq> 0xD65F0000"
  shows "ai_category (decode_a64 addr w i) = E9_INSN_SYSCALL"
proof -
  have "w AND 0xFF000010 \<noteq> 0x54000000" "w AND 0x7F000000 \<noteq> 0x34000000" "w AND 0x7F000000 \<noteq> 0x36000000"
    by (rule masks_apart [OF assms(1)], simp)+
  with assms show ?thesis by (simp add: decode_a64_def)
qed

text \<open>The masks for CBZ and TBZ include the bit that tells CBNZ and TBNZ apart.\<close>

lemma a64_nz_no_branch:
  assumes "w AND 0x7F000000 = 0x35000000 \<or> w AND 0x7F000000 = 0x37000000"
  shows "ai_category (decode_a64 addr w i) \<noteq> E9_INSN_COND_JUMP"
proof -
  have "w AND 0xFF000010 \<noteq> 0x54000000" "w AND 0x7F000000 \<noteq> 0x34000000" "w AND 0x7F000000 \<noteq> 0x36000000"
    using assms masks_apart [of w "0x7F000000" _ "0xFF000010" "0x54000000"] by auto
  then show ?thesis by (simp add: decode_a64_def set_target_def Let_def)
qed

text \<open>
  Where disasm_aarch64 is wrong: CBNZ and TBNZ are never conditional jumps; NOP, BR, BLR,
  MRS and everything else between D4000000 and D7FFFFFF except RET is reported as a system call;
  and an address within four bytes of the end of the address space passes the bounds check,
  because the sum wraps around, and is read outside the file.
\<close>

theorem a64_decode_wrong:
  "(w AND 0x7F000000 = 0x35000000 \<or> w AND 0x7F000000 = 0x37000000 \<longrightarrow>
      ai_category (decode_a64 addr w i) \<noteq> E9_INSN_COND_JUMP) \<and>
   (w AND 0xFC000000 = 0xD4000000 \<and> w AND 0xFFFFFC1F \<noteq> 0xD65F0000 \<longrightarrow>
      ai_category (decode_a64 addr w i) = E9_INSN_SYSCALL) \<and>
   (2 ^ 64 - 4 \<le> unat (insn_offset bin addr) \<and> 4 \<le> length (bin_data bin) \<and> length (bin_data bin) < 2 ^ 63 \<longrightarrow>
      disasm_aarch64 bin addr = None)"
proof (intro conjI impI)
  show "disasm_aarch64 bin addr = None"
    if far: "2 ^ 64 - 4 \<le> unat (insn_offset bin addr) \<and> 4 \<le> length (bin_data bin) \<and> length (bin_data bin) < 2 ^ 63"
  proof -
    let ?o = "insn_offset bin addr"
    have "unat (?o + 4) = (unat ?o + 4) mod 2 ^ 64"
      by (simp add: unat_word_ariths)
    also have "\<dots> < 4"
      using far unat_u64_less [of ?o] by (auto simp: mod_if)
    finally have "\<not> length (bin_data bin) < unat (?o + 4)" using far by simp
    moreover have "rd32 (bin_data bin) (unat ?o) = None" using far by (simp add: rd32_eq_None)
    ultimately show ?thesis by (simp add: disasm_aarch64_def Let_def)
  qed
qed (use a64_nz_no_branch [of w addr i] a64_system_syscall [of w addr i] in auto)

lemma a64_decode_wrong_witness:
  "ai_category (decode_a64 0 0xB5000040 (fresh_insn 0 4 [])) \<noteq> E9_INSN_COND_JUMP \<and>
   ai_category (decode_a64 0 0xD63F0200 (fresh_insn 0 4 [])) = E9_INSN_SYSCALL \<and>
   ai_category (decode_a64 0 0xD503201F (fresh_insn 0 4 [])) = E9_INSN_SYSCALL \<and>
   disasm_aarch64 ((insn_demo E9_ARCH_AARCH64 [0, 0, 0, 0])\<lparr>bin_base_address := 0\<rparr>) 0xFFFFFFFFFFFFFFFC = None"
  using a64_decode_wrong [of "0xB5000040" 0 "fresh_insn 0 4 []"] a64_decode_wrong [of "0xD63F0200" 0 "fresh_insn 0 4 []"]
    a64_decode_wrong [of "0xD503201F" 0 "fresh_insn 0 4 []"]
    a64_decode_wrong [of 0 "0xFFFFFFFFFFFFFFFC" "fresh_insn 0 4 []"
      "(insn_demo E9_ARCH_AARCH64 [0, 0, 0, 0])\<lparr>bin_base_address := 0\<rparr>"]
  by (simp add: insn_demo_def insn_offset_def)

end
