(* ===== verification/E9PatchDecode.thy ===== *)
theory E9PatchDecode
  imports E9BinPatch E9Insn
begin

text \<open>
  The patch generator and the disassembler of the analysis engine agree: what
  \<open>e9_binpatch_gen_call\<close> and \<open>e9_binpatch_gen_jmp\<close> (\<open>e9binpatch.c\<close>) encode is what
  \<open>e9_disasm_instruction\<close> (\<open>e9analysis.c\<close>) reads back.
\<close>


lemma bit25_test: "w AND 0x2000000 \<noteq> 0 \<longleftrightarrow> bit w 25" for w :: u32
proof -
  have "push_bit 25 (1 :: u32) = 0x2000000" by simp
  then show ?thesis using bit_iff_and_push_bit_not_eq_0 [of w 25] by simp
qed

lemma a64_target_imm26:
  "a64_target addr (a64_imm w 0x03FFFFFF 0x02000000 0xFC000000) =
   addr + word_of_int (4 * signed_take_bit 25 (uint (w AND 0x03FFFFFF)))"
proof -
  define x where "x = w AND 0x03FFFFFF"
  define u where "u = uint x"
  have u: "0 \<le> u" "u < 2 ^ 26"
  proof -
    have "x = take_bit 26 w" by (simp add: x_def take_bit_eq_mask mask_eq_exp_minus_1)
    then have "u = take_bit 26 u" by (simp add: u_def unsigned_take_bit_eq)
    then show "0 \<le> u" "u < 2 ^ 26" by (metis take_bit_nonnegative, metis take_bit_int_less_exp)
  qed
  define s where "s = signed_take_bit 25 u"
  have bu: "bit u 25 = bit x 25" by (simp add: u_def bit_uint_iff)
  have tu: "take_bit 26 u = u" using u by (simp add: take_bit_int_eq_self)
  have s: "s = (if bit x 25 then u - 2 ^ 26 else u)"
  proof (cases "bit x 25")
    case True
    then have "s = take_bit 26 u - 2 ^ 26"
      using signed_take_bit_eq_take_bit_minus [of 25 u] bu by (simp add: s_def)
    with True tu show ?thesis by simp
  next
    case False
    then have "s = take_bit 26 u" using signed_take_bit_eq_take_bit_minus [of 25 u] bu by (simp add: s_def)
    with False tu show ?thesis by simp
  qed
  have low: "x AND 0xFC000000 = 0" by (simp add: x_def and.assoc)
  have "x OR 0xFC000000 = x + 0xFC000000" using low by (simp add: disjunctive_add_eq_or)
  also have "\<dots> = word_of_int (u - 2 ^ 26)" by (simp add: u_def)
  finally have high: "x OR 0xFC000000 = word_of_int (u - 2 ^ 26)" .
  have imm: "a64_imm w 0x03FFFFFF 0x02000000 0xFC000000 = word_of_int s"
    using high bit25_test [of x] by (simp add: a64_imm_def x_def [symmetric] s u_def)
  have "push_bit 2 (word_of_int s :: u32) = word_of_int (4 * s)"
    by (simp add: push_bit_eq_mult mult.commute)
  moreover have "scast (word_of_int (4 * s) :: u32) = (word_of_int (4 * s) :: u64)"
    by (rule scast_word_of_int) (use s u in \<open>auto split: if_splits\<close>)
  ultimately show ?thesis by (simp add: a64_target_def imm s_def u_def x_def)
qed

section \<open>Reading a generated branch\<close>

text \<open>The near encodings: a 32-bit displacement on x86-64, a 26-bit one of words on AArch64.\<close>

definition near_branch :: "E9Arch \<Rightarrow> u64 \<Rightarrow> u64 \<Rightarrow> bool" where
  "near_branch arch src dst \<longleftrightarrow>
     (case arch of
        E9_ARCH_X86_64 \<Rightarrow> - (2 ^ 31) \<le> sint (dst - (src + 5)) \<and> sint (dst - (src + 5)) \<le> 2 ^ 31 - 1
      | E9_ARCH_AARCH64 \<Rightarrow>
          sint (dst - src) mod 4 = 0 \<and> - (2 ^ 27) \<le> sint (dst - src) \<and> sint (dst - src) < 2 ^ 27
      | _ \<Rightarrow> False)"

definition branch_bytes :: "bool \<Rightarrow> E9Arch \<Rightarrow> u64 \<Rightarrow> u64 \<Rightarrow> bytes" where
  "branch_bytes call arch src dst =
     (if call then e9_binpatch_gen_call arch src dst else e9_binpatch_gen_jmp arch src dst)"

lemma x64_branch_decode:
  assumes arch: "bin_arch bin = E9_ARCH_X86_64"
    and data: "drop (unat (insn_offset bin addr)) (bin_data bin) = op # le32 r @ post"
    and op: "op = 0xE8 \<or> op = 0xE9"
  shows "\<exists>i. disasm_at bin addr = Some (Some i) \<and> ai_size i = 5 \<and> ai_target i = addr + 5 + scast r \<and>
    ai_category i = (if op = 0xE8 then E9_INSN_CALL else E9_INSN_JUMP)"
proof -
  let ?o = "unat (insn_offset bin addr)" and ?code = "op # le32 r @ post"
  have len: "length (bin_data bin) - ?o = 5 + length post"
    using arg_cong [OF data, of length] by simp
  have rd0: "rd8 ?code 0 = Some op" by (simp add: rd8_def)
  have skip: "x64_skip_prefixes ?code (min 16 (5 + length post)) 0 False = Some (0, False)"
    by (rule x64_skip_none [OF _ rd0]) (use op in \<open>auto simp: x64_length_prefixes_def\<close>)
  have "x64_one_byte op False = Some 4" using op by (auto simp: x64_one_byte_def)
  with op have L: "x64_insn_length ?code (min 16 (5 + length post)) = Some 5"
    by (auto simp: x64_insn_length_def skip rd0)
  have S: "x64_decode_skip ?code 5 0 = Some 0"
    using op by (subst x64_decode_skip.simps) (auto simp: rd0 x64_decode_prefix_def)
  have "rd32 ?code 1 = Some r" using rd32_le32 [of "[op]" r post] by simp
  then have D: "x64_decode ?code addr 5 0 op (fresh_insn addr 5 bs) =
      Some (set_target (addr + 5 + scast r) ((fresh_insn addr 5 bs)\<lparr>
        ai_category := (if op = 0xE8 then E9_INSN_CALL else E9_INSN_JUMP),
        ai_mnemonic := (if op = 0xE8 then ''call'' else ''jmp'')\<rparr>))" for bs
    using op by (auto simp: x64_decode_def x64_rel32_def)
  have "rd_region ?code 0 5 = Some (take 5 ?code)" by (simp add: rd_region_def)
  then show ?thesis
    using arch len L S D rd0
    by (auto simp: disasm_at_def disasm_x64_def Let_def data set_target_def fresh_insn_def)
qed

lemma a64_branch_decode:
  assumes arch: "bin_arch bin = E9_ARCH_AARCH64"
    and data: "drop (unat (insn_offset bin addr)) (bin_data bin) = le32 w @ post"
    and small: "length (bin_data bin) < 2 ^ 64"
    and op: "w AND 0xFC000000 = 0x94000000 \<or> w AND 0xFC000000 = 0x14000000"
  shows "\<exists>i. disasm_at bin addr = Some (Some i) \<and> ai_size i = 4 \<and>
    ai_target i = addr + word_of_int (4 * signed_take_bit 25 (uint (w AND 0x03FFFFFF))) \<and>
    ai_category i = (if w AND 0xFC000000 = 0x94000000 then E9_INSN_CALL else E9_INSN_JUMP)"
proof -
  let ?o = "insn_offset bin addr"
  have len: "length (bin_data bin) = unat ?o + (4 + length post)"
    using arg_cong [OF data, of length] by simp
  have "bin_data bin = take (unat ?o) (bin_data bin) @ le32 w @ post"
    using data by (metis append_take_drop_id)
  moreover have "length (take (unat ?o) (bin_data bin)) = unat ?o" using len by simp
  ultimately have rd: "rd32 (bin_data bin) (unat ?o) = Some w"
    using rd32_le32 [of "take (unat ?o) (bin_data bin)" w post] by simp
  have "\<not> length (bin_data bin) < unat (?o + 4)"
  proof (cases "unat ?o + 4 < 2 ^ 64")
    case True
    then have "unat (?o + 4) = unat ?o + 4" using unat_add_small [of ?o 4] by simp
    with len show ?thesis by simp
  next
    case False
    with len small show ?thesis by simp
  qed
  with rd len arch op show ?thesis
    by (auto simp: disasm_at_def disasm_aarch64_def Let_def rd_region_def decode_a64_def a64_target_imm26
        set_target_def fresh_insn_def)
qed

text \<open>
  C17.  Composition of the patch generator with the disassembler: wherever the bytes of a near
  call or jump that e9binpatch generates for \<open>addr\<close> and \<open>dst\<close> stand in the image,
  e9_disasm_instruction returns a call or a jump of exactly these bytes with target \<open>dst\<close>.
\<close>

theorem patched_branch_decodes:
  assumes near: "near_branch (bin_arch bin) addr dst"
    and data: "drop (unat (insn_offset bin addr)) (bin_data bin) = branch_bytes call (bin_arch bin) addr dst @ post"
    and small: "length (bin_data bin) < 2 ^ 64"
  shows "\<exists>i. e9_disasm_instruction (Some bin) addr = Some (Some i) \<and>
    ai_category i = (if call then E9_INSN_CALL else E9_INSN_JUMP) \<and>
    ai_size i = length (branch_bytes call (bin_arch bin) addr dst) \<and> ai_target i = dst"
proof (cases "bin_arch bin")
  case E9_ARCH_X86_64
  let ?r = "word_of_int (sint (dst - (addr + 5))) :: u32" and ?op = "if call then 0xE8 else 0xE9 :: u8"
  from near E9_ARCH_X86_64 have rng: "- (2 ^ 31) \<le> sint (dst - (addr + 5))" "sint (dst - (addr + 5)) \<le> 2 ^ 31 - 1"
    by (simp_all add: near_branch_def)
  then have b: "branch_bytes call (bin_arch bin) addr dst = ?op # le32 ?r"
    by (simp add: branch_bytes_def e9_binpatch_gen_call_def e9_binpatch_gen_jmp_def E9_ARCH_X86_64 Let_def)
  from x64_branch_decode [OF E9_ARCH_X86_64, of addr ?op ?r post] data b x86_near_target [OF rng]
  show ?thesis by (auto simp: e9_disasm_instruction_def split: if_splits)
next
  case E9_ARCH_AARCH64
  let ?op = "if call then 0x94000000 else 0x14000000 :: u32"
  define w where "w = ?op OR (word_of_int (c_div (sint (dst - addr)) 4) AND 0x03FFFFFF)"
  from near E9_ARCH_AARCH64 have rng: "sint (dst - addr) mod 4 = 0" "- (2 ^ 27) \<le> sint (dst - addr)"
      "sint (dst - addr) < 2 ^ 27"
    by (simp_all add: near_branch_def)
  then have b: "branch_bytes call (bin_arch bin) addr dst = le32 w"
    by (simp add: branch_bytes_def e9_binpatch_gen_call_def e9_binpatch_gen_jmp_def E9_ARCH_AARCH64 Let_def
        a64_branch_def w_def)
  have op: "w AND 0xFC000000 = ?op" by (simp add: w_def bit.conj_disj_distrib2 and.assoc)
  have "a64_dest addr (le32 w) = Some dst"
    using a64_branch_dest [of ?op "sint (dst - addr)" addr] rng by (simp add: a64_branch_def w_def)
  moreover have "rd32 (le32 w) 0 = Some w" using rd32_le32 [of "[]" w "[]"] by simp
  moreover have "w AND 0x7C000000 = 0x14000000"
    by (simp add: w_def bit.conj_disj_distrib2 and.assoc)
  ultimately have "addr + word_of_int (4 * signed_take_bit 25 (uint (w AND 0x03FFFFFF))) = dst"
    by (simp add: a64_dest_def)
  with a64_branch_decode [OF E9_ARCH_AARCH64, of addr w post] data small op b
  show ?thesis by (auto simp: e9_disasm_instruction_def split: if_splits)
qed (use near in \<open>simp_all add: near_branch_def\<close>)

definition call_demo :: E9Binary where
  "call_demo = insn_demo E9_ARCH_AARCH64 ([0, 0, 0, 0] @ e9_binpatch_gen_call E9_ARCH_AARCH64 0x1004 0x1000)"

lemma patched_branch_decodes_witness:
  "\<exists>i. e9_disasm_instruction (Some call_demo) 0x1004 = Some (Some i) \<and>
    ai_category i = (if True then E9_INSN_CALL else E9_INSN_JUMP) \<and>
    ai_size i = length (branch_bytes True (bin_arch call_demo) 0x1004 0x1000) \<and> ai_target i = 0x1000"
proof (rule patched_branch_decodes [where post = "[]"])
  show "near_branch (bin_arch call_demo) 0x1004 0x1000" by code_simp
  show "drop (unat (insn_offset call_demo 0x1004)) (bin_data call_demo) =
      branch_bytes True (bin_arch call_demo) 0x1004 0x1000 @ []" by code_simp
  show "length (bin_data call_demo) < 2 ^ 64" by code_simp
qed

end
