(* ===== verification/E9Sort.thy ===== *)
theory E9Sort
  imports Main "HOL-Library.Multiset"
begin

text \<open>
  The sort by pairwise exchange that \<open>e9analysis.c\<close> (block leaders) and
  \<open>e9func_sigs.c\<close> (signature matches) write out in place: two nested loops, the inner one
  exchanging \<open>xs[i]\<close> and \<open>xs[j]\<close> when they are out of order.  The theory proves once,
  for any key, that the loops permute the array and leave the keys in ascending order; it is not
  stable, so no more than that is promised for equal keys.
\<close>

locale exchange_sort =
  fixes key :: "'e \<Rightarrow> 'k::linorder"
    and exch :: "nat \<Rightarrow> nat \<Rightarrow> 'e list \<Rightarrow> 'e list"
  assumes exch_law: "exch i j xs = (if key (xs ! j) < key (xs ! i) then xs[i := xs ! j, j := xs ! i] else xs)"
begin

lemma exch_mset: "i < length xs \<Longrightarrow> j < length xs \<Longrightarrow> mset (exch i j xs) = mset xs"
  by (simp add: exch_law mset_swap)

lemma exch_length [simp]: "length (exch i j xs) = length xs"
  by (simp add: exch_law)

lemma exch_nth:
  assumes "i < j" and "j < length xs" and "k < length xs"
  shows "exch i j xs ! k =
    (if key (xs ! j) < key (xs ! i) \<and> k = i then xs ! j
     else if key (xs ! j) < key (xs ! i) \<and> k = j then xs ! i else xs ! k)"
  using assms by (auto simp: exch_law nth_list_update)

text \<open>One pass puts the least of the entries from \<open>i\<close> on at position \<open>i\<close>.\<close>

definition least_from :: "nat \<Rightarrow> nat \<Rightarrow> 'e list \<Rightarrow> bool" where
  "least_from i m xs \<longleftrightarrow> (\<forall>k. i < k \<and> k < m \<longrightarrow> key (xs ! i) \<le> key (xs ! k))"

lemma least_from_exch:
  assumes "least_from i m xs" and "i < m" and "m < length xs"
  shows "least_from i (Suc m) (exch i m xs)"
proof -
  have "key (exch i m xs ! i) \<le> key (exch i m xs ! k)" if k: "i < k" "k < Suc m" for k
  proof (cases "k = m")
    case True
    with assms show ?thesis by (auto simp: exch_nth [OF assms(2,3)])
  next
    case False
    then have "key (xs ! i) \<le> key (xs ! k)" using assms(1) k by (simp add: least_from_def)
    with False assms k show ?thesis by (auto simp: exch_nth [OF assms(2,3)])
  qed
  then show ?thesis by (simp add: least_from_def)
qed

lemma drop_set_eq:
  fixes xs ys :: "'e list"
  assumes "mset ys = mset xs" and "take i ys = take i xs"
  shows "set (drop i ys) = set (drop i xs)"
proof -
  have "mset (drop i zs) = mset zs - mset (take i zs)" for zs :: "'e list"
    by (metis add_diff_cancel_left' append_take_drop_id mset_append)
  with assms have "mset (drop i ys) = mset (drop i xs)" by simp
  then show ?thesis by (metis set_mset_mset)
qed

lemma exch_pass:
  assumes "i < length xs" and "i < m" and "m \<le> length xs"
  shows "let ys = fold (exch i) [i + 1 ..< m] xs in
    mset ys = mset xs \<and> length ys = length xs \<and> take i ys = take i xs \<and> least_from i m ys"
  using assms(2,3)
proof (induction m)
  case 0
  then show ?case by simp
next
  case (Suc m)
  show ?case
  proof (cases "i < m")
    case False
    with Suc.prems have "m = i" by simp
    then show ?thesis by (auto simp: least_from_def)
  next
    case True
    define ys where "ys = fold (exch i) [i + 1 ..< m] xs"
    from Suc.IH True Suc.prems have ys: "mset ys = mset xs" "length ys = length xs" "take i ys = take i xs"
      "least_from i m ys"
      by (simp_all add: ys_def Let_def)
    have f: "fold (exch i) [i + 1 ..< Suc m] xs = exch i m ys"
      using True by (simp add: ys_def)
    have m: "m < length ys" "i < length ys" using Suc.prems assms(1) ys(2) by auto
    have "take i (exch i m ys) = take i ys"
      using True m by (intro nth_equalityI) (auto simp: exch_nth [OF True m(1)])
    with f ys least_from_exch [OF ys(4) True m(1)] exch_mset [OF m(2,1)] show ?thesis
      by (simp add: Let_def)
  qed
qed

text \<open>The outer loop.\<close>

definition passes :: "nat \<Rightarrow> 'e list \<Rightarrow> 'e list" where
  "passes n xs = fold (\<lambda>i xs. fold (exch i) [i + 1 ..< length xs] xs) [0 ..< n] xs"

abbreviation ascending :: "'e list \<Rightarrow> bool" where
  "ascending xs \<equiv> sorted (map key xs)"

lemma passes_Suc:
  "passes (Suc n) xs = fold (exch n) [n + 1 ..< length (passes n xs)] (passes n xs)"
  by (simp add: passes_def)

lemma passes_prefix:
  assumes "n \<le> length xs - 1"
  shows "mset (passes n xs) = mset xs \<and> length (passes n xs) = length xs \<and> ascending (take n (passes n xs)) \<and>
    (\<forall>x \<in> set (take n (passes n xs)). \<forall>y \<in> set (drop n (passes n xs)). key x \<le> key y)"
  using assms
proof (induction n)
  case 0
  then show ?case by (simp add: passes_def)
next
  case (Suc n)
  define ys where "ys = passes n xs"
  from Suc have ys: "mset ys = mset xs" "length ys = length xs" "ascending (take n ys)"
    "\<forall>x \<in> set (take n ys). \<forall>y \<in> set (drop n ys). key x \<le> key y"
    by (simp_all add: ys_def)
  define zs where "zs = passes (Suc n) xs"
  have zs_eq: "zs = fold (exch n) [n + 1 ..< length ys] ys" by (simp add: zs_def passes_Suc ys_def)
  have n: "n < length ys" using Suc.prems ys(2) by simp
  from exch_pass [OF n n] have zs: "mset zs = mset ys" "length zs = length ys" "take n zs = take n ys"
    "least_from n (length ys) zs"
    by (simp_all add: zs_eq Let_def)
  have dr: "set (drop n zs) = set (drop n ys)" by (rule drop_set_eq [OF zs(1,3)])
  have T: "take (Suc n) zs = take n ys @ [zs ! n]" using zs(3) n zs(2) by (simp add: take_Suc_conv_app_nth)
  have D: "drop n zs = zs ! n # drop (Suc n) zs" using n zs(2) by (simp add: Cons_nth_drop_Suc)
  have hd: "zs ! n \<in> set (drop n ys)" and sub: "set (drop (Suc n) zs) \<subseteq> set (drop n ys)" using dr D by auto
  have "ascending (take (Suc n) zs)" using ys(3,4) hd by (auto simp: T sorted_append)
  moreover have "\<forall>y \<in> set (drop (Suc n) zs). key (zs ! n) \<le> key y"
  proof
    fix y assume "y \<in> set (drop (Suc n) zs)"
    then obtain k where "k < length zs - Suc n" "y = zs ! (Suc n + k)" by (auto simp: in_set_conv_nth)
    with zs(2,4) show "key (zs ! n) \<le> key y" by (auto simp: least_from_def)
  qed
  with ys(4) sub have "\<forall>x \<in> set (take (Suc n) zs). \<forall>y \<in> set (drop (Suc n) zs). key x \<le> key y"
    by (auto simp: T)
  ultimately show ?case using zs(1,2) ys(1,2) by (simp add: zs_def [symmetric])
qed

theorem passes_sort:
  shows "mset (passes (length xs - 1) xs) = mset xs \<and> ascending (passes (length xs - 1) xs)"
proof (cases "xs = []")
  case True
  then show ?thesis by (simp add: passes_def)
next
  case False
  define n where "n = length xs - 1"
  from passes_prefix [of n xs] have ys: "mset (passes n xs) = mset xs" "length (passes n xs) = length xs"
    "ascending (take n (passes n xs))"
    "\<forall>x \<in> set (take n (passes n xs)). \<forall>y \<in> set (drop n (passes n xs)). key x \<le> key y"
    by (simp_all add: n_def)
  have "length (drop n (passes n xs)) = 1" using False ys(2) by (simp add: n_def Suc_leI)
  then have "ascending (drop n (passes n xs))" by (cases "drop n (passes n xs)") auto
  with ys(3,4) have "ascending (take n (passes n xs) @ drop n (passes n xs))"
    by (simp only: map_append sorted_append) auto
  then show ?thesis using ys(1) by (simp add: n_def)
qed

end

end
