(* ===== verification/E9Cfg.thy ===== *)
theory E9Cfg
  imports E9Insn E9Sort
begin

text \<open>
  Linear disassembly and control flow graphs of \<open>src/src/e9patch/analysis/e9analysis.c\<close>:
  \<open>e9_disasm_range\<close> and \<open>e9_cfg_build\<close>.

  Both are clients of \<open>e9_disasm_instruction\<close>; what they rely on is the interface
  \<open>insn_source\<close> below.  The graph is built in three passes: the leaders (addresses that start a
  block) are collected and sorted, a block is disassembled from every leader, and the blocks are
  connected.  A pointer to a block is its index in \<open>cfg->blocks\<close>, which is also its \<open>id\<close>.
  A result \<open>None\<close> is an access outside the file or a loop that does not end.
\<close>

section \<open>Data\<close>

record E9BasicBlock =
  bb_start :: u64
  bb_end :: u64
  bb_insns :: "AInsn list"
  bb_preds :: "nat list"
  bb_succs :: "nat list"

record E9CFG =
  cfg_blocks :: "E9BasicBlock list"
  cfg_entry :: "nat ptr"
  cfg_exits :: "nat list"
  cfg_complexity :: u32

definition cfg_max_blocks :: nat where "cfg_max_blocks = 1024"

section \<open>First pass: leaders\<close>

definition add_leader :: "u64 \<Rightarrow> u64 list \<Rightarrow> u64 list" where
  "add_leader a leaders = (if a \<in> set leaders then leaders else leaders @ [a])"

text \<open>What one instruction of the function adds.\<close>

definition insn_leaders :: "u64 \<Rightarrow> u64 \<Rightarrow> u64 \<Rightarrow> AInsn \<Rightarrow> u64 list \<Rightarrow> u64 list" where
  "insn_leaders faddr endp addr i leaders =
     (if ai_category i \<in> {E9_INSN_CALL, E9_INSN_JUMP, E9_INSN_COND_JUMP} then
        let leaders =
              (if faddr \<le> ai_target i \<and> ai_target i < endp then add_leader (ai_target i) leaders else leaders);
            nxt = addr + word_of_nat (ai_size i)
        in if ai_category i \<noteq> E9_INSN_JUMP \<and> nxt < endp then add_leader nxt leaders else leaders
      else leaders)"

partial_function (option) leaders_loop ::
  "(u64 \<Rightarrow> AInsn ptr ub) \<Rightarrow> u64 \<Rightarrow> u64 \<Rightarrow> u64 \<Rightarrow> u64 list \<Rightarrow> u64 list option" where
  [code]: "leaders_loop dis faddr endp addr leaders =
     (if addr < endp \<and> length leaders < cfg_max_blocks - 2 then do {
        i \<leftarrow> dis addr;
        case i of
          None \<Rightarrow> Some leaders
        | Some insn \<Rightarrow>
            if ai_category insn = E9_INSN_RET then Some (insn_leaders faddr endp addr insn leaders)
            else leaders_loop dis faddr endp (addr + word_of_nat (ai_size insn))
                   (insn_leaders faddr endp addr insn leaders)
      } else Some leaders)"

text \<open>The sort by pairwise exchange.\<close>

definition exchange :: "nat \<Rightarrow> nat \<Rightarrow> u64 list \<Rightarrow> u64 list" where
  "exchange i j xs = (if xs ! j < xs ! i then xs[i := xs ! j, j := xs ! i] else xs)"

definition sort_leaders :: "u64 list \<Rightarrow> u64 list" where
  "sort_leaders xs =
     fold (\<lambda>i xs. fold (exchange i) [i + 1 ..< length xs] xs) [0 ..< length xs - 1] xs"

section \<open>Second pass: blocks\<close>

text \<open>The instructions of a block and its end, which a return or a jump moves.\<close>

partial_function (option) block_loop ::
  "(u64 \<Rightarrow> AInsn ptr ub) \<Rightarrow> u64 \<Rightarrow> u64 \<Rightarrow> AInsn list \<Rightarrow> (AInsn list \<times> u64) option" where
  [code]: "block_loop dis addr endp acc =
     (if addr < endp then do {
        i \<leftarrow> dis addr;
        case i of
          None \<Rightarrow> Some (acc, endp)
        | Some insn \<Rightarrow>
            let nxt = addr + word_of_nat (ai_size insn) in
            if ai_category insn = E9_INSN_RET \<or> ai_category insn = E9_INSN_JUMP then
              Some (acc @ [insn], nxt)
            else if ai_category insn = E9_INSN_COND_JUMP \<and> endp \<le> nxt then Some (acc @ [insn], endp)
            else block_loop dis nxt endp (acc @ [insn])
      } else Some (acc, endp))"

definition make_block :: "(u64 \<Rightarrow> AInsn ptr ub) \<Rightarrow> u64 \<Rightarrow> u64 \<Rightarrow> E9BasicBlock ub" where
  "make_block dis start endp = do {
     (insns, e) \<leftarrow> block_loop dis start endp [];
     Some \<lparr>bb_start = start, bb_end = e, bb_insns = insns, bb_preds = [], bb_succs = []\<rparr>
   }"

text \<open>A block ends at the next leader, the last one at the end of the function.\<close>

fun make_blocks :: "(u64 \<Rightarrow> AInsn ptr ub) \<Rightarrow> u64 list \<Rightarrow> u64 \<Rightarrow> nat \<Rightarrow> E9BasicBlock list ub" where
  "make_blocks dis [] end_addr n = Some []"
| "make_blocks dis (l # ls) end_addr n =
     (if n < cfg_max_blocks then do {
        b \<leftarrow> make_block dis l (case ls of [] \<Rightarrow> end_addr | l' # _ \<Rightarrow> l');
        bs \<leftarrow> make_blocks dis ls end_addr (n + 1);
        Some (b # bs)
      } else Some [])"

text \<open>The entry is set whenever a block starts at the function's address.\<close>

definition entry_block :: "u64 \<Rightarrow> E9BasicBlock list \<Rightarrow> nat ptr" where
  "entry_block faddr blocks =
     fold (\<lambda>i e. if bb_start (blocks ! i) = faddr then Some i else e) [0 ..< length blocks] None"

section \<open>Third pass: edges\<close>

definition find_block :: "u64 \<Rightarrow> E9BasicBlock list \<Rightarrow> nat option" where
  "find_block a blocks = find (\<lambda>j. bb_start (blocks ! j) = a) [0 ..< length blocks]"

definition add_edge :: "nat \<Rightarrow> nat \<Rightarrow> E9CFG \<Rightarrow> E9CFG" where
  "add_edge i j cfg =
     (let bs = cfg_blocks cfg;
          bs = bs[i := (bs ! i)\<lparr>bb_succs := bb_succs (bs ! i) @ [j]\<rparr>];
          bs = bs[j := (bs ! j)\<lparr>bb_preds := bb_preds (bs ! j) @ [i]\<rparr>]
      in cfg\<lparr>cfg_blocks := bs\<rparr>)"

definition add_fall_through :: "nat \<Rightarrow> E9CFG \<Rightarrow> E9CFG" where
  "add_fall_through i cfg = (if i + 1 < length (cfg_blocks cfg) then add_edge i (i + 1) cfg else cfg)"

definition add_branch :: "nat \<Rightarrow> u64 \<Rightarrow> E9CFG \<Rightarrow> E9CFG" where
  "add_branch i t cfg =
     (case find_block t (cfg_blocks cfg) of None \<Rightarrow> cfg | Some j \<Rightarrow> add_edge i j cfg)"

definition connect_block :: "nat \<Rightarrow> E9CFG \<Rightarrow> E9CFG" where
  "connect_block i cfg =
     (let insns = bb_insns (cfg_blocks cfg ! i) in
      if insns = [] then cfg
      else
        let l = last insns in
        (case ai_category l of
           E9_INSN_RET \<Rightarrow> cfg\<lparr>cfg_exits := cfg_exits cfg @ [i]\<rparr>
         | E9_INSN_JUMP \<Rightarrow> add_branch i (ai_target l) cfg
         | E9_INSN_COND_JUMP \<Rightarrow> add_branch i (ai_target l) (add_fall_through i cfg)
         | E9_INSN_CALL \<Rightarrow> add_fall_through i cfg
         | E9_INSN_OTHER \<Rightarrow> add_fall_through i cfg
         | _ \<Rightarrow> cfg))"

definition cfg_edges :: "E9CFG \<Rightarrow> u32" where
  "cfg_edges cfg = fold (\<lambda>b n. n + word_of_nat (length (bb_succs b))) (cfg_blocks cfg) 0"

definition connect_blocks :: "E9CFG \<Rightarrow> E9CFG" where
  "connect_blocks cfg = fold connect_block [0 ..< length (cfg_blocks cfg)] cfg"

section \<open>\<open>e9_cfg_build\<close>\<close>

text \<open>\<open>faddr\<close> and \<open>fend\<close> are \<open>func->address\<close> and \<open>func->end_address\<close>.\<close>

definition cfg_build :: "(u64 \<Rightarrow> AInsn ptr ub) \<Rightarrow> u64 \<Rightarrow> u64 \<Rightarrow> E9CFG ub" where
  "cfg_build dis faddr fend = do {
     let end_addr = (if fend \<noteq> 0 then fend else faddr + 0x10000);
     leaders \<leftarrow> leaders_loop dis faddr end_addr faddr [faddr];
     blocks \<leftarrow> make_blocks dis (sort_leaders leaders) end_addr 0;
     let cfg = connect_blocks \<lparr>cfg_blocks = blocks, cfg_entry = entry_block faddr blocks,
                 cfg_exits = [], cfg_complexity = 0\<rparr>;
     Some (cfg\<lparr>cfg_complexity := cfg_edges cfg - word_of_nat (length (cfg_blocks cfg)) + 2\<rparr>)
   }"

definition e9_cfg_build :: "'a E9Binary_scheme ptr \<Rightarrow> (u64 \<times> u64) ptr \<Rightarrow> E9CFG ptr ub" where
  "e9_cfg_build b func =
     (case (b, func) of
        (Some bin, Some (faddr, fend)) \<Rightarrow> map_option Some (cfg_build (disasm_at bin) faddr fend)
      | _ \<Rightarrow> Some None)"

section \<open>The interface to the decoder\<close>

text \<open>
  What the loops below need of \<open>e9_disasm_instruction\<close>: an instruction carries the address it was
  asked for, is not empty and ends at \<open>lim\<close> at the latest, and no read leaves the file unless the
  address is one of the last four.
\<close>

locale insn_source =
  fixes dis :: "u64 \<Rightarrow> AInsn ptr ub" and lim :: nat
  assumes dis_insn: "dis a = Some (Some i) \<Longrightarrow> ai_address i = a \<and> 0 < ai_size i \<and> unat a + ai_size i \<le> lim"
    and dis_safe: "unat a + 4 < 2 ^ 64 \<Longrightarrow> dis a \<noteq> None"
begin

lemma sweep_next:
  assumes "dis a = Some (Some i)" and "lim + 4 < 2 ^ 64"
  shows "unat (a + word_of_nat (ai_size i)) = unat a + ai_size i"
    and "unat (a + word_of_nat (ai_size i)) + 4 < 2 ^ 64"
proof -
  have le: "unat a + ai_size i \<le> lim" using dis_insn [OF assms(1)] by simp
  then have "unat (word_of_nat (ai_size i) :: u64) = ai_size i"
    using assms(2) by (simp add: unat_of_nat)
  with le assms(2) show "unat (a + word_of_nat (ai_size i)) = unat a + ai_size i"
    by (subst unat_add_small) simp_all
  with le assms(2) show "unat (a + word_of_nat (ai_size i)) + 4 < 2 ^ 64" by simp
qed

text \<open>Induction along a linear sweep over the code.\<close>

lemma sweep_induct [consumes 2, case_names step]:
  assumes "lim + 4 < 2 ^ 64" and "unat a + 4 < 2 ^ 64"
    and step: "\<And>a. unat a + 4 < 2 ^ 64 \<Longrightarrow>
      (\<And>i. dis a = Some (Some i) \<Longrightarrow> P (a + word_of_nat (ai_size i))) \<Longrightarrow> P a"
  shows "P a"
  using assms(2)
proof (induction "Suc lim - unat a" arbitrary: a rule: less_induct)
  case less
  show ?case
  proof (rule step [OF less.prems])
    fix i assume i: "dis a = Some (Some i)"
    from dis_insn [OF i] sweep_next [OF i assms(1)]
    show "P (a + word_of_nat (ai_size i))" by (intro less.hyps) linarith+
  qed
qed

end

interpretation an: insn_source "disasm_at bin" "unat (bin_base_address bin) + length (bin_data bin)" for bin
proof
  fix a i assume "disasm_at bin a = Some (Some i)"
  from disasm_at_wf [OF this] have w: "ai_address i = a" "0 < ai_size i"
    "unat (insn_offset bin a) + ai_size i \<le> length (bin_data bin)" by (simp_all add: insn_wf_def)
  have "unat a \<le> unat (bin_base_address bin) + unat (insn_offset bin a)"
    by (auto simp: insn_offset_def unat_sub word_le_nat_alt)
  with w show "ai_address i = a \<and> 0 < ai_size i \<and>
      unat a + ai_size i \<le> unat (bin_base_address bin) + length (bin_data bin)" by simp
next
  fix a :: u64 assume "unat a + 4 < 2 ^ 64"
  moreover have "unat (insn_offset bin a) \<le> unat a"
    by (auto simp: insn_offset_def unat_sub word_le_nat_alt)
  ultimately show "disasm_at bin a \<noteq> None" using disasm_at_total [of bin a] by auto
qed

section \<open>\<open>e9_disasm_range\<close>\<close>

text \<open>Instructions at consecutive addresses, and the address behind them.\<close>

fun insn_chain :: "u64 \<Rightarrow> AInsn list \<Rightarrow> bool" where
  "insn_chain a [] = True"
| "insn_chain a (i # is) = (ai_address i = a \<and> insn_chain (a + word_of_nat (ai_size i)) is)"

fun chain_end :: "u64 \<Rightarrow> AInsn list \<Rightarrow> u64" where
  "chain_end a [] = a"
| "chain_end a (i # is) = chain_end (a + word_of_nat (ai_size i)) is"

lemma insn_chain_append: "insn_chain a (xs @ ys) \<longleftrightarrow> insn_chain a xs \<and> insn_chain (chain_end a xs) ys"
  by (induction xs arbitrary: a) auto

lemma chain_end_append: "chain_end a (xs @ ys) = chain_end (chain_end a xs) ys"
  by (induction xs arbitrary: a) auto

text \<open>The instructions of a linear sweep from \<open>a\<close>, all decoded below \<open>e\<close>.\<close>

definition sweep :: "(u64 \<Rightarrow> AInsn ptr ub) \<Rightarrow> u64 \<Rightarrow> u64 \<Rightarrow> AInsn list \<Rightarrow> bool" where
  "sweep dis a e is \<longleftrightarrow>
     insn_chain a is \<and> (\<forall>i \<in> set is. ai_address i < e \<and> dis (ai_address i) = Some (Some i))"

text \<open>
  A basic block from \<open>a\<close> up to \<open>e\<close>: a sweep in which only the last instruction leaves the line.
  A return or a jump moves the end of the block behind itself.
\<close>

definition ends_flow :: "AInsn \<Rightarrow> bool" where
  "ends_flow i \<longleftrightarrow> ai_category i = E9_INSN_RET \<or> ai_category i = E9_INSN_JUMP"

definition straight :: "(u64 \<Rightarrow> AInsn ptr ub) \<Rightarrow> u64 \<Rightarrow> u64 \<Rightarrow> AInsn list \<Rightarrow> bool" where
  "straight dis a e is \<longleftrightarrow> sweep dis a e is \<and> (\<forall>i \<in> set (butlast is). \<not> ends_flow i)"

definition block_end :: "u64 \<Rightarrow> u64 \<Rightarrow> AInsn list \<Rightarrow> u64" where
  "block_end a e is = (if is \<noteq> [] \<and> ends_flow (last is) then chain_end a is else e)"

context insn_source
begin

lemma range_loop_total:
  assumes "lim + 4 < 2 ^ 64" and "unat a + 4 < 2 ^ 64"
  shows "\<exists>is. range_loop dis a e = Some is \<and> sweep dis a e is \<and>
    (e \<le> chain_end a is \<or> dis (chain_end a is) = Some None)"
  using assms
proof (induction rule: sweep_induct)
  case (step a)
  show ?case
  proof (cases "a < e")
    case False
    then show ?thesis by (intro exI [of _ "[]"], subst range_loop.simps) (auto simp: sweep_def)
  next
    case True
    from dis_safe [OF step(1)] consider (none) "dis a = Some None" | (some) i where "dis a = Some (Some i)"
      by (cases "dis a") (auto split: option.splits)
    then show ?thesis
    proof cases
      case none
      with True show ?thesis by (subst range_loop.simps) (simp add: sweep_def)
    next
      case some
      with step(2) obtain "is" where "range_loop dis (a + word_of_nat (ai_size i)) e = Some is"
        "sweep dis (a + word_of_nat (ai_size i)) e is"
        "e \<le> chain_end (a + word_of_nat (ai_size i)) is \<or>
          dis (chain_end (a + word_of_nat (ai_size i)) is) = Some None" by blast
      with True some dis_insn [OF some] show ?thesis
        by (subst range_loop.simps) (auto simp: sweep_def)
    qed
  qed
qed

lemma leaders_loop_total:
  assumes "lim + 4 < 2 ^ 64" and "unat a + 4 < 2 ^ 64"
  shows "\<exists>ls'. leaders_loop dis f e a ls = Some ls'"
  using assms
proof (induction arbitrary: ls rule: sweep_induct)
  case (step a)
  from dis_safe [OF step(1)] consider (none) "dis a = Some None" | (some) i where "dis a = Some (Some i)"
    by (cases "dis a") (auto split: option.splits)
  then show ?case
  proof cases
    case none
    then show ?thesis by (subst leaders_loop.simps) simp
  next
    case some
    with step(2) show ?thesis by (subst leaders_loop.simps) auto
  qed
qed

lemma block_loop_total:
  assumes "lim + 4 < 2 ^ 64" and "unat a + 4 < 2 ^ 64"
  shows "\<exists>is. block_loop dis a e acc = Some (acc @ is, block_end a e is) \<and> straight dis a e is"
  using assms
proof (induction arbitrary: acc rule: sweep_induct)
  case (step a)
  show ?case
  proof (cases "a < e")
    case False
    then show ?thesis
      by (intro exI [of _ "[]"], subst block_loop.simps) (simp add: straight_def sweep_def block_end_def)
  next
    case True
    from dis_safe [OF step(1)] consider (none) "dis a = Some None" | (some) i where "dis a = Some (Some i)"
      by (cases "dis a") (auto split: option.splits)
    then show ?thesis
    proof cases
      case none
      with True show ?thesis
        by (intro exI [of _ "[]"], subst block_loop.simps) (simp add: straight_def sweep_def block_end_def)
    next
      case some
      note i = dis_insn [OF some]
      let ?n = "a + word_of_nat (ai_size i)"
      have one: "sweep dis a e [i]" using i some True by (simp add: sweep_def)
      show ?thesis
      proof (cases "ends_flow i \<or> (ai_category i = E9_INSN_COND_JUMP \<and> e \<le> ?n)")
        case stop: True
        then have "block_loop dis a e acc = Some (acc @ [i], block_end a e [i])"
          using True some by (subst block_loop.simps) (auto simp: Let_def block_end_def ends_flow_def)
        moreover have "straight dis a e [i]" using one stop by (auto simp: straight_def)
        ultimately show ?thesis by blast
      next
        case go: False
        from step(2) [OF some, of "acc @ [i]"] obtain "is" where
          r: "block_loop dis ?n e ((acc @ [i])) = Some ((acc @ [i]) @ is, block_end ?n e is)" "straight dis ?n e is"
          by blast
        have "block_loop dis a e acc = block_loop dis ?n e (acc @ [i])"
          using True some go by (subst block_loop.simps) (auto simp: Let_def ends_flow_def)
        moreover have "block_end a e (i # is) = block_end ?n e is"
          using go by (auto simp: block_end_def)
        moreover have "straight dis a e (i # is)"
          using r(2) go i some True by (auto simp: straight_def sweep_def)
        ultimately show ?thesis using r(1) by (intro exI [of _ "i # is"]) simp
      qed
    qed
  qed
qed

end

section \<open>Sorting the leaders\<close>

interpretation leader_sort: exchange_sort "\<lambda>a :: u64. a" exchange
  by unfold_locales (simp add: exchange_def)

lemma sort_leaders_sorts: "sorted (sort_leaders xs) \<and> mset (sort_leaders xs) = mset xs"
  using leader_sort.passes_sort [of xs]
  by (simp add: sort_leaders_def leader_sort.passes_def)

section \<open>Collecting the leaders\<close>

lemma leaders_loop_inv:
  assumes "leaders_loop dis f e a ls = Some ls'" and "P ls"
    and step: "\<And>a i ls. P ls \<Longrightarrow> length ls < cfg_max_blocks - 2 \<Longrightarrow> P (insn_leaders f e a i ls)"
  shows "P ls'"
proof -
  have "f = f \<and> e = e \<and> P ls \<longrightarrow> P ls'"
  proof (rule leaders_loop.raw_induct [where P = "\<lambda>d f' e' a ls r. f' = f \<and> e' = e \<and> P ls \<longrightarrow> P r", OF _ assms(1)])
    fix loop d f' e' a ls r
    assume IH: "\<And>d f' e' a ls r. loop d f' e' a ls = Some r \<Longrightarrow> f' = f \<and> e' = e \<and> P ls \<longrightarrow> P r"
      and eq: "(if a < e' \<and> length ls < cfg_max_blocks - 2 then do {
        i \<leftarrow> d a;
        case i of
          None \<Rightarrow> Some ls
        | Some insn \<Rightarrow>
            if ai_category insn = E9_INSN_RET then Some (insn_leaders f' e' a insn ls)
            else loop d f' e' (a + word_of_nat (ai_size insn)) (insn_leaders f' e' a insn ls)
      } else Some ls) = Some r"
    show "f' = f \<and> e' = e \<and> P ls \<longrightarrow> P r"
    proof
      assume h: "f' = f \<and> e' = e \<and> P ls"
      show "P r"
      proof (cases "a < e' \<and> length ls < cfg_max_blocks - 2")
        case False
        then have "Some ls = Some r" using eq by (simp only: if_False)
        with h show ?thesis by simp
      next
        case True
        with eq obtain o' where o': "d a = Some o'" by (auto simp: Option.bind_eq_Some_conv)
        show ?thesis
        proof (cases o')
          case None
          with eq True h o' show ?thesis by simp
        next
          case (Some i)
          have "P (insn_leaders f e a i ls)" using step [of ls a i] h True by blast
          with eq True h o' Some IH show ?thesis by (auto split: if_splits)
        qed
      qed
    qed
  qed
  with assms(2) show ?thesis by simp
qed

definition leaders_ok :: "u64 \<Rightarrow> u64 \<Rightarrow> u64 list \<Rightarrow> bool" where
  "leaders_ok f e ls \<longleftrightarrow> distinct ls \<and> length ls < cfg_max_blocks \<and> f \<in> set ls \<and> (\<forall>a \<in> set ls. a = f \<or> a < e)"

lemma add_leader_props:
  "distinct ls \<Longrightarrow> distinct (add_leader a ls)" "length (add_leader a ls) \<le> Suc (length ls)"
  "set (add_leader a ls) = insert a (set ls)"
  by (auto simp: add_leader_def)

lemma insn_leaders_ok:
  assumes "leaders_ok f e ls" and "length ls < cfg_max_blocks - 2"
  shows "leaders_ok f e (insn_leaders f e a i ls)"
proof -
  define ls1 where "ls1 = (if f \<le> ai_target i \<and> ai_target i < e then add_leader (ai_target i) ls else ls)"
  define ls2 where "ls2 = (if ai_category i \<noteq> E9_INSN_JUMP \<and> a + word_of_nat (ai_size i) < e
    then add_leader (a + word_of_nat (ai_size i)) ls1 else ls1)"
  have 1: "distinct ls1" "f \<in> set ls1" "\<forall>a \<in> set ls1. a = f \<or> a < e" "length ls1 \<le> Suc (length ls)"
    using assms(1) add_leader_props [where ls = ls and a = "ai_target i"] by (auto simp: ls1_def leaders_ok_def)
  then have 2: "distinct ls2" "f \<in> set ls2" "\<forall>a \<in> set ls2. a = f \<or> a < e" "length ls2 \<le> Suc (length ls1)"
    using add_leader_props [where ls = ls1 and a = "a + word_of_nat (ai_size i)"] by (auto simp: ls2_def)
  have "insn_leaders f e a i ls = (if ai_category i \<in> {E9_INSN_CALL, E9_INSN_JUMP, E9_INSN_COND_JUMP} then ls2 else ls)"
    by (simp add: insn_leaders_def ls1_def ls2_def Let_def)
  with 1 2 assms show ?thesis by (auto simp: leaders_ok_def)
qed

lemma leaders_loop_ok:
  assumes "leaders_loop dis f e a [f] = Some ls"
  shows "leaders_ok f e ls"
  by (rule leaders_loop_inv [OF assms]) (simp_all add: insn_leaders_ok, simp add: leaders_ok_def cfg_max_blocks_def)

section \<open>Edges\<close>

text \<open>The successors of a block, from its last instruction.\<close>

definition fall_through :: "nat \<Rightarrow> E9BasicBlock list \<Rightarrow> nat list" where
  "fall_through i bs = (if i + 1 < length bs then [i + 1] else [])"

definition branch_to :: "u64 \<Rightarrow> E9BasicBlock list \<Rightarrow> nat list" where
  "branch_to t bs = (case find_block t bs of None \<Rightarrow> [] | Some j \<Rightarrow> [j])"

definition block_succs :: "E9BasicBlock list \<Rightarrow> nat \<Rightarrow> nat list" where
  "block_succs bs i =
     (if bb_insns (bs ! i) = [] then []
      else case ai_category (last (bb_insns (bs ! i))) of
          E9_INSN_JUMP \<Rightarrow> branch_to (ai_target (last (bb_insns (bs ! i)))) bs
        | E9_INSN_COND_JUMP \<Rightarrow> fall_through i bs @ branch_to (ai_target (last (bb_insns (bs ! i)))) bs
        | E9_INSN_CALL \<Rightarrow> fall_through i bs
        | E9_INSN_OTHER \<Rightarrow> fall_through i bs
        | _ \<Rightarrow> [])"

text \<open>The predecessors, in the order in which the edges are found.\<close>

definition block_preds :: "E9BasicBlock list \<Rightarrow> nat \<Rightarrow> nat \<Rightarrow> nat list" where
  "block_preds bs m k = concat (map (\<lambda>i. map (\<lambda>_. i) (filter (\<lambda>j. j = k) (block_succs bs i))) [0 ..< m])"

definition is_exit :: "E9BasicBlock \<Rightarrow> bool" where
  "is_exit b \<longleftrightarrow> bb_insns b \<noteq> [] \<and> ai_category (last (bb_insns b)) = E9_INSN_RET"

text \<open>Connecting changes neither the extent nor the instructions of a block.\<close>

definition same_code :: "E9BasicBlock list \<Rightarrow> E9BasicBlock list \<Rightarrow> bool" where
  "same_code bs cs \<longleftrightarrow> length cs = length bs \<and>
     (\<forall>k < length bs. bb_start (cs ! k) = bb_start (bs ! k) \<and> bb_end (cs ! k) = bb_end (bs ! k) \<and>
       bb_insns (cs ! k) = bb_insns (bs ! k))"

lemma same_codeD:
  assumes "same_code bs cs"
  shows "length cs = length bs" "find_block t cs = find_block t bs" "branch_to t cs = branch_to t bs"
    "fall_through i cs = fall_through i bs" "i < length bs \<Longrightarrow> block_succs cs i = block_succs bs i"
proof -
  have e: "find_block t cs = find_block t bs" for t
    unfolding find_block_def using assms by (intro find_cong) (auto simp: same_code_def)
  then show "find_block t cs = find_block t bs" .
  show l: "length cs = length bs" using assms by (simp add: same_code_def)
  show "branch_to t cs = branch_to t bs" by (simp add: branch_to_def e)
  show "fall_through i cs = fall_through i bs" by (simp add: fall_through_def l)
  show "block_succs cs i = block_succs bs i" if "i < length bs"
    using that assms by (simp add: block_succs_def same_code_def fall_through_def branch_to_def e cong: E9InsnCategory.case_cong)
qed

lemma find_block_Some: "find_block t bs = Some j \<Longrightarrow> j < length bs \<and> bb_start (bs ! j) = t"
  by (auto simp: find_block_def find_Some_iff)

lemma branch_to_iff: "j \<in> set (branch_to t bs) \<longleftrightarrow> find_block t bs = Some j"
  by (auto simp: branch_to_def split: option.splits)

lemma block_succs_less: "j \<in> set (block_succs bs i) \<Longrightarrow> j < length bs"
  by (auto simp: block_succs_def fall_through_def branch_to_iff
      dest: find_block_Some split: if_splits E9InsnCategory.splits)

lemma block_succs_two: "length (block_succs bs i) \<le> 2"
  by (auto simp: block_succs_def fall_through_def branch_to_def split: option.splits E9InsnCategory.split)

lemma add_edge_nth:
  assumes "i < length (cfg_blocks cfg)" and "j < length (cfg_blocks cfg)" and "k < length (cfg_blocks cfg)"
  shows "cfg_blocks (add_edge i j cfg) ! k =
    (let b = cfg_blocks cfg ! k in
     b\<lparr>bb_succs := bb_succs b @ (if k = i then [j] else []), bb_preds := bb_preds b @ (if k = j then [i] else [])\<rparr>)"
  using assms by (auto simp: add_edge_def Let_def nth_list_update)

lemma add_edge_other [simp]:
  "length (cfg_blocks (add_edge i j cfg)) = length (cfg_blocks cfg)"
  "cfg_exits (add_edge i j cfg) = cfg_exits cfg" "cfg_entry (add_edge i j cfg) = cfg_entry cfg"
  by (simp_all add: add_edge_def Let_def)

lemma add_edges_nth:
  assumes "i < length (cfg_blocks cfg)" and "\<forall>j \<in> set js. j < length (cfg_blocks cfg)" and "k < length (cfg_blocks cfg)"
  shows "cfg_blocks (fold (add_edge i) js cfg) ! k =
    (let b = cfg_blocks cfg ! k in
     b\<lparr>bb_succs := bb_succs b @ (if k = i then js else []),
       bb_preds := bb_preds b @ map (\<lambda>_. i) (filter (\<lambda>j. j = k) js)\<rparr>)"
  using assms
proof (induction js arbitrary: cfg)
  case Nil
  then show ?case by simp
next
  case (Cons j js)
  then show ?case by (simp add: add_edge_nth Let_def)
qed

lemma add_edges_other [simp]:
  "length (cfg_blocks (fold (add_edge i) js cfg)) = length (cfg_blocks cfg)"
  "cfg_exits (fold (add_edge i) js cfg) = cfg_exits cfg" "cfg_entry (fold (add_edge i) js cfg) = cfg_entry cfg"
  by (induction js arbitrary: cfg) simp_all

lemma add_edge_same_code:
  assumes "i < length (cfg_blocks cfg)" and "j < length (cfg_blocks cfg)"
  shows "same_code (cfg_blocks cfg) (cfg_blocks (add_edge i j cfg))"
  using assms by (simp add: same_code_def add_edge_nth Let_def)

lemma connect_block_edges:
  assumes "i < length (cfg_blocks cfg)"
  shows "connect_block i cfg =
    (let cfg' = fold (add_edge i) (block_succs (cfg_blocks cfg) i) cfg in
     if is_exit (cfg_blocks cfg ! i) then cfg'\<lparr>cfg_exits := cfg_exits cfg' @ [i]\<rparr> else cfg')"
proof -
  have b: "add_branch i t c = fold (add_edge i) (branch_to t (cfg_blocks c)) c" for t c
    by (simp add: add_branch_def branch_to_def split: option.split)
  have f: "add_fall_through i c = fold (add_edge i) (fall_through i (cfg_blocks c)) c" for c
    by (simp add: add_fall_through_def fall_through_def)
  have "branch_to t (cfg_blocks (add_fall_through i cfg)) = branch_to t (cfg_blocks cfg)" for t
    using same_codeD(3) [OF add_edge_same_code [OF assms, of "i + 1"]] by (simp add: add_fall_through_def)
  then show ?thesis
    by (auto simp: connect_block_def block_succs_def is_exit_def b f Let_def split: E9InsnCategory.split)
qed

definition connected :: "E9BasicBlock list \<Rightarrow> nat \<Rightarrow> E9CFG \<Rightarrow> bool" where
  "connected bs m cfg \<longleftrightarrow> same_code bs (cfg_blocks cfg) \<and>
     (\<forall>k < length bs. bb_succs (cfg_blocks cfg ! k) = (if k < m then block_succs bs k else []) \<and>
        bb_preds (cfg_blocks cfg ! k) = block_preds bs m k) \<and>
     cfg_exits cfg = filter (\<lambda>i. is_exit (bs ! i)) [0 ..< m]"

lemma connect_block_connected:
  assumes "connected bs m cfg" and "m < length bs"
  shows "connected bs (Suc m) (connect_block m cfg)"
proof -
  from assms have sc: "same_code bs (cfg_blocks cfg)" and len: "length (cfg_blocks cfg) = length bs"
    by (simp_all add: connected_def same_code_def)
  have su: "block_succs (cfg_blocks cfg) m = block_succs bs m" by (rule same_codeD(5) [OF sc assms(2)])
  have ex: "is_exit (cfg_blocks cfg ! m) = is_exit (bs ! m)" using sc assms(2) by (simp add: is_exit_def same_code_def)
  have lt: "\<forall>j \<in> set (block_succs bs m). j < length (cfg_blocks cfg)" using block_succs_less len by simp
  note nth = add_edges_nth [of m cfg "block_succs bs m", OF _ lt]
  have bl: "cfg_blocks (connect_block m cfg) = cfg_blocks (fold (add_edge m) (block_succs bs m) cfg)"
    using assms(2) len by (simp add: connect_block_edges su Let_def)
  have "cfg_exits (connect_block m cfg) = filter (\<lambda>i. is_exit (bs ! i)) [0 ..< Suc m]"
    using assms len by (simp add: connect_block_edges su ex Let_def connected_def)
  moreover have "same_code bs (cfg_blocks (connect_block m cfg))"
    using sc nth assms(2) len by (simp add: bl same_code_def Let_def)
  moreover have "bb_succs (cfg_blocks (connect_block m cfg) ! k) = (if k < Suc m then block_succs bs k else []) \<and>
      bb_preds (cfg_blocks (connect_block m cfg) ! k) = block_preds bs (Suc m) k" if "k < length bs" for k
    using assms that nth [of k] len by (auto simp: bl Let_def connected_def block_preds_def)
  ultimately show ?thesis by (simp add: connected_def)
qed

lemma connect_blocks_connected:
  assumes "\<forall>b \<in> set (cfg_blocks cfg). bb_succs b = [] \<and> bb_preds b = []" and "cfg_exits cfg = []"
  shows "connected (cfg_blocks cfg) (length (cfg_blocks cfg)) (connect_blocks cfg)"
proof -
  have "connected (cfg_blocks cfg) m (fold connect_block [0 ..< m] cfg)" if "m \<le> length (cfg_blocks cfg)" for m
    using that
  proof (induction m)
    case 0
    then show ?case using assms by (simp add: connected_def same_code_def block_preds_def)
  next
    case (Suc m)
    then show ?case by (simp add: connect_block_connected)
  qed
  then show ?thesis by (simp add: connect_blocks_def)
qed

section \<open>Blocks\<close>

definition block_limit :: "u64 \<Rightarrow> E9BasicBlock list \<Rightarrow> nat \<Rightarrow> u64" where
  "block_limit e bs k = (if k + 1 < length bs then bb_start (bs ! (k + 1)) else e)"

definition block_ok :: "(u64 \<Rightarrow> AInsn ptr ub) \<Rightarrow> u64 \<Rightarrow> E9BasicBlock \<Rightarrow> bool" where
  "block_ok dis lim b \<longleftrightarrow>
     straight dis (bb_start b) lim (bb_insns b) \<and> bb_end b = block_end (bb_start b) lim (bb_insns b)"

context insn_source
begin

lemma make_block_total:
  assumes "lim + 4 < 2 ^ 64" and "unat a + 4 < 2 ^ 64"
  shows "\<exists>b. make_block dis a e = Some b \<and> bb_start b = a \<and> block_ok dis e b \<and> bb_succs b = [] \<and> bb_preds b = []"
  using block_loop_total [OF assms, of e "[]"] by (auto simp: make_block_def block_ok_def)

lemma make_blocks_total:
  assumes "lim + 4 < 2 ^ 64" and "\<forall>a \<in> set ls. unat a + 4 < 2 ^ 64" and "n + length ls \<le> cfg_max_blocks"
  shows "\<exists>bs. make_blocks dis ls e n = Some bs \<and> map bb_start bs = ls \<and>
    (\<forall>k < length bs. block_ok dis (block_limit e bs k) (bs ! k)) \<and> (\<forall>b \<in> set bs. bb_succs b = [] \<and> bb_preds b = [])"
  using assms(2,3)
proof (induction ls arbitrary: n)
  case Nil
  then show ?case by simp
next
  case (Cons l ls)
  let ?e = "case ls of [] \<Rightarrow> e | l' # _ \<Rightarrow> l'"
  from make_block_total [OF assms(1), of l ?e] Cons.prems(1) obtain b where
    b: "make_block dis l ?e = Some b" "bb_start b = l" "block_ok dis ?e b" "bb_succs b = []" "bb_preds b = []" by auto
  from Cons.IH [of "n + 1"] Cons.prems obtain bs where
    bs: "make_blocks dis ls e (n + 1) = Some bs" "map bb_start bs = ls"
      "\<forall>k < length bs. block_ok dis (block_limit e bs k) (bs ! k)"
      "\<forall>b \<in> set bs. bb_succs b = [] \<and> bb_preds b = []" by auto
  have lim0: "block_limit e (b # bs) 0 = ?e"
    using bs(2) by (cases bs) (auto simp: block_limit_def)
  have limS: "block_limit e (b # bs) (Suc k) = block_limit e bs k" for k by (simp add: block_limit_def)
  have "\<forall>k < length (b # bs). block_ok dis (block_limit e (b # bs) k) ((b # bs) ! k)"
    using b(3) bs(3) by (auto simp: less_Suc_eq_0_disj lim0 limS)
  with b bs Cons.prems(2) show ?case by (simp add: Cons.prems)
qed

end

lemma entry_block_unique:
  assumes "distinct (map bb_start bs)" and "k < length bs" and "bb_start (bs ! k) = f"
  shows "entry_block f bs = Some k"
proof -
  have u: "bb_start (bs ! j) = f \<longleftrightarrow> j = k" if "j < length bs" for j
    using assms that by (auto simp: distinct_conv_nth)
  have "fold (\<lambda>i e. if bb_start (bs ! i) = f then Some i else e) [0 ..< m] None = (if k < m then Some k else None)"
    if "m \<le> length bs" for m
    using that by (induction m) (auto simp: u)
  then show ?thesis using assms(2) by (simp add: entry_block_def)
qed

section \<open>The finished graph\<close>

text \<open>
  The blocks partition the leaders: they start at distinct, increasing addresses, one of them
  (the entry) at the function's address; every block is a straight sweep of instructions up to the
  start of the next one, or up to the end of the function.
\<close>

definition cfg_blocks_wf :: "(u64 \<Rightarrow> AInsn ptr ub) \<Rightarrow> u64 \<Rightarrow> u64 \<Rightarrow> E9CFG \<Rightarrow> bool" where
  "cfg_blocks_wf dis f e cfg \<longleftrightarrow>
     length (cfg_blocks cfg) \<le> cfg_max_blocks \<and>
     sorted_wrt (<) (map bb_start (cfg_blocks cfg)) \<and>
     (\<forall>b \<in> set (cfg_blocks cfg). bb_start b = f \<or> bb_start b < e) \<and>
     (\<exists>k < length (cfg_blocks cfg). cfg_entry cfg = Some k \<and> bb_start (cfg_blocks cfg ! k) = f) \<and>
     (\<forall>k < length (cfg_blocks cfg).
        block_ok dis (block_limit e (cfg_blocks cfg) k) (cfg_blocks cfg ! k))"

text \<open>
  The edges are those of the specification \<open>block_succs\<close>, recorded once at the source and once at
  the target; the exits are the blocks that return.
\<close>

definition cfg_edges_wf :: "E9CFG \<Rightarrow> bool" where
  "cfg_edges_wf cfg \<longleftrightarrow>
     (let bs = cfg_blocks cfg; n = length bs in
      (\<forall>k < n. bb_succs (bs ! k) = block_succs bs k \<and> bb_preds (bs ! k) = block_preds bs n k) \<and>
      cfg_exits cfg = filter (\<lambda>i. is_exit (bs ! i)) [0 ..< n] \<and>
      cfg_complexity cfg = word_of_nat (\<Sum>b\<leftarrow>bs. length (bb_succs b)) - word_of_nat n + 2)"

lemma cfg_edges_sum: "cfg_edges cfg = word_of_nat (\<Sum>b\<leftarrow>cfg_blocks cfg. length (bb_succs b))"
proof -
  have "fold (\<lambda>b n. n + word_of_nat (length (bb_succs b))) bs a =
      a + word_of_nat (\<Sum>b\<leftarrow>bs. length (bb_succs b))" for bs and a :: u32
    by (induction bs arbitrary: a) simp_all
  from this [of "cfg_blocks cfg" 0] show ?thesis by (simp only: cfg_edges_def add_0)
qed

lemma connect_block_entry: "cfg_entry (connect_block i cfg) = cfg_entry cfg"
  by (simp add: connect_block_def add_branch_def add_fall_through_def Let_def split: E9InsnCategory.split option.split)

lemma connect_blocks_entry: "cfg_entry (connect_blocks cfg) = cfg_entry cfg"
proof -
  have "cfg_entry (fold connect_block is cfg) = cfg_entry cfg" for "is"
    by (induction "is" arbitrary: cfg) (simp_all add: connect_block_entry)
  then show ?thesis by (simp add: connect_blocks_def)
qed

lemma same_code_blocks:
  assumes "same_code bs cs"
  shows "map bb_start cs = map bb_start bs" "block_limit e cs k = block_limit e bs k"
    "k < length bs \<Longrightarrow> block_ok dis l (cs ! k) = block_ok dis l (bs ! k)"
  using assms by (auto simp: same_code_def block_limit_def block_ok_def intro: nth_equalityI)

context insn_source
begin

lemma cfg_build_total:
  assumes lim: "lim + 4 < 2 ^ 64" and f: "unat f + 0x10004 < 2 ^ 64" and g: "unat g + 4 < 2 ^ 64"
  shows "\<exists>cfg. cfg_build dis f g = Some cfg \<and>
    cfg_blocks_wf dis f (if g \<noteq> 0 then g else f + 0x10000) cfg \<and> cfg_edges_wf cfg"
proof -
  define e where "e = (if g \<noteq> 0 then g else f + 0x10000)"
  have e: "unat e + 4 < 2 ^ 64"
    using f g unat_add_small [of f "0x10000"] by (simp add: e_def)
  from leaders_loop_total [OF lim, of f f e "[f]"] f obtain ls where ls: "leaders_loop dis f e f [f] = Some ls" by auto
  then have ok: "leaders_ok f e ls" by (rule leaders_loop_ok)
  from sort_leaders_sorts [of ls] have so: "sorted (sort_leaders ls)" "mset (sort_leaders ls) = mset ls" by simp_all
  have set_eq: "set (sort_leaders ls) = set ls" by (metis so(2) set_mset_mset)
  have len_eq: "length (sort_leaders ls) = length ls" by (metis so(2) size_mset)
  have dist: "distinct (sort_leaders ls)" using ok so(2) by (metis leaders_ok_def mset_eq_imp_distinct_iff)
  have sm: "\<forall>a \<in> set (sort_leaders ls). unat a + 4 < 2 ^ 64"
    using ok e f by (auto simp: set_eq leaders_ok_def word_less_nat_alt)
  have "0 + length (sort_leaders ls) \<le> cfg_max_blocks" using ok by (simp add: len_eq leaders_ok_def)
  from make_blocks_total [OF lim sm this, of e] obtain bs where
    bs: "make_blocks dis (sort_leaders ls) e 0 = Some bs" "map bb_start bs = sort_leaders ls"
      "\<forall>k < length bs. block_ok dis (block_limit e bs k) (bs ! k)"
      "\<forall>b \<in> set bs. bb_succs b = [] \<and> bb_preds b = []" by auto
  define c0 where "c0 = \<lparr>cfg_blocks = bs, cfg_entry = entry_block f bs, cfg_exits = [], cfg_complexity = 0\<rparr>"
  define c1 where "c1 = connect_blocks c0"
  have con: "connected bs (length bs) c1"
    using connect_blocks_connected [of c0] bs(4) by (simp add: c0_def c1_def)
  then have sc: "same_code bs (cfg_blocks c1)" by (simp add: connected_def)
  note scD = same_codeD [OF sc] and scB = same_code_blocks [OF sc]
  define cfg where "cfg = c1\<lparr>cfg_complexity := cfg_edges c1 - word_of_nat (length (cfg_blocks c1)) + 2\<rparr>"
  have "cfg_build dis f g = Some cfg"
    by (simp add: cfg_build_def e_def [symmetric] ls bs(1) c0_def [symmetric] c1_def [symmetric] cfg_def)
  moreover have "cfg_blocks_wf dis f e cfg"
  proof -
    from ok obtain k where k: "k < length bs" "bb_start (bs ! k) = f"
      by (metis bs(2) in_set_conv_nth leaders_ok_def length_map nth_map set_eq)
    have "cfg_entry c1 = Some k"
      using entry_block_unique [OF _ k] dist bs(2) by (simp add: c1_def connect_blocks_entry c0_def)
    moreover have "bb_start (cfg_blocks c1 ! k) = f" using sc k by (simp add: same_code_def)
    moreover have "sorted_wrt (<) (map bb_start bs)" using so(1) dist bs(2) by (simp add: strict_sorted_iff)
    moreover have "\<forall>b \<in> set (cfg_blocks c1). bb_start b = f \<or> bb_start b < e"
    proof -
      have "set (map bb_start (cfg_blocks c1)) = set ls" by (simp only: scB(1) bs(2) set_eq)
      with ok show ?thesis by (force simp: leaders_ok_def)
    qed
    moreover have "length bs \<le> cfg_max_blocks"
      using ok len_eq bs(2) by (metis leaders_ok_def length_map less_imp_le)
    ultimately show ?thesis
      using k(1) bs(3) scD(1) scB by (auto simp: cfg_blocks_wf_def cfg_def)
  qed
  moreover have "cfg_edges_wf cfg"
  proof -
    have "block_preds (cfg_blocks c1) (length bs) k = block_preds bs (length bs) k" for k
      unfolding block_preds_def by (intro arg_cong [where f = concat] map_cong) (simp_all add: scD(5))
    moreover have "filter (\<lambda>i. is_exit (cfg_blocks c1 ! i)) [0 ..< length bs] = filter (\<lambda>i. is_exit (bs ! i)) [0 ..< length bs]"
      using sc by (intro filter_cong) (auto simp: is_exit_def same_code_def)
    ultimately show ?thesis
      using con scD(1,5) by (auto simp: cfg_edges_wf_def cfg_def connected_def Let_def cfg_edges_sum)
  qed
  ultimately show ?thesis by (auto simp: e_def)
qed

end

lemma count_block_preds: "i < n \<Longrightarrow> count_list (block_preds bs n k) i = count_list (block_succs bs i) k"
proof -
  have r: "count_list (map (\<lambda>_. i') xs) i = (if i' = i then length xs else 0)" for i' :: nat and xs :: "nat list"
    by (induction xs) auto
  have c: "length (filter (\<lambda>j. j = k) xs) = count_list xs k" for xs :: "nat list"
    by (induction xs) auto
  have "count_list (block_preds bs n k) i = (if i < n then count_list (block_succs bs i) k else 0)"
  proof (induction n)
    case 0
    then show ?case by (simp add: block_preds_def)
  next
    case (Suc n)
    then show ?case by (auto simp: block_preds_def r c)
  qed
  then show "i < n \<Longrightarrow> count_list (block_preds bs n k) i = count_list (block_succs bs i) k" by simp
qed

section \<open>Properties\<close>

text \<open>
  e9_disasm_range terminates on every image that does not wrap around the address space and
  returns a gapless sequence of instructions from the start address, each the one that
  e9_disasm_instruction decodes there; it ends at the requested end or at an address that
  does not decode.
\<close>

theorem disasm_range_sweeps:
  assumes "unat (bin_base_address bin) + length (bin_data bin) + 4 < 2 ^ 64" and "unat start + 4 < 2 ^ 64"
    and "start < endp"
  shows "\<exists>is. e9_disasm_range (Some bin) start endp = Some is \<and> insn_chain start is \<and>
    (\<forall>i \<in> set is. ai_address i < endp \<and> e9_disasm_instruction (Some bin) (ai_address i) = Some (Some i) \<and>
       insn_wf bin (ai_address i) i) \<and>
    (endp \<le> chain_end start is \<or> e9_disasm_instruction (Some bin) (chain_end start is) = Some None)"
  using an.range_loop_total [OF assms(1,2), of endp] assms(3) disasm_at_wf [of bin]
  by (auto simp: e9_disasm_range_def e9_disasm_instruction_def sweep_def)

definition cfg_demo :: E9Binary where
  "cfg_demo = insn_demo E9_ARCH_AARCH64
     [0x00, 0x04, 0x00, 0x91, 0x00, 0x04, 0x00, 0x91, 0xE1, 0xFF, 0xFF, 0x54, 0xC0, 0x03, 0x5F, 0xD6]"

lemma cfg_demo_facts: "unat (bin_base_address cfg_demo) + length (bin_data cfg_demo) + 4 < 2 ^ 64"
  by (simp add: cfg_demo_def insn_demo_def)

lemma disasm_range_sweeps_witness:
  "\<exists>is. e9_disasm_range (Some cfg_demo) 0x1000 0x1010 = Some is \<and> insn_chain 0x1000 is \<and>
    (\<forall>i \<in> set is. ai_address i < 0x1010 \<and> e9_disasm_instruction (Some cfg_demo) (ai_address i) = Some (Some i) \<and>
       insn_wf cfg_demo (ai_address i) i) \<and>
    (0x1010 \<le> chain_end 0x1000 is \<or> e9_disasm_instruction (Some cfg_demo) (chain_end 0x1000 is) = Some None)"
  by (rule disasm_range_sweeps [OF cfg_demo_facts]) simp_all



text \<open>
  C3.  The edges of a built graph: the successors of every block are exactly those that its last
  instruction specifies (at most two, all of them blocks of the graph), every edge is recorded
  as often among the predecessors of its target as among the successors of its source, the exits
  are the returning blocks, and the cyclomatic complexity is edges - blocks + 2 in 32 bits.
\<close>

theorem cfg_build_edges:
  assumes "unat (bin_base_address bin) + length (bin_data bin) + 4 < 2 ^ 64"
    and "unat faddr + 0x10004 < 2 ^ 64" and "unat fend + 4 < 2 ^ 64"
    and "e9_cfg_build (Some bin) (Some (faddr, fend)) = Some (Some cfg)"
  shows "cfg_edges_wf cfg \<and>
    (\<forall>i < length (cfg_blocks cfg). length (bb_succs (cfg_blocks cfg ! i)) \<le> 2 \<and>
       (\<forall>j \<in> set (bb_succs (cfg_blocks cfg ! i)). j < length (cfg_blocks cfg)) \<and>
       (\<forall>j < length (cfg_blocks cfg).
          count_list (bb_preds (cfg_blocks cfg ! j)) i = count_list (bb_succs (cfg_blocks cfg ! i)) j))"
proof -
  have wf: "cfg_edges_wf cfg"
    using an.cfg_build_total [OF assms(1-3)] assms(4) by (auto simp: e9_cfg_build_def)
  then show ?thesis
    using block_succs_two block_succs_less
    by (auto simp: cfg_edges_wf_def Let_def count_block_preds)
qed

definition cfg_demo_graph :: E9CFG where
  "cfg_demo_graph = (case e9_cfg_build (Some cfg_demo) (Some (0x1000, 0)) of Some (Some cfg) \<Rightarrow> cfg)"

lemma cfg_demo_graph: "e9_cfg_build (Some cfg_demo) (Some (0x1000, 0)) = Some (Some cfg_demo_graph)"
  using an.cfg_build_total [OF cfg_demo_facts, of "0x1000" 0]
  by (auto simp: cfg_demo_graph_def e9_cfg_build_def)

lemma cfg_build_edges_witness:
  "e9_cfg_build (Some cfg_demo) (Some (0x1000, 0)) = Some (Some cfg_demo_graph) \<and> cfg_edges_wf cfg_demo_graph \<and>
    list_all (\<lambda>b. length (bb_succs b) \<le> 2) (cfg_blocks cfg_demo_graph)"
  using cfg_build_edges [OF cfg_demo_facts _ _ cfg_demo_graph] cfg_demo_graph by (simp add: list_all_length)

text \<open>
  C35.  Control flow that the graph loses: a block whose last instruction is neither a branch, a
  call, a return nor of category OTHER (a push, a pop, a NOP, a load, a store, an addition or a
  system call) has no successor at all, although execution continues at the next block.
\<close>

theorem cfg_lost_fall_through:
  assumes "unat (bin_base_address bin) + length (bin_data bin) + 4 < 2 ^ 64"
    and "unat faddr + 0x10004 < 2 ^ 64" and "unat fend + 4 < 2 ^ 64"
    and "e9_cfg_build (Some bin) (Some (faddr, fend)) = Some (Some cfg)"
    and "k < length (cfg_blocks cfg)" and "bb_insns (cfg_blocks cfg ! k) \<noteq> []"
    and "ai_category (last (bb_insns (cfg_blocks cfg ! k))) \<in>
      {E9_INSN_PUSH, E9_INSN_POP, E9_INSN_NOP, E9_INSN_LOAD, E9_INSN_STORE, E9_INSN_ARITHMETIC, E9_INSN_LEA,
       E9_INSN_SYSCALL}"
  shows "bb_succs (cfg_blocks cfg ! k) = []"
proof -
  have "cfg_edges_wf cfg"
    using an.cfg_build_total [OF assms(1-3)] assms(4) by (auto simp: e9_cfg_build_def)
  with assms(5-7) show ?thesis by (auto simp: cfg_edges_wf_def Let_def block_succs_def)
qed

lemma cfg_demo_graph_blocks:
  "map (\<lambda>b. (bb_start b, bb_insns b = [], ai_category (last (bb_insns b)), bb_succs b)) (cfg_blocks cfg_demo_graph) =
    [(0x1000, False, E9_INSN_ARITHMETIC, []), (0x1004, False, E9_INSN_COND_JUMP, [2, 1]), (0x100C, False, E9_INSN_RET, [])]"
  by code_simp

lemma cfg_lost_fall_through_witness:
  "map bb_start (cfg_blocks cfg_demo_graph) = [0x1000, 0x1004, 0x100C] \<and>
   bb_succs (cfg_blocks cfg_demo_graph ! 1) = [2, 1] \<and> bb_succs (cfg_blocks cfg_demo_graph ! 0) = []"
proof -
  from cfg_demo_graph_blocks obtain b0 b1 b2 where b: "cfg_blocks cfg_demo_graph = [b0, b1, b2]"
    "bb_start b0 = 0x1000" "bb_insns b0 \<noteq> []" "ai_category (last (bb_insns b0)) = E9_INSN_ARITHMETIC"
    "bb_start b1 = 0x1004" "bb_succs b1 = [2, 1]" "bb_start b2 = 0x100C"
    by (auto simp: map_eq_Cons_conv)
  have "bb_succs (cfg_blocks cfg_demo_graph ! 0) = []"
    by (rule cfg_lost_fall_through [OF cfg_demo_facts _ _ cfg_demo_graph]) (simp_all add: b)
  with b show ?thesis by simp
qed

end
