(* ===== verification/E9AnCtx.thy ===== *)
theory E9AnCtx
  imports E9BinaryCtx E9Cfg
begin

text \<open>
  The state of the analysis engine: \<open>struct E9Binary\<close> of
  \<open>src/src/e9patch/analysis/e9analysis.h\<close> with everything the engine computes.

  The linked lists of symbols, functions and source mappings are lists, head first; the engine
  only ever pushes at the head.  A pointer to an element is its number counted from the tail,
  which pushing does not change.  Strings are the bytes before the terminating zero.  The members
  that none of the modelled files reads or writes (types, cross references, string and
  initialiser tables) are left out.
\<close>

section \<open>Data\<close>

datatype E9Format =
    E9_FORMAT_UNKNOWN
  | E9_FORMAT_ELF
  | E9_FORMAT_PE
  | E9_FORMAT_MACHO
  | E9_FORMAT_APE
  | E9_FORMAT_RAW

datatype E9SymbolType =
    E9_SYM_UNKNOWN
  | E9_SYM_FUNCTION
  | E9_SYM_GLOBAL_VAR
  | E9_SYM_LOCAL_VAR
  | E9_SYM_PARAMETER
  | E9_SYM_LABEL
  | E9_SYM_STRING
  | E9_SYM_VTABLE
  | E9_SYM_THUNK
  | E9_SYM_VALUE int \<comment> \<open>an integer cast to the type that is none of the above\<close>

record E9Symbol =
  sy_name :: "bytes ptr"
  sy_demangled :: "bytes ptr"
  sy_address :: u64
  sy_size :: u64
  sy_type :: E9SymbolType
  sy_is_external :: bool
  sy_is_weak :: bool

datatype E9CallConv = E9_CC_UNKNOWN | E9_CC_SYSV_AMD64 | E9_CC_MS_X64 | E9_CC_AAPCS64

record E9Variable =
  var_name :: "bytes ptr"
  var_stack_offset :: int \<comment> \<open>\<open>int32_t\<close>\<close>

record E9Function =
  fn_name :: "bytes ptr"
  fn_address :: u64
  fn_end_address :: u64
  fn_size :: u32
  fn_cfg :: "E9CFG ptr"
  fn_calling_convention :: E9CallConv
  fn_is_leaf :: bool
  fn_is_noreturn :: bool
  fn_is_variadic :: bool
  fn_num_params :: u32
  fn_locals :: "E9Variable ptr list"
  fn_decompiled_c :: "bytes ptr"
  fn_signature :: "bytes ptr"
  fn_source_file :: "bytes ptr"
  fn_source_line :: u32
  fn_symbol :: "nat ptr"

record E9SourceMapping =
  map_source_file :: "bytes ptr"
  map_line :: u32
  map_column :: u32
  map_address :: u64
  map_size :: u32

record E9ApeLayout =
  ape_shell_offset :: u64
  ape_shell_size :: u64
  ape_elf_offset :: u64
  ape_elf_size :: u64
  ape_pe_offset :: u64
  ape_pe_size :: u64
  ape_zipos_start :: u64
  ape_zipos_central_dir :: u64
  ape_zipos_end :: u64
  ape_zipos_num_entries :: u32

record E9Analysis = E9Binary +
  an_format :: E9Format
  an_is_pie :: bool
  an_has_debug_info :: bool
  an_entry_point :: u64
  an_symbols :: "E9Symbol list"
  an_functions :: "E9Function list"
  an_mappings :: "E9SourceMapping list"
  an_ape :: E9ApeLayout

definition no_ape_layout :: E9ApeLayout where
  "no_ape_layout =
     \<lparr>ape_shell_offset = 0, ape_shell_size = 0, ape_elf_offset = 0, ape_elf_size = 0, ape_pe_offset = 0,
      ape_pe_size = 0, ape_zipos_start = 0, ape_zipos_central_dir = 0, ape_zipos_end = 0,
      ape_zipos_num_entries = 0\<rparr>"

text \<open>\<open>e9_binary_create\<close>: at least 16 bytes.\<close>

definition e9_binary_create :: "bytes ptr \<Rightarrow> E9Analysis ptr" where
  "e9_binary_create d =
     (case d of
        None \<Rightarrow> None
      | Some data \<Rightarrow>
          if length data < 16 then None
          else Some \<lparr>bin_data = data, bin_base_address = 0, bin_arch = E9_ARCH_UNKNOWN, bin_sections = [],
                     an_format = E9_FORMAT_UNKNOWN, an_is_pie = False, an_has_debug_info = False,
                     an_entry_point = 0, an_symbols = [], an_functions = [], an_mappings = [],
                     an_ape = no_ape_layout\<rparr>)"

section \<open>Lists with numbered elements\<close>

text \<open>The element with number \<open>k\<close> (the oldest has number 0), and its update.\<close>

definition elem_at :: "nat \<Rightarrow> 'x list \<Rightarrow> 'x" where
  "elem_at k xs = xs ! (length xs - 1 - k)"

definition elem_update :: "nat \<Rightarrow> ('x \<Rightarrow> 'x) \<Rightarrow> 'x list \<Rightarrow> 'x list" where
  "elem_update k f xs = xs[length xs - 1 - k := f (elem_at k xs)]"

lemma elem_at_push: "k < length xs \<Longrightarrow> elem_at k (x # xs) = elem_at k xs"
  by (simp add: elem_at_def nth_Cons')

lemma elem_at_new: "elem_at (length xs) (x # xs) = x"
  by (simp add: elem_at_def)

lemma length_elem_update [simp]: "length (elem_update k f xs) = length xs"
  by (simp add: elem_update_def)

lemma elem_at_update:
  "k < length xs \<Longrightarrow> j < length xs \<Longrightarrow> elem_at j (elem_update k f xs) = (if j = k then f (elem_at k xs) else elem_at j xs)"
  by (auto simp: elem_at_def elem_update_def nth_list_update)

lemma elem_at_mem: "k < length xs \<Longrightarrow> elem_at k xs \<in> set xs"
  by (simp add: elem_at_def)

lemma mem_elem_at: "x \<in> set xs \<longleftrightarrow> (\<exists>k < length xs. x = elem_at k xs)"
proof
  assume "x \<in> set xs"
  then obtain i where i: "i < length xs" "x = xs ! i" by (auto simp: in_set_conv_nth)
  then have "x = elem_at (length xs - 1 - i) xs" by (simp add: elem_at_def)
  with i show "\<exists>k < length xs. x = elem_at k xs" by (intro exI [of _ "length xs - 1 - i"]) auto
qed (auto intro: elem_at_mem)

lemma map_elem_update: "(\<And>x. g (f x) = g x) \<Longrightarrow> k < length xs \<Longrightarrow> map g (elem_update k f xs) = map g xs"
  by (simp add: elem_update_def map_update elem_at_def list_update_same_conv)

lemma elem_update_all:
  assumes "\<forall>f \<in> set fs. P f" and "\<And>f. P f \<Longrightarrow> P (g f)"
  shows "\<forall>f \<in> set (elem_update k g fs). P f"
proof (cases "fs = []")
  case True
  then show ?thesis by (simp add: elem_update_def)
next
  case False
  then have "elem_at k fs \<in> set fs" by (simp add: elem_at_def)
  with assms have "P (g (elem_at k fs))" by blast
  with assms(1) show ?thesis
    using set_update_subset_insert [of fs "length fs - 1 - k" "g (elem_at k fs)"] by (auto simp: elem_update_def)
qed

end
