(* ===== verification/E9SymTab.thy ===== *)
theory E9SymTab
  imports E9AnCtx
begin

text \<open>
  The symbol table of \<open>src/src/e9patch/analysis/e9analysis.c\<close>: parsing the tables of an ELF file,
  the lookups, the generated names, and export and import as text.

  \<open>None\<close> is an access outside the file or a division by zero.  The product of two 16-bit fields
  is an \<open>int\<close> in C; it is taken to wrap around and is sign-extended where a 64-bit value is
  added.  A symbol's pointer is its number from the tail of the list.
\<close>

section \<open>Reading strings\<close>

text \<open>The C string at an offset; without a terminating zero the read leaves the file.\<close>

definition rd_cstr :: "bytes \<Rightarrow> nat \<Rightarrow> bytes ub" where
  "rd_cstr d off = (if 0 \<in> set (drop off d) then Some (c_str (drop off d)) else None)"

section \<open>ELF symbol tables\<close>

text \<open>\<open>a * b\<close> of two \<open>uint16_t\<close>, as it is added to a 64-bit value.\<close>

definition mul16 :: "u16 \<Rightarrow> u16 \<Rightarrow> u64" where
  "mul16 a b = scast (ucast a * ucast b :: u32)"

record elf_table =
  et_off :: u64
  et_size :: u64
  et_entsize :: u32
  et_strtab :: u64

definition no_table :: elf_table where
  "no_table = \<lparr>et_off = 0, et_size = 0, et_entsize = 24, et_strtab = 0\<rparr>"

text \<open>One section header.  \<open>link * shentsize\<close> is computed in 32 bits.\<close>

definition elf_section_table ::
  "bytes \<Rightarrow> u64 \<Rightarrow> u16 \<Rightarrow> u16 \<Rightarrow> nat \<Rightarrow> elf_table \<Rightarrow> elf_table ub" where
  "elf_section_table d shoff shentsize shnum i t =
     (let shdr = unat (shoff + mul16 (word_of_nat i) shentsize) in do {
        ty \<leftarrow> rd32 d (shdr + 4);
        _ \<leftarrow> rd32 d shdr;
        if ty = 2 \<or> (ty = 11 \<and> et_off t = 0) then do {
          off \<leftarrow> rd64 d (shdr + 24);
          size \<leftarrow> rd64 d (shdr + 32);
          entsize \<leftarrow> rd32 d (shdr + 56);
          link \<leftarrow> rd32 d (shdr + 40);
          let t = t\<lparr>et_off := off, et_size := size, et_entsize := entsize\<rparr>;
          if link < ucast shnum then do {
            strtab \<leftarrow> rd64 d (unat (shoff + ucast (link * ucast shentsize)) + 24);
            Some (t\<lparr>et_strtab := strtab\<rparr>)
          } else Some t
        } else Some t
      })"

definition elf_find_table :: "bytes \<Rightarrow> u64 \<Rightarrow> u16 \<Rightarrow> u16 \<Rightarrow> elf_table ub" where
  "elf_find_table d shoff shentsize shnum =
     mfold (elf_section_table d shoff shentsize shnum) [0 ..< unat shnum] no_table"

text \<open>One entry: skipped without a name or a value.\<close>

definition elf_symbol :: "bytes \<Rightarrow> elf_table \<Rightarrow> nat \<Rightarrow> E9Symbol ptr ub" where
  "elf_symbol d t i =
     (let sym = unat (et_off t + ucast (word_of_nat i * et_entsize t :: u32)) in do {
        st_name \<leftarrow> rd32 d sym;
        st_info \<leftarrow> rd8 d (sym + 4);
        st_value \<leftarrow> rd64 d (sym + 8);
        st_size \<leftarrow> rd64 d (sym + 16);
        if st_name = 0 \<or> st_value = 0 then Some None
        else do {
          c \<leftarrow> rd8 d (unat (et_strtab t + ucast st_name));
          if c = 0 then Some None
          else do {
            name \<leftarrow> rd_cstr d (unat (et_strtab t + ucast st_name));
            Some (Some \<lparr>sy_name = Some name, sy_demangled = None, sy_address = st_value, sy_size = st_size,
              sy_type = (if st_info AND 0xF = 2 then E9_SYM_FUNCTION
                         else if st_info AND 0xF = 1 then E9_SYM_GLOBAL_VAR else E9_SYM_UNKNOWN),
              sy_is_external = (drop_bit 4 st_info = 1), sy_is_weak = (drop_bit 4 st_info = 2)\<rparr>)
          }
        }
      })"

definition push_symbol :: "E9Symbol ptr \<Rightarrow> E9Symbol list \<Rightarrow> E9Symbol list" where
  "push_symbol s syms = (case s of None \<Rightarrow> syms | Some x \<Rightarrow> x # syms)"

text \<open>\<open>num_syms = symtab_size / symtab_entsize\<close>, truncated to 32 bits.\<close>

definition elf_num_syms :: "elf_table \<Rightarrow> nat ub" where
  "elf_num_syms t =
     (if et_entsize t = 0 then None else Some (unat (ucast (et_size t div ucast (et_entsize t)) :: u32)))"

definition parse_elf_symbols :: "E9Analysis \<Rightarrow> E9Analysis ub" where
  "parse_elf_symbols bin =
     (let d = bin_data bin in do {
        shoff \<leftarrow> rd64 d 40;
        shentsize \<leftarrow> rd16 d 58;
        shnum \<leftarrow> rd16 d 60;
        shstrndx \<leftarrow> rd16 d 62;
        if shoff = 0 \<or> shnum = 0 \<or> length d < unat (shoff + mul16 shnum shentsize) then Some bin
        else do {
          _ \<leftarrow> rd64 d (unat (shoff + mul16 shstrndx shentsize) + 24);
          t \<leftarrow> elf_find_table d shoff shentsize shnum;
          if et_off t = 0 \<or> et_strtab t = 0 then Some bin
          else do {
            n \<leftarrow> elf_num_syms t;
            syms \<leftarrow> mfold (\<lambda>i syms. map_option (\<lambda>s. push_symbol s syms) (elf_symbol d t i)) [0 ..< n] (an_symbols bin);
            Some (bin\<lparr>an_symbols := syms\<rparr>)
          }
        }
      })"

text \<open>The export table of PE files is located, not parsed.\<close>

definition parse_pe_symbols :: "E9Analysis \<Rightarrow> E9Analysis ub" where
  "parse_pe_symbols bin =
     (let d = bin_data bin in do {
        pe_off \<leftarrow> rd32 d 0x3C;
        magic \<leftarrow> rd16 d (unat pe_off + 24);
        if magic \<noteq> 0x20B then Some bin
        else do {
          _ \<leftarrow> rd32 d (unat pe_off + 24 + 112);
          _ \<leftarrow> rd32 d (unat pe_off + 24 + 116);
          Some bin
        }
      })"

definition e9_symbols_parse :: "E9Analysis ptr \<Rightarrow> (int \<times> E9Analysis ptr) ub" where
  "e9_symbols_parse b =
     (case b of
        None \<Rightarrow> Some (-1, None)
      | Some bin \<Rightarrow>
          map_option (\<lambda>x. (0, Some x))
            (case an_format bin of
               E9_FORMAT_ELF \<Rightarrow> parse_elf_symbols bin
             | E9_FORMAT_PE \<Rightarrow> parse_pe_symbols bin
             | _ \<Rightarrow> Some bin))"

section \<open>The symbol list\<close>

definition new_symbol :: "bytes \<Rightarrow> u64 \<Rightarrow> E9SymbolType \<Rightarrow> E9Symbol" where
  "new_symbol name addr ty =
     \<lparr>sy_name = Some name, sy_demangled = None, sy_address = addr, sy_size = 0, sy_type = ty,
      sy_is_external = False, sy_is_weak = False\<rparr>"

definition e9_symbol_add :: "bytes ptr \<Rightarrow> u64 \<Rightarrow> E9SymbolType \<Rightarrow> E9Analysis ptr \<Rightarrow> nat ptr \<times> E9Analysis ptr" where
  "e9_symbol_add name addr ty b =
     (case (b, name) of
        (Some bin, Some n) \<Rightarrow>
          (Some (length (an_symbols bin)), Some (bin\<lparr>an_symbols := new_symbol n addr ty # an_symbols bin\<rparr>))
      | _ \<Rightarrow> (None, b))"

definition sy_covers :: "u64 \<Rightarrow> E9Symbol \<Rightarrow> bool" where
  "sy_covers addr s \<longleftrightarrow>
     sy_address s = addr \<or> (sy_size s \<noteq> 0 \<and> sy_address s \<le> addr \<and> addr < sy_address s + sy_size s)"

fun symbol_at :: "u64 \<Rightarrow> E9Symbol list \<Rightarrow> nat ptr" where
  "symbol_at addr [] = None"
| "symbol_at addr (s # ss) = (if sy_covers addr s then Some (length ss) else symbol_at addr ss)"

definition e9_symbol_at :: "E9Analysis ptr \<Rightarrow> u64 \<Rightarrow> nat ptr" where
  "e9_symbol_at b addr = (case b of None \<Rightarrow> None | Some bin \<Rightarrow> symbol_at addr (an_symbols bin))"

fun symbol_by_name :: "bytes \<Rightarrow> E9Symbol list \<Rightarrow> nat ptr" where
  "symbol_by_name name [] = None"
| "symbol_by_name name (s # ss) =
     (if sy_name s = Some name \<or> sy_demangled s = Some name then Some (length ss) else symbol_by_name name ss)"

definition e9_symbol_by_name :: "E9Analysis ptr \<Rightarrow> bytes ptr \<Rightarrow> nat ptr" where
  "e9_symbol_by_name b name =
     (case (b, name) of (Some bin, Some n) \<Rightarrow> symbol_by_name n (an_symbols bin) | _ \<Rightarrow> None)"

section \<open>Generated names\<close>

definition sub_name :: "u64 \<Rightarrow> bytes" where
  "sub_name addr = str_bytes (''sub_'' @ hex (unat addr))"

fun auto_symbols :: "E9Function list \<Rightarrow> E9Symbol list \<Rightarrow> E9Function list \<times> E9Symbol list" where
  "auto_symbols [] syms = ([], syms)"
| "auto_symbols (f # fs) syms =
     (if fn_symbol f = None then
        let s = (new_symbol (sub_name (fn_address f)) (fn_address f) E9_SYM_FUNCTION)
                  \<lparr>sy_size := ucast (fn_size f)\<rparr>;
            (fs', syms') = auto_symbols fs (s # syms)
        in (f\<lparr>fn_symbol := Some (length syms), fn_name := Some (sub_name (fn_address f))\<rparr> # fs', syms')
      else
        let (fs', syms') = auto_symbols fs syms in (f # fs', syms'))"

definition e9_symbols_auto :: "E9Analysis ptr \<Rightarrow> int \<times> E9Analysis ptr" where
  "e9_symbols_auto b =
     (case b of
        None \<Rightarrow> (-1, None)
      | Some bin \<Rightarrow>
          (let (fs, syms) = auto_symbols (an_functions bin) (an_symbols bin)
           in (0, Some (bin\<lparr>an_functions := fs, an_symbols := syms\<rparr>))))"

section \<open>Export and import\<close>

definition sym_type_num :: "E9SymbolType \<Rightarrow> int" where
  "sym_type_num t =
     (case t of E9_SYM_UNKNOWN \<Rightarrow> 0 | E9_SYM_FUNCTION \<Rightarrow> 1 | E9_SYM_GLOBAL_VAR \<Rightarrow> 2 | E9_SYM_LOCAL_VAR \<Rightarrow> 3
      | E9_SYM_PARAMETER \<Rightarrow> 4 | E9_SYM_LABEL \<Rightarrow> 5 | E9_SYM_STRING \<Rightarrow> 6 | E9_SYM_VTABLE \<Rightarrow> 7
      | E9_SYM_THUNK \<Rightarrow> 8 | E9_SYM_VALUE v \<Rightarrow> v)"

definition sym_type_of :: "int \<Rightarrow> E9SymbolType" where
  "sym_type_of v =
     (if 0 \<le> v \<and> v < 9 then
        [E9_SYM_UNKNOWN, E9_SYM_FUNCTION, E9_SYM_GLOBAL_VAR, E9_SYM_LOCAL_VAR, E9_SYM_PARAMETER, E9_SYM_LABEL,
         E9_SYM_STRING, E9_SYM_VTABLE, E9_SYM_THUNK] ! nat v
      else E9_SYM_VALUE v)"

definition dec_int :: "int \<Rightarrow> string" where
  "dec_int v = (if v < 0 then ''-'' @ dec (nat (- v)) else dec (nat v))"

definition export_name :: "E9Symbol \<Rightarrow> bytes" where
  "export_name s = (case sy_name s of None \<Rightarrow> [] | Some n \<Rightarrow> n)"

text \<open>\<open>fprintf(fp, "%s,0x%lx,%lu,%d\n", ...)\<close>\<close>

definition csv_line :: "E9Symbol \<Rightarrow> bytes" where
  "csv_line s = export_name s @ str_bytes ('',0x'' @ hex (unat (sy_address s)) @ '','' @ dec (unat (sy_size s)) @ '','' @
     dec_int (sym_type_num (sy_type s))) @ [10]"

definition csv_header :: bytes where
  "csv_header = str_bytes ''Name,Address,Size,Type'' @ [10]"

definition ida_line :: "E9Symbol \<Rightarrow> bytes" where
  "ida_line s = str_bytes (''MakeName(0x'' @ hex (unat (sy_address s)) @ '', '') @ [34] @ export_name s @
     [34] @ str_bytes '');'' @ [10]"

text \<open>What is written to the file.\<close>

definition export_text :: "bytes ptr \<Rightarrow> E9Symbol list \<Rightarrow> bytes" where
  "export_text fmt syms =
     (if fmt = None \<or> fmt = Some (str_bytes ''ghidra'') then csv_header @ concat (map csv_line syms)
      else if fmt = Some (str_bytes ''ida'') then concat (map ida_line syms)
      else [])"

text \<open>\<open>opened\<close>: does \<open>fopen(path, "w")\<close> succeed?\<close>

definition e9_symbols_export :: "E9Analysis ptr \<Rightarrow> string ptr \<Rightarrow> bytes ptr \<Rightarrow> bool \<Rightarrow> int \<times> bytes ptr" where
  "e9_symbols_export b path fmt opened =
     (case (b, path) of
        (Some bin, Some p) \<Rightarrow>
          if opened then (0, Some (export_text fmt (an_symbols bin))) else (-1, None)
      | _ \<Rightarrow> (-1, None))"

text \<open>Number conversions of \<open>sscanf\<close>.  A value out of range is undefined.\<close>

definition digit_val :: "u8 \<Rightarrow> nat option" where
  "digit_val b =
     (if 0x30 \<le> b \<and> b \<le> 0x39 then Some (unat (b - 0x30))
      else if 0x41 \<le> b \<and> b \<le> 0x46 then Some (unat (b - 0x41) + 10)
      else if 0x61 \<le> b \<and> b \<le> 0x66 then Some (unat (b - 0x61) + 10) else None)"

definition digit_in :: "nat \<Rightarrow> u8 \<Rightarrow> bool" where
  "digit_in base b = (case digit_val b of None \<Rightarrow> False | Some v \<Rightarrow> v < base)"

fun scan_digits :: "nat \<Rightarrow> nat \<Rightarrow> bytes \<Rightarrow> nat \<times> bytes" where
  "scan_digits base acc [] = (acc, [])"
| "scan_digits base acc (b # bs) =
     (case digit_val b of
        None \<Rightarrow> (acc, b # bs)
      | Some v \<Rightarrow> if v < base then scan_digits base (acc * base + v) bs else (acc, b # bs))"

definition skip_space :: "bytes \<Rightarrow> bytes" where
  "skip_space = dropWhile (\<lambda>b. b \<in> {9, 10, 11, 12, 13, 32})"

definition scan_sign :: "bytes \<Rightarrow> bool \<times> bytes" where
  "scan_sign bs =
     (case bs of [] \<Rightarrow> (False, []) | b # r \<Rightarrow>
        if b = 0x2D then (True, r) else if b = 0x2B then (False, r) else (False, bs))"

definition scan_prefix :: "bytes \<Rightarrow> bytes" where
  "scan_prefix bs =
     (case bs of b0 # b1 # r \<Rightarrow> if b0 = 0x30 \<and> (b1 = 0x78 \<or> b1 = 0x58) then r else bs | _ \<Rightarrow> bs)"

definition scan_number :: "nat \<Rightarrow> bytes \<Rightarrow> (bool \<times> nat \<times> bytes) option" where
  "scan_number base bs =
     (let (neg, r) = scan_sign (skip_space bs);
          r = (if base = 16 then scan_prefix r else r)
      in case r of
           [] \<Rightarrow> None
         | b # _ \<Rightarrow> if digit_in base b then let (v, r') = scan_digits base 0 r in Some (neg, v, r') else None)"

definition after_comma :: "bytes \<Rightarrow> bytes option" where
  "after_comma bs = (case bs of [] \<Rightarrow> None | b # r \<Rightarrow> if b = 0x2C then Some r else None)"

text \<open>
  The type field: \<open>",%*u,%d"\<close> after the address; \<open>E9_SYM_UNKNOWN\<close> is kept where it does not match.
\<close>

definition import_type :: "bytes \<Rightarrow> int ub" where
  "import_type r =
     (case Option.bind (after_comma r) (scan_number 10) of
        None \<Rightarrow> Some 0
      | Some (_, _, r) \<Rightarrow>
          (case Option.bind (after_comma r) (scan_number 10) of
             None \<Rightarrow> Some 0
           | Some (neg, v, _) \<Rightarrow>
               if 2 ^ 31 \<le> v then None else Some (if neg then - int v else int v)))"

text \<open>\<open>sscanf(line, "%255[^,],%lx,%*u,%d", ...) >= 2\<close>\<close>

definition import_line :: "bytes \<Rightarrow> (bytes \<times> u64 \<times> int) ptr ub" where
  "import_line line =
     (let line = c_str line;
          name = take 255 (takeWhile (\<lambda>b. b \<noteq> 0x2C) line)
      in if name = [] then Some None
         else case Option.bind (after_comma (drop (length name) line)) (scan_number 16) of
           None \<Rightarrow> Some None
         | Some (neg, v, r) \<Rightarrow>
             if 2 ^ 64 \<le> v then None
             else do {
               ty \<leftarrow> import_type r;
               Some (Some (name, (if neg then - word_of_nat v else word_of_nat v), ty))
             })"

text \<open>\<open>fgets(line, 1024, fp)\<close>\<close>

definition first_line :: "bytes \<Rightarrow> bytes" where
  "first_line bs = take 1023 (takeWhile (\<lambda>b. b \<noteq> 10) bs @ take 1 (dropWhile (\<lambda>b. b \<noteq> 10) bs))"

lemma first_line_length: "bs \<noteq> [] \<Longrightarrow> 0 < length (first_line bs)"
  by (cases bs) (auto simp: first_line_def)

function import_lines :: "bytes \<Rightarrow> E9Symbol list \<Rightarrow> E9Symbol list ub" where
  "import_lines bs syms =
     (if bs = [] then Some syms
      else do {
        l \<leftarrow> import_line (first_line bs);
        import_lines (drop (length (first_line bs)) bs)
          (case l of None \<Rightarrow> syms | Some (name, addr, ty) \<Rightarrow> new_symbol name addr (sym_type_of ty) # syms)
      })"
  by pat_completeness auto
termination
  by (relation "measure (\<lambda>(bs, syms). length bs)") (auto intro!: diff_less first_line_length)

declare import_lines.simps [simp del]

text \<open>\<open>content\<close>: what \<open>fopen(path, "r")\<close> opens.\<close>

definition e9_symbols_import :: "E9Analysis ptr \<Rightarrow> string ptr \<Rightarrow> bytes ptr \<Rightarrow> (int \<times> E9Analysis ptr) ub" where
  "e9_symbols_import b path content =
     (case (b, path, content) of
        (Some bin, Some p, Some bs) \<Rightarrow>
          map_option (\<lambda>syms. (0, Some (bin\<lparr>an_symbols := syms\<rparr>))) (import_lines bs (an_symbols bin))
      | _ \<Rightarrow> Some (-1, b))"

section \<open>Symbols of an ELF file\<close>

lemma elf_symbol_sound:
  assumes "elf_symbol d t i = Some (Some s)"
  shows "sy_address s \<noteq> 0 \<and> (\<exists>n. sy_name s = Some n \<and> n \<noteq> [] \<and> 0 \<notin> set n)"
proof -
  from assms obtain st v off where v: "v \<noteq> 0" "rd8 d off = Some st" "st \<noteq> 0"
    and n: "rd_cstr d off = sy_name s" "sy_name s \<noteq> None" "sy_address s = v"
    by (auto simp: elf_symbol_def Let_def Option.bind_eq_Some_conv split: if_splits)
  from n obtain nm where nm: "sy_name s = Some nm" "nm = c_str (drop off d)"
    by (auto simp: rd_cstr_def split: if_splits)
  have "drop off d = st # drop (Suc off) d"
    using v(2) by (simp add: rd8_eq_Some Cons_nth_drop_Suc)
  with v(3) nm have "nm \<noteq> []" by (simp add: c_str_def)
  moreover have "0 \<notin> set nm" using nm(2) by (auto simp: c_str_def dest: set_takeWhileD)
  ultimately show ?thesis using nm(1) n(3) v(1) by auto
qed

lemma elf_symbols_loop:
  assumes "mfold (\<lambda>i syms. map_option (\<lambda>s. push_symbol s syms) (elf_symbol d t i)) is syms = Some syms'"
  shows "\<exists>new. syms' = new @ syms \<and>
    (\<forall>s \<in> set new. sy_address s \<noteq> 0 \<and> (\<exists>n. sy_name s = Some n \<and> n \<noteq> [] \<and> 0 \<notin> set n)) \<and>
    list_all (\<lambda>i. elf_symbol d t i \<noteq> None) is \<and>
    new = rev (map the (filter (\<lambda>s. s \<noteq> None) (map (\<lambda>i. the (elf_symbol d t i)) is)))"
  using assms
proof (induction "is" arbitrary: syms)
  case Nil
  then show ?case by simp
next
  case (Cons i "is")
  then obtain s where s: "elf_symbol d t i = Some s"
    and r: "mfold (\<lambda>i syms. map_option (\<lambda>s. push_symbol s syms) (elf_symbol d t i)) is (push_symbol s syms) = Some syms'"
    by (cases "elf_symbol d t i") auto
  from Cons.IH [OF r] obtain new where new: "syms' = new @ push_symbol s syms"
    "\<forall>s \<in> set new. sy_address s \<noteq> 0 \<and> (\<exists>n. sy_name s = Some n \<and> n \<noteq> [] \<and> 0 \<notin> set n)"
    "list_all (\<lambda>i. elf_symbol d t i \<noteq> None) is"
    "new = rev (map the (filter (\<lambda>s. s \<noteq> None) (map (\<lambda>i. the (elf_symbol d t i)) is)))" by blast
  show ?case
  proof (cases s)
    case None
    with new s show ?thesis by (simp add: push_symbol_def)
  next
    case (Some x)
    with s have "sy_address x \<noteq> 0 \<and> (\<exists>n. sy_name x = Some n \<and> n \<noteq> [] \<and> 0 \<notin> set n)"
      using elf_symbol_sound by blast
    with Some new s show ?thesis by (simp add: push_symbol_def)
  qed
qed

section \<open>Generated names\<close>

text \<open>What \<open>e9_symbols_auto\<close> does with one function, given the final symbol list.\<close>

definition auto_named :: "E9Symbol list \<Rightarrow> E9Function \<Rightarrow> E9Function \<Rightarrow> bool" where
  "auto_named syms f f' \<longleftrightarrow>
     (if fn_symbol f = None then
        \<exists>k < length syms. f' = f\<lparr>fn_symbol := Some k, fn_name := Some (sub_name (fn_address f))\<rparr> \<and>
          elem_at k syms = (new_symbol (sub_name (fn_address f)) (fn_address f) E9_SYM_FUNCTION)
            \<lparr>sy_size := ucast (fn_size f)\<rparr>
      else f' = f)"

lemma elem_at_append: "k < length ys \<Longrightarrow> elem_at k (xs @ ys) = elem_at k ys"
  by (induction xs) (simp_all add: elem_at_push)

lemma auto_named_mono:
  assumes "auto_named syms f f'"
  shows "auto_named (new @ syms) f f'"
proof (cases "fn_symbol f = None")
  case True
  with assms obtain k where "k < length syms" "f' = f\<lparr>fn_symbol := Some k, fn_name := Some (sub_name (fn_address f))\<rparr>"
    "elem_at k syms = (new_symbol (sub_name (fn_address f)) (fn_address f) E9_SYM_FUNCTION)\<lparr>sy_size := ucast (fn_size f)\<rparr>"
    by (auto simp: auto_named_def)
  with True show ?thesis by (auto simp: auto_named_def elem_at_append intro!: exI [of _ k])
next
  case False
  with assms show ?thesis by (auto simp: auto_named_def)
qed

lemma auto_symbols_named:
  "auto_symbols fs syms = (fs', syms') \<Longrightarrow>
   (\<exists>new. syms' = new @ syms \<and> length new = length (filter (\<lambda>f. fn_symbol f = None) fs)) \<and>
   list_all2 (auto_named syms') fs fs'"
proof (induction fs arbitrary: syms fs' syms')
  case Nil
  then show ?case by simp
next
  case (Cons f fs)
  show ?case
  proof (cases "fn_symbol f = None")
    case False
    with Cons.prems obtain gs where gs: "auto_symbols fs syms = (gs, syms')" "fs' = f # gs"
      by (auto split: prod.splits)
    obtain y where y: "fn_symbol f = Some y" using False by blast
    then have "auto_named syms' f f" by (simp add: auto_named_def)
    with Cons.IH [OF gs(1)] gs(2) y show ?thesis by simp
  next
    case True
    define s where "s = (new_symbol (sub_name (fn_address f)) (fn_address f) E9_SYM_FUNCTION)\<lparr>sy_size := ucast (fn_size f)\<rparr>"
    from True Cons.prems obtain gs where gs: "auto_symbols fs (s # syms) = (gs, syms')"
      "fs' = f\<lparr>fn_symbol := Some (length syms), fn_name := Some (sub_name (fn_address f))\<rparr> # gs"
      by (auto simp: s_def Let_def split: prod.splits)
    from Cons.IH [OF gs(1)] obtain new where new: "syms' = new @ s # syms"
      "length new = length (filter (\<lambda>f. fn_symbol f = None) fs)" "list_all2 (auto_named syms') fs gs" by auto
    have "auto_named (s # syms) f (f\<lparr>fn_symbol := Some (length syms), fn_name := Some (sub_name (fn_address f))\<rparr>)"
      using True by (auto simp: auto_named_def s_def elem_at_new)
    from auto_named_mono [OF this, of new] new gs(2) True show ?thesis
      by (auto intro: exI [of _ "new @ [s]"])
  qed
qed

text \<open>The symbols it makes have generated names.\<close>

lemma auto_symbols_new:
  "auto_symbols fs syms = (fs', syms') \<Longrightarrow> s \<in> set syms' \<Longrightarrow> s \<in> set syms \<or> (\<exists>a. sy_name s = Some (sub_name a))"
proof (induction fs arbitrary: syms fs' syms')
  case Nil
  then show ?case by simp
next
  case (Cons f fs)
  show ?case
  proof (cases "fn_symbol f = None")
    case False
    with Cons.prems obtain gs where "auto_symbols fs syms = (gs, syms')" by (auto split: prod.splits)
    with Cons.IH Cons.prems(2) show ?thesis by blast
  next
    case True
    define t where "t = (new_symbol (sub_name (fn_address f)) (fn_address f) E9_SYM_FUNCTION)\<lparr>sy_size := ucast (fn_size f)\<rparr>"
    from True Cons.prems(1) obtain gs where gs: "auto_symbols fs (t # syms) = (gs, syms')"
      by (auto simp: t_def Let_def split: prod.splits)
    have "sy_name t = Some (sub_name (fn_address f))" by (simp add: t_def new_symbol_def)
    with Cons.IH [OF gs Cons.prems(2)] show ?thesis by auto
  qed
qed

section \<open>Numbers as text and back\<close>

lemma digit_val_hex: "n < 16 \<Longrightarrow> digit_val (of_char (hex_digit n)) = Some n"
proof -
  have "list_all (\<lambda>n. digit_val (of_char (hex_digit n)) = Some n) [0 ..< 16]" by code_simp
  then show "n < 16 \<Longrightarrow> ?thesis" by (simp add: list_all_iff)
qed

definition no_digit :: "nat \<Rightarrow> bytes \<Rightarrow> bool" where
  "no_digit base r \<longleftrightarrow> r = [] \<or> \<not> digit_in base (hd r)"

lemma scan_digits_stop: "no_digit base r \<Longrightarrow> scan_digits base acc r = (acc, r)"
  by (cases r) (auto simp: no_digit_def digit_in_def split: option.splits)

lemma scan_digits_step:
  "n < base \<Longrightarrow> base \<le> 16 \<Longrightarrow> scan_digits base acc (of_char (hex_digit n) # r) = scan_digits base (acc * base + n) r"
  by (simp add: digit_val_hex)

lemma scan_digits_hex:
  "scan_digits 16 acc (str_bytes (hex n) @ r) = scan_digits 16 (acc * 16 ^ length (hex n) + n) r"
proof (induction n arbitrary: acc r rule: hex.induct)
  case (1 n)
  show ?case
  proof (cases "n < 16")
    case True
    then show ?thesis using scan_digits_step [of n 16] by (simp add: hex.simps [of n] str_bytes_def)
  next
    case False
    have "scan_digits 16 acc (str_bytes (hex (n div 16)) @ of_char (hex_digit (n mod 16)) # r) =
        scan_digits 16 ((acc * 16 ^ length (hex (n div 16)) + n div 16) * 16 + n mod 16) r"
      using 1 [OF False, of acc "of_char (hex_digit (n mod 16)) # r"] scan_digits_step [of "n mod 16" 16] by simp
    moreover have "(acc * 16 ^ length (hex (n div 16)) + n div 16) * 16 + n mod 16 =
        acc * 16 ^ Suc (length (hex (n div 16))) + n" by (simp add: algebra_simps)
    ultimately show ?thesis using False by (simp add: hex.simps [of n] str_bytes_def algebra_simps)
  qed
qed

lemma scan_digits_dec:
  "scan_digits 10 acc (str_bytes (dec n) @ r) = scan_digits 10 (acc * 10 ^ length (dec n) + n) r"
proof (induction n arbitrary: acc r rule: dec.induct)
  case (1 n)
  show ?case
  proof (cases "n < 10")
    case True
    then show ?thesis using scan_digits_step [of n 10] by (simp add: dec.simps [of n] str_bytes_def)
  next
    case False
    have "scan_digits 10 acc (str_bytes (dec (n div 10)) @ of_char (hex_digit (n mod 10)) # r) =
        scan_digits 10 ((acc * 10 ^ length (dec (n div 10)) + n div 10) * 10 + n mod 10) r"
      using 1 [OF False, of acc "of_char (hex_digit (n mod 10)) # r"] scan_digits_step [of "n mod 10" 10] by simp
    moreover have "(acc * 10 ^ length (dec (n div 10)) + n div 10) * 10 + n mod 10 =
        acc * 10 ^ Suc (length (dec (n div 10))) + n" by (simp add: algebra_simps)
    ultimately show ?thesis using False by (simp add: dec.simps [of n] str_bytes_def algebra_simps)
  qed
qed

lemma hex_head: "\<exists>d t. hex n = hex_digit d # t \<and> d < 16"
proof (induction n rule: hex.induct)
  case (1 n)
  then show ?case by (subst hex.simps) (cases "n < 16", auto)
qed

lemma dec_head: "\<exists>d t. dec n = hex_digit d # t \<and> d < 10"
proof (induction n rule: dec.induct)
  case (1 n)
  then show ?case by (subst dec.simps) (cases "n < 10", auto)
qed

text \<open>The bytes of a printed number are neither zero, a newline, a comma nor white space.\<close>

definition plain :: "u8 \<Rightarrow> bool" where
  "plain b \<longleftrightarrow> digit_val b \<noteq> None"

lemma plain_not: "plain b \<Longrightarrow> b \<noteq> 0 \<and> b \<noteq> 10 \<and> b \<noteq> 0x2C \<and> b \<notin> {9, 10, 11, 12, 13, 32} \<and> b \<noteq> 0x2D \<and> b \<noteq> 0x2B"
proof -
  have "list_all (\<lambda>b. digit_val b = None) [0, 10, 0x2C, 9, 11, 12, 13, 32, 0x2D, 0x2B]" by code_simp
  then show "plain b \<Longrightarrow> ?thesis" by (auto simp: plain_def)
qed

lemma hex_plain: "b \<in> set (str_bytes (hex n)) \<Longrightarrow> plain b"
proof (induction n rule: hex.induct)
  case (1 n)
  have d: "k < 16 \<Longrightarrow> plain (of_char (hex_digit k))" for k by (simp add: plain_def digit_val_hex)
  from 1 d show ?case by (subst (asm) (2) hex.simps) (cases "n < 16", auto simp: str_bytes_def)
qed

lemma dec_plain: "b \<in> set (str_bytes (dec n)) \<Longrightarrow> plain b"
proof (induction n rule: dec.induct)
  case (1 n)
  have d: "k < 16 \<Longrightarrow> plain (of_char (hex_digit k))" for k by (simp add: plain_def digit_val_hex)
  from 1 d show ?case by (subst (asm) (2) dec.simps) (cases "n < 10", auto simp: str_bytes_def)
qed

lemma scan_number_16:
  assumes "no_digit 16 r"
  shows "scan_number 16 (0x30 # 0x78 # str_bytes (hex n) @ r) = Some (False, n, r)"
proof -
  obtain d t where h: "hex n = hex_digit d # t" "d < 16" using hex_head by blast
  then have "digit_in 16 (of_char (hex_digit d))" by (simp add: digit_in_def digit_val_hex)
  with scan_digits_hex [of 0 n r] scan_digits_stop [OF assms] h(1) show ?thesis
    by (simp add: scan_number_def skip_space_def scan_sign_def scan_prefix_def str_bytes_def)
qed

lemma scan_number_10:
  assumes "no_digit 10 r"
  shows "scan_number 10 (str_bytes (dec n) @ r) = Some (False, n, r)"
proof -
  obtain d t where h: "dec n = hex_digit d # t" "d < 10" using dec_head by blast
  let ?b = "of_char (hex_digit d) :: u8"
  have i: "digit_in 10 ?b" using h(2) by (simp add: digit_in_def digit_val_hex)
  have "plain ?b" using h(2) by (simp add: plain_def digit_val_hex)
  note pn = plain_not [OF this]
  have D: "str_bytes (dec n) @ r = ?b # (str_bytes t @ r)" using h(1) by (simp add: str_bytes_def)
  have s: "skip_space (?b # str_bytes t @ r) = ?b # str_bytes t @ r" using pn by (simp add: skip_space_def)
  have g: "scan_sign (?b # str_bytes t @ r) = (False, ?b # str_bytes t @ r)" using pn by (simp add: scan_sign_def)
  have "scan_digits 10 0 (?b # str_bytes t @ r) = (n, r)"
    using scan_digits_dec [of 0 n r] scan_digits_stop [OF assms] by (simp only: D) simp
  then show ?thesis using i by (simp add: scan_number_def D s g)
qed

section \<open>Export and import\<close>

text \<open>Symbols that the text format can carry.\<close>

definition exportable :: "E9Symbol \<Rightarrow> bool" where
  "exportable s \<longleftrightarrow>
     (\<exists>n. sy_name s = Some n \<and> n \<noteq> [] \<and> length n \<le> 255 \<and> (\<forall>b \<in> set n. b \<noteq> 0 \<and> b \<noteq> 10 \<and> b \<noteq> 0x2C)) \<and>
     (\<forall>v. sy_type s \<noteq> E9_SYM_VALUE v)"

text \<open>What is left of a symbol: the name, the address and the type.\<close>

definition imported :: "E9Symbol \<Rightarrow> E9Symbol" where
  "imported s = new_symbol (export_name s) (sy_address s) (sy_type s)"

lemma sym_type_roundtrip:
  assumes "\<forall>v. t \<noteq> E9_SYM_VALUE v"
  shows "sym_type_of (sym_type_num t) = t" "0 \<le> sym_type_num t" "sym_type_num t < 9"
  using assms by (cases t; simp add: sym_type_of_def sym_type_num_def)+

lemma csv_line_eq:
  assumes "sy_name s = Some n" and "0 \<le> sym_type_num (sy_type s)"
  shows "csv_line s = n @ 0x2C # 0x30 # 0x78 # str_bytes (hex (unat (sy_address s))) @ 0x2C # str_bytes (dec (unat (sy_size s))) @
    0x2C # str_bytes (dec (nat (sym_type_num (sy_type s)))) @ [10]"
  using assms by (simp add: csv_line_def export_name_def dec_int_def str_bytes_def)

lemma csv_line_import:
  assumes "exportable s"
  shows "import_line (csv_line s) = Some (Some (export_name s, sy_address s, sym_type_num (sy_type s)))"
    and "first_line (csv_line s @ rest) = csv_line s" and "csv_line s \<noteq> []"
proof -
  from assms obtain n where n: "sy_name s = Some n" "n \<noteq> []" "length n \<le> 255"
    "\<forall>b \<in> set n. b \<noteq> 0 \<and> b \<noteq> 10 \<and> b \<noteq> 0x2C" and t: "\<forall>v. sy_type s \<noteq> E9_SYM_VALUE v"
    by (auto simp: exportable_def)
  note ty = sym_type_roundtrip [OF t]
  define H where "H = str_bytes (hex (unat (sy_address s)))"
  define Z where "Z = str_bytes (dec (unat (sy_size s)))"
  define T where "T = str_bytes (dec (nat (sym_type_num (sy_type s))))"
  define body where "body = n @ 0x2C # 0x30 # 0x78 # H @ 0x2C # Z @ 0x2C # T"
  have L: "csv_line s = body @ [10]"
    using csv_line_eq [OF n(1) ty(2)] by (simp add: body_def H_def Z_def T_def)
  have pl: "\<forall>b \<in> set H \<union> set Z \<union> set T. plain b" using hex_plain dec_plain by (auto simp: H_def Z_def T_def)
  have ok: "\<forall>b \<in> set body. b \<noteq> 0 \<and> b \<noteq> 10"
    using n(4) pl plain_not by (auto simp: body_def)
  have "length H \<le> 16" using length_hex_u64 [of "sy_address s"] by (simp add: H_def)
  moreover have "length Z \<le> 20" using length_dec_le [of "unat (sy_size s)" 20] unat_u64_less [of "sy_size s"] by (simp add: Z_def)
  moreover have "length T \<le> 1" using length_dec_le [of "nat (sym_type_num (sy_type s))" 1] ty by (simp add: T_def)
  ultimately have len: "length body < 1023" using n(3) by (simp add: body_def)
  have tw: "takeWhile (\<lambda>b. b \<noteq> 10) (csv_line s @ rest) = body" "dropWhile (\<lambda>b. b \<noteq> 10) (csv_line s @ rest) = 10 # rest"
    using ok by (simp_all add: L takeWhile_append2 dropWhile_append2)
  show "first_line (csv_line s @ rest) = csv_line s"
    unfolding first_line_def tw using len by (simp add: L)
  show "csv_line s \<noteq> []" by (simp add: L)
  have c: "c_str (csv_line s) = csv_line s"
    using ok by (simp add: c_str_def L takeWhile_append2)
  have nm: "takeWhile (\<lambda>b. b \<noteq> 0x2C) (csv_line s) = n"
    using n(4) by (simp add: L body_def takeWhile_append2)
  have nd: "no_digit 16 (0x2C # r)" "no_digit 10 (0x2C # r)" "no_digit 10 [10]" for r
    by (simp_all add: no_digit_def digit_in_def digit_val_def)
  have a: "scan_number 16 (0x30 # 0x78 # H @ 0x2C # Z @ 0x2C # T @ [10]) = Some (False, unat (sy_address s), 0x2C # Z @ 0x2C # T @ [10])"
    unfolding H_def by (rule scan_number_16 [OF nd(1)])
  have z: "scan_number 10 (Z @ 0x2C # T @ [10]) = Some (False, unat (sy_size s), 0x2C # T @ [10])"
    unfolding Z_def by (rule scan_number_10 [OF nd(2)])
  have y: "scan_number 10 (T @ [10]) = Some (False, nat (sym_type_num (sy_type s)), [10])"
    unfolding T_def by (rule scan_number_10 [OF nd(3)])
  have it: "import_type (0x2C # Z @ 0x2C # T @ [10]) = Some (sym_type_num (sy_type s))"
    using ty by (simp add: import_type_def after_comma_def z y)
  have dr: "drop (length n) (csv_line s) = 0x2C # 0x30 # 0x78 # H @ 0x2C # Z @ 0x2C # T @ [10]"
    by (simp add: L body_def)
  show "import_line (csv_line s) = Some (Some (export_name s, sy_address s, sym_type_num (sy_type s)))"
    using n(1-3) unat_u64_less [of "sy_address s"]
    by (simp add: import_line_def c nm dr after_comma_def a it export_name_def)
qed

lemma import_lines_csv:
  assumes "\<forall>s \<in> set ss. exportable s"
  shows "import_lines (concat (map csv_line ss)) syms = Some (rev (map imported ss) @ syms)"
  using assms
proof (induction ss arbitrary: syms)
  case Nil
  then show ?case by (subst import_lines.simps) simp
next
  case (Cons s ss)
  then have s: "exportable s" by simp
  then have "\<forall>v. sy_type s \<noteq> E9_SYM_VALUE v" by (auto simp: exportable_def)
  from Cons csv_line_import [OF s] sym_type_roundtrip [OF this] show ?case
    by (subst import_lines.simps) (simp add: imported_def)
qed

definition header_symbol :: E9Symbol where
  "header_symbol = new_symbol (str_bytes ''Name'') 0xADD E9_SYM_UNKNOWN"

lemma header_import:
  "import_lines (csv_header @ rest) syms = import_lines rest (header_symbol # syms)"
proof -
  have "import_line csv_header = Some (Some (str_bytes ''Name'', 0xADD, 0))" by code_simp
  moreover have "first_line (csv_header @ rest) = csv_header"
    by (simp add: first_line_def csv_header_def str_bytes_def)
  moreover have "sym_type_of 0 = E9_SYM_UNKNOWN" by (simp add: sym_type_of_def)
  ultimately show ?thesis
    by (subst import_lines.simps) (simp add: header_symbol_def, simp add: csv_header_def)
qed

section \<open>Properties\<close>


text \<open>One section header of type SHT_SYMTAB whose entry size is zero.\<close>

definition elf_demo :: E9Analysis where
  "elf_demo = (case e9_binary_create (Some ((replicate 128 0)[40 := 64, 58 := 64, 60 := 1, 68 := 2, 88 := 8])) of
     Some bin \<Rightarrow> bin)"

definition elf_demo_table :: elf_table where
  "elf_demo_table = no_table\<lparr>et_off := 8, et_entsize := 0, et_strtab := 8\<rparr>"

lemma elf_demo_reads:
  "rd64 (bin_data elf_demo) 40 = Some 64 \<and> rd16 (bin_data elf_demo) 58 = Some 64 \<and> rd16 (bin_data elf_demo) 60 = Some 1 \<and>
   unat (64 + mul16 1 64) \<le> length (bin_data elf_demo) \<and>
   elf_find_table (bin_data elf_demo) 64 64 1 = Some elf_demo_table"
  by code_simp


text \<open>
  e9_symbols_auto gives every function a symbol: functions that have one stay as they are,
  the others get the name sub_<address> and a new function symbol with that name, their address
  and their size.
\<close>

theorem symbols_auto_complete:
  "\<exists>fs syms. e9_symbols_auto (Some bin) = (0, Some (bin\<lparr>an_functions := fs, an_symbols := syms\<rparr>)) \<and>
     list_all2 (auto_named syms) (an_functions bin) fs \<and> list_all (\<lambda>f. fn_symbol f \<noteq> None) fs \<and>
     (\<exists>new. syms = new @ an_symbols bin \<and> length new = length (filter (\<lambda>f. fn_symbol f = None) (an_functions bin)))"
proof -
  obtain fs syms where a: "auto_symbols (an_functions bin) (an_symbols bin) = (fs, syms)" by fastforce
  from auto_symbols_named [OF a] have r: "list_all2 (auto_named syms) (an_functions bin) fs"
    and new: "\<exists>new. syms = new @ an_symbols bin \<and> length new = length (filter (\<lambda>f. fn_symbol f = None) (an_functions bin))"
    by blast+
  have "list_all (\<lambda>f. fn_symbol f \<noteq> None) fs"
    using r by (induction rule: list_all2_induct) (auto simp: auto_named_def split: if_splits)
  with a r new show ?thesis by (intro exI [of _ fs] exI [of _ syms]) (simp add: e9_symbols_auto_def)
qed


definition sym_demo :: E9Analysis where
  "sym_demo = (case e9_binary_create (Some (replicate 16 0)) of Some bin \<Rightarrow>
     bin\<lparr>an_symbols := [(new_symbol (str_bytes ''main'') 0x401000 E9_SYM_FUNCTION)\<lparr>sy_size := 77\<rparr>]\<rparr>)"


end
