(* ===== verification/E9Detect.thy ===== *)
theory E9Detect
  imports E9AnCtx E9SymTab
begin

text \<open>
  Format and architecture detection of \<open>src/src/e9patch/analysis/e9analysis.c\<close>
  (\<open>e9_binary_detect\<close>, \<open>detect_elf\<close>, \<open>detect_pe\<close>, \<open>detect_macho\<close>, \<open>e9_binary_is_ape\<close>,
  \<open>detect_ape\<close>) and the ELF and PE views of an APE file.

  Every function returns its C result and the binary; \<open>None\<close> is a read outside the file.
\<close>

section \<open>Magic numbers\<close>

definition elf_magic :: bytes where "elf_magic = [0x7F, 0x45, 0x4C, 0x46]"
definition pe_magic :: bytes where "pe_magic = [0x50, 0x45, 0, 0]"

text \<open>\<open>strncmp(d + off, pat, length pat) == 0\<close>: reads up to the first difference.\<close>

fun strncmp_eq :: "bytes \<Rightarrow> nat \<Rightarrow> bytes \<Rightarrow> bool ub" where
  "strncmp_eq d off [] = Some True"
| "strncmp_eq d off (p # ps) = do {
     b \<leftarrow> rd8 d off;
     if b \<noteq> p then Some False else if b = 0 then Some True else strncmp_eq d (off + 1) ps
   }"

text \<open>\<open>strncpy(dst, d + off, n)\<close>: the characters before the zero, \<open>n\<close> at most.\<close>

fun strncpy_from :: "bytes \<Rightarrow> nat \<Rightarrow> nat \<Rightarrow> bytes ub" where
  "strncpy_from d off 0 = Some []"
| "strncpy_from d off (Suc n) = do {
     b \<leftarrow> rd8 d off;
     if b = 0 then Some [] else map_option (\<lambda>r. b # r) (strncpy_from d (off + 1) n)
   }"

definition elf_machine_arch :: "u16 \<Rightarrow> E9Arch" where
  "elf_machine_arch m =
     (if m = 0x3E then E9_ARCH_X86_64 else if m = 0xB7 then E9_ARCH_AARCH64 else E9_ARCH_UNKNOWN)"

section \<open>ELF\<close>

text \<open>One section header; the section is recorded when its name lies in the string table.\<close>

definition elf_section ::
  "bytes \<Rightarrow> u64 \<Rightarrow> u16 \<Rightarrow> u64 \<Rightarrow> u64 \<Rightarrow> nat \<Rightarrow> E9Analysis \<Rightarrow> E9Analysis ub" where
  "elf_section d shoff shentsize strtab_off strtab_size i bin =
     (let shdr = unat (shoff + mul16 (word_of_nat i) shentsize) in do {
        name_off \<leftarrow> rd32 d shdr;
        addr \<leftarrow> rd64 d (shdr + 16);
        size \<leftarrow> rd64 d (shdr + 32);
        flags \<leftarrow> rd64 d (shdr + 8);
        if ucast name_off < strtab_size then do {
          let nm = unat (strtab_off + ucast name_off);
          dbg \<leftarrow> strncmp_eq d nm (str_bytes ''.debug'');
          name \<leftarrow> strncpy_from d nm 31;
          Some (bin\<lparr>an_has_debug_info := an_has_debug_info bin \<or> dbg,
            bin_sections := bin_sections bin @
              [\<lparr>sec_addr = addr, sec_size = size, sec_flags = ucast flags, sec_name = name\<rparr>]\<rparr>)
        } else Some bin
      })"

text \<open>
  \<open>d\<close> is the readable memory from \<open>bin->data\<close> on, \<open>n\<close> is \<open>bin->size\<close>: the two differ for the views
  of an APE file, whose size comes from its headers.
\<close>

definition elf_sections :: "bytes \<Rightarrow> nat \<Rightarrow> E9Analysis \<Rightarrow> E9Analysis ub" where
  "elf_sections d n bin = do {
     shoff \<leftarrow> rd64 d 40;
     shentsize \<leftarrow> rd16 d 58;
     shnum \<leftarrow> rd16 d 60;
     shstrndx \<leftarrow> rd16 d 62;
     if shoff \<noteq> 0 \<and> shnum \<noteq> 0 \<and> shstrndx < shnum \<and> unat (shoff + mul16 shnum shentsize) \<le> n then do {
       let hdr = unat (shoff + mul16 shstrndx shentsize);
       strtab_off \<leftarrow> rd64 d (hdr + 24);
       strtab_size \<leftarrow> rd64 d (hdr + 32);
       if unat (strtab_off + strtab_size) \<le> n then
         mfold (elf_section d shoff shentsize strtab_off strtab_size) [0 ..< unat shnum]
           (bin\<lparr>bin_sections := []\<rparr>)
       else Some bin
     } else Some bin
   }"

definition detect_elf_in :: "bytes \<Rightarrow> nat \<Rightarrow> E9Analysis \<Rightarrow> (int \<times> E9Analysis) ub" where
  "detect_elf_in d n bin =
     (if n < 64 then Some (-1, bin)
      else do {
        c \<leftarrow> rd8 d 4;
        if c \<noteq> 2 then Some (-1, bin)
        else do {
          machine \<leftarrow> rd16 d 18;
          entry \<leftarrow> rd64 d 24;
          e_type \<leftarrow> rd16 d 16;
          bin \<leftarrow> elf_sections d n (bin\<lparr>an_format := E9_FORMAT_ELF, bin_arch := elf_machine_arch machine,
                   an_entry_point := entry, an_is_pie := (e_type = 3)\<rparr>);
          Some (0, bin)
        }
      })"

definition detect_elf :: "E9Analysis \<Rightarrow> (int \<times> E9Analysis) ub" where
  "detect_elf bin = detect_elf_in (bin_data bin) (length (bin_data bin)) bin"

section \<open>PE\<close>

definition pe_machine_arch :: "u16 \<Rightarrow> E9Arch" where
  "pe_machine_arch m =
     (if m = 0x8664 then E9_ARCH_X86_64 else if m = 0xAA64 then E9_ARCH_AARCH64 else E9_ARCH_UNKNOWN)"

text \<open>\<open>pe_off + 24\<close> is a 32-bit sum; as an offset into the file it is added in 64 bits.\<close>

definition detect_pe_in :: "bytes \<Rightarrow> nat \<Rightarrow> E9Analysis \<Rightarrow> (int \<times> E9Analysis) ub" where
  "detect_pe_in d n bin =
     (if n < 64 then Some (-1, bin)
      else do {
        pe_off \<leftarrow> rd32 d 0x3C;
        if n < unat (pe_off + 24) then Some (-1, bin)
        else do {
          sig \<leftarrow> memeq d (unat pe_off) pe_magic;
          if \<not> sig then Some (-1, bin)
          else do {
            machine \<leftarrow> rd16 d (unat pe_off + 4);
            opt_hdr_size \<leftarrow> rd16 d (unat pe_off + 20);
            let bin = bin\<lparr>an_format := E9_FORMAT_PE, bin_arch := pe_machine_arch machine\<rparr>;
            if unat (pe_off + 24 + ucast opt_hdr_size) \<le> n then do {
              let opt_hdr = unat pe_off + 24;
              magic \<leftarrow> rd16 d opt_hdr;
              if magic = 0x20B then do {
                entry \<leftarrow> rd32 d (opt_hdr + 16);
                base \<leftarrow> rd64 d (opt_hdr + 24);
                Some (0, bin\<lparr>an_entry_point := ucast entry, bin_base_address := base\<rparr>)
              } else Some (0, bin)
            } else Some (0, bin)
          }
        }
      })"

definition detect_pe :: "E9Analysis \<Rightarrow> (int \<times> E9Analysis) ub" where
  "detect_pe bin = detect_pe_in (bin_data bin) (length (bin_data bin)) bin"

section \<open>Mach-O\<close>

definition bswap32 :: "u32 \<Rightarrow> u32" where
  "bswap32 w = word_of_nat (le_nat (rev (le_bytes 4 (unat w))))"

definition bswap64 :: "u64 \<Rightarrow> u64" where
  "bswap64 w = word_of_nat (le_nat (rev (le_bytes 8 (unat w))))"

definition swap_if32 :: "bool \<Rightarrow> u32 \<Rightarrow> u32" where "swap_if32 s w = (if s then bswap32 w else w)"
definition swap_if64 :: "bool \<Rightarrow> u64 \<Rightarrow> u64" where "swap_if64 s w = (if s then bswap64 w else w)"

definition macho_command :: "bytes \<Rightarrow> bool \<Rightarrow> nat \<Rightarrow> u32 \<Rightarrow> E9Analysis \<Rightarrow> E9Analysis ub" where
  "macho_command d swap offset cmd bin = do {
     bin \<leftarrow> (if cmd AND 0xFF = 0x28 \<and> offset + 24 \<le> length d then do {
              e \<leftarrow> rd64 d (offset + 8);
              Some (bin\<lparr>an_entry_point := swap_if64 swap e\<rparr>)
            } else Some bin);
     if cmd = 0x19 \<and> offset + 72 \<le> length d then do {
       text \<leftarrow> strncmp_eq d (offset + 8) (str_bytes ''__TEXT'' @ [0]);
       if text then do {
         b \<leftarrow> rd64 d (offset + 24);
         Some (bin\<lparr>bin_base_address := swap_if64 swap b\<rparr>)
       } else Some bin
     } else Some bin
   }"

text \<open>\<open>n\<close> load commands are left.\<close>

function macho_loop :: "nat \<Rightarrow> bytes \<Rightarrow> bool \<Rightarrow> nat \<Rightarrow> E9Analysis \<Rightarrow> E9Analysis ub" where
  "macho_loop n d swap offset bin =
     (if 0 < n \<and> offset + 8 \<le> length d then do {
        cmd \<leftarrow> rd32 d offset;
        cmdsize \<leftarrow> rd32 d (offset + 4);
        bin \<leftarrow> macho_command d swap offset (swap_if32 swap cmd) bin;
        macho_loop (n - 1) d swap (offset + unat (swap_if32 swap cmdsize)) bin
      } else Some bin)"
  by pat_completeness auto
termination by (relation "measure (\<lambda>(n, d, swap, offset, bin). n)") auto

declare macho_loop.simps [simp del]

definition macho_cpu_arch :: "u32 \<Rightarrow> E9Arch" where
  "macho_cpu_arch c =
     (if c = 0x01000007 then E9_ARCH_X86_64 else if c = 0x0100000C then E9_ARCH_AARCH64 else E9_ARCH_UNKNOWN)"

definition detect_macho :: "E9Analysis \<Rightarrow> (int \<times> E9Analysis) ub" where
  "detect_macho bin =
     (let d = bin_data bin in do {
        magic \<leftarrow> rd32 d 0;
        let swap = (magic = 0xCFFAEDFE);
        cputype \<leftarrow> rd32 d 4;
        ncmds \<leftarrow> rd32 d 16;
        bin \<leftarrow> macho_loop (unat (swap_if32 swap ncmds)) d swap 32
                (bin\<lparr>an_format := E9_FORMAT_MACHO, bin_arch := macho_cpu_arch (swap_if32 swap cputype)\<rparr>);
        Some (0, bin)
      })"

section \<open>APE detection\<close>

text \<open>An MZ header at \<open>i\<close> whose \<open>e_lfanew\<close> leads to a PE signature.\<close>

definition pe_at :: "bytes \<Rightarrow> nat \<Rightarrow> bool ub" where
  "pe_at d i = do {
     pe_off \<leftarrow> rd32 d (i + 0x3C);
     if i + unat pe_off + 4 < length d then memeq d (i + unat pe_off) pe_magic else Some False
   }"

text \<open>The scan of a shell script for an ELF header and an MZ header with a PE signature.\<close>

function ape_sig_scan :: "bytes \<Rightarrow> nat \<Rightarrow> nat \<Rightarrow> bool \<Rightarrow> bool \<Rightarrow> bool ub" where
  "ape_sig_scan d limit i has_elf has_pe =
     (if i < limit then do {
        has_elf \<leftarrow> (if \<not> has_elf then memeq d i elf_magic else Some True);
        has_pe \<leftarrow>
          (if has_pe then Some True
           else do {
             b0 \<leftarrow> rd8 d i;
             b1 \<leftarrow> rd8 d (i + 1);
             if b0 = 0x4D \<and> b1 = 0x5A \<and> i + 64 < length d then pe_at d i else Some False
           });
        if has_elf \<and> has_pe then Some True else ape_sig_scan d limit (i + 1) has_elf has_pe
      } else Some False)"
  by pat_completeness auto
termination by (relation "measure (\<lambda>(d, limit, i, e, p). limit - i)") auto

declare ape_sig_scan.simps [simp del]

text \<open>The first index in a range where a test holds.\<close>

fun scan_first :: "(nat \<Rightarrow> bool ub) \<Rightarrow> nat list \<Rightarrow> nat option ub" where
  "scan_first p [] = Some None"
| "scan_first p (i # is) = do { b \<leftarrow> p i; if b then Some (Some i) else scan_first p is }"

definition e9_binary_is_ape :: "bytes ptr \<Rightarrow> bool ub" where
  "e9_binary_is_ape data =
     (case data of
        None \<Rightarrow> Some False
      | Some d \<Rightarrow>
          if length d < 64 then Some False
          else do {
            mz \<leftarrow> memeq d 0 (str_bytes ''MZqFpD'');
            if mz then Some True
            else do {
              b0 \<leftarrow> rd8 d 0;
              b1 \<leftarrow> rd8 d 1;
              sh \<leftarrow> (if b0 = 0x23 \<and> b1 = 0x21
                     then ape_sig_scan d (min (length d) 65536 - 4) 0 False False else Some False);
              if sh then Some True
              else if b0 = 0x4D \<and> b1 = 0x5A then
                map_option (\<lambda>r. r \<noteq> None)
                  (scan_first (\<lambda>i. memeq d i elf_magic) [64 ..< min 4096 (length d - 4)])
              else Some False
            }
          })"

section \<open>APE layout\<close>

text \<open>
  The end of the segments that the program headers describe.  The bounds check of the loop does
  not depend on \<open>j\<close>: it covers the first header only.
\<close>

definition ape_elf_extent :: "bytes \<Rightarrow> nat \<Rightarrow> u64 \<Rightarrow> u16 \<Rightarrow> u64 ub" where
  "ape_elf_extent d i phoff phnum =
     (if unat (word_of_nat i + phoff + 56) \<le> length d then
        mfold (\<lambda>j max_end. do {
          p_offset \<leftarrow> rd64 d (unat (word_of_nat i + phoff + word_of_nat (j * 56)) + 8);
          p_filesz \<leftarrow> rd64 d (unat (word_of_nat i + phoff + word_of_nat (j * 56)) + 32);
          Some (if max_end < p_offset + p_filesz then p_offset + p_filesz else max_end)
        }) [0 ..< unat phnum] 0
      else Some 0)"

definition ape_elf_part :: "E9Analysis \<Rightarrow> E9Analysis ub" where
  "ape_elf_part bin =
     (let d = bin_data bin in do {
        r \<leftarrow> scan_first (\<lambda>i. memeq d i elf_magic) [0 ..< min (length d - 4) 65536];
        case r of
          None \<Rightarrow> Some bin
        | Some i \<Rightarrow> do {
            let bin = bin\<lparr>an_ape := (an_ape bin)\<lparr>ape_elf_offset := word_of_nat i\<rparr>\<rparr>;
            c \<leftarrow> (if i + 64 < length d then rd8 d (i + 4) else Some 0);
            if c = 2 then do {
              entry \<leftarrow> rd64 d (i + 24);
              phoff \<leftarrow> rd64 d (i + 32);
              phnum \<leftarrow> rd16 d (i + 56);
              max_end \<leftarrow> ape_elf_extent d i phoff phnum;
              machine \<leftarrow> rd16 d (i + 18);
              Some (bin\<lparr>an_entry_point := entry, an_ape := (an_ape bin)\<lparr>ape_elf_size := max_end\<rparr>,
                        bin_arch := elf_machine_arch machine\<rparr>)
            } else Some bin
          }
      })"

text \<open>The end of the sections of the PE part, in 32 bits.\<close>

function ape_pe_extent :: "nat \<Rightarrow> bytes \<Rightarrow> nat \<Rightarrow> u32 \<Rightarrow> u32 ub" where
  "ape_pe_extent n d sec_table max_end =
     (if 0 < n \<and> sec_table + 40 \<le> length d then do {
        raw_ptr \<leftarrow> rd32 d (sec_table + 20);
        raw_size \<leftarrow> rd32 d (sec_table + 16);
        ape_pe_extent (n - 1) d (sec_table + 40)
          (if max_end < raw_ptr + raw_size then raw_ptr + raw_size else max_end)
      } else Some max_end)"
  by pat_completeness auto
termination by (relation "measure (\<lambda>(n, d, t, m). n)") auto

declare ape_pe_extent.simps [simp del]

definition mz_pe_at :: "bytes \<Rightarrow> nat \<Rightarrow> bool ub" where
  "mz_pe_at d i = do {
     b0 \<leftarrow> rd8 d i;
     b1 \<leftarrow> rd8 d (i + 1);
     if b0 = 0x4D \<and> b1 = 0x5A then pe_at d i else Some False
   }"

definition ape_pe_part :: "E9Analysis \<Rightarrow> E9Analysis ub" where
  "ape_pe_part bin =
     (let d = bin_data bin in do {
        r \<leftarrow> scan_first (mz_pe_at d) [0 ..< length d - 64];
        case r of
          None \<Rightarrow> Some bin
        | Some i \<Rightarrow> do {
            pe_off \<leftarrow> rd32 d (i + 0x3C);
            let pe = i + unat pe_off;
            num_sections \<leftarrow> rd16 d (pe + 6);
            opt_hdr_size \<leftarrow> rd16 d (pe + 20);
            max_end \<leftarrow> ape_pe_extent (unat num_sections) d (pe + 24 + unat opt_hdr_size) 0;
            Some (bin\<lparr>an_ape := (an_ape bin)\<lparr>ape_pe_offset := word_of_nat i, ape_pe_size := ucast max_end\<rparr>\<rparr>)
          }
      })"

text \<open>
  The scan for the end of the ZIP directory runs from \<open>size - 22\<close> down while \<open>i > size - 65536\<close>;
  the bound is an unsigned difference.
\<close>

definition zip_scan_range :: "nat \<Rightarrow> nat list" where
  "zip_scan_range n =
     filter (\<lambda>i. unat (word_of_nat n - 65536 :: u64) < i) (rev [1 ..< Suc (n - 22)])"

definition zip_at :: "bytes \<Rightarrow> u8 \<Rightarrow> u8 \<Rightarrow> nat \<Rightarrow> bool ub" where
  "zip_at d a b i = do {
     b0 \<leftarrow> rd8 d i;
     if b0 \<noteq> 0x50 then Some False
     else do {
       b1 \<leftarrow> rd8 d (i + 1); b2 \<leftarrow> rd8 d (i + 2); b3 \<leftarrow> rd8 d (i + 3);
       Some (b1 = 0x4B \<and> b2 = a \<and> b3 = b)
     }
   }"

definition ape_zip_part :: "E9Analysis \<Rightarrow> E9Analysis ub" where
  "ape_zip_part bin =
     (let d = bin_data bin in do {
        r \<leftarrow> scan_first (zip_at d 5 6) (zip_scan_range (length d));
        case r of
          None \<Rightarrow> Some bin
        | Some i \<Rightarrow> do {
            num \<leftarrow> rd16 d (i + 10);
            cdir \<leftarrow> rd32 d (i + 16);
            l \<leftarrow> scan_first (zip_at d 3 4) [0 ..< min (unat cdir) (length d - 4)];
            Some (bin\<lparr>an_ape := (an_ape bin)\<lparr>ape_zipos_end := word_of_nat (i + 22), ape_zipos_num_entries := ucast num,
              ape_zipos_central_dir := ucast cdir,
              ape_zipos_start := (case l of None \<Rightarrow> ape_zipos_start (an_ape bin) | Some j \<Rightarrow> word_of_nat j)\<rparr>\<rparr>)
          }
      })"

definition ape_shell_part :: "E9Analysis \<Rightarrow> E9Analysis ub" where
  "ape_shell_part bin =
     (let d = bin_data bin in do {
        b0 \<leftarrow> rd8 d 0;
        b1 \<leftarrow> rd8 d 1;
        if b0 = 0x23 \<and> b1 = 0x21 then do {
          r \<leftarrow> scan_first (\<lambda>i. memeq d i elf_magic) [0 ..< min 4096 (length d - 4)];
          Some (bin\<lparr>an_ape := (an_ape bin)\<lparr>ape_shell_offset := 0,
            ape_shell_size := (case r of None \<Rightarrow> ape_shell_size (an_ape bin) | Some i \<Rightarrow> word_of_nat i)\<rparr>\<rparr>)
        } else Some bin
      })"

definition detect_ape :: "E9Analysis \<Rightarrow> (int \<times> E9Analysis) ub" where
  "detect_ape bin = do {
     bin \<leftarrow> ape_shell_part (bin\<lparr>an_format := E9_FORMAT_APE, an_ape := no_ape_layout\<rparr>);
     bin \<leftarrow> ape_elf_part bin;
     bin \<leftarrow> ape_pe_part bin;
     bin \<leftarrow> ape_zip_part bin;
     Some (0, bin\<lparr>an_entry_point := (if an_entry_point bin = 0 then 0x400000 else an_entry_point bin),
                  bin_base_address := (if bin_base_address bin = 0 then 0x400000 else bin_base_address bin)\<rparr>)
   }"

section \<open>\<open>e9_binary_detect\<close>\<close>

definition detect_raw :: "E9Analysis \<Rightarrow> (int \<times> E9Analysis) ub" where
  "detect_raw bin =
     (let d = bin_data bin; bin = bin\<lparr>an_format := E9_FORMAT_RAW\<rparr> in do {
        b0 \<leftarrow> rd8 d 0; b1 \<leftarrow> rd8 d 1; b2 \<leftarrow> rd8 d 2;
        if b0 = 0x55 \<and> b1 = 0x48 \<and> b2 = 0x89 then Some (0, bin\<lparr>bin_arch := E9_ARCH_X86_64\<rparr>)
        else do {
          w \<leftarrow> rd32 d 0;
          if w AND 0x7F800000 = 0x29000000 \<or> w AND 0xFFE00000 = 0xD1000000
          then Some (0, bin\<lparr>bin_arch := E9_ARCH_AARCH64\<rparr>)
          else Some (0, bin\<lparr>bin_arch := E9_ARCH_UNKNOWN\<rparr>)
        }
      })"

definition e9_binary_detect :: "E9Analysis ptr \<Rightarrow> (int \<times> E9Analysis ptr) ub" where
  "e9_binary_detect b =
     (case b of
        None \<Rightarrow> Some (-1, None)
      | Some bin \<Rightarrow>
          map_option (\<lambda>(r, x). (r, Some x))
            (let d = bin_data bin in
             if length d < 16 then Some (-1, bin)
             else do {
               ape \<leftarrow> e9_binary_is_ape (Some d);
               if ape then detect_ape bin
               else do {
                 elf \<leftarrow> memeq d 0 elf_magic;
                 if elf then detect_elf bin
                 else do {
                   mz \<leftarrow> memeq d 0 [0x4D, 0x5A];
                   if mz then detect_pe bin
                   else do {
                     magic \<leftarrow> rd32 d 0;
                     if magic = 0xFEEDFACF \<or> magic = 0xCFFAEDFE then detect_macho bin else detect_raw bin
                   }
                 }
               }
             }))"

section \<open>Views of an APE file\<close>

text \<open>
  A view starts at its offset and claims the size that the headers gave; its memory is the rest of
  the file.  The bytes kept in the view are those of the claimed size that exist.
\<close>

definition view_of :: "E9Analysis \<Rightarrow> u64 \<Rightarrow> u64 \<Rightarrow> E9Format \<Rightarrow> E9Analysis" where
  "view_of bin off n fmt =
     \<lparr>bin_data = take (unat n) (drop (unat off) (bin_data bin)), bin_base_address = bin_base_address bin,
      bin_arch = bin_arch bin, bin_sections = [], an_format = fmt, an_is_pie = False, an_has_debug_info = False,
      an_entry_point = 0, an_symbols = [], an_functions = [], an_mappings = [], an_ape = no_ape_layout\<rparr>"

definition e9_ape_get_elf_view :: "E9Analysis ptr \<Rightarrow> E9Analysis ptr ub" where
  "e9_ape_get_elf_view b =
     (case b of
        None \<Rightarrow> Some None
      | Some bin \<Rightarrow>
          (let off = ape_elf_offset (an_ape bin); n = ape_elf_size (an_ape bin) in
           if an_format bin \<noteq> E9_FORMAT_APE \<or> off = 0 then Some None
           else map_option (\<lambda>(r, v). Some v)
             (detect_elf_in (drop (unat off) (bin_data bin)) (unat n) (view_of bin off n E9_FORMAT_ELF))))"

definition e9_ape_get_pe_view :: "E9Analysis ptr \<Rightarrow> E9Analysis ptr ub" where
  "e9_ape_get_pe_view b =
     (case b of
        None \<Rightarrow> Some None
      | Some bin \<Rightarrow>
          (let off = ape_pe_offset (an_ape bin); n = ape_pe_size (an_ape bin) in
           if an_format bin \<noteq> E9_FORMAT_APE \<or> off = 0 then Some None
           else map_option (\<lambda>(r, v). Some v)
             (detect_pe_in (drop (unat off) (bin_data bin)) (unat n) (view_of bin off n E9_FORMAT_PE))))"

definition e9_binary_parse_ape :: "E9Analysis ptr \<Rightarrow> int" where
  "e9_binary_parse_ape b =
     (case b of None \<Rightarrow> -1 | Some bin \<Rightarrow> if an_format bin = E9_FORMAT_APE then 0 else -1)"

text \<open>A placeholder in the source: it fails for all arguments.\<close>

definition e9_ape_patch_sync :: "E9Analysis ptr \<Rightarrow> u64 \<Rightarrow> bytes ptr \<Rightarrow> int" where
  "e9_ape_patch_sync b vaddr p = -1"

section \<open>Scans\<close>

lemma scan_first_find:
  assumes "\<And>i. i \<in> set is \<Longrightarrow> p i = Some (q i)"
  shows "scan_first p is = Some (find q is)"
  using assms by (induction "is") auto

lemma scan_first_result:
  "scan_first p is = Some r \<Longrightarrow> (case r of None \<Rightarrow> \<forall>i \<in> set is. p i = Some False | Some i \<Rightarrow> i \<in> set is \<and> p i = Some True)"
  by (induction "is") (auto simp: Option.bind_eq_Some_conv split: if_splits option.splits)

definition elf_sig :: "bytes \<Rightarrow> nat \<Rightarrow> bool" where
  "elf_sig d i \<longleftrightarrow> take 4 (drop i d) = elf_magic"

definition pe_sig :: "bytes \<Rightarrow> nat \<Rightarrow> bool" where
  "pe_sig d i \<longleftrightarrow>
     (case rd32 d (i + 0x3C) of None \<Rightarrow> False
      | Some o' \<Rightarrow> i + unat o' + 4 < length d \<and> take 4 (drop (i + unat o') d) = pe_magic)"

lemma memeq_take: "length pat = k \<Longrightarrow> i + k \<le> length d \<Longrightarrow> memeq d i pat = Some (take k (drop i d) = pat)"
  by (auto simp: memeq_def rd_region_def)

lemma magic_lengths: "length elf_magic = 4" "length pe_magic = 4" "length (str_bytes ''MZqFpD'') = 6"
  by (simp_all add: elf_magic_def pe_magic_def)

lemma memeq_elf: "i + 4 \<le> length d \<Longrightarrow> memeq d i elf_magic = Some (elf_sig d i)"
  using memeq_take [OF magic_lengths(1)] by (simp add: elf_sig_def)

lemma pe_at_sig: "i + 64 \<le> length d \<Longrightarrow> pe_at d i = Some (pe_sig d i)"
  using rd32_eq_None [of d "i + 0x3C"]
  by (cases "rd32 d (i + 0x3C)") (auto simp: pe_at_def pe_sig_def memeq_take [OF magic_lengths(2)])

text \<open>What \<open>e9_binary_is_ape\<close> looks for.\<close>

definition mz_pe_sig :: "bytes \<Rightarrow> nat \<Rightarrow> bool" where
  "mz_pe_sig d i \<longleftrightarrow> d ! i = 0x4D \<and> d ! (i + 1) = 0x5A \<and> i + 64 < length d \<and> pe_sig d i"

definition ape_spec :: "bytes \<Rightarrow> bool" where
  "ape_spec d \<longleftrightarrow> 64 \<le> length d \<and>
     (take 6 d = str_bytes ''MZqFpD'' \<or>
      (d ! 0 = 0x23 \<and> d ! 1 = 0x21 \<and> (\<exists>i < min (length d) 65536 - 4. elf_sig d i) \<and>
        (\<exists>i < min (length d) 65536 - 4. mz_pe_sig d i)) \<or>
      (d ! 0 = 0x4D \<and> d ! 1 = 0x5A \<and> (\<exists>i. 64 \<le> i \<and> i < 4096 \<and> i + 4 < length d \<and> elf_sig d i)))"

lemma ex_ge_split: "i < l \<Longrightarrow> (\<exists>j \<ge> i. j < l \<and> P j) \<longleftrightarrow> P i \<or> (\<exists>j \<ge> Suc i. j < l \<and> P j)" for i l :: nat
  by (metis Suc_leD Suc_le_eq le_eq_less_or_eq order_refl)

lemma ape_scan_spec:
  "limit + 4 \<le> length d \<Longrightarrow> \<not> (e \<and> p) \<Longrightarrow>
   ape_sig_scan d limit i e p =
     Some ((e \<or> (\<exists>j \<ge> i. j < limit \<and> elf_sig d j)) \<and> (p \<or> (\<exists>j \<ge> i. j < limit \<and> mz_pe_sig d j)))"
proof (induction d limit i e p rule: ape_sig_scan.induct)
  case (1 d limit i e p)
  show ?case
  proof (cases "i < limit")
    case False
    with 1(3) show ?thesis by (subst ape_sig_scan.simps) auto
  next
    case True
    define e' where "e' = (e \<or> elf_sig d i)"
    define p' where "p' = (p \<or> mz_pe_sig d i)"
    have e: "(if \<not> e then memeq d i elf_magic else Some True) = Some e'"
      using True 1(2) memeq_elf [of i d] by (simp add: e'_def)
    have "rd8 d i = Some (d ! i)" "rd8 d (i + 1) = Some (d ! (i + 1))" using True 1(2) by (simp_all add: rd8_def)
    then have p: "(if p then Some True
           else do {
             b0 \<leftarrow> rd8 d i;
             b1 \<leftarrow> rd8 d (i + 1);
             if b0 = 0x4D \<and> b1 = 0x5A \<and> i + 64 < length d then pe_at d i else Some False
           }) = Some p'"
      using pe_at_sig [of i d] by (auto simp: p'_def mz_pe_sig_def)
    have step: "ape_sig_scan d limit i e p = (if e' \<and> p' then Some True else ape_sig_scan d limit (i + 1) e' p')"
      using True by (subst ape_sig_scan.simps) (simp only: e p if_True Option.bind.simps)
    show ?thesis
    proof (cases "e' \<and> p'")
      case both: True
      with step True show ?thesis by (auto simp: e'_def p'_def ex_ge_split)
    next
      case False
      from 1(1) [OF True e p False 1(2) False] step False True show ?thesis
        by (auto simp: e'_def p'_def ex_ge_split)
    qed
  qed
qed

lemma find_ex: "find q xs \<noteq> None \<longleftrightarrow> (\<exists>x \<in> set xs. q x)"
  by (auto simp: find_None_iff)

lemma is_ape_spec: "e9_binary_is_ape (Some d) = Some (ape_spec d)"
proof (cases "length d < 64")
  case True
  then show ?thesis by (simp add: e9_binary_is_ape_def ape_spec_def)
next
  case False
  then have rd: "rd8 d 0 = Some (d ! 0)" "rd8 d 1 = Some (d ! 1)" by (auto simp: rd8_def)
  have mz: "memeq d 0 (str_bytes ''MZqFpD'') = Some (take 6 d = str_bytes ''MZqFpD'')"
    using False memeq_take [OF magic_lengths(3), of 0 d] by simp
  have sc: "scan_first (\<lambda>i. memeq d i elf_magic) [64 ..< min 4096 (length d - 4)] =
      Some (find (elf_sig d) [64 ..< min 4096 (length d - 4)])"
    by (rule scan_first_find) (auto intro: memeq_elf)
  have fx: "find (elf_sig d) [64 ..< min 4096 (length d - 4)] \<noteq> None \<longleftrightarrow>
      (\<exists>i. 64 \<le> i \<and> i < 4096 \<and> i + 4 < length d \<and> elf_sig d i)"
    unfolding find_ex by (auto simp: less_diff_conv)
  have ape: "ape_sig_scan d (min (length d) 65536 - 4) 0 False False =
      Some ((\<exists>i < min (length d) 65536 - 4. elf_sig d i) \<and> (\<exists>i < min (length d) 65536 - 4. mz_pe_sig d i))"
    using ape_scan_spec [of "min (length d) 65536 - 4" d False False 0] False by auto
  show ?thesis
    using False by (simp add: e9_binary_is_ape_def mz rd ape sc fx [unfolded not_None_eq] ape_spec_def del: One_nat_def) (auto)
qed

section \<open>What detection leaves alone\<close>

definition same_analysis :: "E9Analysis \<Rightarrow> E9Analysis \<Rightarrow> bool" where
  "same_analysis a b \<longleftrightarrow> bin_data b = bin_data a \<and> an_symbols b = an_symbols a \<and> an_functions b = an_functions a \<and>
     an_mappings b = an_mappings a"

definition names_short :: "E9Analysis \<Rightarrow> bool" where
  "names_short bin \<longleftrightarrow> (\<forall>s \<in> set (bin_sections bin). length (sec_name s) \<le> 31 \<and> 0 \<notin> set (sec_name s))"

lemma strncpy_from_short: "strncpy_from d off n = Some r \<Longrightarrow> length r \<le> n \<and> 0 \<notin> set r"
  by (induction d off n arbitrary: r rule: strncpy_from.induct)
    (auto simp: Option.bind_eq_Some_conv split: if_splits)

lemma elf_section_keeps:
  assumes "elf_section d shoff se so ss i bin = Some bin'"
  shows "same_analysis bin bin' \<and> an_format bin' = an_format bin \<and> bin_arch bin' = bin_arch bin \<and>
    an_entry_point bin' = an_entry_point bin \<and> (names_short bin \<longrightarrow> names_short bin')"
  using assms strncpy_from_short
  by (fastforce simp: elf_section_def Let_def Option.bind_eq_Some_conv same_analysis_def names_short_def split: if_splits)

lemma elf_sections_keeps:
  assumes "elf_sections d n bin = Some bin'"
  shows "same_analysis bin bin' \<and> an_format bin' = an_format bin \<and> bin_arch bin' = bin_arch bin \<and>
    an_entry_point bin' = an_entry_point bin \<and> (names_short bin \<longrightarrow> names_short bin')"
proof -
  let ?Q = "\<lambda>b. same_analysis bin b \<and> an_format b = an_format bin \<and> bin_arch b = bin_arch bin \<and>
    an_entry_point b = an_entry_point bin \<and> (names_short bin \<longrightarrow> names_short b)"
  from assms consider "bin' = bin" | shoff se so ss xs where
    "mfold (elf_section d shoff se so ss) xs (bin\<lparr>bin_sections := []\<rparr>) = Some bin'"
    by (auto simp: elf_sections_def Let_def Option.bind_eq_Some_conv split: if_splits)
  then show ?thesis
  proof cases
    case 1
    then show ?thesis by (simp add: same_analysis_def)
  next
    case (2 shoff se so ss xs)
    have "?Q bin'"
    proof (rule mfold_invariant [OF 2])
      show "?Q (bin\<lparr>bin_sections := []\<rparr>)" by (simp add: same_analysis_def names_short_def)
      show "?Q t" if "?Q s" "elf_section d shoff se so ss x s = Some t" for x s t
        using elf_section_keeps [OF that(2)] that(1) by (simp add: same_analysis_def)
    qed
    then show ?thesis by simp
  qed
qed

lemma macho_command_keeps:
  "macho_command d sw off c bin = Some bin' \<Longrightarrow>
   same_analysis bin bin' \<and> an_format bin' = an_format bin \<and> bin_arch bin' = bin_arch bin \<and> bin_sections bin' = bin_sections bin"
  by (auto simp: macho_command_def Option.bind_eq_Some_conv same_analysis_def split: if_splits)

lemma macho_loop_keeps:
  "macho_loop n d sw off bin = Some bin' \<Longrightarrow>
   same_analysis bin bin' \<and> an_format bin' = an_format bin \<and> bin_arch bin' = bin_arch bin \<and> bin_sections bin' = bin_sections bin"
proof (induction n d sw off bin rule: macho_loop.induct)
  case (1 n d sw off bin)
  show ?case
  proof (cases "0 < n \<and> off + 8 \<le> length d")
    case False
    with 1(2) show ?thesis by (subst (asm) macho_loop.simps) (auto simp: same_analysis_def)
  next
    case True
    with 1(2) obtain c cs b1 where c: "rd32 d off = Some c" "rd32 d (off + 4) = Some cs"
      "macho_command d sw off (swap_if32 sw c) bin = Some b1"
      "macho_loop (n - 1) d sw (off + unat (swap_if32 sw cs)) b1 = Some bin'"
      by (subst (asm) macho_loop.simps) (auto simp: Option.bind_eq_Some_conv)
    from 1(1) [OF True c] macho_command_keeps [OF c(3)] show ?thesis by (simp add: same_analysis_def)
  qed
qed

lemma detect_elf_keeps:
  "detect_elf bin = Some (r, bin') \<Longrightarrow> same_analysis bin bin' \<and> (names_short bin \<longrightarrow> names_short bin') \<and>
    (if r = 0 then an_format bin' = E9_FORMAT_ELF else bin' = bin)"
  unfolding detect_elf_def detect_elf_in_def
  by (auto simp: Let_def Option.bind_eq_Some_conv same_analysis_def names_short_def split: if_splits dest!: elf_sections_keeps)

lemma detect_pe_keeps:
  "detect_pe bin = Some (r, bin') \<Longrightarrow> same_analysis bin bin' \<and> bin_sections bin' = bin_sections bin \<and>
    (if r = 0 then an_format bin' = E9_FORMAT_PE else bin' = bin)"
  unfolding detect_pe_def detect_pe_in_def
  by (auto simp: Let_def Option.bind_eq_Some_conv same_analysis_def split: if_splits)

lemma detect_macho_keeps:
  "detect_macho bin = Some (r, bin') \<Longrightarrow> same_analysis bin bin' \<and> bin_sections bin' = bin_sections bin \<and>
    r = 0 \<and> an_format bin' = E9_FORMAT_MACHO"
  by (auto simp: detect_macho_def Let_def Option.bind_eq_Some_conv same_analysis_def dest!: macho_loop_keeps)

lemma detect_raw_keeps:
  "detect_raw bin = Some (r, bin') \<Longrightarrow> same_analysis bin bin' \<and> bin_sections bin' = bin_sections bin \<and>
    r = 0 \<and> an_format bin' = E9_FORMAT_RAW"
  by (auto simp: detect_raw_def Let_def Option.bind_eq_Some_conv same_analysis_def split: if_splits)

definition ape_step_keeps :: "E9Analysis \<Rightarrow> E9Analysis \<Rightarrow> bool" where
  "ape_step_keeps bin bin' \<longleftrightarrow> same_analysis bin bin' \<and> bin_sections bin' = bin_sections bin \<and>
     an_format bin' = an_format bin"

lemma ape_parts_keep:
  "ape_shell_part bin = Some bin' \<Longrightarrow> ape_step_keeps bin bin'"
  "ape_elf_part bin = Some bin' \<Longrightarrow> ape_step_keeps bin bin'"
  "ape_pe_part bin = Some bin' \<Longrightarrow> ape_step_keeps bin bin'"
  "ape_zip_part bin = Some bin' \<Longrightarrow> ape_step_keeps bin bin'"
  by (auto simp: ape_shell_part_def ape_elf_part_def ape_pe_part_def ape_zip_part_def ape_step_keeps_def
      same_analysis_def Let_def Option.bind_eq_Some_conv split: if_splits option.splits)

definition zip_fields_zero :: "E9Analysis \<Rightarrow> bool" where
  "zip_fields_zero b \<longleftrightarrow>
     ape_zipos_end (an_ape b) = 0 \<and> ape_zipos_central_dir (an_ape b) = 0 \<and> ape_zipos_num_entries (an_ape b) = 0"

lemma ape_parts_zip:
  "ape_shell_part bin = Some bin' \<Longrightarrow> zip_fields_zero bin' = zip_fields_zero bin"
  "ape_elf_part bin = Some bin' \<Longrightarrow> zip_fields_zero bin' = zip_fields_zero bin"
  "ape_pe_part bin = Some bin' \<Longrightarrow> zip_fields_zero bin' = zip_fields_zero bin"
  by (auto simp: ape_shell_part_def ape_elf_part_def ape_pe_part_def zip_fields_zero_def Let_def
      Option.bind_eq_Some_conv split: if_splits option.splits)

lemma detect_ape_keeps:
  assumes "detect_ape bin = Some (r, bin')"
  shows "same_analysis bin bin' \<and> bin_sections bin' = bin_sections bin \<and> r = 0 \<and> an_format bin' = E9_FORMAT_APE"
proof -
  let ?b0 = "bin\<lparr>an_format := E9_FORMAT_APE, an_ape := no_ape_layout\<rparr>"
  from assms obtain b1 b2 b3 b4 where b: "ape_shell_part ?b0 = Some b1" "ape_elf_part b1 = Some b2"
    "ape_pe_part b2 = Some b3" "ape_zip_part b3 = Some b4" "r = 0"
    "bin' = b4\<lparr>an_entry_point := (if an_entry_point b4 = 0 then 0x400000 else an_entry_point b4),
                  bin_base_address := (if bin_base_address b4 = 0 then 0x400000 else bin_base_address b4)\<rparr>"
    by (auto simp: detect_ape_def Option.bind_eq_Some_conv)
  from ape_parts_keep(1) [OF b(1)] ape_parts_keep(2) [OF b(2)] ape_parts_keep(3) [OF b(3)] ape_parts_keep(4) [OF b(4)] b(5,6)
  show ?thesis by (simp add: ape_step_keeps_def same_analysis_def)
qed

section \<open>Properties\<close>

text \<open>The format that the first bytes decide.\<close>

definition format_of :: "bytes \<Rightarrow> E9Format" where
  "format_of d =
     (if ape_spec d then E9_FORMAT_APE
      else if take 4 d = elf_magic then E9_FORMAT_ELF
      else if take 2 d = [0x4D, 0x5A] then E9_FORMAT_PE
      else if rd32 d 0 = Some 0xFEEDFACF \<or> rd32 d 0 = Some 0xCFFAEDFE then E9_FORMAT_MACHO
      else E9_FORMAT_RAW)"


lemma detect_result:
  assumes "e9_binary_detect (Some bin) = Some (r, Some bin')" and "names_short bin"
  shows "(if r = 0 then an_format bin' = format_of (bin_data bin) else bin' = bin) \<and>
    same_analysis bin bin' \<and> names_short bin'"
proof -
  let ?d = "bin_data bin"
  have m: "memeq ?d 0 elf_magic = Some (take 4 ?d = elf_magic)" "memeq ?d 0 [0x4D, 0x5A] = Some (take 2 ?d = [0x4D, 0x5A])"
    if "16 \<le> length ?d"
    using that memeq_take [OF magic_lengths(1), of 0 ?d] memeq_take [of "[0x4D, 0x5A]" 2 0 ?d] by simp_all
  have ns: "bin_sections bin' = bin_sections bin \<Longrightarrow> names_short bin'" using assms(2) by (simp add: names_short_def)
  consider (short) "length ?d < 16" | (ape) "16 \<le> length ?d" "ape_spec ?d"
    | (elf) "16 \<le> length ?d" "\<not> ape_spec ?d" "take 4 ?d = elf_magic"
    | (pe) "16 \<le> length ?d" "\<not> ape_spec ?d" "take 4 ?d \<noteq> elf_magic" "take 2 ?d = [0x4D, 0x5A]"
    | (rest) "16 \<le> length ?d" "\<not> ape_spec ?d" "take 4 ?d \<noteq> elf_magic" "take 2 ?d \<noteq> [0x4D, 0x5A]"
    by linarith
  then show ?thesis
  proof cases
    case short
    with assms show ?thesis by (auto simp: e9_binary_detect_def Let_def same_analysis_def)
  next
    case ape
    with assms have "detect_ape bin = Some (r, bin')" by (auto simp: e9_binary_detect_def Let_def is_ape_spec)
    from detect_ape_keeps [OF this] ns ape show ?thesis by (simp add: format_of_def)
  next
    case elf
    with assms m have "detect_elf bin = Some (r, bin')" by (auto simp: e9_binary_detect_def Let_def is_ape_spec)
    from detect_elf_keeps [OF this] assms(2) elf show ?thesis by (simp add: format_of_def)
  next
    case pe
    with assms m have "detect_pe bin = Some (r, bin')" by (auto simp: e9_binary_detect_def Let_def is_ape_spec)
    from detect_pe_keeps [OF this] ns pe show ?thesis by (simp add: format_of_def)
  next
    case rest
    then obtain w where w: "rd32 ?d 0 = Some w" using rd32_eq_None [of ?d 0] by (cases "rd32 ?d 0") auto
    have "(if w = 0xFEEDFACF \<or> w = 0xCFFAEDFE then detect_macho bin else detect_raw bin) = Some (r, bin')"
      using assms rest m w by (auto simp: e9_binary_detect_def Let_def is_ape_spec)
    with detect_macho_keeps [of bin r bin'] detect_raw_keeps [of bin r bin'] ns rest w show ?thesis
      by (auto simp: format_of_def split: if_splits)
  qed
qed

text \<open>
  C25.  A successful e9_binary_detect records the format that the file's first bytes decide, in the
  order APE, ELF, PE, Mach-O, raw; a failing one changes nothing.  In both cases the data and the
  results of earlier analysis steps are kept, and the section names fit their 32 bytes.
\<close>

theorem detect_classifies:
  assumes "e9_binary_detect (Some bin) = Some (r, Some bin')" and "names_short bin"
  shows "(if r = 0 then an_format bin' = format_of (bin_data bin) else bin' = bin) \<and>
    same_analysis bin bin' \<and> names_short bin'"
  using assms by (rule detect_result)

definition raw_demo :: E9Analysis where
  "raw_demo = (case e9_binary_create (Some ([0x55, 0x48, 0x89, 0xE5] @ replicate 12 0)) of Some bin \<Rightarrow> bin)"

lemma detect_classifies_witness:
  "(if (0::int) = 0 then an_format (raw_demo\<lparr>an_format := E9_FORMAT_RAW, bin_arch := E9_ARCH_X86_64\<rparr>) =
      format_of (bin_data raw_demo) else raw_demo\<lparr>an_format := E9_FORMAT_RAW, bin_arch := E9_ARCH_X86_64\<rparr> = raw_demo) \<and>
    same_analysis raw_demo (raw_demo\<lparr>an_format := E9_FORMAT_RAW, bin_arch := E9_ARCH_X86_64\<rparr>) \<and>
    names_short (raw_demo\<lparr>an_format := E9_FORMAT_RAW, bin_arch := E9_ARCH_X86_64\<rparr>)"
proof (rule detect_classifies)
  show "e9_binary_detect (Some raw_demo) = Some (0, Some (raw_demo\<lparr>an_format := E9_FORMAT_RAW, bin_arch := E9_ARCH_X86_64\<rparr>))"
    by code_simp
  show "names_short raw_demo" by (simp add: raw_demo_def e9_binary_create_def names_short_def)
qed

text \<open>
  Detection errors.  The ZIP directory of an APE file of less than 64 KiB is never found: the
  bound \<open>size - 65536\<close> wraps around.  An \<open>e_lfanew\<close> close to 2^32 passes the bounds check of
  detect_pe, because \<open>pe_off + 24\<close> is a 32-bit sum, and the signature is read four
  gigabytes outside the file.
\<close>

theorem detect_wrong:
  "(length (bin_data bin) < 65536 \<and> detect_ape bin = Some (r, bin') \<longrightarrow>
      ape_zipos_end (an_ape bin') = 0 \<and> ape_zipos_central_dir (an_ape bin') = 0 \<and> ape_zipos_num_entries (an_ape bin') = 0) \<and>
   (64 \<le> length (bin_data bin) \<and> length (bin_data bin) < 2 ^ 31 \<and> rd32 (bin_data bin) 0x3C = Some w \<and> 0xFFFFFFE8 \<le> w \<longrightarrow>
      detect_pe bin = None)"
proof (intro conjI impI)
  assume h: "length (bin_data bin) < 65536 \<and> detect_ape bin = Some (r, bin')"
  let ?b0 = "bin\<lparr>an_format := E9_FORMAT_APE, an_ape := no_ape_layout\<rparr>"
  from h obtain b1 b2 b3 b4 where b: "ape_shell_part ?b0 = Some b1" "ape_elf_part b1 = Some b2"
    "ape_pe_part b2 = Some b3" "ape_zip_part b3 = Some b4" "an_ape bin' = an_ape b4"
    by (auto simp: detect_ape_def Option.bind_eq_Some_conv)
  have "zip_fields_zero b3"
    using ape_parts_zip(1) [OF b(1)] ape_parts_zip(2) [OF b(2)] ape_parts_zip(3) [OF b(3)]
    by (simp add: zip_fields_zero_def no_ape_layout_def)
  moreover have "bin_data b3 = bin_data bin"
    using ape_parts_keep(1) [OF b(1)] ape_parts_keep(2) [OF b(2)] ape_parts_keep(3) [OF b(3)]
    by (simp add: ape_step_keeps_def same_analysis_def)
  moreover have "zip_scan_range n = []" if "n < 65536" for n
  proof -
    have "unat (word_of_nat n - 65536 :: u64) = n + (2 ^ 64 - 65536)"
      using that by (simp add: unat_sub_if_size unat_of_nat word_size)
    then show ?thesis by (auto simp: zip_scan_range_def filter_empty_conv)
  qed
  ultimately have "zip_fields_zero b4" using b(4) h by (simp add: ape_zip_part_def Let_def)
  then show "ape_zipos_end (an_ape bin') = 0" "ape_zipos_central_dir (an_ape bin') = 0" "ape_zipos_num_entries (an_ape bin') = 0"
    using b(5) by (simp_all add: zip_fields_zero_def)
next
  assume h: "64 \<le> length (bin_data bin) \<and> length (bin_data bin) < 2 ^ 31 \<and> rd32 (bin_data bin) 0x3C = Some w \<and> 0xFFFFFFE8 \<le> w"
  then have w: "4294967272 \<le> unat w" by (simp add: word_le_nat_alt)
  have "unat (w + 24) = (unat w + 24) mod 2 ^ 32" by (simp add: unat_word_ariths)
  also have "\<dots> < 64" using w unat_u32_less [of w] by (auto simp: mod_if)
  finally have "\<not> length (bin_data bin) < unat (w + 24)" using h by simp
  moreover have "memeq (bin_data bin) (unat w) pe_magic = None" using h w by (simp add: memeq_eq_None)
  ultimately show "detect_pe bin = None" using h by (simp add: detect_pe_def detect_pe_in_def)
qed

definition pe_demo :: E9Analysis where
  "pe_demo = (case e9_binary_create (Some ([0x4D, 0x5A] @ replicate 58 0 @ [0xF0, 0xFF, 0xFF, 0xFF])) of Some bin \<Rightarrow> bin)"

lemma detect_wrong_witness: "detect_pe pe_demo = None"
proof -
  have "rd32 (bin_data pe_demo) 0x3C = Some 0xFFFFFFF0 \<and> length (bin_data pe_demo) = 64" by code_simp
  with detect_wrong [of pe_demo 0 pe_demo "0xFFFFFFF0"] show ?thesis by simp
qed

end
