(* ===== verification/E9Discover.thy ===== *)
theory E9Discover
  imports E9AnCtx
begin

text \<open>
  Function discovery of \<open>src/src/e9patch/analysis/e9analysis.c\<close>: the function list with its
  lookups, the recursive descent along direct calls, and the scan for prologues.

  The descent takes a bound on the depth of the C call stack; \<open>None\<close> is an access outside the
  file, a loop that does not end or a recursion deeper than the bound.  \<open>discover_depth\<close> is shown
  to be deep enough.
\<close>

section \<open>The function list\<close>

definition fn_covers :: "u64 \<Rightarrow> E9Function \<Rightarrow> bool" where
  "fn_covers addr f \<longleftrightarrow>
     fn_address f = addr \<or> (fn_end_address f \<noteq> 0 \<and> fn_address f \<le> addr \<and> addr < fn_end_address f)"

text \<open>The number of the function found.\<close>

fun function_at :: "u64 \<Rightarrow> E9Function list \<Rightarrow> nat ptr" where
  "function_at addr [] = None"
| "function_at addr (f # fs) = (if fn_covers addr f then Some (length fs) else function_at addr fs)"

fun function_by_name :: "bytes \<Rightarrow> E9Function list \<Rightarrow> nat ptr" where
  "function_by_name name [] = None"
| "function_by_name name (f # fs) =
     (if fn_name f = Some name then Some (length fs) else function_by_name name fs)"

definition new_function :: "u64 \<Rightarrow> bytes ptr \<Rightarrow> E9Function" where
  "new_function addr name =
     \<lparr>fn_name = name, fn_address = addr, fn_end_address = 0, fn_size = 0, fn_cfg = None,
      fn_calling_convention = E9_CC_UNKNOWN, fn_is_leaf = False, fn_is_noreturn = False,
      fn_is_variadic = False, fn_num_params = 0, fn_locals = [], fn_decompiled_c = None,
      fn_signature = None, fn_source_file = None,
      fn_source_line = 0, fn_symbol = None\<rparr>"

text \<open>\<open>e9_function_add\<close>: the number of the function and the list.\<close>

definition function_add :: "u64 \<Rightarrow> bytes ptr \<Rightarrow> E9Function list \<Rightarrow> nat \<times> E9Function list" where
  "function_add addr name fs =
     (case function_at addr fs of
        Some k \<Rightarrow>
          if fn_address (elem_at k fs) = addr then (k, fs) else (length fs, new_function addr name # fs)
      | None \<Rightarrow> (length fs, new_function addr name # fs))"

definition e9_function_add :: "u64 \<Rightarrow> bytes ptr \<Rightarrow> E9Analysis ptr \<Rightarrow> nat ptr \<times> E9Analysis ptr" where
  "e9_function_add addr name b =
     (case b of
        None \<Rightarrow> (None, None)
      | Some bin \<Rightarrow>
          (let (k, fs) = function_add addr name (an_functions bin)
           in (Some k, Some (bin\<lparr>an_functions := fs\<rparr>))))"

definition e9_function_at :: "E9Analysis ptr \<Rightarrow> u64 \<Rightarrow> nat ptr" where
  "e9_function_at b addr = (case b of None \<Rightarrow> None | Some bin \<Rightarrow> function_at addr (an_functions bin))"

definition e9_function_by_name :: "E9Analysis ptr \<Rightarrow> bytes ptr \<Rightarrow> nat ptr" where
  "e9_function_by_name b name =
     (case (b, name) of (Some bin, Some n) \<Rightarrow> function_by_name n (an_functions bin) | _ \<Rightarrow> None)"

section \<open>Recursive descent\<close>

text \<open>
  The loop over the body of the function with number \<open>k\<close>, which starts at \<open>start\<close>; \<open>rec\<close> is the
  recursive call.  The result is the last address and the list.
\<close>

partial_function (option) discover_loop ::
  "(u64 \<Rightarrow> E9Function list \<Rightarrow> E9Function list option) \<Rightarrow> (u64 \<Rightarrow> AInsn ptr ub) \<Rightarrow> u64 \<Rightarrow> nat \<Rightarrow> u64 \<Rightarrow>
   E9Function list \<Rightarrow> (u64 \<times> E9Function list) option" where
  [code]: "discover_loop rec dis start k addr fs =
     (if addr < start + 0x10000 then do {
        o' \<leftarrow> dis addr;
        case o' of
          None \<Rightarrow> Some (addr, fs)
        | Some i \<Rightarrow>
            let nxt = addr + word_of_nat (ai_size i) in
            if ai_category i = E9_INSN_RET then
              Some (addr, elem_update k (\<lambda>f. f\<lparr>fn_end_address := nxt\<rparr>) fs)
            else do {
              fs \<leftarrow> (if ai_category i = E9_INSN_CALL then rec (ai_target i) fs else Some fs);
              if ai_category i = E9_INSN_JUMP \<and> \<not> ai_is_conditional i \<and>
                  (ai_target i < start \<or> start + 0x10000 < ai_target i)
              then Some (addr, elem_update k (\<lambda>f. f\<lparr>fn_end_address := nxt\<rparr>) fs)
              else discover_loop rec dis start k nxt fs
            }
      } else Some (addr, fs))"

definition close_function :: "u64 \<Rightarrow> E9Function \<Rightarrow> E9Function" where
  "close_function addr f =
     (let f = (if fn_end_address f = 0 then f\<lparr>fn_end_address := addr\<rparr> else f)
      in f\<lparr>fn_size := ucast (fn_end_address f - fn_address f)\<rparr>)"

fun discover_recursive ::
  "nat \<Rightarrow> (u64 \<Rightarrow> AInsn ptr ub) \<Rightarrow> u64 \<Rightarrow> E9Function list \<Rightarrow> E9Function list option" where
  "discover_recursive 0 dis start fs = None"
| "discover_recursive (Suc depth) dis start fs =
     (if function_at start fs \<noteq> None then Some fs
      else
        let (k, fs) = function_add start None fs in do {
          (addr, fs) \<leftarrow> discover_loop (discover_recursive depth dis) dis start k start fs;
          Some (elem_update k (close_function addr) fs)
        })"

section \<open>The scan for prologues\<close>

definition is_prologue :: "E9Arch \<Rightarrow> bytes \<Rightarrow> nat \<Rightarrow> bool ub" where
  "is_prologue arch d off =
     (case arch of
        E9_ARCH_X86_64 \<Rightarrow> do {
          b0 \<leftarrow> rd8 d off; b1 \<leftarrow> rd8 d (off + 1); b2 \<leftarrow> rd8 d (off + 2); b3 \<leftarrow> rd8 d (off + 3);
          Some ((b0 = 0x55 \<and> b1 = 0x48 \<and> b2 = 0x89 \<and> b3 = 0xE5) \<or>
                (b0 = 0x48 \<and> b1 = 0x83 \<and> b2 = 0xEC) \<or>
                (b0 = 0x41 \<and> 0x54 \<le> b1 \<and> b1 \<le> 0x57))
        }
      | E9_ARCH_AARCH64 \<Rightarrow> do {
          w \<leftarrow> rd32 d off;
          Some (w AND 0xFFE00000 = 0xA9800000 \<and> w AND 0x1F = 29 \<and> (drop_bit 10 w) AND 0x1F = 30)
        }
      | _ \<Rightarrow> Some False)"

definition scan_step :: "E9Arch \<Rightarrow> u64" where
  "scan_step arch = (if arch = E9_ARCH_AARCH64 then 4 else 1)"

partial_function (option) scan_text ::
  "(u64 \<Rightarrow> E9Function list \<Rightarrow> E9Function list option) \<Rightarrow> E9Arch \<Rightarrow> bytes \<Rightarrow> u64 \<Rightarrow> u64 \<Rightarrow> u64 \<Rightarrow>
   E9Function list \<Rightarrow> E9Function list option" where
  [code]: "scan_text rec arch d base endp addr fs =
     (if addr < endp then
        if function_at addr fs \<noteq> None then scan_text rec arch d base endp (addr + 16) fs
        else
          let offset = (if base \<noteq> 0 then addr - base else addr) in
          if length d < unat (offset + 16) then Some fs
          else do {
            p \<leftarrow> is_prologue arch d (unat offset);
            fs \<leftarrow> (if p then rec addr fs else Some fs);
            scan_text rec arch d base endp (addr + scan_step arch) fs
          }
      else Some fs)"

definition text_name :: bytes where "text_name = str_bytes ''.text''"

definition discover_heuristic ::
  "(u64 \<Rightarrow> E9Function list \<Rightarrow> E9Function list option) \<Rightarrow> E9Analysis \<Rightarrow> E9Function list \<Rightarrow> E9Function list option" where
  "discover_heuristic rec bin fs =
     (if an_format bin = E9_FORMAT_RAW then Some fs
      else mfold (\<lambda>s fs.
        if sec_name s \<noteq> text_name then Some fs
        else scan_text rec (bin_arch bin) (bin_data bin) (bin_base_address bin)
               (sec_addr s + sec_size s) (sec_addr s) fs) (bin_sections bin) fs)"

section \<open>\<open>e9_functions_discover\<close>\<close>

text \<open>
  Method 1: a function for every function symbol, from the head of the list; the symbol has the
  number given.
\<close>

fun discover_symbols :: "E9Symbol list \<Rightarrow> E9Function list \<Rightarrow> E9Function list" where
  "discover_symbols [] fs = fs"
| "discover_symbols (s # ss) fs =
     discover_symbols ss
       (if sy_type s = E9_SYM_FUNCTION then
          let (k, fs) = function_add (sy_address s) (sy_name s) fs
          in elem_update k (\<lambda>f. f\<lparr>fn_symbol := Some (length ss), fn_size := ucast (sy_size s)\<rparr>) fs
        else fs)"

definition discover_depth :: "'a E9Binary_scheme \<Rightarrow> nat" where
  "discover_depth bin = 2 * length (bin_data bin) + 2"

definition functions_discover :: "E9Analysis \<Rightarrow> E9Function list option" where
  "functions_discover bin =
     (let rec = discover_recursive (discover_depth bin) (disasm_at bin);
          fs = discover_symbols (an_symbols bin) (an_functions bin)
      in do {
        fs \<leftarrow> (if an_entry_point bin \<noteq> 0 then rec (an_entry_point bin) fs else Some fs);
        discover_heuristic rec bin fs
      })"

definition e9_functions_discover :: "E9Analysis ptr \<Rightarrow> (int \<times> E9Analysis ptr) option" where
  "e9_functions_discover b =
     (case b of
        None \<Rightarrow> Some (-1, None)
      | Some bin \<Rightarrow> map_option (\<lambda>fs. (0, Some (bin\<lparr>an_functions := fs\<rparr>))) (functions_discover bin))"

section \<open>Lookups\<close>

definition fn_covered :: "E9Function list \<Rightarrow> u64 \<Rightarrow> bool" where
  "fn_covered fs a \<longleftrightarrow> (\<exists>f \<in> set fs. fn_covers a f)"

definition addrs :: "E9Function list \<Rightarrow> u64 set" where
  "addrs fs = fn_address ` set fs"

lemma function_at_None: "function_at a fs = None \<longleftrightarrow> \<not> fn_covered fs a"
  by (induction fs) (auto simp: fn_covered_def)

lemma function_at_Some: "function_at a fs = Some k \<Longrightarrow> k < length fs \<and> fn_covers a (elem_at k fs)"
proof (induction fs)
  case Nil
  then show ?case by simp
next
  case (Cons f fs)
  then show ?case by (cases "fn_covers a f") (auto simp: elem_at_new elem_at_push)
qed

lemma covered_append [simp]: "fn_covered (xs @ ys) a \<longleftrightarrow> fn_covered xs a \<or> fn_covered ys a"
  and covered_Cons [simp]: "fn_covered (x # xs) a \<longleftrightarrow> fn_covers a x \<or> fn_covered xs a"
  and covered_Nil [simp]: "\<not> fn_covered [] a"
  by (auto simp: fn_covered_def)

lemma addrs_simps [simp]: "addrs (xs @ ys) = addrs xs \<union> addrs ys" "addrs (x # xs) = insert (fn_address x) (addrs xs)"
  "addrs [] = {}"
  by (auto simp: addrs_def)

lemma finite_addrs [simp]: "finite (addrs fs)"
  by (simp add: addrs_def)

lemma addrs_covered: "a \<in> addrs fs \<Longrightarrow> fn_covered fs a"
  by (auto simp: addrs_def fn_covered_def fn_covers_def)

lemma elem_update_middle [simp]: "elem_update (length fs) g (pre @ f # fs) = pre @ g f # fs"
  by (simp add: elem_update_def elem_at_def nth_append list_update_append)

section \<open>What the descent finds\<close>

text \<open>
  A function is closed when every call in the code between its address and its end leads to a
  function of the list.
\<close>

definition closed_function :: "(u64 \<Rightarrow> AInsn ptr ub) \<Rightarrow> E9Function list \<Rightarrow> E9Function \<Rightarrow> bool" where
  "closed_function dis fs f \<longleftrightarrow>
     (\<exists>is. range_loop dis (fn_address f) (fn_end_address f) = Some is \<and>
       (\<forall>i \<in> set is. ai_category i = E9_INSN_CALL \<longrightarrow> fn_covered fs (ai_target i)))"

lemma closed_function_mono:
  "closed_function dis fs f \<Longrightarrow> (\<And>a. fn_covered fs a \<Longrightarrow> fn_covered fs' a) \<Longrightarrow> closed_function dis fs' f"
  by (auto simp: closed_function_def)

text \<open>What a call of \<open>discover_functions_recursive\<close> adds in front of \<open>fs\<close>.\<close>

definition discovered :: "(u64 \<Rightarrow> AInsn ptr ub) \<Rightarrow> E9Function list \<Rightarrow> E9Function list \<Rightarrow> bool" where
  "discovered dis fs new \<longleftrightarrow>
     distinct (map fn_address new) \<and> addrs new \<inter> addrs fs = {} \<and>
     (\<forall>f \<in> set new. closed_function dis (new @ fs) f)"

lemma discovered_Nil [simp]: "discovered dis fs []"
  by (simp add: discovered_def)

lemma discovered_append:
  assumes "discovered dis fs new" and "discovered dis (new @ fs) new'"
  shows "discovered dis fs (new' @ new)"
proof -
  have "closed_function dis (new' @ new @ fs) f" if "f \<in> set new" for f
    by (rule closed_function_mono [of dis "new @ fs"]) (use that assms(1) in \<open>auto simp: discovered_def\<close>)
  with assms show ?thesis by (auto simp: discovered_def addrs_def)
qed

text \<open>The instructions walked so far from \<open>start\<close>.\<close>

definition walked :: "(u64 \<Rightarrow> AInsn ptr ub) \<Rightarrow> u64 \<Rightarrow> AInsn list \<Rightarrow> bool" where
  "walked dis start is \<longleftrightarrow> insn_chain start is \<and> (\<forall>i \<in> set is. dis (ai_address i) = Some (Some i))"

lemma walked_snoc:
  "walked dis start is \<Longrightarrow> dis (chain_end start is) = Some (Some i) \<Longrightarrow> ai_address i = chain_end start is \<Longrightarrow>
   walked dis start (is @ [i])"
  by (auto simp: walked_def insn_chain_append)

context insn_source
begin

lemma sweep_next_nowrap:
  assumes "dis a = Some (Some i)" and "lim < 2 ^ 64"
  shows "unat (a + word_of_nat (ai_size i)) = unat a + ai_size i"
proof -
  have le: "unat a + ai_size i \<le> lim" using dis_insn [OF assms(1)] by simp
  then have "unat (word_of_nat (ai_size i) :: u64) = ai_size i"
    using assms(2) by (simp add: unat_of_nat)
  with le assms(2) show ?thesis by (subst unat_add_small) simp_all
qed

lemma sweep_induct_all [consumes 1, case_names step]:
  assumes "lim < 2 ^ 64"
    and step: "\<And>a. (\<And>i. dis a = Some (Some i) \<Longrightarrow> P (a + word_of_nat (ai_size i))) \<Longrightarrow> P a"
  shows "P a"
proof (induction "Suc lim - unat a" arbitrary: a rule: less_induct)
  case less
  show ?case
  proof (rule step)
    fix i assume i: "dis a = Some (Some i)"
    from dis_insn [OF i] sweep_next_nowrap [OF i assms(1)]
    show "P (a + word_of_nat (ai_size i))" by (intro less.hyps) linarith+
  qed
qed

lemma range_loop_walked:
  assumes "lim < 2 ^ 64" and "walked dis a is"
  shows "unat a \<le> unat (chain_end a is) \<and> range_loop dis a (chain_end a is) = Some is"
  using assms(2)
proof (induction "is" arbitrary: a)
  case Nil
  then show ?case by (subst range_loop.simps) simp
next
  case (Cons i "is")
  let ?n = "a + word_of_nat (ai_size i)"
  from Cons.prems have i: "dis a = Some (Some i)" "walked dis ?n is" by (auto simp: walked_def)
  note IH = Cons.IH [OF i(2)]
  have "unat a < unat ?n" using sweep_next_nowrap [OF i(1) assms(1)] dis_insn [OF i(1)] by simp
  with IH have "unat a < unat (chain_end ?n is)" by simp
  then have "a < chain_end ?n is" by (simp add: word_less_nat_alt)
  with IH i(1) \<open>unat a < unat (chain_end ?n is)\<close> show ?case by (subst range_loop.simps) simp
qed

text \<open>
  The loop over the body of a new function \<open>f\<close>, when the recursive call behaves: it ends, and
  closing the function gives a closed function in front of the older ones.
\<close>

lemma discover_loop_total:
  assumes lim: "lim < 2 ^ 64" and total: "\<And>a. dis a \<noteq> None"
    and rec: "\<And>i a gs. dis a = Some (Some i) \<Longrightarrow> ai_category i = E9_INSN_CALL \<Longrightarrow> insert start (addrs fs) \<subseteq> addrs gs \<Longrightarrow>
      \<exists>new. rec (ai_target i) gs = Some (new @ gs) \<and> discovered dis gs new \<and> fn_covered (new @ gs) (ai_target i)"
    and f: "fn_address f = start" "fn_end_address f = 0"
  shows "walked dis start is \<Longrightarrow> addr = chain_end start is \<Longrightarrow> discovered dis (f # fs) pre \<Longrightarrow>
    \<forall>i \<in> set is. ai_category i = E9_INSN_CALL \<longrightarrow> fn_covered (pre @ f # fs) (ai_target i) \<Longrightarrow>
    \<exists>addr' pre' e is'. discover_loop rec dis start (length fs) addr (pre @ f # fs) =
        Some (addr', pre' @ f\<lparr>fn_end_address := e\<rparr> # fs) \<and>
      discovered dis (f # fs) pre' \<and> walked dis start is' \<and> (if e = 0 then addr' else e) = chain_end start is' \<and>
      (\<forall>i \<in> set is'. ai_category i = E9_INSN_CALL \<longrightarrow> fn_covered (pre' @ f # fs) (ai_target i))"
  using lim
proof (induction addr arbitrary: pre "is" rule: sweep_induct_all)
  case (step addr)
  note prems = step(2-5)
  have upd: "f\<lparr>fn_end_address := 0\<rparr> = f" using f(2) by (cases f) simp
  have stop: "\<exists>addr' pre' e is'. Some (addr, pre @ f # fs) = Some (addr', pre' @ f\<lparr>fn_end_address := e\<rparr> # fs) \<and>
      discovered dis (f # fs) pre' \<and> walked dis start is' \<and> (if e = 0 then addr' else e) = chain_end start is' \<and>
      (\<forall>i \<in> set is'. ai_category i = E9_INSN_CALL \<longrightarrow> fn_covered (pre' @ f # fs) (ai_target i))"
    using prems upd by (intro exI [of _ addr] exI [of _ pre] exI [of _ 0] exI [of _ "is"]) simp
  show ?case
  proof (cases "addr < start + 0x10000")
    case False
    with stop show ?thesis by (subst discover_loop.simps) simp
  next
    case True
    from total [of addr] obtain o' where o': "dis addr = Some o'" by auto
    show ?thesis
    proof (cases o')
      case None
      with stop True o' show ?thesis by (subst discover_loop.simps) simp
    next
      case (Some i)
      with o' have i: "dis addr = Some (Some i)" by simp
      let ?n = "addr + word_of_nat (ai_size i)"
      have ai: "ai_address i = addr" using dis_insn [OF i] by simp
      have w: "walked dis start (is @ [i])" using walked_snoc [OF prems(1)] i ai prems(2) by simp
      have ce: "chain_end start (is @ [i]) = ?n" using prems(2) by (simp add: chain_end_append)
      have n0: "?n \<noteq> 0"
        using sweep_next_nowrap [OF i lim] dis_insn [OF i] by (metis add_is_0 less_irrefl unat_0)
      show ?thesis
      proof (cases "ai_category i = E9_INSN_RET")
        case ret: True
        then have "discover_loop rec dis start (length fs) addr (pre @ f # fs) =
            Some (addr, pre @ f\<lparr>fn_end_address := ?n\<rparr> # fs)"
          using True i by (subst discover_loop.simps) (simp add: Let_def)
        then show ?thesis using prems w ce n0 ret
          by (intro exI [of _ addr] exI [of _ pre] exI [of _ ?n] exI [of _ "is @ [i]"]) auto
      next
        case noret: False
        obtain new where new: "(if ai_category i = E9_INSN_CALL then rec (ai_target i) (pre @ f # fs) else Some (pre @ f # fs)) =
            Some (new @ pre @ f # fs)" "discovered dis (pre @ f # fs) new"
          "ai_category i = E9_INSN_CALL \<longrightarrow> fn_covered (new @ pre @ f # fs) (ai_target i)"
        proof (cases "ai_category i = E9_INSN_CALL")
          case call: True
          have "insert start (addrs fs) \<subseteq> addrs (pre @ f # fs)" using f(1) by auto
          from rec [OF i call this] call show ?thesis by (auto intro: that)
        next
          case False
          then show ?thesis by (intro that [of "[]"]) simp_all
        qed
        have d: "discovered dis (f # fs) (new @ pre)" by (rule discovered_append) (use prems new in simp_all)
        have c: "\<forall>j \<in> set (is @ [i]). ai_category j = E9_INSN_CALL \<longrightarrow> fn_covered ((new @ pre) @ f # fs) (ai_target j)"
          using prems(4) new(3) by auto
        show ?thesis
        proof (cases "ai_category i = E9_INSN_JUMP \<and> \<not> ai_is_conditional i \<and>
                  (ai_target i < start \<or> start + 0x10000 < ai_target i)")
          case jump: True
          then have "discover_loop rec dis start (length fs) addr (pre @ f # fs) =
              Some (addr, (new @ pre) @ f\<lparr>fn_end_address := ?n\<rparr> # fs)"
            using True i noret new(1) elem_update_middle [of fs _ "new @ pre" f]
            by (subst discover_loop.simps) (simp add: Let_def)
          then show ?thesis using d w ce n0 c
            by (intro exI [of _ addr] exI [of _ "new @ pre"] exI [of _ ?n] exI [of _ "is @ [i]"]) auto
        next
          case False
          have "discover_loop rec dis start (length fs) addr (pre @ f # fs) =
              discover_loop rec dis start (length fs) ?n ((new @ pre) @ f # fs)"
            using True i noret new(1) False by (subst discover_loop.simps) (auto simp: Let_def)
          with step(1) [OF i w ce [symmetric] d c] show ?thesis by simp
        qed
      qed
    qed
  qed
qed

lemma fn_covers_address: "fn_covers (fn_address f) f"
  by (simp add: fn_covers_def)

lemma discover_recursive_total:
  assumes lim: "lim < 2 ^ 64" and total: "\<And>a. dis a \<noteq> None" and U: "finite U"
    and targets: "\<And>a i. dis a = Some (Some i) \<Longrightarrow> ai_category i = E9_INSN_CALL \<Longrightarrow> ai_target i \<in> U"
  shows "start \<in> U \<Longrightarrow> card (U - addrs fs) < depth \<Longrightarrow>
    \<exists>new. discover_recursive depth dis start fs = Some (new @ fs) \<and> discovered dis fs new \<and> fn_covered (new @ fs) start"
proof (induction depth arbitrary: start fs)
  case 0
  then show ?case by simp
next
  case (Suc depth)
  show ?case
  proof (cases "fn_covered fs start")
    case True
    then show ?thesis by (auto simp: function_at_None intro: exI [of _ "[]"])
  next
    case False
    let ?rec = "discover_recursive depth dis" and ?f = "new_function start None"
    have f: "fn_address ?f = start" "fn_end_address ?f = 0" by (simp_all add: new_function_def)
    have fresh: "start \<notin> addrs fs" using False addrs_covered by blast
    have rec: "\<exists>new. ?rec (ai_target i) gs = Some (new @ gs) \<and> discovered dis gs new \<and> fn_covered (new @ gs) (ai_target i)"
      if "dis a = Some (Some i)" "ai_category i = E9_INSN_CALL" "insert start (addrs fs) \<subseteq> addrs gs" for i a gs
    proof (rule Suc.IH [OF targets [OF that(1,2)]])
      have "U - addrs gs \<subset> U - addrs fs" using that(3) Suc.prems(1) fresh by blast
      then have "card (U - addrs gs) < card (U - addrs fs)" using U by (intro psubset_card_mono) auto
      with Suc.prems(2) show "card (U - addrs gs) < depth" by simp
    qed
    have w: "walked dis start []" by (simp add: walked_def)
    have "\<exists>addr' pre' e is'. discover_loop ?rec dis start (length fs) start ([] @ ?f # fs) =
        Some (addr', pre' @ ?f\<lparr>fn_end_address := e\<rparr> # fs) \<and>
      discovered dis (?f # fs) pre' \<and> walked dis start is' \<and> (if e = 0 then addr' else e) = chain_end start is' \<and>
      (\<forall>i \<in> set is'. ai_category i = E9_INSN_CALL \<longrightarrow> fn_covered (pre' @ ?f # fs) (ai_target i))"
    proof (rule discover_loop_total [OF lim total])
      show "\<exists>new. ?rec (ai_target i) gs = Some (new @ gs) \<and> discovered dis gs new \<and> fn_covered (new @ gs) (ai_target i)"
        if "dis a = Some (Some i)" "ai_category i = E9_INSN_CALL" "insert start (addrs fs) \<subseteq> addrs gs" for i a gs
        by (rule rec [OF that])
    qed ((rule f w)+, simp_all)
    then obtain addr' pre' e is' where
      L: "discover_loop ?rec dis start (length fs) start (?f # fs) = Some (addr', pre' @ ?f\<lparr>fn_end_address := e\<rparr> # fs)"
      and d: "discovered dis (?f # fs) pre'" and w': "walked dis start is'"
      and ce: "(if e = 0 then addr' else e) = chain_end start is'"
      and calls: "\<forall>i \<in> set is'. ai_category i = E9_INSN_CALL \<longrightarrow> fn_covered (pre' @ ?f # fs) (ai_target i)"
      by auto
    define g where "g = close_function addr' (?f\<lparr>fn_end_address := e\<rparr>)"
    have g: "fn_address g = start" "fn_end_address g = chain_end start is'"
      using ce f(1) by (auto simp: g_def close_function_def Let_def)
    have R: "discover_recursive (Suc depth) dis start fs = Some ((pre' @ [g]) @ fs)"
      using function_at_None [THEN iffD2, OF False] L by (simp add: function_add_def g_def)
    have mono: "fn_covered (pre' @ ?f # fs) a \<Longrightarrow> fn_covered (pre' @ g # fs) a" for a
      using f g(1) fn_covers_address [of g] by (auto simp: fn_covers_def)
    have "closed_function dis (pre' @ g # fs) g"
      using range_loop_walked [OF lim w'] calls mono by (auto simp: closed_function_def g)
    moreover have "closed_function dis (pre' @ g # fs) h" if "h \<in> set pre'" for h
      by (rule closed_function_mono [OF _ mono]) (use d that in \<open>auto simp: discovered_def\<close>)
    ultimately have "discovered dis fs (pre' @ [g])"
      using d fresh f(1) g(1) by (auto simp: discovered_def addrs_def)
    with R show ?thesis using g(1) fn_covers_address [of g] by (intro exI [of _ "pre' @ [g]"]) auto
  qed
qed

end

section \<open>The depth of the recursion\<close>

lemma decoded_addresses:
  "{a. \<exists>i. disasm_at bin a = Some (Some i)} \<subseteq>
     word_of_nat ` {..< length (bin_data bin)} \<union> (\<lambda>n. bin_base_address bin + word_of_nat n) ` {..< length (bin_data bin)}"
proof
  fix a assume "a \<in> {a. \<exists>i. disasm_at bin a = Some (Some i)}"
  then obtain i where "disasm_at bin a = Some (Some i)" by blast
  from disasm_at_wf [OF this] have "unat (insn_offset bin a) < length (bin_data bin)" by (simp add: insn_wf_def)
  moreover have "a = word_of_nat (unat (insn_offset bin a)) \<or>
      a = bin_base_address bin + word_of_nat (unat (insn_offset bin a))"
    by (simp add: insn_offset_def)
  ultimately show "a \<in> word_of_nat ` {..< length (bin_data bin)} \<union>
      (\<lambda>n. bin_base_address bin + word_of_nat n) ` {..< length (bin_data bin)}" by blast
qed

definition call_targets :: "'a E9Binary_scheme \<Rightarrow> u64 set" where
  "call_targets bin = {ai_target i |a i. disasm_at bin a = Some (Some i) \<and> ai_category i = E9_INSN_CALL}"

lemma call_targets_card:
  "finite (call_targets bin) \<and> card (call_targets bin) \<le> 2 * length (bin_data bin)"
proof -
  let ?D = "word_of_nat ` {..< length (bin_data bin)} \<union> (\<lambda>n. bin_base_address bin + word_of_nat n) ` {..< length (bin_data bin)}"
  have "card ?D \<le> card (word_of_nat ` {..< length (bin_data bin)} :: u64 set) +
      card ((\<lambda>n. bin_base_address bin + word_of_nat n) ` {..< length (bin_data bin)})"
    by (rule card_Un_le)
  also have "\<dots> \<le> 2 * length (bin_data bin)"
    using card_image_le [of "{..< length (bin_data bin)}" "word_of_nat :: nat \<Rightarrow> u64"]
      card_image_le [of "{..< length (bin_data bin)}" "\<lambda>n. bin_base_address bin + word_of_nat n"] by simp
  finally have D: "card ?D \<le> 2 * length (bin_data bin)" .
  have sub: "call_targets bin \<subseteq> (\<lambda>a. ai_target (the (the (disasm_at bin a)))) ` ?D"
  proof
    fix t assume "t \<in> call_targets bin"
    then obtain a i where "t = ai_target i" "disasm_at bin a = Some (Some i)" by (auto simp: call_targets_def)
    moreover from this decoded_addresses [of bin] have "a \<in> ?D" by blast
    ultimately show "t \<in> (\<lambda>a. ai_target (the (the (disasm_at bin a)))) ` ?D" by force
  qed
  have fin: "finite ?D" by simp
  have "card (call_targets bin) \<le> card ((\<lambda>a. ai_target (the (the (disasm_at bin a)))) ` ?D)"
    by (rule card_mono [OF finite_imageI [OF fin] sub])
  also have "\<dots> \<le> card ?D" by (rule card_image_le [OF fin])
  finally show ?thesis using D finite_subset [OF sub finite_imageI [OF fin]] by simp
qed

text \<open>On x86-64 no address is unsafe, and \<open>discover_depth\<close> is deep enough.\<close>

lemma discover_recursive_x64:
  assumes "bin_arch bin = E9_ARCH_X86_64" and "unat (bin_base_address bin) + length (bin_data bin) < 2 ^ 64"
  shows "\<exists>new. discover_recursive (discover_depth bin) (disasm_at bin) start fs = Some (new @ fs) \<and>
    discovered (disasm_at bin) fs new \<and> fn_covered (new @ fs) start"
proof (rule an.discover_recursive_total [OF assms(2)])
  show "disasm_at bin a \<noteq> None" for a
    using disasm_x64_total [of bin a] assms(1) by (auto simp: disasm_at_def)
  show "finite (insert start (call_targets bin))" using call_targets_card [of bin] by simp
  show "ai_target i \<in> insert start (call_targets bin)"
    if "disasm_at bin a = Some (Some i)" "ai_category i = E9_INSN_CALL" for a i
    using that by (auto simp: call_targets_def)
  have "card (insert start (call_targets bin) - addrs fs) \<le> card (insert start (call_targets bin))"
    using call_targets_card [of bin] by (intro card_mono) auto
  also have "\<dots> \<le> Suc (card (call_targets bin))" by (rule card_insert_le_m1) simp_all
  also have "\<dots> < discover_depth bin" using call_targets_card [of bin] by (simp add: discover_depth_def)
  finally show "card (insert start (call_targets bin) - addrs fs) < discover_depth bin" .
qed simp

section \<open>Symbols and prologues\<close>

lemma covered_same_extent:
  "map (\<lambda>f. (fn_address f, fn_end_address f)) xs = map (\<lambda>f. (fn_address f, fn_end_address f)) ys \<Longrightarrow>
   fn_covered xs a = fn_covered ys a"
proof (induction xs arbitrary: ys)
  case Nil
  then show ?case by simp
next
  case (Cons x xs)
  from Cons.prems obtain y zs where ys: "ys = y # zs" "fn_address x = fn_address y" "fn_end_address x = fn_end_address y"
    and "map (\<lambda>f. (fn_address f, fn_end_address f)) xs = map (\<lambda>f. (fn_address f, fn_end_address f)) zs"
    by (cases ys) auto
  from Cons.IH [OF this(4)] ys show ?case by (simp add: fn_covers_def)
qed

lemma function_add_props:
  assumes "(k, fs') = function_add a name fs"
  shows "k < length fs' \<and> fn_address (elem_at k fs') = a \<and> fn_covered fs' a \<and> (\<forall>x. fn_covered fs x \<longrightarrow> fn_covered fs' x)"
proof (cases "\<exists>j. function_at a fs = Some j \<and> fn_address (elem_at j fs) = a")
  case True
  then obtain j where j: "function_at a fs = Some j" "fn_address (elem_at j fs) = a" by blast
  then have "fn_covered fs a" using function_at_None [of a fs] by simp
  with j function_at_Some [OF j(1)] assms show ?thesis by (simp add: function_add_def)
next
  case False
  then have "function_add a name fs = (length fs, new_function a name # fs)"
    by (auto simp: function_add_def split: option.split)
  with assms show ?thesis by (simp add: elem_at_new new_function_def fn_covers_def)
qed

lemma discover_symbols_covers:
  "(\<forall>x. fn_covered fs x \<longrightarrow> fn_covered (discover_symbols ss fs) x) \<and>
   (\<forall>s \<in> set ss. sy_type s = E9_SYM_FUNCTION \<longrightarrow> fn_covered (discover_symbols ss fs) (sy_address s))"
proof (induction ss arbitrary: fs)
  case Nil
  then show ?case by simp
next
  case (Cons s ss)
  show ?case
  proof (cases "sy_type s = E9_SYM_FUNCTION")
    case False
    with Cons [of fs] show ?thesis by auto
  next
    case True
    obtain k fs1 where add: "(k, fs1) = function_add (sy_address s) (sy_name s) fs"
      by (metis surj_pair)
    let ?g = "\<lambda>f. f\<lparr>fn_symbol := Some (length ss), fn_size := ucast (sy_size s)\<rparr>"
    note p = function_add_props [OF add]
    have c: "fn_covered (elem_update k ?g fs1) x = fn_covered fs1 x" for x
      by (rule covered_same_extent, rule map_elem_update) (use p in auto)
    from Cons [of "elem_update k ?g fs1"] p True show ?thesis
      by (auto simp: c add [symmetric])
  qed
qed

lemma is_prologue_total:
  assumes "off + 16 \<le> length d"
  shows "\<exists>p. is_prologue E9_ARCH_X86_64 d off = Some p"
proof -
  have "rd8 d (off + j) = Some (d ! (off + j))" if "j < 4" for j using assms that by (simp add: rd8_def)
  from this [of 0] this [of 1] this [of 2] this [of 3] show ?thesis by (simp add: is_prologue_def)
qed

lemma scan_section_total:
  assumes rec: "\<And>a gs. \<exists>new. rec a gs = Some (new @ gs) \<and> discovered dis gs new"
    and e: "unat endp + 16 < 2 ^ 64"
  shows "base \<le> addr \<Longrightarrow> \<exists>new. scan_text rec E9_ARCH_X86_64 d base endp addr fs = Some (new @ fs) \<and> discovered dis fs new"
proof (induction "2 ^ 64 - unat addr" arbitrary: addr fs rule: less_induct)
  case less
  show ?case
  proof (cases "addr < endp")
    case False
    then show ?thesis by (subst scan_text.simps) (auto intro: exI [of _ "[]"])
  next
    case True
    then have a: "unat addr + 16 < 2 ^ 64" using e by (simp add: word_less_nat_alt)
    have nx: "unat (addr + 16) = unat addr + 16" "unat (addr + 1) = unat addr + 1"
      using unat_add_small [of addr 16] unat_add_small [of addr 1] a by simp_all
    have le: "base \<le> addr + 16" "base \<le> addr + 1"
      using less.prems nx by (simp_all add: word_le_nat_alt)
    show ?thesis
    proof (cases "function_at addr fs = None")
      case False
      have "\<exists>new. scan_text rec E9_ARCH_X86_64 d base endp (addr + 16) fs = Some (new @ fs) \<and> discovered dis fs new"
        by (rule less.hyps) (use nx a le in simp_all)
      with True False show ?thesis by (subst scan_text.simps) auto
    next
      case none: True
      define off where "off = (if base \<noteq> 0 then addr - base else addr)"
      have off: "unat off \<le> unat addr" using less.prems by (auto simp: off_def unat_sub word_le_nat_alt)
      show ?thesis
      proof (cases "length d < unat (off + 16)")
        case out: True
        with True none show ?thesis
          by (subst scan_text.simps) (auto simp: Let_def off_def intro: exI [of _ "[]"])
      next
        case False
        have "unat (off + 16) = unat off + 16" using unat_add_small [of off 16] off a by simp
        with False is_prologue_total [of "unat off" d] obtain p
          where p: "is_prologue E9_ARCH_X86_64 d (unat off) = Some p" by auto
        from rec [of addr fs] obtain new where
          new: "(if p then rec addr fs else Some fs) = Some (new @ fs)" "discovered dis fs new"
          by (cases p) (auto intro: that [of "[]"])
        have "\<exists>new'. scan_text rec E9_ARCH_X86_64 d base endp (addr + 1) (new @ fs) = Some (new' @ new @ fs) \<and>
            discovered dis (new @ fs) new'"
          by (rule less.hyps) (use nx a le in simp_all)
        then obtain new' where n': "scan_text rec E9_ARCH_X86_64 d base endp (addr + 1) (new @ fs) = Some (new' @ new @ fs)"
          "discovered dis (new @ fs) new'" by blast
        have "scan_text rec E9_ARCH_X86_64 d base endp addr fs = Some ((new' @ new) @ fs)"
          using True none False p new(1) n'(1)
          by (subst scan_text.simps) (simp add: Let_def off_def scan_step_def)
        with discovered_append [OF new(2) n'(2)] show ?thesis by blast
      qed
    qed
  qed
qed

text \<open>
  The sections are sound for the scan: their addresses do not reach the end of the address space
  and do not lie below the base address.
\<close>

definition sections_scannable :: "'a E9Binary_scheme \<Rightarrow> bool" where
  "sections_scannable bin \<longleftrightarrow>
     (\<forall>s \<in> set (bin_sections bin). sec_name s = text_name \<longrightarrow>
        unat (sec_addr s + sec_size s) + 16 < 2 ^ 64 \<and> bin_base_address bin \<le> sec_addr s)"

lemma discover_heuristic_total:
  assumes rec: "\<And>a gs. \<exists>new. rec a gs = Some (new @ gs) \<and> discovered dis gs new"
    and x: "bin_arch bin = E9_ARCH_X86_64" and s: "sections_scannable bin"
  shows "\<exists>new. discover_heuristic rec bin fs = Some (new @ fs) \<and> discovered dis fs new"
proof -
  let ?step = "\<lambda>s fs. if sec_name s \<noteq> text_name then Some fs
        else scan_text rec (bin_arch bin) (bin_data bin) (bin_base_address bin)
               (sec_addr s + sec_size s) (sec_addr s) fs"
  have "\<exists>fs'. mfold ?step (bin_sections bin) fs = Some fs' \<and> (\<exists>new. fs' = new @ fs \<and> discovered dis fs new)"
  proof (rule mfold_defined)
    show "\<exists>new. fs = new @ fs \<and> discovered dis fs new" by (intro exI [of _ "[]"]) simp
  next
    fix sec gs assume m: "sec \<in> set (bin_sections bin)" and "\<exists>new. gs = new @ fs \<and> discovered dis fs new"
    then obtain new where new: "gs = new @ fs" "discovered dis fs new" by blast
    show "\<exists>s'. ?step sec gs = Some s' \<and> (\<exists>new. s' = new @ fs \<and> discovered dis fs new)"
    proof (cases "sec_name sec = text_name")
      case False
      with new show ?thesis by auto
    next
      case True
      with s m have "unat (sec_addr sec + sec_size sec) + 16 < 2 ^ 64" "bin_base_address bin \<le> sec_addr sec"
        by (auto simp: sections_scannable_def)
      from scan_section_total [of rec dis, OF rec this] obtain new' where
        "scan_text rec E9_ARCH_X86_64 (bin_data bin) (bin_base_address bin) (sec_addr sec + sec_size sec)
           (sec_addr sec) gs = Some (new' @ gs)" "discovered dis gs new'" by blast
      with True x new discovered_append [of dis fs new new'] show ?thesis by auto
    qed
  qed
  then show ?thesis by (auto simp: discover_heuristic_def intro: exI [of _ "[]"])
qed

section \<open>What discovery preserves\<close>

lemma discover_loop_all:
  assumes "discover_loop rec dis start k addr fs = Some (addr', fs')" and "\<forall>f \<in> set fs. P f"
    and rec: "\<And>a fs fs'. rec a fs = Some fs' \<Longrightarrow> \<forall>f \<in> set fs. P f \<Longrightarrow> \<forall>f \<in> set fs'. P f"
    and upd: "\<And>f a. P f \<Longrightarrow> P (f\<lparr>fn_end_address := a\<rparr>)"
  shows "\<forall>f \<in> set fs'. P f"
proof -
  have "rec = rec \<longrightarrow> (\<forall>f \<in> set fs. P f) \<longrightarrow> (\<forall>f \<in> set (snd (addr', fs')). P f)"
  proof (rule discover_loop.raw_induct [where P = "\<lambda>r d s k a fs res. r = rec \<longrightarrow> (\<forall>f \<in> set fs. P f) \<longrightarrow> (\<forall>f \<in> set (snd res). P f)",
        OF _ assms(1)], intro impI)
    fix loop r d s k a fs res
    assume IH: "\<And>r d s k a fs res. loop r d s k a fs = Some res \<Longrightarrow>
        r = rec \<longrightarrow> (\<forall>f \<in> set fs. P f) \<longrightarrow> (\<forall>f \<in> set (snd res). P f)"
      and eq: "(if a < s + 0x10000 then do {
        o' \<leftarrow> d a;
        case o' of
          None \<Rightarrow> Some (a, fs)
        | Some i \<Rightarrow>
            let nxt = a + word_of_nat (ai_size i) in
            if ai_category i = E9_INSN_RET then
              Some (a, elem_update k (\<lambda>f. f\<lparr>fn_end_address := nxt\<rparr>) fs)
            else do {
              fs \<leftarrow> (if ai_category i = E9_INSN_CALL then r (ai_target i) fs else Some fs);
              if ai_category i = E9_INSN_JUMP \<and> \<not> ai_is_conditional i \<and>
                  (ai_target i < s \<or> s + 0x10000 < ai_target i)
              then Some (a, elem_update k (\<lambda>f. f\<lparr>fn_end_address := nxt\<rparr>) fs)
              else loop r d s k nxt fs
            }
      } else Some (a, fs)) = Some res"
      and r: "r = rec" and fs: "\<forall>f \<in> set fs. P f"
    show "\<forall>f \<in> set (snd res). P f"
    proof (cases "a < s + 0x10000")
      case False
      then have "Some (a, fs) = Some res" using eq by (simp only: if_False)
      with fs show ?thesis by auto
    next
      case True
      with eq obtain o' where o: "d a = Some o'" by (cases "d a") simp_all
      show ?thesis
      proof (cases o')
        case None
        with eq True o fs show ?thesis by auto
      next
        case (Some i)
        let ?n = "a + word_of_nat (ai_size i)"
        show ?thesis
        proof (cases "ai_category i = E9_INSN_RET")
          case ret: True
          with eq True o Some have "res = (a, elem_update k (\<lambda>f. f\<lparr>fn_end_address := ?n\<rparr>) fs)" by simp
          with elem_update_all [OF fs, of "\<lambda>f. f\<lparr>fn_end_address := ?n\<rparr>"] upd show ?thesis by simp
        next
          case False
          from eq True o Some False obtain gs where gs: "(if ai_category i = E9_INSN_CALL then r (ai_target i) fs else Some fs) = Some gs"
            and res: "(if ai_category i = E9_INSN_JUMP \<and> \<not> ai_is_conditional i \<and> (ai_target i < s \<or> s + 0x10000 < ai_target i)
              then Some (a, elem_update k (\<lambda>f. f\<lparr>fn_end_address := ?n\<rparr>) gs) else loop r d s k ?n gs) = Some res"
            by (auto simp: Let_def Option.bind_eq_Some_conv)
          have gP: "\<forall>f \<in> set gs. P f" using gs fs rec r by (auto split: if_splits)
          show ?thesis
          proof (cases "ai_category i = E9_INSN_JUMP \<and> \<not> ai_is_conditional i \<and> (ai_target i < s \<or> s + 0x10000 < ai_target i)")
            case True
            with res have "res = (a, elem_update k (\<lambda>f. f\<lparr>fn_end_address := ?n\<rparr>) gs)" by simp
            with elem_update_all [OF gP, of "\<lambda>f. f\<lparr>fn_end_address := ?n\<rparr>"] upd show ?thesis by simp
          next
            case False
            with res have "loop r d s k ?n gs = Some res" by (simp only: if_False)
            with IH r gP show ?thesis by blast
          qed
        qed
      qed
    qed
  qed
  with assms(2) show ?thesis by simp
qed


text \<open>A property of functions that new functions have and that no step of the discovery destroys.\<close>

definition discovery_keeps :: "(E9Function \<Rightarrow> bool) \<Rightarrow> bool" where
  "discovery_keeps P \<longleftrightarrow>
     (\<forall>a. P (new_function a None)) \<and> (\<forall>f a. P f \<longrightarrow> P (f\<lparr>fn_end_address := a\<rparr>)) \<and>
     (\<forall>f a. P f \<longrightarrow> P (f\<lparr>fn_size := a\<rparr>))"

lemma discover_recursive_all:
  assumes "discovery_keeps P"
  shows "discover_recursive depth dis start fs = Some fs' \<Longrightarrow> \<forall>f \<in> set fs. P f \<Longrightarrow> \<forall>f \<in> set fs'. P f"
proof (induction depth arbitrary: start fs fs')
  case 0
  then show ?case by simp
next
  case (Suc depth)
  have new: "P (new_function a None)" and upd: "P f \<Longrightarrow> P (f\<lparr>fn_end_address := a\<rparr>)" and sz: "P f \<Longrightarrow> P (f\<lparr>fn_size := n\<rparr>)" for a f n
    using assms by (simp_all add: discovery_keeps_def)
  have close: "P f \<Longrightarrow> P (close_function a f)" for f a
    using upd sz by (simp add: close_function_def)
  show ?case
  proof (cases "function_at start fs = None")
    case False
    with Suc.prems show ?thesis by simp
  next
    case True
    then have add: "function_add start None fs = (length fs, new_function start None # fs)"
      by (simp add: function_add_def)
    from Suc.prems(1) True obtain addr gs where gs:
      "discover_loop (discover_recursive depth dis) dis start (length fs) start (new_function start None # fs) = Some (addr, gs)"
      "fs' = elem_update (length fs) (close_function addr) gs"
      by (auto simp: add Option.bind_eq_Some_conv)
    have "\<forall>f \<in> set gs. P f"
      by (rule discover_loop_all [OF gs(1)]) (use Suc.prems(2) Suc.IH new upd in auto)
    then show ?thesis unfolding gs(2) by (rule elem_update_all) (rule close)
  qed
qed

lemma scan_text_all:
  assumes "scan_text rec arch d base endp addr fs = Some fs'" and "\<forall>f \<in> set fs. P f"
    and rec: "\<And>a fs fs'. rec a fs = Some fs' \<Longrightarrow> \<forall>f \<in> set fs. P f \<Longrightarrow> \<forall>f \<in> set fs'. P f"
  shows "\<forall>f \<in> set fs'. P f"
proof -
  have "rec = rec \<longrightarrow> (\<forall>f \<in> set fs. P f) \<longrightarrow> (\<forall>f \<in> set fs'. P f)"
  proof (rule scan_text.raw_induct [where P = "\<lambda>r ar d b e a fs res. r = rec \<longrightarrow> (\<forall>f \<in> set fs. P f) \<longrightarrow> (\<forall>f \<in> set res. P f)",
        OF _ assms(1)], intro impI)
    fix loop r ar d b e a fs res
    assume IH: "\<And>r ar d b e a fs res. loop r ar d b e a fs = Some res \<Longrightarrow>
        r = rec \<longrightarrow> (\<forall>f \<in> set fs. P f) \<longrightarrow> (\<forall>f \<in> set res. P f)"
      and eq: "(if a < e then
        if function_at a fs \<noteq> None then loop r ar d b e (a + 16) fs
        else
          let offset = (if b \<noteq> 0 then a - b else a) in
          if length d < unat (offset + 16) then Some fs
          else do {
            p \<leftarrow> is_prologue ar d (unat offset);
            fs \<leftarrow> (if p then r a fs else Some fs);
            loop r ar d b e (a + scan_step ar) fs
          }
      else Some fs) = Some res"
      and r: "r = rec" and fs: "\<forall>f \<in> set fs. P f"
    let ?o = "if b \<noteq> 0 then a - b else a"
    show "\<forall>f \<in> set res. P f"
    proof (cases "a < e")
      case False
      then have "Some fs = Some res" using eq by (simp only: if_False)
      with fs show ?thesis by simp
    next
      case lt: True
      show ?thesis
      proof (cases "function_at a fs = None")
        case False
        with eq lt have "loop r ar d b e (a + 16) fs = Some res" by simp
        with IH r fs show ?thesis by blast
      next
        case True
        show ?thesis
        proof (cases "length d < unat (?o + 16)")
          case True
          with eq lt \<open>function_at a fs = None\<close> have "fs = res" by (simp add: Let_def)
          with fs show ?thesis by simp
        next
          case False
          with eq lt True obtain p gs where g: "(if p then r a fs else Some fs) = Some gs"
            "loop r ar d b e (a + scan_step ar) gs = Some res"
            by (auto simp: Let_def Option.bind_eq_Some_conv simp del: not_less split del: if_split)
          have "\<forall>f \<in> set gs. P f" using g(1) fs rec r by (auto split: if_splits)
          with IH g(2) r show ?thesis by blast
        qed
      qed
    qed
  qed
  with assms(2) show ?thesis by simp
qed

lemma mfold_all:
  assumes "mfold g xs fs = Some fs'" and "\<forall>f \<in> set fs. P f"
    and "\<And>x fs fs'. g x fs = Some fs' \<Longrightarrow> \<forall>f \<in> set fs. P f \<Longrightarrow> \<forall>f \<in> set fs'. P f"
  shows "\<forall>f \<in> set fs'. P f"
  using assms(1,2)
proof (induction xs arbitrary: fs)
  case Nil
  then show ?case by simp
next
  case (Cons x xs)
  then obtain gs where "g x fs = Some gs" "mfold g xs gs = Some fs'" by (auto simp: Option.bind_eq_Some_conv)
  with Cons assms(3) show ?case by blast
qed

lemma functions_discover_all:
  assumes "functions_discover bin = Some fs'" and "discovery_keeps P"
    and "\<forall>f \<in> set (discover_symbols (an_symbols bin) (an_functions bin)). P f"
  shows "\<forall>f \<in> set fs'. P f"
proof -
  let ?rec = "discover_recursive (discover_depth bin) (disasm_at bin)"
  let ?fs = "discover_symbols (an_symbols bin) (an_functions bin)"
  have rec: "\<And>a fs fs'. ?rec a fs = Some fs' \<Longrightarrow> \<forall>f \<in> set fs. P f \<Longrightarrow> \<forall>f \<in> set fs'. P f"
    by (rule discover_recursive_all [OF assms(2)])
  from assms(1) obtain gs where gs: "(if an_entry_point bin \<noteq> 0 then ?rec (an_entry_point bin) ?fs else Some ?fs) = Some gs"
    "discover_heuristic ?rec bin gs = Some fs'"
    by (auto simp: functions_discover_def Let_def Option.bind_eq_Some_conv)
  have g: "\<forall>f \<in> set gs. P f" using gs(1) rec assms(3) by (auto split: if_splits)
  show ?thesis
  proof (cases "an_format bin = E9_FORMAT_RAW")
    case True
    with gs(2) g show ?thesis by (simp add: discover_heuristic_def)
  next
    case False
    with gs(2) have "mfold (\<lambda>s fs. if sec_name s \<noteq> text_name then Some fs
        else scan_text ?rec (bin_arch bin) (bin_data bin) (bin_base_address bin)
               (sec_addr s + sec_size s) (sec_addr s) fs) (bin_sections bin) gs = Some fs'"
      by (simp add: discover_heuristic_def)
    then show ?thesis
    proof (rule mfold_all [OF _ g])
      fix s fs fs'
      assume "(if sec_name s \<noteq> text_name then Some fs
        else scan_text ?rec (bin_arch bin) (bin_data bin) (bin_base_address bin)
               (sec_addr s + sec_size s) (sec_addr s) fs) = Some fs'" "\<forall>f \<in> set fs. P f"
      then show "\<forall>f \<in> set fs'. P f" using scan_text_all [OF _ _ rec] by (auto split: if_splits)
    qed
  qed
qed

section \<open>Properties\<close>

text \<open>
  C2.  Function discovery on x86-64 terminates within the depth bound and never leaves the file,
  for every image and section table that does not wrap around the address space.  It only adds
  functions, at new and pairwise distinct addresses; every function it adds is closed: each
  direct call in its body leads to a known function.  The address of every function symbol and
  the entry point belong to a function afterwards.
\<close>

theorem functions_discover_closed:
  assumes "bin_arch bin = E9_ARCH_X86_64" and "unat (bin_base_address bin) + length (bin_data bin) < 2 ^ 64"
    and "sections_scannable bin"
  shows "\<exists>new. e9_functions_discover (Some bin) =
      Some (0, Some (bin\<lparr>an_functions := new @ discover_symbols (an_symbols bin) (an_functions bin)\<rparr>)) \<and>
    discovered (disasm_at bin) (discover_symbols (an_symbols bin) (an_functions bin)) new \<and>
    (\<forall>s \<in> set (an_symbols bin). sy_type s = E9_SYM_FUNCTION \<longrightarrow>
       fn_covered (new @ discover_symbols (an_symbols bin) (an_functions bin)) (sy_address s)) \<and>
    (an_entry_point bin \<noteq> 0 \<longrightarrow>
       fn_covered (new @ discover_symbols (an_symbols bin) (an_functions bin)) (an_entry_point bin))"
proof -
  let ?rec = "discover_recursive (discover_depth bin) (disasm_at bin)" and ?dis = "disasm_at bin"
  define fs where "fs = discover_symbols (an_symbols bin) (an_functions bin)"
  note rec = discover_recursive_x64 [OF assms(1,2)]
  from rec [of "an_entry_point bin" fs] obtain n1 where
    n1: "(if an_entry_point bin \<noteq> 0 then ?rec (an_entry_point bin) fs else Some fs) = Some (n1 @ fs)" "discovered ?dis fs n1"
      "an_entry_point bin \<noteq> 0 \<longrightarrow> fn_covered (n1 @ fs) (an_entry_point bin)"
    by (cases "an_entry_point bin = 0") (auto intro: that [of "[]"])
  from discover_heuristic_total [of ?rec ?dis bin "n1 @ fs"] rec assms obtain n2 where
    n2: "discover_heuristic ?rec bin (n1 @ fs) = Some (n2 @ n1 @ fs)" "discovered ?dis (n1 @ fs) n2" by blast
  have "functions_discover bin = Some ((n2 @ n1) @ fs)"
    unfolding functions_discover_def Let_def fs_def [symmetric] using n1(1) n2(1) by simp
  moreover have "discovered ?dis fs (n2 @ n1)" by (rule discovered_append [OF n1(2) n2(2)])
  moreover have "fn_covered ((n2 @ n1) @ fs) (sy_address s)" if "s \<in> set (an_symbols bin)" "sy_type s = E9_SYM_FUNCTION" for s
    using discover_symbols_covers [of "an_functions bin" "an_symbols bin"] that by (auto simp: fs_def)
  ultimately show ?thesis using n1(3)
    by (intro exI [of _ "n2 @ n1"]) (auto simp: e9_functions_discover_def fs_def)
qed

text \<open>Code that calls forward, jumps over the second function and calls the third.\<close>

definition discover_demo :: E9Analysis where
  "discover_demo =
     (case e9_binary_create (Some [0xE8, 0x03, 0, 0, 0, 0xC3, 0x90, 0x90, 0xE8, 0xF3, 0xFF, 0xFF, 0xFF,
        0xE8, 0, 0, 0, 0, 0xC3, 0x90]) of
        Some bin \<Rightarrow> bin\<lparr>bin_arch := E9_ARCH_X86_64, bin_base_address := 0x1000, an_entry_point := 0x1000\<rparr>)"

lemma functions_discover_closed_witness:
  "\<exists>new. e9_functions_discover (Some discover_demo) =
      Some (0, Some (discover_demo\<lparr>an_functions := new @ discover_symbols (an_symbols discover_demo) (an_functions discover_demo)\<rparr>)) \<and>
    discovered (disasm_at discover_demo) (discover_symbols (an_symbols discover_demo) (an_functions discover_demo)) new \<and>
    (\<forall>s \<in> set (an_symbols discover_demo). sy_type s = E9_SYM_FUNCTION \<longrightarrow>
       fn_covered (new @ discover_symbols (an_symbols discover_demo) (an_functions discover_demo)) (sy_address s)) \<and>
    (an_entry_point discover_demo \<noteq> 0 \<longrightarrow>
       fn_covered (new @ discover_symbols (an_symbols discover_demo) (an_functions discover_demo)) (an_entry_point discover_demo))"
  by (rule functions_discover_closed) (simp_all add: discover_demo_def e9_binary_create_def sections_scannable_def)

text \<open>
  e9_function_add does not keep the addresses distinct.  Its duplicate check looks at the
  first function that covers the address only: once a newer function covers the address of an
  older one, adding that address again creates a second function there.
\<close>

theorem function_add_duplicates:
  assumes "function_at addr fs = Some k" and "fn_address (elem_at k fs) \<noteq> addr" and "addr \<in> addrs fs"
  shows "\<not> distinct (map fn_address (snd (function_add addr name fs)))"
proof -
  have "snd (function_add addr name fs) = new_function addr name # fs"
    using assms(1,2) by (simp add: function_add_def)
  with assms(3) show ?thesis by (auto simp: addrs_def new_function_def)
qed

lemma function_add_duplicates_witness:
  "\<exists>fs. discover_recursive 5 (disasm_at (insn_demo E9_ARCH_X86_64 [0x90, 0x90, 0xC3])) 0x1000
      (snd (function_add 0x1001 None [])) = Some fs \<and>
    \<not> distinct (map fn_address (snd (function_add 0x1001 None fs)))"
proof -
  define fs where "fs = (case discover_recursive 5 (disasm_at (insn_demo E9_ARCH_X86_64 [0x90, 0x90, 0xC3])) 0x1000
      (snd (function_add 0x1001 None [])) of Some fs \<Rightarrow> fs | None \<Rightarrow> [])"
  have "fs = [(new_function 0x1000 None)\<lparr>fn_end_address := 0x1003, fn_size := 3\<rparr>, new_function 0x1001 None] \<and>
      discover_recursive 5 (disasm_at (insn_demo E9_ARCH_X86_64 [0x90, 0x90, 0xC3])) 0x1000
      (snd (function_add 0x1001 None [])) \<noteq> None"
    unfolding fs_def by code_simp
  then have fs: "discover_recursive 5 (disasm_at (insn_demo E9_ARCH_X86_64 [0x90, 0x90, 0xC3])) 0x1000
      (snd (function_add 0x1001 None [])) = Some fs"
    and l: "fs = [(new_function 0x1000 None)\<lparr>fn_end_address := 0x1003, fn_size := 3\<rparr>, new_function 0x1001 None]"
    by (auto simp: fs_def)
  have "\<not> distinct (map fn_address (snd (function_add 0x1001 None fs)))"
    by (rule function_add_duplicates [where k = 1]) (simp_all add: l fn_covers_def new_function_def elem_at_def)
  with fs show ?thesis by blast
qed

end
