(* ===== verification/E9AnPipeline.thy ===== *)
theory E9AnPipeline
  imports E9Detect E9Discover E9SymTab
begin

text \<open>
  The analysis pipeline of \<open>src/src/e9patch/analysis/e9analysis.c\<close>: \<open>e9_binary_analyze\<close> with
  the passes that have no theory of their own (calling conventions, DWARF, source mappings) and
  the lookups over its results.
\<close>

section \<open>Registers\<close>

definition x64_reg_names :: "string list" where
  "x64_reg_names =
     [''rax'', ''rbx'', ''rcx'', ''rdx'', ''rsi'', ''rdi'', ''rbp'', ''rsp'',
      ''r8'', ''r9'', ''r10'', ''r11'', ''r12'', ''r13'', ''r14'', ''r15'', ''rip'', ''rflags'']"

definition a64_reg_names :: "string list" where
  "a64_reg_names =
     [''x0'', ''x1'', ''x2'', ''x3'', ''x4'', ''x5'', ''x6'', ''x7'',
      ''x8'', ''x9'', ''x10'', ''x11'', ''x12'', ''x13'', ''x14'', ''x15'',
      ''x16'', ''x17'', ''x18'', ''x19'', ''x20'', ''x21'', ''x22'', ''x23'',
      ''x24'', ''x25'', ''x26'', ''x27'', ''x28'', ''x29'', ''x30'', ''sp'', ''pc'', ''nzcv'']"

definition E9_REG_X64_COUNT :: int where "E9_REG_X64_COUNT = 18"
definition E9_REG_A64_COUNT :: int where "E9_REG_A64_COUNT = 34"

definition e9_reg_name :: "E9Arch \<Rightarrow> int \<Rightarrow> string" where
  "e9_reg_name arch reg =
     (case arch of
        E9_ARCH_X86_64 \<Rightarrow> if 0 \<le> reg \<and> reg < E9_REG_X64_COUNT then x64_reg_names ! nat reg else ''???''
      | E9_ARCH_AARCH64 \<Rightarrow> if 0 \<le> reg \<and> reg < E9_REG_A64_COUNT then a64_reg_names ! nat reg else ''???''
      | _ \<Rightarrow> ''???'')"

text \<open>The argument registers, as numbers of \<open>E9RegX64\<close> and \<open>E9RegA64\<close>: RDI is 5, RSI 4, RDX 3, RCX 2.\<close>

definition e9_cc_arg_regs :: "E9Arch \<Rightarrow> E9CallConv \<Rightarrow> int list" where
  "e9_cc_arg_regs arch cc =
     (case arch of
        E9_ARCH_X86_64 \<Rightarrow> if cc = E9_CC_MS_X64 then [2, 3, 8, 9] else [5, 4, 3, 2, 8, 9]
      | E9_ARCH_AARCH64 \<Rightarrow> [0, 1, 2, 3, 4, 5, 6, 7]
      | _ \<Rightarrow> [])"

definition e9_cc_ret_reg :: "E9Arch \<Rightarrow> E9CallConv \<Rightarrow> int" where
  "e9_cc_ret_reg arch cc =
     (if arch = E9_ARCH_X86_64 then 0 else if arch = E9_ARCH_AARCH64 then 0 else -1)"

section \<open>Calling conventions\<close>

text \<open>The instructions of the entry block; empty also where there is no block.\<close>

definition entry_insns :: "E9Function \<Rightarrow> AInsn list" where
  "entry_insns f =
     (case fn_cfg f of
        None \<Rightarrow> []
      | Some cfg \<Rightarrow> (case cfg_entry cfg of None \<Rightarrow> [] | Some k \<Rightarrow> bb_insns (cfg_blocks cfg ! k)))"

definition analyze_calling_convention :: "E9Analysis \<Rightarrow> E9Function \<Rightarrow> E9Function" where
  "analyze_calling_convention bin f =
     (let insns = entry_insns f; leaf = (\<forall>i \<in> set insns. ai_category i \<noteq> E9_INSN_CALL) in
      if insns = [] then f
      else if bin_arch bin = E9_ARCH_X86_64 then
        f\<lparr>fn_calling_convention := (if an_format bin = E9_FORMAT_PE then E9_CC_MS_X64 else E9_CC_SYSV_AMD64),
          fn_is_leaf := leaf\<rparr>
      else if bin_arch bin = E9_ARCH_AARCH64 then f\<lparr>fn_calling_convention := E9_CC_AAPCS64, fn_is_leaf := leaf\<rparr>
      else f)"

section \<open>DWARF and source mappings\<close>

text \<open>The parser only looks for the line table.\<close>

definition e9_dwarf_parse :: "E9Analysis ptr \<Rightarrow> int" where
  "e9_dwarf_parse b =
     (case b of
        None \<Rightarrow> -1
      | Some bin \<Rightarrow>
          if \<not> an_has_debug_info bin \<or> an_format bin \<noteq> E9_FORMAT_ELF then -1
          else
            let line_off = fold (\<lambda>s off. if sec_name s = str_bytes ''.debug_info'' then off
                  else if sec_name s = str_bytes ''.debug_line'' then sec_addr s else off) (bin_sections bin) 0
            in if line_off = 0 then -1 else 0)"

definition map_covers :: "u64 \<Rightarrow> E9SourceMapping \<Rightarrow> bool" where
  "map_covers addr m \<longleftrightarrow> map_address m \<le> addr \<and> addr < map_address m + ucast (map_size m)"

definition map_is_line :: "bytes \<Rightarrow> u32 \<Rightarrow> E9SourceMapping \<Rightarrow> bool" where
  "map_is_line file line m \<longleftrightarrow> map_line m = line \<and> map_source_file m = Some file"

text \<open>\<open>strncpy\<close> into a buffer of \<open>n\<close> bytes, the last of them zero.\<close>

definition copy_name :: "bytes \<Rightarrow> nat \<Rightarrow> bytes" where
  "copy_name name n = take (n - 1) (name @ replicate n 0) @ [0]"

text \<open>The result, the file buffer and the line and column, where they are written.\<close>

definition e9_dwarf_addr_to_line ::
  "E9Analysis ptr \<Rightarrow> u64 \<Rightarrow> bytes ptr \<Rightarrow> int \<times> bytes ptr \<times> (u32 \<times> u32) ptr" where
  "e9_dwarf_addr_to_line b addr file =
     (case b of
        None \<Rightarrow> (-1, file, None)
      | Some bin \<Rightarrow>
          (case find (map_covers addr) (an_mappings bin) of
             None \<Rightarrow> (-1, file, None)
           | Some m \<Rightarrow>
               (0,
                (case (file, map_source_file m) of
                   (Some buf, Some name) \<Rightarrow> Some (if buf = [] then [] else copy_name name (length buf))
                 | _ \<Rightarrow> file),
                Some (map_line m, map_column m))))"

definition e9_dwarf_line_to_addr :: "E9Analysis ptr \<Rightarrow> bytes ptr \<Rightarrow> u32 \<Rightarrow> int \<times> (u64 \<times> u32) ptr" where
  "e9_dwarf_line_to_addr b file line =
     (case (b, file) of
        (Some bin, Some f) \<Rightarrow>
          (case find (map_is_line f line) (an_mappings bin) of
             None \<Rightarrow> (-1, None)
           | Some m \<Rightarrow> (0, Some (map_address m, map_size m)))
      | _ \<Rightarrow> (-1, None))"

text \<open>The local variable of the function at an address.\<close>

definition e9_dwarf_get_variable :: "E9Analysis ptr \<Rightarrow> u64 \<Rightarrow> bytes ptr \<Rightarrow> E9Variable ptr" where
  "e9_dwarf_get_variable b addr name =
     (case (b, name, e9_function_at b addr) of
        (Some bin, Some n, Some k) \<Rightarrow>
          Option.bind (find (\<lambda>v. case v of None \<Rightarrow> False | Some x \<Rightarrow> var_name x = Some n) (fn_locals (elem_at k (an_functions bin)))) id
      | _ \<Rightarrow> None)"

definition function_mapping :: "E9Function \<Rightarrow> E9SourceMapping" where
  "function_mapping f =
     \<lparr>map_source_file = fn_source_file f, map_line = fn_source_line f, map_column = 0,
      map_address = fn_address f, map_size = fn_size f\<rparr>"

definition e9_mapping_build :: "E9Analysis ptr \<Rightarrow> int \<times> E9Analysis ptr" where
  "e9_mapping_build b =
     (case b of
        None \<Rightarrow> (-1, None)
      | Some bin \<Rightarrow>
          if an_has_debug_info bin then (0, b)
          else (0, Some (bin\<lparr>an_mappings := fold (\<lambda>f ms. function_mapping f # ms) (an_functions bin) (an_mappings bin)\<rparr>)))"

definition e9_mapping_line_to_range :: "E9Analysis ptr \<Rightarrow> bytes ptr \<Rightarrow> u32 \<Rightarrow> int \<times> (u64 \<times> u64) ptr" where
  "e9_mapping_line_to_range b file line =
     (case (b, file) of
        (Some bin, Some f) \<Rightarrow>
          (case find (map_is_line f line) (an_mappings bin) of
             None \<Rightarrow> (-1, None)
           | Some m \<Rightarrow> (0, Some (map_address m, map_address m + ucast (map_size m))))
      | _ \<Rightarrow> (-1, None))"

section \<open>\<open>e9_binary_analyze\<close>\<close>

text \<open>Step 4, for every function.\<close>

fun analyze_functions :: "E9Analysis \<Rightarrow> E9Function list \<Rightarrow> E9Function list ub" where
  "analyze_functions bin [] = Some []"
| "analyze_functions bin (f # fs) = do {
     cfg \<leftarrow> e9_cfg_build (Some bin) (Some (fn_address f, fn_end_address f));
     fs' \<leftarrow> analyze_functions bin fs;
     Some (analyze_calling_convention bin (f\<lparr>fn_cfg := cfg\<rparr>) # fs')
   }"

definition analyze_cfgs :: "E9Analysis ptr \<Rightarrow> E9Analysis ptr ub" where
  "analyze_cfgs b =
     (case b of
        None \<Rightarrow> Some None
      | Some bin \<Rightarrow> map_option (\<lambda>fs. Some (bin\<lparr>an_functions := fs\<rparr>)) (analyze_functions bin (an_functions bin)))"

text \<open>The steps after detection; \<open>e9_dwarf_parse\<close> changes nothing and its result is dropped.\<close>

definition analyze_steps :: "E9Analysis ptr \<Rightarrow> E9Analysis ptr ub" where
  "analyze_steps b = do {
     (_, b) \<leftarrow> e9_symbols_parse b;
     (_, b) \<leftarrow> e9_functions_discover b;
     b \<leftarrow> analyze_cfgs b;
     let (_, b) = e9_symbols_auto b;
     let (_, b) = e9_mapping_build b;
     Some b
   }"

definition e9_binary_analyze :: "E9Analysis ptr \<Rightarrow> (int \<times> E9Analysis ptr) ub" where
  "e9_binary_analyze b = do {
     (r, b) \<leftarrow> e9_binary_detect b;
     case b of
       None \<Rightarrow> Some (-1, None)
     | Some bin \<Rightarrow>
         if r \<noteq> 0 \<or> bin_arch bin = E9_ARCH_UNKNOWN then Some (-1, b)
         else map_option (\<lambda>b. (0, b)) (analyze_steps b)
   }"

section \<open>What the passes depend on\<close>

text \<open>The passes after detection read the image only.\<close>

definition same_image :: "E9Analysis \<Rightarrow> E9Analysis \<Rightarrow> bool" where
  "same_image a b \<longleftrightarrow> bin_data b = bin_data a \<and> bin_base_address b = bin_base_address a \<and> bin_arch b = bin_arch a"

lemma disasm_at_same:
  assumes "same_image a b"
  shows "disasm_at b = disasm_at a"
proof -
  from assms have e: "bin_data b = bin_data a" "bin_base_address b = bin_base_address a" "bin_arch b = bin_arch a"
    by (simp_all add: same_image_def)
  show ?thesis
    by (rule ext) (simp only: disasm_at_def disasm_x64_def disasm_aarch64_def insn_offset_def e)
qed

text \<open>A function the pipeline is done with.\<close>

definition analysed :: "E9Analysis \<Rightarrow> E9Function \<Rightarrow> bool" where
  "analysed bin f \<longleftrightarrow>
     fn_symbol f \<noteq> None \<and>
     (\<exists>cfg. fn_cfg f = Some cfg \<and> e9_cfg_build (Some bin) (Some (fn_address f, fn_end_address f)) = Some (Some cfg)) \<and>
     (entry_insns f \<noteq> [] \<and> bin_arch bin \<in> {E9_ARCH_X86_64, E9_ARCH_AARCH64} \<longrightarrow>
        (fn_is_leaf f \<longleftrightarrow> (\<forall>i \<in> set (entry_insns f). ai_category i \<noteq> E9_INSN_CALL)) \<and>
        fn_calling_convention f =
          (if bin_arch bin = E9_ARCH_AARCH64 then E9_CC_AAPCS64
           else if an_format bin = E9_FORMAT_PE then E9_CC_MS_X64 else E9_CC_SYSV_AMD64))"

text \<open>After step 4 a function lacks at most its symbol.\<close>

definition with_cfg :: "E9Analysis \<Rightarrow> E9Function \<Rightarrow> bool" where
  "with_cfg bin f \<longleftrightarrow> analysed bin (f\<lparr>fn_symbol := Some 0\<rparr>)"

lemma convention_keeps:
  "fn_cfg (analyze_calling_convention bin f) = fn_cfg f \<and> fn_address (analyze_calling_convention bin f) = fn_address f \<and>
   fn_end_address (analyze_calling_convention bin f) = fn_end_address f \<and>
   fn_symbol (analyze_calling_convention bin f) = fn_symbol f"
  by (simp add: analyze_calling_convention_def Let_def)

lemma entry_insns_cfg: "fn_cfg g = fn_cfg f \<Longrightarrow> entry_insns g = entry_insns f"
  by (simp add: entry_insns_def)

lemma convention_with_cfg:
  assumes "e9_cfg_build (Some bin) (Some (fn_address f, fn_end_address f)) = Some cfg"
  shows "with_cfg bin (analyze_calling_convention bin (f\<lparr>fn_cfg := cfg\<rparr>))"
proof -
  obtain c where c: "cfg = Some c" using assms by (auto simp: e9_cfg_build_def)
  have e: "entry_insns (f\<lparr>fn_cfg := cfg, fn_calling_convention := x, fn_is_leaf := y, fn_symbol := z\<rparr>) =
      entry_insns (f\<lparr>fn_cfg := cfg\<rparr>)" for x y z by (rule entry_insns_cfg) simp
  show ?thesis
    using assms c e by (auto simp: with_cfg_def analysed_def analyze_calling_convention_def Let_def entry_insns_def)
qed

lemma analyze_functions_result:
  "analyze_functions bin fs = Some fs' \<Longrightarrow>
   (\<forall>f \<in> set fs'. with_cfg bin f) \<and> map fn_address fs' = map fn_address fs \<and> map fn_end_address fs' = map fn_end_address fs"
proof (induction fs arbitrary: fs')
  case Nil
  then show ?case by simp
next
  case (Cons f fs)
  from Cons.prems obtain cfg gs where c: "e9_cfg_build (Some bin) (Some (fn_address f, fn_end_address f)) = Some cfg"
    and gs: "analyze_functions bin fs = Some gs" "fs' = analyze_calling_convention bin (f\<lparr>fn_cfg := cfg\<rparr>) # gs"
    by (auto simp: Option.bind_eq_Some_conv)
  from Cons.IH [OF gs(1)] convention_with_cfg [OF c] gs(2) convention_keeps [of bin "f\<lparr>fn_cfg := cfg\<rparr>"]
  show ?case by simp
qed

lemma analyze_functions_total:
  assumes "\<And>f. f \<in> set fs \<Longrightarrow> e9_cfg_build (Some bin) (Some (fn_address f, fn_end_address f)) \<noteq> None"
  shows "\<exists>fs'. analyze_functions bin fs = Some fs'"
  using assms
proof (induction fs)
  case Nil
  then show ?case by simp
next
  case (Cons f fs)
  from Cons.prems [of f] Cons.IH Cons.prems show ?case by fastforce
qed

lemma with_cfg_same:
  assumes "with_cfg bin f" and "same_image bin bin'" and "an_format bin' = an_format bin"
    and "fn_cfg f' = fn_cfg f" "fn_address f' = fn_address f" "fn_end_address f' = fn_end_address f"
    and "fn_is_leaf f' = fn_is_leaf f" "fn_calling_convention f' = fn_calling_convention f" "fn_symbol f' \<noteq> None"
  shows "analysed bin' f'"
proof -
  have "entry_insns f' = entry_insns (f\<lparr>fn_symbol := Some 0\<rparr>)" using assms(4) by (intro entry_insns_cfg) simp
  with assms disasm_at_same [OF assms(2)] show ?thesis
    by (auto simp: with_cfg_def analysed_def e9_cfg_build_def same_image_def)
qed

lemma fold_mappings: "fold (\<lambda>f ms. function_mapping f # ms) fs ms = rev (map function_mapping fs) @ ms"
  by (induction fs arbitrary: ms) simp_all

lemma symbols_parse_result:
  assumes "e9_symbols_parse (Some bin) = Some (r, b)"
  shows "\<exists>syms. b = Some (bin\<lparr>an_symbols := syms\<rparr>)"
proof -
  have keep: "\<exists>syms. bin = bin\<lparr>an_symbols := syms\<rparr>" by (intro exI [of _ "an_symbols bin"]) simp
  show ?thesis
    using assms keep by (cases "an_format bin")
      (auto simp: e9_symbols_parse_def parse_elf_symbols_def parse_pe_symbols_def Let_def
        Option.bind_eq_Some_conv split: if_splits)
qed

lemma auto_named_keeps:
  "auto_named syms f f' \<Longrightarrow> fn_cfg f' = fn_cfg f \<and> fn_address f' = fn_address f \<and> fn_end_address f' = fn_end_address f \<and>
   fn_is_leaf f' = fn_is_leaf f \<and> fn_calling_convention f' = fn_calling_convention f \<and> fn_symbol f' \<noteq> None"
  by (auto simp: auto_named_def split: if_splits)

text \<open>Steps 2 to 7.\<close>

lemma analyze_steps_result:
  assumes "analyze_steps (Some bin) = Some b"
  shows "\<exists>bin'. b = Some bin' \<and> same_image bin bin' \<and> an_format bin' = an_format bin \<and>
    an_has_debug_info bin' = an_has_debug_info bin \<and> (\<forall>f \<in> set (an_functions bin'). analysed bin' f) \<and>
    an_mappings bin' = (if an_has_debug_info bin then [] else rev (map function_mapping (an_functions bin'))) @ an_mappings bin"
proof -
  from assms obtain r1 b1 r2 b2 b3 where s: "e9_symbols_parse (Some bin) = Some (r1, b1)"
    "e9_functions_discover b1 = Some (r2, b2)" "analyze_cfgs b2 = Some b3"
    "b = snd (e9_mapping_build (snd (e9_symbols_auto b3)))"
    by (auto simp: analyze_steps_def Option.bind_eq_Some_conv Let_def case_prod_unfold)
  from symbols_parse_result [OF s(1)] obtain syms where b1: "b1 = Some (bin\<lparr>an_symbols := syms\<rparr>)" by blast
  with s(2) obtain fs where b2: "b2 = Some (bin\<lparr>an_symbols := syms, an_functions := fs\<rparr>)"
    by (auto simp: e9_functions_discover_def)
  let ?B = "bin\<lparr>an_symbols := syms, an_functions := fs\<rparr>"
  from b2 s(3) obtain gs where gs: "analyze_functions ?B fs = Some gs" "b3 = Some (?B\<lparr>an_functions := gs\<rparr>)"
    by (auto simp: analyze_cfgs_def)
  obtain hs syms' where a: "auto_symbols gs syms = (hs, syms')" by fastforce
  let ?C = "bin\<lparr>an_symbols := syms', an_functions := hs\<rparr>"
  have C: "snd (e9_symbols_auto b3) = Some ?C" by (simp add: gs(2) e9_symbols_auto_def a)
  define ms where "ms = (if an_has_debug_info bin then [] else rev (map function_mapping hs)) @ an_mappings bin"
  have b: "b = Some (?C\<lparr>an_mappings := ms\<rparr>)"
    by (simp add: s(4) C e9_mapping_build_def fold_mappings ms_def)
  have "analysed (?C\<lparr>an_mappings := ms\<rparr>) h" if "h \<in> set hs" for h
  proof -
    have "list_all2 (auto_named syms') gs hs" using auto_symbols_named [OF a] by blast
    with that obtain g where "g \<in> set gs" "auto_named syms' g h"
      by (metis in_set_conv_nth list_all2_conv_all_nth)
    with analyze_functions_result [OF gs(1)] auto_named_keeps [of syms' g h] show ?thesis
      by (intro with_cfg_same [of ?B g]) (auto simp: same_image_def)
  qed
  with b show ?thesis by (auto simp: same_image_def ms_def)
qed

section \<open>The names of the functions\<close>

text \<open>A function is named by its symbol, or has none yet.\<close>

definition symbol_named :: "E9Symbol list \<Rightarrow> E9Function \<Rightarrow> bool" where
  "symbol_named syms f \<longleftrightarrow> fn_symbol f \<noteq> None \<longrightarrow> fn_name f \<in> sy_name ` set syms"

lemma symbol_named_kept: "discovery_keeps (symbol_named syms)"
  by (simp add: discovery_keeps_def symbol_named_def new_function_def)

lemma discover_symbols_named:
  "set ss \<subseteq> set all \<Longrightarrow> \<forall>f \<in> set fs. fn_name f \<in> sy_name ` set all \<Longrightarrow>
   \<forall>f \<in> set (discover_symbols ss fs). fn_name f \<in> sy_name ` set all"
proof (induction ss arbitrary: fs)
  case Nil
  then show ?case by simp
next
  case (Cons s ss)
  show ?case
  proof (cases "sy_type s = E9_SYM_FUNCTION")
    case False
    with Cons show ?thesis by simp
  next
    case True
    obtain k fs1 where add: "(k, fs1) = function_add (sy_address s) (sy_name s) fs" by (metis surj_pair)
    let ?g = "\<lambda>f. f\<lparr>fn_symbol := Some (length ss), fn_size := ucast (sy_size s)\<rparr>"
    have "set fs1 \<subseteq> insert (new_function (sy_address s) (sy_name s)) (set fs)"
      using add by (auto simp: function_add_def split: option.splits if_splits)
    moreover have "fn_name (new_function (sy_address s) (sy_name s)) \<in> sy_name ` set all"
      using Cons.prems(1) by (simp add: new_function_def)
    ultimately have "\<forall>f \<in> set fs1. fn_name f \<in> sy_name ` set all" using Cons.prems(2) by blast
    then have "\<forall>f \<in> set (elem_update k ?g fs1). fn_name f \<in> sy_name ` set all" by (rule elem_update_all) simp
    from Cons.IH [OF _ this] Cons.prems(1) True show ?thesis by (simp add: add [symmetric])
  qed
qed

lemma analyze_functions_named:
  "analyze_functions bin fs = Some fs' \<Longrightarrow>
   map (\<lambda>f. (fn_symbol f, fn_name f)) fs' = map (\<lambda>f. (fn_symbol f, fn_name f)) fs"
proof (induction fs arbitrary: fs')
  case Nil
  then show ?case by simp
next
  case (Cons f fs)
  from Cons.prems obtain cfg gs where
    gs: "analyze_functions bin fs = Some gs" "fs' = analyze_calling_convention bin (f\<lparr>fn_cfg := cfg\<rparr>) # gs"
    by (auto simp: Option.bind_eq_Some_conv)
  with Cons.IH [OF gs(1)] show ?case by (simp add: analyze_calling_convention_def Let_def)
qed

lemma auto_named_from:
  assumes "auto_named syms' f f'" and "symbol_named syms f"
  shows "fn_name f' \<in> sy_name ` set syms \<or> (\<exists>a. fn_name f' = Some (sub_name a))"
  using assms by (auto simp: auto_named_def symbol_named_def split: if_splits)

lemma analyze_names:
  assumes "e9_binary_create (Some data) = Some bin"
    and "e9_binary_analyze (Some (bin\<lparr>an_symbols := syms\<rparr>)) = Some (0, Some bin')"
  shows "\<forall>f \<in> set (an_functions bin'). fn_name f \<in> sy_name ` set (an_symbols bin') \<or> (\<exists>a. fn_name f = Some (sub_name a))"
proof -
  let ?B = "bin\<lparr>an_symbols := syms\<rparr>"
  have B: "an_functions ?B = []" "names_short ?B"
    using assms(1) by (auto simp: e9_binary_create_def names_short_def split: if_splits)
  from assms(2) obtain r x where x: "e9_binary_detect (Some ?B) = Some (r, Some x)" "analyze_steps (Some x) = Some (Some bin')"
    by (auto simp: e9_binary_analyze_def Option.bind_eq_Some_conv split: option.splits if_splits)
  have x0: "an_functions x = []" using detect_result [OF x(1) B(2)] B(1) by (simp add: same_analysis_def)
  from x(2) obtain r1 b1 r2 b2 b3 where s: "e9_symbols_parse (Some x) = Some (r1, b1)"
    "e9_functions_discover b1 = Some (r2, b2)" "analyze_cfgs b2 = Some b3"
    "Some bin' = snd (e9_mapping_build (snd (e9_symbols_auto b3)))"
    by (auto simp: analyze_steps_def Option.bind_eq_Some_conv Let_def case_prod_unfold)
  from symbols_parse_result [OF s(1)] obtain ss where b1: "b1 = Some (x\<lparr>an_symbols := ss\<rparr>)" by blast
  with s(2) obtain fs where fs: "functions_discover (x\<lparr>an_symbols := ss\<rparr>) = Some fs"
    and b2: "b2 = Some (x\<lparr>an_symbols := ss, an_functions := fs\<rparr>)"
    by (auto simp: e9_functions_discover_def)
  let ?C = "x\<lparr>an_symbols := ss, an_functions := fs\<rparr>"
  from b2 s(3) obtain gs where gs: "analyze_functions ?C fs = Some gs" "b3 = Some (?C\<lparr>an_functions := gs\<rparr>)"
    by (auto simp: analyze_cfgs_def)
  obtain hs ss' where a: "auto_symbols gs ss = (hs, ss')" by fastforce
  have fin: "an_functions bin' = hs \<and> an_symbols bin' = ss'"
    using s(4) by (simp add: gs(2) e9_symbols_auto_def a e9_mapping_build_def split: if_splits)
  have "\<forall>f \<in> set (discover_symbols ss []). fn_name f \<in> sy_name ` set ss"
    by (rule discover_symbols_named) simp_all
  then have "\<forall>f \<in> set fs. symbol_named ss f"
    by (intro functions_discover_all [OF fs symbol_named_kept]) (simp add: x0 symbol_named_def)
  then have "\<forall>p \<in> set (map (\<lambda>f. (fn_symbol f, fn_name f)) fs). fst p \<noteq> None \<longrightarrow> snd p \<in> sy_name ` set ss"
    by (auto simp: symbol_named_def)
  moreover have "map (\<lambda>f. (fn_symbol f, fn_name f)) gs = map (\<lambda>f. (fn_symbol f, fn_name f)) fs"
    by (rule analyze_functions_named [OF gs(1)])
  ultimately have "\<forall>p \<in> set (map (\<lambda>f. (fn_symbol f, fn_name f)) gs). fst p \<noteq> None \<longrightarrow> snd p \<in> sy_name ` set ss"
    by simp
  then have g: "\<forall>f \<in> set gs. symbol_named ss f" by (auto simp: symbol_named_def)
  have named: "list_all2 (auto_named ss') gs hs" and sub: "set ss \<subseteq> set ss'"
    using auto_symbols_named [OF a] by auto
  show ?thesis
  proof
    fix h assume "h \<in> set (an_functions bin')"
    with fin named obtain f where "f \<in> set gs" "auto_named ss' f h"
      by (metis in_set_conv_nth list_all2_conv_all_nth)
    with g auto_named_from sub fin show "fn_name h \<in> sy_name ` set (an_symbols bin') \<or> (\<exists>a. fn_name h = Some (sub_name a))"
      by blast
  qed
qed

section \<open>Raw images\<close>

lemma raw_x64_detect:
  assumes "take 3 (bin_data bin) = [0x55, 0x48, 0x89]" and "16 \<le> length (bin_data bin)"
  shows "e9_binary_detect (Some bin) =
    Some (0, Some (bin\<lparr>an_format := E9_FORMAT_RAW, bin_arch := E9_ARCH_X86_64\<rparr>))"
proof -
  let ?d = "bin_data bin"
  obtain x rest where dr: "drop 3 ?d = x # rest" using assms(2) by (cases "drop 3 ?d") auto
  have "?d = take 3 ?d @ drop 3 ?d" by (rule append_take_drop_id [symmetric])
  also have "\<dots> = 0x55 # 0x48 # 0x89 # x # rest" by (simp only: assms(1) dr append.simps)
  finally have d: "?d = 0x55 # 0x48 # 0x89 # x # rest" .
  have h: "hd (take 6 ?d) = 0x55" "hd (str_bytes ''MZqFpD'') = 0x4D" "?d ! 0 = 0x55"
    by (simp_all add: d str_bytes_def)
  have "take 6 ?d \<noteq> str_bytes ''MZqFpD''"
  proof
    assume "take 6 ?d = str_bytes ''MZqFpD''"
    with h(1,2) have "(0x55 :: u8) = 0x4D" by metis
    then show False by simp
  qed
  with h(3) have ape: "\<not> ape_spec ?d" by (simp add: ape_spec_def)
  have elf: "memeq ?d 0 elf_magic = Some False"
    using memeq_take [OF magic_lengths(1), of 0 ?d] assms(2) d by (simp add: elf_magic_def)
  have mz: "memeq ?d 0 [0x4D, 0x5A] = Some False"
    using memeq_take [of "[0x4D, 0x5A]" 2 0 ?d] assms(2) d by simp
  define w :: u32 where "w = word_of_nat (85 + 256 * (72 + 256 * (137 + 256 * unat x)))"
  have rd: "rd32 ?d 0 = Some w"
    using assms(2) d by (simp add: rd32_def rd_region_def w_def)
  have "unat w = 85 + 256 * (72 + 256 * (137 + 256 * unat x))"
  proof -
    have "unat x < 256" using unat_lt2p [of x] by simp
    moreover have "85 + 256 * (72 + 256 * (137 + 256 * n)) < 4294967296" if "n < 256" for n :: nat
      using that by simp
    ultimately have "85 + 256 * (72 + 256 * (137 + 256 * unat x)) < 4294967296" by blast
    then show ?thesis unfolding w_def unat_of_nat by simp
  qed
  then have "unat w mod 256 = 85" by (simp only: mod_mult_self2) simp
  then have w: "w \<noteq> 0xFEEDFACF" "w \<noteq> 0xCFFAEDFE" by auto
  have b: "rd8 ?d 0 = Some 0x55" "rd8 ?d 1 = Some 0x48" "rd8 ?d 2 = Some 0x89"
    by (simp_all add: rd8_def d)
  have "detect_raw bin = Some (0, bin\<lparr>an_format := E9_FORMAT_RAW, bin_arch := E9_ARCH_X86_64\<rparr>)"
    unfolding detect_raw_def Let_def b by simp
  then show ?thesis
    using assms(2) ape elf mz rd w by (simp add: e9_binary_detect_def Let_def is_ape_spec)
qed

lemma set_elem_update: "k < length xs \<Longrightarrow> set (elem_update k g xs) \<subseteq> insert (g (elem_at k xs)) (set xs)"
  by (simp add: elem_update_def set_update_subset_insert)

text \<open>Functions made from symbols start at the address of a symbol and have no end.\<close>

definition symbol_function :: "E9Symbol list \<Rightarrow> E9Function \<Rightarrow> bool" where
  "symbol_function ss f \<longleftrightarrow>
     fn_end_address f = 0 \<and> (\<exists>s \<in> set ss. sy_type s = E9_SYM_FUNCTION \<and> sy_address s = fn_address f)"

lemma discover_symbols_from:
  "set ss \<subseteq> set all \<Longrightarrow> \<forall>f \<in> set fs. symbol_function all f \<Longrightarrow>
   \<forall>f \<in> set (discover_symbols ss fs). symbol_function all f"
proof (induction ss arbitrary: fs)
  case Nil
  then show ?case by simp
next
  case (Cons s ss)
  show ?case
  proof (cases "sy_type s = E9_SYM_FUNCTION")
    case False
    with Cons show ?thesis by simp
  next
    case True
    obtain k fs1 where add: "(k, fs1) = function_add (sy_address s) (sy_name s) fs" by (metis surj_pair)
    let ?g = "\<lambda>f. f\<lparr>fn_symbol := Some (length ss), fn_size := ucast (sy_size s)\<rparr>"
    have "set fs1 \<subseteq> insert (new_function (sy_address s) (sy_name s)) (set fs)"
      using add by (auto simp: function_add_def split: option.splits if_splits)
    moreover have "symbol_function all (new_function (sy_address s) (sy_name s))"
      using Cons.prems(1) True by (auto simp: symbol_function_def new_function_def)
    ultimately have fs1: "\<forall>f \<in> set fs1. symbol_function all f" using Cons.prems(2) by blast
    have k: "k < length fs1" using function_add_props [OF add] by simp
    have "symbol_function all (?g (elem_at k fs1))"
      using fs1 elem_at_mem [OF k] by (auto simp: symbol_function_def)
    with fs1 set_elem_update [OF k, of ?g] have "\<forall>f \<in> set (elem_update k ?g fs1). symbol_function all f" by blast
    from Cons.IH [OF _ this] Cons.prems(1) True show ?thesis by (simp add: add [symmetric])
  qed
qed

lemma raw_discover:
  assumes "an_format bin = E9_FORMAT_RAW" and "an_entry_point bin = 0"
  shows "e9_functions_discover (Some bin) =
    Some (0, Some (bin\<lparr>an_functions := discover_symbols (an_symbols bin) (an_functions bin)\<rparr>))"
  using assms by (simp add: e9_functions_discover_def functions_discover_def discover_heuristic_def Let_def)

text \<open>Raw x86-64 images are analysed in full.\<close>

lemma analyze_raw:
  assumes d: "e9_binary_create (Some data) = Some bin" "take 3 data = [0x55, 0x48, 0x89]" "length data + 4 < 2 ^ 64"
    and syms: "\<forall>s \<in> set syms. sy_type s = E9_SYM_FUNCTION \<longrightarrow> unat (sy_address s) + 0x10004 < 2 ^ 64"
  shows "\<exists>bin'. e9_binary_analyze (Some (bin\<lparr>an_symbols := syms\<rparr>)) = Some (0, Some bin') \<and>
    addrs (an_functions bin') = sy_address ` {s \<in> set syms. sy_type s = E9_SYM_FUNCTION} \<and>
    (\<forall>f \<in> set (an_functions bin'). fn_end_address f = 0) \<and>
    (\<forall>s \<in> set (an_symbols bin'). s \<in> set syms \<or> (\<exists>a. sy_name s = Some (sub_name a)))"
proof -
  have bin: "bin_data bin = data" "16 \<le> length data" "an_functions bin = []" "bin_base_address bin = 0"
    "an_entry_point bin = 0" "an_mappings bin = []" "an_has_debug_info bin = False"
    using d(1) by (auto simp: e9_binary_create_def split: if_splits)
  let ?B = "bin\<lparr>an_symbols := syms, an_format := E9_FORMAT_RAW, bin_arch := E9_ARCH_X86_64\<rparr>"
  define fs where "fs = discover_symbols syms []"
  have det: "e9_binary_detect (Some (bin\<lparr>an_symbols := syms\<rparr>)) = Some (0, Some ?B)"
    using raw_x64_detect [of "bin\<lparr>an_symbols := syms\<rparr>"] bin d(2) by simp
  have disc: "e9_functions_discover (Some ?B) = Some (0, Some (?B\<lparr>an_functions := fs\<rparr>))"
    using raw_discover [of ?B] bin by (simp add: fs_def)
  have fs: "\<forall>f \<in> set fs. symbol_function syms f"
    unfolding fs_def by (rule discover_symbols_from) simp_all
  have "e9_cfg_build (Some (?B\<lparr>an_functions := fs\<rparr>)) (Some (fn_address f, fn_end_address f)) \<noteq> None" if "f \<in> set fs" for f
    using an.cfg_build_total [of "?B\<lparr>an_functions := fs\<rparr>" "fn_address f" "fn_end_address f"] fs that syms bin d(3)
    by (fastforce simp: e9_cfg_build_def symbol_function_def)
  then obtain gs where gs: "analyze_functions (?B\<lparr>an_functions := fs\<rparr>) fs = Some gs"
    using analyze_functions_total by blast
  obtain hs syms' where a: "auto_symbols gs syms = (hs, syms')" by fastforce
  define ms where "ms = rev (map function_mapping hs)"
  let ?E = "?B\<lparr>an_functions := hs, an_symbols := syms', an_mappings := ms\<rparr>"
  have "analyze_steps (Some ?B) = Some (Some ?E)"
    using disc gs a bin by (simp add: analyze_steps_def e9_symbols_parse_def analyze_cfgs_def e9_symbols_auto_def
        e9_mapping_build_def fold_mappings ms_def)
  then have "e9_binary_analyze (Some (bin\<lparr>an_symbols := syms\<rparr>)) = Some (0, Some ?E)"
    by (simp add: e9_binary_analyze_def det)
  moreover have hs: "map fn_address hs = map fn_address fs \<and> map fn_end_address hs = map fn_end_address fs"
  proof -
    have "list_all2 (auto_named syms') gs hs" using auto_symbols_named [OF a] by blast
    then have "map fn_address hs = map fn_address gs \<and> map fn_end_address hs = map fn_end_address gs"
      by (induction rule: list_all2_induct) (auto dest: auto_named_keeps)
    with analyze_functions_result [OF gs] show ?thesis by simp
  qed
  moreover have "addrs hs = addrs fs" using hs unfolding addrs_def by (metis list.set_map)
  moreover have "\<forall>e \<in> set (map fn_end_address fs). e = 0" using fs by (auto simp: symbol_function_def)
  then have "\<forall>f \<in> set hs. fn_end_address f = 0" using hs by (metis image_eqI list.set_map)
  moreover have "addrs fs = sy_address ` {s \<in> set syms. sy_type s = E9_SYM_FUNCTION}"
  proof
    show "addrs fs \<subseteq> sy_address ` {s \<in> set syms. sy_type s = E9_SYM_FUNCTION}"
      using fs by (force simp: symbol_function_def addrs_def)
    show "sy_address ` {s \<in> set syms. sy_type s = E9_SYM_FUNCTION} \<subseteq> addrs fs"
    proof
      fix a assume "a \<in> sy_address ` {s \<in> set syms. sy_type s = E9_SYM_FUNCTION}"
      then have "fn_covered fs a" using discover_symbols_covers [of "[]" syms] by (auto simp: fs_def)
      with fs show "a \<in> addrs fs" by (auto simp: symbol_function_def fn_covered_def fn_covers_def addrs_def)
    qed
  qed
  moreover have "\<forall>s \<in> set syms'. s \<in> set syms \<or> (\<exists>a. sy_name s = Some (sub_name a))"
    using auto_symbols_new [OF a] by blast
  ultimately show ?thesis by (intro exI [of _ ?E]) simp
qed

section \<open>Properties\<close>


text \<open>The first two functions of a raw image, imported as symbols.\<close>

definition raw_syms :: "E9Symbol list" where
  "raw_syms = [new_symbol (str_bytes ''main'') 0 E9_SYM_FUNCTION, new_symbol (str_bytes ''f'') 8 E9_SYM_FUNCTION]"

lemma raw_demo_create:
  "e9_binary_create (Some ([0x55, 0x48, 0x89, 0xE5] @ replicate 12 0)) = Some raw_demo"
  by (simp add: raw_demo_def e9_binary_create_def)

lemma raw_syms_small: "\<forall>s \<in> set raw_syms. sy_type s = E9_SYM_FUNCTION \<longrightarrow> unat (sy_address s) + 0x10004 < 2 ^ 64"
  by (simp add: raw_syms_def new_symbol_def)


text \<open>
  C14.  e9_binary_analyze terminates with success on every raw x86-64 image, whatever code follows
  the prologue and whatever function symbols were imported before (below the last 64 KiB of the
  address space), and the functions are exactly the imported ones: nothing is discovered in a raw
  image.  None of them ever gets an end address, so that their graphs span 64 KiB.
\<close>

theorem analyze_raw_total:
  assumes "e9_binary_create (Some data) = Some bin" and "take 3 data = [0x55, 0x48, 0x89]" and "length data + 4 < 2 ^ 64"
    and "\<forall>s \<in> set syms. sy_type s = E9_SYM_FUNCTION \<longrightarrow> unat (sy_address s) + 0x10004 < 2 ^ 64"
  shows "\<exists>bin'. e9_binary_analyze (Some (bin\<lparr>an_symbols := syms\<rparr>)) = Some (0, Some bin') \<and>
    addrs (an_functions bin') = sy_address ` {s \<in> set syms. sy_type s = E9_SYM_FUNCTION} \<and>
    (\<forall>f \<in> set (an_functions bin'). fn_end_address f = 0)"
  using analyze_raw [OF assms] by blast

lemma analyze_raw_total_witness:
  "\<exists>bin'. e9_binary_analyze (Some (raw_demo\<lparr>an_symbols := raw_syms\<rparr>)) = Some (0, Some bin') \<and>
    addrs (an_functions bin') = sy_address ` {s \<in> set raw_syms. sy_type s = E9_SYM_FUNCTION} \<and>
    (\<forall>f \<in> set (an_functions bin'). fn_end_address f = 0)"
  by (rule analyze_raw_total [OF raw_demo_create _ _ raw_syms_small]) simp_all

end
