(* ===== verification/E9Diff.thy ===== *)
theory E9Diff
  imports E9AnPipeline
begin

text \<open>
  Patches from two versions of an object file: \<open>e9_diff_objects\<close> of
  \<open>src/src/e9patch/analysis/e9analysis.c\<close>.  The functions of the new file are compared with the
  functions of the same name in the old file, byte by byte; every run of differing bytes becomes a
  patch.  The counters \<open>i\<close> and \<open>patch_size\<close> never exceed the 32-bit \<open>min_size\<close> and are natural
  numbers here; \<open>None\<close> is an access outside a file or a write past the 1024 patches allocated.
\<close>

section \<open>The code\<close>

record E9Patch =
  pa_address :: u64
  pa_old_bytes :: bytes
  pa_new_bytes :: bytes
  pa_size :: u32
  pa_description :: bytes

record E9PatchSet =
  ps_patches :: "E9Patch list"
  ps_error :: "bytes ptr"

definition max_patches :: nat where "max_patches = 1024"

text \<open>Are the bytes \<open>i\<close> of the two functions different?\<close>

definition bytes_differ :: "bytes \<Rightarrow> u64 \<Rightarrow> bytes \<Rightarrow> u64 \<Rightarrow> nat \<Rightarrow> bool ub" where
  "bytes_differ old old_off new new_off i = do {
     a \<leftarrow> rd8 old (unat (old_off + word_of_nat i));
     b \<leftarrow> rd8 new (unat (new_off + word_of_nat i));
     Some (a \<noteq> b)
   }"

text \<open>How far the run goes on from \<open>i\<close>, with \<open>rest\<close> bytes left.\<close>

fun diff_extent :: "(nat \<Rightarrow> bool ub) \<Rightarrow> nat \<Rightarrow> nat \<Rightarrow> nat ub" where
  "diff_extent differ i 0 = Some 0"
| "diff_extent differ i (Suc rest) = do {
     c \<leftarrow> differ i;
     if c then map_option Suc (diff_extent differ (i + 1) rest) else Some 0
   }"

definition patch_description :: "bytes \<Rightarrow> nat \<Rightarrow> nat \<Rightarrow> bytes" where
  "patch_description name i n =
     take 255 (str_bytes ''Patch '' @ name @ str_bytes (''+0x'' @ hex i @ '' ('' @ dec n @ '' bytes)''))"

definition make_patch ::
  "bytes \<Rightarrow> u64 \<Rightarrow> bytes \<Rightarrow> u64 \<Rightarrow> u64 \<Rightarrow> bytes \<Rightarrow> nat \<Rightarrow> nat \<Rightarrow> E9Patch ub" where
  "make_patch old old_off new new_off addr name i n = do {
     ob \<leftarrow> rd_region old (unat (old_off + word_of_nat i)) n;
     nb \<leftarrow> rd_region new (unat (new_off + word_of_nat i)) n;
     Some \<lparr>pa_address = addr + word_of_nat i, pa_old_bytes = ob, pa_new_bytes = nb,
           pa_size = word_of_nat n, pa_description = patch_description name i n\<rparr>
   }"

text \<open>The comparison of two functions from byte \<open>i\<close> on, \<open>acc\<close> being the patches so far.\<close>

function diff_function ::
  "bytes \<Rightarrow> u64 \<Rightarrow> bytes \<Rightarrow> u64 \<Rightarrow> u64 \<Rightarrow> bytes \<Rightarrow> nat \<Rightarrow> nat \<Rightarrow> E9Patch list \<Rightarrow> E9Patch list ub" where
  "diff_function old old_off new new_off addr name m i acc =
     (if i < m then do {
        c \<leftarrow> bytes_differ old old_off new new_off i;
        if c then
          if length acc < max_patches then do {
            e \<leftarrow> diff_extent (bytes_differ old old_off new new_off) (i + 1) (m - (i + 1));
            p \<leftarrow> make_patch old old_off new new_off addr name i (1 + e);
            diff_function old old_off new new_off addr name m (i + (1 + e)) (acc @ [p])
          } else None
        else diff_function old old_off new new_off addr name m (i + 1) acc
      } else Some acc)"
  by pat_completeness auto

termination
  by (relation "measure (\<lambda>(old, old_off, new, new_off, addr, name, m, i, acc). m - i)") auto

declare diff_function.simps [simp del]

text \<open>The addresses, less the base address of their file where it has one, are used as file offsets.\<close>

definition file_offset :: "E9Analysis \<Rightarrow> u64 \<Rightarrow> u64" where
  "file_offset bin addr = (if bin_base_address bin \<noteq> 0 then addr - bin_base_address bin else addr)"

fun diff_functions :: "bytes \<Rightarrow> bytes \<Rightarrow> E9Analysis \<Rightarrow> E9Analysis \<Rightarrow> E9Function list \<Rightarrow> E9Patch list \<Rightarrow> E9Patch list ub" where
  "diff_functions old new old_bin new_bin [] acc = Some acc"
| "diff_functions old new old_bin new_bin (f # fs) acc =
     (if length acc < max_patches then
        (case e9_function_by_name (Some old_bin) (fn_name f) of
           None \<Rightarrow> diff_functions old new old_bin new_bin fs acc
         | Some k \<Rightarrow>
             let g = elem_at k (an_functions old_bin) in do {
               acc \<leftarrow> diff_function old (file_offset old_bin (fn_address g)) new (file_offset new_bin (fn_address f))
                 (fn_address g) (case fn_name f of None \<Rightarrow> str_bytes ''func'' | Some n \<Rightarrow> n)
                 (unat (min (fn_size g) (fn_size f))) 0 acc;
               diff_functions old new old_bin new_bin fs acc
             })
      else Some acc)"

definition e9_diff_objects :: "bytes ptr \<Rightarrow> bytes ptr \<Rightarrow> E9PatchSet ptr ub" where
  "e9_diff_objects old_obj new_obj =
     (case (old_obj, new_obj) of
        (Some old, Some new) \<Rightarrow>
          (case (e9_binary_create old_obj, e9_binary_create new_obj) of
             (Some ob, Some nb) \<Rightarrow> do {
               (_, ob') \<leftarrow> e9_binary_analyze (Some ob);
               (_, nb') \<leftarrow> e9_binary_analyze (Some nb);
               case (ob', nb') of
                 (Some old_bin, Some new_bin) \<Rightarrow> do {
                   ps \<leftarrow> diff_functions old new old_bin new_bin (an_functions new_bin) [];
                   Some (Some \<lparr>ps_patches = ps, ps_error = None\<rparr>)
                 }
               | _ \<Rightarrow> None
             }
           | _ \<Rightarrow> Some (Some \<lparr>ps_patches = [], ps_error = Some (str_bytes ''Failed to create binary contexts'')\<rparr>))
      | _ \<Rightarrow> Some None)"

section \<open>The reference\<close>

text \<open>
  The runs of a predicate on \<open>[0 ..< m]\<close>: where they start and how long they are.
\<close>

definition run_start :: "(nat \<Rightarrow> bool) \<Rightarrow> nat \<Rightarrow> bool" where
  "run_start d i \<longleftrightarrow> d i \<and> (i = 0 \<or> \<not> d (i - 1))"

definition run_length :: "(nat \<Rightarrow> bool) \<Rightarrow> nat \<Rightarrow> nat \<Rightarrow> nat" where
  "run_length d m i = length (takeWhile d [i ..< m])"

definition run_patch :: "bytes \<Rightarrow> bytes \<Rightarrow> u64 \<Rightarrow> bytes \<Rightarrow> nat \<Rightarrow> E9Patch" where
  "run_patch x y addr name i =
     (let n = run_length (\<lambda>i. x ! i \<noteq> y ! i) (length x) i
      in \<lparr>pa_address = addr + word_of_nat i, pa_old_bytes = take n (drop i x), pa_new_bytes = take n (drop i y),
          pa_size = word_of_nat n, pa_description = patch_description name i n\<rparr>)"

definition run_patches :: "bytes \<Rightarrow> bytes \<Rightarrow> u64 \<Rightarrow> bytes \<Rightarrow> nat \<Rightarrow> E9Patch list" where
  "run_patches x y addr name i =
     map (run_patch x y addr name) (filter (run_start (\<lambda>i. x ! i \<noteq> y ! i)) [i ..< length x])"

section \<open>The runs\<close>

lemma diff_extent_run:
  "(\<And>j. i \<le> j \<Longrightarrow> j < i + r \<Longrightarrow> differ j = Some (d j)) \<Longrightarrow>
   diff_extent differ i r = Some (length (takeWhile d [i ..< i + r]))"
proof (induction r arbitrary: i)
  case 0
  then show ?case by simp
next
  case (Suc r)
  have "diff_extent differ (i + 1) r = Some (length (takeWhile d [i + 1 ..< i + 1 + r]))"
    by (rule Suc.IH) (use Suc.prems in auto)
  moreover have "differ i = Some (d i)" using Suc.prems [of i] by simp
  moreover have "[i ..< i + Suc r] = i # [i + 1 ..< i + 1 + r]" by (simp add: upt_rec)
  ultimately show ?case by (simp del: upt_Suc)
qed

lemma run_length_step: "i < m \<Longrightarrow> d i \<Longrightarrow> run_length d m i = 1 + length (takeWhile d [i + 1 ..< m])"
  by (simp add: run_length_def upt_rec [of i m])

lemma run_length_bound: "i + run_length d m i \<le> m \<or> m < i"
  using length_takeWhile_le [of d "[i ..< m]"] by (auto simp: run_length_def)

lemma run_length_inside: "j < run_length d m i \<Longrightarrow> d (i + j)"
  using nth_mem [of j "takeWhile d [i ..< m]"] takeWhile_nth [of j d "[i ..< m]"]
    set_takeWhileD [of "i + j" d "[i ..< m]"] length_takeWhile_le [of d "[i ..< m]"]
  by (simp add: run_length_def)

lemma run_length_end: "i + run_length d m i < m \<Longrightarrow> \<not> d (i + run_length d m i)"
  using nth_length_takeWhile [of d "[i ..< m]"] by (simp add: run_length_def)

lemma upt_split: "i \<le> j \<Longrightarrow> j \<le> k \<Longrightarrow> [i ..< k] = [i ..< j] @ [j ..< k]"
  by (metis le_add_diff_inverse upt_add_eq_append)

lemma run_starts_step:
  assumes "i < m"
  shows "filter (run_start d) [i ..< m] =
    (if run_start d i then i # filter (run_start d) [i + run_length d m i ..< m]
     else filter (run_start d) [i + 1 ..< m])"
proof (cases "run_start d i")
  case True
  let ?n = "run_length d m i"
  have n: "i + ?n \<le> m" "1 \<le> ?n" using run_length_bound [of i d m] run_length_step [of i m d] assms True by (auto simp: run_start_def)
  have "filter (run_start d) [i + 1 ..< i + ?n] = []"
    using run_length_inside [of _ d m i] by (fastforce simp: filter_empty_conv run_start_def le_iff_add)
  moreover have "[i ..< m] = i # [i + 1 ..< i + ?n] @ [i + ?n ..< m]"
    using n assms upt_split [of "i + 1" "i + ?n" m] by (simp add: upt_rec [of i m])
  ultimately show ?thesis using True by simp
next
  case False
  with assms show ?thesis by (simp add: upt_rec [of i m])
qed

section \<open>One pair of functions\<close>

text \<open>The \<open>m\<close> bytes of a function at an offset that lies in the file.\<close>

definition function_bytes :: "bytes \<Rightarrow> u64 \<Rightarrow> nat \<Rightarrow> bytes \<Rightarrow> bool" where
  "function_bytes d off m x \<longleftrightarrow>
     unat off + m \<le> length d \<and> length d < 2 ^ 64 \<and> x = take m (drop (unat off) d)"

lemma function_bytes_offset: "function_bytes d off m x \<Longrightarrow> i < m \<Longrightarrow> unat (off + word_of_nat i) = unat off + i"
proof -
  assume f: "function_bytes d off m x" "i < m"
  then have "unat (word_of_nat i :: u64) = i" by (simp add: function_bytes_def unat_of_nat)
  with f show ?thesis using unat_add_small [of off "word_of_nat i"] by (simp add: function_bytes_def)
qed

lemma function_bytes_length: "function_bytes d off m x \<Longrightarrow> length x = m"
  by (auto simp: function_bytes_def)

lemma function_bytes_nth: "function_bytes d off m x \<Longrightarrow> i < m \<Longrightarrow> rd8 d (unat (off + word_of_nat i)) = Some (x ! i)"
  by (simp add: function_bytes_offset rd8_def) (simp add: function_bytes_def)

lemma function_bytes_region:
  "function_bytes d off m x \<Longrightarrow> i < m \<Longrightarrow> i + n \<le> m \<Longrightarrow>
   rd_region d (unat (off + word_of_nat i)) n = Some (take n (drop i x))"
  by (simp add: function_bytes_offset) (simp add: function_bytes_def rd_region_def drop_take ac_simps)

lemmas function_bytes_simps = function_bytes_nth function_bytes_region function_bytes_length

lemma differ:
  "function_bytes old oo m x \<Longrightarrow> function_bytes new no m y \<Longrightarrow> i < m \<Longrightarrow>
   bytes_differ old oo new no i = Some (x ! i \<noteq> y ! i)"
  by (simp add: bytes_differ_def function_bytes_simps)

lemma make_patch_run:
  "function_bytes old oo m x \<Longrightarrow> function_bytes new no m y \<Longrightarrow> i < m \<Longrightarrow>
   make_patch old oo new no addr name i (run_length (\<lambda>i. x ! i \<noteq> y ! i) m i) = Some (run_patch x y addr name i)"
  using run_length_bound [of i "\<lambda>i. x ! i \<noteq> y ! i" m]
  by (simp add: make_patch_def run_patch_def Let_def function_bytes_simps)

lemma diff_function_runs:
  assumes f: "function_bytes old oo m x" "function_bytes new no m y"
  shows "(i < m \<longrightarrow> x ! i \<noteq> y ! i \<longrightarrow> run_start (\<lambda>i. x ! i \<noteq> y ! i) i) \<Longrightarrow> length acc \<le> max_patches \<Longrightarrow>
   diff_function old oo new no addr name m i acc =
     (if length acc + length (run_patches x y addr name i) \<le> max_patches
      then Some (acc @ run_patches x y addr name i) else None)"
proof (induction "m - i" arbitrary: i acc rule: less_induct)
  case less
  let ?d = "\<lambda>i. x ! i \<noteq> y ! i"
  note length_x = function_bytes_length [OF f(1)] and differ = differ [OF f]
  show ?case
  proof (cases "i < m")
    case False
    with less.prems show ?thesis by (subst diff_function.simps) (simp add: run_patches_def length_x)
  next
    case True
    show ?thesis
    proof (cases "?d i")
      case d: False
      then have "\<not> run_start ?d i" by (simp add: run_start_def)
      with run_starts_step [OF True, of ?d] have eq: "run_patches x y addr name i = run_patches x y addr name (i + 1)"
        by (simp add: run_patches_def length_x)
      have "i + 1 < m \<longrightarrow> ?d (i + 1) \<longrightarrow> run_start ?d (i + 1)" using d by (simp add: run_start_def)
      from less.hyps [of "i + 1" acc] this less.prems(2) True d differ [OF True] eq show ?thesis
        by (subst diff_function.simps) simp
    next
      case d: True
      let ?n = "run_length ?d m i"
      have s: "run_start ?d i" using less.prems(1) True d by simp
      have eq: "run_patches x y addr name i = run_patch x y addr name i # run_patches x y addr name (i + ?n)"
        using run_starts_step [OF True, of ?d] s by (simp add: run_patches_def length_x)
      have e: "diff_extent (bytes_differ old oo new no) (i + 1) (m - (i + 1)) = Some (?n - 1)"
        using diff_extent_run [of "i + 1" "m - (i + 1)" "bytes_differ old oo new no" ?d] differ
          run_length_step [of i m ?d] True d by simp
      have n: "1 \<le> ?n" "i + ?n \<le> m" using run_length_step [of i m ?d] run_length_bound [of i ?d m] True d by auto
      have p: "make_patch old oo new no addr name i ?n = Some (run_patch x y addr name i)"
        by (rule make_patch_run [OF f True])
      have nx: "i + ?n < m \<longrightarrow> ?d (i + ?n) \<longrightarrow> run_start ?d (i + ?n)" using run_length_end [of i ?d m] by blast
      have n1: "1 + (?n - 1) = ?n" using n by simp
      have step: "diff_function old oo new no addr name m i acc =
          (if length acc < max_patches
           then diff_function old oo new no addr name m (i + ?n) (acc @ [run_patch x y addr name i]) else None)"
        using True d by (subst diff_function.simps) (simp add: differ [OF True] e p n1 del: One_nat_def)
      show ?thesis
      proof (cases "length acc < max_patches")
        case False
        with step eq show ?thesis by simp
      next
        case acc: True
        from less.hyps [of "i + ?n" "acc @ [run_patch x y addr name i]"] nx n acc step eq True show ?thesis by simp
      qed
    qed
  qed
qed

section \<open>Applying patches\<close>

text \<open>The patches of a function at \<open>addr\<close>, written into its bytes.\<close>

definition apply_patch :: "u64 \<Rightarrow> E9Patch \<Rightarrow> bytes \<Rightarrow> bytes ub" where
  "apply_patch addr p img =
     (if pa_size p = word_of_nat (length (pa_new_bytes p)) \<and>
         memeq img (unat (pa_address p - addr)) (pa_old_bytes p) = Some True
      then memcpy_to img (unat (pa_address p - addr)) (pa_new_bytes p) else None)"

lemma apply_run_patches:
  assumes len: "length x = m" "length y = m" "m < 2 ^ 64"
  shows "i \<le> m \<Longrightarrow> (i < m \<longrightarrow> x ! i \<noteq> y ! i \<longrightarrow> run_start (\<lambda>i. x ! i \<noteq> y ! i) i) \<Longrightarrow>
    mfold (apply_patch addr) (run_patches x y addr name i) (take i y @ drop i x) = Some y"
proof (induction "m - i" arbitrary: i rule: less_induct)
  case less
  let ?d = "\<lambda>i. x ! i \<noteq> y ! i"
  show ?case
  proof (cases "i < m")
    case False
    with less.prems len show ?thesis by (simp add: run_patches_def)
  next
    case True
    show ?thesis
    proof (cases "?d i")
      case d: False
      then have eq: "run_patches x y addr name i = run_patches x y addr name (i + 1)"
        using run_starts_step [OF True, of ?d] len by (simp add: run_patches_def run_start_def)
      have "take i y @ drop i x = take (i + 1) y @ drop (i + 1) x"
        using True d len Cons_nth_drop_Suc [of i x] by (simp add: take_Suc_conv_app_nth)
      with less.hyps [of "i + 1"] True d eq show ?thesis by (simp add: run_start_def)
    next
      case d: True
      let ?n = "run_length ?d m i"
      have s: "run_start ?d i" using less.prems True d by simp
      have eq: "run_patches x y addr name i = run_patch x y addr name i # run_patches x y addr name (i + ?n)"
        using run_starts_step [OF True, of ?d] s len by (simp add: run_patches_def)
      have n: "1 \<le> ?n" "i + ?n \<le> m" using run_length_step [of i m ?d] run_length_bound [of i ?d m] True d by auto
      have i: "unat (word_of_nat i :: u64) = i" using True len by (simp add: unat_of_nat)
      have "apply_patch addr (run_patch x y addr name i) (take i y @ drop i x) = Some (take (i + ?n) y @ drop (i + ?n) x)"
        using n len True by (simp add: apply_patch_def run_patch_def Let_def memeq_def rd_region_def memcpy_to_def i take_add ac_simps)
      with less.hyps [of "i + ?n"] n eq run_length_end [of i ?d m] show ?thesis by simp
    qed
  qed
qed

section \<open>Properties\<close>

text \<open>
  C16.  Where both functions lie in their files, the comparison of e9_diff_objects yields one patch
  for every maximal run of differing bytes, in increasing order, with the bytes of both versions,
  and nothing else.  The limit of 1024 patches is tested between functions only: once the runs of
  one function exceed what is left of it, the code writes behind its array.
\<close>

theorem diff_function_exact:
  assumes "function_bytes old oo m x" and "function_bytes new no m y" and "length acc \<le> max_patches"
  shows "diff_function old oo new no addr name m 0 acc =
    (if length acc + card {i. i < m \<and> run_start (\<lambda>i. x ! i \<noteq> y ! i) i} \<le> max_patches
     then Some (acc @ map (run_patch x y addr name) (filter (run_start (\<lambda>i. x ! i \<noteq> y ! i)) [0 ..< m])) else None)"
proof -
  let ?r = "run_start (\<lambda>i. x ! i \<noteq> y ! i)"
  have "length (filter ?r [0 ..< m]) = card (set (filter ?r [0 ..< m]))"
    by (rule distinct_card [symmetric]) simp
  also have "set (filter ?r [0 ..< m]) = {i. i < m \<and> ?r i}" by auto
  finally have c: "length (filter ?r [0 ..< m]) = card {i. i < m \<and> ?r i}" .
  have "0 < m \<longrightarrow> x ! 0 \<noteq> y ! 0 \<longrightarrow> ?r 0" by (simp add: run_start_def)
  from diff_function_runs [OF assms(1,2) this assms(3), of addr name] c function_bytes_length [OF assms(1)]
  show ?thesis by (simp add: run_patches_def)
qed

definition diff_old :: bytes where "diff_old = [1, 2, 3, 4, 5, 6]"
definition diff_new :: bytes where "diff_new = [0, 1, 9, 9, 4, 5, 7]"

lemma diff_demo_bytes: "function_bytes diff_old 0 6 diff_old" "function_bytes diff_new 1 6 [1, 9, 9, 4, 5, 7]"
  by (simp_all add: function_bytes_def diff_old_def diff_new_def)

lemma diff_function_exact_witness:
  "diff_function diff_old 0 diff_new 1 0x40 [] 6 0 [] =
    Some [run_patch diff_old [1, 9, 9, 4, 5, 7] 0x40 [] 1, run_patch diff_old [1, 9, 9, 4, 5, 7] 0x40 [] 5]"
proof -
  have f: "filter (run_start (\<lambda>i. diff_old ! i \<noteq> [1, 9, 9, 4, 5, 7] ! i)) [0 ..< 6] = [1, 5]" by code_simp
  moreover have "{i. i < 6 \<and> run_start (\<lambda>i. diff_old ! i \<noteq> [1, 9, 9, 4, 5, 7] ! i) i} =
      set (filter (run_start (\<lambda>i. diff_old ! i \<noteq> [1, 9, 9, 4, 5, 7] ! i)) [0 ..< 6])" by auto
  then have "{i. i < 6 \<and> run_start (\<lambda>i. diff_old ! i \<noteq> [1, 9, 9, 4, 5, 7] ! i) i} = {1, 5}" by (simp only: f) simp
  ultimately show ?thesis
    using diff_function_exact [OF diff_demo_bytes, of "[]" "0x40" "[]"] by (simp add: max_patches_def)
qed

text \<open>
  C4.  The patches of a function turn its old bytes into its new ones: writing them in order, each
  at its address and over the old bytes that it records, gives the new version.
\<close>

theorem diff_patches_apply:
  assumes "function_bytes old oo m x" and "function_bytes new no m y" and "m < 2 ^ 32"
    and "diff_function old oo new no addr name m 0 [] = Some ps"
  shows "mfold (apply_patch addr) ps x = Some y"
proof -
  have "ps = run_patches x y addr name 0"
    using diff_function_runs [OF assms(1,2), of 0 "[]" addr name] assms(4) by (auto simp: run_start_def split: if_splits)
  moreover have "run_start (\<lambda>i. x ! i \<noteq> y ! i) 0" if "x ! 0 \<noteq> y ! 0" using that by (simp add: run_start_def)
  ultimately show ?thesis
    using apply_run_patches [of x m y 0 addr name] assms(3)
      function_bytes_length [OF assms(1)] function_bytes_length [OF assms(2)] by simp
qed

lemma diff_patches_apply_witness:
  "\<exists>ps. diff_function diff_old 0 diff_new 1 0x40 [] 6 0 [] = Some ps \<and> length ps = 2 \<and>
     mfold (apply_patch 0x40) ps diff_old = Some [1, 9, 9, 4, 5, 7]"
proof -
  have "map_option length (diff_function diff_old 0 diff_new 1 0x40 [] 6 0 []) = Some 2" by code_simp
  then obtain ps where ps: "diff_function diff_old 0 diff_new 1 0x40 [] 6 0 [] = Some ps" "length ps = 2" by auto
  from diff_patches_apply [OF diff_demo_bytes _ ps(1)] ps show ?thesis by simp
qed

text \<open>
  e9_diff_objects is blind for raw images: it analyses both files without errors, finds no
  function in either and reports no difference, whatever the two files contain after their
  prologue.
\<close>

theorem diff_raw_blind:
  assumes "take 3 old = [0x55, 0x48, 0x89]" "16 \<le> length old" "length old + 4 < 2 ^ 64"
    and "take 3 new = [0x55, 0x48, 0x89]" "16 \<le> length new" "length new + 4 < 2 ^ 64"
  shows "e9_diff_objects (Some old) (Some new) = Some (Some \<lparr>ps_patches = [], ps_error = None\<rparr>)"
proof -
  have an: "\<exists>bin bin'. e9_binary_create (Some d) = Some bin \<and> e9_binary_analyze (Some bin) = Some (0, Some bin') \<and>
      an_functions bin' = []" if d: "take 3 d = [0x55, 0x48, 0x89]" "16 \<le> length d" "length d + 4 < 2 ^ 64" for d
  proof -
    obtain bin where b: "e9_binary_create (Some d) = Some bin" using d(2) by (simp add: e9_binary_create_def)
    then have "bin = bin\<lparr>an_symbols := []\<rparr>" using d(2) by (auto simp: e9_binary_create_def)
    with analyze_raw [OF b d(1,3), of "[]"] b show ?thesis by (auto simp: addrs_def)
  qed
  from an [OF assms(1-3)] an [OF assms(4-6)] show ?thesis
    by (auto simp: e9_diff_objects_def simp del: e9_binary_create_def)
qed

lemma diff_raw_blind_witness:
  "e9_diff_objects (Some ([0x55, 0x48, 0x89] @ replicate 13 1)) (Some ([0x55, 0x48, 0x89] @ replicate 20 2)) =
    Some (Some \<lparr>ps_patches = [], ps_error = None\<rparr>)"
  by (rule diff_raw_blind) simp_all

end
