(* ===== verification/E9CGen.thy ===== *)
theory E9CGen
  imports E9AnPipeline
begin

text \<open>
  The text generators of \<open>src/src/e9patch/analysis/e9analysis.c\<close>: the C sketch of a function and
  of a block, the generated header and source, and the graph in DOT format.

  All but the last print with \<open>pos += snprintf (output + pos, buf_size - pos, ...)\<close> into a buffer of
  \<open>buf_size\<close> zero bytes.  The state is \<open>pos\<close> and the string in the buffer; as \<open>snprintf\<close> returns
  the length of the untruncated text, \<open>pos\<close> may pass \<open>buf_size\<close>, and then the unsigned difference
  wraps around and the next call writes outside the buffer (\<open>None\<close>).
\<close>

section \<open>Printing\<close>

type_synonym outbuf = "nat \<times> bytes"

definition emit :: "nat \<Rightarrow> bytes \<Rightarrow> outbuf \<Rightarrow> outbuf ub" where
  "emit n s st =
     (case st of (pos, buf) \<Rightarrow>
        if pos \<le> n then Some (pos + length s, if pos < n then buf @ take (n - pos - 1) s else buf) else None)"

fun emits :: "nat \<Rightarrow> bytes list \<Rightarrow> outbuf \<Rightarrow> outbuf ub" where
  "emits n [] st = Some st"
| "emits n (s # ss) st = do { st \<leftarrow> emit n s st; emits n ss st }"

text \<open>\<open>strstr (s, pat) != NULL\<close>\<close>

fun str_in :: "string \<Rightarrow> string \<Rightarrow> bool" where
  "str_in pat [] = (pat = [])"
| "str_in pat (c # s) = (take (length pat) (c # s) = pat \<or> str_in pat s)"

section \<open>Functions\<close>

definition name_or :: "string \<Rightarrow> bytes ptr \<Rightarrow> bytes" where
  "name_or s name = (case name of None \<Rightarrow> str_bytes s | Some n \<Rightarrow> n)"

definition signed_dec :: "int \<Rightarrow> string" where
  "signed_dec v = (if v < 0 then ''-'' @ dec (nat (- v)) else ''+'' @ dec (nat v))"

definition params_text :: "u32 \<Rightarrow> bytes list" where
  "params_text n =
     (if n = 0 then [str_bytes ''void'']
      else concat (map (\<lambda>i. (if 0 < i then [str_bytes '', ''] else []) @ [str_bytes (''int64_t arg'' @ dec i)]) [0 ..< unat n]))"

definition local_text :: "E9Variable ptr \<Rightarrow> bytes list" where
  "local_text v =
     (case v of
        None \<Rightarrow> []
      | Some x \<Rightarrow>
          (case var_name x of
             None \<Rightarrow> []
           | Some n \<Rightarrow> [str_bytes ''    int64_t '' @ n @ str_bytes (''; // [rbp'' @ signed_dec (var_stack_offset x) @ '']\<newline>'')]))"

text \<open>Everything before the first block, one element per \<open>snprintf\<close>.\<close>

definition signature_text :: "E9Function \<Rightarrow> bytes list" where
  "signature_text f =
     [str_bytes ''// Function: '' @ name_or ''unknown'' (fn_name f) @ str_bytes (''\<newline>// Address: 0x'' @ hex (unat (fn_address f)) @
        ''\<newline>// Size: '' @ dec (unat (fn_size f)) @ '' bytes\<newline>\<newline>''),
      str_bytes (if fn_is_noreturn f then ''void __attribute__((noreturn))'' else ''int64_t'') @ str_bytes '' '' @
        name_or ''sub'' (fn_name f) @ str_bytes ''(''] @
     params_text (fn_num_params f) @ [str_bytes '')\<newline>{\<newline>''] @
     (if fn_locals f \<noteq> [] then concat (map local_text (fn_locals f)) @ [str_bytes ''\<newline>''] else [])"

definition block_label :: "nat \<Rightarrow> E9BasicBlock \<Rightarrow> bytes" where
  "block_label i b = str_bytes (''block_'' @ dec i @ '':  // 0x'' @ hex (unat (bb_start b)) @ ''\<newline>'')"

text \<open>The comparison guessed from the mnemonic of a conditional jump, in the order of the tests.\<close>

definition cond_text :: "string \<Rightarrow> string" where
  "cond_text m =
     (if str_in ''z'' m \<or> str_in ''eq'' m then ''==''
      else if str_in ''nz'' m \<or> str_in ''ne'' m then ''!=''
      else if str_in ''l'' m \<or> str_in ''lt'' m then ''<''
      else if str_in ''g'' m then ''>''
      else if str_in ''le'' m then ''<=''
      else if str_in ''ge'' m then ''>=''
      else ''?'')"

definition target_block :: "E9CFG \<Rightarrow> AInsn \<Rightarrow> nat" where
  "target_block cfg i = (case find_block (ai_target i) (cfg_blocks cfg) of None \<Rightarrow> 0 | Some j \<Rightarrow> j)"

definition insn_c_text :: "E9Analysis \<Rightarrow> E9CFG \<Rightarrow> AInsn \<Rightarrow> bytes ub" where
  "insn_c_text bin cfg i =
     (case ai_category i of
        E9_INSN_CALL \<Rightarrow>
          if ai_target i = 0 then Some (str_bytes ''    result = (*ptr)(); // indirect call\<newline>'')
          else
            let addr = str_bytes (''(); // call 0x'' @ hex (unat (ai_target i)) @ ''\<newline>'') in
            (case e9_symbol_at (Some bin) (ai_target i) of
               None \<Rightarrow> Some (str_bytes ''    result = func'' @ addr)
             | Some k \<Rightarrow> map_option (\<lambda>n. str_bytes ''    result = '' @ n @ addr) (sy_name (elem_at k (an_symbols bin))))
      | E9_INSN_RET \<Rightarrow> Some (str_bytes ''    return result;\<newline>'')
      | E9_INSN_COND_JUMP \<Rightarrow>
          Some (str_bytes (''    if (cmp '' @ cond_text (ai_mnemonic i) @ '' 0) goto block_'' @ dec (target_block cfg i) @ '';\<newline>''))
      | E9_INSN_JUMP \<Rightarrow> Some (str_bytes (''    goto block_'' @ dec (target_block cfg i) @ '';\<newline>''))
      | _ \<Rightarrow> Some (str_bytes (''    // '' @ ai_mnemonic i @ '' '' @ ai_operands i @ ''\<newline>'')))"

fun decompile_insns :: "nat \<Rightarrow> E9Analysis \<Rightarrow> E9CFG \<Rightarrow> AInsn list \<Rightarrow> outbuf \<Rightarrow> outbuf ub" where
  "decompile_insns n bin cfg [] st = Some st"
| "decompile_insns n bin cfg (i # is) st =
     (if fst st < n - 256 then do {
        s \<leftarrow> insn_c_text bin cfg i;
        st \<leftarrow> emit n s st;
        decompile_insns n bin cfg is st
      } else Some st)"

fun decompile_blocks :: "nat \<Rightarrow> E9Analysis \<Rightarrow> E9CFG \<Rightarrow> nat \<Rightarrow> E9BasicBlock list \<Rightarrow> outbuf \<Rightarrow> outbuf ub" where
  "decompile_blocks n bin cfg i [] st = Some st"
| "decompile_blocks n bin cfg i (b # bs) st = do {
     st \<leftarrow> emit n (block_label i b) st;
     st \<leftarrow> decompile_insns n bin cfg (bb_insns b) st;
     st \<leftarrow> emit n (str_bytes ''\<newline>'') st;
     decompile_blocks n bin cfg (i + 1) bs st
   }"

definition decompile_size :: "E9CFG \<Rightarrow> nat" where
  "decompile_size cfg = 4096 + length (cfg_blocks cfg) * 512"

definition decompile_function :: "E9Analysis \<Rightarrow> E9CFG \<Rightarrow> E9Function \<Rightarrow> bytes ub" where
  "decompile_function bin cfg f =
     (let n = decompile_size cfg in do {
        st \<leftarrow> emits n (signature_text f) (0, []);
        st \<leftarrow> decompile_blocks n bin cfg 0 (cfg_blocks cfg) st;
        st \<leftarrow> emit n (str_bytes ''}\<newline>'') st;
        Some (snd st)
      })"

text \<open>The result is stored in the function as well.\<close>

definition e9_decompile_function :: "E9Analysis ptr \<Rightarrow> E9Function ptr \<Rightarrow> (bytes ptr \<times> E9Function ptr) ub" where
  "e9_decompile_function b func =
     (case (b, func) of
        (Some bin, Some f) \<Rightarrow>
          (case fn_cfg f of
             None \<Rightarrow> Some (None, func)
           | Some cfg \<Rightarrow>
               map_option (\<lambda>s. (Some s, Some (f\<lparr>fn_decompiled_c := Some s\<rparr>))) (decompile_function bin cfg f))
      | _ \<Rightarrow> Some (None, func))"

section \<open>Blocks\<close>

definition insn_comment :: "AInsn \<Rightarrow> bytes" where
  "insn_comment i =
     (case ai_category i of
        E9_INSN_MOV \<Rightarrow> str_bytes (''// mov: '' @ ai_operands i @ ''\<newline>'')
      | E9_INSN_ARITHMETIC \<Rightarrow> str_bytes (''// arith: '' @ ai_mnemonic i @ '' '' @ ai_operands i @ ''\<newline>'')
      | _ \<Rightarrow> str_bytes (''// '' @ ai_mnemonic i @ '' '' @ ai_operands i @ ''\<newline>''))"

fun comment_insns :: "nat \<Rightarrow> AInsn list \<Rightarrow> outbuf \<Rightarrow> outbuf ub" where
  "comment_insns n [] st = Some st"
| "comment_insns n (i # is) st =
     (if fst st < n - 128 then do { st \<leftarrow> emit n (insn_comment i) st; comment_insns n is st } else Some st)"

definition e9_decompile_block :: "E9Analysis ptr \<Rightarrow> E9BasicBlock ptr \<Rightarrow> bytes ptr ub" where
  "e9_decompile_block b block =
     (case (b, block) of
        (Some _, Some bb) \<Rightarrow>
          map_option (\<lambda>st. Some (snd st)) (comment_insns (1024 + length (bb_insns bb) * 128) (bb_insns bb) (0, []))
      | _ \<Rightarrow> Some None)"

section \<open>Header and source files\<close>

definition format_text :: "E9Format \<Rightarrow> string" where
  "format_text fmt =
     (case fmt of E9_FORMAT_ELF \<Rightarrow> ''ELF'' | E9_FORMAT_PE \<Rightarrow> ''PE'' | E9_FORMAT_MACHO \<Rightarrow> ''Mach-O'' | _ \<Rightarrow> ''raw'')"

fun header_functions :: "nat \<Rightarrow> E9Function list \<Rightarrow> outbuf \<Rightarrow> outbuf ub" where
  "header_functions n [] st = Some st"
| "header_functions n (f # fs) st =
     (if fst st < n - 256 then do {
        st \<leftarrow> emit n (str_bytes (''/* 0x'' @ hex (unat (fn_address f)) @ '' */ int64_t '') @ name_or ''sub'' (fn_name f) @
          str_bytes ''();\<newline>'') st;
        header_functions n fs st
      } else Some st)"

definition e9_generate_header :: "E9Analysis ptr \<Rightarrow> bytes ptr ub" where
  "e9_generate_header b =
     (case b of
        None \<Rightarrow> Some None
      | Some bin \<Rightarrow>
          let n = 4096 + length (an_functions bin) * 128 in do {
            st \<leftarrow> emit n (str_bytes (''/*\<newline> * Auto-generated header for binary at 0x'' @ hex (unat (bin_base_address bin)) @
              ''\<newline> * Architecture: '' @
              (case bin_arch bin of E9_ARCH_X86_64 \<Rightarrow> ''x86-64'' | E9_ARCH_AARCH64 \<Rightarrow> ''AArch64'' | _ \<Rightarrow> ''unknown'') @
              ''\<newline> * Format: '' @ format_text (an_format bin) @ ''\<newline> */\<newline>\<newline>'')) (0, []);
            st \<leftarrow> emit n (str_bytes ''#ifndef _BINARY_H\<newline>#define _BINARY_H\<newline>\<newline>#include <stdint.h>\<newline>\<newline>'') st;
            st \<leftarrow> header_functions n (an_functions bin) st;
            st \<leftarrow> emit n (str_bytes ''\<newline>#endif /* _BINARY_H */\<newline>'') st;
            Some (Some (snd st))
          })"

fun source_vars :: "nat \<Rightarrow> E9Symbol list \<Rightarrow> outbuf \<Rightarrow> outbuf ub" where
  "source_vars n [] st = Some st"
| "source_vars n (s # ss) st =
     (if fst st < n - 256 then do {
        st \<leftarrow> (if sy_type s = E9_SYM_GLOBAL_VAR then
          emit n (str_bytes (''/* 0x'' @ hex (unat (sy_address s)) @ '' */ int64_t '') @ name_or ''var'' (sy_name s) @
            str_bytes '';\<newline>'') st else Some st);
        source_vars n ss st
      } else Some st)"

text \<open>The functions are decompiled on the way; what fits is copied.\<close>

fun source_functions ::
  "nat \<Rightarrow> E9Analysis \<Rightarrow> E9Function list \<Rightarrow> outbuf \<Rightarrow> (outbuf \<times> E9Function list) ub" where
  "source_functions n bin [] st = Some (st, [])"
| "source_functions n bin (f # fs) st =
     (if fst st < n - 1024 then do {
        (_, f') \<leftarrow> (if fn_decompiled_c f = None then e9_decompile_function (Some bin) (Some f) else Some (None, Some f));
        let f = (case f' of None \<Rightarrow> f | Some g \<Rightarrow> g);
        st \<leftarrow> (case fn_decompiled_c f of
           None \<Rightarrow> Some st
         | Some s \<Rightarrow> if fst st + length s < n then emit n (str_bytes ''\<newline>'') (fst st + length s, snd st @ s) else Some st);
        (st, fs) \<leftarrow> source_functions n bin fs st;
        Some (st, f # fs)
      } else Some (st, f # fs))"

definition e9_generate_source :: "E9Analysis ptr \<Rightarrow> (bytes ptr \<times> E9Analysis ptr) ub" where
  "e9_generate_source b =
     (case b of
        None \<Rightarrow> Some (None, None)
      | Some bin \<Rightarrow>
          let n = 8192 + length (an_functions bin) * 2048 in do {
            st \<leftarrow> emit n (str_bytes (''/*\<newline> * Decompiled source for binary\<newline> * Generated by E9Studio analysis engine\<newline> *\<newline> * Architecture: '' @
              (if bin_arch bin = E9_ARCH_X86_64 then ''x86-64'' else ''AArch64'') @ ''\<newline> * Entry point: 0x'' @
              hex (unat (an_entry_point bin)) @ ''\<newline> */\<newline>\<newline>'')) (0, []);
            st \<leftarrow> emit n (str_bytes ''#include <stdint.h>\<newline>#include <stddef.h>\<newline>\<newline>'') st;
            st \<leftarrow> source_vars n (an_symbols bin) st;
            st \<leftarrow> emit n (str_bytes ''\<newline>'') st;
            (st, fs) \<leftarrow> source_functions n bin (an_functions bin) st;
            Some (Some (snd st), Some (bin\<lparr>an_functions := fs\<rparr>))
          })"

section \<open>DOT\<close>

definition dot_node :: "E9BasicBlock \<Rightarrow> nat \<Rightarrow> string" where
  "dot_node b i = ''    block_'' @ dec i @ '' [label='' @ [CHR 0x22] @ ''BB'' @ dec i @ [CHR 0x5C] @ ''n0x'' @
     hex (unat (bb_start b)) @ '' - 0x'' @ hex (unat (bb_end b)) @ [CHR 0x5C] @ ''n'' @
     dec (length (bb_insns b)) @ '' insns'' @ [CHR 0x22] @ ''];\<newline>''"

definition dot_edge :: "nat \<Rightarrow> nat \<Rightarrow> string" where
  "dot_edge i j = ''    block_'' @ dec i @ '' -> block_'' @ dec j @ '';\<newline>''"

text \<open>The text written, where the file can be opened.\<close>

definition dot_text :: "E9CFG \<Rightarrow> string" where
  "dot_text cfg =
     ''digraph CFG {\<newline>    node [shape=box, fontname='' @ [CHR 0x22] @ ''monospace'' @ [CHR 0x22] @ ''];\<newline>    rankdir=TB;\<newline>\<newline>'' @
     concat (map (\<lambda>i. dot_node (cfg_blocks cfg ! i) i) [0 ..< length (cfg_blocks cfg)]) @ ''\<newline>'' @
     concat (map (\<lambda>i. concat (map (dot_edge i) (bb_succs (cfg_blocks cfg ! i)))) [0 ..< length (cfg_blocks cfg)]) @
     ''}\<newline>''"

definition e9_cfg_to_dot :: "E9CFG ptr \<Rightarrow> bytes ptr \<Rightarrow> bool \<Rightarrow> int \<times> string" where
  "e9_cfg_to_dot cfg path opens =
     (case (cfg, path) of
        (Some c, Some _) \<Rightarrow> if opens then (0, dot_text c) else (-1, [])
      | _ \<Rightarrow> (-1, []))"

section \<open>Printing with room\<close>

lemma emit_room:
  "pos = length buf \<Longrightarrow> pos + length s < n \<Longrightarrow> emit n s (pos, buf) = Some (pos + length s, buf @ s)"
  by (simp add: emit_def)

lemma emits_room:
  "length buf + length (concat ss) < n \<Longrightarrow> emits n ss (length buf, buf) = Some (length (buf @ concat ss), buf @ concat ss)"
proof (induction ss arbitrary: buf)
  case Nil
  then show ?case by simp
next
  case (Cons s ss)
  from Cons.prems Cons.IH [of "buf @ s"] show ?case by (simp add: emit_room)
qed

text \<open>The text without a limit.\<close>

fun insns_text :: "E9Analysis \<Rightarrow> E9CFG \<Rightarrow> AInsn list \<Rightarrow> bytes ub" where
  "insns_text bin cfg [] = Some []"
| "insns_text bin cfg (i # is) = do { s \<leftarrow> insn_c_text bin cfg i; t \<leftarrow> insns_text bin cfg is; Some (s @ t) }"

fun blocks_text :: "E9Analysis \<Rightarrow> E9CFG \<Rightarrow> nat \<Rightarrow> E9BasicBlock list \<Rightarrow> bytes ub" where
  "blocks_text bin cfg i [] = Some []"
| "blocks_text bin cfg i (b # bs) = do {
     s \<leftarrow> insns_text bin cfg (bb_insns b);
     t \<leftarrow> blocks_text bin cfg (i + 1) bs;
     Some (block_label i b @ s @ str_bytes ''\<newline>'' @ t)
   }"

lemma decompile_insns_room:
  "insns_text bin cfg is = Some t \<Longrightarrow> length buf + length t + 256 < n \<Longrightarrow>
   decompile_insns n bin cfg is (length buf, buf) = Some (length (buf @ t), buf @ t)"
proof (induction "is" arbitrary: buf t)
  case Nil
  then show ?case by simp
next
  case (Cons i "is")
  from Cons.prems(1) obtain s r where s: "insn_c_text bin cfg i = Some s" "insns_text bin cfg is = Some r" "t = s @ r"
    by (auto simp: Option.bind_eq_Some_conv)
  have "length buf < n - 256" using Cons.prems(2) by linarith
  with Cons.IH [OF s(2), of "buf @ s"] Cons.prems(2) s show ?case by (simp add: emit_room)
qed

lemma decompile_blocks_room:
  "blocks_text bin cfg i bs = Some t \<Longrightarrow> length buf + length t + 256 < n \<Longrightarrow>
   decompile_blocks n bin cfg i bs (length buf, buf) = Some (length (buf @ t), buf @ t)"
proof (induction bs arbitrary: i buf t)
  case Nil
  then show ?case by simp
next
  case (Cons b bs)
  let ?l = "block_label i b" and ?nl = "str_bytes ''\<newline>''"
  from Cons.prems(1) obtain s r where s: "insns_text bin cfg (bb_insns b) = Some s" "blocks_text bin cfg (i + 1) bs = Some r"
    "t = ?l @ s @ ?nl @ r"
    by (auto simp: Option.bind_eq_Some_conv)
  note room = Cons.prems(2) [unfolded s(3)]
  have "emit n ?l (length buf, buf) = Some (length (buf @ ?l), buf @ ?l)" using room by (simp add: emit_room)
  moreover have "decompile_insns n bin cfg (bb_insns b) (length (buf @ ?l), buf @ ?l) =
      Some (length (buf @ ?l @ s), buf @ ?l @ s)"
    using decompile_insns_room [OF s(1), of "buf @ ?l" n] room by simp
  moreover have "emit n ?nl (length (buf @ ?l @ s), buf @ ?l @ s) =
      Some (length (buf @ ?l @ s @ ?nl), buf @ ?l @ s @ ?nl)"
    using room by (simp add: emit_room)
  ultimately show ?case using Cons.IH [OF s(2), of "buf @ ?l @ s @ ?nl"] room s(3) by simp
qed

section \<open>Printing without room\<close>

lemma emit_pos: "emit n s st = Some st' \<Longrightarrow> fst st' = fst st + length s \<and> fst st \<le> n"
  by (auto simp: emit_def split: prod.splits if_splits)

lemma text_nonempty: "1 \<le> length (hex n)" "1 \<le> length (dec n)"
  by (subst hex.simps, simp) (subst dec.simps, simp)

lemma insn_c_text_length: "insn_c_text bin cfg i = Some s \<Longrightarrow> 9 \<le> length s"
  by (auto simp: insn_c_text_def str_bytes_def Let_def split: E9InsnCategory.splits if_splits option.splits)

lemma block_label_length: "17 \<le> length (block_label i b)"
  using text_nonempty(1) [of "unat (bb_start b)"] text_nonempty(2) [of i] by (simp add: block_label_def str_bytes_def)

lemma decompile_insns_pos:
  "decompile_insns n bin cfg is st = Some st' \<Longrightarrow>
   fst st \<le> fst st' \<and> (n - 256 \<le> fst st' \<or> fst st + 9 * length is \<le> fst st')"
proof (induction "is" arbitrary: st)
  case Nil
  then show ?case by simp
next
  case (Cons i "is")
  show ?case
  proof (cases "fst st < n - 256")
    case False
    with Cons.prems show ?thesis by auto
  next
    case True
    with Cons.prems obtain s st1 where s: "insn_c_text bin cfg i = Some s" "emit n s st = Some st1"
      "decompile_insns n bin cfg is st1 = Some st'" by (auto simp: Option.bind_eq_Some_conv)
    from Cons.IH [OF s(3)] emit_pos [OF s(2)] insn_c_text_length [OF s(1)] show ?thesis by auto
  qed
qed

lemma decompile_blocks_pos:
  "decompile_blocks n bin cfg i bs st = Some st' \<Longrightarrow> fst st + 18 * length bs \<le> fst st'"
proof (induction bs arbitrary: i st)
  case Nil
  then show ?case by simp
next
  case (Cons b bs)
  from Cons.prems obtain st1 st2 st3 where s: "emit n (block_label i b) st = Some st1"
    "decompile_insns n bin cfg (bb_insns b) st1 = Some st2" "emit n (str_bytes ''\<newline>'') st2 = Some st3"
    "decompile_blocks n bin cfg (i + 1) bs st3 = Some st'" by (auto simp: Option.bind_eq_Some_conv)
  from Cons.IH [OF s(4)] emit_pos [OF s(1)] emit_pos [OF s(3)] decompile_insns_pos [OF s(2)] block_label_length [of i b]
  show ?case by (simp add: str_bytes_def)
qed

lemma str_in_head: "str_in (c # pat) m \<Longrightarrow> str_in [c] m"
  by (induction m) auto

section \<open>Properties\<close>

text \<open>
  C27.  Within its buffer e9_decompile_function prints the whole function: the signature, then for
  every block a label and one statement per instruction, in the order of the graph; the same text
  is stored in the function.
\<close>

theorem decompile_function_text:
  assumes "fn_cfg f = Some cfg" and "blocks_text bin cfg 0 (cfg_blocks cfg) = Some t"
    and "length (concat (signature_text f)) + length t + 256 < decompile_size cfg"
  shows "e9_decompile_function (Some bin) (Some f) =
    (let s = concat (signature_text f) @ t @ str_bytes ''}\<newline>'' in Some (Some s, Some (f\<lparr>fn_decompiled_c := Some s\<rparr>)))"
proof -
  let ?n = "decompile_size cfg" and ?sig = "concat (signature_text f)"
  have "emits ?n (signature_text f) (0, []) = Some (length ?sig, ?sig)"
    using emits_room [of "[]" "signature_text f" ?n] assms(3) by simp
  moreover have "decompile_blocks ?n bin cfg 0 (cfg_blocks cfg) (length ?sig, ?sig) = Some (length (?sig @ t), ?sig @ t)"
    by (rule decompile_blocks_room [OF assms(2,3)])
  moreover have "emit ?n (str_bytes ''}\<newline>'') (length (?sig @ t), ?sig @ t) =
      Some (length (?sig @ t) + 2, (?sig @ t) @ str_bytes ''}\<newline>'')"
    using assms(3) emit_room [of "length (?sig @ t)" "?sig @ t" "str_bytes ''}\<newline>''" ?n] by (simp add: str_bytes_def)
  ultimately have "decompile_function bin cfg f = Some (?sig @ t @ str_bytes ''}\<newline>'')"
    by (simp add: decompile_function_def Let_def)
  with assms(1) show ?thesis by (simp add: e9_decompile_function_def Let_def)
qed

definition ret_insn :: AInsn where
  "ret_insn = (fresh_insn 0x1000 1 [0xC3])\<lparr>ai_category := E9_INSN_RET, ai_mnemonic := ''ret''\<rparr>"

definition nop_insn :: AInsn where
  "nop_insn = (fresh_insn 0x1000 1 [0x90])\<lparr>ai_mnemonic := ''nop''\<rparr>"

definition plain_block :: "AInsn list \<Rightarrow> E9BasicBlock" where
  "plain_block is = \<lparr>bb_start = 0x1000, bb_end = 0x1000, bb_insns = is, bb_preds = [], bb_succs = []\<rparr>"

definition plain_cfg :: "E9BasicBlock list \<Rightarrow> E9CFG" where
  "plain_cfg bs = \<lparr>cfg_blocks = bs, cfg_entry = Some 0, cfg_exits = [], cfg_complexity = 1\<rparr>"

definition plain_fn :: "E9BasicBlock list \<Rightarrow> E9Function" where
  "plain_fn bs = (new_function 0x1000 (Some (str_bytes ''f'')))\<lparr>fn_cfg := Some (plain_cfg bs)\<rparr>"

lemma decompile_function_text_witness:
  "map_option fst (e9_decompile_function (Some raw_demo) (Some (plain_fn [plain_block [ret_insn]]))) =
    Some (Some (str_bytes (''// Function: f\<newline>// Address: 0x1000\<newline>// Size: 0 bytes\<newline>\<newline>int64_t f(void)\<newline>{\<newline>'' @
      ''block_0:  // 0x1000\<newline>    return result;\<newline>\<newline>}\<newline>'')))"
proof -
  let ?t = "str_bytes ''block_0:  // 0x1000\<newline>    return result;\<newline>\<newline>''"
  have t: "blocks_text raw_demo (plain_cfg [plain_block [ret_insn]]) 0 (cfg_blocks (plain_cfg [plain_block [ret_insn]])) = Some ?t"
    by code_simp
  have sg: "concat (signature_text (plain_fn [plain_block [ret_insn]])) =
      str_bytes ''// Function: f\<newline>// Address: 0x1000\<newline>// Size: 0 bytes\<newline>\<newline>int64_t f(void)\<newline>{\<newline>''"
    by code_simp
  have "e9_decompile_function (Some raw_demo) (Some (plain_fn [plain_block [ret_insn]])) =
    (let s = concat (signature_text (plain_fn [plain_block [ret_insn]])) @ ?t @ str_bytes ''}\<newline>''
     in Some (Some s, Some ((plain_fn [plain_block [ret_insn]])\<lparr>fn_decompiled_c := Some s\<rparr>)))"
    by (rule decompile_function_text [OF _ t])
      (simp_all only: sg, simp_all add: plain_fn_def str_bytes_def decompile_size_def plain_cfg_def)
  then show ?thesis by (simp only: sg Let_def) (simp add: str_bytes_def)
qed

text \<open>
  e9_decompile_function overflows its buffer on large functions.  The limit of the loop over
  the instructions keeps 256 bytes free, but the labels of the blocks that follow are printed
  without a test: a first block whose text fills the buffer, followed by at least 15 blocks, moves
  pos past the end, and \<open>buf_size - pos\<close> wraps around.
\<close>

theorem decompile_overflow:
  assumes "fn_cfg f = Some cfg" and "cfg_blocks cfg = b # bs" and "15 \<le> length bs"
    and "decompile_size cfg \<le> 9 * length (bb_insns b)"
  shows "e9_decompile_function (Some bin) (Some f) = None"
proof -
  let ?n = "decompile_size cfg"
  have "decompile_function bin cfg f = None"
  proof (rule ccontr)
    assume "decompile_function bin cfg f \<noteq> None"
    then obtain st0 st1 st2 st3 st4 st5 where s: "emits ?n (signature_text f) (0, []) = Some st0"
      "emit ?n (block_label 0 b) st0 = Some st1" "decompile_insns ?n bin cfg (bb_insns b) st1 = Some st2"
      "emit ?n (str_bytes ''\<newline>'') st2 = Some st3" "decompile_blocks ?n bin cfg 1 bs st3 = Some st4"
      "emit ?n (str_bytes ''}\<newline>'') st4 = Some st5"
      by (auto simp: decompile_function_def Let_def assms(2) Option.bind_eq_Some_conv)
    have "?n \<le> fst st2 + 256" using decompile_insns_pos [OF s(3)] assms(4) by auto
    moreover have "fst st2 \<le> fst st3" using emit_pos [OF s(4)] by simp
    moreover have "fst st3 + 270 \<le> fst st4" using decompile_blocks_pos [OF s(5)] assms(3) by simp
    moreover have "fst st4 \<le> ?n" using emit_pos [OF s(6)] by simp
    ultimately show False by linarith
  qed
  with assms(1) show ?thesis by (simp add: e9_decompile_function_def)
qed

lemma decompile_overflow_witness:
  "e9_decompile_function (Some raw_demo)
     (Some (plain_fn (plain_block (replicate 1400 nop_insn) # replicate 15 (plain_block [ret_insn])))) = None"
  by (rule decompile_overflow [where cfg = "plain_cfg (plain_block (replicate 1400 nop_insn) # replicate 15 (plain_block [ret_insn]))"
      and b = "plain_block (replicate 1400 nop_insn)" and bs = "replicate 15 (plain_block [ret_insn])"])
    (simp_all add: plain_fn_def plain_cfg_def plain_block_def decompile_size_def)

text \<open>
  C37.  The conditions of the generated C code are wrong for the mnemonics that the two decoders
  produce: the tests for \<open>z\<close>, \<open>l\<close> and \<open>g\<close> come before those for \<open>nz\<close>, \<open>le\<close> and \<open>ge\<close>, so that
  \<open>jnz\<close> reads as equality, \<open>jle\<close> as less, \<open>jge\<close> as greater and even \<open>b.pl\<close> as less, and \<open><=\<close> and
  \<open>>=\<close> are never printed for any mnemonic.
\<close>

theorem decompile_conditions_wrong:
  "cond_text m \<noteq> ''<='' \<and> cond_text m \<noteq> ''>='' \<and>
   map cond_text cond_jump_names =
     [''?'', ''?'', ''?'', ''?'', ''=='', ''=='', ''?'', ''?'', ''?'', ''?'', ''?'', ''?'', ''<'', ''>'', ''<'', ''>''] \<and>
   map (\<lambda>c. cond_text (''b.'' @ c)) a64_cond_names =
     [''=='', ''!='', ''?'', ''?'', ''?'', ''<'', ''?'', ''?'', ''?'', ''<'', ''>'', ''<'', ''>'', ''<'', ''<'', ''?'']"
proof (intro conjI)
  show "cond_text m \<noteq> ''<=''" using str_in_head [of "CHR ''l''" "''e''" m] by (auto simp: cond_text_def)
  show "cond_text m \<noteq> ''>=''" using str_in_head [of "CHR ''g''" "''e''" m] by (auto simp: cond_text_def)
qed code_simp+

end
