(* ===== verification/E9FuncSigs.thy ===== *)
theory E9FuncSigs
  imports E9AnPipeline
begin

text \<open>
  The function signature database of \<open>src/src/e9patch/analysis/e9func_sigs.c\<close>: the built-in
  tables, the matcher, the pass that names the functions of an analysed image, and the export.

  A signature is identified by a byte pattern at the start of the function, by a pattern anywhere
  after it, or by the number of the first system call after it.  "After it" is the rest of the
  file: no size of the function is passed in, and \<open>min_size\<close> and \<open>max_size\<close> are not read.

  A pointer to a signature is its index in the database.  The pointer \<open>code + k\<close> is the rest of
  the bytes after dropping \<open>k\<close>; \<open>None\<close> in the result of a search is a read outside the
  buffer, through a null pattern, or the overflow of an \<open>int\<close>.  A database holds fewer than
  \<open>2^32\<close> signatures.
\<close>

section \<open>Data\<close>

datatype E9FuncSigType =
    E9_FSIG_PROLOGUE
  | E9_FSIG_EPILOGUE
  | E9_FSIG_BODY
  | E9_FSIG_CONSTANT
  | E9_FSIG_SYSCALL
  | E9_FSIG_STRING_REF

datatype E9FuncSigArch =
    E9_FSIG_ARCH_ANY
  | E9_FSIG_ARCH_X64
  | E9_FSIG_ARCH_AARCH64

datatype E9ConfLevel =
    E9_CONF_LOW
  | E9_CONF_MEDIUM
  | E9_CONF_HIGH
  | E9_CONF_CERTAIN

fun conf_num :: "E9ConfLevel \<Rightarrow> u32" where
  "conf_num E9_CONF_LOW = 1"
| "conf_num E9_CONF_MEDIUM = 2"
| "conf_num E9_CONF_HIGH = 3"
| "conf_num E9_CONF_CERTAIN = 4"

record E9FuncSig =
  fs_name :: string
  fs_lib :: string
  fs_type :: E9FuncSigType
  fs_arch :: E9FuncSigArch
  fs_pattern :: "bytes ptr"
  fs_mask :: "bytes ptr"
  fs_pattern_len :: nat
  fs_offset :: int
  fs_min_size :: u32
  fs_max_size :: u32
  fs_ref_string :: "string ptr"
  fs_syscall_nr :: int
  fs_ret_type :: "string ptr"
  fs_param_types :: "string ptr"
  fs_flags :: u32

definition E9_FSIG_FLAG_NORETURN :: u32 where "E9_FSIG_FLAG_NORETURN = 0x0001"
definition E9_FSIG_FLAG_LEAF :: u32 where "E9_FSIG_FLAG_LEAF = 0x0002"
definition E9_FSIG_FLAG_VARIADIC :: u32 where "E9_FSIG_FLAG_VARIADIC = 0x0004"

record E9FuncSigMatch =
  fm_sig :: nat \<comment> \<open>index in the database\<close>
  fm_address :: u64
  fm_confidence :: E9ConfLevel
  fm_score :: u32

section \<open>The built-in signatures\<close>

definition X64_PROLOGUE_1 :: bytes where "X64_PROLOGUE_1 = [0x55, 0x48, 0x89, 0xE5]"

definition X64_PROLOGUE_2 :: bytes where "X64_PROLOGUE_2 = [0x55, 0x48, 0x8B, 0xEC]"

definition X64_PROLOGUE_3 :: bytes where "X64_PROLOGUE_3 = [0x41, 0x57]"

definition X64_PROLOGUE_4 :: bytes where "X64_PROLOGUE_4 = [0x53]"

definition X64_EPILOGUE_1 :: bytes where "X64_EPILOGUE_1 = [0x5D, 0xC3]"

definition X64_EPILOGUE_2 :: bytes where "X64_EPILOGUE_2 = [0xC9, 0xC3]"

definition A64_PROLOGUE_1 :: bytes where "A64_PROLOGUE_1 = [0xFD, 0x7B, 0xBF, 0xA9]"

definition A64_EPILOGUE_1 :: bytes where "A64_EPILOGUE_1 = [0xFD, 0x7B, 0xC1, 0xA8, 0xC0, 0x03, 0x5F, 0xD6]"

definition MASK_EXACT_4 :: bytes where "MASK_EXACT_4 = [0xFF, 0xFF, 0xFF, 0xFF]"

definition MASK_EXACT_2 :: bytes where "MASK_EXACT_2 = [0xFF, 0xFF]"

definition MASK_EXACT_1 :: bytes where "MASK_EXACT_1 = [0xFF]"

definition MASK_EXACT_8 :: bytes where "MASK_EXACT_8 = [0xFF, 0xFF, 0xFF, 0xFF, 0xFF, 0xFF, 0xFF, 0xFF]"

definition E9_SIGS_LIBC :: "E9FuncSig list" where
  "E9_SIGS_LIBC =
    [
     \<lparr>fs_name = ''strlen'', fs_lib = ''libc'', fs_type = E9_FSIG_PROLOGUE, fs_arch = E9_FSIG_ARCH_X64,
      fs_pattern = Some [0x31, 0xC0], fs_mask = Some MASK_EXACT_2, fs_pattern_len = 2, fs_offset = 0,
      fs_min_size = 8, fs_max_size = 200, fs_ref_string = None, fs_syscall_nr = 0,
      fs_ret_type = Some ''size_t'', fs_param_types = Some ''const char *'', fs_flags = E9_FSIG_FLAG_LEAF\<rparr>,
     \<lparr>fs_name = ''memcpy'', fs_lib = ''libc'', fs_type = E9_FSIG_PROLOGUE, fs_arch = E9_FSIG_ARCH_X64,
      fs_pattern = Some X64_PROLOGUE_1, fs_mask = Some MASK_EXACT_4, fs_pattern_len = 4, fs_offset = 0,
      fs_min_size = 16, fs_max_size = 500, fs_ref_string = None, fs_syscall_nr = 0,
      fs_ret_type = Some ''void *'', fs_param_types = Some ''void *, const void *, size_t'', fs_flags = 0\<rparr>,
     \<lparr>fs_name = ''memset'', fs_lib = ''libc'', fs_type = E9_FSIG_PROLOGUE, fs_arch = E9_FSIG_ARCH_X64,
      fs_pattern = Some X64_PROLOGUE_1, fs_mask = Some MASK_EXACT_4, fs_pattern_len = 4, fs_offset = 0,
      fs_min_size = 16, fs_max_size = 300, fs_ref_string = None, fs_syscall_nr = 0,
      fs_ret_type = Some ''void *'', fs_param_types = Some ''void *, int, size_t'', fs_flags = 0\<rparr>,
     \<lparr>fs_name = ''malloc'', fs_lib = ''libc'', fs_type = E9_FSIG_PROLOGUE, fs_arch = E9_FSIG_ARCH_X64,
      fs_pattern = Some X64_PROLOGUE_1, fs_mask = Some MASK_EXACT_4, fs_pattern_len = 4, fs_offset = 0,
      fs_min_size = 32, fs_max_size = 2000, fs_ref_string = None, fs_syscall_nr = 0,
      fs_ret_type = Some ''void *'', fs_param_types = Some ''size_t'', fs_flags = 0\<rparr>,
     \<lparr>fs_name = ''free'', fs_lib = ''libc'', fs_type = E9_FSIG_PROLOGUE, fs_arch = E9_FSIG_ARCH_X64,
      fs_pattern = Some X64_PROLOGUE_1, fs_mask = Some MASK_EXACT_4, fs_pattern_len = 4, fs_offset = 0,
      fs_min_size = 16, fs_max_size = 1000, fs_ref_string = None, fs_syscall_nr = 0,
      fs_ret_type = Some ''void'', fs_param_types = Some ''void *'', fs_flags = 0\<rparr>,
     \<lparr>fs_name = ''printf'', fs_lib = ''libc'', fs_type = E9_FSIG_PROLOGUE, fs_arch = E9_FSIG_ARCH_X64,
      fs_pattern = Some X64_PROLOGUE_1, fs_mask = Some MASK_EXACT_4, fs_pattern_len = 4, fs_offset = 0,
      fs_min_size = 32, fs_max_size = 2000, fs_ref_string = None, fs_syscall_nr = 0,
      fs_ret_type = Some ''int'', fs_param_types = Some ''const char *, ...'', fs_flags = E9_FSIG_FLAG_VARIADIC\<rparr>
    ]"

definition E9_SIGS_COMPILER :: "E9FuncSig list" where
  "E9_SIGS_COMPILER =
    [
     \<lparr>fs_name = ''__stack_chk_fail'', fs_lib = ''compiler'', fs_type = E9_FSIG_BODY, fs_arch = E9_FSIG_ARCH_X64,
      fs_pattern = Some [0xE8], fs_mask = Some MASK_EXACT_1, fs_pattern_len = 1, fs_offset = 0,
      fs_min_size = 4, fs_max_size = 64, fs_ref_string = None, fs_syscall_nr = 0,
      fs_ret_type = Some ''void'', fs_param_types = Some '''', fs_flags = E9_FSIG_FLAG_NORETURN\<rparr>,
     \<lparr>fs_name = ''__divdi3'', fs_lib = ''compiler'', fs_type = E9_FSIG_PROLOGUE, fs_arch = E9_FSIG_ARCH_X64,
      fs_pattern = Some X64_PROLOGUE_1, fs_mask = Some MASK_EXACT_4, fs_pattern_len = 4, fs_offset = 0,
      fs_min_size = 16, fs_max_size = 256, fs_ref_string = None, fs_syscall_nr = 0,
      fs_ret_type = Some ''int64_t'', fs_param_types = Some ''int64_t, int64_t'', fs_flags = 0\<rparr>
    ]"

definition E9_SIGS_CXXRT :: "E9FuncSig list" where
  "E9_SIGS_CXXRT =
    [
     \<lparr>fs_name = ''_Znwm'', fs_lib = ''cxx'', fs_type = E9_FSIG_PROLOGUE, fs_arch = E9_FSIG_ARCH_X64,
      fs_pattern = Some X64_PROLOGUE_1, fs_mask = Some MASK_EXACT_4, fs_pattern_len = 4, fs_offset = 0,
      fs_min_size = 16, fs_max_size = 256, fs_ref_string = None, fs_syscall_nr = 0,
      fs_ret_type = Some ''void *'', fs_param_types = Some ''size_t'', fs_flags = 0\<rparr>,
     \<lparr>fs_name = ''_ZdlPv'', fs_lib = ''cxx'', fs_type = E9_FSIG_PROLOGUE, fs_arch = E9_FSIG_ARCH_X64,
      fs_pattern = Some X64_PROLOGUE_1, fs_mask = Some MASK_EXACT_4, fs_pattern_len = 4, fs_offset = 0,
      fs_min_size = 8, fs_max_size = 256, fs_ref_string = None, fs_syscall_nr = 0,
      fs_ret_type = Some ''void'', fs_param_types = Some ''void *'', fs_flags = 0\<rparr>,
     \<lparr>fs_name = ''__cxa_throw'', fs_lib = ''cxx'', fs_type = E9_FSIG_PROLOGUE, fs_arch = E9_FSIG_ARCH_X64,
      fs_pattern = Some X64_PROLOGUE_1, fs_mask = Some MASK_EXACT_4, fs_pattern_len = 4, fs_offset = 0,
      fs_min_size = 32, fs_max_size = 512, fs_ref_string = None, fs_syscall_nr = 0,
      fs_ret_type = Some ''void'', fs_param_types = Some ''void *, void *, void (*)(void *)'', fs_flags = E9_FSIG_FLAG_NORETURN\<rparr>
    ]"

definition E9_SIGS_CRYPTO :: "E9FuncSig list" where
  "E9_SIGS_CRYPTO =
    [
     \<lparr>fs_name = ''SHA256_Init'', fs_lib = ''crypto'', fs_type = E9_FSIG_CONSTANT, fs_arch = E9_FSIG_ARCH_ANY,
      fs_pattern = Some [0x67, 0xE6, 0x09, 0x6A], fs_mask = Some MASK_EXACT_4, fs_pattern_len = 4, fs_offset = - 1,
      fs_min_size = 16, fs_max_size = 256, fs_ref_string = None, fs_syscall_nr = 0,
      fs_ret_type = Some ''int'', fs_param_types = Some ''SHA256_CTX *'', fs_flags = 0\<rparr>,
     \<lparr>fs_name = ''AES_encrypt'', fs_lib = ''crypto'', fs_type = E9_FSIG_CONSTANT, fs_arch = E9_FSIG_ARCH_ANY,
      fs_pattern = Some [0x63, 0x7C, 0x77, 0x7B], fs_mask = Some MASK_EXACT_4, fs_pattern_len = 4, fs_offset = - 1,
      fs_min_size = 64, fs_max_size = 4096, fs_ref_string = None, fs_syscall_nr = 0,
      fs_ret_type = Some ''void'', fs_param_types = Some ''const unsigned char *, unsigned char *, const AES_KEY *'', fs_flags = 0\<rparr>
    ]"

definition E9_SIGS_SYSCALL :: "E9FuncSig list" where
  "E9_SIGS_SYSCALL =
    [
     \<lparr>fs_name = ''__syscall_read'', fs_lib = ''syscall'', fs_type = E9_FSIG_SYSCALL, fs_arch = E9_FSIG_ARCH_X64,
      fs_pattern = Some [0x0F, 0x05], fs_mask = Some MASK_EXACT_2, fs_pattern_len = 2, fs_offset = - 1,
      fs_min_size = 8, fs_max_size = 64, fs_ref_string = None, fs_syscall_nr = 0,
      fs_ret_type = Some ''ssize_t'', fs_param_types = Some ''int, void *, size_t'', fs_flags = 0\<rparr>,
     \<lparr>fs_name = ''__syscall_write'', fs_lib = ''syscall'', fs_type = E9_FSIG_SYSCALL, fs_arch = E9_FSIG_ARCH_X64,
      fs_pattern = Some [0x0F, 0x05], fs_mask = Some MASK_EXACT_2, fs_pattern_len = 2, fs_offset = - 1,
      fs_min_size = 8, fs_max_size = 64, fs_ref_string = None, fs_syscall_nr = 1,
      fs_ret_type = Some ''ssize_t'', fs_param_types = Some ''int, const void *, size_t'', fs_flags = 0\<rparr>,
     \<lparr>fs_name = ''__syscall_open'', fs_lib = ''syscall'', fs_type = E9_FSIG_SYSCALL, fs_arch = E9_FSIG_ARCH_X64,
      fs_pattern = Some [0x0F, 0x05], fs_mask = Some MASK_EXACT_2, fs_pattern_len = 2, fs_offset = - 1,
      fs_min_size = 8, fs_max_size = 64, fs_ref_string = None, fs_syscall_nr = 2,
      fs_ret_type = Some ''int'', fs_param_types = Some ''const char *, int, ...'', fs_flags = E9_FSIG_FLAG_VARIADIC\<rparr>,
     \<lparr>fs_name = ''__syscall_exit'', fs_lib = ''syscall'', fs_type = E9_FSIG_SYSCALL, fs_arch = E9_FSIG_ARCH_X64,
      fs_pattern = Some [0x0F, 0x05], fs_mask = Some MASK_EXACT_2, fs_pattern_len = 2, fs_offset = - 1,
      fs_min_size = 8, fs_max_size = 32, fs_ref_string = None, fs_syscall_nr = 60,
      fs_ret_type = Some ''void'', fs_param_types = Some ''int'', fs_flags = E9_FSIG_FLAG_NORETURN\<rparr>
    ]"

section \<open>The database\<close>

text \<open>The capacity only decides when the array moves, and \<open>realloc\<close> keeps its contents.\<close>

type_synonym E9FuncSigDB = "E9FuncSig list"

definition e9_fsigdb_add :: "E9FuncSigDB ptr \<Rightarrow> E9FuncSig ptr \<Rightarrow> int \<times> E9FuncSigDB ptr" where
  "e9_fsigdb_add db sig =
     (case (db, sig) of (Some d, Some s) \<Rightarrow> (0, Some (d @ [s])) | _ \<Rightarrow> (-1, db))"

definition add_all :: "E9FuncSig list \<Rightarrow> E9FuncSigDB ptr \<Rightarrow> E9FuncSigDB ptr" where
  "add_all sigs db = fold (\<lambda>s db. snd (e9_fsigdb_add db (Some s))) sigs db"

definition e9_fsigdb_create :: "E9FuncSigDB ptr" where
  "e9_fsigdb_create =
     add_all E9_SIGS_SYSCALL (add_all E9_SIGS_CRYPTO (add_all E9_SIGS_CXXRT
       (add_all E9_SIGS_COMPILER (add_all E9_SIGS_LIBC (Some [])))))"

definition e9_fsigdb_count :: "E9FuncSigDB ptr \<Rightarrow> nat" where
  "e9_fsigdb_count db = (case db of None \<Rightarrow> 0 | Some d \<Rightarrow> length d)"

text \<open>Not implemented in the program.\<close>

definition e9_fsigdb_load :: "E9FuncSigDB ptr \<Rightarrow> string ptr \<Rightarrow> int" where "e9_fsigdb_load db path = -1"
definition e9_fsigdb_save :: "E9FuncSigDB ptr \<Rightarrow> string ptr \<Rightarrow> int" where "e9_fsigdb_save db path = -1"

section \<open>Patterns\<close>

text \<open>A loop that returns from its body as soon as the body finds something.\<close>

fun first_hit :: "('i \<Rightarrow> 'r option ub) \<Rightarrow> 'i list \<Rightarrow> 'r option ub" where
  "first_hit f [] = Some None"
| "first_hit f (i # is) = do { r \<leftarrow> f i; (case r of None \<Rightarrow> first_hit f is | Some v \<Rightarrow> Some (Some v)) }"

text \<open>\<open>data[i] & mask[i] != pattern[i] & mask[i]\<close>, reading through the three pointers.\<close>

definition byte_differs :: "bytes \<Rightarrow> bytes ptr \<Rightarrow> bytes ptr \<Rightarrow> nat \<Rightarrow> bool ub" where
  "byte_differs data pattern msk i = do {
     p \<leftarrow> pattern; m \<leftarrow> msk;
     d \<leftarrow> rd8 data i; k \<leftarrow> rd8 m i; b \<leftarrow> rd8 p i;
     Some (d AND k \<noteq> b AND k)
   }"

definition match_pattern :: "bytes \<Rightarrow> nat \<Rightarrow> bytes ptr \<Rightarrow> bytes ptr \<Rightarrow> nat \<Rightarrow> bool ub" where
  "match_pattern data sz pattern msk len =
     (if sz < len then Some False
      else map_option (\<lambda>r. r = None)
        (first_hit (\<lambda>i. map_option (\<lambda>ne. if ne then Some () else None) (byte_differs data pattern msk i)) [0 ..< len]))"

text \<open>The offset of the first match.\<close>

definition search_pattern :: "bytes \<Rightarrow> nat \<Rightarrow> bytes ptr \<Rightarrow> bytes ptr \<Rightarrow> nat \<Rightarrow> nat option ub" where
  "search_pattern data sz pattern msk len =
     (if sz < len then Some None
      else first_hit (\<lambda>i. map_option (\<lambda>m. if m then Some i else None)
             (match_pattern (drop i data) (sz - i) pattern msk len)) [0 ..< sz - len + 1])"

section \<open>System call numbers\<close>

text \<open>
  The inner loop: \<open>j\<close> (here \<open>j + 1\<close>) runs down to 0 while it is above \<open>i - 20\<close>.
\<close>

fun syscall_back :: "bytes \<Rightarrow> int \<Rightarrow> nat \<Rightarrow> int option ub" where
  "syscall_back code low 0 = Some None"
| "syscall_back code low (Suc j) =
     (if int j > low then do {
        b \<leftarrow> rd8 code j;
        if b = 0xB8 then map_option (\<lambda>v. Some (sint v)) (rd32 code (j + 1))
        else do {
          a \<leftarrow> (if j > 0 then rd8 code (j - 1) else Some 0);
          c \<leftarrow> (if j > 0 \<and> a = 0x48 \<and> b = 0xC7 then rd8 code (j + 1) else Some 0);
          if j > 0 \<and> a = 0x48 \<and> b = 0xC7 \<and> c = 0xC0 then map_option (\<lambda>v. Some (sint v)) (rd32 code (j + 2))
          else syscall_back code low j
        }
      } else Some None)"

text \<open>\<open>(int)i - 1\<close> and \<open>(int)i - 20\<close> for a \<open>size_t\<close> \<open>i\<close>.\<close>

definition int_of_size :: "nat \<Rightarrow> int" where
  "int_of_size i = sint (word_of_nat i :: u32)"

definition syscall_at :: "bytes \<Rightarrow> nat \<Rightarrow> int option ub" where
  "syscall_at code i = do {
     b \<leftarrow> rd8 code i;
     c \<leftarrow> (if b = 0x0F then rd8 code (i + 1) else Some 0);
     if b = 0x0F \<and> c = 0x05 then
       (if int_of_size i - 1 < - (2 ^ 31) then None
        else syscall_back code (int_of_size i - 20) (nat (int_of_size i)))
     else Some None
   }"

definition detect_syscall_number :: "bytes \<Rightarrow> nat \<Rightarrow> E9FuncSigArch \<Rightarrow> int ub" where
  "detect_syscall_number code sz arch =
     (if arch \<noteq> E9_FSIG_ARCH_X64 then Some (-1)
      else map_option (\<lambda>r. case r of None \<Rightarrow> -1 | Some nr \<Rightarrow> nr) (first_hit (syscall_at code) [0 ..< sz - 6]))"

section \<open>Matching\<close>

text \<open>The body of the loop over the database: the confidence of the match, if any.\<close>

definition sig_matches :: "bytes \<Rightarrow> nat \<Rightarrow> E9FuncSigArch \<Rightarrow> E9FuncSig \<Rightarrow> E9ConfLevel option ub" where
  "sig_matches code sz arch sig =
     (if fs_arch sig \<noteq> E9_FSIG_ARCH_ANY \<and> fs_arch sig \<noteq> arch then Some None
      else (case fs_type sig of
         E9_FSIG_PROLOGUE \<Rightarrow>
           if fs_offset sig = 0 then
             map_option (\<lambda>m. if m then Some E9_CONF_LOW else None)
               (match_pattern code sz (fs_pattern sig) (fs_mask sig) (fs_pattern_len sig))
           else Some None
       | E9_FSIG_EPILOGUE \<Rightarrow>
           map_option (map_option (\<lambda>_. E9_CONF_LOW))
             (search_pattern code sz (fs_pattern sig) (fs_mask sig) (fs_pattern_len sig))
       | E9_FSIG_BODY \<Rightarrow>
           map_option (map_option (\<lambda>_. E9_CONF_LOW))
             (search_pattern code sz (fs_pattern sig) (fs_mask sig) (fs_pattern_len sig))
       | E9_FSIG_CONSTANT \<Rightarrow>
           map_option (map_option (\<lambda>_. E9_CONF_MEDIUM))
             (search_pattern code sz (fs_pattern sig) (fs_mask sig) (fs_pattern_len sig))
       | E9_FSIG_SYSCALL \<Rightarrow>
           map_option (\<lambda>nr. if nr = fs_syscall_nr sig then Some E9_CONF_HIGH else None)
             (detect_syscall_number code sz arch)
       | E9_FSIG_STRING_REF \<Rightarrow> Some None))"

definition sig_match :: "u64 \<Rightarrow> nat \<Rightarrow> E9ConfLevel \<Rightarrow> E9FuncSigMatch" where
  "sig_match addr i c =
     \<lparr>fm_sig = i, fm_address = addr, fm_confidence = c, fm_score = conf_num c * 100\<rparr>"

fun match_sigs :: "bytes \<Rightarrow> nat \<Rightarrow> E9FuncSigArch \<Rightarrow> u64 \<Rightarrow> nat \<Rightarrow> E9FuncSig list \<Rightarrow> E9FuncSigMatch list ub" where
  "match_sigs code sz arch addr i [] = Some []"
| "match_sigs code sz arch addr i (sig # sigs) = do {
     c \<leftarrow> sig_matches code sz arch sig;
     ms \<leftarrow> match_sigs code sz arch addr (Suc i) sigs;
     Some ((case c of None \<Rightarrow> [] | Some c \<Rightarrow> [sig_match addr i c]) @ ms)
   }"

text \<open>The sort; with no match the bound of the outer loop wraps around to \<open>2^32 - 1\<close>.\<close>

definition exchange_matches :: "nat \<Rightarrow> nat \<Rightarrow> E9FuncSigMatch list \<Rightarrow> E9FuncSigMatch list" where
  "exchange_matches i j ms =
     (if conf_num (fm_confidence (ms ! j)) > conf_num (fm_confidence (ms ! i))
      then ms[i := ms ! j, j := ms ! i] else ms)"

definition sort_matches :: "E9FuncSigMatch list \<Rightarrow> E9FuncSigMatch list" where
  "sort_matches ms =
     fold (\<lambda>i ms. fold (exchange_matches i) [i + 1 ..< length ms] ms)
       [0 ..< unat (word_of_nat (length ms) - 1 :: u32)] ms"

text \<open>The result and \<open>*num_matches\<close>, which is left alone when a pointer is null.\<close>

definition e9_fsig_match ::
  "E9FuncSigDB ptr \<Rightarrow> bytes ptr \<Rightarrow> u64 \<Rightarrow> u64 \<Rightarrow> u64 \<Rightarrow> E9FuncSigArch \<Rightarrow> u32 ptr \<Rightarrow>
   (E9FuncSigMatch list ptr \<times> u32 ptr) ub" where
  "e9_fsig_match db code code_size base_addr func_addr arch num =
     (case (db, code, num) of
        (Some d, Some c, Some _) \<Rightarrow>
          if func_addr < base_addr then Some (None, Some 0)
          else if func_addr - base_addr \<ge> code_size then Some (None, Some 0)
          else do {
            ms \<leftarrow> match_sigs (drop (unat (func_addr - base_addr)) c) (unat (code_size - (func_addr - base_addr)))
                    arch func_addr 0 d;
            Some (Some (sort_matches ms), Some (word_of_nat (length ms)))
          }
      | _ \<Rightarrow> Some (None, num))"

section \<open>Naming the functions of an image\<close>

definition named_by_symbol :: "E9Function \<Rightarrow> bool" where
  "named_by_symbol f \<longleftrightarrow> (case fn_name f of None \<Rightarrow> False | Some n \<Rightarrow> take 4 n \<noteq> str_bytes ''FUN_'')"

definition sig_text :: "E9FuncSig \<Rightarrow> bytes ptr" where
  "sig_text sig =
     (case (fs_ret_type sig, fs_param_types sig) of
        (Some r, Some p) \<Rightarrow> Some (take 255 (str_bytes (r @ '' '' @ fs_name sig @ ''('' @ p @ '')'')))
      | _ \<Rightarrow> None)"

definition apply_sig :: "E9FuncSig \<Rightarrow> E9Function \<Rightarrow> E9Function" where
  "apply_sig sig f =
     f\<lparr>fn_name := Some (str_bytes (fs_name sig)),
       fn_is_noreturn := (fs_flags sig AND E9_FSIG_FLAG_NORETURN \<noteq> 0 \<or> fn_is_noreturn f),
       fn_is_leaf := (fs_flags sig AND E9_FSIG_FLAG_LEAF \<noteq> 0 \<or> fn_is_leaf f),
       fn_is_variadic := (fs_flags sig AND E9_FSIG_FLAG_VARIADIC \<noteq> 0 \<or> fn_is_variadic f),
       fn_signature := (case sig_text sig of None \<Rightarrow> fn_signature f | Some t \<Rightarrow> Some t)\<rparr>"

definition apply_symbol :: "E9FuncSig \<Rightarrow> u64 \<Rightarrow> E9Analysis \<Rightarrow> E9Analysis" where
  "apply_symbol sig addr bin =
     (case symbol_at addr (an_symbols bin) of
        None \<Rightarrow> bin\<lparr>an_symbols := new_symbol (str_bytes (fs_name sig)) addr E9_SYM_FUNCTION # an_symbols bin\<rparr>
      | Some k \<Rightarrow>
          bin\<lparr>an_symbols := elem_update k (\<lambda>s. s\<lparr>sy_name := Some (str_bytes (fs_name sig))\<rparr>) (an_symbols bin)\<rparr>)"

text \<open>
  The loop over the functions; the functions behind the current one are still as they were.  The
  result has the functions from the current one on, the image with the symbols changed so far,
  and the count.
\<close>

definition best_match :: "E9FuncSigDB \<Rightarrow> E9Analysis \<Rightarrow> E9FuncSigArch \<Rightarrow> E9Function \<Rightarrow> E9FuncSig option ub" where
  "best_match db bin arch f = do {
     (ms, n) \<leftarrow> e9_fsig_match (Some db) (Some (bin_data bin)) (word_of_nat (length (bin_data bin)))
                  (bin_base_address bin) (fn_address f) arch (Some 0);
     Some (case ms of
         Some (m # _) \<Rightarrow> if 2 \<le> conf_num (fm_confidence m) then Some (db ! fm_sig m) else None
       | _ \<Rightarrow> None)
   }"

fun fsig_functions ::
  "E9FuncSigDB \<Rightarrow> E9FuncSigArch \<Rightarrow> E9Analysis \<Rightarrow> E9Function list \<Rightarrow> (int \<times> E9Function list \<times> E9Analysis) ub" where
  "fsig_functions db arch bin [] = Some (0, [], bin)"
| "fsig_functions db arch bin (f # fs) =
     (if named_by_symbol f then do {
        (n, fs', bin') \<leftarrow> fsig_functions db arch bin fs;
        Some (n, f # fs', bin')
      } else do {
        b \<leftarrow> best_match db bin arch f;
        case b of
          None \<Rightarrow> do {
            (n, fs', bin') \<leftarrow> fsig_functions db arch bin fs;
            Some (n, f # fs', bin')
          }
        | Some sig \<Rightarrow> do {
            (n, fs', bin') \<leftarrow> fsig_functions db arch (apply_symbol sig (fn_address f) bin) fs;
            Some (n + 1, apply_sig sig f # fs', bin')
          }
      })"

definition e9_fsig_analyze_binary :: "E9FuncSigDB ptr \<Rightarrow> E9Analysis ptr \<Rightarrow> (int \<times> E9Analysis ptr) ub" where
  "e9_fsig_analyze_binary db b =
     (case (db, b) of
        (Some d, Some bin) \<Rightarrow>
          (let run = (\<lambda>arch. do {
                 (n, fs, bin') \<leftarrow> fsig_functions d arch bin (an_functions bin);
                 Some (n, Some (bin'\<lparr>an_functions := fs\<rparr>))
               })
           in case bin_arch bin of
                E9_ARCH_X86_64 \<Rightarrow> run E9_FSIG_ARCH_X64
              | E9_ARCH_AARCH64 \<Rightarrow> run E9_FSIG_ARCH_AARCH64
              | _ \<Rightarrow> Some (-1, b))
      | _ \<Rightarrow> Some (-1, b))"

section \<open>Export\<close>

text \<open>\<open>%s\<close> of a null pointer prints \<open>(null)\<close>.\<close>

definition c_name :: "bytes ptr \<Rightarrow> bytes" where
  "c_name n = (case n of None \<Rightarrow> str_bytes ''(null)'' | Some s \<Rightarrow> s)"

definition function_symbols :: "E9Symbol list \<Rightarrow> E9Symbol list" where
  "function_symbols = filter (\<lambda>s. sy_type s = E9_SYM_FUNCTION)"

definition hex_addr :: "u64 \<Rightarrow> bytes" where
  "hex_addr a = str_bytes (''0x'' @ hex (unat a))"

definition objcopy_line :: "u64 \<Rightarrow> E9Symbol \<Rightarrow> bytes" where
  "objcopy_line base s =
     str_bytes ''--add-symbol '' @ c_name (sy_name s) @ str_bytes ''=.text:'' @ hex_addr (sy_address s - base) @
     str_bytes '',function,global\<newline>''"

definition ghidra_line :: "E9Symbol \<Rightarrow> bytes" where
  "ghidra_line s =
     str_bytes ''createFunction(toAddr('' @ hex_addr (sy_address s) @ str_bytes ''), \"'' @ c_name (sy_name s) @
     str_bytes ''\")\<newline>''"

definition ida_set_name :: "E9Symbol \<Rightarrow> bytes" where
  "ida_set_name s =
     str_bytes ''idc.set_name('' @ hex_addr (sy_address s) @ str_bytes '', \"'' @ c_name (sy_name s) @
     str_bytes ''\", idc.SN_CHECK)\<newline>''"

definition json_symbol :: "E9Symbol \<Rightarrow> bytes" where
  "json_symbol s =
     str_bytes ''    {\"name\": \"'' @ c_name (sy_name s) @ str_bytes ''\", \"address\": \"'' @
     hex_addr (sy_address s) @ str_bytes ''\", \"type\": \"function\"}''"

fun json_symbols :: "bool \<Rightarrow> E9Symbol list \<Rightarrow> bytes" where
  "json_symbols first [] = []"
| "json_symbols first (s # ss) =
     (if first then [] else str_bytes '',\<newline>'') @ json_symbol s @ json_symbols False ss"

definition symbols_text :: "string ptr \<Rightarrow> E9Analysis \<Rightarrow> bytes" where
  "symbols_text format bin =
     (let ss = function_symbols (an_symbols bin) in
      if format = None \<or> format = Some ''objcopy'' then concat (map (objcopy_line (bin_base_address bin)) ss)
      else if format = Some ''ghidra'' then
        str_bytes ''# Ghidra symbol injection script\<newline># Import with: analyzeHeadless ... -postScript ImportSymbols.py\<newline>\<newline>'' @
        concat (map ghidra_line ss)
      else if format = Some ''ida'' then
        str_bytes ''# IDA symbol injection script\<newline>import idc\<newline>\<newline>'' @ concat (map ida_set_name ss)
      else if format = Some ''json'' then
        str_bytes ''{\<newline>  \"symbols\": [\<newline>'' @ json_symbols True ss @ str_bytes ''\<newline>  ]\<newline>}\<newline>''
      else [])"

text \<open>The result and the contents of the file, if it was written; \<open>opened\<close> says whether it can be.\<close>

definition e9_fsig_gen_symbols ::
  "E9FuncSigDB ptr \<Rightarrow> E9Analysis ptr \<Rightarrow> string ptr \<Rightarrow> string ptr \<Rightarrow> bool \<Rightarrow> int \<times> bytes ptr" where
  "e9_fsig_gen_symbols db b path format opened =
     (case (b, path) of
        (Some bin, Some _) \<Rightarrow> if opened then (0, Some (symbols_text format bin)) else (-1, None)
      | _ \<Rightarrow> (-1, None))"

section \<open>What the searches find\<close>

lemma first_hit_from:
  assumes "\<And>i. a \<le> i \<Longrightarrow> i < n \<Longrightarrow> f i = Some (g i)"
  shows "\<exists>r. first_hit f [a ..< n] = Some r \<and>
    (case r of None \<Rightarrow> \<forall>i. a \<le> i \<and> i < n \<longrightarrow> g i = None
     | Some v \<Rightarrow> \<exists>i. a \<le> i \<and> i < n \<and> g i = Some v \<and> (\<forall>k. a \<le> k \<and> k < i \<longrightarrow> g k = None))"
  using assms
proof (induction "n - a" arbitrary: a)
  case 0
  then show ?case by (intro exI [of _ None]) auto
next
  case (Suc d)
  from Suc.hyps(2) have an: "a < n" "d = n - Suc a" by simp_all
  have u: "[a ..< n] = a # [Suc a ..< n]" using an by (simp add: upt_conv_Cons)
  have fa: "f a = Some (g a)" using Suc.prems an by simp
  show ?case
  proof (cases "g a")
    case (Some v)
    with fa u an show ?thesis by (intro exI [of _ "Some v"]) (auto intro!: exI [of _ a])
  next
    case None
    from Suc.hyps(1) [OF an(2) Suc.prems] obtain r where r: "first_hit f [Suc a ..< n] = Some r"
      "case r of None \<Rightarrow> \<forall>i. Suc a \<le> i \<and> i < n \<longrightarrow> g i = None
       | Some v \<Rightarrow> \<exists>i. Suc a \<le> i \<and> i < n \<and> g i = Some v \<and> (\<forall>k. Suc a \<le> k \<and> k < i \<longrightarrow> g k = None)"
      by auto
    have "case r of None \<Rightarrow> \<forall>i. a \<le> i \<and> i < n \<longrightarrow> g i = None
       | Some v \<Rightarrow> \<exists>i. a \<le> i \<and> i < n \<and> g i = Some v \<and> (\<forall>k. a \<le> k \<and> k < i \<longrightarrow> g k = None)"
    proof (cases r)
      case None
      have "g i = None" if "a \<le> i" "i < n" for i
        using r(2) None \<open>g a = None\<close> that by (cases "i = a") auto
      with None show ?thesis by auto
    next
      case (Some v)
      with r(2) obtain i where "Suc a \<le> i" "i < n" "g i = Some v" "\<forall>k. Suc a \<le> k \<and> k < i \<longrightarrow> g k = None" by auto
      moreover have "g k = None" if "a \<le> k" "k < i" for k
        using \<open>g a = None\<close> \<open>\<forall>k. Suc a \<le> k \<and> k < i \<longrightarrow> g k = None\<close> that by (cases "k = a") auto
      ultimately show ?thesis using Some by (auto intro!: exI [of _ i])
    qed
    with r(1) fa None u show ?thesis by auto
  qed
qed

lemma first_hit_range:
  assumes "\<forall>i < n. f i = Some (g i)"
  obtains (none) "first_hit f [0 ..< n] = Some None" "\<forall>i < n. g i = None"
  | (hit) i v where "first_hit f [0 ..< n] = Some (Some v)" "i < n" "g i = Some v" "\<forall>k < i. g k = None"
proof -
  from assms have "\<And>i. 0 \<le> i \<Longrightarrow> i < n \<Longrightarrow> f i = Some (g i)" by simp
  from first_hit_from [of 0 n f g, OF this] obtain r where
    r: "first_hit f [0 ..< n] = Some r"
      "case r of None \<Rightarrow> \<forall>i. 0 \<le> i \<and> i < n \<longrightarrow> g i = None
       | Some v \<Rightarrow> \<exists>i. 0 \<le> i \<and> i < n \<and> g i = Some v \<and> (\<forall>k. 0 \<le> k \<and> k < i \<longrightarrow> g k = None)"
    by auto
  show thesis
  proof (cases r)
    case None
    with r show thesis by (intro none) auto
  next
    case (Some v)
    with r(2) obtain i where "i < n" "g i = Some v" "\<forall>k < i. g k = None" by auto
    with Some r(1) show thesis by (intro hit) auto
  qed
qed

text \<open>The bytes at \<open>off\<close> agree with the pattern in the bits of the mask.\<close>

definition agrees :: "bytes \<Rightarrow> nat \<Rightarrow> bytes \<Rightarrow> bytes \<Rightarrow> nat \<Rightarrow> bool" where
  "agrees data off pattern msk n \<longleftrightarrow>
     off + n \<le> length data \<and> (\<forall>i < n. data ! (off + i) AND msk ! i = pattern ! i AND msk ! i)"

lemma agrees_drop: "k \<le> length data \<Longrightarrow> agrees (drop k data) off p m n \<longleftrightarrow> agrees data (k + off) p m n"
  by (auto simp: agrees_def add.assoc)

lemma match_pattern_spec:
  assumes "n \<le> length p" and "n \<le> length m"
  shows "match_pattern data (length data) (Some p) (Some m) n = Some (agrees data 0 p m n)"
proof (cases "length data < n")
  case True
  then show ?thesis by (auto simp: match_pattern_def agrees_def)
next
  case False
  let ?f = "\<lambda>i. map_option (\<lambda>ne. if ne then Some () else None) (byte_differs data (Some p) (Some m) i)"
  let ?g = "\<lambda>i. if data ! i AND m ! i \<noteq> p ! i AND m ! i then Some () else None"
  have f: "\<forall>i < n. ?f i = Some (?g i)"
    using False assms by (simp add: byte_differs_def rd8_def)
  have e: "match_pattern data (length data) (Some p) (Some m) n = map_option (\<lambda>r. r = None) (first_hit ?f [0 ..< n])"
    using False by (simp add: match_pattern_def)
  show ?thesis
  proof (cases rule: first_hit_range [of n ?f ?g, OF f, consumes 0, case_names none hit])
    case none
    then have "agrees data 0 p m n" using False by (auto simp: agrees_def split: if_splits)
    with e none(1) show ?thesis by simp
  next
    case (hit i v)
    then have "\<not> agrees data 0 p m n" by (auto simp: agrees_def split: if_splits)
    with e hit(1) show ?thesis by simp
  qed
qed

lemma search_pattern_spec:
  assumes "n \<le> length p" and "n \<le> length m"
  obtains (none) "search_pattern data (length data) (Some p) (Some m) n = Some None" "\<forall>off. \<not> agrees data off p m n"
  | (hit) off where "search_pattern data (length data) (Some p) (Some m) n = Some (Some off)"
    "agrees data off p m n" "\<forall>k < off. \<not> agrees data k p m n"
proof (cases "length data < n")
  case True
  then show thesis by (intro none) (simp_all add: search_pattern_def agrees_def)
next
  case False
  let ?N = "length data - n + 1"
  let ?f = "\<lambda>i. map_option (\<lambda>b. if b then Some i else None)
    (match_pattern (drop i data) (length data - i) (Some p) (Some m) n)"
  let ?g = "\<lambda>i. if agrees data i p m n then Some i else None"
  have "?f i = Some (?g i)" if "i < ?N" for i
    using that False match_pattern_spec [OF assms, of "drop i data"] by (simp add: agrees_drop)
  then have f: "\<forall>i < ?N. ?f i = Some (?g i)" by blast
  have out: "\<not> agrees data i p m n" if "\<not> i < ?N" for i using that False by (auto simp: agrees_def)
  have e: "search_pattern data (length data) (Some p) (Some m) n = first_hit ?f [0 ..< ?N]"
    using False by (simp only: search_pattern_def if_False)
  show thesis
  proof (cases rule: first_hit_range [of ?N ?f ?g, OF f, consumes 0, case_names none hit])
    case none
    then have "\<not> agrees data i p m n" for i using out [of i] by (cases "i < ?N") (auto split: if_splits)
    with e none(1) show thesis by (intro that(1)) simp_all
  next
    case (hit i v)
    then have "v = i" "agrees data i p m n" "\<forall>k < i. \<not> agrees data k p m n" by (auto split: if_splits)
    with e hit(1) show thesis by (intro that(2) [of i]) simp_all
  qed
qed

section \<open>What the system call search finds\<close>

text \<open>The number that an instruction at \<open>j\<close> puts into \<open>eax\<close> or \<open>rax\<close>, as the program reads it.\<close>

definition load32 :: "bytes \<Rightarrow> nat \<Rightarrow> int" where
  "load32 code k = sint (word_of_nat (le_nat (take 4 (drop k code))) :: u32)"

definition load_at :: "bytes \<Rightarrow> nat \<Rightarrow> int option" where
  "load_at code j =
     (if code ! j = 0xB8 then Some (load32 code (j + 1))
      else if 0 < j \<and> code ! (j - 1) = 0x48 \<and> code ! j = 0xC7 \<and> code ! (j + 1) = 0xC0 then Some (load32 code (j + 2))
      else None)"

lemma rd32_load32: "k + 4 \<le> length code \<Longrightarrow> map_option (\<lambda>v. Some (sint v)) (rd32 code k) = Some (Some (load32 code k))"
  by (simp add: rd32_def rd_region_def load32_def)

lemma syscall_back_step:
  assumes "j + 7 \<le> length code" and "low < int j"
  shows "syscall_back code low (Suc j) =
    (case load_at code j of None \<Rightarrow> syscall_back code low j | Some v \<Rightarrow> Some (Some v))"
proof -
  have rd: "rd8 code j = Some (code ! j)" "rd8 code (j + 1) = Some (code ! (j + 1))"
    "rd8 code (j - 1) = Some (code ! (j - 1))"
    using assms(1) by (simp_all add: rd8_def)
  have imm: "map_option (\<lambda>v. Some (sint v)) (rd32 code (j + 1)) = Some (Some (load32 code (j + 1)))"
    "map_option (\<lambda>v. Some (sint v)) (rd32 code (j + 2)) = Some (Some (load32 code (j + 2)))"
    using assms(1) by (simp_all only: rd32_load32)
  show ?thesis
    using assms(2) by (simp only: syscall_back.simps load_at_def rd imm if_True) simp
qed

lemma syscall_back_spec:
  assumes "j + 6 \<le> length code"
  obtains (none) "syscall_back code low j = Some None" "\<forall>k < j. low < int k \<longrightarrow> load_at code k = None"
  | (hit) k v where "syscall_back code low j = Some (Some v)" "k < j" "low < int k" "load_at code k = Some v"
    "\<forall>l. k < l \<and> l < j \<longrightarrow> load_at code l = None"
  using assms
proof (induction j arbitrary: thesis)
  case 0
  then show ?case by simp
next
  case (Suc j)
  show ?case
  proof (cases "low < int j")
    case False
    then show ?thesis by (intro Suc.prems(1)) auto
  next
    case True
    have step: "syscall_back code low (Suc j) =
      (case load_at code j of None \<Rightarrow> syscall_back code low j | Some v \<Rightarrow> Some (Some v))"
      using Suc.prems(3) True by (intro syscall_back_step) simp_all
    show ?thesis
    proof (cases "load_at code j")
      case (Some v)
      with step True show ?thesis by (intro Suc.prems(2) [of v j]) auto
    next
      case None
      show ?thesis
      proof (rule Suc.IH)
        assume "syscall_back code low j = Some None" "\<forall>k < j. low < int k \<longrightarrow> load_at code k = None"
        with step None show ?thesis by (intro Suc.prems(1)) (auto simp: less_Suc_eq)
      next
        fix k v assume "syscall_back code low j = Some (Some v)" "k < j" "low < int k" "load_at code k = Some v"
          "\<forall>l. k < l \<and> l < j \<longrightarrow> load_at code l = None"
        with step None show ?thesis by (intro Suc.prems(2) [of v k]) (auto simp: less_Suc_eq)
      qed (use Suc.prems(3) in simp)
    qed
  qed
qed

text \<open>The nearest load in the 19 bytes before \<open>i\<close>.\<close>

definition loads :: "bytes \<Rightarrow> nat \<Rightarrow> int \<Rightarrow> bool" where
  "loads code i nr \<longleftrightarrow>
     (\<exists>k < i. i \<le> k + 19 \<and> load_at code k = Some nr \<and> (\<forall>l. k < l \<and> l < i \<longrightarrow> load_at code l = None))"

definition syscall_insn :: "bytes \<Rightarrow> nat \<Rightarrow> bool" where
  "syscall_insn code i \<longleftrightarrow> i + 6 < length code \<and> code ! i = 0x0F \<and> code ! (i + 1) = 0x05"

text \<open>The first system call instruction with a load before it decides; without one the number is -1.\<close>

definition syscall_nr :: "bytes \<Rightarrow> int \<Rightarrow> bool" where
  "syscall_nr code nr \<longleftrightarrow>
     (\<exists>i. syscall_insn code i \<and> loads code i nr \<and> (\<forall>k < i. syscall_insn code k \<longrightarrow> (\<forall>n. \<not> loads code k n))) \<or>
     (\<forall>i. syscall_insn code i \<longrightarrow> (\<forall>n. \<not> loads code i n)) \<and> nr = -1"

lemma loads_unique: "loads code i a \<Longrightarrow> loads code i b \<Longrightarrow> a = b"
  unfolding loads_def by (metis nat_neq_iff not_None_eq option.inject)

lemma syscall_nr_unique: "syscall_nr code a \<Longrightarrow> syscall_nr code b \<Longrightarrow> a = b"
  unfolding syscall_nr_def by (metis loads_unique nat_neq_iff)

lemma int_of_size_small: "i < 2 ^ 31 \<Longrightarrow> int_of_size i = int i"
  by (simp add: int_of_size_def signed_of_nat signed_take_bit_int_eq_self)

lemma syscall_at_spec:
  assumes "i + 6 < length code" and "length code \<le> 2 ^ 31"
  obtains (none) "syscall_at code i = Some None" "syscall_insn code i \<longrightarrow> (\<forall>n. \<not> loads code i n)"
  | (hit) v where "syscall_at code i = Some (Some v)" "syscall_insn code i" "loads code i v"
proof (cases "syscall_insn code i")
  case False
  with assms have "syscall_at code i = Some None" by (auto simp: syscall_at_def syscall_insn_def rd8_def)
  with False show thesis by (intro none) simp_all
next
  case True
  have e: "syscall_at code i = syscall_back code (int i - 20) i"
    using True assms by (simp add: syscall_at_def syscall_insn_def rd8_def int_of_size_small)
  from assms(1) have "i + 6 \<le> length code" by simp
  then show thesis
  proof (cases rule: syscall_back_spec [of i code "int i - 20"])
    case none: none
    have "\<not> loads code i n" for n using none(2) by (auto simp: loads_def)
    with e none(1) show thesis by (intro that(1)) simp_all
  next
    case (hit k v)
    then have "loads code i v" by (auto simp: loads_def)
    with e hit(1) True show thesis by (intro that(2)) simp_all
  qed
qed

lemma detect_syscall_spec:
  assumes "length code \<le> 2 ^ 31"
  shows "\<exists>nr. detect_syscall_number code (length code) E9_FSIG_ARCH_X64 = Some nr \<and> syscall_nr code nr"
proof -
  let ?N = "length code - 6"
  define g where "g i = the (syscall_at code i)" for i
  have g: "syscall_at code i = Some (g i) \<and>
      (case g i of None \<Rightarrow> syscall_insn code i \<longrightarrow> (\<forall>n. \<not> loads code i n) | Some v \<Rightarrow> syscall_insn code i \<and> loads code i v)"
    if "i < ?N" for i
  proof -
    from that have "i + 6 < length code" by simp
    then show ?thesis using assms by (cases rule: syscall_at_spec [of i code]) (auto simp: g_def)
  qed
  then have f: "\<forall>i < ?N. syscall_at code i = Some (g i)" by blast
  have out: "\<not> syscall_insn code i" if "\<not> i < ?N" for i using that by (auto simp: syscall_insn_def)
  show ?thesis
  proof (cases rule: first_hit_range [of ?N "syscall_at code" g, OF f, consumes 0, case_names none hit])
    case none
    have "syscall_insn code i \<longrightarrow> (\<forall>n. \<not> loads code i n)" for i
      using g [of i] none(2) out [of i] by (cases "i < ?N") auto
    with none(1) show ?thesis by (intro exI [of _ "-1"]) (simp add: detect_syscall_number_def syscall_nr_def)
  next
    case (hit i v)
    have "syscall_insn code i \<and> loads code i v" using g [OF hit(2)] hit(3) by simp
    moreover have "syscall_insn code k \<longrightarrow> (\<forall>n. \<not> loads code k n)" if "k < i" for k
      using g [of k] that hit(2,4) by simp
    ultimately have "syscall_nr code v" unfolding syscall_nr_def by blast
    with hit(1) show ?thesis by (simp add: detect_syscall_number_def)
  qed
qed


section \<open>What identifies a function\<close>

text \<open>A signature has the pattern that its type needs.\<close>

definition fsig_ok :: "E9FuncSig \<Rightarrow> bool" where
  "fsig_ok sig \<longleftrightarrow> fs_type sig \<in> {E9_FSIG_SYSCALL, E9_FSIG_STRING_REF} \<or>
     (\<exists>p m. fs_pattern sig = Some p \<and> fs_mask sig = Some m \<and> fs_pattern_len sig \<le> length p \<and> fs_pattern_len sig \<le> length m)"

definition pattern_at :: "bytes \<Rightarrow> nat \<Rightarrow> E9FuncSig \<Rightarrow> bool" where
  "pattern_at code off sig \<longleftrightarrow>
     agrees code off (the (fs_pattern sig)) (the (fs_mask sig)) (fs_pattern_len sig)"

text \<open>What identifies a function whose code, up to the end of the file, is \<open>code\<close>.\<close>

definition identifies :: "bytes \<Rightarrow> E9FuncSigArch \<Rightarrow> E9FuncSig \<Rightarrow> E9ConfLevel \<Rightarrow> bool" where
  "identifies code arch sig c \<longleftrightarrow>
     fs_arch sig \<in> {E9_FSIG_ARCH_ANY, arch} \<and>
     (case fs_type sig of
        E9_FSIG_PROLOGUE \<Rightarrow> c = E9_CONF_LOW \<and> fs_offset sig = 0 \<and> pattern_at code 0 sig
      | E9_FSIG_EPILOGUE \<Rightarrow> c = E9_CONF_LOW \<and> (\<exists>off. pattern_at code off sig)
      | E9_FSIG_BODY \<Rightarrow> c = E9_CONF_LOW \<and> (\<exists>off. pattern_at code off sig)
      | E9_FSIG_CONSTANT \<Rightarrow> c = E9_CONF_MEDIUM \<and> (\<exists>off. pattern_at code off sig)
      | E9_FSIG_SYSCALL \<Rightarrow>
          c = E9_CONF_HIGH \<and> (if arch = E9_FSIG_ARCH_X64 then syscall_nr code (fs_syscall_nr sig) else fs_syscall_nr sig = -1)
      | E9_FSIG_STRING_REF \<Rightarrow> False)"

lemma search_found:
  assumes "fsig_ok sig" and "fs_type sig \<notin> {E9_FSIG_SYSCALL, E9_FSIG_STRING_REF}"
  shows "map_option (map_option (\<lambda>_. c)) (search_pattern code (length code) (fs_pattern sig) (fs_mask sig) (fs_pattern_len sig)) =
    Some (if \<exists>off. pattern_at code off sig then Some c else None)"
proof -
  from assms obtain p m where pm: "fs_pattern sig = Some p" "fs_mask sig = Some m"
    "fs_pattern_len sig \<le> length p" "fs_pattern_len sig \<le> length m"
    by (auto simp: fsig_ok_def)
  from pm(3,4) show ?thesis
    by (cases rule: search_pattern_spec [of "fs_pattern_len sig" p m code]) (auto simp: pm(1,2) pattern_at_def)
qed

lemma match_found:
  assumes "fsig_ok sig" and "fs_type sig \<notin> {E9_FSIG_SYSCALL, E9_FSIG_STRING_REF}"
  shows "match_pattern code (length code) (fs_pattern sig) (fs_mask sig) (fs_pattern_len sig) = Some (pattern_at code 0 sig)"
  using assms by (auto simp: fsig_ok_def pattern_at_def match_pattern_spec)

lemma sig_matches_spec:
  assumes "fsig_ok sig" and "length code \<le> 2 ^ 31"
  shows "\<exists>r. sig_matches code (length code) arch sig = Some r \<and> (\<forall>c. r = Some c \<longleftrightarrow> identifies code arch sig c)"
proof (cases "fs_arch sig \<in> {E9_FSIG_ARCH_ANY, arch}")
  case False
  then show ?thesis by (simp add: sig_matches_def identifies_def)
next
  case True
  show ?thesis
  proof (cases "fs_type sig")
    case E9_FSIG_PROLOGUE
    with True match_found [OF assms(1), of code] show ?thesis by (auto simp: sig_matches_def identifies_def)
  next
    case E9_FSIG_EPILOGUE
    with True search_found [OF assms(1), of E9_CONF_LOW code] show ?thesis by (auto simp: sig_matches_def identifies_def)
  next
    case E9_FSIG_BODY
    with True search_found [OF assms(1), of E9_CONF_LOW code] show ?thesis by (auto simp: sig_matches_def identifies_def)
  next
    case E9_FSIG_CONSTANT
    with True search_found [OF assms(1), of E9_CONF_MEDIUM code] show ?thesis by (auto simp: sig_matches_def identifies_def)
  next
    case E9_FSIG_STRING_REF
    with True show ?thesis by (auto simp: sig_matches_def identifies_def)
  next
    case E9_FSIG_SYSCALL
    show ?thesis
    proof (cases "arch = E9_FSIG_ARCH_X64")
      case False
      with True E9_FSIG_SYSCALL show ?thesis by (auto simp: sig_matches_def identifies_def detect_syscall_number_def)
    next
      case x64: True
      from detect_syscall_spec [OF assms(2)] obtain nr where
        nr: "detect_syscall_number code (length code) E9_FSIG_ARCH_X64 = Some nr" "syscall_nr code nr" by blast
      have "nr = fs_syscall_nr sig \<longleftrightarrow> syscall_nr code (fs_syscall_nr sig)"
        using nr(2) syscall_nr_unique by blast
      with True E9_FSIG_SYSCALL x64 nr(1) show ?thesis by (auto simp: sig_matches_def identifies_def)
    qed
  qed
qed

lemma match_sigs_spec:
  assumes "\<forall>sig \<in> set sigs. fsig_ok sig" and "length code \<le> 2 ^ 31"
  shows "\<exists>ms. match_sigs code (length code) arch addr i sigs = Some ms \<and> length ms \<le> length sigs \<and>
    distinct (map fm_sig ms) \<and> (\<forall>m \<in> set ms. i \<le> fm_sig m) \<and>
    set ms = {sig_match addr (i + k) c | k c. k < length sigs \<and> identifies code arch (sigs ! k) c}"
  using assms(1)
proof (induction sigs arbitrary: i)
  case Nil
  then show ?case by simp
next
  case (Cons sig sigs)
  from Cons.IH [of "Suc i"] Cons.prems obtain ms where ms: "match_sigs code (length code) arch addr (Suc i) sigs = Some ms"
    "length ms \<le> length sigs" "distinct (map fm_sig ms)" "\<forall>m \<in> set ms. Suc i \<le> fm_sig m"
    "set ms = {sig_match addr (Suc i + k) c | k c. k < length sigs \<and> identifies code arch (sigs ! k) c}" by auto
  from sig_matches_spec [OF _ assms(2), of sig arch] Cons.prems obtain r where
    r: "sig_matches code (length code) arch sig = Some r" "\<forall>c. r = Some c \<longleftrightarrow> identifies code arch sig c" by auto
  let ?ms = "(case r of None \<Rightarrow> [] | Some c \<Rightarrow> [sig_match addr i c]) @ ms"
  have "{sig_match addr (i + k) c | k c. k < length (sig # sigs) \<and> identifies code arch ((sig # sigs) ! k) c} =
      {sig_match addr i c | c. identifies code arch sig c} \<union> set ms" (is "?L = ?R")
  proof
    show "?L \<subseteq> ?R"
    proof
      fix m assume "m \<in> ?L"
      then obtain k c where k: "m = sig_match addr (i + k) c" "k < length (sig # sigs)" "identifies code arch ((sig # sigs) ! k) c"
        by blast
      then show "m \<in> ?R" by (cases k) (auto simp: ms(5))
    qed
    show "?R \<subseteq> ?L"
    proof
      fix m assume "m \<in> ?R"
      then show "m \<in> ?L"
      proof
        assume "m \<in> {sig_match addr i c | c. identifies code arch sig c}"
        then show ?thesis by (auto intro!: exI [of _ "0 :: nat"])
      next
        assume "m \<in> set ms"
        then obtain k c where "m = sig_match addr (Suc i + k) c" "k < length sigs" "identifies code arch (sigs ! k) c"
          by (auto simp: ms(5))
        then show ?thesis by (auto intro!: exI [of _ "Suc k"])
      qed
    qed
  qed
  moreover have "{sig_match addr i c | c. identifies code arch sig c} =
      set (case r of None \<Rightarrow> [] | Some c \<Rightarrow> [sig_match addr i c])"
    using r(2) by (auto split: option.splits)
  moreover have "distinct (map fm_sig ?ms) \<and> (\<forall>m \<in> set ?ms. i \<le> fm_sig m) \<and> length ?ms \<le> length (sig # sigs)"
    using ms(2,3,4) by (fastforce simp: sig_match_def split: option.splits)
  ultimately show ?case using ms(1) r(1) by simp
qed

text \<open>The sort.\<close>

interpretation match_sort: exchange_sort "\<lambda>m. - uint (conf_num (fm_confidence m))" exchange_matches
  by unfold_locales (simp add: exchange_matches_def word_less_alt)

lemma sort_matches_passes:
  assumes "length ms < 2 ^ 32"
  shows "sort_matches ms = match_sort.passes (length ms - 1) ms"
proof (cases ms)
  case Nil
  have "fold (\<lambda>i ms. fold (exchange_matches i) [i + 1 ..< length ms] ms) is [] = []" for "is"
    by (induction "is") simp_all
  with Nil show ?thesis by (simp add: sort_matches_def match_sort.passes_def)
next
  case (Cons m ms')
  have "unat (word_of_nat (length ms) - 1 :: u32) = length ms - 1"
  proof -
    have e: "(word_of_nat (length ms) - 1 :: u32) = word_of_nat (length ms')" by (simp add: Cons)
    have "length ms' < 2 ^ 32" using assms by (simp add: Cons)
    then show ?thesis unfolding e by (simp add: Cons unat_of_nat)
  qed
  then show ?thesis by (simp add: sort_matches_def match_sort.passes_def)
qed

definition by_confidence :: "E9FuncSigMatch list \<Rightarrow> bool" where
  "by_confidence ms \<longleftrightarrow> sorted (map (\<lambda>m. - uint (conf_num (fm_confidence m))) ms)"

lemma sort_matches_spec:
  assumes "length ms < 2 ^ 32"
  shows "mset (sort_matches ms) = mset ms \<and> by_confidence (sort_matches ms)"
  using match_sort.passes_sort [of ms] by (simp add: sort_matches_passes [OF assms] by_confidence_def)


section \<open>Properties of the matcher\<close>

text \<open>The arguments that \<open>e9_fsig_match\<close> searches with.\<close>

definition searchable :: "E9FuncSigDB \<Rightarrow> bytes \<Rightarrow> u64 \<Rightarrow> bool" where
  "searchable db c code_size \<longleftrightarrow>
     (\<forall>sig \<in> set db. fsig_ok sig) \<and> length db < 2 ^ 32 \<and> length c = unat code_size \<and> length c \<le> 2 ^ 31"

lemma fsig_match_result:
  assumes "searchable db c code_size" and "base \<le> addr" and "addr - base < code_size"
  shows "\<exists>ms. e9_fsig_match (Some db) (Some c) code_size base addr arch (Some n) =
      Some (Some ms, Some (word_of_nat (length ms))) \<and>
    by_confidence ms \<and> distinct (map fm_sig ms) \<and>
    set ms = {sig_match addr k cf | k cf. k < length db \<and> identifies (drop (unat (addr - base)) c) arch (db ! k) cf}"
proof -
  let ?o = "unat (addr - base)"
  let ?code = "drop ?o c"
  have s: "\<forall>sig \<in> set db. fsig_ok sig" "length db < 2 ^ 32" "length c = unat code_size" "length c \<le> 2 ^ 31"
    using assms(1) by (simp_all add: searchable_def)
  have len: "unat (code_size - (addr - base)) = length ?code"
    using assms(3) s(3) by (simp add: unat_sub_if' word_less_nat_alt)
  have "length ?code \<le> 2 ^ 31" using s(4) by simp
  from match_sigs_spec [OF s(1) this, of arch addr 0] obtain ms where
    ms: "match_sigs ?code (length ?code) arch addr 0 db = Some ms" "length ms \<le> length db" "distinct (map fm_sig ms)"
      "set ms = {sig_match addr (0 + k) cf | k cf. k < length db \<and> identifies ?code arch (db ! k) cf}" by blast
  have so: "mset (sort_matches ms) = mset ms" "by_confidence (sort_matches ms)"
    using sort_matches_spec [of ms] ms(2) s(2) by simp_all
  have "mset (map fm_sig (sort_matches ms)) = mset (map fm_sig ms)" using so(1) by simp
  then have "distinct (map fm_sig (sort_matches ms))" using ms(3) mset_eq_imp_distinct_iff by blast
  moreover have "set (sort_matches ms) = set ms" "length (sort_matches ms) = length ms"
    using so(1) by (metis set_mset_mset, metis size_mset)
  moreover have "e9_fsig_match (Some db) (Some c) code_size base addr arch (Some n) =
      Some (Some (sort_matches ms), Some (word_of_nat (length ms)))"
    using ms(1) len linorder_not_less [THEN iffD2, OF assms(2)] linorder_not_le [THEN iffD2, OF assms(3)]
    by (simp only: e9_fsig_match_def) simp
  ultimately show ?thesis using so(2) ms(4) by (intro exI [of _ "sort_matches ms"]) simp
qed

text \<open>
  C6.  The matcher returns exactly the signatures that identify the code at the address, each once,
  in descending order of confidence, and never reads outside the file or a pattern.
\<close>

theorem fsig_match_spec:
  assumes "searchable db c code_size" and "base \<le> addr" and "addr - base < code_size"
  shows "\<exists>ms. e9_fsig_match (Some db) (Some c) code_size base addr arch (Some n) =
      Some (Some ms, Some (word_of_nat (length ms))) \<and>
    by_confidence ms \<and> distinct (map fm_sig ms) \<and>
    set ms = {sig_match addr k cf | k cf. k < length db \<and> identifies (drop (unat (addr - base)) c) arch (db ! k) cf}"
  by (rule fsig_match_result [OF assms])

lemma builtin_sigs:
  "e9_fsigdb_create = Some (E9_SIGS_LIBC @ E9_SIGS_COMPILER @ E9_SIGS_CXXRT @ E9_SIGS_CRYPTO @ E9_SIGS_SYSCALL)"
proof -
  have "add_all sigs (Some d) = Some (d @ sigs)" for sigs d
    by (induction sigs arbitrary: d) (simp_all add: add_all_def e9_fsigdb_add_def)
  then show ?thesis by (simp add: e9_fsigdb_create_def)
qed

definition builtin_db :: E9FuncSigDB where
  "builtin_db = E9_SIGS_LIBC @ E9_SIGS_COMPILER @ E9_SIGS_CXXRT @ E9_SIGS_CRYPTO @ E9_SIGS_SYSCALL"

lemmas builtin_tables = E9_SIGS_LIBC_def E9_SIGS_COMPILER_def E9_SIGS_CXXRT_def E9_SIGS_CRYPTO_def E9_SIGS_SYSCALL_def
  X64_PROLOGUE_1_def X64_PROLOGUE_2_def X64_PROLOGUE_3_def X64_PROLOGUE_4_def X64_EPILOGUE_1_def X64_EPILOGUE_2_def
  A64_PROLOGUE_1_def A64_EPILOGUE_1_def MASK_EXACT_1_def MASK_EXACT_2_def MASK_EXACT_4_def MASK_EXACT_8_def

lemma builtin_db_ok: "\<forall>sig \<in> set builtin_db. fsig_ok sig"
  by (simp add: builtin_db_def builtin_tables fsig_ok_def)

lemma builtin_db_length: "length builtin_db = 17"
  by (simp add: builtin_db_def builtin_tables)


lemma builtin_demo: "searchable builtin_db [0x0F, 0x0B, 0x5D, 0xC3] 4"
  using builtin_db_ok by (simp add: searchable_def builtin_db_length)

lemma fsig_match_spec_witness:
  "\<exists>ms. e9_fsig_match (Some builtin_db) (Some [0x0F, 0x0B, 0x5D, 0xC3]) 4 0x400000 0x400001 E9_FSIG_ARCH_X64 (Some 0) =
      Some (Some ms, Some (word_of_nat (length ms))) \<and>
    by_confidence ms \<and> distinct (map fm_sig ms) \<and>
    set ms = {sig_match 0x400001 k cf | k cf. k < length builtin_db \<and>
      identifies (drop (unat (0x400001 - 0x400000 :: u64)) [0x0F, 0x0B, 0x5D, 0xC3]) E9_FSIG_ARCH_X64 (builtin_db ! k) cf}"
  by (rule fsig_match_spec [OF builtin_demo]) simp_all

text \<open>The file of two functions: \<open>ret\<close>, and \<open>mov eax, 60; syscall; ret\<close>.\<close>

definition two_functions :: E9Analysis where
  "two_functions =
     \<lparr>bin_data = [0xC3, 0x90, 0x90, 0x90, 0x90, 0x90, 0x90, 0x90, 0xB8, 0x3C, 0, 0, 0, 0x0F, 0x05, 0xC3, 0, 0, 0, 0],
      bin_base_address = 0, bin_arch = E9_ARCH_X86_64, bin_sections = [], an_format = E9_FORMAT_RAW, an_is_pie = False,
      an_has_debug_info = False, an_entry_point = 0, an_symbols = [],
      an_functions = [new_function 8 (Some (str_bytes ''FUN_8'')), new_function 0 (Some (str_bytes ''FUN_0''))],
      an_mappings = [], an_ape = no_ape_layout\<rparr>"


section \<open>The pass after the analysis\<close>

lemma fsig_functions_inert:
  "\<forall>f \<in> set fs. named_by_symbol f \<Longrightarrow> fsig_functions db arch bin fs = Some (0, fs, bin)"
  by (induction fs) simp_all

lemma named_sub_name: "fn_name f = Some (sub_name a) \<Longrightarrow> named_by_symbol f"
  by (simp add: named_by_symbol_def sub_name_def str_bytes_def)

text \<open>
  C40.  The pass skips every function whose name does not start with \<open>FUN_\<close>, and the analysis
  never makes such a name: after \<open>e9_binary_analyze\<close> the pass changes nothing and reports that it
  named no function, whatever the signatures, unless a symbol of the file has such a name or none.
\<close>

theorem fsig_pass_inert:
  assumes "e9_binary_create (Some data) = Some bin"
    and "e9_binary_analyze (Some (bin\<lparr>an_symbols := syms\<rparr>)) = Some (0, Some bin')"
    and "\<forall>s \<in> set (an_symbols bin'). \<exists>n. sy_name s = Some n \<and> take 4 n \<noteq> str_bytes ''FUN_''"
  shows "e9_fsig_analyze_binary (Some db) (Some bin') =
    Some (if bin_arch bin' \<in> {E9_ARCH_X86_64, E9_ARCH_AARCH64} then 0 else -1, Some bin')"
proof -
  have "named_by_symbol f" if f: "f \<in> set (an_functions bin')" for f
  proof (cases "\<exists>a. fn_name f = Some (sub_name a)")
    case True
    then show ?thesis using named_sub_name by blast
  next
    case False
    with analyze_names [OF assms(1,2)] f assms(3) show ?thesis by (force simp: named_by_symbol_def)
  qed
  then have r: "fsig_functions db arch bin' (an_functions bin') = Some (0, an_functions bin', bin')" for arch
    by (intro fsig_functions_inert) blast
  show ?thesis by (simp add: e9_fsig_analyze_binary_def Let_def r split: E9Arch.split)
qed

lemma fsig_pass_inert_witness:
  "\<exists>bin'. e9_binary_analyze (Some (raw_demo\<lparr>an_symbols := raw_syms\<rparr>)) = Some (0, Some bin') \<and>
    e9_fsig_analyze_binary (Some builtin_db) (Some bin') =
      Some (if bin_arch bin' \<in> {E9_ARCH_X86_64, E9_ARCH_AARCH64} then 0 else -1, Some bin')"
proof -
  from analyze_raw [OF raw_demo_create _ _ raw_syms_small] obtain bin' where
    a: "e9_binary_analyze (Some (raw_demo\<lparr>an_symbols := raw_syms\<rparr>)) = Some (0, Some bin')"
      "\<forall>s \<in> set (an_symbols bin'). s \<in> set raw_syms \<or> (\<exists>a. sy_name s = Some (sub_name a))" by auto
  have "\<exists>n. sy_name s = Some n \<and> take 4 n \<noteq> str_bytes ''FUN_''" if "s \<in> set (an_symbols bin')" for s
    using a(2) that by (auto simp: raw_syms_def new_symbol_def sub_name_def str_bytes_def)
  then have n: "\<forall>s \<in> set (an_symbols bin'). \<exists>n. sy_name s = Some n \<and> take 4 n \<noteq> str_bytes ''FUN_''" by blast
  show ?thesis using a(1) fsig_pass_inert [OF raw_demo_create a(1) n, of builtin_db] by blast
qed

end
