(* ===== verification/E9Decompile.thy ===== *)
theory E9Decompile
  imports E9AnPipeline
begin

text \<open>
  The C decompiler of \<open>src/src/e9patch/analysis/e9decompile.c\<close>: the output buffer, the
  intermediate representation and its constructors, the printer of expressions, the lifting of
  instructions, and the pipeline from a function or an image to C text.

  The members of the union in \<open>E9IRValue\<close> become constructors; a null pointer to a value is
  \<open>IR_NULL\<close>.  An operator that is used with a member of another shape has no text in the model
  (\<open>None\<close>).  Texts of an instruction are strings, texts of the output are bytes without a
  terminating zero, and every single piece of output is shorter than 2 GiB.
\<close>

section \<open>Intermediate representation\<close>

datatype E9IROp =
    E9_IR_CONST | E9_IR_REG | E9_IR_LOCAL | E9_IR_GLOBAL | E9_IR_PARAM | E9_IR_TEMP
  | E9_IR_LOAD | E9_IR_STORE
  | E9_IR_ADD | E9_IR_SUB | E9_IR_MUL | E9_IR_DIV | E9_IR_MOD | E9_IR_NEG
  | E9_IR_AND | E9_IR_OR | E9_IR_XOR | E9_IR_NOT | E9_IR_SHL | E9_IR_SHR | E9_IR_SAR
  | E9_IR_EQ | E9_IR_NE | E9_IR_LT | E9_IR_LE | E9_IR_GT | E9_IR_GE
  | E9_IR_LTU | E9_IR_LEU | E9_IR_GTU | E9_IR_GEU
  | E9_IR_CAST | E9_IR_SEXT | E9_IR_ZEXT | E9_IR_TRUNC
  | E9_IR_CALL | E9_IR_RET | E9_IR_BRANCH | E9_IR_GOTO
  | E9_IR_PHI | E9_IR_ADDRESS | E9_IR_DEREF | E9_IR_MEMBER | E9_IR_INDEX

text \<open>The operators in the order of the enumeration, which gives their numbers.\<close>

definition ir_ops :: "E9IROp list" where
  "ir_ops =
     [E9_IR_CONST, E9_IR_REG, E9_IR_LOCAL, E9_IR_GLOBAL, E9_IR_PARAM, E9_IR_TEMP,
      E9_IR_LOAD, E9_IR_STORE,
      E9_IR_ADD, E9_IR_SUB, E9_IR_MUL, E9_IR_DIV, E9_IR_MOD, E9_IR_NEG,
      E9_IR_AND, E9_IR_OR, E9_IR_XOR, E9_IR_NOT, E9_IR_SHL, E9_IR_SHR, E9_IR_SAR,
      E9_IR_EQ, E9_IR_NE, E9_IR_LT, E9_IR_LE, E9_IR_GT, E9_IR_GE,
      E9_IR_LTU, E9_IR_LEU, E9_IR_GTU, E9_IR_GEU,
      E9_IR_CAST, E9_IR_SEXT, E9_IR_ZEXT, E9_IR_TRUNC,
      E9_IR_CALL, E9_IR_RET, E9_IR_BRANCH, E9_IR_GOTO,
      E9_IR_PHI, E9_IR_ADDRESS, E9_IR_DEREF, E9_IR_MEMBER, E9_IR_INDEX]"

definition ir_op_num :: "E9IROp \<Rightarrow> nat" where
  "ir_op_num op = length (takeWhile (\<lambda>x. x \<noteq> op) ir_ops)"

datatype E9DataType =
    E9_TYPE_VOID | E9_TYPE_INT8 | E9_TYPE_INT16 | E9_TYPE_INT32 | E9_TYPE_INT64
  | E9_TYPE_UINT8 | E9_TYPE_UINT16 | E9_TYPE_UINT32 | E9_TYPE_UINT64
  | E9_TYPE_FLOAT | E9_TYPE_DOUBLE | E9_TYPE_POINTER
  | E9_TYPE_ARRAY | E9_TYPE_STRUCT | E9_TYPE_UNION | E9_TYPE_FUNCTION | E9_TYPE_UNKNOWN

datatype E9IRValue =
    IR_NULL
  | IR_Const int
  | IR_Reg int
  | IR_Var E9IROp int "bytes ptr"
  | IR_Binary E9IROp E9IRValue E9IRValue
  | IR_Unary E9IROp "E9DataType ptr" E9IRValue
  | IR_Load E9IRValue int
  | IR_Store E9IRValue E9IRValue int
  | IR_Call E9IRValue "E9IRValue list"

record E9IRStmt =
  st_dest :: E9IRValue
  st_value :: E9IRValue
  st_addr :: u64

datatype E9StructType =
    E9_STRUCT_SEQ | E9_STRUCT_IF | E9_STRUCT_WHILE | E9_STRUCT_DOWHILE | E9_STRUCT_FOR
  | E9_STRUCT_SWITCH | E9_STRUCT_BREAK | E9_STRUCT_CONTINUE

record E9IRBlock =
  ib_id :: nat
  ib_stmts :: "E9IRStmt list"
  ib_struct :: E9StructType
  ib_original :: "E9BasicBlock ptr"

record E9IRFunc =
  irf_name :: bytes
  irf_return_type :: "E9DataType ptr"
  irf_params :: "(bytes ptr \<times> E9DataType ptr) list"
  irf_blocks :: "E9IRBlock list"
  irf_entry :: "nat ptr"
  irf_original :: "E9Function ptr"

section \<open>The decompiler and its output buffer\<close>

record E9DecompileOpts =
  op_emit_comments :: bool
  op_emit_types :: bool
  op_use_cosmopolitan :: bool
  op_remove_dead_code :: bool
  op_fold_constants :: bool
  op_inline_small_funcs :: bool
  op_indent_width :: int
  op_header_include :: "bytes ptr"

text \<open>
  \<open>dc_text\<close> is the C string in \<open>output\<close>, up to its first zero; \<open>dc_size\<close> is \<open>output_size\<close>, which
  may lie behind that zero.
\<close>

record E9Decompile =
  dc_binary :: "E9Analysis ptr"
  dc_opts :: E9DecompileOpts
  dc_text :: bytes
  dc_size :: nat
  dc_capacity :: nat

definition dc_default_opts :: E9DecompileOpts where
  "dc_default_opts =
     \<lparr>op_emit_comments = True, op_emit_types = True, op_use_cosmopolitan = True, op_remove_dead_code = True,
      op_fold_constants = True, op_inline_small_funcs = False, op_indent_width = 4,
      op_header_include = Some (str_bytes ''cosmopolitan.h'')\<rparr>"

definition e9_decompile_create :: "E9Analysis ptr \<Rightarrow> E9DecompileOpts ptr \<Rightarrow> E9Decompile" where
  "e9_decompile_create bin opts =
     \<lparr>dc_binary = bin, dc_opts = (case opts of None \<Rightarrow> dc_default_opts | Some x \<Rightarrow> x),
      dc_text = [], dc_size = 0, dc_capacity = 65536\<rparr>"

text \<open>
  \<open>emit\<close> with a formatted text.  When \<open>output_size\<close> has passed the capacity, the size given to
  \<open>vsnprintf\<close> wraps around and it writes behind the buffer: \<open>None\<close>.
\<close>

definition dc_emit :: "bytes \<Rightarrow> E9Decompile \<Rightarrow> E9Decompile ub" where
  "dc_emit s dc =
     (let cap = (if dc_size dc + 1024 > dc_capacity dc then dc_capacity dc * 2 + 1024 else dc_capacity dc) in
      if cap < dc_size dc then None
      else Some (dc\<lparr>dc_capacity := cap,
        dc_text := (if dc_size dc \<le> length (dc_text dc) \<and> dc_size dc < cap
                    then take (dc_size dc) (dc_text dc) @ take (cap - dc_size dc - 1) s else dc_text dc),
        dc_size := dc_size dc + length s\<rparr>))"

definition dc_emits :: "bytes list \<Rightarrow> E9Decompile \<Rightarrow> E9Decompile ub" where
  "dc_emits = mfold dc_emit"

definition dc_reset :: "E9Decompile \<Rightarrow> E9Decompile" where
  "dc_reset dc = dc\<lparr>dc_size := 0\<rparr>"

text \<open>The pieces of \<open>emit_indent (dc, level)\<close>.\<close>

definition indent :: "E9DecompileOpts \<Rightarrow> nat \<Rightarrow> bytes list" where
  "indent opts level = replicate (nat (int level * op_indent_width opts)) (str_bytes '' '')"

section \<open>Types\<close>

definition e9_type_to_cosmo :: "int \<Rightarrow> bool \<Rightarrow> bool \<Rightarrow> string" where
  "e9_type_to_cosmo size_bits is_signed is_pointer =
     (if is_pointer then ''void *''
      else if size_bits = 8 then (if is_signed then ''int8_t'' else ''uint8_t'')
      else if size_bits = 16 then (if is_signed then ''int16_t'' else ''uint16_t'')
      else if size_bits = 32 then (if is_signed then ''int32_t'' else ''uint32_t'')
      else (if is_signed then ''int64_t'' else ''uint64_t''))"

definition type_to_c :: "E9DataType ptr \<Rightarrow> string" where
  "type_to_c ty =
     (case ty of
        None \<Rightarrow> ''int64_t''
      | Some k \<Rightarrow>
          (case k of
             E9_TYPE_VOID \<Rightarrow> ''void''
           | E9_TYPE_INT8 \<Rightarrow> ''int8_t'' | E9_TYPE_INT16 \<Rightarrow> ''int16_t''
           | E9_TYPE_INT32 \<Rightarrow> ''int32_t'' | E9_TYPE_INT64 \<Rightarrow> ''int64_t''
           | E9_TYPE_UINT8 \<Rightarrow> ''uint8_t'' | E9_TYPE_UINT16 \<Rightarrow> ''uint16_t''
           | E9_TYPE_UINT32 \<Rightarrow> ''uint32_t'' | E9_TYPE_UINT64 \<Rightarrow> ''uint64_t''
           | E9_TYPE_FLOAT \<Rightarrow> ''float'' | E9_TYPE_DOUBLE \<Rightarrow> ''double''
           | E9_TYPE_POINTER \<Rightarrow> ''void *''
           | _ \<Rightarrow> ''int64_t''))"

section \<open>Constructors\<close>

text \<open>The size in bits is not stored.\<close>

definition e9_ir_const :: "int \<Rightarrow> int \<Rightarrow> E9IRValue" where "e9_ir_const v size_bits = IR_Const v"
definition e9_ir_reg :: "int \<Rightarrow> E9IRValue" where "e9_ir_reg r = IR_Reg r"
definition e9_ir_local :: "int \<Rightarrow> bytes ptr \<Rightarrow> E9IRValue" where "e9_ir_local i name = IR_Var E9_IR_LOCAL i name"
definition e9_ir_temp :: "int \<Rightarrow> E9IRValue" where "e9_ir_temp i = IR_Var E9_IR_TEMP i None"
definition e9_ir_binary :: "E9IROp \<Rightarrow> E9IRValue \<Rightarrow> E9IRValue \<Rightarrow> E9IRValue" where
  "e9_ir_binary op l r = IR_Binary op l r"
definition e9_ir_unary :: "E9IROp \<Rightarrow> E9IRValue \<Rightarrow> E9IRValue" where "e9_ir_unary op v = IR_Unary op None v"
definition e9_ir_load :: "E9IRValue \<Rightarrow> int \<Rightarrow> E9IRValue" where "e9_ir_load addr n = IR_Load addr n"
definition e9_ir_call :: "E9IRValue \<Rightarrow> E9IRValue list \<Rightarrow> E9IRValue" where "e9_ir_call f args = IR_Call f args"

text \<open>The stored value hangs on the address (\<open>addr->next\<close>), which must not be null.\<close>

definition e9_ir_store :: "E9IRValue \<Rightarrow> E9IRValue \<Rightarrow> int \<Rightarrow> E9IRValue ub" where
  "e9_ir_store addr v n = (if addr = IR_NULL then None else Some (IR_Store addr v n))"

section \<open>Printing expressions\<close>

definition op_to_c :: "E9IROp \<Rightarrow> string" where
  "op_to_c op =
     (case op of
        E9_IR_ADD \<Rightarrow> ''+'' | E9_IR_SUB \<Rightarrow> ''-'' | E9_IR_MUL \<Rightarrow> ''*'' | E9_IR_DIV \<Rightarrow> ''/''
      | E9_IR_MOD \<Rightarrow> ''%%'' | E9_IR_AND \<Rightarrow> ''&'' | E9_IR_OR \<Rightarrow> ''|'' | E9_IR_XOR \<Rightarrow> ''^''
      | E9_IR_SHL \<Rightarrow> ''<<'' | E9_IR_SHR \<Rightarrow> ''>>'' | E9_IR_SAR \<Rightarrow> ''>>''
      | E9_IR_EQ \<Rightarrow> ''=='' | E9_IR_NE \<Rightarrow> ''!=''
      | E9_IR_LT \<Rightarrow> ''<'' | E9_IR_LE \<Rightarrow> ''<='' | E9_IR_GT \<Rightarrow> ''>'' | E9_IR_GE \<Rightarrow> ''>=''
      | E9_IR_LTU \<Rightarrow> ''<'' | E9_IR_LEU \<Rightarrow> ''<='' | E9_IR_GTU \<Rightarrow> ''>'' | E9_IR_GEU \<Rightarrow> ''>=''
      | _ \<Rightarrow> ''?'')"

definition op_precedence :: "E9IROp \<Rightarrow> nat" where
  "op_precedence op =
     (if op \<in> {E9_IR_MUL, E9_IR_DIV, E9_IR_MOD} then 3
      else if op \<in> {E9_IR_ADD, E9_IR_SUB} then 4
      else if op \<in> {E9_IR_SHL, E9_IR_SHR, E9_IR_SAR} then 5
      else if op \<in> {E9_IR_LT, E9_IR_LE, E9_IR_GT, E9_IR_GE, E9_IR_LTU, E9_IR_LEU, E9_IR_GTU, E9_IR_GEU} then 6
      else if op \<in> {E9_IR_EQ, E9_IR_NE} then 7
      else if op = E9_IR_AND then 8
      else if op = E9_IR_XOR then 9
      else if op = E9_IR_OR then 10
      else 15)"

text \<open>The operators that \<open>emit_value\<close> prints between two operands.\<close>

definition ir_infix :: "E9IROp list" where
  "ir_infix =
     [E9_IR_ADD, E9_IR_SUB, E9_IR_MUL, E9_IR_DIV, E9_IR_MOD, E9_IR_AND, E9_IR_OR, E9_IR_XOR,
      E9_IR_SHL, E9_IR_SHR, E9_IR_SAR, E9_IR_EQ, E9_IR_NE, E9_IR_LT, E9_IR_LE, E9_IR_GT, E9_IR_GE,
      E9_IR_LTU, E9_IR_LEU, E9_IR_GTU, E9_IR_GEU]"

text \<open>The operators of its \<open>default\<close> case.\<close>

definition ir_unprinted :: "E9IROp list" where
  "ir_unprinted =
     [E9_IR_STORE, E9_IR_SEXT, E9_IR_ZEXT, E9_IR_TRUNC, E9_IR_RET, E9_IR_BRANCH, E9_IR_GOTO, E9_IR_PHI,
      E9_IR_MEMBER, E9_IR_INDEX]"

definition unknown_text :: "E9IROp \<Rightarrow> bytes list ub" where
  "unknown_text op =
     (if op \<in> set ir_unprinted then Some [str_bytes (''/* unknown op '' @ dec (ir_op_num op) @ '' */'')] else None)"

definition dc_x64_reg_names :: "string list" where
  "dc_x64_reg_names =
     [''rax'', ''rbx'', ''rcx'', ''rdx'', ''rsi'', ''rdi'', ''rbp'', ''rsp'',
      ''r8'', ''r9'', ''r10'', ''r11'', ''r12'', ''r13'', ''r14'', ''r15'',
      ''rip'', ''rflags'', ''ah'', ''bh'', ''ch'', ''dh'']"

definition const_text :: "int \<Rightarrow> string" where
  "const_text v =
     (if v < 0 then ''('' @ dec_int v @ '')''
      else if v > 0xFFFF then ''0x'' @ hex (nat v)
      else dec (nat v))"

definition reg_text :: "int \<Rightarrow> string" where
  "reg_text r = (if 0 \<le> r \<and> r < 22 then ''_'' @ dc_x64_reg_names ! nat r else ''_reg'' @ dec_int r)"

definition var_text :: "E9IROp \<Rightarrow> int \<Rightarrow> bytes ptr \<Rightarrow> bytes ub" where
  "var_text op i name =
     (let named = (\<lambda>prefix. case name of None \<Rightarrow> str_bytes (prefix @ dec_int i) | Some n \<Rightarrow> n) in
      case op of
        E9_IR_LOCAL \<Rightarrow> Some (named ''local_'')
      | E9_IR_PARAM \<Rightarrow> Some (named ''param_'')
      | E9_IR_TEMP \<Rightarrow> Some (str_bytes (''t'' @ dec_int i))
      | E9_IR_GLOBAL \<Rightarrow> Some (named ''g_'')
      | _ \<Rightarrow> None)"

definition load_type :: "int \<Rightarrow> string" where
  "load_type n = (if n = 1 then ''int8_t'' else if n = 2 then ''int16_t'' else if n = 4 then ''int32_t'' else ''int64_t'')"

definition unary_prefix :: "E9IROp \<Rightarrow> E9DataType ptr \<Rightarrow> string ptr" where
  "unary_prefix op ty =
     (case op of
        E9_IR_NEG \<Rightarrow> Some ''-''
      | E9_IR_NOT \<Rightarrow> Some ''~''
      | E9_IR_ADDRESS \<Rightarrow> Some ''&''
      | E9_IR_DEREF \<Rightarrow> Some ''*''
      | E9_IR_CAST \<Rightarrow> Some (''('' @ type_to_c ty @ '')'')
      | _ \<Rightarrow> None)"

text \<open>\<open>emit_value\<close>: the pieces, one for each call of \<open>emit\<close>.\<close>

fun value_pieces :: "E9IRValue \<Rightarrow> nat \<Rightarrow> bytes list ub"
  and arg_pieces :: "E9IRValue list \<Rightarrow> bool \<Rightarrow> bytes list ub" where
  "value_pieces IR_NULL prec = Some [str_bytes ''0'']"
| "value_pieces (IR_Const v) prec = Some [str_bytes (const_text v)]"
| "value_pieces (IR_Reg r) prec = Some [str_bytes (reg_text r)]"
| "value_pieces (IR_Var op i name) prec = map_option (\<lambda>t. [t]) (var_text op i name)"
| "value_pieces (IR_Binary op l r) prec =
     (if op \<in> set ir_infix then do {
        let p = op_precedence op;
        a \<leftarrow> value_pieces l p;
        b \<leftarrow> value_pieces r p;
        let t = a @ [str_bytes ('' '' @ op_to_c op @ '' '')] @ b;
        Some (if p \<ge> prec then [str_bytes ''(''] @ t @ [str_bytes '')''] else t)
      } else unknown_text op)"
| "value_pieces (IR_Unary op ty v) prec =
     (case unary_prefix op ty of
        Some s \<Rightarrow> map_option (\<lambda>t. str_bytes s # t) (value_pieces v 2)
      | None \<Rightarrow> unknown_text op)"
| "value_pieces (IR_Load addr n) prec =
     map_option (\<lambda>t. str_bytes (''*('' @ load_type n @ '' *)'') # t) (value_pieces addr 2)"
| "value_pieces (IR_Store addr v n) prec = unknown_text E9_IR_STORE"
| "value_pieces (IR_Call f args) prec = do {
     a \<leftarrow> value_pieces f 15;
     b \<leftarrow> arg_pieces args True;
     Some (a @ [str_bytes ''(''] @ b @ [str_bytes '')''])
   }"
| "arg_pieces [] first = Some []"
| "arg_pieces (v # vs) first = do {
     a \<leftarrow> value_pieces v 15;
     b \<leftarrow> arg_pieces vs False;
     Some ((if first then [] else [str_bytes '', '']) @ a @ b)
   }"

section \<open>Operands\<close>

text \<open>Conversions of \<open>sscanf\<close> and \<open>strtoll\<close> on the texts of an instruction.\<close>

definition is_space :: "char \<Rightarrow> bool" where
  "is_space c \<longleftrightarrow> (of_char c :: u8) \<in> {9, 10, 11, 12, 13, 32}"

text \<open>\<open>sscanf (s, "%<n>[^,], %<m>s", a, b) == 2\<close>\<close>

definition sscanf_pair :: "nat \<Rightarrow> nat \<Rightarrow> string \<Rightarrow> (string \<times> string) option" where
  "sscanf_pair n m s =
     (let a = takeWhile (\<lambda>c. c \<noteq> CHR '','') (take n s) in
      case drop (length a) s of
        [] \<Rightarrow> None
      | c # r \<Rightarrow>
          let b = takeWhile (\<lambda>c. \<not> is_space c) (take m (dropWhile is_space r)) in
          if a = [] \<or> c \<noteq> CHR '','' \<or> b = [] then None else Some (a, b))"

text \<open>\<open>strtoll\<close>: the value, saturated, and whether the whole text was a number.\<close>

definition strtoll :: "nat \<Rightarrow> string \<Rightarrow> int \<times> bool" where
  "strtoll base s =
     (case scan_number base (str_bytes s) of
        None \<Rightarrow> (0, False)
      | Some (neg, v, r) \<Rightarrow>
          (if neg then max (- (2 ^ 63)) (- int v) else min (2 ^ 63 - 1) (int v), r = []))"

text \<open>The base that a text selects when \<open>strtoll\<close> is called with base 0.\<close>

definition strtoll_base :: "string \<Rightarrow> nat" where
  "strtoll_base s =
     (case snd (scan_sign (skip_space (str_bytes s))) of
        b0 # r \<Rightarrow>
          if b0 = 0x30 then (case r of b1 # _ \<Rightarrow> if b1 = 0x78 \<or> b1 = 0x58 then 16 else 8 | [] \<Rightarrow> 8) else 10
      | [] \<Rightarrow> 10)"

definition x86_reg32_names :: "string list" where
  "x86_reg32_names =
     [''eax'', ''ebx'', ''ecx'', ''edx'', ''esi'', ''edi'', ''ebp'', ''esp'',
      ''r8d'', ''r9d'', ''r10d'', ''r11d'', ''r12d'', ''r13d'', ''r14d'', ''r15d'']"

definition x86_reg16_names :: "string list" where
  "x86_reg16_names =
     [''ax'', ''bx'', ''cx'', ''dx'', ''si'', ''di'', ''bp'', ''sp'',
      ''r8w'', ''r9w'', ''r10w'', ''r11w'', ''r12w'', ''r13w'', ''r14w'', ''r15w'']"

definition x86_reg8_names :: "string list" where
  "x86_reg8_names =
     [''al'', ''bl'', ''cl'', ''dl'', ''sil'', ''dil'', ''bpl'', ''spl'',
      ''r8b'', ''r9b'', ''r10b'', ''r11b'', ''r12b'', ''r13b'', ''r14b'', ''r15b'']"

text \<open>The first of the first 16 names that satisfies a test.\<close>

definition reg_where :: "(string \<Rightarrow> bool) \<Rightarrow> string list \<Rightarrow> nat option" where
  "reg_where p names = find (\<lambda>i. p (names ! i)) [0 ..< 16]"

definition reg_named :: "string \<Rightarrow> string list \<Rightarrow> nat option" where
  "reg_named s names = reg_where (\<lambda>n. s = n) names"

text \<open>\<open>parse_register\<close>: the register and its size in bits; \<open>None\<close> for the result -1.\<close>

definition parse_register :: "string \<Rightarrow> (int \<times> int) option" where
  "parse_register name =
     (if name = [] then None
      else
        let s = (if hd name = CHR ''%'' then tl name else name) in
        case reg_named s dc_x64_reg_names of Some i \<Rightarrow> Some (int i, 64) | None \<Rightarrow>
        (case reg_named s x86_reg32_names of Some i \<Rightarrow> Some (int i, 32) | None \<Rightarrow>
        (case reg_named s x86_reg16_names of Some i \<Rightarrow> Some (int i, 16) | None \<Rightarrow>
        (case reg_named s x86_reg8_names of Some i \<Rightarrow> Some (int i, 8) | None \<Rightarrow>
          if s = ''ah'' then Some (18, 8)
          else if s = ''bh'' then Some (19, 8)
          else if s = ''ch'' then Some (20, 8)
          else if s = ''dh'' then Some (21, 8)
          else if s = ''rip'' then Some (16, 64)
          else if s = ''rflags'' \<or> s = ''eflags'' then Some (17, 64)
          else None))))"

definition parse_operand :: "string \<Rightarrow> int \<Rightarrow> E9IRValue" where
  "parse_operand op0 default_size =
     (if op0 = [] then IR_NULL
      else
        let op = dropWhile (\<lambda>c. c = CHR '' '' \<or> c = CHR 0x09) op0 in
        case parse_register op of
          Some (r, _) \<Rightarrow> e9_ir_reg r
        | None \<Rightarrow>
            let num = (case op of c # r \<Rightarrow> if c = CHR ''$'' then r else op | [] \<Rightarrow> op);
                (imm, whole) = strtoll (strtoll_base num) num
            in if whole then e9_ir_const imm default_size
               else if (op \<noteq> [] \<and> hd op = CHR ''['') \<or> CHR ''('' \<in> set op then
                 e9_ir_load (IR_Var E9_IR_GLOBAL 0 (Some (str_bytes op))) (default_size div 8)
               else IR_Var E9_IR_GLOBAL 0 (Some (str_bytes op)))"

definition ir_value_get_reg :: "E9IRValue \<Rightarrow> int" where
  "ir_value_get_reg v = (case v of IR_Reg r \<Rightarrow> r | _ \<Rightarrow> -1)"

definition ir_get_dest :: "E9IRValue \<Rightarrow> E9IRValue" where
  "ir_get_dest v = (case v of IR_Reg r \<Rightarrow> v | _ \<Rightarrow> IR_NULL)"

section \<open>Lifting\<close>

definition blank_stmt :: "AInsn \<Rightarrow> E9IRStmt" where
  "blank_stmt i = \<lparr>st_dest = IR_NULL, st_value = IR_NULL, st_addr = ai_address i\<rparr>"

text \<open>The assignment, unless the destination cannot be assigned to.\<close>

definition assign_stmt :: "AInsn \<Rightarrow> E9IRValue \<Rightarrow> E9IRValue \<Rightarrow> E9IRStmt" where
  "assign_stmt i dest v =
     (if ir_get_dest dest = IR_NULL then blank_stmt i
      else (blank_stmt i)\<lparr>st_dest := ir_get_dest dest, st_value := v\<rparr>)"

text \<open>Three functions that the pipeline does not call.\<close>

definition lift_binary_op :: "AInsn \<Rightarrow> E9IROp \<Rightarrow> E9IRStmt" where
  "lift_binary_op i op =
     (case sscanf_pair 63 127 (ai_operands i) of
        None \<Rightarrow> blank_stmt i
      | Some (dest, src) \<Rightarrow>
          let d = parse_operand dest 64; s = parse_operand src 64 in
          if d \<noteq> IR_NULL \<and> s \<noteq> IR_NULL then assign_stmt i d (e9_ir_binary op d s) else blank_stmt i)"

definition lift_shift_op :: "AInsn \<Rightarrow> E9IROp \<Rightarrow> E9IRStmt" where
  "lift_shift_op i op =
     (case sscanf_pair 63 31 (ai_operands i) of
        Some (dest, shift) \<Rightarrow>
          let d = parse_operand dest 64; s = parse_operand shift 8 in
          if d \<noteq> IR_NULL \<and> s \<noteq> IR_NULL then assign_stmt i d (e9_ir_binary op d s) else blank_stmt i
      | None \<Rightarrow>
          let d = parse_operand (ai_operands i) 64 in
          if d \<noteq> IR_NULL then assign_stmt i d (e9_ir_binary op d (e9_ir_const 1 8)) else blank_stmt i)"

definition lift_unary_op :: "AInsn \<Rightarrow> E9IROp \<Rightarrow> E9IRStmt" where
  "lift_unary_op i op =
     (let d = parse_operand (ai_operands i) 64 in
      if d = IR_NULL then blank_stmt i
      else assign_stmt i d
        (if op = E9_IR_ADD then e9_ir_binary E9_IR_ADD d (e9_ir_const 1 64)
         else if op = E9_IR_SUB then e9_ir_binary E9_IR_SUB d (e9_ir_const 1 64)
         else e9_ir_unary op d))"

text \<open>\<open>strcmp (s, n) == 0 || (s[0] == 'e' && strcmp (s + 1, n + 1) == 0)\<close>\<close>

definition reg_or_e_reg :: "string \<Rightarrow> string \<Rightarrow> bool" where
  "reg_or_e_reg s n \<longleftrightarrow> s = n \<or> (s \<noteq> [] \<and> hd s = CHR ''e'' \<and> tl s = tl n)"

definition reg_value :: "(string \<Rightarrow> string \<Rightarrow> bool) \<Rightarrow> string \<Rightarrow> E9IRValue" where
  "reg_value eq s = (case reg_where (eq s) dc_x64_reg_names of None \<Rightarrow> IR_NULL | Some r \<Rightarrow> e9_ir_reg (int r))"

text \<open>A source operand: a number or what \<open>other\<close> makes of the text.\<close>

definition source_value :: "(string \<Rightarrow> E9IRValue) \<Rightarrow> string \<Rightarrow> E9IRValue" where
  "source_value other s =
     (if take 2 s = ''0x'' then e9_ir_const (fst (strtoll 16 s)) 64
      else if s \<noteq> [] \<and> (hd s \<in> set ''0123456789'' \<or> hd s = CHR ''-'') then e9_ir_const (fst (strtoll 10 s)) 64
      else other s)"

definition lift_instruction :: "AInsn \<Rightarrow> E9IRStmt" where
  "lift_instruction i =
     (let m = ai_mnemonic i; ops = ai_operands i; stmt = blank_stmt i in
      if m \<in> set [''mov'', ''movq'', ''movl'', ''movabs''] then
        (case sscanf_pair 31 63 ops of
           None \<Rightarrow> stmt
         | Some (dest, src) \<Rightarrow>
             stmt\<lparr>st_dest := reg_value reg_or_e_reg dest,
                  st_value := source_value (reg_value reg_or_e_reg) src\<rparr>)
      else if m \<in> set [''add'', ''addq'', ''addl''] then
        (case sscanf_pair 31 63 ops of
           None \<Rightarrow> stmt
         | Some (dest, src) \<Rightarrow>
             let d = reg_value (=) dest; s = source_value (reg_value (=)) src in
             if d \<noteq> IR_NULL \<and> s \<noteq> IR_NULL
             then stmt\<lparr>st_dest := d, st_value := e9_ir_binary E9_IR_ADD d s\<rparr> else stmt)
      else if m \<in> set [''sub'', ''subq'', ''subl''] then
        (case sscanf_pair 31 63 ops of
           None \<Rightarrow> stmt
         | Some (dest, src) \<Rightarrow>
             let d = reg_value (=) dest; s = source_value (\<lambda>_. IR_NULL) src in
             if d \<noteq> IR_NULL \<and> s \<noteq> IR_NULL
             then stmt\<lparr>st_dest := d, st_value := e9_ir_binary E9_IR_SUB d s\<rparr> else stmt)
      else if m \<in> set [''xor'', ''xorl''] then
        (case sscanf_pair 31 31 ops of
           None \<Rightarrow> stmt
         | Some (dest, src) \<Rightarrow>
             let d = reg_value reg_or_e_reg dest in
             if dest = src \<and> d \<noteq> IR_NULL then stmt\<lparr>st_dest := d, st_value := e9_ir_const 0 64\<rparr> else stmt)
      else if m \<in> set [''call'', ''callq''] then
        stmt\<lparr>st_dest := e9_ir_reg 0,
             st_value := e9_ir_call
               (if ai_target i \<noteq> 0 then e9_ir_const (sint (ai_target i)) 64 else e9_ir_reg 0) []\<rparr>
      else if m \<in> set [''ret'', ''retq''] then
        stmt\<lparr>st_value := IR_Unary E9_IR_RET None (e9_ir_reg 0)\<rparr>
      else stmt)"

definition lift_block :: "nat \<Rightarrow> E9BasicBlock \<Rightarrow> E9IRBlock" where
  "lift_block i bb =
     \<lparr>ib_id = i, ib_stmts = map lift_instruction (bb_insns bb), ib_struct = E9_STRUCT_SEQ, ib_original = Some bb\<rparr>"

text \<open>The decompiler is only tested for null.\<close>

definition e9_decompile_lift :: "E9Decompile ptr \<Rightarrow> E9Function ptr \<Rightarrow> E9IRFunc ptr" where
  "e9_decompile_lift dc func =
     (case (dc, func) of
        (Some _, Some f) \<Rightarrow>
          (case fn_cfg f of
             None \<Rightarrow> None
           | Some cfg \<Rightarrow>
               Some \<lparr>irf_name = (case fn_name f of None \<Rightarrow> str_bytes ''sub'' | Some n \<Rightarrow> n),
                     irf_return_type = None, irf_params = [],
                     irf_blocks = map2 lift_block [0 ..< length (cfg_blocks cfg)] (cfg_blocks cfg),
                     irf_entry = cfg_entry cfg, irf_original = Some f\<rparr>)
      | _ \<Rightarrow> None)"

text \<open>Structuring and type inference are not implemented in the program.\<close>

definition e9_decompile_structure :: "E9Decompile ptr \<Rightarrow> E9IRFunc ptr \<Rightarrow> int \<times> E9IRFunc ptr" where
  "e9_decompile_structure dc func =
     (case (dc, func) of
        (Some _, Some f) \<Rightarrow> (0, Some (f\<lparr>irf_blocks := map (ib_struct_update (\<lambda>_. E9_STRUCT_SEQ)) (irf_blocks f)\<rparr>))
      | _ \<Rightarrow> (-1, func))"

definition e9_decompile_infer_types :: "E9Decompile ptr \<Rightarrow> E9IRFunc ptr \<Rightarrow> int" where
  "e9_decompile_infer_types dc func = (if dc = None \<or> func = None then -1 else 0)"

section \<open>C text\<close>

definition address_comment :: "string \<Rightarrow> u64 \<Rightarrow> string" where
  "address_comment prefix a = prefix @ ''/* 0x'' @ hex (unat a) @ '' */''"

definition param_pieces :: "(bytes ptr \<times> E9DataType ptr) list \<Rightarrow> bytes list" where
  "param_pieces ps =
     (if ps = [] then [str_bytes ''void'']
      else concat (map (\<lambda>(i, name, ty).
        (if 0 < i then [str_bytes '', ''] else []) @
        [str_bytes (type_to_c ty @ '' '') @ (case name of None \<Rightarrow> str_bytes ''arg'' | Some n \<Rightarrow> n) @ str_bytes (dec i)])
        (enumerate 0 ps)))"

definition signature_pieces :: "E9DecompileOpts \<Rightarrow> E9IRFunc \<Rightarrow> bytes list" where
  "signature_pieces opts f =
     (if op_emit_comments opts then
        [str_bytes ''/* Function: '' @ irf_name f @ str_bytes '' */\<newline>''] @
        (case irf_original f of
           None \<Rightarrow> []
         | Some g \<Rightarrow> [str_bytes (''/* Address: 0x'' @ hex (unat (fn_address g)) @ '' */\<newline>'')])
      else []) @
     [str_bytes (type_to_c (irf_return_type f) @ '' '') @ irf_name f @ str_bytes ''(''] @
     param_pieces (irf_params f) @ [str_bytes '')\<newline>{\<newline>'']"

definition declaration_pieces :: "E9DecompileOpts \<Rightarrow> bytes list" where
  "declaration_pieces opts =
     indent opts 1 @ [str_bytes ''/* Register-mapped variables */\<newline>''] @
     indent opts 1 @ [str_bytes ''int64_t _rax = 0, _rbx = 0, _rcx = 0, _rdx = 0;\<newline>''] @
     indent opts 1 @ [str_bytes ''int64_t _rsi = 0, _rdi = 0, _rbp = 0;\<newline>''] @
     indent opts 1 @ [str_bytes ''int64_t _r8 = 0, _r9 = 0, _r10 = 0, _r11 = 0;\<newline>''] @
     indent opts 1 @ [str_bytes ''int64_t _r12 = 0, _r13 = 0, _r14 = 0, _r15 = 0;\<newline>\<newline>'']"

definition is_ret :: "E9IRValue \<Rightarrow> bool" where
  "is_ret v = (case v of IR_Unary op _ _ \<Rightarrow> op = E9_IR_RET | IR_Binary op _ _ \<Rightarrow> op = E9_IR_RET | _ \<Rightarrow> False)"

definition stmt_pieces :: "E9DecompileOpts \<Rightarrow> E9IRStmt \<Rightarrow> bytes list ub" where
  "stmt_pieces opts st = do {
     t \<leftarrow> (if st_dest st \<noteq> IR_NULL \<and> st_value st \<noteq> IR_NULL then do {
            d \<leftarrow> value_pieces (st_dest st) 15;
            v \<leftarrow> value_pieces (st_value st) 15;
            Some (d @ [str_bytes '' = ''] @ v @ [str_bytes '';''])
          }
          else if st_value st \<noteq> IR_NULL \<and> is_ret (st_value st) then Some [str_bytes ''return _rax;'']
          else if st_value st \<noteq> IR_NULL then do {
            v \<leftarrow> value_pieces (st_value st) 15;
            Some (v @ [str_bytes '';''])
          }
          else Some [str_bytes ''/* unlifted */'']);
     Some (indent opts 1 @ t @
       (if op_emit_comments opts \<and> st_addr st \<noteq> 0 then [str_bytes (address_comment '' '' (st_addr st))] else []) @
       [str_bytes ''\<newline>''])
   }"

fun stmts_pieces :: "E9DecompileOpts \<Rightarrow> E9IRStmt list \<Rightarrow> bytes list ub" where
  "stmts_pieces opts [] = Some []"
| "stmts_pieces opts (st # sts) = do {
     a \<leftarrow> stmt_pieces opts st;
     b \<leftarrow> stmts_pieces opts sts;
     Some (a @ b)
   }"

fun block_pieces :: "E9DecompileOpts \<Rightarrow> nat \<Rightarrow> E9IRBlock list \<Rightarrow> bytes list ub" where
  "block_pieces opts i [] = Some []"
| "block_pieces opts i (b # bs) = do {
     t \<leftarrow> stmts_pieces opts (ib_stmts b);
     r \<leftarrow> block_pieces opts (i + 1) bs;
     Some ([str_bytes (''block_'' @ dec i @ '':'')] @
       (case ib_original b of
          None \<Rightarrow> []
        | Some bb \<Rightarrow> if op_emit_comments opts then [str_bytes (address_comment '' '' (bb_start bb))] else []) @
       [str_bytes ''\<newline>''] @ t @ [str_bytes ''\<newline>''] @ r)
   }"

definition function_pieces :: "E9DecompileOpts \<Rightarrow> E9IRFunc \<Rightarrow> bytes list ub" where
  "function_pieces opts f = do {
     b \<leftarrow> block_pieces opts 0 (irf_blocks f);
     Some (signature_pieces opts f @ declaration_pieces opts @ b @ [str_bytes ''}\<newline>''])
   }"

text \<open>The text, and the decompiler afterwards.\<close>

definition e9_decompile_emit_c :: "E9Decompile ptr \<Rightarrow> E9IRFunc ptr \<Rightarrow> (bytes ptr \<times> E9Decompile ptr) ub" where
  "e9_decompile_emit_c dc func =
     (case (dc, func) of
        (Some d, Some f) \<Rightarrow> do {
          ps \<leftarrow> function_pieces (dc_opts d) f;
          d \<leftarrow> dc_emits ps (dc_reset d);
          Some (Some (dc_text d), Some d)
        }
      | _ \<Rightarrow> Some (None, dc))"

section \<open>The pipeline\<close>

text \<open>The text, the function with its graph and text, and the decompiler afterwards.\<close>

definition decompile_one :: "E9Decompile \<Rightarrow> E9Function \<Rightarrow> (bytes ptr \<times> E9Function \<times> E9Decompile) ub" where
  "decompile_one dc f = do {
     cfg \<leftarrow> (case fn_cfg f of
               Some cfg \<Rightarrow> Some (Some cfg)
             | None \<Rightarrow> e9_cfg_build (dc_binary dc) (Some (fn_address f, fn_end_address f)));
     case cfg of
       None \<Rightarrow> Some (None, f\<lparr>fn_cfg := None\<rparr>, dc)
     | Some cfg \<Rightarrow>
         let f = f\<lparr>fn_cfg := Some cfg\<rparr>;
             ir = e9_decompile_lift (Some dc) (Some f);
             ir = snd (e9_decompile_structure (Some dc) ir)
         in do {
           (t, d) \<leftarrow> e9_decompile_emit_c (Some dc) ir;
           Some (t, f\<lparr>fn_decompiled_c := t\<rparr>, case d of None \<Rightarrow> dc | Some d \<Rightarrow> d)
         }
   }"

definition e9_decompile_function_full ::
  "E9Decompile ptr \<Rightarrow> E9Function ptr \<Rightarrow> (bytes ptr \<times> E9Function ptr \<times> E9Decompile ptr) ub" where
  "e9_decompile_function_full dc func =
     (case (dc, func) of
        (Some d, Some f) \<Rightarrow> map_option (\<lambda>(t, f, d). (t, Some f, Some d)) (decompile_one d f)
      | _ \<Rightarrow> Some (None, func, dc))"

definition header_pieces :: "E9Decompile \<Rightarrow> bytes list" where
  "header_pieces dc =
     [str_bytes ''/*\<newline>'', str_bytes '' * Decompiled header - generated by E9Studio\<newline>'',
      str_bytes '' * Compile with: cosmocc -o output this_file.c\<newline>'', str_bytes '' */\<newline>\<newline>''] @
     (case op_header_include (dc_opts dc) of
        Some h \<Rightarrow> [str_bytes ''#include <'' @ h @ str_bytes ''>\<newline>\<newline>'']
      | None \<Rightarrow> [str_bytes ''#include <stdint.h>\<newline>'', str_bytes ''#include <stdbool.h>\<newline>'',
                 str_bytes ''#include <stddef.h>\<newline>\<newline>'']) @
     (case dc_binary dc of
        None \<Rightarrow> []
      | Some bin \<Rightarrow>
          map (\<lambda>f. str_bytes ''int64_t '' @ (case fn_name f of None \<Rightarrow> str_bytes ''sub'' | Some n \<Rightarrow> n) @
                 str_bytes ''(void);\<newline>'') (an_functions bin)) @
     [str_bytes ''\<newline>'']"

definition e9_decompile_header :: "E9Decompile ptr \<Rightarrow> (bytes ptr \<times> E9Decompile ptr) ub" where
  "e9_decompile_header dc =
     (case dc of
        None \<Rightarrow> Some (None, None)
      | Some d \<Rightarrow> do {
          d \<leftarrow> dc_emits (header_pieces d) (dc_reset d);
          Some (Some (dc_text d), Some d)
        })"

text \<open>The loop over the functions from the current one on.\<close>

fun decompile_functions :: "E9Decompile \<Rightarrow> E9Function list \<Rightarrow> (E9Function list \<times> E9Decompile) ub" where
  "decompile_functions dc [] = Some ([], dc)"
| "decompile_functions dc (f # fs) = do {
     (t, f', dc) \<leftarrow> decompile_one dc f;
     dc \<leftarrow> (case t of None \<Rightarrow> Some dc | Some t \<Rightarrow> dc_emit (str_bytes ''\<newline>'' @ t @ str_bytes ''\<newline>'') dc);
     (fs', dc) \<leftarrow> decompile_functions dc fs;
     Some (f' # fs', dc)
   }"

definition e9_decompile_binary :: "E9Decompile ptr \<Rightarrow> (bytes ptr \<times> E9Decompile ptr) ub" where
  "e9_decompile_binary dc =
     (case dc of
        None \<Rightarrow> Some (None, None)
      | Some d \<Rightarrow>
          (case dc_binary d of
             None \<Rightarrow> Some (None, dc)
           | Some bin \<Rightarrow> do {
               (h, d) \<leftarrow> e9_decompile_header (Some (dc_reset d));
               d \<leftarrow> (case (h, d) of (Some t, Some d) \<Rightarrow> map_option Some (dc_emit t d) | _ \<Rightarrow> Some d);
               case d of
                 None \<Rightarrow> Some (None, None)
               | Some d \<Rightarrow> do {
                   (fs, d) \<leftarrow> decompile_functions d (an_functions bin);
                   Some (Some (dc_text d), Some (d\<lparr>dc_binary := Some (bin\<lparr>an_functions := fs\<rparr>)\<rparr>))
                 }
             }))"

section \<open>The output buffer\<close>

text \<open>The next piece goes behind \<open>t\<close>.\<close>

definition at_end :: "bytes \<Rightarrow> E9Decompile \<Rightarrow> bool" where
  "at_end t dc \<longleftrightarrow> dc_size dc = length t \<and> t = take (length t) (dc_text dc) \<and> length t < dc_capacity dc"

definition same_dc :: "E9Decompile \<Rightarrow> E9Decompile \<Rightarrow> bool" where
  "same_dc a b \<longleftrightarrow> dc_binary b = dc_binary a \<and> dc_opts b = dc_opts a \<and> dc_capacity a \<le> dc_capacity b"

lemma same_dc_refl [simp]: "same_dc a a"
  by (simp add: same_dc_def)

lemma same_dc_trans: "same_dc a b \<Longrightarrow> same_dc b c \<Longrightarrow> same_dc a c"
  by (simp add: same_dc_def)

lemma at_end_reset: "0 < dc_capacity dc \<Longrightarrow> at_end [] (dc_reset dc)"
  by (simp add: at_end_def dc_reset_def)

lemma dc_emit_at_end:
  assumes "at_end t dc"
  shows "\<exists>k dc'. dc_emit s dc = Some dc' \<and> same_dc dc dc' \<and> 1023 \<le> k \<and> dc_text dc' = t @ take k s \<and>
    dc_size dc' = length t + length s \<and> length t + k < dc_capacity dc'"
proof -
  define cap where "cap = (if dc_size dc + 1024 > dc_capacity dc then dc_capacity dc * 2 + 1024 else dc_capacity dc)"
  have sz: "dc_size dc = length t" "t = take (length t) (dc_text dc)" "length t < dc_capacity dc"
    using assms by (simp_all add: at_end_def)
  have le: "length t \<le> length (dc_text dc)" by (metis sz(2) length_take min.absorb_iff2 min.commute nat_le_linear take_all)
  have cap: "length t + 1024 \<le> cap" "dc_capacity dc \<le> cap" using sz(1,3) by (auto simp: cap_def)
  let ?d = "dc\<lparr>dc_capacity := cap, dc_text := t @ take (cap - length t - 1) s, dc_size := length t + length s\<rparr>"
  have cap_eq: "(if length t + 1024 > dc_capacity dc then dc_capacity dc * 2 + 1024 else dc_capacity dc) = cap"
    by (simp only: cap_def sz(1))
  have "dc_emit s dc = Some ?d"
    unfolding dc_emit_def sz(1) cap_eq using cap le sz(2) by (simp add: Let_def)
  then show ?thesis using cap by (intro exI [of _ "cap - length t - 1"] exI [of _ ?d]) (simp add: same_dc_def)
qed

lemma dc_emit_short:
  assumes "at_end t dc" and "length s \<le> 1023"
  shows "\<exists>dc'. dc_emit s dc = Some dc' \<and> same_dc dc dc' \<and> at_end (t @ s) dc' \<and> dc_text dc' = t @ s"
proof -
  from dc_emit_at_end [OF assms(1), of s] obtain k dc' where d: "dc_emit s dc = Some dc'" "same_dc dc dc'" "1023 \<le> k"
    "dc_text dc' = t @ take k s" "dc_size dc' = length t + length s" "length t + k < dc_capacity dc'" by blast
  have "take k s = s" using d(3) assms(2) by simp
  with d assms(2) show ?thesis by (auto simp: at_end_def)
qed

text \<open>Short pieces are never cut off.\<close>

definition short_pieces :: "bytes list \<Rightarrow> bool" where
  "short_pieces ps \<longleftrightarrow> list_all (\<lambda>s. length s \<le> 1023) ps"

lemma short_pieces_simps [simp]:
  "short_pieces []" "short_pieces (p # ps) \<longleftrightarrow> length p \<le> 1023 \<and> short_pieces ps"
  "short_pieces (ps @ qs) \<longleftrightarrow> short_pieces ps \<and> short_pieces qs"
  by (auto simp: short_pieces_def)

lemma dc_emits_short:
  assumes "at_end t dc" and "short_pieces ps"
  shows "\<exists>dc'. dc_emits ps dc = Some dc' \<and> same_dc dc dc' \<and> at_end (t @ concat ps) dc' \<and>
    (ps \<noteq> [] \<longrightarrow> dc_text dc' = t @ concat ps)"
  using assms
proof (induction ps arbitrary: t dc)
  case Nil
  then show ?case by (simp add: dc_emits_def)
next
  case (Cons p ps)
  from dc_emit_short [OF Cons.prems(1), of p] Cons.prems(2) obtain d where
    d: "dc_emit p dc = Some d" "same_dc dc d" "at_end (t @ p) d" "dc_text d = t @ p" by auto
  from Cons.IH [OF d(3)] Cons.prems(2) obtain dc' where
    dc': "dc_emits ps d = Some dc'" "same_dc d dc'" "at_end ((t @ p) @ concat ps) dc'"
      "ps \<noteq> [] \<longrightarrow> dc_text dc' = (t @ p) @ concat ps" by auto
  have "dc_emits (p # ps) dc = Some dc'" using d(1) dc'(1) by (simp add: dc_emits_def)
  moreover have "dc_text dc' = t @ concat (p # ps)"
  proof (cases "ps = []")
    case True
    with dc'(1) d(4) show ?thesis by (simp add: dc_emits_def)
  next
    case False
    with dc'(4) show ?thesis by simp
  qed
  ultimately show ?case using same_dc_trans [OF d(2) dc'(2)] dc'(3) by simp
qed

lemma dc_print:
  assumes "0 < dc_capacity dc" and "short_pieces ps" and "ps \<noteq> []"
  shows "\<exists>dc'. dc_emits ps (dc_reset dc) = Some dc' \<and> same_dc dc dc' \<and> at_end (concat ps) dc' \<and> dc_text dc' = concat ps"
proof -
  have "same_dc dc (dc_reset dc)" by (simp add: same_dc_def dc_reset_def)
  with dc_emits_short [OF at_end_reset [OF assms(1)] assms(2)] assms(3) same_dc_trans show ?thesis by fastforce
qed

section \<open>Lifted statements have short texts\<close>

lemma short_reg: "0 \<le> r \<Longrightarrow> r < 16 \<Longrightarrow> length (reg_text r) \<le> 7"
proof -
  have "list_all (\<lambda>n. length (reg_text (int n)) \<le> 7) [0 ..< 16]" by code_simp
  moreover assume "0 \<le> r" "r < 16"
  ultimately show ?thesis
    by (metis (mono_tags) atLeastLessThan_iff atLeast_upt list_all_iff nat_0_le nat_less_iff of_nat_numeral set_upt zero_le)
qed

definition int64 :: "int \<Rightarrow> bool" where "int64 v \<longleftrightarrow> - (2 ^ 63) \<le> v \<and> v < 2 ^ 63"

lemma short_const:
  assumes "int64 v"
  shows "length (const_text v) \<le> 30"
proof -
  have n: "nat v < 16 ^ 16" "nat v < 10 ^ 20" "nat (- v) < 10 ^ 20" using assms by (simp_all add: int64_def, arith+)
  have "length (hex (nat v)) \<le> 16" "length (dec (nat v)) \<le> 20" "length (dec (nat (- v))) \<le> 20"
    by (rule length_hex_le [OF n(1)] length_dec_le [OF n(2)] length_dec_le [OF n(3)], simp)+
  then show ?thesis by (simp add: const_text_def dec_int_def)
qed

text \<open>What \<open>lift_instruction\<close> makes.\<close>

definition lifted_operand :: "E9IRValue \<Rightarrow> bool" where
  "lifted_operand v \<longleftrightarrow> (\<exists>r. v = IR_Reg r \<and> 0 \<le> r \<and> r < 16) \<or> (\<exists>c. v = IR_Const c \<and> int64 c)"

definition lifted_value :: "E9IRValue \<Rightarrow> bool" where
  "lifted_value v \<longleftrightarrow> v = IR_NULL \<or> lifted_operand v \<or> (\<exists>f. v = IR_Call f [] \<and> lifted_operand f) \<or>
     v = IR_Unary E9_IR_RET None (IR_Reg 0) \<or>
     (\<exists>op a b. v = IR_Binary op a b \<and> op \<in> {E9_IR_ADD, E9_IR_SUB} \<and> lifted_operand a \<and> lifted_operand b)"

definition lifted_stmt :: "E9IRStmt \<Rightarrow> bool" where
  "lifted_stmt st \<longleftrightarrow> (st_dest st = IR_NULL \<or> (\<exists>r. st_dest st = IR_Reg r \<and> 0 \<le> r \<and> r < 16)) \<and> lifted_value (st_value st) \<and>
     (st_value st = IR_Unary E9_IR_RET None (IR_Reg 0) \<longrightarrow> st_dest st = IR_NULL)"

lemma reg_value_cases: "reg_value eq s = IR_NULL \<or> (\<exists>r. reg_value eq s = IR_Reg r \<and> 0 \<le> r \<and> r < 16)"
  by (auto simp: reg_value_def reg_where_def e9_ir_reg_def find_Some_iff split: option.splits)

lemma strtoll_int64: "int64 (fst (strtoll b s))"
  by (auto simp: strtoll_def int64_def split: option.splits)

lemma source_value_cases:
  assumes "other s = IR_NULL \<or> lifted_operand (other s)"
  shows "source_value other s = IR_NULL \<or> lifted_operand (source_value other s)"
  using assms strtoll_int64 by (auto simp: source_value_def lifted_operand_def e9_ir_const_def)

lemma reg_source: "reg_value eq s = IR_NULL \<or> lifted_operand (reg_value eq s)"
  using reg_value_cases [of eq s] by (auto simp: lifted_operand_def)

lemma sint_int64: "int64 (sint (w :: u64))"
  using sint_ge [of w] sint_lt [of w] by (simp add: int64_def)

lemma if_lifted: "lifted_stmt a \<Longrightarrow> lifted_stmt b \<Longrightarrow> lifted_stmt (if c then a else b)"
  by simp

lemma opt_lifted:
  "lifted_stmt a \<Longrightarrow> (\<And>d s. lifted_stmt (f d s)) \<Longrightarrow> lifted_stmt (case r of None \<Rightarrow> a | Some (d, s) \<Rightarrow> f d s)"
  by (auto split: option.splits)

lemma lift_instruction_lifted: "lifted_stmt (lift_instruction i)"
proof -
  have blank: "lifted_stmt (blank_stmt i)" by (simp add: blank_stmt_def lifted_stmt_def lifted_value_def)
  have regs: "reg_value eq s = IR_NULL \<or> (\<exists>r. reg_value eq s = IR_Reg r \<and> 0 \<le> r \<and> r < 16)"
      "source_value (reg_value eq) s = IR_NULL \<or> lifted_operand (source_value (reg_value eq) s)"
      "source_value (\<lambda>_. IR_NULL) s = IR_NULL \<or> lifted_operand (source_value (\<lambda>_. IR_NULL) s)" for eq s
    using reg_value_cases source_value_cases [of "reg_value eq" s, OF reg_source] source_value_cases [of "\<lambda>_. IR_NULL" s] by auto
  have bin: "lifted_stmt ((blank_stmt i)\<lparr>st_dest := reg_value eq d, st_value := e9_ir_binary op (reg_value eq d) s\<rparr>)"
    if "reg_value eq d \<noteq> IR_NULL" "s = IR_NULL \<or> lifted_operand s" "s \<noteq> IR_NULL" "op = E9_IR_ADD \<or> op = E9_IR_SUB" for eq d s op
  proof -
    from that(1) regs(1) [of eq d] obtain r where "reg_value eq d = IR_Reg r" "0 \<le> r" "r < 16" by auto
    with that show ?thesis by (auto simp: lifted_stmt_def lifted_value_def lifted_operand_def e9_ir_binary_def)
  qed
  have mov: "lifted_stmt ((blank_stmt i)\<lparr>st_dest := reg_value eq d, st_value := source_value (reg_value eq) s\<rparr>)" for eq d s
  proof -
    have "source_value (reg_value eq) s \<noteq> IR_Unary E9_IR_RET None (IR_Reg 0)"
      using regs(2) [of eq s] by (auto simp: lifted_operand_def)
    then show ?thesis using regs(1) [of eq d] regs(2) [of eq s] by (auto simp: lifted_stmt_def lifted_value_def)
  qed
  have zero: "lifted_stmt ((blank_stmt i)\<lparr>st_dest := reg_value eq d, st_value := e9_ir_const 0 64\<rparr>)" for eq d
    using regs(1) [of eq d] by (auto simp: lifted_stmt_def lifted_value_def lifted_operand_def e9_ir_const_def int64_def)
  have call: "lifted_stmt ((blank_stmt i)\<lparr>st_dest := e9_ir_reg 0, st_value := e9_ir_call
      (if ai_target i \<noteq> 0 then e9_ir_const (sint (ai_target i)) 64 else e9_ir_reg 0) []\<rparr>)"
    by (auto simp: lifted_stmt_def lifted_value_def lifted_operand_def e9_ir_reg_def e9_ir_const_def e9_ir_call_def sint_int64)
  have ret: "lifted_stmt ((blank_stmt i)\<lparr>st_value := IR_Unary E9_IR_RET None (e9_ir_reg 0)\<rparr>)"
    by (simp add: lifted_stmt_def lifted_value_def e9_ir_reg_def blank_stmt_def)
  have add: "lifted_stmt (if reg_value (=) d \<noteq> IR_NULL \<and> source_value f s \<noteq> IR_NULL
      then (blank_stmt i)\<lparr>st_dest := reg_value (=) d, st_value := e9_ir_binary op (reg_value (=) d) (source_value f s)\<rparr>
      else blank_stmt i)"
    if "op = E9_IR_ADD \<or> op = E9_IR_SUB" "f = reg_value (=) \<or> f = (\<lambda>_. IR_NULL)" for op d f s
    using bin [of "(=)" d "source_value f s" op] blank regs(2,3) that by auto
  note add1 = add [of E9_IR_ADD "reg_value (=)", simplified] and add2 = add [of E9_IR_SUB "\<lambda>_. IR_NULL", simplified]
  show ?thesis
    unfolding lift_instruction_def Let_def
    by (intro add1 add2 blank mov zero call ret opt_lifted if_lifted)
qed


definition operand_text :: "E9IRValue \<Rightarrow> bytes" where
  "operand_text v = str_bytes (case v of IR_Reg r \<Rightarrow> reg_text r | IR_Const c \<Rightarrow> const_text c | _ \<Rightarrow> [])"

lemma lifted_operand_pieces:
  assumes "lifted_operand v"
  shows "value_pieces v prec = Some [operand_text v]" and "length (operand_text v) \<le> 30"
  using assms short_reg short_const by (fastforce simp: lifted_operand_def operand_text_def)+

lemma value_short:
  assumes "lifted_value v" and "v \<noteq> IR_NULL" and "v \<noteq> IR_Unary E9_IR_RET None (IR_Reg 0)"
  shows "\<exists>ps. value_pieces v 15 = Some ps \<and> short_pieces ps"
proof -
  have op: "short_pieces [operand_text v]" "value_pieces v p = Some [operand_text v]" if "lifted_operand v" for v p
    using lifted_operand_pieces [OF that] by simp_all
  from assms consider (operand) "lifted_operand v" | (call) f where "v = IR_Call f []" "lifted_operand f"
    | (bin) op a b where "v = IR_Binary op a b" "op = E9_IR_ADD \<or> op = E9_IR_SUB" "lifted_operand a" "lifted_operand b"
    by (auto simp: lifted_value_def)
  then show ?thesis
  proof cases
    case operand
    with op show ?thesis by blast
  next
    case call
    with op [OF call(2)] show ?thesis by simp
  next
    case bin
    with op [OF bin(3)] op [OF bin(4)] show ?thesis
      by (auto simp: ir_infix_def op_to_c_def op_precedence_def Let_def)
  qed
qed

lemma short_indent [simp]: "short_pieces (indent opts n)"
  by (simp add: short_pieces_def indent_def list_all_iff)

lemma short_comment: "length (address_comment '' '' a) \<le> 100"
  using length_hex_u64 [of a] by (simp add: address_comment_def)

lemma stmt_short:
  assumes "lifted_stmt st"
  shows "\<exists>ps. stmt_pieces opts st = Some ps \<and> short_pieces ps"
proof -
  have c: "length (address_comment '' '' a) \<le> 1023" for a using short_comment [of a] by simp
  consider (null) "st_value st = IR_NULL" | (ret) "st_value st = IR_Unary E9_IR_RET None (IR_Reg 0)"
    | (val) "st_value st \<noteq> IR_NULL" "st_value st \<noteq> IR_Unary E9_IR_RET None (IR_Reg 0)" by blast
  then show ?thesis
  proof cases
    case null
    then show ?thesis by (simp add: stmt_pieces_def c)
  next
    case ret
    with assms have "st_dest st = IR_NULL" by (simp add: lifted_stmt_def)
    with ret show ?thesis by (simp add: stmt_pieces_def is_ret_def c)
  next
    case val
    with value_short assms obtain vs where vs: "value_pieces (st_value st) 15 = Some vs" "short_pieces vs"
      by (auto simp: lifted_stmt_def)
    have nr: "\<not> is_ret (st_value st)"
      using assms val by (auto simp: lifted_stmt_def lifted_value_def lifted_operand_def is_ret_def)
    show ?thesis
    proof (cases "st_dest st = IR_NULL")
      case True
      with val vs nr show ?thesis by (simp add: stmt_pieces_def c)
    next
      case False
      with assms have "lifted_operand (st_dest st)" by (auto simp: lifted_stmt_def lifted_operand_def)
      with lifted_operand_pieces [OF this] False val vs show ?thesis by (simp add: stmt_pieces_def c)
    qed
  qed
qed

lemma stmts_short:
  "\<forall>st \<in> set sts. lifted_stmt st \<Longrightarrow> \<exists>ps. stmts_pieces opts sts = Some ps \<and> short_pieces ps"
proof (induction sts)
  case Nil
  then show ?case by simp
next
  case (Cons st sts)
  from stmt_short [of st opts] Cons show ?case by auto
qed

lemma block_pieces_short:
  assumes "\<forall>b \<in> set bs. \<forall>st \<in> set (ib_stmts b). lifted_stmt st" and "i + length bs \<le> 10 ^ 9"
  shows "\<exists>ps. block_pieces opts i bs = Some ps \<and> short_pieces ps"
  using assms
proof (induction bs arbitrary: i)
  case Nil
  then show ?case by simp
next
  case (Cons b bs)
  from Cons.IH [of "i + 1"] Cons.prems obtain r where r: "block_pieces opts (i + 1) bs = Some r" "short_pieces r" by auto
  from stmts_short [of "ib_stmts b" opts] Cons.prems obtain t where t: "stmts_pieces opts (ib_stmts b) = Some t" "short_pieces t"
    by auto
  have "i < 10 ^ 9" using Cons.prems(2) by simp
  then have d: "length (dec i) \<le> 9" by (rule length_dec_le) simp
  have c: "length (address_comment '' '' a) \<le> 1023" for a using short_comment [of a] by simp
  from r t d c show ?case by (auto split: option.split)
qed

section \<open>Functions and images\<close>

text \<open>A function with a graph of the size that \<open>e9_cfg_build\<close> makes, and a name that is not absurd.\<close>

definition short_name :: "bytes ptr \<Rightarrow> bool" where
  "short_name n \<longleftrightarrow> (case n of None \<Rightarrow> True | Some s \<Rightarrow> length s \<le> 900)"

definition decompilable :: "E9Function \<Rightarrow> bool" where
  "decompilable f \<longleftrightarrow> (\<exists>cfg. fn_cfg f = Some cfg \<and> length (cfg_blocks cfg) \<le> cfg_max_blocks) \<and> short_name (fn_name f)"

definition lifted :: "E9Function \<Rightarrow> E9CFG \<Rightarrow> E9IRFunc" where
  "lifted f cfg =
     \<lparr>irf_name = (case fn_name f of None \<Rightarrow> str_bytes ''sub'' | Some n \<Rightarrow> n),
      irf_return_type = None, irf_params = [],
      irf_blocks = map2 lift_block [0 ..< length (cfg_blocks cfg)] (cfg_blocks cfg),
      irf_entry = cfg_entry cfg, irf_original = Some f\<rparr>"

text \<open>The C text of a function.\<close>

definition function_text :: "E9DecompileOpts \<Rightarrow> E9Function \<Rightarrow> bytes" where
  "function_text opts f = concat (the (function_pieces opts (lifted f (the (fn_cfg f)))))"

lemma function_pieces_short:
  assumes "length (cfg_blocks cfg) \<le> cfg_max_blocks" and "short_name (fn_name f)"
  shows "\<exists>ps. function_pieces opts (lifted f cfg) = Some ps \<and> short_pieces ps \<and> ps \<noteq> []"
proof -
  let ?bs = "map2 lift_block [0 ..< length (cfg_blocks cfg)] (cfg_blocks cfg)"
  have "\<forall>b \<in> set ?bs. \<forall>st \<in> set (ib_stmts b). lifted_stmt st"
    by (auto simp: lift_block_def set_zip lift_instruction_lifted)
  moreover have "0 + length ?bs \<le> 10 ^ 9" using assms(1) by (simp add: cfg_max_blocks_def)
  ultimately obtain ps where ps: "block_pieces opts 0 ?bs = Some ps" "short_pieces ps"
    using block_pieces_short by blast
  have n: "length (case fn_name f of None \<Rightarrow> str_bytes ''sub'' | Some n \<Rightarrow> n) \<le> 900"
    using assms(2) by (simp add: short_name_def split: option.splits)
  have a: "length (hex (unat (fn_address f))) \<le> 16" by (rule length_hex_u64)
  from ps n a show ?thesis
    by (auto simp: function_pieces_def lifted_def signature_pieces_def param_pieces_def declaration_pieces_def type_to_c_def)
qed

lemma structure_lifted: "snd (e9_decompile_structure (Some dc) (Some (lifted f cfg))) = Some (lifted f cfg)"
proof -
  have "map (ib_struct_update (\<lambda>_. E9_STRUCT_SEQ)) (map2 lift_block is bs) = map2 lift_block is bs" for "is" bs
    by (auto simp: lift_block_def)
  then show ?thesis by (simp add: e9_decompile_structure_def lifted_def)
qed

lemma decompile_one_text:
  assumes "0 < dc_capacity dc" and "decompilable f"
  shows "\<exists>f' d. decompile_one dc f = Some (Some (function_text (dc_opts dc) f), f', d) \<and> same_dc dc d \<and>
    at_end (function_text (dc_opts dc) f) d \<and> dc_text d = function_text (dc_opts dc) f"
proof -
  from assms(2) obtain cfg where cfg: "fn_cfg f = Some cfg" "length (cfg_blocks cfg) \<le> cfg_max_blocks" "short_name (fn_name f)"
    by (auto simp: decompilable_def)
  from function_pieces_short [OF cfg(2,3), of "dc_opts dc"] obtain ps where
    ps: "function_pieces (dc_opts dc) (lifted f cfg) = Some ps" "short_pieces ps" "ps \<noteq> []" by blast
  have t: "function_text (dc_opts dc) f = concat ps" by (simp add: function_text_def cfg(1) ps(1))
  from dc_print [OF assms(1) ps(2,3)] obtain d where
    d: "dc_emits ps (dc_reset dc) = Some d" "same_dc dc d" "at_end (concat ps) d" "dc_text d = concat ps" by blast
  have self: "f\<lparr>fn_cfg := Some cfg\<rparr> = f" using cfg(1) by simp
  have lift: "e9_decompile_lift (Some dc) (Some f) = Some (lifted f cfg)"
    by (simp add: e9_decompile_lift_def cfg(1) lifted_def)
  have "decompile_one dc f = Some (Some (concat ps), f\<lparr>fn_decompiled_c := Some (concat ps)\<rparr>, d)"
    by (simp add: decompile_one_def cfg(1) Let_def self lift structure_lifted e9_decompile_emit_c_def ps(1) d(1,4))
  with d t show ?thesis by auto
qed

text \<open>The text of a function followed by as much of its copy as fits.\<close>

definition twice :: "bytes \<Rightarrow> bytes \<Rightarrow> bool" where
  "twice t s \<longleftrightarrow> (\<exists>k \<ge> 1023. s = t @ take k (str_bytes ''\<newline>'' @ t @ str_bytes ''\<newline>''))"

lemma decompile_functions_last:
  assumes "0 < dc_capacity dc" and "\<forall>f \<in> set fs. decompilable f"
  shows "\<exists>fs' d. decompile_functions dc fs = Some (fs', d) \<and> same_dc dc d \<and>
    (if fs = [] then d = dc else twice (function_text (dc_opts dc) (last fs)) (dc_text d))"
  using assms
proof (induction fs arbitrary: dc)
  case Nil
  then show ?case by simp
next
  case (Cons f fs)
  let ?t = "function_text (dc_opts dc) f"
  let ?s = "str_bytes ''\<newline>'' @ ?t @ str_bytes ''\<newline>''"
  from decompile_one_text [OF Cons.prems(1), of f] Cons.prems(2) obtain f' d where
    d: "decompile_one dc f = Some (Some ?t, f', d)" "same_dc dc d" "at_end ?t d" "dc_text d = ?t" by auto
  from dc_emit_at_end [OF d(3), of ?s] obtain k e where
    e: "dc_emit ?s d = Some e" "same_dc d e" "1023 \<le> k" "dc_text e = ?t @ take k ?s" by blast
  have se: "same_dc dc e" by (rule same_dc_trans [OF d(2) e(2)])
  with Cons.prems(1) have cap: "0 < dc_capacity e" by (simp add: same_dc_def)
  have opts: "dc_opts e = dc_opts dc" using se by (simp add: same_dc_def)
  from Cons.prems(2) have "\<forall>f \<in> set fs. decompilable f" by simp
  from Cons.IH [OF cap this, unfolded opts] obtain fs' g where
    g: "decompile_functions e fs = Some (fs', g)" "same_dc e g"
      "if fs = [] then g = e else twice (function_text (dc_opts dc) (last fs)) (dc_text g)" by blast
  have "decompile_functions dc (f # fs) = Some (f' # fs', g)" using d(1) e(1) g(1) by simp
  moreover have "twice (function_text (dc_opts dc) (last (f # fs))) (dc_text g)"
    using g(3) e(3,4) by (auto simp: twice_def split: if_splits)
  ultimately show ?case using same_dc_trans [OF se g(2)] by auto
qed

lemma header_short:
  assumes "short_name (op_header_include (dc_opts dc))"
    and "\<forall>bin. dc_binary dc = Some bin \<longrightarrow> (\<forall>f \<in> set (an_functions bin). short_name (fn_name f))"
  shows "short_pieces (header_pieces dc)" and "header_pieces dc \<noteq> []"
proof -
  have "short_pieces (map (\<lambda>f. str_bytes ''int64_t '' @ (case fn_name f of None \<Rightarrow> str_bytes ''sub'' | Some n \<Rightarrow> n) @
      str_bytes ''(void);\<newline>'') fs)" if "\<forall>f \<in> set fs. short_name (fn_name f)" for fs
    using that by (auto simp: short_pieces_def list_all_iff short_name_def split: option.splits)
  with assms show "short_pieces (header_pieces dc)"
    by (auto simp: header_pieces_def short_name_def [of "op_header_include (dc_opts dc)"] split: option.splits)
  show "header_pieces dc \<noteq> []" by (simp add: header_pieces_def)
qed

lemma decompile_binary_twice:
  assumes "dc_binary dc = Some bin" and "0 < dc_capacity dc" and "an_functions bin \<noteq> []"
    and "\<forall>f \<in> set (an_functions bin). decompilable f" and "short_name (op_header_include (dc_opts dc))"
  shows "\<exists>s d. e9_decompile_binary (Some dc) = Some (Some s, d) \<and>
    twice (function_text (dc_opts dc) (last (an_functions bin))) s"
proof -
  let ?dc = "dc_reset dc"
  have r: "dc_binary ?dc = Some bin" "0 < dc_capacity ?dc" "dc_opts ?dc = dc_opts dc" "same_dc dc ?dc"
    using assms(1,2) by (simp_all add: dc_reset_def same_dc_def)
  have sp: "short_pieces (header_pieces ?dc)" "header_pieces ?dc \<noteq> []"
    using header_short [of ?dc] assms(4,5) r by (auto simp: decompilable_def)
  from dc_print [OF r(2) sp] obtain d where d: "dc_emits (header_pieces ?dc) (dc_reset ?dc) = Some d" "same_dc ?dc d"
    "at_end (concat (header_pieces ?dc)) d" by blast
  from dc_emit_at_end [OF d(3), of "dc_text d"] obtain e where e: "dc_emit (dc_text d) d = Some e" "same_dc d e" by blast
  have se: "same_dc dc e" by (rule same_dc_trans [OF r(4) same_dc_trans [OF d(2) e(2)]])
  then have cap: "0 < dc_capacity e" and opts: "dc_opts e = dc_opts dc" using assms(2) by (simp_all add: same_dc_def)
  from decompile_functions_last [OF cap assms(4)] assms(3) obtain fs' g where
    g: "decompile_functions e (an_functions bin) = Some (fs', g)"
      "twice (function_text (dc_opts dc) (last (an_functions bin))) (dc_text g)" by (auto simp: opts)
  have "e9_decompile_binary (Some dc) = Some (Some (dc_text g), Some (g\<lparr>dc_binary := Some (bin\<lparr>an_functions := fs'\<rparr>)\<rparr>))"
    by (simp add: e9_decompile_binary_def assms(1) e9_decompile_header_def d(1) e(1) g(1))
  with g(2) show ?thesis by blast
qed

section \<open>What the decoders call an instruction\<close>

text \<open>
  The mnemonics that \<open>lift_instruction\<close> treats, apart from \<open>call\<close> and \<open>ret\<close>.  The x86-64 decoder
  produces none of them; the AArch64 decoder produces two, without operands.
\<close>

definition lifted_names :: "string list" where
  "lifted_names =
     [''mov'', ''movq'', ''movl'', ''movabs'', ''add'', ''addq'', ''addl'', ''sub'', ''subq'', ''subl'',
      ''xor'', ''xorl'', ''callq'', ''retq'']"

definition bare :: "AInsn \<Rightarrow> bool" where
  "bare i \<longleftrightarrow> ai_mnemonic i \<in> set lifted_names \<longrightarrow> ai_mnemonic i \<in> {''add'', ''sub''} \<and> ai_operands i = []"

lemma nth_not_in: "n < length xs \<Longrightarrow> list_all (\<lambda>s. s \<notin> set ys) xs \<Longrightarrow> xs ! n \<notin> set ys"
  by (simp add: list_all_length)

lemma jump_names_bare: "n < 16 \<Longrightarrow> cond_jump_names ! n \<notin> set lifted_names"
  by (rule nth_not_in) (simp_all add: cond_jump_names_def lifted_names_def)

lemma x64_rel_mnemonic:
  "x64_rel32 code addr len p i = Some j \<Longrightarrow> ai_mnemonic j = ai_mnemonic i"
  "x64_rel8 code addr len p i = Some j \<Longrightarrow> ai_mnemonic j = ai_mnemonic i"
  by (auto simp: x64_rel32_def x64_rel8_def set_target_def Option.bind_eq_Some_conv split: if_splits)

lemma op_name_bare: "''op'' @ s \<notin> set lifted_names" "''0f'' @ s \<notin> set lifted_names" "''b.'' @ s \<notin> set lifted_names"
  "''0x'' @ s \<notin> set lifted_names"
  by (simp_all add: lifted_names_def)

lemma plain_names_bare:
  "list_all (\<lambda>s. s \<notin> set lifted_names) [[], ''???'', ''ret'', ''call'', ''jmp'', ''nop'', ''int3'', ''push'', ''pop'', ''syscall'',
     ''bl'', ''b'', ''cbnz'', ''cbz'', ''tbnz'', ''tbz'', ''svc'', ''adrp'', ''adr'', ''ldr'', ''str'', ''ldp'', ''stp'']"
  by (simp add: lifted_names_def)

lemmas bare_names = op_name_bare plain_names_bare [simplified]

lemma x64_two_byte_bare:
  assumes "x64_two_byte code addr len pos i = Some j" and "ai_mnemonic i \<notin> set lifted_names"
  shows "ai_mnemonic j \<notin> set lifted_names"
proof (cases "pos + 1 < len")
  case False
  with assms show ?thesis by (simp add: x64_two_byte_def)
next
  case True
  with assms(1) obtain b where b: "rd8 code (pos + 1) = Some b" by (cases "rd8 code (pos + 1)") (auto simp: x64_two_byte_def)
  show ?thesis
  proof (cases "0x80 \<le> b \<and> b \<le> 0x8F")
    case j: True
    then have "unat (b - 0x80) < 16" using u8_index [of "0x80" b "0x8F"] by simp
    with assms True b j x64_rel_mnemonic(1) jump_names_bare show ?thesis by (fastforce simp: x64_two_byte_def)
  next
    case False
    with assms True b bare_names show ?thesis by (auto simp: x64_two_byte_def split: if_splits)
  qed
qed

lemma x64_decode_bare:
  assumes d: "x64_decode code addr len pos op i = Some j" and i: "ai_mnemonic i \<notin> set lifted_names"
  shows "ai_mnemonic j \<notin> set lifted_names"
proof -
  have jcc: "cond_jump_names ! unat (op - 0x70) \<notin> set lifted_names" if "0x70 \<le> op" "op \<le> 0x7F"
    using jump_names_bare u8_index [OF that] by simp
  have rel: "x64_rel32 code addr len p k = Some j \<Longrightarrow> ai_mnemonic k \<notin> set lifted_names \<Longrightarrow> ?thesis"
    "x64_rel8 code addr len p k = Some j \<Longrightarrow> ai_mnemonic k \<notin> set lifted_names \<Longrightarrow> ?thesis" for p k
    using x64_rel_mnemonic [of code addr len p k j] by simp_all
  consider (ret) "op = 0xC3 \<or> op = 0xCB" | (retn) "op = 0xC2 \<or> op = 0xCA" | (call) "op = 0xE8" | (jmp) "op = 0xE9"
    | (jmp8) "op = 0xEB" | (jcc) "0x70 \<le> op \<and> op \<le> 0x7F" | (nop) "op = 0x90" | (int3) "op = 0xCC" | (two) "op = 0x0F"
    | (push) "0x50 \<le> op \<and> op \<le> 0x57" | (pop) "0x58 \<le> op \<and> op \<le> 0x5F"
    | (other) "op \<notin> {0xC3, 0xCB, 0xC2, 0xCA, 0xE8, 0xE9, 0xEB, 0x90, 0xCC, 0x0F}"
        "\<not> (0x70 \<le> op \<and> op \<le> 0x7F)" "\<not> (0x50 \<le> op \<and> op \<le> 0x57)" "\<not> (0x58 \<le> op \<and> op \<le> 0x5F)"
    by blast
  then show ?thesis
  proof cases
    case ret
    with d bare_names show ?thesis by (auto simp: x64_decode_def)
  next
    case retn
    with d bare_names show ?thesis by (auto simp: x64_decode_def Let_def Option.bind_eq_Some_conv split: if_splits)
  next
    case call
    with d rel(1) bare_names show ?thesis by (auto simp: x64_decode_def)
  next
    case jmp
    with d rel(1) bare_names show ?thesis by (auto simp: x64_decode_def)
  next
    case jmp8
    with d rel(2) bare_names show ?thesis by (auto simp: x64_decode_def)
  next
    case j: jcc
    then have "op \<notin> {0xC3, 0xCB, 0xC2, 0xCA, 0xE8, 0xE9, 0xEB}" by auto
    with j d rel(2) jcc show ?thesis by (fastforce simp: x64_decode_def)
  next
    case nop
    with d bare_names show ?thesis by (auto simp: x64_decode_def)
  next
    case int3
    with d bare_names show ?thesis by (auto simp: x64_decode_def)
  next
    case two
    with d x64_two_byte_bare [OF _ i] show ?thesis by (auto simp: x64_decode_def)
  next
    case push
    then have "\<not> 0x70 \<le> op" using order_trans [of "0x70" op "0x57"] by auto
    with push have "op \<notin> {0xC3, 0xCB, 0xC2, 0xCA, 0xE8, 0xE9, 0xEB, 0x90, 0xCC, 0x0F}" "\<not> (0x70 \<le> op \<and> op \<le> 0x7F)" by auto
    with push d bare_names show ?thesis by (auto simp: x64_decode_def)
  next
    case pop
    then have "\<not> 0x70 \<le> op" "\<not> op \<le> 0x57"
      using order_trans [of "0x70" op "0x5F"] order_trans [of "0x58" op "0x57"] by auto
    with pop have "op \<notin> {0xC3, 0xCB, 0xC2, 0xCA, 0xE8, 0xE9, 0xEB, 0x90, 0xCC, 0x0F}" "\<not> (0x70 \<le> op \<and> op \<le> 0x7F)"
      "\<not> (0x50 \<le> op \<and> op \<le> 0x57)" by auto
    with pop d bare_names show ?thesis by (auto simp: x64_decode_def)
  next
    case other
    then have "x64_decode code addr len pos op i =
        Some (i\<lparr>ai_category := E9_INSN_OTHER, ai_mnemonic := ''op'' @ hex_pad 2 (unat op)\<rparr>)"
      by (auto simp: x64_decode_def)
    with d bare_names show ?thesis by auto
  qed
qed

lemma disasm_x64_bare:
  assumes "disasm_x64 bin a = Some (Some i)"
  shows "ai_mnemonic i \<notin> set lifted_names"
proof -
  have fresh: "ai_mnemonic (fresh_insn x y z) = []" for x y z by (simp add: fresh_insn_def)
  from assms bare_names x64_decode_bare show ?thesis
    by (fastforce simp: disasm_x64_def Let_def fresh Option.bind_eq_Some_conv split: if_splits)
qed

lemma decode_a64_bare:
  assumes "ai_mnemonic i = []" and "ai_operands i = []"
  shows "bare (decode_a64 a w i)"
proof -
  have n: "bare (set_target t (i\<lparr>ai_category := c, ai_mnemonic := s\<rparr>))"
    "bare (set_target t (i\<lparr>ai_category := c, ai_is_conditional := True, ai_mnemonic := s\<rparr>))"
    "bare (i\<lparr>ai_category := c, ai_mnemonic := s\<rparr>)"
    "bare (i\<lparr>ai_category := c, ai_mnemonic := s, ai_operands := q\<rparr>)"
    "bare (i\<lparr>ai_category := c, ai_is_conditional := True, ai_mnemonic := s, ai_target := t, ai_operands := q\<rparr>)"
    "bare (i\<lparr>ai_category := c, ai_mnemonic := s, ai_reads_memory := x, ai_writes_memory := y\<rparr>)"
    if "s \<notin> set lifted_names" for s c t q x y
    using that by (simp_all add: bare_def set_target_def)
  have as: "bare (i\<lparr>ai_category := c, ai_mnemonic := if b then ''sub'' else ''add''\<rparr>)" for c b
    using assms by (simp add: bare_def)
  have two: "(if b then ''cbnz'' else ''cbz'') \<notin> set lifted_names" "(if b then ''tbnz'' else ''tbz'') \<notin> set lifted_names"
    "(if b then ''adrp'' else ''adr'') \<notin> set lifted_names" "(if b then ''ldr'' else ''str'') \<notin> set lifted_names"
    "(if b then ''ldp'' else ''stp'') \<notin> set lifted_names" for b
    using bare_names by simp_all
  have if_bare: "bare x \<Longrightarrow> bare y \<Longrightarrow> bare (if b then x else y)" for x y b by simp
  show ?thesis
    unfolding decode_a64_def Let_def
    by (intro if_bare; (rule as | rule n, (rule two | rule bare_names | simp add: lifted_names_def)))
qed

lemma disasm_at_bare:
  assumes "disasm_at bin a = Some (Some i)"
  shows "bare i"
proof (cases "bin_arch bin")
  case E9_ARCH_X86_64
  with assms disasm_x64_bare show ?thesis by (auto simp: disasm_at_def bare_def)
next
  case E9_ARCH_AARCH64
  with assms show ?thesis
    by (auto simp: disasm_at_def disasm_aarch64_def Let_def fresh_insn_def Option.bind_eq_Some_conv
        intro!: decode_a64_bare split: if_splits)
qed (use assms in \<open>auto simp: disasm_at_def\<close>)

section \<open>The instructions of a control flow graph\<close>

lemma block_loop_decoded:
  assumes "block_loop dis a e acc = Some (is, e')" and "\<forall>i \<in> set acc. \<exists>x. dis x = Some (Some i)"
  shows "\<forall>i \<in> set is. \<exists>x. dis x = Some (Some i)"
proof -
  have "dis = dis \<longrightarrow> (\<forall>i \<in> set acc. \<exists>x. dis x = Some (Some i)) \<longrightarrow> (\<forall>i \<in> set (fst (is, e')). \<exists>x. dis x = Some (Some i))"
  proof (rule block_loop.raw_induct [where P = "\<lambda>d a e acc r. d = dis \<longrightarrow> (\<forall>i \<in> set acc. \<exists>x. dis x = Some (Some i)) \<longrightarrow>
        (\<forall>i \<in> set (fst r). \<exists>x. dis x = Some (Some i))", OF _ assms(1)], intro impI)
    fix loop d a e acc r
    assume IH: "\<And>d a e acc r. loop d a e acc = Some r \<Longrightarrow>
        d = dis \<longrightarrow> (\<forall>i \<in> set acc. \<exists>x. dis x = Some (Some i)) \<longrightarrow> (\<forall>i \<in> set (fst r). \<exists>x. dis x = Some (Some i))"
      and eq: "(if a < e then do {
        i \<leftarrow> d a;
        case i of
          None \<Rightarrow> Some (acc, e)
        | Some insn \<Rightarrow>
            let nxt = a + word_of_nat (ai_size insn) in
            if ai_category insn = E9_INSN_RET \<or> ai_category insn = E9_INSN_JUMP then
              Some (acc @ [insn], nxt)
            else if ai_category insn = E9_INSN_COND_JUMP \<and> e \<le> nxt then Some (acc @ [insn], e)
            else loop d nxt e (acc @ [insn])
      } else Some (acc, e)) = Some r"
      and d: "d = dis" and acc: "\<forall>i \<in> set acc. \<exists>x. dis x = Some (Some i)"
    show "\<forall>i \<in> set (fst r). \<exists>x. dis x = Some (Some i)"
    proof (cases "a < e")
      case False
      then have "Some (acc, e) = Some r" using eq by (simp only: if_False)
      with acc show ?thesis by auto
    next
      case True
      with eq obtain o' where o: "d a = Some o'" by (cases "d a") simp_all
      show ?thesis
      proof (cases o')
        case None
        with eq True o acc show ?thesis by auto
      next
        case (Some i)
        have acc': "\<forall>j \<in> set (acc @ [i]). \<exists>x. dis x = Some (Some j)" using acc o Some d by auto
        show ?thesis
        proof (cases "(ai_category i = E9_INSN_RET \<or> ai_category i = E9_INSN_JUMP) \<or>
            (ai_category i = E9_INSN_COND_JUMP \<and> e \<le> a + word_of_nat (ai_size i))")
          case stop: True
          with eq True o Some have "fst r = acc @ [i]" by (auto simp: Let_def split: if_splits)
          with acc' show ?thesis by simp
        next
          case False
          with eq True o Some have "loop d (a + word_of_nat (ai_size i)) e (acc @ [i]) = Some r"
            by (auto simp: Let_def split: if_splits)
          with IH d acc' show ?thesis by blast
        qed
      qed
    qed
  qed
  with assms(2) show ?thesis by simp
qed

lemma make_blocks_decoded:
  assumes "make_blocks dis ls e n = Some bs" and "n \<le> cfg_max_blocks"
  shows "n + length bs \<le> cfg_max_blocks \<and> (\<forall>b \<in> set bs. \<forall>i \<in> set (bb_insns b). \<exists>x. dis x = Some (Some i))"
  using assms
proof (induction ls arbitrary: n bs)
  case Nil
  then show ?case by simp
next
  case (Cons l ls)
  show ?case
  proof (cases "n < cfg_max_blocks")
    case False
    with Cons.prems show ?thesis by simp
  next
    case True
    let ?e = "case ls of [] \<Rightarrow> e | l' # _ \<Rightarrow> l'"
    from Cons.prems(1) True obtain b cs where b: "make_block dis l ?e = Some b" "make_blocks dis ls e (n + 1) = Some cs" "bs = b # cs"
      by (auto simp: Option.bind_eq_Some_conv)
    from b(1) obtain "is" e' where "block_loop dis l ?e [] = Some (is, e')" "bb_insns b = is"
      by (auto simp: make_block_def Option.bind_eq_Some_conv)
    with block_loop_decoded [of dis l ?e "[]"] have "\<forall>i \<in> set (bb_insns b). \<exists>x. dis x = Some (Some i)" by simp
    with Cons.IH [OF b(2)] True b(3) show ?thesis by simp
  qed
qed

lemma add_edge_insns: "map bb_insns (cfg_blocks (add_edge i j cfg)) = map bb_insns (cfg_blocks cfg)"
proof -
  have u: "map bb_insns (bs[i := (bs ! i)\<lparr>bb_succs := s\<rparr>]) = map bb_insns bs"
    "map bb_insns (bs[i := (bs ! i)\<lparr>bb_preds := s\<rparr>]) = map bb_insns bs" for bs i s
    by (cases "i < length bs"; auto intro!: nth_equalityI simp: nth_list_update)+
  show ?thesis by (simp add: add_edge_def Let_def u)
qed

lemma connect_block_insns: "map bb_insns (cfg_blocks (connect_block i cfg)) = map bb_insns (cfg_blocks cfg)"
  by (auto simp: connect_block_def add_branch_def add_fall_through_def Let_def add_edge_insns
      split: option.splits E9InsnCategory.splits)

lemma connect_blocks_insns: "map bb_insns (cfg_blocks (connect_blocks cfg)) = map bb_insns (cfg_blocks cfg)"
proof -
  have "map bb_insns (cfg_blocks (fold connect_block is cfg)) = map bb_insns (cfg_blocks cfg)" for "is"
    by (induction "is" arbitrary: cfg) (simp_all add: connect_block_insns)
  then show ?thesis by (simp add: connect_blocks_def)
qed

lemma cfg_build_decoded:
  assumes "e9_cfg_build (Some bin) (Some (a, e)) = Some (Some cfg)"
  shows "length (cfg_blocks cfg) \<le> cfg_max_blocks \<and> (\<forall>b \<in> set (cfg_blocks cfg). \<forall>i \<in> set (bb_insns b). bare i)"
proof -
  from assms obtain ls bs c where bs: "make_blocks (disasm_at bin) ls (if e \<noteq> 0 then e else a + 0x10000) 0 = Some bs"
    "cfg_blocks cfg = cfg_blocks (connect_blocks c)" "cfg_blocks c = bs"
    by (auto simp: e9_cfg_build_def cfg_build_def Let_def Option.bind_eq_Some_conv)
  have m: "map bb_insns (cfg_blocks cfg) = map bb_insns bs" by (simp add: bs(2,3) connect_blocks_insns)
  from make_blocks_decoded [OF bs(1)] have d: "length bs \<le> cfg_max_blocks"
    "\<forall>is \<in> set (map bb_insns bs). \<forall>i \<in> set is. \<exists>x. disasm_at bin x = Some (Some i)" by auto
  have "length (cfg_blocks cfg) = length bs" using arg_cong [OF m, of length] by simp
  moreover have "\<forall>is \<in> set (map bb_insns (cfg_blocks cfg)). \<forall>i \<in> set is. bare i"
    using d(2) disasm_at_bare unfolding m by blast
  ultimately show ?thesis using d(1) by simp
qed

section \<open>The text of a decoded function\<close>

definition decoded_stmt :: "AInsn \<Rightarrow> string" where
  "decoded_stmt i =
     (if ai_mnemonic i = ''call'' then ''_rax = '' @ (if ai_target i = 0 then ''_rax'' else const_text (sint (ai_target i))) @ ''();''
      else if ai_mnemonic i = ''ret'' then ''return _rax;''
      else ''/* unlifted */'')"

definition decoded_line :: "E9DecompileOpts \<Rightarrow> AInsn \<Rightarrow> bytes" where
  "decoded_line opts i =
     concat (indent opts 1) @ str_bytes (decoded_stmt i @
       (if op_emit_comments opts \<and> ai_address i \<noteq> 0 then address_comment '' '' (ai_address i) else []) @ ''\<newline>'')"

definition decoded_block :: "E9DecompileOpts \<Rightarrow> nat \<Rightarrow> E9BasicBlock \<Rightarrow> bytes" where
  "decoded_block opts i b =
     str_bytes (''block_'' @ dec i @ '':'' @ (if op_emit_comments opts then address_comment '' '' (bb_start b) else []) @ ''\<newline>'') @
     concat (map (decoded_line opts) (bb_insns b)) @ str_bytes ''\<newline>''"

definition decoded_text :: "E9DecompileOpts \<Rightarrow> E9Function \<Rightarrow> E9CFG \<Rightarrow> bytes" where
  "decoded_text opts f cfg =
     concat (signature_pieces opts (lifted f cfg)) @ concat (declaration_pieces opts) @
     concat (map2 (decoded_block opts) [0 ..< length (cfg_blocks cfg)] (cfg_blocks cfg)) @ str_bytes ''}\<newline>''"

lemma lift_bare:
  assumes "bare i"
  shows "lift_instruction i =
    (if ai_mnemonic i = ''call'' then
       (blank_stmt i)\<lparr>st_dest := IR_Reg 0,
         st_value := IR_Call (if ai_target i \<noteq> 0 then IR_Const (sint (ai_target i)) else IR_Reg 0) []\<rparr>
     else if ai_mnemonic i = ''ret'' then (blank_stmt i)\<lparr>st_value := IR_Unary E9_IR_RET None (IR_Reg 0)\<rparr>
     else blank_stmt i)"
proof (cases "ai_mnemonic i \<in> set lifted_names")
  case True
  with assms have "ai_mnemonic i = ''add'' \<or> ai_mnemonic i = ''sub''" "ai_operands i = []" by (auto simp: bare_def)
  then show ?thesis by (auto simp: lift_instruction_def Let_def sscanf_pair_def)
next
  case False
  then have "ai_mnemonic i \<notin> set [''mov'', ''movq'', ''movl'', ''movabs'']" "ai_mnemonic i \<notin> set [''add'', ''addq'', ''addl'']"
    "ai_mnemonic i \<notin> set [''sub'', ''subq'', ''subl'']" "ai_mnemonic i \<notin> set [''xor'', ''xorl'']"
    "ai_mnemonic i \<noteq> ''callq''" "ai_mnemonic i \<noteq> ''retq''"
    by (simp_all add: lifted_names_def)
  then show ?thesis
    unfolding lift_instruction_def Let_def
    by (simp only: if_False) (simp add: e9_ir_reg_def e9_ir_const_def e9_ir_call_def)
qed

lemma stmt_pieces_bare:
  assumes "bare i"
  shows "map_option concat (stmt_pieces opts (lift_instruction i)) = Some (decoded_line opts i)"
proof -
  have r: "reg_text 0 = ''_rax''" by (simp add: reg_text_def dc_x64_reg_names_def)
  show ?thesis
    unfolding lift_bare [OF assms]
    by (simp add: stmt_pieces_def decoded_line_def decoded_stmt_def blank_stmt_def is_ret_def r str_bytes_append)
      (simp add: str_bytes_def)
qed

lemma stmts_pieces_bare:
  "\<forall>i \<in> set is. bare i \<Longrightarrow> map_option concat (stmts_pieces opts (map lift_instruction is)) = Some (concat (map (decoded_line opts) is))"
proof (induction "is")
  case Nil
  then show ?case by simp
next
  case (Cons i "is")
  from stmt_pieces_bare [of i opts] Cons.prems obtain a where a: "stmt_pieces opts (lift_instruction i) = Some a" "concat a = decoded_line opts i"
    by auto
  from Cons obtain b where "stmts_pieces opts (map lift_instruction is) = Some b" "concat b = concat (map (decoded_line opts) is)" by auto
  with a show ?case by simp
qed

lemma block_pieces_bare:
  assumes "\<forall>b \<in> set bs. \<forall>i \<in> set (bb_insns b). bare i"
  shows "map_option concat (block_pieces opts n (map2 lift_block [n ..< n + length bs] bs)) =
    Some (concat (map2 (decoded_block opts) [n ..< n + length bs] bs))"
  using assms
proof (induction bs arbitrary: n)
  case Nil
  then show ?case by simp
next
  case (Cons b bs)
  have u: "[n ..< n + length (b # bs)] = n # [Suc n ..< Suc n + length bs]" by (subst upt_conv_Cons) simp_all
  from stmts_pieces_bare [of "bb_insns b" opts] Cons.prems obtain t where
    t: "stmts_pieces opts (map lift_instruction (bb_insns b)) = Some t" "concat t = concat (map (decoded_line opts) (bb_insns b))" by auto
  from Cons.IH [of "Suc n"] Cons.prems obtain r where
    r: "block_pieces opts (Suc n) (map2 lift_block [Suc n ..< Suc n + length bs] bs) = Some r"
      "concat r = concat (map2 (decoded_block opts) [Suc n ..< Suc n + length bs] bs)" by auto
  have "block_pieces opts n (map2 lift_block [n ..< n + length (b # bs)] (b # bs)) =
      Some ([str_bytes (''block_'' @ dec n @ '':'')] @
       (if op_emit_comments opts then [str_bytes (address_comment '' '' (bb_start b))] else []) @
       [str_bytes ''\<newline>''] @ t @ [str_bytes ''\<newline>''] @ r)"
    unfolding u using t(1) r(1) by (simp add: lift_block_def)
  moreover have "concat ([str_bytes (''block_'' @ dec n @ '':'')] @
       (if op_emit_comments opts then [str_bytes (address_comment '' '' (bb_start b))] else []) @
       [str_bytes ''\<newline>''] @ t @ [str_bytes ''\<newline>''] @ r) =
      concat (map2 (decoded_block opts) [n ..< n + length (b # bs)] (b # bs))"
    unfolding u using t(2) r(2) by (simp add: decoded_block_def str_bytes_append) (simp add: str_bytes_def)
  ultimately show ?case by simp
qed

lemma function_text_decoded:
  assumes "e9_cfg_build (Some bin) (Some (a, e)) = Some (Some cfg)" and "fn_cfg f = Some cfg"
  shows "function_text opts f = decoded_text opts f cfg"
proof -
  have "\<forall>b \<in> set (cfg_blocks cfg). \<forall>i \<in> set (bb_insns b). bare i" using cfg_build_decoded [OF assms(1)] by blast
  from block_pieces_bare [OF this, of opts 0] obtain r where
    r: "block_pieces opts 0 (map2 lift_block [0 ..< length (cfg_blocks cfg)] (cfg_blocks cfg)) = Some r"
      "concat r = concat (map2 (decoded_block opts) [0 ..< length (cfg_blocks cfg)] (cfg_blocks cfg))" by auto
  have "function_pieces opts (lifted f cfg) =
      Some (signature_pieces opts (lifted f cfg) @ declaration_pieces opts @ r @ [str_bytes ''}\<newline>''])"
    using r(1) by (simp add: function_pieces_def lifted_def)
  then show ?thesis using r(2) by (simp add: function_text_def assms(2) decoded_text_def)
qed

lemma decompile_decoded:
  assumes "e9_cfg_build (Some bin) (Some (a, e)) = Some (Some cfg)" and "fn_cfg f = Some cfg"
    and "short_name (fn_name f)" and "0 < dc_capacity dc"
  shows "\<exists>f' d. e9_decompile_function_full (Some dc) (Some f) = Some (Some (decoded_text (dc_opts dc) f cfg), Some f', Some d)"
proof -
  have "decompilable f" using cfg_build_decoded [OF assms(1)] assms(2,3) by (simp add: decompilable_def)
  from decompile_one_text [OF assms(4) this] function_text_decoded [OF assms(1,2)] show ?thesis
    by (auto simp: e9_decompile_function_full_def)
qed

section \<open>Names that do not fit\<close>

lemma dc_emit_over: "2 * dc_capacity dc + 1024 < dc_size dc \<Longrightarrow> dc_emit s dc = None"
  by (simp add: dc_emit_def Let_def)

lemma long_piece:
  assumes "1024 \<le> dc_capacity dc" and "2 * dc_capacity dc + 1024 < length p"
  shows "dc_emits (p # q # ps) (dc_reset dc) = None"
proof -
  obtain d where d: "dc_emit p (dc_reset dc) = Some d" "dc_size d = length p" "dc_capacity d = dc_capacity dc"
    using assms(1) by (simp add: dc_emit_def dc_reset_def)
  then have "dc_emit q d = None" using dc_emit_over assms(2) by simp
  with d(1) show ?thesis by (simp add: dc_emits_def)
qed

section \<open>What a lifted statement means\<close>

text \<open>Values and assignments over the 64-bit registers; arithmetic wraps around.\<close>

fun ir_eval :: "(nat \<Rightarrow> u64) \<Rightarrow> E9IRValue \<Rightarrow> u64 option" where
  "ir_eval s (IR_Const c) = Some (word_of_int c)"
| "ir_eval s (IR_Reg r) = Some (s (nat r))"
| "ir_eval s (IR_Binary op a b) = do {
     x \<leftarrow> ir_eval s a;
     y \<leftarrow> ir_eval s b;
     (case op of E9_IR_ADD \<Rightarrow> Some (x + y) | E9_IR_SUB \<Rightarrow> Some (x - y) | _ \<Rightarrow> None)
   }"
| "ir_eval s v = None"

definition ir_run :: "E9IRStmt \<Rightarrow> (nat \<Rightarrow> u64) \<Rightarrow> (nat \<Rightarrow> u64) option" where
  "ir_run st s =
     (case st_dest st of
        IR_Reg r \<Rightarrow> map_option (\<lambda>v. s(nat r := v)) (ir_eval s (st_value st))
      | _ \<Rightarrow> None)"

text \<open>The instructions on 64-bit operands.\<close>

definition alu :: "string \<Rightarrow> u64 \<Rightarrow> u64 \<Rightarrow> u64" where
  "alu m a b =
     (if m = ''mov'' then b else if m = ''add'' then a + b else if m = ''sub'' then a - b else a XOR b)"

text \<open>An operand, its text and its value.\<close>

datatype operand = Register nat | Number int

fun operand_name :: "operand \<Rightarrow> string" where
  "operand_name (Register r) = dc_x64_reg_names ! r"
| "operand_name (Number v) = (if v < 0 then dec_int v else ''0x'' @ hex (nat v))"

fun operand_value :: "(nat \<Rightarrow> u64) \<Rightarrow> operand \<Rightarrow> u64" where
  "operand_value s (Register r) = s r"
| "operand_value s (Number v) = word_of_int v"

text \<open>The forms that are lifted: \<open>sub\<close> takes numbers only, \<open>xor\<close> only the register itself.\<close>

definition liftable :: "string \<Rightarrow> nat \<Rightarrow> operand \<Rightarrow> bool" where
  "liftable m i x \<longleftrightarrow>
     i < 16 \<and> (case x of Register j \<Rightarrow> j < 16 | Number v \<Rightarrow> int64 v) \<and>
     (m = ''mov'' \<or> m = ''add'' \<or> (m = ''sub'' \<and> (\<exists>v. x = Number v)) \<or> (m = ''xor'' \<and> x = Register i))"

definition insn_with :: "string \<Rightarrow> string \<Rightarrow> AInsn" where
  "insn_with m ops = (fresh_insn 0 0 [])\<lparr>ai_mnemonic := m, ai_operands := ops\<rparr>"

lemma insn_with_simps [simp]: "ai_operands (insn_with m q) = q" "ai_mnemonic (insn_with m q) = m"
  by (simp_all add: insn_with_def)

lemma takeWhile_all_app: "\<forall>c \<in> set a. p c \<Longrightarrow> \<not> p d \<Longrightarrow> takeWhile p (a @ d # r) = a"
  by (induction a) auto

lemma sscanf_pair_text:
  assumes "a \<noteq> []" "length a \<le> n" "CHR '','' \<notin> set a" "b \<noteq> []" "length b \<le> m" "\<forall>c \<in> set b. \<not> is_space c"
  shows "sscanf_pair n m (a @ '', '' @ b) = Some (a, b)"
proof -
  have w: "takeWhile (\<lambda>c. c \<noteq> CHR '','') (take n (a @ '', '' @ b)) = a"
  proof (cases "length a = n")
    case True
    with assms(3) show ?thesis by (auto simp: takeWhile_eq_all_conv)
  next
    case False
    with assms(2) obtain k where "n - length a = Suc k" by (cases "n - length a") auto
    then have "take n (a @ '', '' @ b) = a @ CHR '','' # take k (CHR '' '' # b)" using assms(2) by simp
    then show ?thesis using assms(3) takeWhile_all_app [of a "\<lambda>c. c \<noteq> CHR '',''" "CHR '',''"] by metis
  qed
  obtain c b' where b: "b = c # b'" using assms(4) by (cases b) auto
  have sp: "is_space (CHR '' '')" by (simp add: is_space_def)
  have dr: "dropWhile is_space (CHR '' '' # b) = b" using assms(6) sp b by simp
  have tw: "takeWhile (\<lambda>c. \<not> is_space c) b = b" using assms(6) by (simp add: takeWhile_eq_all_conv)
  show ?thesis
    unfolding sscanf_pair_def w using assms(1,4,5) dr by (simp add: Let_def tw)
qed


lemma reg_names:
  assumes "i < 16"
  shows "dc_x64_reg_names ! i \<noteq> []" "length (dc_x64_reg_names ! i) \<le> 3" "CHR '','' \<notin> set (dc_x64_reg_names ! i)"
    "\<forall>c \<in> set (dc_x64_reg_names ! i). \<not> is_space c"
    "reg_value (=) (dc_x64_reg_names ! i) = IR_Reg (int i)" "reg_value reg_or_e_reg (dc_x64_reg_names ! i) = IR_Reg (int i)"
    "source_value f (dc_x64_reg_names ! i) = f (dc_x64_reg_names ! i)"
proof -
  let ?P = "\<lambda>i. dc_x64_reg_names ! i \<noteq> [] \<and> length (dc_x64_reg_names ! i) \<le> 3 \<and>
    list_all (\<lambda>c. c \<noteq> CHR '','' \<and> \<not> is_space c) (dc_x64_reg_names ! i) \<and>
    reg_value (=) (dc_x64_reg_names ! i) = IR_Reg (int i) \<and> reg_value reg_or_e_reg (dc_x64_reg_names ! i) = IR_Reg (int i) \<and>
    take 2 (dc_x64_reg_names ! i) \<noteq> ''0x'' \<and>
    \<not> (hd (dc_x64_reg_names ! i) \<in> set ''0123456789'' \<or> hd (dc_x64_reg_names ! i) = CHR ''-'')"
  have "list_all ?P [0 ..< 16]" by code_simp
  with assms have P: "?P i" by (simp only: list_all_iff) simp
  then show "dc_x64_reg_names ! i \<noteq> []" "length (dc_x64_reg_names ! i) \<le> 3" "CHR '','' \<notin> set (dc_x64_reg_names ! i)"
    "\<forall>c \<in> set (dc_x64_reg_names ! i). \<not> is_space c"
    "reg_value (=) (dc_x64_reg_names ! i) = IR_Reg (int i)" "reg_value reg_or_e_reg (dc_x64_reg_names ! i) = IR_Reg (int i)"
    by (auto simp: list_all_iff)
  show "source_value f (dc_x64_reg_names ! i) = f (dc_x64_reg_names ! i)"
    using P by (simp only: source_value_def if_False simp_thms)
qed

lemma digits_no_space:
  assumes "n < 16"
  shows "\<not> is_space (hex_digit n)"
proof -
  have "list_all (\<lambda>n. \<not> is_space (hex_digit n)) [0 ..< 16]" by code_simp
  with assms show ?thesis by (simp add: list_all_iff)
qed

lemma hex_no_space: "c \<in> set (hex n) \<Longrightarrow> \<not> is_space c"
proof (induction n rule: hex.induct)
  case (1 n)
  then show ?case by (subst (asm) (2) hex.simps) (auto simp: digits_no_space split: if_splits)
qed

lemma dec_no_space: "c \<in> set (dec n) \<Longrightarrow> \<not> is_space c"
proof (induction n rule: dec.induct)
  case (1 n)
  have "\<not> is_space (hex_digit (n mod 10))" by (rule digits_no_space) (simp add: less_trans [of _ 10])
  with 1 show ?case by (subst (asm) (2) dec.simps) (auto simp: digits_no_space split: if_splits)
qed

lemma strtoll_hex:
  assumes "0 \<le> v" and "int64 v"
  shows "strtoll 16 (''0x'' @ hex (nat v)) = (v, True)"
proof -
  have "scan_number 16 (str_bytes (''0x'' @ hex (nat v))) = Some (False, nat v, [])"
    using scan_number_16 [of "[]" "nat v"] by (simp add: no_digit_def str_bytes_def)
  with assms show ?thesis by (simp add: strtoll_def int64_def)
qed

lemma strtoll_neg:
  assumes "v < 0" and "int64 v"
  shows "strtoll 10 (dec_int v) = (v, True)"
proof -
  let ?n = "nat (- v)"
  obtain d t where h: "dec ?n = hex_digit d # t" "d < 10" using dec_head by blast
  have i: "digit_in 10 (of_char (hex_digit d))" using h(2) by (simp add: digit_in_def digit_val_hex)
  have D: "str_bytes (dec_int v) = 0x2D # str_bytes (dec ?n)" using assms(1) by (simp add: dec_int_def str_bytes_def)
  have E: "str_bytes (dec ?n) = of_char (hex_digit d) # str_bytes t" by (simp add: h(1) str_bytes_def)
  have "scan_digits 10 0 (str_bytes (dec ?n)) = (?n, [])"
    using scan_digits_dec [of 0 ?n "[]"] by simp
  then have "scan_number 10 (str_bytes (dec_int v)) = Some (True, ?n, [])"
    using i by (simp add: scan_number_def D skip_space_def scan_sign_def E)
  with assms show ?thesis by (simp add: strtoll_def int64_def)
qed

lemma number_operand:
  assumes "int64 v"
  shows "source_value f (operand_name (Number v)) = IR_Const v" "operand_name (Number v) \<noteq> []"
    "length (operand_name (Number v)) \<le> 63" "\<forall>c \<in> set (operand_name (Number v)). \<not> is_space c"
proof -
  have n: "nat v < 16 ^ 16" "nat (- v) < 10 ^ 20" using assms by (simp_all add: int64_def, arith+)
  have l: "length (hex (nat v)) \<le> 16" "length (dec (nat (- v))) \<le> 20"
    by (rule length_hex_le [OF n(1)] length_dec_le [OF n(2)], simp)+
  have sp: "\<not> is_space (CHR ''0'')" "\<not> is_space (CHR ''x'')" "\<not> is_space (CHR ''-'')" by (simp_all add: is_space_def)
  show "operand_name (Number v) \<noteq> []" by (simp add: dec_int_def)
  show "length (operand_name (Number v)) \<le> 63" using l by (simp add: dec_int_def)
  show "\<forall>c \<in> set (operand_name (Number v)). \<not> is_space c"
    using hex_no_space dec_no_space sp by (auto simp: dec_int_def)
  show "source_value f (operand_name (Number v)) = IR_Const v"
  proof (cases "v < 0")
    case True
    have "take 2 (dec_int v) \<noteq> ''0x''" "dec_int v \<noteq> []" "hd (dec_int v) = CHR ''-''" using True by (auto simp: dec_int_def)
    with strtoll_neg [OF True assms] True show ?thesis by (simp add: source_value_def e9_ir_const_def)
  next
    case False
    with strtoll_hex [of v] assms show ?thesis by (simp add: source_value_def e9_ir_const_def)
  qed
qed

lemma lift_sound_main:
  assumes "liftable m i x"
  shows "ir_run (lift_instruction (insn_with m (dc_x64_reg_names ! i @ '', '' @ operand_name x))) s =
    Some (s(i := alu m (s i) (operand_value s x)))"
proof -
  define a where "a = dc_x64_reg_names ! i"
  define b where "b = operand_name x"
  from assms have i: "i < 16" by (simp add: liftable_def)
  note a = reg_names [OF i, folded a_def]
  show ?thesis unfolding a_def [symmetric] b_def [symmetric]
  proof (cases x)
    case (Register j)
    with assms have j: "j < 16" by (simp add: liftable_def)
    note b = reg_names [OF j]
    have be: "b = dc_x64_reg_names ! j" by (simp add: b_def Register)
    have sc: "sscanf_pair 31 63 (a @ '', '' @ b) = Some (a, b)" "sscanf_pair 31 31 (a @ '', '' @ b) = Some (a, b)"
      by (rule sscanf_pair_text; use a(1-3) b(1,2,4) in \<open>simp add: be\<close>)+
    from assms Register consider "m = ''mov''" | "m = ''add''" | "m = ''xor''" "j = i" by (auto simp: liftable_def)
    then show "ir_run (lift_instruction (insn_with m (a @ '', '' @ b))) s = Some (s(i := alu m (s i) (operand_value s x)))"
    proof cases
      case 1
      with sc a b show ?thesis by (simp add: lift_instruction_def Let_def be ir_run_def alu_def Register)
    next
      case 2
      with sc a b show ?thesis
        by (simp add: lift_instruction_def Let_def be ir_run_def alu_def Register e9_ir_binary_def)
    next
      case 3
      then have ab: "a = b" by (simp add: a_def be)
      with 3 sc a show ?thesis
        by (simp add: lift_instruction_def Let_def ir_run_def alu_def Register e9_ir_const_def ab)
    qed
  next
    case (Number v)
    with assms have v: "int64 v" by (simp add: liftable_def)
    note b = number_operand [OF v, folded Number, folded b_def]
    have sc: "sscanf_pair 31 63 (a @ '', '' @ b) = Some (a, b)"
      by (rule sscanf_pair_text; use a(1-3) b in simp)
    from assms Number consider "m = ''mov''" | "m = ''add''" | "m = ''sub''" by (auto simp: liftable_def)
    then show "ir_run (lift_instruction (insn_with m (a @ '', '' @ b))) s = Some (s(i := alu m (s i) (operand_value s x)))"
    proof cases
      case 1
      with sc a b(1) show ?thesis by (simp add: lift_instruction_def Let_def ir_run_def alu_def Number)
    next
      case 2
      with sc a b(1) show ?thesis
        by (simp add: lift_instruction_def Let_def ir_run_def alu_def Number e9_ir_binary_def)
    next
      case 3
      with sc a b(1) show ?thesis
        by (simp add: lift_instruction_def Let_def ir_run_def alu_def Number e9_ir_binary_def)
    qed
  qed
qed

section \<open>Properties\<close>

text \<open>
  C5.  For a function whose graph was built with the decoders of the program the C text is known
  exactly: a line for every instruction of every block, which is a call through the address of the
  target for \<open>call\<close>, \<open>return _rax;\<close> for \<open>ret\<close>, and the comment \<open>unlifted\<close> for
  every other instruction, jumps and conditional jumps included.  No access leaves the buffer.
\<close>

theorem decompile_decoded_text:
  assumes "e9_cfg_build (Some bin) (Some (a, e)) = Some (Some cfg)" and "fn_cfg f = Some cfg"
    and "short_name (fn_name f)" and "0 < dc_capacity dc"
  shows "\<exists>f' d. e9_decompile_function_full (Some dc) (Some f) = Some (Some (decoded_text (dc_opts dc) f cfg), Some f', Some d)"
  by (rule decompile_decoded [OF assms])

lemma decompile_decoded_text_witness:
  "\<exists>f' d. e9_decompile_function_full (Some (e9_decompile_create None None))
      (Some ((new_function 0x1000 (Some (str_bytes ''f'')))\<lparr>fn_cfg := Some cfg_demo_graph\<rparr>)) =
    Some (Some (decoded_text (dc_opts (e9_decompile_create None None))
      ((new_function 0x1000 (Some (str_bytes ''f'')))\<lparr>fn_cfg := Some cfg_demo_graph\<rparr>) cfg_demo_graph), Some f', Some d)"
  by (rule decompile_decoded_text [OF cfg_demo_graph])
    (simp_all add: e9_decompile_create_def new_function_def short_name_def str_bytes_def)

text \<open>
  C38.  Decompiling an image does not return the image's C source: every function starts the output
  buffer afresh, so that the header and all functions but the last are lost; what remains is the
  text of the last function, followed by as much of a second copy as fits into the buffer.
\<close>

theorem decompile_binary_last:
  assumes "dc_binary dc = Some bin" and "0 < dc_capacity dc" and "an_functions bin \<noteq> []"
    and "\<forall>f \<in> set (an_functions bin). decompilable f" and "short_name (op_header_include (dc_opts dc))"
  shows "\<exists>t f' d s d'. e9_decompile_function_full (Some dc) (Some (last (an_functions bin))) = Some (Some t, f', d) \<and>
    e9_decompile_binary (Some dc) = Some (Some s, d') \<and> twice t s"
proof -
  let ?f = "last (an_functions bin)"
  have "decompilable ?f" using assms(3,4) by simp
  from decompile_one_text [OF assms(2) this] obtain f' d where
    "decompile_one dc ?f = Some (Some (function_text (dc_opts dc) ?f), f', d)" by blast
  then have "e9_decompile_function_full (Some dc) (Some ?f) = Some (Some (function_text (dc_opts dc) ?f), Some f', Some d)"
    by (simp add: e9_decompile_function_full_def)
  with decompile_binary_twice [OF assms] show ?thesis by blast
qed

text \<open>An image with two functions.\<close>

definition plain_function :: "u64 \<Rightarrow> E9Function" where
  "plain_function a =
     (new_function a (Some (sub_name a)))\<lparr>fn_cfg := Some \<lparr>cfg_blocks = [], cfg_entry = None, cfg_exits = [], cfg_complexity = 2\<rparr>\<rparr>"

definition two_plain :: E9Analysis where
  "two_plain = raw_demo\<lparr>an_functions := [plain_function 8, plain_function 0]\<rparr>"

lemma plain_decompilable: "length (hex (unat a)) \<le> 16 \<Longrightarrow> decompilable (plain_function a)"
  by (simp add: decompilable_def plain_function_def new_function_def short_name_def sub_name_def cfg_max_blocks_def)

lemma decompile_binary_last_witness:
  "\<exists>t f' d s d'. e9_decompile_function_full (Some (e9_decompile_create (Some two_plain) None)) (Some (last (an_functions two_plain))) =
      Some (Some t, f', d) \<and>
    e9_decompile_binary (Some (e9_decompile_create (Some two_plain) None)) = Some (Some s, d') \<and> twice t s"
proof (rule decompile_binary_last)
  show "\<forall>f \<in> set (an_functions two_plain). decompilable f"
    using plain_decompilable [OF length_hex_u64] by (simp add: two_plain_def)
qed (simp_all add: e9_decompile_create_def two_plain_def dc_default_opts_def short_name_def)

text \<open>
  C28.  \<open>emit\<close> makes room for 1024 bytes whatever the length of the text: with a name of more than
  twice the capacity of the buffer plus 1024 bytes the position passes the end of the buffer, and
  the next piece is written behind it.  The names come from the symbol table of the file.
\<close>

theorem decompile_long_name:
  assumes "fn_cfg f = Some cfg" and "fn_name f = Some n" and "1024 \<le> dc_capacity dc"
    and "2 * dc_capacity dc + 1024 \<le> length n"
  shows "e9_decompile_function_full (Some dc) (Some f) = None"
proof -
  have self: "f\<lparr>fn_cfg := Some cfg\<rparr> = f" using assms(1) by simp
  have lift: "e9_decompile_lift (Some dc) (Some f) = Some (lifted f cfg)"
    by (simp add: e9_decompile_lift_def assms(1) lifted_def)
  have "dc_emits ps (dc_reset dc) = None" if ps: "function_pieces (dc_opts dc) (lifted f cfg) = Some ps" for ps
  proof -
    from ps obtain b where "ps = signature_pieces (dc_opts dc) (lifted f cfg) @ declaration_pieces (dc_opts dc) @ b @ [str_bytes ''}\<newline>'']"
      by (auto simp: function_pieces_def Option.bind_eq_Some_conv)
    then obtain p q qs where "ps = p # q # qs" "length n < length p"
      by (cases "op_emit_comments (dc_opts dc)") (auto simp: signature_pieces_def lifted_def assms(2) param_pieces_def type_to_c_def)
    with long_piece [OF assms(3), of p q qs] assms(4) show ?thesis by simp
  qed
  then have "e9_decompile_emit_c (Some dc) (Some (lifted f cfg)) = None"
    by (cases "function_pieces (dc_opts dc) (lifted f cfg)") (simp_all add: e9_decompile_emit_c_def)
  then show ?thesis
    by (simp add: e9_decompile_function_full_def decompile_one_def assms(1) Let_def self lift structure_lifted)
qed

lemma decompile_long_name_witness:
  "e9_decompile_function_full (Some (e9_decompile_create None None))
    (Some ((plain_function 0)\<lparr>fn_name := Some (replicate 140000 0x41)\<rparr>)) = None"
  by (rule decompile_long_name [where n = "replicate 140000 0x41"])
    (simp_all add: e9_decompile_create_def plain_function_def)

text \<open>
  C7.  Instructions in Intel syntax on 64-bit registers are lifted correctly: for \<open>mov\<close> and
  \<open>add\<close> with a register or a number, \<open>sub\<close> with a number, and \<open>xor\<close> of a register with
  itself, the assignment that is made computes what the instruction computes.
\<close>

theorem lift_sound:
  assumes "liftable m i x"
  shows "ir_run (lift_instruction (insn_with m (dc_x64_reg_names ! i @ '', '' @ operand_name x))) s =
    Some (s(i := alu m (s i) (operand_value s x)))"
  by (rule lift_sound_main [OF assms])

lemma lift_sound_witness:
  "ir_run (lift_instruction (insn_with ''sub'' (dc_x64_reg_names ! 7 @ '', '' @ operand_name (Number 40)))) (\<lambda>_. 100) =
    Some ((\<lambda>_. 100)(7 := alu ''sub'' 100 (operand_value (\<lambda>_. 100) (Number 40))))"
  by (rule lift_sound) (simp add: liftable_def int64_def)

end
