(* ===== verification/Spec2Isabelle.thy ===== *)
theory Spec2Isabelle
  imports E9Ape E9LiveReload E9BinPatch E9DisasmX86 E9DisasmA64 E9Emitted E9Crc32 E9Strings E9Signatures E9MultiArch E9Identify
    E9PatchDecode E9Cfg E9AnPipeline E9Diff E9CGen E9FuncSigs E9Decompile
begin

text \<open>
  A verification library for the C code of e9studio, the analysis and patching layer that this
  repository adds to e9patch (\<open>src/src/e9patch\<close>).

  \<^bold>\<open>The program.\<close>  e9studio edits binaries in memory.  An executable image in the APE format is
  located and parsed (\<open>e9ape.c\<close>); a live reload engine watches source files, compiles them,
  compares the objects and patches the running image (\<open>e9livereload.c\<close>); the analysis engine
  detects the format of a binary, reads its symbols, discovers functions and builds their control
  flow graphs (\<open>analysis/e9analysis.c\<close>); a database of byte patterns names the functions that come
  from known libraries (\<open>analysis/e9func_sigs.c\<close>), and a decompiler lifts a control flow graph to an
  intermediate representation and prints it as C (\<open>analysis/e9decompile.c\<close>); a session of binary patches collects edits of an analysed
  binary, finds code caves for trampolines and writes a new binary (\<open>analysis/e9binpatch.c\<close>); a
  self-contained library of small parsers identifies and disassembles code (\<open>vendor\<close>).  The image,
  the patch tables, the patch sessions and the analysed binary are the state; everything else is a
  function of byte buffers.

  \<^bold>\<open>Conventions\<close> (theory E9Prelude).  A C object of \<open>n\<close> bytes is a list of \<open>n\<close> words of 8 bits
  and a pointer into it an index.  Every access is checked: a result \<open>None\<close> of type \<open>'a ub\<close> means
  that the code has left the object.  A pointer that may be \<open>NULL\<close> is an \<open>'a ptr\<close>.  Unsigned
  integers keep their width as words, so that their arithmetic wraps where the code's does;
  signed ones are integers with the conversions written out.  Sizes and indices of objects are
  natural numbers, which is exact below \<open>2 ^ 63\<close>.  Memory allocation succeeds.

  \<^bold>\<open>Theories, in the order of the code.\<close>

  \<^item> E9Buffer, E9Machine: the buffer interface (a locale whose laws say what a checked write
    preserves) and the runs of a machine over a step function, with the induction rule for
    invariants of reachable states.
  \<^item> E9Ape (\<open>e9ape.c\<close>, \<open>e9ape.h\<close>): detection, parsing, translation between file offsets and
    addresses, patching, the ZipOS directory.  The lemmas show total and safe parsing when the
    headers lie in the image, what a successful parse has found, the round trip of the address
    translations, and concrete files on which the code reads outside the image.
  \<^item> E9LiveReload (\<open>e9livereload.c\<close>, with the object differ of \<open>wasm/e9binaryen.c\<close> and the cache
    flush of \<open>wasm/e9wasm_host.c\<close>): the global state \<open>g_state\<close> is the record \<open>LiveReloadState\<close> inside
    \<open>machine\<close>, every interface function is one definition, and the calls of a client are the step
    relation \<open>lr_step\<close>.  An invariant of all reachable states, the effect of applying, reverting,
    polling and generating patches, and the queries.  Compiler, file system, inotify and differ
    are the parameter \<open>lr_env\<close>.
  \<^item> E9BinPatch (\<open>analysis/e9binpatch.c\<close>): address translation, NOP, jump and call encodings, code
    caves, the session with its patch table, validation, application, reversal and verification.
    An invariant of reachable sessions, the correspondence of validation with disjointness, the
    exact effect of in-place patches, caves found and allocated.
  \<^item> E9BinaryCtx, E9AnCtx (\<open>analysis/e9analysis.h\<close>): \<open>struct E9Binary\<close>, as the patch sessions see it
    and with everything the analysis engine computes; the linked lists of symbols, functions and
    mappings are lists, head first.
  \<^item> E9Insn: the engine's own x86-64 and AArch64 decoders, total and typed on every file, and where
    their lengths and classes are wrong.  E9PatchDecode: the branches that the patch sessions write
    are decoded by the engine as branches to the requested targets.
  \<^item> E9Cfg: linear disassembly and \<open>e9_cfg_build\<close>.  What the loops need of a decoder is the locale
    \<open>insn_source\<close>, interpreted on \<open>e9_disasm_instruction\<close> for every binary.  The three passes
    terminate within their arrays, blocks are straight sweeps from the sorted leaders, and the
    edges are those of the specification \<open>block_succs\<close>.
  \<^item> E9Sort: the in-place exchange sort that the code writes out twice, as the locale \<open>exchange_sort\<close>
    over a key and an exchange step; it is interpreted on the block leaders of E9Cfg and on the
    signature matches of E9FuncSigs.
  \<^item> E9Discover: the function list, the recursive descent along calls, the scan for prologues; every
    discovered function is closed under calls.
  \<^item> E9SymTab: ELF and PE symbols, the symbol list, generated names, export and import of symbol
    files with the conversions of \<open>sscanf\<close> that the import uses.
  \<^item> E9Detect: \<open>e9_binary_detect\<close> with the ELF, PE, Mach-O, APE and raw cases, and the views of an APE
    file; the APE test equals its specification by signatures.
  \<^item> E9AnPipeline: \<open>e9_binary_analyze\<close>, the composition of all of these, with calling conventions and
    source mappings; what a successful analysis has established, and success on raw images.
  \<^item> E9Diff: \<open>e9_diff_objects\<close>; its patches are the maximal runs of differing bytes, and applying
    them turns the old function into the new one.
  \<^item> E9CGen: the generated C text, header, source and DOT graph, with the buffer arithmetic of
    repeated \<open>snprintf\<close>.
  \<^item> E9FuncSigs (\<open>analysis/e9func_sigs.c\<close>): the built-in tables, the database, patterns with masks,
    the search for system call numbers, the matcher, the pass that renames the functions of an
    analysed binary, and the export.  The matcher returns exactly the signatures that identify the
    code (\<open>identifies\<close>), in the order of their confidence; since it reads on to the end of the file
    it names functions after code that is not theirs, and after \<open>e9_binary_analyze\<close> the pass names
    nothing, because it looks for names that the analysis does not generate.
  \<^item> E9Decompile (\<open>analysis/e9decompile.c\<close>): the growing output buffer with its \<open>vsnprintf\<close>, the
    values and statements of the intermediate representation (\<open>E9IRValue\<close>, \<open>E9IRStmt\<close>), operand
    parsing, lifting, printing and the pipeline.  The buffer is an append-only text as long as
    every piece is short, and every piece of lifted code is; so the output of a decoded function is
    the concatenation of its pieces.  A lifted \<open>mov\<close>, \<open>add\<close>, \<open>sub\<close> or \<open>xor\<close> on 64-bit
    registers means what the instruction does to its registers.  A function name that does not fit the growth step
    of the buffer, and images with several functions, show where the code fails.
  \<^item> E9Text: \<open>snprintf\<close>, as far as the code uses it, and the idiom \<open>p += snprintf(p, end - p, ..)\<close>
    with its failure when \<open>p\<close> has passed \<open>end\<close>.
  \<^item> E9Disasm: the locale \<open>decoder\<close>, the contract between a decoder of single instructions and the
    loop over a buffer; its lemmas (totality, progress, coverage) are proved once and interpreted
    in three theories.
  \<^item> E9DisasmX86, E9DisasmA64 (\<open>vendor/e9disasm_x86.c\<close>, \<open>vendor/e9disasm_arm64.c\<close>): both decoders
    and formatters completely, safety for all inputs, and what they misdecode.
  \<^item> E9Emitted: the branches and NOPs emitted by E9BinPatch read back by the disassemblers.
  \<^item> E9Crc32, E9Strings, E9Signatures, E9MultiArch, E9Identify (\<open>vendor/e9vendor.c\<close>,
    \<open>vendor/e9signatures.c\<close>): the table-driven CRC against polynomial division; string extraction
    against maximal runs; the indexed signature scan against its specification (locale
    \<open>sig_index\<close>, interpreted on the database of the repository); the architecture-independent
    disassembler as a refinement of the x86 decoder, and its listings; identification of files.

  \<^bold>\<open>Bounds and fuel.\<close>  \<open>X86_MAX\<close> is \<open>2 ^ 31 - 16\<close>: the x86 decoder compares positions with
  \<open>(int)size\<close>, which is exact up to there.  \<open>BIN_MAX\<close> and \<open>OBJ_MAX\<close> bound the sizes of binaries
  and images so that the sums of offsets and lengths in the code do not wrap; both are far above
  what a process can map.  Identification is stated up to \<open>2 ^ 32 - 6\<close> bytes, where its 32-bit
  bounds check stops being meaningful, and the false alarm of the polyglot flag up to 16 MiB, so
  that the number of matches fits 32 bits.  Loops are recursive functions with a measure or
  over the list they traverse; the listing loop of \<open>e9_disasm_dump\<close> has the number of bytes as
  fuel, which suffices because every decoded instruction has at least one byte.  Loops of the analysis engine that
  follow the decoded code are partial functions into \<open>option\<close> whose totality is proved.  The
  recursion of function discovery takes the depth of the C stack as fuel; \<open>discover_depth\<close>, twice
  the size of the file plus two, is enough because every level adds a function at a new call
  target and an offset is decoded at two addresses at most.  The windows of 0x10000 bytes and the
  1024 blocks and patches are the constants of the code.

  \<^bold>\<open>Not modelled.\<close>  In the modelled files: the release of memory; the path lookup and the debug
  dump of \<open>e9ape.c\<close> and the compiler queries of \<open>e9livereload.c\<close> (operating system); the text
  summary of \<open>e9binpatch.c\<close>; the entropy analysis of \<open>e9vendor.c\<close> (floating point logarithms) and
  its version texts; reading the file and the release of memory in \<open>e9analysis.c\<close>, and the members
  of its structures that no code uses (types, cross references, strings).  Of the repository: the
  polyglot, external function and extension modules that build on the analysis engine, the process memory wrapper \<open>e9procmem.c\<close>, the WebAssembly host and
  the IDE protocol; the C++ core of e9patch and e9tool, a different program; the vendored Zydis,
  libdw and WAMR; the IDE and browser plugins, the graphical front end, the examples, generated
  code and the tests.
\<close>

end
